(* ===== verification/Kernel_Prelude.thy ===== *)
theory Kernel_Prelude
  imports Main "HOL-Library.Word" "HOL-Library.Monad_Syntax"
begin

text \<open>
  Shared base of the development: the machine integers of the i386 build, byte buffers
  (C objects seen from a pointer to their end), little-endian loads and stores, and the
  generic lemmas about lists and words the components use.

  Conventions of the model.
  \<^item> \<open>uint8_t\<close>, \<open>uint16_t\<close> and \<open>uint32_t\<close> are \<open>u8\<close>, \<open>u16\<close>, \<open>u32\<close>; their
    arithmetic wraps as it does in C.
  \<^item> A C object is the list of its bytes.  An access that leaves the object has no
    defined result.
  \<^item> A function that may fail to return (a loop that does not end, a CPU exception such
    as a division by zero, after which the kernel halts) or that may leave an object has
    an \<open>option\<close> result; \<open>None\<close> stands for all of these.
\<close>

unbundle bit_operations_syntax

type_synonym u8 = "8 word"
type_synonym u16 = "16 word"
type_synonym u32 = "32 word"
type_synonym bytes = "8 word list"

named_theorems codec_simps
named_theorems store_simps

section \<open>Ranges of the machine integers\<close>

lemma unat_u8: "unat (w :: u8) < 256"
  using unsigned_less[of w, where 'a = nat] by simp

lemma unat_u16: "unat (w :: u16) < 65536"
  using unsigned_less[of w, where 'a = nat] by simp

lemma unat_u32: "unat (w :: u32) < 4294967296"
  using unsigned_less[of w, where 'a = nat] by simp

section \<open>Byte buffers\<close>

text \<open>\<open>load buf off n\<close> reads \<open>n\<close> bytes at offset \<open>off\<close>, \<open>store buf off bs\<close> overwrites them.\<close>

definition load :: "bytes \<Rightarrow> nat \<Rightarrow> nat \<Rightarrow> bytes option" where
  "load buf off n = (if off + n \<le> length buf then Some (take n (drop off buf)) else None)"

definition store :: "bytes \<Rightarrow> nat \<Rightarrow> bytes \<Rightarrow> bytes option" where
  "store buf off bs =
     (if off + length bs \<le> length buf
      then Some (take off buf @ bs @ drop (off + length bs) buf) else None)"

text \<open>\<open>put_at\<close> is the store without the bounds check, for offsets known to be inside.\<close>

definition put_at :: "bytes \<Rightarrow> nat \<Rightarrow> bytes \<Rightarrow> bytes" where
  "put_at buf off bs = take off buf @ bs @ drop (off + length bs) buf"

lemma store_put_at: "off + length bs \<le> length buf \<Longrightarrow> store buf off bs = Some (put_at buf off bs)"
  by (simp add: store_def put_at_def)

lemma length_put_at: "off + length bs \<le> length buf \<Longrightarrow> length (put_at buf off bs) = length buf"
  by (simp add: put_at_def)

lemma store_length: "store buf off bs = Some buf' \<Longrightarrow> length buf' = length buf"
  by (auto simp: store_def split: if_splits)

lemma store_defined [store_simps]:
  "off + length bs \<le> length buf \<Longrightarrow>
   store buf off bs = Some (take off buf @ bs @ drop (off + length bs) buf)"
  by (simp add: store_def)

lemma load_defined [store_simps]:
  "off + n \<le> length buf \<Longrightarrow> load buf off n = Some (take n (drop off buf))"
  by (simp add: load_def)

lemma load_store_same:
  "store buf off bs = Some buf' \<Longrightarrow> load buf' off (length bs) = Some bs"
  by (auto simp: store_def load_def split: if_splits)

lemma load_store_disjoint:
  assumes "store buf off bs = Some buf'" and "off' + n \<le> off \<or> off + length bs \<le> off'"
  shows "load buf' off' n = load buf off' n"
proof (cases "off' + n \<le> length buf")
  case True
  from assms(1) have len: "off + length bs \<le> length buf"
    and buf': "buf' = take off buf @ bs @ drop (off + length bs) buf"
    by (auto simp: store_def split: if_splits)
  from assms(2) have "take n (drop off' buf') = take n (drop off' buf)"
  proof
    assume "off' + n \<le> off"
    then show ?thesis using len True
      by (simp add: buf' take_drop min_def)
  next
    assume a: "off + length bs \<le> off'"
    then have "drop off' buf' = drop off' buf"
      using len by (simp add: buf' drop_append)
    then show ?thesis by simp
  qed
  with True assms(1) show ?thesis
    by (simp add: load_def store_length)
next
  case False
  with assms(1) show ?thesis by (simp add: load_def store_length)
qed

lemma nth_store:
  "store buf off bs = Some buf' \<Longrightarrow> i < length buf \<Longrightarrow>
   buf' ! i = (if off \<le> i \<and> i < off + length bs then bs ! (i - off) else buf ! i)"
  by (auto simp: store_def nth_append min_def split: if_splits)

section \<open>Little-endian integers\<close>

text \<open>The i386 stores the low byte first; \<open>packed\<close> structures have no padding.\<close>

definition le16 :: "u16 \<Rightarrow> bytes" where
  "le16 w = [ucast w, ucast (drop_bit 8 w)]"

definition le32 :: "u32 \<Rightarrow> bytes" where
  "le32 w = [ucast w, ucast (drop_bit 8 w), ucast (drop_bit 16 w), ucast (drop_bit 24 w)]"

definition get8 :: "bytes \<Rightarrow> nat \<Rightarrow> u8" where
  "get8 bs i = bs ! i"

definition get16 :: "bytes \<Rightarrow> nat \<Rightarrow> u16" where
  "get16 bs i = ucast (bs ! i) OR push_bit 8 (ucast (bs ! Suc i))"

definition get32 :: "bytes \<Rightarrow> nat \<Rightarrow> u32" where
  "get32 bs i = ucast (bs ! i) OR push_bit 8 (ucast (bs ! (i + 1)))
     OR push_bit 16 (ucast (bs ! (i + 2))) OR push_bit 24 (ucast (bs ! (i + 3)))"

lemma length_le16 [simp]: "length (le16 w) = 2"
  by (simp add: le16_def)

lemma length_le32 [simp]: "length (le32 w) = 4"
  by (simp add: le32_def)

lemma bit_u8_high [simp]: "8 \<le> n \<Longrightarrow> \<not> bit (w :: u8) n"
  using bit_imp_le_length[of w n] by auto

lemma word16_of_bytes:
  "(ucast (ucast w :: u8) :: u16) OR push_bit 8 (ucast (ucast (drop_bit 8 w) :: u8)) = w"
  by (rule bit_word_eqI) (auto simp: bit_simps)

lemma word32_of_bytes:
  "(ucast (ucast w :: u8) :: u32) OR push_bit 8 (ucast (ucast (drop_bit 8 w) :: u8))
     OR push_bit 16 (ucast (ucast (drop_bit 16 w) :: u8))
     OR push_bit 24 (ucast (ucast (drop_bit 24 w) :: u8)) = w" (is "?l = w")
proof (rule bit_word_eqI)
  fix n assume "n < LENGTH(32)"
  then consider "n < 8" | "8 \<le> n" "n < 16" | "16 \<le> n" "n < 24" | "24 \<le> n" "n < 32"
    by fastforce
  then show "bit ?l n = bit w n"
    by cases (auto simp: bit_simps)
qed

lemma get16_le16 [codec_simps]: "get16 (le16 w) 0 = w"
  by (simp add: get16_def le16_def word16_of_bytes)

lemma get32_le32 [codec_simps]: "get32 (le32 w) 0 = w"
  using word32_of_bytes[of w] by (simp add: get32_def le32_def)

lemma le16_get16: "le16 (ucast a OR push_bit 8 (ucast b)) = [a, b]"
  unfolding le16_def by (auto intro!: bit_word_eqI simp: bit_simps)

lemma le32_get32:
  "le32 (ucast a OR push_bit 8 (ucast b) OR push_bit 16 (ucast c) OR push_bit 24 (ucast d))
   = [a, b, c, d]"
  unfolding le32_def by (auto intro!: bit_word_eqI simp: bit_simps)

lemma get32_load: "load bs i 4 = Some xs \<Longrightarrow> get32 bs i = get32 xs 0"
  by (auto simp: load_def get32_def split: if_splits)

lemma get16_load: "load bs i 2 = Some xs \<Longrightarrow> get16 bs i = get16 xs 0"
  by (auto simp: load_def get16_def split: if_splits)

lemma get32_store_same: "store bs i (le32 w) = Some bs' \<Longrightarrow> get32 bs' i = w"
  using load_store_same[of bs i "le32 w" bs'] get32_load[of bs' i "le32 w"]
  by (simp add: get32_le32)

lemma get32_store_disjoint:
  assumes "store bs i xs = Some bs'" and "j + 4 \<le> i \<or> i + length xs \<le> j"
    and "j + 4 \<le> length bs"
  shows "get32 bs' j = get32 bs j"
proof -
  have "load bs' j 4 = load bs j 4" using assms(1,2) by (rule load_store_disjoint)
  moreover from assms(3) have "load bs j 4 = Some (take 4 (drop j bs))" by (simp add: load_def)
  ultimately show ?thesis by (metis get32_load)
qed

section \<open>Memory\<close>

text \<open>\<open>ram_put\<close> stores bytes at consecutive addresses of a memory.\<close>

definition ram_put :: "u32 \<Rightarrow> bytes \<Rightarrow> (u32 \<Rightarrow> u8) \<Rightarrow> u32 \<Rightarrow> u8" where
  "ram_put a bs m x = (if unat (x - a) < length bs then bs ! unat (x - a) else m x)"

definition ram_get :: "u32 \<Rightarrow> nat \<Rightarrow> (u32 \<Rightarrow> u8) \<Rightarrow> bytes" where
  "ram_get a n m = map (\<lambda>k. m (a + of_nat k)) [0..<n]"

lemma length_ram_get [simp]: "length (ram_get a n m) = n"
  by (simp add: ram_get_def)

lemma unat_of_nat_u32: "k < 2 ^ 32 \<Longrightarrow> unat (of_nat k :: u32) = k"
  by (simp add: unat_of_nat take_bit_nat_eq_self)

lemma ram_get_put_same:
  "length bs < 2 ^ 32 \<Longrightarrow> n \<le> length bs \<Longrightarrow> ram_get a n (ram_put a bs m) = take n bs"
  by (auto simp: ram_get_def ram_put_def unat_of_nat_u32 intro!: nth_equalityI)

lemma ram_get_put_tail:
  assumes "length bs + length zs < 2 ^ 32"
  shows "ram_get a (length bs + length zs) (ram_put (a + of_nat (length bs)) zs (ram_put a bs m)) = bs @ zs"
proof (rule nth_equalityI)
  fix k assume "k < length (ram_get a (length bs + length zs) (ram_put (a + of_nat (length bs)) zs (ram_put a bs m)))"
  then have k: "k < length bs + length zs" by simp
  show "ram_get a (length bs + length zs) (ram_put (a + of_nat (length bs)) zs (ram_put a bs m)) ! k = (bs @ zs) ! k"
  proof (cases "k < length bs")
    case True
    have eq: "a + of_nat k - (a + of_nat (length bs)) = (of_nat k :: u32) - of_nat (length bs)"
      by simp
    have "unat ((of_nat k :: u32) - of_nat (length bs)) = k + 2 ^ 32 - length bs"
      using True assms by (subst unat_sub_if') (simp add: unat_of_nat_u32)
    then have "\<not> unat (a + of_nat k - (a + of_nat (length bs)) :: u32) < length zs"
      using assms True by (simp only: eq)
    then show ?thesis
      using True k assms by (simp add: ram_get_def ram_put_def unat_of_nat_u32 nth_append)
  next
    case False
    have "unat ((of_nat k :: u32) - of_nat (length bs)) = k - length bs"
      using False k assms by (subst unat_sub_if') (simp add: unat_of_nat_u32)
    moreover have "k - length bs < length zs" using False k by linarith
    ultimately show ?thesis
      using False k by (simp add: ram_get_def ram_put_def nth_append)
  qed
qed simp

definition rd32 :: "(u32 \<Rightarrow> u8) \<Rightarrow> u32 \<Rightarrow> u32" where
  "rd32 m a = get32 (ram_get a 4 m) 0"

definition wr32 :: "u32 \<Rightarrow> u32 \<Rightarrow> (u32 \<Rightarrow> u8) \<Rightarrow> u32 \<Rightarrow> u8" where
  "wr32 a v = ram_put a (le32 v)"

lemma rd32_wr32: "rd32 (wr32 a v m) a = v"
  using ram_get_put_same[of "le32 v" 4 a m] by (simp add: rd32_def wr32_def get32_le32)

lemma ram_put_other: "length bs \<le> unat (x - a) \<Longrightarrow> ram_put a bs m x = m x"
  by (simp add: ram_put_def)

text \<open>A power of two as an alignment: \<open>(w + 2 ^ k - 1) & ~(2 ^ k - 1)\<close> rounds up.\<close>

lemma and_not_mask_unat: "unat ((w :: u32) AND NOT (mask k)) = unat w div 2 ^ k * 2 ^ k"
proof -
  have "w AND NOT (mask k) = push_bit k (drop_bit k w)"
    by (rule bit_word_eqI) (auto simp: bit_simps)
  moreover have "unat (push_bit k (drop_bit k w)) = push_bit k (drop_bit k (unat w))"
    by (rule bit_eqI) (auto simp: bit_simps bit_unsigned_iff dest: bit_imp_le_length)
  ultimately show ?thesis by (simp add: push_bit_eq_mult drop_bit_eq_div)
qed

end
