(* ===== verification/Kernel_Libc.thy ===== *)
theory Kernel_Libc
  imports Kernel_Prelude "HOL-Library.Signed_Division"
begin

text \<open>
  The kernel's C library: \<open>src/lib/libc.c\<close>, \<open>src/lib/string.c\<close> and \<open>src/lib/katoi.c\<close>.
  A pointer argument is the byte list from the pointer to the end of its object, so a
  loop that runs off the object is \<open>None\<close>.  Each loop is a recursive function over the
  bytes; its specification is stated with the list library (\<open>replicate\<close>, \<open>take\<close>,
  \<open>takeWhile\<close>), and decimal conversion is related to a reference positional notation.
\<close>

section \<open>Memory blocks\<close>

fun memset_loop :: "bytes \<Rightarrow> u8 \<Rightarrow> nat \<Rightarrow> bytes option" where
  "memset_loop p v 0 = Some p"
| "memset_loop [] v (Suc n) = None"
| "memset_loop (_ # p) v (Suc n) = map_option (Cons v) (memset_loop p v n)"

definition memset :: "bytes \<Rightarrow> u32 \<Rightarrow> u32 \<Rightarrow> bytes option" where
  "memset ptr value num = memset_loop ptr (ucast value) (unat num)"

fun memcpy_loop :: "bytes \<Rightarrow> bytes \<Rightarrow> nat \<Rightarrow> bytes option" where
  "memcpy_loop d s 0 = Some d"
| "memcpy_loop (_ # d) (c # s) (Suc n) = map_option (Cons c) (memcpy_loop d s n)"
| "memcpy_loop _ _ (Suc n) = None"

definition memcpy :: "bytes \<Rightarrow> bytes \<Rightarrow> u32 \<Rightarrow> bytes option" where
  "memcpy dest src n = memcpy_loop dest src (unat n)"

fun memcmp_loop :: "bytes \<Rightarrow> bytes \<Rightarrow> nat \<Rightarrow> int option" where
  "memcmp_loop p1 p2 0 = Some 0"
| "memcmp_loop (a # p1) (b # p2) (Suc n) =
     (if a \<noteq> b then Some (uint a - uint b) else memcmp_loop p1 p2 n)"
| "memcmp_loop _ _ (Suc n) = None"

definition memcmp :: "bytes \<Rightarrow> bytes \<Rightarrow> u32 \<Rightarrow> int option" where
  "memcmp s1 s2 n = memcmp_loop s1 s2 (unat n)"

section \<open>C strings\<close>

text \<open>\<open>cstr\<close> is the string a pointer denotes; \<open>is_cstr\<close> says the object holds its terminator.\<close>

definition cstr :: "bytes \<Rightarrow> bytes" where
  "cstr s = takeWhile (\<lambda>c. c \<noteq> 0) s"

definition is_cstr :: "bytes \<Rightarrow> bool" where
  "is_cstr s \<longleftrightarrow> 0 \<in> set s"

text \<open>\<open>ascii\<close> is the bytes of a string literal, without its terminator.\<close>

definition ascii :: "string \<Rightarrow> bytes" where
  "ascii s = map of_char s"

fun strcmp :: "bytes \<Rightarrow> bytes \<Rightarrow> int option" where
  "strcmp (a # s1) (b # s2) =
     (if a \<noteq> 0 \<and> a = b then strcmp s1 s2 else Some (uint a - uint b))"
| "strcmp _ _ = None"

fun strncmp_loop :: "bytes \<Rightarrow> bytes \<Rightarrow> nat \<Rightarrow> int option" where
  "strncmp_loop s1 s2 0 = Some 0"
| "strncmp_loop (a # s1) (b # s2) (Suc n) =
     (if a \<noteq> b \<or> a = 0 \<or> b = 0 then Some (uint a - uint b) else strncmp_loop s1 s2 n)"
| "strncmp_loop _ _ (Suc n) = None"

definition strncmp :: "bytes \<Rightarrow> bytes \<Rightarrow> int \<Rightarrow> int option" where
  "strncmp s1 s2 n = strncmp_loop s1 s2 (nat n)"

fun strlen :: "bytes \<Rightarrow> nat option" where
  "strlen [] = None"
| "strlen (c # s) = (if c = 0 then Some 0 else map_option Suc (strlen s))"

fun strcpy :: "bytes \<Rightarrow> bytes \<Rightarrow> bytes option" where
  "strcpy (_ # d) (c # s) = (if c = 0 then Some (0 # d) else map_option (Cons c) (strcpy d s))"
| "strcpy _ _ = None"

fun strncpy_loop :: "bytes \<Rightarrow> bytes \<Rightarrow> nat \<Rightarrow> bytes option" where
  "strncpy_loop d s 0 = Some d"
| "strncpy_loop d [] (Suc n) = None"
| "strncpy_loop d (c # s) (Suc n) =
     (if c = 0 then memset_loop d 0 (Suc n)
      else (case d of [] \<Rightarrow> None | _ # d' \<Rightarrow> map_option (Cons c) (strncpy_loop d' s n)))"

definition strncpy :: "bytes \<Rightarrow> bytes \<Rightarrow> int \<Rightarrow> bytes option" where
  "strncpy dest src n = strncpy_loop dest src (nat n)"

fun strcat :: "bytes \<Rightarrow> bytes \<Rightarrow> bytes option" where
  "strcat [] s = None"
| "strcat (a # d) s = (if a = 0 then strcpy (a # d) s else map_option (Cons a) (strcat d s))"

section \<open>Numbers in strings\<close>

definition INT_MAX :: int where "INT_MAX = 2147483647"

definition is_digit :: "u8 \<Rightarrow> bool" where
  "is_digit c \<longleftrightarrow> 48 \<le> c \<and> c \<le> 57"

text \<open>The digit loop of \<open>atoi\<close> and \<open>katoi\<close>; a signed overflow has no defined result.\<close>

fun atoi_digits :: "int \<Rightarrow> bytes \<Rightarrow> int option" where
  "atoi_digits result [] = None"
| "atoi_digits result (c # str) =
     (if is_digit c then
        (let result' = result * 10 + (uint c - 48)
         in if result' > INT_MAX then None else atoi_digits result' str)
      else Some result)"

definition atoi_signed :: "bytes \<Rightarrow> int option" where
  "atoi_signed str =
     (case str of [] \<Rightarrow> None
      | c # str' \<Rightarrow>
          if c = 45 then map_option (\<lambda>r. - 1 * r) (atoi_digits 0 str')
          else if c = 43 then map_option (\<lambda>r. 1 * r) (atoi_digits 0 str')
          else map_option (\<lambda>r. 1 * r) (atoi_digits 0 str))"

definition atoi :: "bytes \<Rightarrow> int option" where
  "atoi str = atoi_signed (dropWhile (\<lambda>c. c = 32 \<or> c = 9 \<or> c = 10) str)"

definition katoi :: "bytes \<Rightarrow> int option" where
  "katoi str = atoi_signed (dropWhile (\<lambda>c. c = 32 \<or> c = 9) str)"

definition hex_digits :: bytes where
  "hex_digits = [48, 49, 50, 51, 52, 53, 54, 55, 56, 57, 97, 98, 99, 100, 101, 102, 0]"

text \<open>The conversion loop of \<open>itoa\<close>: the digits of \<open>value\<close>, lowest first, picked from
  \<open>"0123456789abcdef"\<close> by an index that must lie in that literal.\<close>

partial_function (option) itoa_loop :: "int \<Rightarrow> int \<Rightarrow> bytes option" where
  "itoa_loop value base =
     (if value = 0 then Some []
      else let tmp_value = value; value' = value sdiv base; i = tmp_value - value' * base
           in if i < 0 \<or> 16 < i then None
              else Option.bind (itoa_loop value' base) (\<lambda>r. Some (hex_digits ! nat i # r)))"

declare itoa_loop.simps [code]

text \<open>The closing loop of \<open>itoa\<close> swaps the two ends of the text until they meet.\<close>

function itoa_reverse :: "bytes \<Rightarrow> nat \<Rightarrow> nat \<Rightarrow> bytes" where
  "itoa_reverse str i j =
     (if i < j then itoa_reverse (str[i := str ! j, j := str ! i]) (Suc i) (j - 1) else str)"
  by pat_completeness auto
termination
  by (relation "measure (\<lambda>(str, i, j). j - i)") auto

declare itoa_reverse.simps [simp del]

definition itoa :: "u32 \<Rightarrow> bytes \<Rightarrow> int \<Rightarrow> bytes option" where
  "itoa value str base =
     (if base < 2 \<or> base > 16 then store str 0 [0]
      else if value = 0 then store str 0 [48, 0]
      else let v = sint value; is_negative = v < 0 \<and> base = 10 in
        if is_negative \<and> - v > INT_MAX then None
        else do {
          ds \<leftarrow> itoa_loop (if is_negative then - v else v) base;
          let txt = ds @ (if is_negative then [45] else []);
          str1 \<leftarrow> store str 0 (txt @ [0]);
          Some (itoa_reverse str1 0 (length txt - 1))
        })"

section \<open>Specifications of the loops\<close>

lemma memset_loop_eq:
  "memset_loop p v n = (if n \<le> length p then Some (replicate n v @ drop n p) else None)"
  by (induction p v n rule: memset_loop.induct) auto

lemma memset_spec:
  "memset p v n =
     (if unat n \<le> length p then Some (replicate (unat n) (ucast v) @ drop (unat n) p) else None)"
  by (simp add: memset_def memset_loop_eq)

lemma memcpy_loop_eq:
  "memcpy_loop d s n =
     (if n \<le> length d \<and> n \<le> length s then Some (take n s @ drop n d) else None)"
  by (induction d s n rule: memcpy_loop.induct) auto

lemma memcpy_spec:
  "memcpy d s n =
     (if unat n \<le> length d \<and> unat n \<le> length s
      then Some (take (unat n) s @ drop (unat n) d) else None)"
  by (simp add: memcpy_def memcpy_loop_eq)

lemma memcmp_loop_zero_iff:
  "n \<le> length a \<Longrightarrow> n \<le> length b \<Longrightarrow>
   (\<exists>r. memcmp_loop a b n = Some r \<and> (r = 0 \<longleftrightarrow> take n a = take n b))"
  by (induction a b n rule: memcmp_loop.induct) (auto dest: unsigned_word_eqI)

lemma memcmp_zero_iff:
  assumes "unat n \<le> length a" and "unat n \<le> length b"
  shows "memcmp a b n = Some 0 \<longleftrightarrow> take (unat n) a = take (unat n) b"
  using memcmp_loop_zero_iff[OF assms] by (auto simp: memcmp_def)

lemma is_cstr_split: "is_cstr s \<Longrightarrow> \<exists>r. s = cstr s @ 0 # r"
  unfolding is_cstr_def cstr_def
  by (induction s) auto

lemma cstr_no_nul: "0 \<notin> set (cstr s)"
  unfolding cstr_def by (auto dest: set_takeWhileD)

lemma cstr_append: "0 \<notin> set a \<Longrightarrow> cstr (a @ 0 # r) = a"
  unfolding cstr_def by (induction a) auto

lemma is_cstr_append [simp]: "is_cstr (a @ 0 # r)"
  by (simp add: is_cstr_def)

lemma strlen_cstr: "is_cstr s \<Longrightarrow> strlen s = Some (length (cstr s))"
  unfolding is_cstr_def cstr_def by (induction s) auto

lemma strlen_defined_iff: "(\<exists>n. strlen s = Some n) \<longleftrightarrow> is_cstr s"
  unfolding is_cstr_def by (induction s) auto

lemma strcmp_spec:
  "is_cstr a \<Longrightarrow> is_cstr b \<Longrightarrow> \<exists>r. strcmp a b = Some r \<and> (r = 0 \<longleftrightarrow> cstr a = cstr b)"
  unfolding is_cstr_def cstr_def
  by (induction a b rule: strcmp.induct) (auto dest: unsigned_word_eqI simp: uint_0_iff)

lemma strcmp_zero_iff:
  "is_cstr a \<Longrightarrow> is_cstr b \<Longrightarrow> strcmp a b = Some 0 \<longleftrightarrow> cstr a = cstr b"
  using strcmp_spec[of a b] by auto

lemma strcpy_spec:
  "is_cstr s \<Longrightarrow> length (cstr s) < length d \<Longrightarrow>
   strcpy d s = Some (cstr s @ 0 # drop (Suc (length (cstr s))) d)"
  unfolding is_cstr_def cstr_def by (induction d s rule: strcpy.induct) auto

lemma strncpy_loop_spec:
  "is_cstr s \<Longrightarrow> n \<le> length d \<Longrightarrow>
   strncpy_loop d s n =
     Some (take n (cstr s) @ replicate (n - length (cstr s)) 0 @ drop n d)"
  unfolding is_cstr_def cstr_def
proof (induction d s n rule: strncpy_loop.induct)
  case (3 d c s n)
  then show ?case by (cases d) (auto simp: memset_loop_eq)
qed auto

lemma strncpy_spec:
  assumes "is_cstr s" and "nat n \<le> length d"
  shows "strncpy d s n =
     Some (take (nat n) (cstr s) @ replicate (nat n - length (cstr s)) 0 @ drop (nat n) d)"
  using strncpy_loop_spec[OF assms] by (simp add: strncpy_def)

lemma strcat_spec:
  "is_cstr d \<Longrightarrow> is_cstr s \<Longrightarrow> length (cstr d) + length (cstr s) < length d \<Longrightarrow>
   strcat d s =
     Some (cstr d @ cstr s @ 0 # drop (Suc (length (cstr d) + length (cstr s))) d)"
proof (induction d)
  case Nil
  then show ?case by (simp add: is_cstr_def)
next
  case (Cons a d)
  show ?case
  proof (cases "a = 0")
    case True
    with Cons.prems show ?thesis
      by (simp add: strcpy_spec cstr_def)
  next
    case False
    with Cons.prems have "is_cstr d" "cstr (a # d) = a # cstr d"
      by (auto simp: is_cstr_def cstr_def)
    with Cons False show ?thesis by simp
  qed
qed

section \<open>Decimal and hexadecimal text\<close>

text \<open>Reference notation: the digits of a natural number in base \<open>b\<close>, highest first.\<close>

fun show_base :: "nat \<Rightarrow> nat \<Rightarrow> bytes" where
  "show_base b n =
     (if b < 2 \<or> n = 0 then [] else show_base b (n div b) @ [hex_digits ! (n mod b)])"

declare show_base.simps [simp del]

definition show_int :: "int \<Rightarrow> bytes" where
  "show_int v = (if v = 0 then [48] else if v < 0 then 45 # show_base 10 (nat (- v))
                 else show_base 10 (nat v))"

lemma show_base_0 [simp]: "show_base b 0 = []"
  by (subst show_base.simps) simp

lemma show_base_pos:
  "2 \<le> b \<Longrightarrow> 0 < n \<Longrightarrow> show_base b n = show_base b (n div b) @ [hex_digits ! (n mod b)]"
  by (subst show_base.simps) simp

lemma show_base_nonempty: "2 \<le> b \<Longrightarrow> 0 < n \<Longrightarrow> show_base b n \<noteq> []"
  by (simp add: show_base_pos)

lemma itoa_loop_nonneg:
  assumes "2 \<le> b" and "b \<le> 16"
  shows "itoa_loop (int n) (int b) = Some (rev (show_base b n))"
proof (induction n rule: less_induct)
  case (less n)
  show ?case
  proof (cases "n = 0")
    case True
    then show ?thesis by (simp add: itoa_loop.simps)
  next
    case False
    have q: "int n sdiv int b = int (n div b)"
      using False assms by (simp add: signed_divide_int_def zdiv_int)
    have i: "int n - int (n div b) * int b = int (n mod b)"
      by (metis minus_mult_div_eq_mod mult.commute of_nat_diff of_nat_mult times_div_less_eq_dividend)
    have i': "\<not> int n < int (n div b) * int b" using i by linarith
    have "n mod b \<le> 16"
      using assms mod_less_divisor[of b n] by linarith
    moreover have "itoa_loop (int (n div b)) (int b) = Some (rev (show_base b (n div b)))"
      using False assms less by simp
    ultimately show ?thesis
      using False assms
      by (subst itoa_loop.simps) (simp add: Let_def q i' i show_base_pos)
  qed
qed

lemma itoa_loop_negative:
  assumes "2 \<le> b" and "b \<le> 16" and "v < 0"
  shows "itoa_loop v b = None"
  using assms(3)
proof (induction "nat (- v)" arbitrary: v rule: less_induct)
  case less
  define q where "q = v sdiv b"
  have q: "q = - ((- v) div b)"
    using assms less.prems by (simp add: q_def signed_divide_int_def)
  have "q \<le> 0" using q less.prems assms by (simp add: pos_imp_zdiv_nonneg_iff)
  show ?case
  proof (cases "q = 0")
    case True
    then show ?thesis using less.prems
      by (subst itoa_loop.simps) (simp add: q_def Let_def)
  next
    case False
    with \<open>q \<le> 0\<close> have neg: "q < 0" by simp
    have "- q < - v" using q less.prems assms by (simp add: int_div_less_self)
    then have "itoa_loop q b = None" using less.hyps[of q] neg by simp
    then show ?thesis using less.prems
      by (subst itoa_loop.simps) (simp add: q_def Let_def)
  qed
qed

lemma itoa_reverse_segment:
  "itoa_reverse (xs @ ys @ zs) (length xs) (length xs + length ys - 1) = xs @ rev ys @ zs"
proof (induction ys arbitrary: xs zs rule: length_induct)
  case (1 ys)
  show ?case
  proof (cases "length ys < 2")
    case True
    then have "rev ys = ys" by (cases ys) auto
    moreover have "\<not> length xs < length xs + length ys - 1" using True by linarith
    ultimately show ?thesis by (subst itoa_reverse.simps) (simp only: if_False)
  next
    case False
    then obtain a m b where ys: "ys = a # m @ [b]"
      by (cases ys; cases "tl ys" rule: rev_cases) auto
    let ?s = "xs @ ys @ zs"
    let ?j = "length xs + length ys - 1"
    have "?s ! ?j = b" "?s ! length xs = a"
      by (simp_all add: ys nth_append)
    then have swap: "?s[length xs := ?s ! ?j, ?j := ?s ! length xs] = (xs @ [b]) @ m @ (a # zs)"
      by (simp add: ys list_update_append)
    have "itoa_reverse ((xs @ [b]) @ m @ (a # zs)) (length (xs @ [b]))
            (length (xs @ [b]) + length m - 1) = (xs @ [b]) @ rev m @ (a # zs)"
      by (rule "1"[rule_format]) (simp add: ys)
    moreover have "length xs < ?j" by (simp add: ys)
    moreover have "?j - 1 = length (xs @ [b]) + length m - 1" by (simp add: ys)
    ultimately show ?thesis
      using swap by (subst itoa_reverse.simps) (simp add: ys)
  qed
qed

lemma itoa_reverse_prefix:
  "ys \<noteq> [] \<Longrightarrow> itoa_reverse (ys @ zs) 0 (length ys - 1) = rev ys @ zs"
  using itoa_reverse_segment[of "[]" ys zs] by simp

lemma itoa_finish:
  assumes "txt \<noteq> []"
  shows "Option.bind (store str 0 (txt @ [0])) (\<lambda>s. Some (itoa_reverse s 0 (length txt - 1)))
    = (if length txt < length str then Some (rev txt @ 0 # drop (Suc (length txt)) str) else None)"
  using itoa_reverse_prefix[OF assms, of "0 # drop (Suc (length txt)) str"]
  by (auto simp: store_def)

lemma sint_u32_bounds: "- (2 ^ 31) \<le> sint (v :: u32) \<and> sint v < 2 ^ 31"
  using sint_ge[of v] sint_lt[of v] by simp

lemma itoa_base_nonneg:
  assumes "2 \<le> b" and "b \<le> 16" and "0 < sint val"
  shows "itoa val str (int b) =
    (let txt = show_base b (nat (sint val)) in
     if length txt < length str then Some (txt @ 0 # drop (Suc (length txt)) str) else None)"
proof -
  let ?n = "nat (sint val)"
  have "itoa_loop (sint val) (int b) = Some (rev (show_base b ?n))"
    using itoa_loop_nonneg[OF assms(1,2), of ?n] assms(3) by simp
  moreover have "show_base b ?n \<noteq> []" using assms by (simp add: show_base_nonempty)
  moreover have "val \<noteq> 0" using assms(3) by auto
  ultimately show ?thesis
    using assms itoa_finish[of "rev (show_base b ?n)" str]
    by (auto simp: itoa_def Let_def)
qed

text \<open>\<open>itoa\<close> in base 10 writes the decimal notation, or leaves the buffer.\<close>

lemma itoa_decimal:
  assumes "sint val \<noteq> - (2 ^ 31)"
  shows "itoa val str 10 =
    (let txt = show_int (sint val) in
     if length txt < length str then Some (txt @ 0 # drop (Suc (length txt)) str) else None)"
proof -
  consider "sint val = 0" | "0 < sint val" | "sint val < 0" by linarith
  then show ?thesis
  proof cases
    case 1
    then have "val = 0" by (simp add: signed_eq_0_iff)
    then show ?thesis
      by (auto simp: itoa_def show_int_def store_def Let_def numeral_2_eq_2)
  next
    case 2
    then show ?thesis
      using itoa_base_nonneg[of 10 val str] by (simp add: show_int_def)
  next
    case 3
    let ?n = "nat (- sint val)"
    have "itoa_loop (- sint val) 10 = Some (rev (show_base 10 ?n))"
      using itoa_loop_nonneg[of 10 ?n] 3 by simp
    moreover have "\<not> - sint val > INT_MAX"
      using assms sint_u32_bounds[of val] by (simp add: INT_MAX_def)
    moreover have "val \<noteq> 0" using 3 by auto
    ultimately show ?thesis
      using 3 itoa_finish[of "rev (show_base 10 ?n) @ [45]" str]
      by (auto simp: itoa_def Let_def show_int_def)
  qed
qed

section \<open>Reading a number back\<close>

definition digits_value :: "int \<Rightarrow> bytes \<Rightarrow> int" where
  "digits_value acc ds = foldl (\<lambda>r c. r * 10 + (uint c - 48)) acc ds"

lemma digits_value_ge: "0 \<le> acc \<Longrightarrow> list_all is_digit ds \<Longrightarrow> acc \<le> digits_value acc ds"
proof (induction ds arbitrary: acc)
  case Nil
  then show ?case by (simp add: digits_value_def)
next
  case (Cons c ds)
  have "0 \<le> uint c - 48" using Cons.prems by (simp add: is_digit_def word_le_def)
  then have "acc \<le> acc * 10 + (uint c - 48)" using Cons.prems by simp
  moreover have "acc * 10 + (uint c - 48) \<le> digits_value (acc * 10 + (uint c - 48)) ds"
    using Cons.prems \<open>0 \<le> uint c - 48\<close> by (intro Cons.IH) auto
  ultimately show ?case by (simp add: digits_value_def)
qed

lemma atoi_digits_append:
  "0 \<le> acc \<Longrightarrow> list_all is_digit ds \<Longrightarrow> digits_value acc ds \<le> INT_MAX \<Longrightarrow>
   atoi_digits acc (ds @ s) = atoi_digits (digits_value acc ds) s"
proof (induction ds arbitrary: acc)
  case Nil
  then show ?case by (simp add: digits_value_def)
next
  case (Cons c ds)
  let ?r = "acc * 10 + (uint c - 48)"
  have r: "0 \<le> ?r" using Cons.prems by (simp add: is_digit_def word_le_def)
  have v: "digits_value acc (c # ds) = digits_value ?r ds" by (simp add: digits_value_def)
  moreover have "?r \<le> digits_value ?r ds"
    using r Cons.prems by (intro digits_value_ge) auto
  ultimately have "?r \<le> INT_MAX" using Cons.prems by linarith
  then show ?case using Cons r v by (simp add: Let_def)
qed

lemma digit_char:
  assumes "k < 10" shows "is_digit (hex_digits ! k) \<and> uint (hex_digits ! k) = 48 + int k"
proof -
  have "k \<in> {0, 1, 2, 3, 4, 5, 6, 7, 8, 9}" using assms by auto
  then show ?thesis by (auto simp: hex_digits_def is_digit_def)
qed

lemma show_base_10_digits: "list_all is_digit (show_base 10 n)"
  by (induction n rule: less_induct) (subst show_base.simps, simp add: digit_char)

lemma digits_value_show: "digits_value 0 (show_base 10 n) = int n"
proof (induction n rule: less_induct)
  case (less n)
  show ?case
  proof (cases "n = 0")
    case True
    then show ?thesis by (simp add: digits_value_def)
  next
    case False
    then have "digits_value 0 (show_base 10 n)
      = digits_value 0 (show_base 10 (n div 10)) * 10 + int (n mod 10)"
      by (simp add: show_base_pos digits_value_def digit_char)
    also have "\<dots> = int (n div 10) * 10 + int (n mod 10)" using False less by simp
    finally show ?thesis by presburger
  qed
qed

lemma atoi_digits_show:
  assumes "int n \<le> INT_MAX" and "\<not> is_digit c"
  shows "atoi_digits 0 (show_base 10 n @ c # r) = Some (int n)"
  using assms atoi_digits_append[of 0 "show_base 10 n" "c # r"]
  by (simp add: show_base_10_digits digits_value_show)

lemma show_base_head_digit: "0 < n \<Longrightarrow> \<exists>c r. show_base 10 n = c # r \<and> is_digit c"
  using show_base_10_digits[of n] show_base_nonempty[of 10 n] by (cases "show_base 10 n") auto

lemma digit_not_special: "is_digit c \<Longrightarrow> c \<noteq> 32 \<and> c \<noteq> 9 \<and> c \<noteq> 10 \<and> c \<noteq> 45 \<and> c \<noteq> 43"
  by (auto simp: is_digit_def)

lemma atoi_show_int:
  assumes "- INT_MAX \<le> v" and "v \<le> INT_MAX"
  shows "atoi (show_int v @ 0 # r) = Some v"
proof -
  have nul: "\<not> is_digit 0" by (simp add: is_digit_def)
  consider "v = 0" | "0 < v" | "v < 0" by linarith
  then show ?thesis
  proof cases
    case 1
    then show ?thesis
      by (simp add: atoi_def atoi_signed_def show_int_def is_digit_def INT_MAX_def)
  next
    case 2
    then obtain c t where ct: "show_base 10 (nat v) = c # t" "is_digit c"
      using show_base_head_digit[of "nat v"] by auto
    then show ?thesis
      using 2 assms digit_not_special[of c] atoi_digits_show[OF _ nul, of "nat v" r]
      by (simp add: atoi_def atoi_signed_def show_int_def)
  next
    case 3
    then show ?thesis
      using assms atoi_digits_show[OF _ nul, of "nat (- v)" r]
      by (simp add: atoi_def atoi_signed_def show_int_def)
  qed
qed

lemma length_show_base: "n < b ^ k \<Longrightarrow> length (show_base b n) \<le> k"
proof (induction k arbitrary: n)
  case 0
  then show ?case by simp
next
  case (Suc k)
  show ?case
  proof (cases "b < 2 \<or> n = 0")
    case True
    then show ?thesis by (subst show_base.simps) simp
  next
    case False
    then have "n div b < b ^ k" using Suc.prems by (simp add: less_mult_imp_div_less mult.commute)
    then show ?thesis using False Suc.IH by (simp add: show_base_pos)
  qed
qed

lemma length_show_int: "- (2 ^ 31) \<le> v \<Longrightarrow> v < 2 ^ 31 \<Longrightarrow> length (show_int v) \<le> 11"
  using length_show_base[of "nat v" 10 10] length_show_base[of "nat (- v)" 10 10]
  by (auto simp: show_int_def nat_less_iff)

text \<open>What the kernel can print with \<open>itoa\<close> into its sixteen byte buffers.\<close>

definition printable :: "u32 \<Rightarrow> int \<Rightarrow> bool" where
  "printable v base \<longleftrightarrow> base = 10 \<and> v \<noteq> 0x80000000 \<or> base = 16 \<and> v < 0x80000000"

lemma sint_u32_small: "(v :: u32) < 0x80000000 \<Longrightarrow> sint v = int (unat v) \<and> unat v < 2 ^ 31"
proof -
  assume "v < 0x80000000"
  then have "unat v < 2 ^ 31" by (simp add: word_less_nat_alt)
  then have "uint v < 2 ^ 31" by (metis of_nat_less_iff of_nat_numeral of_nat_power uint_nat)
  moreover have "- (2 ^ 31) \<le> uint v" by (rule order_trans[of _ 0]) simp_all
  ultimately have "sint v = uint v"
    by (simp add: sint_uint signed_take_bit_int_eq_self_iff)
  then show ?thesis using \<open>unat v < 2 ^ 31\<close> by (metis uint_nat)
qed

lemma itoa_printable:
  assumes "printable v base"
  shows "\<exists>buf. itoa v (replicate 16 0) base = Some buf"
proof (cases "base = 10")
  case True
  then have "v \<noteq> 0x80000000" using assms by (simp add: printable_def)
  then have "sint v \<noteq> - (2 ^ 31)"
    using signed_word_eqI[where 'a = int and v = v and w = "0x80000000 :: u32"] by auto
  then show ?thesis
    using itoa_decimal[of v "replicate 16 0"] length_show_int[of "sint v"] sint_u32_bounds[of v] True
    by (simp add: Let_def)
next
  case False
  then have b: "base = 16" "v < 0x80000000" using assms by (auto simp: printable_def)
  show ?thesis
  proof (cases "v = 0")
    case True
    then show ?thesis using b by (simp add: itoa_def store_def)
  next
    case False
    have "0 < unat v" using False by (simp add: unat_gt_0)
    then have "0 < sint v" "nat (sint v) < 16 ^ 8"
      using sint_u32_small[OF b(2)] by (simp_all del: of_nat_unat)
    then show ?thesis
      using itoa_base_nonneg[of 16 v "replicate 16 0"] length_show_base[of "nat (sint v)" 16 8] b
      by (simp add: Let_def)
  qed
qed

section \<open>Properties of the library\<close>

text \<open>For every \<open>int\<close> but the smallest, \<open>itoa\<close> in base 10 fits a 12-byte buffer, changes
  nothing beyond it, and \<open>atoi\<close> reads the same number back from what it wrote.\<close>

theorem itoa_atoi_roundtrip:
  assumes "sint v \<noteq> - (2 ^ 31)" and "12 \<le> length str"
  shows "\<exists>str'. itoa v str 10 = Some str' \<and> drop 12 str' = drop 12 str \<and> atoi str' = Some (sint v)"
proof -
  have b: "- (2 ^ 31) \<le> sint v" "sint v < 2 ^ 31" using sint_u32_bounds[of v] by auto
  then have len: "length (show_int (sint v)) \<le> 11" by (rule length_show_int)
  let ?str' = "show_int (sint v) @ 0 # drop (Suc (length (show_int (sint v)))) str"
  have "itoa v str 10 = Some ?str'"
    using itoa_decimal[OF assms(1), of str] len assms(2) by (simp add: Let_def)
  moreover have "drop 12 ?str' = drop 12 str"
    using len by (simp add: drop_Cons' Suc_diff_le)
  moreover have "atoi ?str' = Some (sint v)"
    using b assms(1) by (intro atoi_show_int) (simp_all add: INT_MAX_def)
  ultimately show ?thesis by blast
qed

theorem itoa_atoi_roundtrip_witness:
  "sint (- 1042 :: u32) \<noteq> - (2 ^ 31) \<and>
   (\<exists>str'. itoa (- 1042) (replicate 16 7) 10 = Some str' \<and> drop 12 str' = [7, 7, 7, 7] \<and>
           atoi str' = Some (- 1042))"
  using itoa_atoi_roundtrip[of "- 1042" "replicate 16 7"] by (simp add: numeral_eq_Suc)

text \<open>A negative value in a base other than 10 has no defined conversion: the digit index of
  \<open>itoa\<close> becomes negative, whatever the buffer.  The same holds for the smallest \<open>int\<close> in base 10.\<close>

theorem itoa_negative_undefined:
  assumes "2 \<le> base" and "base \<le> 16" and "sint v < 0"
    and "base \<noteq> 10 \<or> sint v = - (2 ^ 31)"
  shows "itoa v str base = None"
proof -
  have "v \<noteq> 0" using assms(3) by auto
  then show ?thesis
    using assms itoa_loop_negative[OF assms(1-3)] by (auto simp: itoa_def Let_def INT_MAX_def)
qed

theorem itoa_negative_undefined_witness:
  "sint (0x80000000 :: u32) < 0 \<and> itoa 0x80000000 (replicate 16 0) 16 = None"
  using itoa_negative_undefined[of 16 "0x80000000" "replicate 16 0"] by simp

end
