(* ===== verification/Keyboard.thy ===== *)
theory Keyboard
  imports Kernel_Prelude
begin

text \<open>
  The keyboard driver, \<open>src/drivers/keyboard.c\<close>: the scan code decoder run by IRQ 1 and
  the ring buffer between it and \<open>kbd_pop\<close>.  The interface \<open>bounded_queue\<close> states what a
  bounded FIFO promises over the list of its elements; the ring buffer is interpreted as
  one of capacity 127, and every run of interrupts and reads refines the list queue.

  The interrupt gate of vector 0x80 clears the interrupt flag, so a reader inside a system
  call and the interrupt handler do not interleave inside an operation; a run is a
  sequence of whole operations.
\<close>

section \<open>Interface: bounded FIFO queues\<close>

datatype 'a qop = Enq 'a | Deq

fun fifo_step :: "nat \<Rightarrow> 'a list \<Rightarrow> 'a qop \<Rightarrow> 'a option list \<times> 'a list" where
  "fifo_step cap xs (Enq x) = ([], if length xs < cap then xs @ [x] else xs)"
| "fifo_step cap [] Deq = ([None], [])"
| "fifo_step cap (x # xs) Deq = ([Some x], xs)"

fun fifo_run :: "nat \<Rightarrow> 'a list \<Rightarrow> 'a qop list \<Rightarrow> 'a option list \<times> 'a list" where
  "fifo_run cap xs [] = ([], xs)"
| "fifo_run cap xs (e # es) =
     (let (o1, xs1) = fifo_step cap xs e; (o2, xs2) = fifo_run cap xs1 es in (o1 @ o2, xs2))"

locale bounded_queue =
  fixes enq :: "'a \<Rightarrow> 'q \<Rightarrow> 'q"
    and deq :: "'q \<Rightarrow> 'a option \<times> 'q"
    and contents :: "'q \<Rightarrow> 'a list"
    and invar :: "'q \<Rightarrow> bool"
    and cap :: nat
  assumes invar_enq: "invar q \<Longrightarrow> invar (enq x q)"
    and contents_enq: "invar q \<Longrightarrow>
      contents (enq x q) = (if length (contents q) < cap then contents q @ [x] else contents q)"
    and invar_deq: "invar q \<Longrightarrow> invar (snd (deq q))"
    and deq_empty: "invar q \<Longrightarrow> contents q = [] \<Longrightarrow> fst (deq q) = None \<and> contents (snd (deq q)) = []"
    and deq_cons: "invar q \<Longrightarrow> contents q = x # xs \<Longrightarrow>
      fst (deq q) = Some x \<and> contents (snd (deq q)) = xs"
begin

fun q_step :: "'q \<Rightarrow> 'a qop \<Rightarrow> 'a option list \<times> 'q" where
  "q_step q (Enq x) = ([], enq x q)"
| "q_step q Deq = ([fst (deq q)], snd (deq q))"

fun q_run :: "'q \<Rightarrow> 'a qop list \<Rightarrow> 'a option list \<times> 'q" where
  "q_run q [] = ([], q)"
| "q_run q (e # es) =
     (let (o1, q1) = q_step q e; (o2, q2) = q_run q1 es in (o1 @ o2, q2))"

lemma q_step_refines:
  assumes "invar q"
  shows "invar (snd (q_step q e)) \<and>
    fifo_step cap (contents q) e = (fst (q_step q e), contents (snd (q_step q e)))"
proof (cases e)
  case (Enq x)
  with assms show ?thesis by (simp add: invar_enq contents_enq)
next
  case Deq
  with assms show ?thesis
    by (cases "contents q") (simp_all add: invar_deq deq_empty deq_cons)
qed

lemma q_run_refines:
  "invar q \<Longrightarrow> invar (snd (q_run q es)) \<and>
   fifo_run cap (contents q) es = (fst (q_run q es), contents (snd (q_run q es)))"
proof (induction es arbitrary: q)
  case Nil
  then show ?case by simp
next
  case (Cons e es)
  let ?q1 = "snd (q_step q e)"
  have "invar ?q1" "fifo_step cap (contents q) e = (fst (q_step q e), contents ?q1)"
    using q_step_refines[OF Cons.prems] by auto
  with Cons.IH[of ?q1] show ?case by (simp add: split_beta Let_def)
qed

lemma contents_bounded_step:
  "invar q \<Longrightarrow> length (contents q) \<le> cap \<Longrightarrow> length (contents (snd (q_step q e))) \<le> cap"
  by (cases e; cases "contents q") (auto simp: contents_enq deq_empty deq_cons)

end

section \<open>The driver\<close>

record kbd_state =
  kbd_buf :: bytes
  kbd_head :: u32
  kbd_tail :: u32
  extended :: bool

abbreviation (input) KBD_BUF_SIZE :: nat where "KBD_BUF_SIZE \<equiv> 128"

definition KEY_UP :: u8 where "KEY_UP = 0x80"
definition KEY_DOWN :: u8 where "KEY_DOWN = 0x81"
definition KEY_LEFT :: u8 where "KEY_LEFT = 0x82"
definition KEY_RIGHT :: u8 where "KEY_RIGHT = 0x83"

text \<open>The static table; entries the initialiser leaves out are 0.\<close>

definition keymap :: bytes where
  "keymap =
    [0, 27, 49, 50, 51, 52, 53, 54,
     55, 56, 57, 48, 45, 61, 8, 9,
     113, 119, 101, 114, 116, 121, 117, 105,
     111, 112, 91, 93, 10, 0, 97, 115,
     100, 102, 103, 104, 106, 107, 108, 59,
     39, 96, 0, 92, 122, 120, 99, 118,
     98, 110, 109, 44, 46, 47, 0, 42,
     0, 32] @ replicate 70 0"

definition kbd_init :: kbd_state where
  "kbd_init = \<lparr>kbd_buf = replicate KBD_BUF_SIZE 0, kbd_head = 0, kbd_tail = 0, extended = False\<rparr>"

definition kbd_push :: "u8 \<Rightarrow> kbd_state \<Rightarrow> kbd_state" where
  "kbd_push c s =
     (let next_head = (kbd_head s + 1) mod 128 in
      if next_head \<noteq> kbd_tail s
      then s\<lparr>kbd_buf := (kbd_buf s)[unat (kbd_head s) := c], kbd_head := next_head\<rparr>
      else s)"

text \<open>\<open>kbd_pop\<close> returns a plain \<open>char\<close>, which is signed on this target.\<close>

definition kbd_pop :: "kbd_state \<Rightarrow> int \<times> kbd_state" where
  "kbd_pop s =
     (if kbd_head s = kbd_tail s then (- 1, s)
      else (sint (kbd_buf s ! unat (kbd_tail s)), s\<lparr>kbd_tail := (kbd_tail s + 1) mod 128\<rparr>))"

definition keyboard_irq :: "u8 \<Rightarrow> kbd_state \<Rightarrow> kbd_state" where
  "keyboard_irq sc s =
     (if sc = 0xE0 then s\<lparr>extended := True\<rparr>
      else if sc AND 0x80 \<noteq> 0 then s\<lparr>extended := False\<rparr>
      else if extended s then
        (let s1 = (if sc = 0x48 then kbd_push KEY_UP s
                   else if sc = 0x50 then kbd_push KEY_DOWN s
                   else if sc = 0x4B then kbd_push KEY_LEFT s
                   else if sc = 0x4D then kbd_push KEY_RIGHT s
                   else s)
         in s1\<lparr>extended := False\<rparr>)
      else let c = keymap ! unat sc in if c \<noteq> 0 then kbd_push c s else s)"

section \<open>The ring buffer is a bounded queue\<close>

definition kbd_ok :: "kbd_state \<Rightarrow> bool" where
  "kbd_ok s \<longleftrightarrow> length (kbd_buf s) = KBD_BUF_SIZE \<and> kbd_head s < 128 \<and> kbd_tail s < 128"

definition kbd_fill :: "kbd_state \<Rightarrow> nat" where
  "kbd_fill s = (unat (kbd_head s) + 128 - unat (kbd_tail s)) mod 128"

definition kbd_list :: "kbd_state \<Rightarrow> bytes" where
  "kbd_list s = map (\<lambda>i. kbd_buf s ! ((unat (kbd_tail s) + i) mod 128)) [0..<kbd_fill s]"

definition kbd_take :: "kbd_state \<Rightarrow> u8 option \<times> kbd_state" where
  "kbd_take s =
     (if kbd_head s = kbd_tail s then None else Some (kbd_buf s ! unat (kbd_tail s)),
      snd (kbd_pop s))"

lemma mod128: "x < 256 \<Longrightarrow> x mod 128 = (if x < 128 then x else x - (128 :: nat))"
  by (simp add: mod_if)

lemma kbd_fill_eq:
  "kbd_ok s \<Longrightarrow> kbd_fill s = (if unat (kbd_tail s) \<le> unat (kbd_head s)
     then unat (kbd_head s) - unat (kbd_tail s)
     else unat (kbd_head s) + 128 - unat (kbd_tail s))"
  by (auto simp: kbd_fill_def kbd_ok_def word_less_nat_alt mod128)

lemma unat_next: "h < 128 \<Longrightarrow> unat ((h + 1) mod 128 :: u32) = (unat h + 1) mod 128"
  by (simp add: unat_mod unat_word_ariths word_less_nat_alt)

lemma next_less: "(h + 1) mod 128 < (128 :: u32)"
  by (simp add: word_less_nat_alt unat_mod)

lemma kbd_push_next_eq:
  assumes "kbd_ok s"
  shows "(kbd_head s + 1) mod 128 = kbd_tail s \<longleftrightarrow> kbd_fill s = 127"
proof -
  let ?h = "unat (kbd_head s)" and ?t = "unat (kbd_tail s)"
  have b: "?h < 128" "?t < 128" using assms by (auto simp: kbd_ok_def word_less_nat_alt)
  have "(kbd_head s + 1) mod 128 = kbd_tail s \<longleftrightarrow> (?h + 1) mod 128 = ?t"
    using assms by (simp add: word_unat_eq_iff unat_next kbd_ok_def)
  also have "\<dots> \<longleftrightarrow> kbd_fill s = 127" using b by (auto simp: kbd_fill_eq[OF assms] mod128)
  finally show ?thesis .
qed

lemma kbd_fill_less: "kbd_fill s < 128"
  by (simp add: kbd_fill_def)

lemma length_kbd_list [simp]: "length (kbd_list s) = kbd_fill s"
  by (simp add: kbd_list_def)

lemma kbd_push_ok: "kbd_ok s \<Longrightarrow> kbd_ok (kbd_push c s)"
  by (auto simp: kbd_ok_def kbd_push_def Let_def next_less)

lemma kbd_pop_ok: "kbd_ok s \<Longrightarrow> kbd_ok (snd (kbd_pop s))"
  by (auto simp: kbd_ok_def kbd_pop_def next_less)

lemma kbd_list_push:
  assumes ok: "kbd_ok s"
  shows "kbd_list (kbd_push c s) =
    (if length (kbd_list s) < 127 then kbd_list s @ [c] else kbd_list s)"
proof (cases "kbd_fill s = 127")
  case True
  then show ?thesis using kbd_push_next_eq[OF ok] by (simp add: kbd_push_def)
next
  case False
  let ?h = "unat (kbd_head s)" and ?t = "unat (kbd_tail s)"
  let ?s' = "kbd_push c s"
  have b: "?h < 128" "?t < 128" "length (kbd_buf s) = 128"
    using ok by (auto simp: kbd_ok_def word_less_nat_alt)
  have f: "kbd_fill s < 127" using False kbd_fill_less[of s] by linarith
  have s': "?s' = s\<lparr>kbd_buf := (kbd_buf s)[?h := c], kbd_head := (kbd_head s + 1) mod 128\<rparr>"
    using False kbd_push_next_eq[OF ok] by (simp add: kbd_push_def Let_def)
  have fill: "kbd_fill ?s' = Suc (kbd_fill s)"
    using b f kbd_push_ok[OF ok, of c] ok
    by (auto simp: kbd_fill_eq s' unat_next kbd_ok_def mod128 split: if_splits)
  have hd: "(?t + kbd_fill s) mod 128 = ?h"
    using b by (auto simp: kbd_fill_eq[OF ok] mod128)
  have old: "?h \<noteq> (?t + i) mod 128" if "i < kbd_fill s" for i
    using that b f by (auto simp: kbd_fill_eq[OF ok] mod128 split: if_splits)
  show ?thesis
    using f b by (auto simp: kbd_list_def fill[unfolded s'] s' hd old intro!: map_cong)
qed

lemma kbd_fill_0_iff: "kbd_ok s \<Longrightarrow> kbd_fill s = 0 \<longleftrightarrow> kbd_head s = kbd_tail s"
  by (auto simp: kbd_fill_eq word_unat_eq_iff kbd_ok_def word_less_nat_alt split: if_splits)

lemma kbd_list_pop:
  assumes ok: "kbd_ok s" and ne: "kbd_head s \<noteq> kbd_tail s"
  shows "kbd_list s = kbd_buf s ! unat (kbd_tail s) # kbd_list (snd (kbd_pop s))"
proof -
  let ?h = "unat (kbd_head s)" and ?t = "unat (kbd_tail s)"
  let ?s' = "snd (kbd_pop s)"
  have b: "?h < 128" "?t < 128" using ok by (auto simp: kbd_ok_def word_less_nat_alt)
  have "?h \<noteq> ?t" using ne by (simp add: word_unat_eq_iff)
  have s': "?s' = s\<lparr>kbd_tail := (kbd_tail s + 1) mod 128\<rparr>" using ne by (simp add: kbd_pop_def)
  have fill: "kbd_fill s = Suc (kbd_fill ?s')"
    using b \<open>?h \<noteq> ?t\<close> ok kbd_pop_ok[OF ok]
    by (auto simp: kbd_fill_eq s' unat_next kbd_ok_def mod128 split: if_splits)
  have "((?t + 1) mod 128 + i) mod 128 = (?t + Suc i) mod 128" for i
    by (simp add: mod_add_left_eq)
  then show ?thesis
    using b ok by (simp add: kbd_list_def fill s' unat_next kbd_ok_def upt_conv_Cons
      map_Suc_upt [symmetric] del: upt_Suc)
qed

lemma kbd_list_Nil_iff: "kbd_ok s \<Longrightarrow> kbd_list s = [] \<longleftrightarrow> kbd_head s = kbd_tail s"
  using kbd_fill_0_iff[of s] length_kbd_list[of s] by (metis length_0_conv)

interpretation kbdq: bounded_queue kbd_push kbd_take kbd_list kbd_ok 127
proof
  fix q :: kbd_state and x xs
  assume ok: "kbd_ok q"
  show "kbd_ok (kbd_push x q)" using ok by (rule kbd_push_ok)
  show "kbd_list (kbd_push x q) =
      (if length (kbd_list q) < 127 then kbd_list q @ [x] else kbd_list q)"
    using ok by (rule kbd_list_push)
  show "kbd_ok (snd (kbd_take q))" using kbd_pop_ok[OF ok] by (simp add: kbd_take_def)
  {
    assume "kbd_list q = []"
    then have "kbd_head q = kbd_tail q" using ok by (simp add: kbd_list_Nil_iff)
    then show "fst (kbd_take q) = None \<and> kbd_list (snd (kbd_take q)) = []"
      using \<open>kbd_list q = []\<close> by (simp add: kbd_take_def kbd_pop_def)
  }
  {
    assume "kbd_list q = x # xs"
    then have ne: "kbd_head q \<noteq> kbd_tail q" using ok kbd_list_Nil_iff[of q] by auto
    then show "fst (kbd_take q) = Some x \<and> kbd_list (snd (kbd_take q)) = xs"
      using kbd_list_pop[OF ok ne] \<open>kbd_list q = x # xs\<close> by (simp add: kbd_take_def)
  }
qed

section \<open>Runs of interrupts and reads\<close>

datatype kbd_event = ScanCode u8 | Pop

fun kbd_step :: "kbd_state \<Rightarrow> kbd_event \<Rightarrow> int list \<times> kbd_state" where
  "kbd_step s (ScanCode sc) = ([], keyboard_irq sc s)"
| "kbd_step s Pop = ([fst (kbd_pop s)], snd (kbd_pop s))"

fun kbd_run :: "kbd_state \<Rightarrow> kbd_event list \<Rightarrow> int list \<times> kbd_state" where
  "kbd_run s [] = ([], s)"
| "kbd_run s (e # es) =
     (let (o1, s1) = kbd_step s e; (o2, s2) = kbd_run s1 es in (o1 @ o2, s2))"

text \<open>The abstract keyboard: a decoder with one bit of state in front of a list that holds
  at most 127 keys.\<close>

definition arrow_key :: "u8 \<Rightarrow> u8 option" where
  "arrow_key sc = map_of [(0x48, KEY_UP), (0x50, KEY_DOWN), (0x4B, KEY_LEFT), (0x4D, KEY_RIGHT)] sc"

definition kbd_decode :: "bool \<Rightarrow> u8 \<Rightarrow> u8 option \<times> bool" where
  "kbd_decode ext sc =
     (if sc = 0xE0 then (None, True)
      else if 0x80 \<le> sc then (None, False)
      else if ext then (arrow_key sc, False)
      else (if keymap ! unat sc = 0 then None else Some (keymap ! unat sc), False))"

fun key_fifo_step :: "bool \<times> bytes \<Rightarrow> kbd_event \<Rightarrow> int list \<times> bool \<times> bytes" where
  "key_fifo_step (ext, xs) (ScanCode sc) =
     (case kbd_decode ext sc of
        (None, ext') \<Rightarrow> ([], ext', xs)
      | (Some c, ext') \<Rightarrow> ([], ext', if length xs < 127 then xs @ [c] else xs))"
| "key_fifo_step (ext, []) Pop = ([- 1], ext, [])"
| "key_fifo_step (ext, c # xs) Pop = ([sint c], ext, xs)"

fun key_fifo_run :: "bool \<times> bytes \<Rightarrow> kbd_event list \<Rightarrow> int list \<times> bool \<times> bytes" where
  "key_fifo_run a [] = ([], a)"
| "key_fifo_run a (e # es) =
     (let (o1, a1) = key_fifo_step a e; (o2, a2) = key_fifo_run a1 es in (o1 @ o2, a2))"

definition kbd_abs :: "kbd_state \<Rightarrow> bool \<times> bytes" where
  "kbd_abs s = (extended s, kbd_list s)"

lemma high_bit_iff: "sc AND 0x80 \<noteq> 0 \<longleftrightarrow> 0x80 \<le> (sc :: u8)"
proof -
  have "sc AND 0x80 = 0 \<longleftrightarrow> \<not> bit sc 7"
    using and_exp_eq_0_iff_not_bit[of sc 7] by simp
  moreover have "bit sc 7 \<longleftrightarrow> 0x80 \<le> sc"
  proof -
    have "bit sc 7 \<longleftrightarrow> odd (unat sc div 128)"
      using bit_unsigned_iff[of sc 7, where 'a = nat] by (simp add: bit_iff_odd)
    also have "unat sc div 128 = (if 128 \<le> unat sc then 1 else 0)"
      using unat_u8[of sc] by (simp add: le_div_geq)
    finally show ?thesis by (simp add: word_le_nat_alt split: if_splits)
  qed
  ultimately show ?thesis by simp
qed

lemma keyboard_irq_decode:
  "keyboard_irq sc s =
     (case fst (kbd_decode (extended s) sc) of None \<Rightarrow> s | Some c \<Rightarrow> kbd_push c s)
       \<lparr>extended := snd (kbd_decode (extended s) sc)\<rparr>"
proof -
  have "s\<lparr>extended := False\<rparr> = s" if "\<not> extended s" using that by simp
  moreover have "kbd_push c s\<lparr>extended := False\<rparr> = kbd_push c s" if "\<not> extended s" for c
    using that by (simp add: kbd_push_def Let_def)
  ultimately show ?thesis
    unfolding keyboard_irq_def kbd_decode_def arrow_key_def high_bit_iff Let_def
    by (simp split: option.split)
qed

lemma kbd_decode_ok: "kbd_ok s \<Longrightarrow> kbd_ok (keyboard_irq sc s)"
  unfolding keyboard_irq_decode
  by (auto simp: kbd_ok_def kbd_push_def Let_def next_less split: option.split)

lemma kbd_list_extended [simp]: "kbd_list (s\<lparr>extended := b\<rparr>) = kbd_list s"
  by (simp add: kbd_list_def kbd_fill_def)

lemma kbd_step_refines:
  assumes ok: "kbd_ok s"
  shows "kbd_ok (snd (kbd_step s e)) \<and>
    key_fifo_step (kbd_abs s) e = (fst (kbd_step s e), kbd_abs (snd (kbd_step s e)))"
proof (cases e)
  case (ScanCode sc)
  then show ?thesis
    using kbd_decode_ok[OF ok, of sc] kbdq.contents_enq[OF ok]
    by (cases "kbd_decode (extended s) sc")
       (auto simp: kbd_abs_def keyboard_irq_decode split: option.split)
next
  case Pop
  show ?thesis
  proof (cases "kbd_head s = kbd_tail s")
    case True
    then show ?thesis using Pop ok kbd_list_Nil_iff[OF ok]
      by (simp add: kbd_abs_def kbd_pop_def)
  next
    case False
    then show ?thesis using Pop kbd_list_pop[OF ok False] kbd_pop_ok[OF ok]
      by (simp add: kbd_abs_def) (simp add: kbd_pop_def)
  qed
qed

lemma kbd_run_refines:
  "kbd_ok s \<Longrightarrow> kbd_ok (snd (kbd_run s es)) \<and>
   key_fifo_run (kbd_abs s) es = (fst (kbd_run s es), kbd_abs (snd (kbd_run s es)))"
proof (induction es arbitrary: s)
  case Nil
  then show ?case by simp
next
  case (Cons e es)
  let ?s1 = "snd (kbd_step s e)"
  have "kbd_ok ?s1" "key_fifo_step (kbd_abs s) e = (fst (kbd_step s e), kbd_abs ?s1)"
    using kbd_step_refines[OF Cons.prems] by auto
  with Cons.IH[of ?s1] show ?case by (simp add: split_beta Let_def)
qed

lemma kbd_init_ok: "kbd_ok kbd_init" and kbd_init_abs: "kbd_abs kbd_init = (False, [])"
  by (simp_all add: kbd_ok_def kbd_init_def kbd_abs_def kbd_list_def kbd_fill_def)

section \<open>Properties of the keyboard\<close>

text \<open>C24. From power on, every interleaving of keyboard interrupts and reads returns exactly what
  a decoder in front of a first-in first-out list of at most 127 keys returns: no key is
  reordered, duplicated or invented, and keys are dropped only when 127 are waiting.\<close>

theorem keyboard_is_bounded_fifo:
  "fst (kbd_run kbd_init es) = fst (key_fifo_run (False, []) es)"
  using kbd_run_refines[OF kbd_init_ok, of es] by (simp add: kbd_init_abs)

text \<open>The ring buffer indices stay inside the 128-byte buffer in every run, so neither the
  interrupt handler nor the reader ever accesses memory outside it.\<close>

theorem keyboard_indices_in_range:
  "length (kbd_buf (snd (kbd_run kbd_init es))) = 128 \<and>
   unat (kbd_head (snd (kbd_run kbd_init es))) < 128 \<and>
   unat (kbd_tail (snd (kbd_run kbd_init es))) < 128"
  using kbd_run_refines[OF kbd_init_ok, of es] by (simp add: kbd_ok_def word_less_nat_alt)

end
