(* ===== verification/Ata.thy ===== *)
theory Ata
  imports Kernel_Prelude
begin

text \<open>
  The ATA PIO driver, \<open>src/drivers/ata.c\<close>, and the error names of \<open>src/errors/ata_error.c\<close>.
  The port instructions of \<open>include/drivers/io.h\<close> reach hardware, so they are a parameter
  \<open>port_ops\<close> of every driver.  \<open>ata_hw\<close> states what the driver relies on: the ports of the
  primary channel behave like the register-level PIO protocol of a drive (\<open>dev_inb\<close> and
  its kin), and a command keeps the drive busy for fewer polls than the driver waits.
  \<open>block_device\<close> is the interface the file system uses; the driver is shown to provide it
  over any such hardware.
\<close>

section \<open>Port input and output\<close>

record 'd port_ops =
  inb :: "u16 \<Rightarrow> 'd \<Rightarrow> u8 \<times> 'd"
  outb :: "u16 \<Rightarrow> u8 \<Rightarrow> 'd \<Rightarrow> 'd"
  inw :: "u16 \<Rightarrow> 'd \<Rightarrow> u16 \<times> 'd"
  outw :: "u16 \<Rightarrow> u16 \<Rightarrow> 'd \<Rightarrow> 'd"
  inl :: "u16 \<Rightarrow> 'd \<Rightarrow> u32 \<times> 'd"
  outl :: "u16 \<Rightarrow> u32 \<Rightarrow> 'd \<Rightarrow> 'd"

section \<open>The driver\<close>

datatype ata_error =
    ATA_OK | ATA_ERR_NO_DRIVE | ATA_ERR_TIMEOUT | ATA_ERR_DRQ | ATA_ERR_DEVICE
  | ATA_ERR_BAD_BUFFER | ATA_ERR_UNKNOWN

fun ata_error_code :: "ata_error \<Rightarrow> int" where
  "ata_error_code ATA_OK = 0"
| "ata_error_code ATA_ERR_NO_DRIVE = - 1"
| "ata_error_code ATA_ERR_TIMEOUT = - 2"
| "ata_error_code ATA_ERR_DRQ = - 3"
| "ata_error_code ATA_ERR_DEVICE = - 4"
| "ata_error_code ATA_ERR_BAD_BUFFER = - 5"
| "ata_error_code ATA_ERR_UNKNOWN = - 128"

fun ata_error_str :: "ata_error \<Rightarrow> string" where
  "ata_error_str ATA_OK = ''ok''"
| "ata_error_str ATA_ERR_NO_DRIVE = ''no drive detected''"
| "ata_error_str ATA_ERR_TIMEOUT = ''timeout''"
| "ata_error_str ATA_ERR_DRQ = ''DRQ error''"
| "ata_error_str ATA_ERR_DEVICE = ''device error''"
| "ata_error_str ATA_ERR_BAD_BUFFER = ''bad buffer''"
| "ata_error_str ATA_ERR_UNKNOWN = ''unknown ATA error''"

abbreviation (input) ATA_PRIMARY_DATA :: u16 where "ATA_PRIMARY_DATA \<equiv> 0x1F0"
abbreviation (input) ATA_PRIMARY_SECCOUNT :: u16 where "ATA_PRIMARY_SECCOUNT \<equiv> 0x1F2"
abbreviation (input) ATA_PRIMARY_LBA_LO :: u16 where "ATA_PRIMARY_LBA_LO \<equiv> 0x1F3"
abbreviation (input) ATA_PRIMARY_LBA_MID :: u16 where "ATA_PRIMARY_LBA_MID \<equiv> 0x1F4"
abbreviation (input) ATA_PRIMARY_LBA_HI :: u16 where "ATA_PRIMARY_LBA_HI \<equiv> 0x1F5"
abbreviation (input) ATA_PRIMARY_DRIVE :: u16 where "ATA_PRIMARY_DRIVE \<equiv> 0x1F6"
abbreviation (input) ATA_PRIMARY_COMMAND :: u16 where "ATA_PRIMARY_COMMAND \<equiv> 0x1F7"
abbreviation (input) ATA_PRIMARY_STATUS :: u16 where "ATA_PRIMARY_STATUS \<equiv> 0x1F7"
abbreviation (input) ATA_CMD_READ_PIO :: u8 where "ATA_CMD_READ_PIO \<equiv> 0x20"
abbreviation (input) ATA_CMD_WRITE_PIO :: u8 where "ATA_CMD_WRITE_PIO \<equiv> 0x30"
abbreviation (input) ATA_CMD_IDENTIFY :: u8 where "ATA_CMD_IDENTIFY \<equiv> 0xEC"
abbreviation (input) ATA_SR_BSY :: u8 where "ATA_SR_BSY \<equiv> 0x80"
abbreviation (input) ATA_SR_DRQ :: u8 where "ATA_SR_DRQ \<equiv> 0x08"
abbreviation (input) ATA_SR_ERR :: u8 where "ATA_SR_ERR \<equiv> 0x01"

fun ata_wait_busy_loop :: "'d port_ops \<Rightarrow> nat \<Rightarrow> 'd \<Rightarrow> ata_error \<times> 'd" where
  "ata_wait_busy_loop P 0 d = (ATA_ERR_TIMEOUT, d)"
| "ata_wait_busy_loop P (Suc timeout) d =
     (let (status, d) = inb P ATA_PRIMARY_STATUS d in
      if status AND ATA_SR_BSY = 0 then (ATA_OK, d) else ata_wait_busy_loop P timeout d)"

definition ata_wait_busy :: "'d port_ops \<Rightarrow> 'd \<Rightarrow> ata_error \<times> 'd" where
  "ata_wait_busy P d = ata_wait_busy_loop P 100000 d"

fun ata_wait_drq_loop :: "'d port_ops \<Rightarrow> nat \<Rightarrow> 'd \<Rightarrow> ata_error \<times> 'd" where
  "ata_wait_drq_loop P 0 d = (ATA_ERR_DRQ, d)"
| "ata_wait_drq_loop P (Suc timeout) d =
     (let (status, d) = inb P ATA_PRIMARY_STATUS d in
      if status AND ATA_SR_ERR \<noteq> 0 then (ATA_ERR_DEVICE, d)
      else if status AND ATA_SR_DRQ \<noteq> 0 then (ATA_OK, d)
      else ata_wait_drq_loop P timeout d)"

definition ata_wait_drq :: "'d port_ops \<Rightarrow> 'd \<Rightarrow> ata_error \<times> 'd" where
  "ata_wait_drq P d = ata_wait_drq_loop P 100000 d"

definition ata_init :: "'d port_ops \<Rightarrow> 'd \<Rightarrow> 'd" where
  "ata_init P d =
     (let d = outb P ATA_PRIMARY_DRIVE 0xA0 d;
          (_, d) = ata_wait_busy P d
      in outb P 0x3F6 0x02 d)"

fun ata_read_words :: "'d port_ops \<Rightarrow> nat \<Rightarrow> 'd \<Rightarrow> bytes \<times> 'd" where
  "ata_read_words P 0 d = ([], d)"
| "ata_read_words P (Suc n) d =
     (let (w, d) = inw P ATA_PRIMARY_DATA d; (bs, d) = ata_read_words P n d in (le16 w @ bs, d))"

fun ata_write_words :: "'d port_ops \<Rightarrow> nat \<Rightarrow> bytes \<Rightarrow> 'd \<Rightarrow> 'd" where
  "ata_write_words P 0 bs d = d"
| "ata_write_words P (Suc n) bs d =
     ata_write_words P n (drop 2 bs) (outw P ATA_PRIMARY_DATA (get16 bs 0) d)"

definition ata_identify :: "'d port_ops \<Rightarrow> 'd \<Rightarrow> ata_error \<times> 'd" where
  "ata_identify P d =
     (let d = outb P ATA_PRIMARY_DRIVE 0xA0 d; (e, d) = ata_wait_busy P d in
      if e \<noteq> ATA_OK then (ATA_ERR_TIMEOUT, d) else
      let d = outb P ATA_PRIMARY_COMMAND ATA_CMD_IDENTIFY d; (e, d) = ata_wait_busy P d in
      if e \<noteq> ATA_OK then (ATA_ERR_TIMEOUT, d) else
      let (status, d) = inb P ATA_PRIMARY_STATUS d in
      if status = 0 then (ATA_ERR_NO_DRIVE, d) else
      let (err, d) = ata_wait_drq P d in
      if err \<noteq> ATA_OK then (err, d) else
      let (_, d) = ata_read_words P 256 d in (ATA_OK, d))"

text \<open>The register writes that both transfer functions issue before their command.\<close>

definition ata_select :: "'d port_ops \<Rightarrow> u32 \<Rightarrow> 'd \<Rightarrow> 'd" where
  "ata_select P lba d =
     (let d = outb P ATA_PRIMARY_DRIVE (0xE0 OR ucast (drop_bit 24 lba AND 0x0F)) d;
          d = outb P ATA_PRIMARY_SECCOUNT 1 d;
          d = outb P ATA_PRIMARY_LBA_LO (ucast (lba AND 0xFF)) d;
          d = outb P ATA_PRIMARY_LBA_MID (ucast (drop_bit 8 lba AND 0xFF)) d
      in outb P ATA_PRIMARY_LBA_HI (ucast (drop_bit 16 lba AND 0xFF)) d)"

text \<open>\<open>buffer\<close> says whether the caller's pointer is not null; the second component of the
  result is what is stored there.\<close>

definition ata_read_sector :: "'d port_ops \<Rightarrow> u32 \<Rightarrow> bool \<Rightarrow> 'd \<Rightarrow> ata_error \<times> bytes \<times> 'd" where
  "ata_read_sector P lba buffer d =
     (if \<not> buffer then (ATA_ERR_BAD_BUFFER, [], d) else
      let (e, d) = ata_wait_busy P d in
      if e \<noteq> ATA_OK then (ATA_ERR_TIMEOUT, [], d) else
      let d = ata_select P lba d;
          d = outb P ATA_PRIMARY_COMMAND ATA_CMD_READ_PIO d;
          (err, d) = ata_wait_drq P d in
      if err \<noteq> ATA_OK then (err, [], d) else
      let (bs, d) = ata_read_words P 256 d in (ATA_OK, bs, d))"

text \<open>\<open>buffer\<close> is \<open>None\<close> for a null pointer, otherwise the 512 bytes it points to.\<close>

definition ata_write_sector :: "'d port_ops \<Rightarrow> u32 \<Rightarrow> bytes option \<Rightarrow> 'd \<Rightarrow> ata_error \<times> 'd" where
  "ata_write_sector P lba buffer d =
     (case buffer of None \<Rightarrow> (ATA_ERR_BAD_BUFFER, d)
      | Some bs \<Rightarrow>
        (let (e, d) = ata_wait_busy P d in
         if e \<noteq> ATA_OK then (ATA_ERR_TIMEOUT, d) else
         let d = ata_select P lba d;
             d = outb P ATA_PRIMARY_COMMAND ATA_CMD_WRITE_PIO d;
             (err, d) = ata_wait_drq P d in
         if err \<noteq> ATA_OK then (err, d) else
         let d = ata_write_words P 256 bs d;
             d = outb P ATA_PRIMARY_COMMAND 0xE7 d;
             (_, d) = ata_wait_busy P d
         in (ATA_OK, d)))"

section \<open>Interface: block devices\<close>

record 'd disk_ops =
  dk_read :: "u32 \<Rightarrow> 'd \<Rightarrow> ata_error \<times> bytes \<times> 'd"
  dk_write :: "u32 \<Rightarrow> bytes \<Rightarrow> 'd \<Rightarrow> ata_error \<times> 'd"

text \<open>The kernel's only disk: the primary ATA channel, with buffers that are never null.\<close>

definition ata_disk :: "'d port_ops \<Rightarrow> 'd disk_ops" where
  "ata_disk P = \<lparr>dk_read = (\<lambda>lba. ata_read_sector P lba True),
                 dk_write = (\<lambda>lba bs. ata_write_sector P lba (Some bs))\<rparr>"

locale block_device =
  fixes D :: "'d disk_ops"
    and sectors :: "'d \<Rightarrow> u32 \<Rightarrow> bytes"
    and online :: "'d \<Rightarrow> bool"
    and cap :: u32
  assumes sector_length: "online d \<Longrightarrow> length (sectors d lba) = 512"
    and read_ok: "online d \<Longrightarrow> lba < cap \<Longrightarrow>
      \<exists>d'. dk_read D lba d = (ATA_OK, sectors d lba, d') \<and> online d' \<and> sectors d' = sectors d"
    and write_ok: "online d \<Longrightarrow> lba < cap \<Longrightarrow> length bs = 512 \<Longrightarrow>
      \<exists>d'. dk_write D lba bs d = (ATA_OK, d') \<and> online d' \<and> sectors d' = (sectors d)(lba := bs)"
begin

text \<open>Reading back what was written, through the operations alone.\<close>

lemma read_after_write:
  assumes "online d" and "lba < cap" and "lba' < cap" and "length bs = 512"
    and "dk_write D lba bs d = (e, d')"
  shows "e = ATA_OK \<and> fst (dk_read D lba' d') = ATA_OK \<and>
    fst (snd (dk_read D lba' d')) = (if lba' = lba then bs else sectors d lba')"
proof -
  from write_ok[OF assms(1,2,4)] assms(5)
  have d': "e = ATA_OK" "online d'" "sectors d' = (sectors d)(lba := bs)" by auto
  from read_ok[OF d'(2) assms(3)] d' show ?thesis by auto
qed

end

section \<open>What the driver relies on: a PIO drive\<close>

record ata_dev =
  a_drive :: u8
  a_count :: u8
  a_lo :: u8
  a_mid :: u8
  a_hi :: u8
  a_busy :: nat
  a_out :: "u16 list"
  a_in :: nat
  a_acc :: "u16 list"
  a_disk :: "u32 \<Rightarrow> bytes"

text \<open>The drive latches the task file, answers the status port (busy, then ready with or
  without a data request), hands out or collects 256 words through the data port, and
  commits a write when the last word has arrived.\<close>

definition dev_lba :: "ata_dev \<Rightarrow> u32" where
  "dev_lba v = push_bit 24 (ucast (a_drive v AND 0x0F)) OR push_bit 16 (ucast (a_hi v))
     OR push_bit 8 (ucast (a_mid v)) OR ucast (a_lo v)"

fun words_of :: "bytes \<Rightarrow> u16 list" where
  "words_of (a # b # r) = (ucast a OR push_bit 8 (ucast b)) # words_of r"
| "words_of _ = []"

definition dev_status :: "ata_dev \<Rightarrow> u8" where
  "dev_status v = (if a_busy v > 0 then 0x80 else if a_out v \<noteq> [] \<or> a_in v > 0 then 0x48 else 0x40)"

definition dev_reg :: "u16 \<Rightarrow> u8 \<Rightarrow> ata_dev \<Rightarrow> ata_dev" where
  "dev_reg p x v =
     (if p = ATA_PRIMARY_DRIVE then v\<lparr>a_drive := x\<rparr>
      else if p = ATA_PRIMARY_SECCOUNT then v\<lparr>a_count := x\<rparr>
      else if p = ATA_PRIMARY_LBA_LO then v\<lparr>a_lo := x\<rparr>
      else if p = ATA_PRIMARY_LBA_MID then v\<lparr>a_mid := x\<rparr>
      else if p = ATA_PRIMARY_LBA_HI then v\<lparr>a_hi := x\<rparr>
      else v)"

definition dev_command :: "u8 \<Rightarrow> ata_dev \<Rightarrow> ata_dev" where
  "dev_command c v =
     (if c = ATA_CMD_READ_PIO then v\<lparr>a_out := words_of (a_disk v (dev_lba v))\<rparr>
      else if c = ATA_CMD_WRITE_PIO then v\<lparr>a_in := 256, a_acc := []\<rparr>
      else if c = ATA_CMD_IDENTIFY then v\<lparr>a_out := replicate 256 0\<rparr>
      else v)"

definition dev_inw :: "ata_dev \<Rightarrow> u16 \<times> ata_dev" where
  "dev_inw v = (case a_out v of [] \<Rightarrow> (0xFFFF, v) | w # ws \<Rightarrow> (w, v\<lparr>a_out := ws\<rparr>))"

definition dev_outw :: "u16 \<Rightarrow> ata_dev \<Rightarrow> ata_dev" where
  "dev_outw w v =
     (if a_in v = 0 then v
      else if a_in v = 1 then
        v\<lparr>a_in := 0, a_acc := [],
          a_disk := (a_disk v)(dev_lba v := concat (map le16 (a_acc v @ [w])))\<rparr>
      else v\<lparr>a_in := a_in v - 1, a_acc := a_acc v @ [w]\<rparr>)"

definition ata_ready :: "ata_dev \<Rightarrow> bool" where
  "ata_ready v \<longleftrightarrow> a_out v = [] \<and> a_in v = 0 \<and> a_busy v < 100000 \<and> (\<forall>l. length (a_disk v l) = 512)"

lemma concat_words_of: "even (length bs) \<Longrightarrow> concat (map le16 (words_of bs)) = bs"
  by (induction bs rule: words_of.induct) (auto simp: le16_get16)

lemma length_words_of: "length (words_of bs) = length bs div 2"
  by (induction bs rule: words_of.induct) auto

lemma words_of_step: "Suc (Suc n) \<le> length bs \<Longrightarrow> words_of bs = get16 bs 0 # words_of (drop 2 bs)"
  by (cases bs rule: words_of.cases) (auto simp: get16_def)

lemma bit_u32_high [simp]: "32 \<le> n \<Longrightarrow> \<not> bit (w :: u32) n"
  using bit_imp_le_length[of w n] by auto

lemma low_byte: "ucast (w AND 0xFF :: u32) = (ucast w :: u8)"
proof -
  have m: "(0xFF :: u32) = mask 8" by (simp add: mask_eq_exp_minus_1)
  show ?thesis unfolding m by (auto intro!: bit_word_eqI simp: bit_simps)
qed

lemma drive_nibble:
  "(0xE0 OR ucast (w AND 0x0F :: u32)) AND 0x0F = take_bit 4 (ucast w :: u8)"
proof -
  have or: "(0xE0 OR x) AND 0x0F = x AND 0x0F" for x :: u8
    by (simp add: bit.conj_disj_distrib2)
  have m: "(0x0F :: u8) = mask 4" "(0x0F :: u32) = mask 4" by (simp_all add: mask_eq_exp_minus_1)
  show ?thesis unfolding or unfolding m by (auto intro!: bit_word_eqI simp: bit_simps)
qed

lemma lba28_assembly:
  fixes lba :: u32
  shows "push_bit 24 (ucast (take_bit 4 (ucast (drop_bit 24 lba) :: u8)))
     OR push_bit 16 (ucast (ucast (drop_bit 16 lba) :: u8))
     OR push_bit 8 (ucast (ucast (drop_bit 8 lba) :: u8))
     OR ucast (ucast lba :: u8)
   = take_bit 28 lba" (is "?l = _")
proof (rule bit_word_eqI)
  fix n assume "n < LENGTH(32)"
  then consider "n < 8" | "8 \<le> n" "n < 16" | "16 \<le> n" "n < 24" | "24 \<le> n" "n < 28" | "28 \<le> n" "n < 32"
    by fastforce
  then show "bit ?l n = bit (take_bit 28 lba) n"
    by cases (auto simp: bit_simps)
qed

lemma take_bit_28_id: "lba < 0x10000000 \<Longrightarrow> take_bit 28 lba = (lba :: u32)"
proof -
  assume "lba < 0x10000000"
  then have "unat (take_bit 28 lba) = unat lba"
    by (simp add: take_bit_eq_mod unat_mod word_less_nat_alt)
  then show ?thesis by (rule word_unat_eq_iff [THEN iffD2])
qed

locale ata_hw =
  fixes P :: "'d port_ops"
    and view :: "'d \<Rightarrow> ata_dev"
  assumes status: "fst (inb P ATA_PRIMARY_STATUS d) = dev_status (view d)"
    and status_view: "view (snd (inb P ATA_PRIMARY_STATUS d)) = (view d)\<lparr>a_busy := a_busy (view d) - 1\<rparr>"
    and regs: "p \<in> {ATA_PRIMARY_SECCOUNT, ATA_PRIMARY_LBA_LO, ATA_PRIMARY_LBA_MID, ATA_PRIMARY_LBA_HI,
        ATA_PRIMARY_DRIVE} \<Longrightarrow> view (outb P p x d) = dev_reg p x (view d)"
    and command: "\<exists>b < 100000. view (outb P ATA_PRIMARY_COMMAND c d) = (dev_command c (view d))\<lparr>a_busy := b\<rparr>"
    and data_in: "fst (inw P ATA_PRIMARY_DATA d) = fst (dev_inw (view d))"
    and data_in_view: "view (snd (inw P ATA_PRIMARY_DATA d)) = snd (dev_inw (view d))"
    and data_out: "view (outw P ATA_PRIMARY_DATA w d) = dev_outw w (view d)"
begin

definition hw_online :: "'d \<Rightarrow> bool" where
  "hw_online d \<longleftrightarrow> ata_ready (view d)"

definition hw_sectors :: "'d \<Rightarrow> u32 \<Rightarrow> bytes" where
  "hw_sectors d lba = (if lba < 0x10000000 then a_disk (view d) lba else replicate 512 0)"

lemma wait_busy_loop_ok:
  "a_busy (view d) < n \<Longrightarrow>
   \<exists>d'. ata_wait_busy_loop P n d = (ATA_OK, d') \<and> view d' = (view d)\<lparr>a_busy := 0\<rparr>"
proof (induction n arbitrary: d)
  case 0
  then show ?case by simp
next
  case (Suc n)
  obtain st d1 where i: "inb P ATA_PRIMARY_STATUS d = (st, d1)" by fastforce
  have st: "st = dev_status (view d)" "view d1 = (view d)\<lparr>a_busy := a_busy (view d) - 1\<rparr>"
    using status[of d] status_view[of d] i by auto
  show ?case
  proof (cases "a_busy (view d) = 0")
    case True
    then show ?thesis using i st by (auto simp: dev_status_def)
  next
    case False
    then have "a_busy (view d1) < n" using Suc.prems st by simp
    from Suc.IH[OF this] show ?thesis using False i st by (auto simp: dev_status_def)
  qed
qed

lemma wait_drq_loop_ok:
  "a_busy (view d) < n \<Longrightarrow> a_out (view d) \<noteq> [] \<or> 0 < a_in (view d) \<Longrightarrow>
   \<exists>d'. ata_wait_drq_loop P n d = (ATA_OK, d') \<and> view d' = (view d)\<lparr>a_busy := 0\<rparr>"
proof (induction n arbitrary: d)
  case 0
  then show ?case by simp
next
  case (Suc n)
  obtain st d1 where i: "inb P ATA_PRIMARY_STATUS d = (st, d1)" by fastforce
  have st: "st = dev_status (view d)" "view d1 = (view d)\<lparr>a_busy := a_busy (view d) - 1\<rparr>"
    using status[of d] status_view[of d] i by auto
  show ?case
  proof (cases "a_busy (view d) = 0")
    case True
    then show ?thesis using i st Suc.prems by (auto simp: dev_status_def)
  next
    case False
    then have "a_busy (view d1) < n" "a_out (view d1) \<noteq> [] \<or> 0 < a_in (view d1)"
      using Suc.prems st by simp_all
    from Suc.IH[OF this] show ?thesis using False i st by (auto simp: dev_status_def)
  qed
qed

lemma read_words_ok:
  "a_out (view d) = ws @ rest \<Longrightarrow> length ws = n \<Longrightarrow>
   \<exists>d'. ata_read_words P n d = (concat (map le16 ws), d') \<and> view d' = (view d)\<lparr>a_out := rest\<rparr>"
proof (induction n arbitrary: d ws)
  case 0
  then show ?case by simp
next
  case (Suc n)
  then obtain w ws' where ws: "ws = w # ws'" "length ws' = n" by (cases ws) auto
  obtain x d1 where i: "inw P ATA_PRIMARY_DATA d = (x, d1)" by fastforce
  have d1: "x = w" "view d1 = (view d)\<lparr>a_out := ws' @ rest\<rparr>"
    using data_in[of d] data_in_view[of d] i Suc.prems ws by (auto simp: dev_inw_def)
  obtain d' where "ata_read_words P n d1 = (concat (map le16 ws'), d')"
    "view d' = (view d1)\<lparr>a_out := rest\<rparr>"
    using Suc.IH[of d1 ws'] d1 ws by auto
  then show ?case using i d1 ws by simp
qed

lemma write_words_ok:
  "a_in (view d) = n \<Longrightarrow> 0 < n \<Longrightarrow> length bs = 2 * n \<Longrightarrow>
   view (ata_write_words P n bs d) = (view d)\<lparr>a_in := 0, a_acc := [],
     a_disk := (a_disk (view d))(dev_lba (view d) := concat (map le16 (a_acc (view d))) @ bs)\<rparr>"
proof (induction n arbitrary: d bs)
  case 0
  then show ?case by simp
next
  case (Suc n)
  let ?v = "view d" and ?w = "get16 bs 0"
  let ?d1 = "outw P ATA_PRIMARY_DATA ?w d"
  have bs: "bs = le16 ?w @ drop 2 bs"
    using Suc.prems(3) by (cases bs rule: words_of.cases) (auto simp: get16_def le16_get16)
  show ?case
  proof (cases "n = 0")
    case True
    then have "drop 2 bs = []" using Suc.prems by simp
    then have "bs = le16 ?w" using bs by simp
    then show ?thesis using True Suc.prems by (simp add: data_out dev_outw_def fun_upd_def)
  next
    case False
    then have v1: "view ?d1 = ?v\<lparr>a_in := n, a_acc := a_acc ?v @ [?w]\<rparr>"
      using Suc.prems by (simp add: data_out dev_outw_def)
    have lba: "dev_lba (?v\<lparr>a_in := n, a_acc := a_acc ?v @ [?w]\<rparr>) = dev_lba ?v"
      by (simp add: dev_lba_def)
    have "view (ata_write_words P n (drop 2 bs) ?d1) = (view ?d1)\<lparr>a_in := 0, a_acc := [],
      a_disk := (a_disk (view ?d1))(dev_lba (view ?d1) :=
        concat (map le16 (a_acc (view ?d1))) @ drop 2 bs)\<rparr>"
      by (rule Suc.IH) (use False Suc.prems v1 in simp_all)
    also have "concat (map le16 (a_acc (view ?d1))) @ drop 2 bs = concat (map le16 (a_acc ?v)) @ bs"
      by (subst (2) bs) (simp add: v1)
    finally show ?thesis by (simp only: ata_write_words.simps v1 lba) simp
  qed
qed


lemma select_view:
  "view (ata_select P lba d) = (view d)\<lparr>a_drive := 0xE0 OR ucast (drop_bit 24 lba AND 0x0F), a_count := 1,
     a_lo := ucast (lba AND 0xFF), a_mid := ucast (drop_bit 8 lba AND 0xFF),
     a_hi := ucast (drop_bit 16 lba AND 0xFF)\<rparr>"
  by (simp add: ata_select_def regs dev_reg_def Let_def)

lemma select_lba: "dev_lba (view (ata_select P lba d)) = take_bit 28 lba"
  using lba28_assembly[of lba] by (simp add: dev_lba_def select_view low_byte drive_nibble)

lemma read_sector_ok:
  assumes "ata_ready (view d)"
  shows "\<exists>d'. ata_read_sector P lba True d = (ATA_OK, a_disk (view d) (take_bit 28 lba), d') \<and>
    ata_ready (view d') \<and> a_disk (view d') = a_disk (view d)"
proof -
  let ?sec = "a_disk (view d) (take_bit 28 lba)"
  have len: "length ?sec = 512" using assms by (simp add: ata_ready_def)
  obtain d1 where d1: "ata_wait_busy P d = (ATA_OK, d1)" "view d1 = (view d)\<lparr>a_busy := 0\<rparr>"
    using wait_busy_loop_ok[of d 100000] assms by (auto simp: ata_wait_busy_def ata_ready_def)
  let ?d2 = "ata_select P lba d1"
  let ?d3 = "outb P ATA_PRIMARY_COMMAND ATA_CMD_READ_PIO ?d2"
  obtain b where b: "b < 100000"
    "view ?d3 = (dev_command ATA_CMD_READ_PIO (view ?d2))\<lparr>a_busy := b\<rparr>" using command by blast
  have v3: "a_busy (view ?d3) < 100000" "a_out (view ?d3) = words_of ?sec"
    "a_in (view ?d3) = 0" "a_disk (view ?d3) = a_disk (view d)"
    using b d1 assms select_lba[of lba d1]
    by (simp_all add: dev_command_def select_view ata_ready_def)
  have w: "length (words_of ?sec) = 256" by (simp add: length_words_of len)
  obtain d4 where d4: "ata_wait_drq P ?d3 = (ATA_OK, d4)" "view d4 = (view ?d3)\<lparr>a_busy := 0\<rparr>"
    using wait_drq_loop_ok[of ?d3 100000] v3 w by (fastforce simp: ata_wait_drq_def)
  obtain d5 where d5: "ata_read_words P 256 d4 = (concat (map le16 (words_of ?sec)), d5)"
    "view d5 = (view d4)\<lparr>a_out := []\<rparr>"
    using read_words_ok[of d4 "words_of ?sec" "[]" 256] w v3 d4 by auto
  have "ata_read_sector P lba True d = (ATA_OK, ?sec, d5)"
    using d1(1) d4(1) d5(1) concat_words_of[of ?sec] len
    by (simp add: ata_read_sector_def Let_def)
  moreover have "ata_ready (view d5)" "a_disk (view d5) = a_disk (view d)"
    using assms by (simp_all add: ata_ready_def d5 d4 v3)
  ultimately show ?thesis by blast
qed

lemma write_sector_ok:
  assumes "ata_ready (view d)" and "length bs = 512"
  shows "\<exists>d'. ata_write_sector P lba (Some bs) d = (ATA_OK, d') \<and> ata_ready (view d') \<and>
    a_disk (view d') = (a_disk (view d))(take_bit 28 lba := bs)"
proof -
  obtain d1 where d1: "ata_wait_busy P d = (ATA_OK, d1)" "view d1 = (view d)\<lparr>a_busy := 0\<rparr>"
    using wait_busy_loop_ok[of d 100000] assms by (auto simp: ata_wait_busy_def ata_ready_def)
  let ?d2 = "ata_select P lba d1"
  let ?d3 = "outb P ATA_PRIMARY_COMMAND ATA_CMD_WRITE_PIO ?d2"
  obtain b where b: "b < 100000"
    "view ?d3 = (dev_command ATA_CMD_WRITE_PIO (view ?d2))\<lparr>a_busy := b\<rparr>" using command by blast
  have v3: "a_busy (view ?d3) < 100000" "a_out (view ?d3) = []" "a_in (view ?d3) = 256"
    "a_acc (view ?d3) = []" "a_disk (view ?d3) = a_disk (view d)" "dev_lba (view ?d3) = take_bit 28 lba"
    using b d1 assms select_lba[of lba d1]
    by (simp_all add: dev_command_def select_view ata_ready_def dev_lba_def)
  obtain d4 where d4: "ata_wait_drq P ?d3 = (ATA_OK, d4)" "view d4 = (view ?d3)\<lparr>a_busy := 0\<rparr>"
    using wait_drq_loop_ok[of ?d3 100000] v3 by (fastforce simp: ata_wait_drq_def)
  have lba4: "dev_lba (view d4) = take_bit 28 lba" using v3(6) by (simp add: d4 dev_lba_def)
  let ?d5 = "ata_write_words P 256 bs d4"
  have v5: "view ?d5 = (view d4)\<lparr>a_in := 0, a_acc := [],
      a_disk := (a_disk (view d))(take_bit 28 lba := bs)\<rparr>"
    using write_words_ok[of d4 256 bs] assms(2) v3 lba4 by (simp add: d4)
  let ?d6 = "outb P ATA_PRIMARY_COMMAND 0xE7 ?d5"
  obtain b' where b': "b' < 100000" "view ?d6 = (dev_command 0xE7 (view ?d5))\<lparr>a_busy := b'\<rparr>"
    using command by blast
  obtain d7 where d7: "ata_wait_busy P ?d6 = (ATA_OK, d7)" "view d7 = (view ?d6)\<lparr>a_busy := 0\<rparr>"
    using wait_busy_loop_ok[of ?d6 100000] b' by (auto simp: ata_wait_busy_def)
  have v7: "view d7 = (view d4)\<lparr>a_in := 0, a_acc := [],
      a_disk := (a_disk (view d))(take_bit 28 lba := bs), a_busy := 0\<rparr>"
    using d7(2) b'(2) v5 by (simp add: dev_command_def)
  have "ata_write_sector P lba (Some bs) d = (ATA_OK, d7)"
    using d1(1) d4(1) d7(1) by (simp add: ata_write_sector_def Let_def)
  moreover have "ata_ready (view d7)" "a_disk (view d7) = (a_disk (view d))(take_bit 28 lba := bs)"
    using assms by (simp_all add: ata_ready_def v7 d4 v3)
  ultimately show ?thesis by blast
qed

end

text \<open>The driver provides the block device interface: 28-bit addresses, sectors of 512 bytes.\<close>

sublocale ata_hw \<subseteq> blk: block_device "ata_disk P" hw_sectors hw_online "0x10000000"
proof
  fix d :: 'd and lba :: u32 and bs :: bytes
  assume d: "hw_online d"
  then show "length (hw_sectors d lba) = 512"
    by (simp add: hw_online_def hw_sectors_def ata_ready_def)
  assume lba: "lba < 0x10000000"
  then have l: "take_bit 28 lba = lba" by (rule take_bit_28_id)
  show "\<exists>d'. dk_read (ata_disk P) lba d = (ATA_OK, hw_sectors d lba, d') \<and> hw_online d' \<and>
      hw_sectors d' = hw_sectors d"
    using read_sector_ok[of d lba] d lba
    by (auto simp: ata_disk_def hw_online_def hw_sectors_def l fun_eq_iff)
  assume "length bs = 512"
  then show "\<exists>d'. dk_write (ata_disk P) lba bs d = (ATA_OK, d') \<and> hw_online d' \<and>
      hw_sectors d' = (hw_sectors d)(lba := bs)"
    using write_sector_ok[of d bs lba] d lba
    by (auto simp: ata_disk_def hw_online_def hw_sectors_def l fun_eq_iff)
qed

context ata_hw
begin

lemma driver_read_after_write:
  assumes "ata_ready (view d)" and "length bs = 512"
    and "lba < 0x10000000" and "lba' < 0x10000000"
    and "ata_write_sector P lba (Some bs) d = (e, d')"
  shows "e = ATA_OK \<and> fst (ata_read_sector P lba' True d') = ATA_OK \<and>
    fst (snd (ata_read_sector P lba' True d')) = (if lba' = lba then bs else a_disk (view d) lba')"
  using blk.read_after_write[of d lba lba' bs e d'] assms
  by (simp add: hw_online_def ata_disk_def hw_sectors_def)

end

section \<open>A reference drive\<close>

text \<open>A drive that follows the protocol and reports busy for three polls after a command;
  ports outside the primary channel read as zero.\<close>

definition pio_drive :: "ata_dev port_ops" where
  "pio_drive = \<lparr>
     inb = (\<lambda>p v. if p = ATA_PRIMARY_STATUS then (dev_status v, v\<lparr>a_busy := a_busy v - 1\<rparr>) else (0, v)),
     outb = (\<lambda>p x v. if p = ATA_PRIMARY_COMMAND then (dev_command x v)\<lparr>a_busy := 3\<rparr> else dev_reg p x v),
     inw = (\<lambda>p v. if p = ATA_PRIMARY_DATA then dev_inw v else (0, v)),
     outw = (\<lambda>p w v. if p = ATA_PRIMARY_DATA then dev_outw w v else v),
     inl = (\<lambda>p v. (0, v)),
     outl = (\<lambda>p w v. v)\<rparr>"

definition blank_drive :: "ata_dev" where
  "blank_drive = \<lparr>a_drive = 0, a_count = 0, a_lo = 0, a_mid = 0, a_hi = 0, a_busy = 0,
     a_out = [], a_in = 0, a_acc = [], a_disk = (\<lambda>_. replicate 512 0)\<rparr>"

interpretation pio: ata_hw pio_drive id
  by unfold_locales (auto simp: pio_drive_def intro!: exI [of _ 3])

lemma blank_drive_ready: "ata_ready (blank_drive\<lparr>a_disk := f\<rparr>) \<longleftrightarrow> (\<forall>l. length (f l) = 512)"
  by (simp add: ata_ready_def blank_drive_def)

section \<open>Properties of the driver\<close>

text \<open>C28. Over any drive that follows the PIO protocol and is never busy for 100000 polls, a sector
  written by \<open>ata_write_sector\<close> is read back by \<open>ata_read_sector\<close>, both succeed, and every other
  sector of the 28-bit address space keeps its contents.\<close>

theorem ata_read_after_write:
  assumes "ata_hw P view" and "ata_ready (view d)" and "length bs = 512"
    and "lba < 0x10000000" and "lba' < 0x10000000"
    and "ata_write_sector P lba (Some bs) d = (e, d')"
  shows "e = ATA_OK \<and> fst (ata_read_sector P lba' True d') = ATA_OK \<and>
    fst (snd (ata_read_sector P lba' True d')) = (if lba' = lba then bs else a_disk (view d) lba')"
  using assms by (rule ata_hw.driver_read_after_write)

theorem ata_read_after_write_witness:
  "ata_hw pio_drive id \<and> ata_ready blank_drive \<and>
   (\<exists>d'. ata_write_sector pio_drive 77 (Some (replicate 512 0xAB)) blank_drive = (ATA_OK, d') \<and>
     fst (snd (ata_read_sector pio_drive 77 True d')) = replicate 512 0xAB \<and>
     fst (snd (ata_read_sector pio_drive 78 True d')) = replicate 512 0)"
proof -
  let ?w = "ata_write_sector pio_drive 77 (Some (replicate 512 0xAB)) blank_drive"
  have hw: "ata_hw pio_drive id" by (rule pio.ata_hw_axioms)
  have r: "ata_ready (id blank_drive)" by (simp add: ata_ready_def blank_drive_def)
  have w: "?w = (fst ?w, snd ?w)" by simp
  show ?thesis
    using ata_read_after_write[OF hw r _ _ _ w, of 77] ata_read_after_write[OF hw r _ _ _ w, of 78] hw r
    by (auto simp: blank_drive_def intro!: exI [of _ "snd ?w"] prod_eqI)
qed

text \<open>Whatever the hardware does, the driver gives up after a bounded number of polls: a drive that
  reports busy forever makes both transfer functions return the timeout code without a transfer.\<close>

theorem ata_busy_forever_times_out:
  assumes "\<And>d. fst (inb P ATA_PRIMARY_STATUS d) AND ATA_SR_BSY \<noteq> 0"
  shows "fst (ata_read_sector P lba True d) = ATA_ERR_TIMEOUT \<and>
    fst (snd (ata_read_sector P lba True d)) = [] \<and>
    fst (ata_write_sector P lba (Some bs) d) = ATA_ERR_TIMEOUT"
proof -
  have "fst (ata_wait_busy_loop P n d) = ATA_ERR_TIMEOUT" for n
  proof (induction n arbitrary: d)
    case (Suc n)
    then show ?case using assms[of d] by (simp add: split_beta Let_def)
  qed simp
  then have "fst (ata_wait_busy P d) = ATA_ERR_TIMEOUT" by (simp add: ata_wait_busy_def)
  then show ?thesis
    by (simp add: ata_read_sector_def ata_write_sector_def split_beta Let_def)
qed

theorem ata_busy_forever_times_out_witness:
  "fst (ata_read_sector (pio_drive\<lparr>inb := (\<lambda>p v. (0x80, v))\<rparr>) 0 True blank_drive) = ATA_ERR_TIMEOUT"
  using ata_busy_forever_times_out[of "pio_drive\<lparr>inb := (\<lambda>p v. (0x80, v))\<rparr>" 0 blank_drive "[]"] by simp

end
