(* ===== verification/Fat32_Layout.thy ===== *)
theory Fat32_Layout
  imports Kernel_Prelude Ata
begin

text \<open>
  The on-disk structures of \<open>include/fs/fat32.h\<close> and the state of \<open>src/fs/fat32.c\<close>.  Each
  packed structure is a record with a decoder and an encoder over its bytes, and the two
  are inverse to each other on records whose arrays have the declared lengths.
\<close>

section \<open>Boot sector, FSInfo and directory entries\<close>

record fat32_boot_sector =
  bs_jmp :: bytes
  bs_oem :: bytes
  bs_bytes_per_sector :: u16
  bs_sectors_per_cluster :: u8
  bs_reserved_sectors :: u16
  bs_num_fats :: u8
  bs_root_entries :: u16
  bs_total_sectors_16 :: u16
  bs_media_type :: u8
  bs_fat_size_16 :: u16
  bs_sectors_per_track :: u16
  bs_num_heads :: u16
  bs_hidden_sectors :: u32
  bs_total_sectors_32 :: u32
  bs_fat_size_32 :: u32
  bs_ext_flags :: u16
  bs_fs_version :: u16
  bs_root_cluster :: u32
  bs_fs_info :: u16
  bs_backup_boot :: u16
  bs_reserved :: bytes
  bs_drive_number :: u8
  bs_reserved1 :: u8
  bs_boot_sig :: u8
  bs_volume_id :: u32
  bs_volume_label :: bytes
  bs_fs_type :: bytes

definition boot_of_bytes :: "bytes \<Rightarrow> fat32_boot_sector" where
  "boot_of_bytes b = \<lparr>
     bs_jmp = take 3 b, bs_oem = take 8 (drop 3 b), bs_bytes_per_sector = get16 b 11,
     bs_sectors_per_cluster = get8 b 13, bs_reserved_sectors = get16 b 14, bs_num_fats = get8 b 16,
     bs_root_entries = get16 b 17, bs_total_sectors_16 = get16 b 19, bs_media_type = get8 b 21,
     bs_fat_size_16 = get16 b 22, bs_sectors_per_track = get16 b 24, bs_num_heads = get16 b 26,
     bs_hidden_sectors = get32 b 28, bs_total_sectors_32 = get32 b 32, bs_fat_size_32 = get32 b 36,
     bs_ext_flags = get16 b 40, bs_fs_version = get16 b 42, bs_root_cluster = get32 b 44,
     bs_fs_info = get16 b 48, bs_backup_boot = get16 b 50, bs_reserved = take 12 (drop 52 b),
     bs_drive_number = get8 b 64, bs_reserved1 = get8 b 65, bs_boot_sig = get8 b 66,
     bs_volume_id = get32 b 67, bs_volume_label = take 11 (drop 71 b), bs_fs_type = take 8 (drop 82 b)\<rparr>"

definition boot_to_bytes :: "fat32_boot_sector \<Rightarrow> bytes" where
  "boot_to_bytes r =
     bs_jmp r @ bs_oem r @ le16 (bs_bytes_per_sector r) @ [bs_sectors_per_cluster r] @
     le16 (bs_reserved_sectors r) @ [bs_num_fats r] @ le16 (bs_root_entries r) @
     le16 (bs_total_sectors_16 r) @ [bs_media_type r] @ le16 (bs_fat_size_16 r) @
     le16 (bs_sectors_per_track r) @ le16 (bs_num_heads r) @ le32 (bs_hidden_sectors r) @
     le32 (bs_total_sectors_32 r) @ le32 (bs_fat_size_32 r) @ le16 (bs_ext_flags r) @
     le16 (bs_fs_version r) @ le32 (bs_root_cluster r) @ le16 (bs_fs_info r) @
     le16 (bs_backup_boot r) @ bs_reserved r @ [bs_drive_number r, bs_reserved1 r, bs_boot_sig r] @
     le32 (bs_volume_id r) @ bs_volume_label r @ bs_fs_type r"

definition boot_arrays_ok :: "fat32_boot_sector \<Rightarrow> bool" where
  "boot_arrays_ok r \<longleftrightarrow> length (bs_jmp r) = 3 \<and> length (bs_oem r) = 8 \<and> length (bs_reserved r) = 12 \<and>
     length (bs_volume_label r) = 11 \<and> length (bs_fs_type r) = 8"

record fat32_fsinfo =
  fi_lead_sig :: u32
  fi_reserved1 :: bytes
  fi_struct_sig :: u32
  fi_free_count :: u32
  fi_next_free :: u32
  fi_reserved2 :: bytes
  fi_trail_sig :: u32

definition fsinfo_of_bytes :: "bytes \<Rightarrow> fat32_fsinfo" where
  "fsinfo_of_bytes b = \<lparr>
     fi_lead_sig = get32 b 0, fi_reserved1 = take 480 (drop 4 b), fi_struct_sig = get32 b 484,
     fi_free_count = get32 b 488, fi_next_free = get32 b 492, fi_reserved2 = take 12 (drop 496 b),
     fi_trail_sig = get32 b 508\<rparr>"

definition fsinfo_to_bytes :: "fat32_fsinfo \<Rightarrow> bytes" where
  "fsinfo_to_bytes r =
     le32 (fi_lead_sig r) @ fi_reserved1 r @ le32 (fi_struct_sig r) @ le32 (fi_free_count r) @
     le32 (fi_next_free r) @ fi_reserved2 r @ le32 (fi_trail_sig r)"

definition fsinfo_arrays_ok :: "fat32_fsinfo \<Rightarrow> bool" where
  "fsinfo_arrays_ok r \<longleftrightarrow> length (fi_reserved1 r) = 480 \<and> length (fi_reserved2 r) = 12"

record fat32_dirent =
  de_name :: bytes
  de_attr :: u8
  de_nt_reserved :: u8
  de_create_time_tenth :: u8
  de_create_time :: u16
  de_create_date :: u16
  de_access_date :: u16
  de_first_cluster_high :: u16
  de_write_time :: u16
  de_write_date :: u16
  de_first_cluster_low :: u16
  de_file_size :: u32

definition dirent_of_bytes :: "bytes \<Rightarrow> fat32_dirent" where
  "dirent_of_bytes b = \<lparr>
     de_name = take 11 b, de_attr = get8 b 11, de_nt_reserved = get8 b 12,
     de_create_time_tenth = get8 b 13, de_create_time = get16 b 14, de_create_date = get16 b 16,
     de_access_date = get16 b 18, de_first_cluster_high = get16 b 20, de_write_time = get16 b 22,
     de_write_date = get16 b 24, de_first_cluster_low = get16 b 26, de_file_size = get32 b 28\<rparr>"

definition dirent_to_bytes :: "fat32_dirent \<Rightarrow> bytes" where
  "dirent_to_bytes e =
     de_name e @ [de_attr e, de_nt_reserved e, de_create_time_tenth e] @ le16 (de_create_time e) @
     le16 (de_create_date e) @ le16 (de_access_date e) @ le16 (de_first_cluster_high e) @
     le16 (de_write_time e) @ le16 (de_write_date e) @ le16 (de_first_cluster_low e) @
     le32 (de_file_size e)"

text \<open>The start cluster of an entry is split into two 16-bit fields.\<close>

definition dirent_cluster :: "fat32_dirent \<Rightarrow> u32" where
  "dirent_cluster e = push_bit 16 (ucast (de_first_cluster_high e)) OR ucast (de_first_cluster_low e)"

section \<open>Constants and run-time state\<close>

abbreviation (input) FAT32_ATTR_DIRECTORY :: u8 where "FAT32_ATTR_DIRECTORY \<equiv> 0x10"
abbreviation (input) FAT32_ATTR_ARCHIVE :: u8 where "FAT32_ATTR_ARCHIVE \<equiv> 0x20"
abbreviation (input) FAT32_ATTR_LFN :: u8 where "FAT32_ATTR_LFN \<equiv> 0x0F"
abbreviation (input) FAT32_FREE_CLUSTER :: u32 where "FAT32_FREE_CLUSTER \<equiv> 0"
abbreviation (input) FAT32_BAD_CLUSTER :: u32 where "FAT32_BAD_CLUSTER \<equiv> 0x0FFFFFF7"
abbreviation (input) FAT32_EOC_MIN :: u32 where "FAT32_EOC_MIN \<equiv> 0x0FFFFFF8"
abbreviation (input) FAT32_EOC_MAX :: u32 where "FAT32_EOC_MAX \<equiv> 0x0FFFFFFF"
abbreviation (input) FAT32_O_CREAT :: u8 where "FAT32_O_CREAT \<equiv> 0x04"
abbreviation (input) FAT32_O_TRUNC :: u8 where "FAT32_O_TRUNC \<equiv> 0x08"
abbreviation (input) FAT32_O_APPEND :: u8 where "FAT32_O_APPEND \<equiv> 0x10"
abbreviation (input) MAX_PATH_DEPTH :: nat where "MAX_PATH_DEPTH \<equiv> 16"
abbreviation (input) MAX_NAME_LEN :: nat where "MAX_NAME_LEN \<equiv> 12"
abbreviation (input) CLUSTER_BUFFER_SIZE :: nat where "CLUSTER_BUFFER_SIZE \<equiv> 65536"

record fat32_fs =
  fs_boot :: fat32_boot_sector
  fs_fsinfo :: fat32_fsinfo
  fat_begin_lba :: u32
  cluster_begin_lba :: u32
  root_dir_first_cluster :: u32
  sectors_per_cluster :: u32
  bytes_per_cluster :: u32
  total_clusters :: u32
  num_fats :: u8

text \<open>The static variables of \<open>fat32.c\<close>, the characters it has sent to the terminal, and the
  disk below it.\<close>

record 'd fat_state =
  g_fs :: fat32_fs
  sector_buffer :: bytes
  cluster_buffer :: bytes
  path_stack :: "bytes list"
  path_depth :: nat
  g_current_dir_cluster :: u32
  console :: bytes
  disk :: 'd

definition fat_puts :: "bytes \<Rightarrow> 'd fat_state \<Rightarrow> 'd fat_state" where
  "fat_puts txt s = s\<lparr>console := console s @ txt\<rparr>"

section \<open>Codecs are inverse\<close>

lemma list_of_length_3: "length xs = 3 \<Longrightarrow> \<exists>a b c. xs = [a, b, c]"
  by (auto simp: numeral_eq_Suc length_Suc_conv)

lemma split_at: "length xs = n \<Longrightarrow> take n (xs @ ys) = xs \<and> drop n (xs @ ys) = ys"
  by simp

lemma get8_skip [codec_simps]: "length xs \<le> i \<Longrightarrow> get8 (xs @ ys) i = get8 ys (i - length xs)"
  by (simp add: get8_def nth_append)

lemma get16_skip [codec_simps]: "length xs \<le> i \<Longrightarrow> get16 (xs @ ys) i = get16 ys (i - length xs)"
  by (simp add: get16_def nth_append Suc_diff_le)

lemma get32_skip [codec_simps]: "length xs \<le> i \<Longrightarrow> get32 (xs @ ys) i = get32 ys (i - length xs)"
  by (simp add: get32_def nth_append Suc_diff_le)

lemma get8_cons_skip [codec_simps]: "0 < i \<Longrightarrow> get8 (x # ys) i = get8 ys (i - 1)"
  by (cases i) (simp_all add: get8_def)

lemma get16_cons_skip [codec_simps]: "0 < i \<Longrightarrow> get16 (x # ys) i = get16 ys (i - 1)"
  by (cases i) (simp_all add: get16_def)

lemma get32_cons_skip [codec_simps]: "0 < i \<Longrightarrow> get32 (x # ys) i = get32 ys (i - 1)"
  by (cases i) (simp_all add: get32_def add.commute)

lemma get8_head [codec_simps]: "get8 (x # ys) 0 = x"
  by (simp add: get8_def)

lemma get16_le16_append [codec_simps]: "get16 (le16 w @ ys) 0 = w"
  using get16_le16[of w] by (simp add: get16_def le16_def)

lemma get32_le32_append [codec_simps]: "get32 (le32 w @ ys) 0 = w"
  using get32_le32[of w] by (simp add: get32_def le32_def)

lemma dirent_roundtrip:
  "length (de_name e) = 11 \<Longrightarrow> dirent_of_bytes (dirent_to_bytes e @ r) = e"
  by (simp add: dirent_of_bytes_def dirent_to_bytes_def codec_simps)

lemma fsinfo_roundtrip:
  "fsinfo_arrays_ok i \<Longrightarrow> fsinfo_of_bytes (fsinfo_to_bytes i @ r) = i"
  by (simp add: fsinfo_of_bytes_def fsinfo_to_bytes_def fsinfo_arrays_ok_def codec_simps)

lemma boot_roundtrip:
  "boot_arrays_ok b \<Longrightarrow> boot_of_bytes (boot_to_bytes b @ r) = b"
  by (simp add: boot_of_bytes_def boot_to_bytes_def boot_arrays_ok_def codec_simps)

lemma length_dirent: "length (de_name e) = 11 \<Longrightarrow> length (dirent_to_bytes e) = 32"
  by (simp add: dirent_to_bytes_def)

lemma length_boot: "boot_arrays_ok b \<Longrightarrow> length (boot_to_bytes b) = 90"
  by (simp add: boot_to_bytes_def boot_arrays_ok_def)

lemma length_fsinfo: "fsinfo_arrays_ok i \<Longrightarrow> length (fsinfo_to_bytes i) = 512"
  by (simp add: fsinfo_to_bytes_def fsinfo_arrays_ok_def)

lemma cluster_halves:
  fixes c :: u32
  shows "push_bit 16 (ucast (ucast (drop_bit 16 c AND 0xFFFF) :: u16)) OR ucast (ucast (c AND 0xFFFF) :: u16)
    = c" (is "?l = c")
proof -
  have m: "(0xFFFF :: u32) = mask 16" by (simp add: mask_eq_exp_minus_1)
  show ?thesis
  proof (rule bit_word_eqI)
    fix n assume "n < LENGTH(32)"
    then consider "n < 16" | "16 \<le> n" "n < 32" by fastforce
    then show "bit ?l n = bit c n"
      unfolding m by cases (auto simp: bit_simps)
  qed
qed

end
