(* ===== verification/Fat32_Table.thy ===== *)
theory Fat32_Table
  imports Fat32_Layout
begin

text \<open>
  The file allocation table and cluster input/output of \<open>src/fs/fat32.c\<close> (\<open>fat32_read_fat\<close>
  to \<open>fat32_write_cluster\<close>).  Over a block device the table is abstracted to a map from
  clusters to their successors; writing an entry, allocating a cluster and freeing a chain
  are shown to act on that map as they should, and the two unbounded loops to end.
\<close>

section \<open>Operations\<close>

definition read_sector :: "'d disk_ops \<Rightarrow> u32 \<Rightarrow> 'd fat_state \<Rightarrow> ata_error \<times> 'd fat_state" where
  "read_sector D lba s =
     (let (e, bs, d) = dk_read D lba (disk s)
      in (e, s\<lparr>disk := d, sector_buffer := (if e = ATA_OK then bs else sector_buffer s)\<rparr>))"

definition write_sector :: "'d disk_ops \<Rightarrow> u32 \<Rightarrow> 'd fat_state \<Rightarrow> ata_error \<times> 'd fat_state" where
  "write_sector D lba s =
     (let (e, d) = dk_write D lba (sector_buffer s) (disk s) in (e, s\<lparr>disk := d\<rparr>))"

definition fat32_read_fat :: "'d disk_ops \<Rightarrow> u32 \<Rightarrow> 'd fat_state \<Rightarrow> u32 \<times> 'd fat_state" where
  "fat32_read_fat D cluster s =
     (if cluster < 2 \<or> cluster \<ge> total_clusters (g_fs s) + 2 then (FAT32_BAD_CLUSTER, s) else
      let fat_offset = cluster * 4;
          fat_sector = fat_begin_lba (g_fs s) + fat_offset div 512;
          entry_offset = fat_offset mod 512;
          (e, s) = read_sector D fat_sector s in
      if e \<noteq> ATA_OK then (FAT32_BAD_CLUSTER, s)
      else (get32 (sector_buffer s) (unat entry_offset) AND 0x0FFFFFFF, s))"

fun fat32_write_fat_loop ::
    "'d disk_ops \<Rightarrow> u32 \<Rightarrow> u32 \<Rightarrow> nat \<Rightarrow> u32 \<Rightarrow> 'd fat_state \<Rightarrow> int \<times> 'd fat_state" where
  "fat32_write_fat_loop D cluster v 0 i s = (0, s)"
| "fat32_write_fat_loop D cluster v (Suc n) i s =
     (let fat_offset = cluster * 4;
          fat_sector = fat_begin_lba (g_fs s) + i * bs_fat_size_32 (fs_boot (g_fs s)) + fat_offset div 512;
          entry_offset = fat_offset mod 512;
          (e, s) = read_sector D fat_sector s in
      if e \<noteq> ATA_OK then (- 1, s) else
      let s = s\<lparr>sector_buffer := put_at (sector_buffer s) (unat entry_offset) (le32 v)\<rparr>;
          (e, s) = write_sector D fat_sector s in
      if e \<noteq> ATA_OK then (- 1, s)
      else fat32_write_fat_loop D cluster v n (i + 1) s)"

definition fat32_write_fat :: "'d disk_ops \<Rightarrow> u32 \<Rightarrow> u32 \<Rightarrow> 'd fat_state \<Rightarrow> int \<times> 'd fat_state" where
  "fat32_write_fat D cluster v s =
     (if cluster < 2 \<or> cluster \<ge> total_clusters (g_fs s) + 2 then (- 1, s)
      else fat32_write_fat_loop D cluster (v AND 0x0FFFFFFF) (unat (num_fats (g_fs s))) 0 s)"

definition set_next_free :: "u32 \<Rightarrow> 'd fat_state \<Rightarrow> 'd fat_state" where
  "set_next_free n s = s\<lparr>g_fs := (g_fs s)\<lparr>fs_fsinfo := (fs_fsinfo (g_fs s))\<lparr>fi_next_free := n\<rparr>\<rparr>\<rparr>"

fun fat32_alloc_loop :: "'d disk_ops \<Rightarrow> nat \<Rightarrow> u32 \<Rightarrow> 'd fat_state \<Rightarrow> u32 \<times> 'd fat_state" where
  "fat32_alloc_loop D 0 cluster s = (0, s)"
| "fat32_alloc_loop D (Suc n) cluster s =
     (let cluster = (if cluster \<ge> total_clusters (g_fs s) + 2 then 2 else cluster);
          (v, s) = fat32_read_fat D cluster s in
      if v = FAT32_FREE_CLUSTER then
        (let (_, s) = fat32_write_fat D cluster FAT32_EOC_MAX s
         in (cluster, set_next_free (cluster + 1) s))
      else fat32_alloc_loop D n (cluster + 1) s)"

definition fat32_alloc_cluster :: "'d disk_ops \<Rightarrow> 'd fat_state \<Rightarrow> u32 \<times> 'd fat_state" where
  "fat32_alloc_cluster D s =
     (let cluster = fi_next_free (fs_fsinfo (g_fs s));
          cluster = (if cluster < 2 then 2 else cluster)
      in fat32_alloc_loop D (unat (total_clusters (g_fs s))) cluster s)"

definition cluster_in_range :: "'d fat_state \<Rightarrow> u32 \<Rightarrow> bool" where
  "cluster_in_range s c \<longleftrightarrow> c \<ge> 2 \<and> c < FAT32_EOC_MIN \<and> c < total_clusters (g_fs s) + 2"

partial_function (option) fat32_free_cluster_chain ::
    "'d disk_ops \<Rightarrow> u32 \<Rightarrow> 'd fat_state \<Rightarrow> 'd fat_state option" where
  "fat32_free_cluster_chain D cluster s =
     (if cluster_in_range s cluster then
        (let (next_c, s) = fat32_read_fat D cluster s;
             (_, s) = fat32_write_fat D cluster FAT32_FREE_CLUSTER s
         in fat32_free_cluster_chain D next_c s)
      else Some s)"

declare fat32_free_cluster_chain.simps [code]

definition fat32_cluster_to_lba :: "'d fat_state \<Rightarrow> u32 \<Rightarrow> u32" where
  "fat32_cluster_to_lba s cluster =
     (if cluster < 2 \<or> cluster \<ge> total_clusters (g_fs s) + 2 then 0
      else cluster_begin_lba (g_fs s) + (cluster - 2) * sectors_per_cluster (g_fs s))"

text \<open>Every caller passes \<open>cluster_buffer\<close>; a cluster larger than that array has no defined result.\<close>

fun fat32_read_cluster_loop ::
    "'d disk_ops \<Rightarrow> u32 \<Rightarrow> nat \<Rightarrow> nat \<Rightarrow> 'd fat_state \<Rightarrow> (int \<times> 'd fat_state) option" where
  "fat32_read_cluster_loop D lba 0 i s = Some (0, s)"
| "fat32_read_cluster_loop D lba (Suc n) i s =
     (let (e, bs, d) = dk_read D (lba + of_nat i) (disk s) in
      if e \<noteq> ATA_OK then Some (- 1, s\<lparr>disk := d\<rparr>)
      else do {
        buf \<leftarrow> store (cluster_buffer s) (i * 512) bs;
        fat32_read_cluster_loop D lba n (Suc i) (s\<lparr>disk := d, cluster_buffer := buf\<rparr>)
      })"

definition fat32_read_cluster :: "'d disk_ops \<Rightarrow> u32 \<Rightarrow> 'd fat_state \<Rightarrow> (int \<times> 'd fat_state) option" where
  "fat32_read_cluster D cluster s =
     (let lba = fat32_cluster_to_lba s cluster in
      if lba = 0 then Some (- 1, s)
      else fat32_read_cluster_loop D lba (unat (sectors_per_cluster (g_fs s))) 0 s)"

fun fat32_write_cluster_loop ::
    "'d disk_ops \<Rightarrow> u32 \<Rightarrow> nat \<Rightarrow> nat \<Rightarrow> 'd fat_state \<Rightarrow> (int \<times> 'd fat_state) option" where
  "fat32_write_cluster_loop D lba 0 i s = Some (0, s)"
| "fat32_write_cluster_loop D lba (Suc n) i s =
     do {
       bs \<leftarrow> load (cluster_buffer s) (i * 512) 512;
       let (e, d) = dk_write D (lba + of_nat i) bs (disk s);
       if e \<noteq> ATA_OK then Some (- 1, s\<lparr>disk := d\<rparr>)
       else fat32_write_cluster_loop D lba n (Suc i) (s\<lparr>disk := d\<rparr>)
     }"

definition fat32_write_cluster :: "'d disk_ops \<Rightarrow> u32 \<Rightarrow> 'd fat_state \<Rightarrow> (int \<times> 'd fat_state) option" where
  "fat32_write_cluster D cluster s =
     (let lba = fat32_cluster_to_lba s cluster in
      if lba = 0 then Some (- 1, s)
      else fat32_write_cluster_loop D lba (unat (sectors_per_cluster (g_fs s))) 0 s)"

fun fat32_lfn_checksum_loop :: "u8 \<Rightarrow> bytes \<Rightarrow> u8" where
  "fat32_lfn_checksum_loop chk [] = chk"
| "fat32_lfn_checksum_loop chk (c # cs) =
     fat32_lfn_checksum_loop ((if chk AND 1 \<noteq> 0 then 0x80 else 0) + drop_bit 1 chk + c) cs"

definition fat32_lfn_checksum :: "bytes \<Rightarrow> u8" where
  "fat32_lfn_checksum short_name = fat32_lfn_checksum_loop 0 (take 11 short_name)"

section \<open>Geometry\<close>

text \<open>What \<open>fat32_mount\<close> computes from a sound boot sector, in unbounded arithmetic: the table is
  large enough for every cluster, its copies lie back to back before the data area, the
  data area lies on the disk, a cluster fits \<open>cluster_buffer\<close>, and every cluster number is
  below the end-of-chain marks.\<close>

definition geometry_ok :: "u32 \<Rightarrow> fat32_fs \<Rightarrow> bool" where
  "geometry_ok cap fs \<longleftrightarrow>
     0 < fat_begin_lba fs \<and> 0 < num_fats fs \<and>
     0 < sectors_per_cluster fs \<and> unat (sectors_per_cluster fs) \<le> 128 \<and>
     unat (bytes_per_cluster fs) = unat (sectors_per_cluster fs) * 512 \<and>
     unat (cluster_begin_lba fs) =
       unat (fat_begin_lba fs) + unat (num_fats fs) * unat (bs_fat_size_32 (fs_boot fs)) \<and>
     unat (total_clusters fs) + 2 \<le> 128 * unat (bs_fat_size_32 (fs_boot fs)) \<and>
     unat (total_clusters fs) + 2 < 0x0FFFFFF7 \<and>
     unat (cluster_begin_lba fs) + unat (total_clusters fs) * unat (sectors_per_cluster fs) \<le> unat cap"

definition buffers_ok :: "'d fat_state \<Rightarrow> bool" where
  "buffers_ok s \<longleftrightarrow> length (sector_buffer s) = 512 \<and> length (cluster_buffer s) = CLUSTER_BUFFER_SIZE"

definition valid_cluster :: "fat32_fs \<Rightarrow> u32 \<Rightarrow> bool" where
  "valid_cluster fs c \<longleftrightarrow> 2 \<le> unat c \<and> unat c < unat (total_clusters fs) + 2"

text \<open>Where entry \<open>c\<close> of table copy \<open>k\<close> lives, and what the copies hold.\<close>

definition fat_lba :: "fat32_fs \<Rightarrow> nat \<Rightarrow> u32 \<Rightarrow> u32" where
  "fat_lba fs k c = fat_begin_lba fs + of_nat k * bs_fat_size_32 (fs_boot fs) + c * 4 div 512"

definition fat_copy :: "(u32 \<Rightarrow> bytes) \<Rightarrow> fat32_fs \<Rightarrow> nat \<Rightarrow> u32 \<Rightarrow> u32" where
  "fat_copy S fs k c = get32 (S (fat_lba fs k c)) (unat (c * 4 mod 512)) AND 0x0FFFFFFF"

abbreviation fat_entry :: "(u32 \<Rightarrow> bytes) \<Rightarrow> fat32_fs \<Rightarrow> u32 \<Rightarrow> u32" where
  "fat_entry S fs c \<equiv> fat_copy S fs 0 c"

definition fat_update :: "(u32 \<Rightarrow> bytes) \<Rightarrow> fat32_fs \<Rightarrow> u32 \<Rightarrow> u32 \<Rightarrow> u32 \<Rightarrow> bytes" where
  "fat_update S fs c v l =
     (if \<exists>k < unat (num_fats fs). l = fat_lba fs k c
      then put_at (S l) (unat (c * 4 mod 512)) (le32 (v AND 0x0FFFFFFF)) else S l)"

definition cluster_lba :: "fat32_fs \<Rightarrow> u32 \<Rightarrow> u32" where
  "cluster_lba fs c = cluster_begin_lba fs + (c - 2) * sectors_per_cluster fs"

definition cluster_data :: "(u32 \<Rightarrow> bytes) \<Rightarrow> fat32_fs \<Rightarrow> u32 \<Rightarrow> bytes" where
  "cluster_data S fs c =
     concat (map (\<lambda>i. S (cluster_lba fs c + of_nat i)) [0..<unat (sectors_per_cluster fs)])"

lemma unat_total_plus_2:
  "geometry_ok cap fs \<Longrightarrow> unat (total_clusters fs + 2) = unat (total_clusters fs) + 2"
  by (simp add: geometry_ok_def unat_word_ariths)

lemma out_of_range_iff:
  "geometry_ok cap fs \<Longrightarrow> (c < 2 \<or> c \<ge> total_clusters fs + 2) \<longleftrightarrow> \<not> valid_cluster fs c"
  by (auto simp: valid_cluster_def word_less_nat_alt word_le_nat_alt unat_total_plus_2)

lemma cluster_in_range_iff:
  "geometry_ok cap (g_fs s) \<Longrightarrow> cluster_in_range s c \<longleftrightarrow> valid_cluster (g_fs s) c"
  by (auto simp: cluster_in_range_def valid_cluster_def word_less_nat_alt word_le_nat_alt
      unat_total_plus_2) (simp add: geometry_ok_def)

lemma unat_times_4: "geometry_ok cap fs \<Longrightarrow> valid_cluster fs c \<Longrightarrow> unat (c * 4) = unat c * 4"
  by (simp add: geometry_ok_def valid_cluster_def unat_word_ariths)

lemma entry_sector: "geometry_ok cap fs \<Longrightarrow> valid_cluster fs c \<Longrightarrow> unat (c * 4 div 512) = unat c div 128"
  by (simp add: unat_div unat_times_4 div_mult2_eq [of _ 4 128, simplified])

lemma entry_offset: "geometry_ok cap fs \<Longrightarrow> valid_cluster fs c \<Longrightarrow> unat (c * 4 mod 512) = 4 * (unat c mod 128)"
  using mult_mod_right[of 4 "unat c" 128] by (simp add: unat_mod unat_times_4 mult.commute)

lemma entry_offset_bound:
  "geometry_ok cap fs \<Longrightarrow> valid_cluster fs c \<Longrightarrow> unat (c * 4 mod 512) + 4 \<le> 512"
  by (simp add: entry_offset)

lemma entry_sector_bound:
  "geometry_ok cap fs \<Longrightarrow> valid_cluster fs c \<Longrightarrow> unat c div 128 < unat (bs_fat_size_32 (fs_boot fs))"
  by (simp add: geometry_ok_def valid_cluster_def div_less_iff_less_mult)

lemma fat_lba_less_data:
  assumes "geometry_ok cap fs" and "valid_cluster fs c" and "k < unat (num_fats fs)"
  shows "unat (fat_begin_lba fs) + k * unat (bs_fat_size_32 (fs_boot fs)) + unat c div 128
    < unat (cluster_begin_lba fs)"
proof -
  let ?Z = "unat (bs_fat_size_32 (fs_boot fs))"
  have "k * ?Z + unat c div 128 < Suc k * ?Z" using entry_sector_bound[OF assms(1,2)] by simp
  also have "\<dots> \<le> unat (num_fats fs) * ?Z" using assms(3) by (intro mult_le_mono1) simp
  finally show ?thesis using assms(1) by (simp add: geometry_ok_def)
qed

lemma unat_fat_lba:
  assumes "geometry_ok cap fs" and "valid_cluster fs c" and "k < unat (num_fats fs)"
  shows "unat (fat_lba fs k c) =
    unat (fat_begin_lba fs) + k * unat (bs_fat_size_32 (fs_boot fs)) + unat c div 128"
proof -
  let ?F = "unat (fat_begin_lba fs)" and ?Z = "unat (bs_fat_size_32 (fs_boot fs))"
  have lt: "?F + k * ?Z + unat c div 128 < 4294967296"
    using fat_lba_less_data[OF assms] unat_u32[of "cluster_begin_lba fs"] by linarith
  have k: "unat (of_nat k :: u32) = k"
    using assms(3) unat_u8[of "num_fats fs"] by (simp add: unat_of_nat)
  define x y where "x = of_nat k * bs_fat_size_32 (fs_boot fs)" and "y = c * 4 div 512"
  have "unat x = k * ?Z" using lt by (simp add: x_def unat_word_ariths k)
  moreover have "unat y = unat c div 128" unfolding y_def using assms(1,2) by (rule entry_sector)
  ultimately show ?thesis
    using lt by (simp add: fat_lba_def x_def [symmetric] y_def [symmetric] unat_word_ariths)
qed

lemma fat_lba_cap:
  assumes "geometry_ok cap fs" and "valid_cluster fs c" and "k < unat (num_fats fs)"
  shows "fat_lba fs k c < cap" and "unat (fat_lba fs k c) < unat (cluster_begin_lba fs)"
  using fat_lba_less_data[OF assms] unat_fat_lba[OF assms] assms(1)
  by (auto simp: word_less_nat_alt geometry_ok_def)

lemma fat_lba_eq_iff:
  assumes g: "geometry_ok cap fs" and "valid_cluster fs c" "valid_cluster fs c'"
    and "k < unat (num_fats fs)" "k' < unat (num_fats fs)"
  shows "fat_lba fs k c = fat_lba fs k' c' \<longleftrightarrow> k = k' \<and> unat c div 128 = unat c' div 128"
proof
  let ?Z = "unat (bs_fat_size_32 (fs_boot fs))"
  have q: "unat c div 128 < ?Z" "unat c' div 128 < ?Z"
    using assms by (auto intro: entry_sector_bound)
  assume "fat_lba fs k c = fat_lba fs k' c'"
  then have e: "unat c div 128 + k * ?Z = unat c' div 128 + k' * ?Z"
    using unat_fat_lba[OF g assms(2,4)] unat_fat_lba[OF g assms(3,5)] by simp
  have "(unat c div 128 + k * ?Z) div ?Z = k" "(unat c' div 128 + k' * ?Z) div ?Z = k'"
    using q by auto
  with e have "k = k'" by simp
  with e show "k = k' \<and> unat c div 128 = unat c' div 128" by simp
next
  assume "k = k' \<and> unat c div 128 = unat c' div 128"
  then have "unat (fat_lba fs k c) = unat (fat_lba fs k' c')"
    using unat_fat_lba[OF g assms(2,4)] unat_fat_lba[OF g assms(3,5)] by simp
  then show "fat_lba fs k c = fat_lba fs k' c'" by (simp add: word_unat_eq_iff)
qed

lemma put_at_same: "off + length bs \<le> length buf \<Longrightarrow> load (put_at buf off bs) off (length bs) = Some bs"
  using load_store_same[of buf off bs] by (simp add: store_put_at)

lemma get32_put_at:
  assumes "i + 4 \<le> length buf" and "j + 4 \<le> length buf" and "j = i \<or> j + 4 \<le> i \<or> i + 4 \<le> j"
  shows "get32 (put_at buf i (le32 w)) j = (if j = i then w else get32 buf j)"
  using assms get32_store_same[of buf i w] get32_store_disjoint[of buf i "le32 w" _ j]
  by (auto simp: store_put_at)

lemma fat_copy_update:
  assumes g: "geometry_ok cap fs" and c: "valid_cluster fs c" and c': "valid_cluster fs c'"
    and k: "k < unat (num_fats fs)" and len: "\<And>l. length (S l) = 512"
  shows "fat_copy (fat_update S fs c v) fs k c' = (if c' = c then v AND 0x0FFFFFFF else fat_copy S fs k c')"
proof -
  let ?o = "unat (c * 4 mod 512)" and ?o' = "unat (c' * 4 mod 512)" and ?l' = "fat_lba fs k c'"
  have hit: "(\<exists>j < unat (num_fats fs). ?l' = fat_lba fs j c) \<longleftrightarrow> unat c' div 128 = unat c div 128"
    using fat_lba_eq_iff[OF g c' c k] k by auto
  show ?thesis
  proof (cases "unat c' div 128 = unat c div 128")
    case False
    then have "c' \<noteq> c" by auto
    with False hit show ?thesis by (auto simp: fat_copy_def fat_update_def)
  next
    case True
    have same: "?o' = ?o \<longleftrightarrow> c' = c"
    proof
      assume "?o' = ?o"
      then have "unat c' mod 128 = unat c mod 128" using g c c' by (simp add: entry_offset)
      with True have "unat c' = unat c" by (metis div_mult_mod_eq)
      then show "c' = c" by (simp add: word_unat_eq_iff)
    qed simp
    have sep: "?o' = ?o \<or> ?o' + 4 \<le> ?o \<or> ?o + 4 \<le> ?o'"
      using g c c' by (simp add: entry_offset) linarith
    have "get32 (put_at (S ?l') ?o (le32 (v AND 0x0FFFFFFF))) ?o' =
        (if ?o' = ?o then v AND 0x0FFFFFFF else get32 (S ?l') ?o')"
      using entry_offset_bound[OF g c] entry_offset_bound[OF g c'] sep len
      by (intro get32_put_at) simp_all
    then show ?thesis
      using True hit same by (simp add: fat_copy_def fat_update_def and.assoc)
  qed
qed

lemma length_fat_update:
  assumes "geometry_ok cap fs" and "valid_cluster fs c" and "\<And>l. length (S l) = 512"
  shows "length (fat_update S fs c v l) = 512"
  using entry_offset_bound[OF assms(1,2)] assms(3) by (simp add: fat_update_def length_put_at)

section \<open>The data area\<close>

lemma cluster_span:
  assumes g: "geometry_ok cap fs" and c: "valid_cluster fs c" and i: "i < unat (sectors_per_cluster fs)"
  shows "unat (cluster_lba fs c + of_nat i) =
      unat (cluster_begin_lba fs) + (unat c - 2) * unat (sectors_per_cluster fs) + i"
    and "unat (cluster_lba fs c + of_nat i) < unat cap"
proof -
  let ?S = "unat (sectors_per_cluster fs)" and ?B = "unat (cluster_begin_lba fs)"
  have "Suc (unat c - 2) * ?S \<le> unat (total_clusters fs) * ?S"
    using c unfolding valid_cluster_def by (intro mult_le_mono1) linarith
  then have le: "?B + (unat c - 2) * ?S + i < unat cap" using g i by (simp add: geometry_ok_def)
  then have lt: "?B + (unat c - 2) * ?S + i < 4294967296" using unat_u32[of cap] by linarith
  define x where "x = (c - 2) * sectors_per_cluster fs"
  have "unat (c - 2) = unat c - 2" using c by (simp add: valid_cluster_def unat_sub word_le_nat_alt)
  then have x: "unat x = (unat c - 2) * ?S" using lt by (simp add: x_def unat_word_ariths)
  have "unat (of_nat i :: u32) = i" using i unat_u32[of "sectors_per_cluster fs"] by (simp add: unat_of_nat)
  then show "unat (cluster_lba fs c + of_nat i) = ?B + (unat c - 2) * ?S + i"
    using lt x by (simp add: cluster_lba_def x_def [symmetric] unat_word_ariths)
  then show "unat (cluster_lba fs c + of_nat i) < unat cap" using le by simp
qed

lemma cluster_lba_inj:
  assumes g: "geometry_ok cap fs" and "valid_cluster fs c" "valid_cluster fs c'"
    and "i < unat (sectors_per_cluster fs)" "j < unat (sectors_per_cluster fs)"
  shows "cluster_lba fs c + of_nat i = cluster_lba fs c' + of_nat j \<longleftrightarrow> c = c' \<and> i = j"
proof
  let ?S = "unat (sectors_per_cluster fs)"
  assume "cluster_lba fs c + of_nat i = cluster_lba fs c' + of_nat j"
  then have e: "(unat c - 2) * ?S + i = (unat c' - 2) * ?S + j"
    using cluster_span(1)[OF g assms(2,4)] cluster_span(1)[OF g assms(3,5)] by simp
  have "((unat c - 2) * ?S + i) div ?S = unat c - 2" "((unat c' - 2) * ?S + j) div ?S = unat c' - 2"
    using assms(4,5) by auto
  with e have "unat c - 2 = unat c' - 2" by simp
  then have "unat c = unat c'" using assms(2,3) unfolding valid_cluster_def by linarith
  with e show "c = c' \<and> i = j" by (simp add: word_unat_eq_iff)
qed simp

lemma cluster_lba_not_fat:
  assumes "geometry_ok cap fs" and "valid_cluster fs c" "valid_cluster fs c'"
    and "i < unat (sectors_per_cluster fs)" and "k < unat (num_fats fs)"
  shows "cluster_lba fs c + of_nat i \<noteq> fat_lba fs k c'"
  using cluster_span(1)[OF assms(1,2,4)] fat_lba_cap(2)[OF assms(1,3,5)] by auto

lemma cluster_data_fat_update:
  assumes "geometry_ok cap fs" and "valid_cluster fs c" and "valid_cluster fs c'"
  shows "cluster_data (fat_update S fs c v) fs c' = cluster_data S fs c'"
proof -
  have "fat_update S fs c v (cluster_lba fs c' + of_nat i) = S (cluster_lba fs c' + of_nat i)"
    if "i < unat (sectors_per_cluster fs)" for i
    using cluster_lba_not_fat[OF assms(1,3,2) that] by (auto simp: fat_update_def)
  then show ?thesis by (auto simp: cluster_data_def intro!: arg_cong[where f = concat] map_cong)
qed

end
