(* ===== verification/Fat32_Chain.thy ===== *)
theory Fat32_Chain
  imports Fat32_Table
begin

text \<open>
  What the table and cluster operations of \<open>Fat32_Table\<close> do over a block device: the laws of
  \<open>block_device\<close> turn each of them into an update of the disk's sectors, and from these follow
  the correctness of allocation, of freeing a chain (with its termination, on any table, and
  the exact set of clusters freed) and of cluster transfers.
\<close>

section \<open>States the operations start from\<close>

definition fat_ready :: "('d \<Rightarrow> bool) \<Rightarrow> u32 \<Rightarrow> 'd fat_state \<Rightarrow> bool" where
  "fat_ready online cap s \<longleftrightarrow> online (disk s) \<and> geometry_ok cap (g_fs s) \<and> buffers_ok s"

definition cluster_store :: "(u32 \<Rightarrow> bytes) \<Rightarrow> fat32_fs \<Rightarrow> u32 \<Rightarrow> bytes \<Rightarrow> u32 \<Rightarrow> bytes" where
  "cluster_store S fs c buf l =
     (let i = unat (l - cluster_lba fs c)
      in if i < unat (sectors_per_cluster fs) then take 512 (drop (i * 512) buf) else S l)"

text \<open>The clusters of the chain that starts at \<open>c\<close>, cyclic or not.\<close>

inductive chain_reach :: "(u32 \<Rightarrow> u32) \<Rightarrow> fat32_fs \<Rightarrow> u32 \<Rightarrow> u32 \<Rightarrow> bool" for F fs c where
  chain_start: "valid_cluster fs c \<Longrightarrow> chain_reach F fs c c"
| chain_step: "chain_reach F fs c b \<Longrightarrow> valid_cluster fs (F b) \<Longrightarrow> chain_reach F fs c (F b)"

lemma chain_reach_valid: "chain_reach F fs c b \<Longrightarrow> valid_cluster fs b"
  by (induction rule: chain_reach.induct) auto

text \<open>Clearing the first link leaves the rest of the chain, whatever its shape.\<close>

lemma chain_reach_cut:
  assumes "valid_cluster fs c" and "\<not> valid_cluster fs z"
  shows "chain_reach F fs c x \<longleftrightarrow> x = c \<or> chain_reach (F(c := z)) fs (F c) x"
proof
  assume "chain_reach F fs c x"
  then show "x = c \<or> chain_reach (F(c := z)) fs (F c) x"
  proof (induction rule: chain_reach.induct)
    case (chain_step b)
    then show ?case
      using chain_reach.chain_step[of "F(c := z)" fs "F c" b]
      by (cases "b = c") (simp_all add: chain_start fun_upd_other del: fun_upd_apply)
  qed simp
next
  have "chain_reach F fs c x" if "chain_reach (F(c := z)) fs (F c) x"
    using that
  proof (induction rule: chain_reach.induct)
    case chain_start
    then show ?case using chain_reach.chain_step[of F fs c c] assms(1) by (simp add: chain_reach.chain_start)
  next
    case (chain_step b)
    with assms(2) have "b \<noteq> c" by auto
    with chain_step show ?case using chain_reach.chain_step[of F fs c b] by simp
  qed
  then show "x = c \<or> chain_reach (F(c := z)) fs (F c) x \<Longrightarrow> chain_reach F fs c x"
    using assms(1) by (auto intro: chain_start)
qed

lemma chain_reach_invalid: "\<not> valid_cluster fs c \<Longrightarrow> \<not> chain_reach F fs c x"
proof
  assume "chain_reach F fs c x" and "\<not> valid_cluster fs c"
  then show False by (induction rule: chain_reach.induct) auto
qed

lemma chain_reach_cong:
  assumes "\<And>b. valid_cluster fs b \<Longrightarrow> F b = G b"
  shows "chain_reach F fs c x = chain_reach G fs c x"
proof -
  have "chain_reach G' fs c x" if "chain_reach F' fs c x" "\<And>b. valid_cluster fs b \<Longrightarrow> F' b = G' b" for F' G'
    using that
  proof (induction rule: chain_reach.induct)
    case (chain_step b)
    then show ?case
      using chain_reach_valid[OF chain_step(1)] chain_reach.chain_step[of G' fs c b] by auto
  qed (simp add: chain_start)
  with assms show ?thesis by metis
qed

lemma finite_valid_clusters: "finite {c. valid_cluster fs c}"
  by (rule finite_subset[of _ UNIV]) auto

section \<open>Cluster contents\<close>

lemma concat_chunks:
  "n * k \<le> length buf \<Longrightarrow> concat (map (\<lambda>i. take k (drop (i * k) buf)) [0..<n]) = take (n * k) buf"
proof (induction n)
  case (Suc n)
  then show ?case using take_add[of "n * k" k buf] by (simp add: add.commute)
qed simp

lemma length_cluster_data:
  "(\<And>l. length (S l) = 512) \<Longrightarrow> length (cluster_data S fs c) = unat (sectors_per_cluster fs) * 512"
  by (simp add: cluster_data_def length_concat o_def sum_list_triv)

lemma cluster_store_offset:
  "i < unat (sectors_per_cluster fs) \<Longrightarrow>
   cluster_store S fs c buf (cluster_lba fs c + of_nat i) = take 512 (drop (i * 512) buf)"
  using unat_u32[of "sectors_per_cluster fs"] by (simp add: cluster_store_def unat_of_nat)

lemma cluster_store_elsewhere:
  assumes "\<And>i. i < unat (sectors_per_cluster fs) \<Longrightarrow> l \<noteq> cluster_lba fs c + of_nat i"
  shows "cluster_store S fs c buf l = S l"
proof -
  have "l = cluster_lba fs c + of_nat (unat (l - cluster_lba fs c))" by simp
  with assms[of "unat (l - cluster_lba fs c)"] show ?thesis by (auto simp: cluster_store_def Let_def)
qed

lemma cluster_data_store:
  assumes "geometry_ok cap fs" and "valid_cluster fs c" "valid_cluster fs c'"
    and "length buf = CLUSTER_BUFFER_SIZE"
  shows "cluster_data (cluster_store S fs c buf) fs c' =
    (if c' = c then take (unat (bytes_per_cluster fs)) buf else cluster_data S fs c')"
proof (cases "c' = c")
  case True
  have "concat (map (\<lambda>i. cluster_store S fs c buf (cluster_lba fs c + of_nat i))
      [0..<unat (sectors_per_cluster fs)]) =
    concat (map (\<lambda>i. take 512 (drop (i * 512) buf)) [0..<unat (sectors_per_cluster fs)])"
    by (intro arg_cong[where f = concat] map_cong) (auto simp: cluster_store_offset)
  with True show ?thesis
    using concat_chunks[of "unat (sectors_per_cluster fs)" 512 buf] assms(1,4)
    by (simp add: cluster_data_def geometry_ok_def)
next
  case False
  have "cluster_store S fs c buf (cluster_lba fs c' + of_nat i) = S (cluster_lba fs c' + of_nat i)"
    if "i < unat (sectors_per_cluster fs)" for i
    using False cluster_lba_inj[OF assms(1,3,2) that] by (intro cluster_store_elsewhere) auto
  with False show ?thesis
    by (auto simp: cluster_data_def intro!: arg_cong[where f = concat] map_cong)
qed

lemma fat_copy_cluster_store:
  assumes "geometry_ok cap fs" and "valid_cluster fs c" "valid_cluster fs c'" and "k < unat (num_fats fs)"
  shows "fat_copy (cluster_store S fs c buf) fs k c' = fat_copy S fs k c'"
  unfolding fat_copy_def
  using cluster_store_elsewhere[of fs "fat_lba fs k c'" c S buf] cluster_lba_not_fat[OF assms(1-3) _ assms(4)]
  by metis

lemma put_at_append:
  "i + length xs \<le> length buf \<Longrightarrow> put_at (put_at buf i xs) (i + length xs) ys = put_at buf i (xs @ ys)"
  by (simp add: put_at_def drop_append add.commute add.left_commute)

definition sector_chunk :: "bytes \<Rightarrow> nat \<Rightarrow> bytes" where
  "sector_chunk buf j = take 512 (drop (j * 512) buf)"

text \<open>Writing \<open>g i\<close>, \<open>g (i + 1)\<close>, \<open>...\<close> to \<open>n\<close> consecutive sectors.\<close>

definition store_range :: "(u32 \<Rightarrow> bytes) \<Rightarrow> u32 \<Rightarrow> (nat \<Rightarrow> bytes) \<Rightarrow> nat \<Rightarrow> nat \<Rightarrow> u32 \<Rightarrow> bytes" where
  "store_range S l g i n x = (let j = unat (x - l) in if i \<le> j \<and> j < i + n then g j else S x)"

lemma store_range_all:
  "store_range S (cluster_lba fs c) (sector_chunk buf) 0 (unat (sectors_per_cluster fs)) =
   cluster_store S fs c buf"
  by (intro ext) (simp add: store_range_def cluster_store_def sector_chunk_def Let_def)

lemma store_range_0: "store_range S l g i 0 = S"
  by (intro ext) (auto simp: store_range_def Let_def)

lemma store_range_step:
  assumes "i < 4294967296"
  shows "store_range (S(l + of_nat i := g i)) l g (Suc i) n = store_range S l g i (Suc n)"
proof
  fix x
  have "x = l + of_nat i \<longleftrightarrow> unat (x - l) = i"
  proof
    assume "unat (x - l) = i"
    then have "x - l = of_nat i" by auto
    then show "x = l + of_nat i" by (simp add: algebra_simps)
  qed (simp add: unat_of_nat assms)
  then show "store_range (S(l + of_nat i := g i)) l g (Suc i) n x = store_range S l g i (Suc n) x"
    by (auto simp: store_range_def Let_def)
qed

section \<open>Updating the copies one after another\<close>

definition fat_update_copies :: "(u32 \<Rightarrow> bytes) \<Rightarrow> fat32_fs \<Rightarrow> nat \<Rightarrow> nat \<Rightarrow> u32 \<Rightarrow> u32 \<Rightarrow> u32 \<Rightarrow> bytes" where
  "fat_update_copies S fs k n c v l =
     (if \<exists>j \<in> {k..<k + n}. l = fat_lba fs j c then put_at (S l) (unat (c * 4 mod 512)) (le32 v) else S l)"

lemma fat_update_copies_all:
  "fat_update_copies S fs 0 (unat (num_fats fs)) c (v AND 0x0FFFFFFF) = fat_update S fs c v"
  by (intro ext) (auto simp: fat_update_copies_def fat_update_def)

lemma fat_update_copies_step:
  assumes "geometry_ok cap fs" and "valid_cluster fs c" and "k + Suc n = unat (num_fats fs)"
  shows "fat_update_copies (S(fat_lba fs k c := put_at (S (fat_lba fs k c)) (unat (c * 4 mod 512)) (le32 v)))
      fs (Suc k) n c v = fat_update_copies S fs k (Suc n) c v"
proof
  fix l
  have ne: "fat_lba fs k c \<noteq> fat_lba fs j c" if "j \<in> {Suc k..<Suc k + n}" for j
    using fat_lba_eq_iff[OF assms(1,2,2), of k j] that assms(3) by auto
  have "{k..<k + Suc n} = insert k {Suc k..<Suc k + n}" by auto
  with ne show "fat_update_copies (S(fat_lba fs k c := put_at (S (fat_lba fs k c)) (unat (c * 4 mod 512)) (le32 v)))
      fs (Suc k) n c v l = fat_update_copies S fs k (Suc n) c v l"
    by (cases "l = fat_lba fs k c") (auto simp: fat_update_copies_def)
qed

section \<open>The ring of clusters\<close>

definition ring_pos :: "fat32_fs \<Rightarrow> u32 \<Rightarrow> nat" where
  "ring_pos fs c = (if unat c \<ge> unat (total_clusters fs) + 2 then 0 else unat c - 2)"

definition ring_cluster :: "fat32_fs \<Rightarrow> nat \<Rightarrow> u32" where
  "ring_cluster fs p = of_nat (p mod unat (total_clusters fs) + 2)"

lemma len32_power: "2 ^ LENGTH(32) = (4294967296 :: nat)"
  by simp

lemma unat_ring_cluster:
  "geometry_ok cap fs \<Longrightarrow> 0 < unat (total_clusters fs) \<Longrightarrow>
   unat (ring_cluster fs p) = p mod unat (total_clusters fs) + 2"
  using mod_less_divisor[of "unat (total_clusters fs)" p]
  unfolding ring_cluster_def unat_of_nat geometry_ok_def len32_power by (intro mod_less) linarith

lemma ring_clamp:
  fixes fs c
  defines "c' \<equiv> if c \<ge> total_clusters fs + 2 then 2 else c"
  assumes g: "geometry_ok cap fs" and c: "2 \<le> unat c" and t: "0 < unat (total_clusters fs)"
  shows "valid_cluster fs c'" and "ring_cluster fs (ring_pos fs c) = c'" and "2 \<le> unat (c' + 1)"
    and "ring_cluster fs (ring_pos fs c + Suc j) = ring_cluster fs (ring_pos fs (c' + 1) + j)"
proof -
  let ?T = "unat (total_clusters fs)"
  have le: "c \<ge> total_clusters fs + 2 \<longleftrightarrow> unat c \<ge> ?T + 2"
    by (simp add: word_le_nat_alt unat_total_plus_2[OF g])
  have c': "unat c' = ring_pos fs c + 2" using c by (auto simp: c'_def le ring_pos_def)
  have lt: "ring_pos fs c < ?T" using c t by (auto simp: ring_pos_def)
  have T: "?T + 2 < 0x0FFFFFF7" using g by (simp add: geometry_ok_def)
  show "valid_cluster fs c'" using c' lt by (simp add: valid_cluster_def)
  show "ring_cluster fs (ring_pos fs c) = c'"
    using unat_ring_cluster[OF g t, of "ring_pos fs c"] c' lt by (simp add: word_unat_eq_iff)
  have s: "unat (c' + 1) = ring_pos fs c + 3" using c' lt T by (simp add: unat_word_ariths)
  then show "2 \<le> unat (c' + 1)" by simp
  have "ring_pos fs (c' + 1) = Suc (ring_pos fs c) mod ?T"
    using s lt by (auto simp: ring_pos_def[of fs "c' + 1"] mod_Suc)
  then show "ring_cluster fs (ring_pos fs c + Suc j) = ring_cluster fs (ring_pos fs (c' + 1) + j)"
    by (simp add: ring_cluster_def mod_add_left_eq)
qed

lemma ring_covers:
  assumes g: "geometry_ok cap fs" and t: "0 < unat (total_clusters fs)"
  shows "(\<exists>j < unat (total_clusters fs). P (ring_cluster fs (p + j))) \<longleftrightarrow> (\<exists>c. valid_cluster fs c \<and> P c)"
proof
  let ?T = "unat (total_clusters fs)"
  have "valid_cluster fs (ring_cluster fs (p + j))" for j
    using unat_ring_cluster[OF g t] t by (simp add: valid_cluster_def)
  moreover assume "\<exists>j < ?T. P (ring_cluster fs (p + j))"
  ultimately show "\<exists>c. valid_cluster fs c \<and> P c" by blast
next
  let ?T = "unat (total_clusters fs)"
  assume "\<exists>c. valid_cluster fs c \<and> P c"
  then obtain c where c: "valid_cluster fs c" "P c" by blast
  define j where "j = (unat c - 2 + (?T - p mod ?T)) mod ?T"
  have "(p + j) mod ?T = (p mod ?T + (unat c - 2 + (?T - p mod ?T))) mod ?T"
    by (simp add: j_def mod_add_left_eq mod_add_right_eq)
  also have "\<dots> = (unat c - 2 + ?T) mod ?T"
    using mod_less_divisor[OF t, of p] by (simp add: add.commute add.left_commute)
  also have "\<dots> = (unat c - 2) mod ?T" by (rule mod_add_self2)
  also have "\<dots> = unat c - 2" using c(1) unfolding valid_cluster_def by (intro mod_less) linarith
  finally have "ring_cluster fs (p + j) = c"
    using unat_ring_cluster[OF g t, of "p + j"] c(1)
    unfolding word_unat_eq_iff valid_cluster_def by linarith
  moreover have "j < ?T" using t by (simp add: j_def)
  ultimately show "\<exists>j < ?T. P (ring_cluster fs (p + j))" using c(2) by auto
qed

section \<open>Freeing a chain\<close>

definition used_clusters :: "(u32 \<Rightarrow> bytes) \<Rightarrow> fat32_fs \<Rightarrow> u32 set" where
  "used_clusters S fs = {x. valid_cluster fs x \<and> fat_entry S fs x \<noteq> 0}"

text \<open>\<open>S'\<close> is \<open>S\<close> with the chain from \<open>c\<close> released in every copy of the table, the data untouched.\<close>

definition chain_freed :: "(u32 \<Rightarrow> bytes) \<Rightarrow> fat32_fs \<Rightarrow> u32 \<Rightarrow> (u32 \<Rightarrow> bytes) \<Rightarrow> bool" where
  "chain_freed S fs c S' \<longleftrightarrow>
     (\<forall>x. valid_cluster fs x \<longrightarrow> cluster_data S' fs x = cluster_data S fs x \<and>
       (\<forall>k < unat (num_fats fs). fat_copy S' fs k x =
         (if chain_reach (fat_entry S fs) fs c x then 0 else fat_copy S fs k x)))"

lemma chain_freed_invalid: "\<not> valid_cluster fs c \<Longrightarrow> chain_freed S fs c S"
  by (simp add: chain_freed_def chain_reach_invalid)

lemma zero_invalid: "\<not> valid_cluster fs 0"
  by (simp add: valid_cluster_def)

lemma used_clusters_update:
  assumes "geometry_ok cap fs" and "valid_cluster fs c" and "\<And>l. length (S l) = 512"
  shows "used_clusters (fat_update S fs c 0) fs = used_clusters S fs - {c}"
proof -
  have "0 < unat (num_fats fs)" using assms(1) by (simp add: geometry_ok_def word_less_nat_alt)
  then have "fat_entry (fat_update S fs c 0) fs x = (if x = c then 0 else fat_entry S fs x)"
    if "valid_cluster fs x" for x
    using fat_copy_update[where S = S and k = 0 and v = 0, OF assms(1,2) that _ assms(3)] by simp
  then show ?thesis by (auto simp: used_clusters_def split: if_splits)
qed

lemma used_clusters_decrease:
  assumes "geometry_ok cap fs" and "valid_cluster fs c" and "\<And>l. length (S l) = 512"
    and "fat_entry S fs c \<noteq> 0"
  shows "card (used_clusters (fat_update S fs c 0) fs) < card (used_clusters S fs)"
proof -
  have "finite (used_clusters S fs)"
    by (rule finite_subset[OF _ finite_valid_clusters[of fs]]) (auto simp: used_clusters_def)
  moreover have "c \<in> used_clusters S fs" using assms(2,4) by (simp add: used_clusters_def)
  ultimately show ?thesis
    unfolding used_clusters_update[OF assms(1-3)] by (rule card_Diff1_less)
qed

lemma chain_freed_step:
  assumes g: "geometry_ok cap fs" and c: "valid_cluster fs c" and len: "\<And>l. length (S l) = 512"
    and "chain_freed (fat_update S fs c 0) fs (fat_entry S fs c) S'"
  shows "chain_freed S fs c S'"
proof -
  let ?S = "fat_update S fs c 0"
  have upd: "fat_copy ?S fs k x = (if x = c then 0 else fat_copy S fs k x)"
    if "valid_cluster fs x" "k < unat (num_fats fs)" for x k
    using fat_copy_update[OF g c that len, where v = 0] by simp
  have "0 < unat (num_fats fs)" using g by (simp add: geometry_ok_def word_less_nat_alt)
  then have "chain_reach (fat_entry ?S fs) fs n x = chain_reach ((fat_entry S fs)(c := 0)) fs n x" for n x
    by (intro chain_reach_cong) (simp add: upd)
  then have "chain_reach (fat_entry S fs) fs c x \<longleftrightarrow>
      x = c \<or> chain_reach (fat_entry ?S fs) fs (fat_entry S fs c) x" for x
    using chain_reach_cut[OF c zero_invalid, of "fat_entry S fs" x] by simp
  then show ?thesis
    using assms(4) cluster_data_fat_update[OF g c] by (auto simp: chain_freed_def upd)
qed

section \<open>The operations over a block device\<close>

context block_device
begin

text \<open>\<open>s'\<close> is \<open>s\<close> after transfers that left the sectors \<open>S\<close> on the disk and \<open>buf\<close> in \<open>cluster_buffer\<close>.\<close>

definition io_to :: "'d fat_state \<Rightarrow> (u32 \<Rightarrow> bytes) \<Rightarrow> bytes \<Rightarrow> 'd fat_state \<Rightarrow> bool" where
  "io_to s S buf s' \<longleftrightarrow>
     g_fs s' = g_fs s \<and> path_stack s' = path_stack s \<and> path_depth s' = path_depth s \<and>
     g_current_dir_cluster s' = g_current_dir_cluster s \<and> console s' = console s \<and>
     length (sector_buffer s') = 512 \<and> cluster_buffer s' = buf \<and> length buf = CLUSTER_BUFFER_SIZE \<and>
     online (disk s') \<and> sectors (disk s') = S"

abbreviation ready :: "'d fat_state \<Rightarrow> bool" where
  "ready s \<equiv> fat_ready online cap s"

abbreviation on_disk :: "'d fat_state \<Rightarrow> u32 \<Rightarrow> bytes" where
  "on_disk s \<equiv> sectors (disk s)"

lemma io_toD:
  assumes "io_to s S buf s'"
  shows "on_disk s' = S" "cluster_buffer s' = buf" "g_fs s' = g_fs s" "length (S l) = 512"
    "path_stack s' = path_stack s" "path_depth s' = path_depth s"
    "g_current_dir_cluster s' = g_current_dir_cluster s" "console s' = console s"
  using assms sector_length by (auto simp: io_to_def)

lemma io_to_ready: "io_to s S buf s' \<Longrightarrow> ready s \<Longrightarrow> ready s'"
  by (auto simp: io_to_def fat_ready_def buffers_ok_def)

lemma io_to_trans: "io_to s S buf s' \<Longrightarrow> io_to s' S' buf' s'' \<Longrightarrow> io_to s S' buf' s''"
  by (auto simp: io_to_def)

lemma io_to_refl: "ready s \<Longrightarrow> io_to s (on_disk s) (cluster_buffer s) s"
  by (simp add: io_to_def fat_ready_def buffers_ok_def)

lemma ready_sector_length: "ready s \<Longrightarrow> length (on_disk s l) = 512"
  by (simp add: fat_ready_def sector_length)

lemma ready_geometry: "ready s \<Longrightarrow> geometry_ok cap (g_fs s)"
  by (simp add: fat_ready_def)

lemma read_sector_ok:
  assumes "ready s" and "lba < cap"
  obtains s' where "read_sector D lba s = (ATA_OK, s')" "sector_buffer s' = on_disk s lba"
    "io_to s (on_disk s) (cluster_buffer s) s'"
proof -
  from read_ok[of "disk s" lba] assms obtain d' where
    "dk_read D lba (disk s) = (ATA_OK, on_disk s lba, d')" "online d'" "sectors d' = on_disk s"
    by (auto simp: fat_ready_def)
  then show ?thesis
    using that[of "s\<lparr>disk := d', sector_buffer := on_disk s lba\<rparr>"] assms(1)
    by (auto simp: read_sector_def io_to_def ready_sector_length fat_ready_def buffers_ok_def)
qed

lemma write_sector_ok:
  assumes "ready s" and "lba < cap" and "length b = 512"
  obtains s' where "write_sector D lba (s\<lparr>sector_buffer := b\<rparr>) = (ATA_OK, s')"
    "io_to s ((on_disk s)(lba := b)) (cluster_buffer s) s'"
proof -
  from write_ok[of "disk s" lba b] assms obtain d' where
    "dk_write D lba b (disk s) = (ATA_OK, d')" "online d'" "sectors d' = (on_disk s)(lba := b)"
    by (auto simp: fat_ready_def)
  then show ?thesis
    using that[of "s\<lparr>sector_buffer := b, disk := d'\<rparr>"] assms(1,3)
    by (auto simp: write_sector_def io_to_def fat_ready_def buffers_ok_def)
qed

lemma read_fat_ok:
  assumes r: "ready s" and v: "valid_cluster (g_fs s) c"
  obtains s' where "fat32_read_fat D c s = (fat_entry (on_disk s) (g_fs s) c, s')"
    "io_to s (on_disk s) (cluster_buffer s) s'"
proof -
  have g: "geometry_ok cap (g_fs s)" using r by (rule ready_geometry)
  have pos: "0 < unat (num_fats (g_fs s))" using g by (auto simp: geometry_ok_def word_less_nat_alt)
  from read_sector_ok[OF r fat_lba_cap(1)[OF g v pos]] obtain s' where
    "read_sector D (fat_lba (g_fs s) 0 c) s = (ATA_OK, s')"
    "sector_buffer s' = on_disk s (fat_lba (g_fs s) 0 c)" "io_to s (on_disk s) (cluster_buffer s) s'" .
  then show ?thesis
    using that out_of_range_iff[OF g, of c] v
    by (simp add: fat32_read_fat_def Let_def fat_copy_def fat_lba_def)
qed

lemma read_fat_invalid:
  "ready s \<Longrightarrow> \<not> valid_cluster (g_fs s) c \<Longrightarrow> fat32_read_fat D c s = (FAT32_BAD_CLUSTER, s)"
  using out_of_range_iff[OF ready_geometry, of s c] by (simp add: fat32_read_fat_def)

lemma write_fat_loop_ok:
  assumes "ready s" and "valid_cluster (g_fs s) c" and "k + n = unat (num_fats (g_fs s))"
  shows "\<exists>s'. fat32_write_fat_loop D c v n (of_nat k) s = (0, s') \<and>
    io_to s (fat_update_copies (on_disk s) (g_fs s) k n c v) (cluster_buffer s) s'"
  using assms
proof (induction n arbitrary: k s)
  case 0
  then show ?case using io_to_refl[of s] by (simp add: fat_update_copies_def)
next
  case (Suc n)
  let ?fs = "g_fs s" and ?o = "unat (c * 4 mod 512)"
  let ?l = "fat_lba ?fs k c"
  let ?b = "put_at (on_disk s ?l) ?o (le32 v)"
  have g: "geometry_ok cap ?fs" using Suc.prems(1) by (rule ready_geometry)
  have cap: "?l < cap" using fat_lba_cap(1)[OF g Suc.prems(2)] Suc.prems(3) by simp
  have b: "length ?b = 512"
    using entry_offset_bound[OF g Suc.prems(2)] Suc.prems(1)
    by (simp add: length_put_at ready_sector_length)
  obtain s1 where s1: "read_sector D ?l s = (ATA_OK, s1)" "sector_buffer s1 = on_disk s ?l"
    "io_to s (on_disk s) (cluster_buffer s) s1"
    using Suc.prems(1) cap by (rule read_sector_ok)
  note f1 = io_toD[OF s1(3)]
  obtain s2 where s2: "write_sector D ?l (s1\<lparr>sector_buffer := ?b\<rparr>) = (ATA_OK, s2)"
    "io_to s1 ((on_disk s1)(?l := ?b)) (cluster_buffer s1) s2"
    using io_to_ready[OF s1(3) Suc.prems(1)] cap b by (rule write_sector_ok)
  have io2: "io_to s ((on_disk s)(?l := ?b)) (cluster_buffer s) s2"
    using io_to_trans[OF s1(3) s2(2)] f1 by simp
  note f2 = io_toD[OF io2]
  have "Suc k + n = unat (num_fats (g_fs s2))" using Suc.prems(3) f2 by simp
  from Suc.IH[OF io_to_ready[OF io2 Suc.prems(1)] _ this] Suc.prems(2) f2(3)
  obtain s3 where s3: "fat32_write_fat_loop D c v n (of_nat (Suc k)) s2 = (0, s3)"
    "io_to s2 (fat_update_copies (on_disk s2) (g_fs s2) (Suc k) n c v) (cluster_buffer s2) s3"
    by auto
  have "io_to s (fat_update_copies (on_disk s) ?fs k (Suc n) c v) (cluster_buffer s) s3"
    using io_to_trans[OF io2 s3(2)] fat_update_copies_step[OF g Suc.prems(2,3)] f2(1-3) by simp
  moreover have "fat32_write_fat_loop D c v (Suc n) (of_nat k) s = (0, s3)"
    using s1(1,2) s2(1) s3(1) by (simp add: Let_def fat_lba_def add.commute)
  ultimately show ?case by blast
qed

lemma write_fat_ok:
  assumes r: "ready s" and v: "valid_cluster (g_fs s) c"
  obtains s' where "fat32_write_fat D c v s = (0, s')"
    "io_to s (fat_update (on_disk s) (g_fs s) c v) (cluster_buffer s) s'"
proof -
  from write_fat_loop_ok[OF r v, of 0 "unat (num_fats (g_fs s))" "v AND 0x0FFFFFFF"]
  obtain s' where s': "fat32_write_fat_loop D c (v AND 0x0FFFFFFF) (unat (num_fats (g_fs s))) 0 s = (0, s')"
    "io_to s (fat_update (on_disk s) (g_fs s) c v) (cluster_buffer s) s'"
    by (auto simp: fat_update_copies_all)
  then show ?thesis
    using that[of s'] v out_of_range_iff[OF ready_geometry[OF r], of c]
    by (simp add: fat32_write_fat_def)
qed

lemma write_fat_invalid:
  "ready s \<Longrightarrow> \<not> valid_cluster (g_fs s) c \<Longrightarrow> fat32_write_fat D c v s = (- 1, s)"
  using out_of_range_iff[OF ready_geometry, of s c] by (simp add: fat32_write_fat_def)

subsection \<open>Allocation\<close>

text \<open>The scan visits the clusters in a ring, from its start position.\<close>

definition alloc_result :: "'d fat_state \<Rightarrow> bool \<Rightarrow> u32 \<Rightarrow> 'd fat_state \<Rightarrow> bool" where
  "alloc_result s found r s' =
    (if found
     then valid_cluster (g_fs s) r \<and> fat_entry (on_disk s) (g_fs s) r = 0 \<and>
       (\<exists>s1. io_to s (fat_update (on_disk s) (g_fs s) r FAT32_EOC_MAX) (cluster_buffer s) s1 \<and>
         s' = set_next_free (r + 1) s1)
     else r = 0 \<and> io_to s (on_disk s) (cluster_buffer s) s')"

lemma alloc_result_io:
  assumes "io_to s (on_disk s) (cluster_buffer s) s1" and "alloc_result s1 f r s'"
  shows "alloc_result s f r s'"
  using assms(2) io_to_trans[OF assms(1)] unfolding alloc_result_def io_toD(1-3)[OF assms(1)]
  by (auto split: if_splits)

lemma alloc_loop_ok:
  assumes "ready s" and "2 \<le> unat c" and "0 < unat (total_clusters (g_fs s))"
  shows "\<exists>r s'. fat32_alloc_loop D n c s = (r, s') \<and>
    alloc_result s (\<exists>j < n. fat_entry (on_disk s) (g_fs s) (ring_cluster (g_fs s) (ring_pos (g_fs s) c + j)) = 0) r s'"
  using assms
proof (induction n arbitrary: c s)
  case 0
  then show ?case by (simp add: alloc_result_def io_to_refl)
next
  case (Suc n)
  let ?fs = "g_fs s" and ?S = "on_disk s"
  let ?c = "if c \<ge> total_clusters ?fs + 2 then 2 else c"
  have g: "geometry_ok cap ?fs" using Suc.prems(1) by (rule ready_geometry)
  note ring = ring_clamp[OF g Suc.prems(2,3)]
  obtain s1 where s1: "fat32_read_fat D ?c s = (fat_entry ?S ?fs ?c, s1)"
    "io_to s ?S (cluster_buffer s) s1"
    using Suc.prems(1) ring(1) by (rule read_fat_ok)
  note f1 = io_toD[OF s1(2)] and r1 = io_to_ready[OF s1(2) Suc.prems(1)]
  show ?case
  proof (cases "fat_entry ?S ?fs ?c = 0")
    case True
    obtain s2 where s2: "fat32_write_fat D ?c FAT32_EOC_MAX s1 = (0, s2)"
      "io_to s1 (fat_update (on_disk s1) (g_fs s1) ?c FAT32_EOC_MAX) (cluster_buffer s1) s2"
      using r1 ring(1) f1(3) by (metis write_fat_ok)
    have "fat32_alloc_loop D (Suc n) c s = (?c, set_next_free (?c + 1) s2)"
      using s1(1) s2(1) True by (simp add: Let_def)
    moreover have "io_to s (fat_update ?S ?fs ?c FAT32_EOC_MAX) (cluster_buffer s) s2"
      using io_to_trans[OF s1(2) s2(2)] f1(1-3) by simp
    moreover have "\<exists>j < Suc n. fat_entry ?S ?fs (ring_cluster ?fs (ring_pos ?fs c + j)) = 0"
      using True ring(2) by (intro exI[of _ 0]) simp
    ultimately show ?thesis using True ring(1) unfolding alloc_result_def by auto
  next
    case False
    have step: "fat32_alloc_loop D (Suc n) c s = fat32_alloc_loop D n (?c + 1) s1"
      using s1(1) False by (simp add: Let_def)
    have hit: "(\<exists>j < Suc n. fat_entry ?S ?fs (ring_cluster ?fs (ring_pos ?fs c + j)) = 0) \<longleftrightarrow>
        (\<exists>j < n. fat_entry ?S ?fs (ring_cluster ?fs (ring_pos ?fs (?c + 1) + j)) = 0)"
      using False by (simp only: Ex_less_Suc2 ring(2,4) add_0_right simp_thms)
    have "0 < unat (total_clusters (g_fs s1))" using Suc.prems(3) f1(3) by simp
    from Suc.IH[OF r1 ring(3) this] show ?thesis
      unfolding step hit f1(1-3) using alloc_result_io[OF s1(2)] by blast
  qed
qed

lemma alloc_cluster_ok:
  assumes "ready s"
  shows "\<exists>r s'. fat32_alloc_cluster D s = (r, s') \<and>
    alloc_result s (\<exists>c. valid_cluster (g_fs s) c \<and> fat_entry (on_disk s) (g_fs s) c = 0) r s'"
proof (cases "0 < unat (total_clusters (g_fs s))")
  case True
  let ?n = "fi_next_free (fs_fsinfo (g_fs s))"
  let ?c = "if ?n < 2 then 2 else ?n"
  have c: "2 \<le> unat ?c" by (auto simp: word_less_nat_alt)
  show ?thesis
    using alloc_loop_ok[OF assms c True, of "unat (total_clusters (g_fs s))"]
      ring_covers[OF ready_geometry[OF assms] True, of "\<lambda>c. fat_entry (on_disk s) (g_fs s) c = 0"]
    by (simp add: fat32_alloc_cluster_def Let_def)
next
  case False
  then have "\<not> valid_cluster (g_fs s) c" for c by (simp add: valid_cluster_def)
  with False show ?thesis by (simp add: fat32_alloc_cluster_def alloc_result_def io_to_refl assms)
qed

subsection \<open>Freeing a chain\<close>

lemma free_chain_ok:
  assumes "ready s"
  shows "\<exists>s' S'. fat32_free_cluster_chain D c s = Some s' \<and>
    io_to s S' (cluster_buffer s) s' \<and> chain_freed (on_disk s) (g_fs s) c S'"
  using assms
proof (induction "card (used_clusters (on_disk s) (g_fs s))" arbitrary: c s rule: less_induct)
  case less
  let ?S = "on_disk s" and ?fs = "g_fs s"
  have g: "geometry_ok cap ?fs" using less.prems by (rule ready_geometry)
  have stop: "fat32_free_cluster_chain D x t = Some t" if "\<not> valid_cluster ?fs x" "g_fs t = ?fs" for x t
    using that cluster_in_range_iff[of cap t x] g by (subst fat32_free_cluster_chain.simps) simp
  show ?case
  proof (cases "valid_cluster ?fs c")
    case False
    then show ?thesis using stop[OF False refl] io_to_refl[OF less.prems] chain_freed_invalid by blast
  next
    case True
    obtain s1 where s1: "fat32_read_fat D c s = (fat_entry ?S ?fs c, s1)" "io_to s ?S (cluster_buffer s) s1"
      using less.prems True by (rule read_fat_ok)
    note f1 = io_toD[OF s1(2)] and r1 = io_to_ready[OF s1(2) less.prems]
    obtain s2 where s2: "fat32_write_fat D c 0 s1 = (0, s2)"
      "io_to s1 (fat_update (on_disk s1) (g_fs s1) c 0) (cluster_buffer s1) s2"
      using r1 True f1(3) by (metis write_fat_ok)
    have io2: "io_to s (fat_update ?S ?fs c 0) (cluster_buffer s) s2"
      using io_to_trans[OF s1(2) s2(2)] f1(1-3) by simp
    note f2 = io_toD[OF io2]
    let ?n = "fat_entry ?S ?fs c"
    have step: "fat32_free_cluster_chain D c s = fat32_free_cluster_chain D ?n s2"
      using True s1(1) s2(1) cluster_in_range_iff[OF g]
      by (subst fat32_free_cluster_chain.simps) simp
    have "\<exists>s' S'. fat32_free_cluster_chain D ?n s2 = Some s' \<and> io_to s2 S' (cluster_buffer s2) s' \<and>
        chain_freed (on_disk s2) (g_fs s2) ?n S'"
    proof (cases "valid_cluster ?fs ?n")
      case False
      with stop[OF False f2(3)] f2(3) show ?thesis
        using io_to_refl[OF io_to_ready[OF io2 less.prems]] chain_freed_invalid by metis
    next
      case n: True
      then have "?n \<noteq> 0" using zero_invalid by metis
      then have "card (used_clusters (on_disk s2) (g_fs s2)) < card (used_clusters ?S ?fs)"
        using used_clusters_decrease[where S = ?S, OF g True ready_sector_length[OF less.prems]] f2(1,3)
        by simp
      from less.hyps[OF this io_to_ready[OF io2 less.prems]] show ?thesis by simp
    qed
    then obtain s' S' where s': "fat32_free_cluster_chain D ?n s2 = Some s'"
      "io_to s2 S' (cluster_buffer s2) s'" "chain_freed (on_disk s2) (g_fs s2) ?n S'" by blast
    have "chain_freed ?S ?fs c S'"
      using chain_freed_step[OF g True ready_sector_length[OF less.prems]] s'(3) f2(1,3) by simp
    with s'(1) io_to_trans[OF io2 s'(2)] step f2(2) show ?thesis by auto
  qed
qed

subsection \<open>Cluster transfers\<close>

lemma cluster_lba_eq:
  assumes "ready s" and "valid_cluster (g_fs s) c"
  shows "fat32_cluster_to_lba s c = cluster_lba (g_fs s) c" and "cluster_lba (g_fs s) c \<noteq> 0"
proof -
  have g: "geometry_ok cap (g_fs s)" using assms(1) by (rule ready_geometry)
  show "fat32_cluster_to_lba s c = cluster_lba (g_fs s) c"
    using out_of_range_iff[OF g, of c] assms(2) by (simp add: fat32_cluster_to_lba_def cluster_lba_def)
  have "0 < unat (sectors_per_cluster (g_fs s))" "0 < unat (cluster_begin_lba (g_fs s))"
    using g by (auto simp: geometry_ok_def word_less_nat_alt)
  with cluster_span(1)[OF g assms(2), of 0] show "cluster_lba (g_fs s) c \<noteq> 0" by auto
qed

lemma read_cluster_loop_ok:
  assumes "ready s" and "valid_cluster (g_fs s) c" and "i + n = unat (sectors_per_cluster (g_fs s))"
  shows "\<exists>s'. fat32_read_cluster_loop D (cluster_lba (g_fs s) c) n i s = Some (0, s') \<and>
    io_to s (on_disk s) (put_at (cluster_buffer s) (i * 512)
      (concat (map (\<lambda>j. on_disk s (cluster_lba (g_fs s) c + of_nat j)) [i..<i + n]))) s'"
  using assms
proof (induction n arbitrary: i s)
  case 0
  then show ?case using io_to_refl[OF 0(1)] by (simp add: put_at_def)
next
  case (Suc n)
  let ?fs = "g_fs s" and ?S = "on_disk s"
  let ?l = "cluster_lba ?fs c"
  let ?s = "\<lambda>b d. s\<lparr>disk := d, cluster_buffer := b\<rparr>"
  have g: "geometry_ok cap ?fs" using Suc.prems(1) by (rule ready_geometry)
  have cap: "?l + of_nat i < cap" using cluster_span(2)[OF g Suc.prems(2)] Suc.prems(3)
    by (simp add: word_less_nat_alt)
  from Suc.prems(1,3) g have fit: "(i + Suc n) * 512 \<le> length (cluster_buffer s)"
    by (simp add: fat_ready_def buffers_ok_def geometry_ok_def)
  obtain d' where d': "dk_read D (?l + of_nat i) (disk s) = (ATA_OK, ?S (?l + of_nat i), d')"
    "online d'" "sectors d' = ?S"
    using read_ok[OF _ cap] Suc.prems(1) by (auto simp: fat_ready_def)
  define b where "b = put_at (cluster_buffer s) (i * 512) (?S (?l + of_nat i))"
  have len: "length (?S x) = 512" for x using Suc.prems(1) by (rule ready_sector_length)
  have st: "store (cluster_buffer s) (i * 512) (?S (?l + of_nat i)) = Some b"
    unfolding b_def using fit len by (intro store_put_at) simp
  have lb: "length b = length (cluster_buffer s)" using store_length[OF st] .
  have io1: "io_to s ?S b (?s b d')"
    using Suc.prems(1) d' lb by (simp add: io_to_def fat_ready_def buffers_ok_def)
  note f1 = io_toD[OF io1]
  have "Suc i + n = unat (sectors_per_cluster (g_fs (?s b d')))" using Suc.prems(3) by simp
  from Suc.IH[OF io_to_ready[OF io1 Suc.prems(1)] _ this] Suc.prems(2) f1(1)
  obtain s' where s': "fat32_read_cluster_loop D ?l n (Suc i) (?s b d') = Some (0, s')"
    "io_to (?s b d') ?S (put_at b (Suc i * 512)
      (concat (map (\<lambda>j. ?S (?l + of_nat j)) [Suc i..<Suc i + n]))) s'" by auto
  have "put_at b (Suc i * 512) (concat (map (\<lambda>j. ?S (?l + of_nat j)) [Suc i..<Suc i + n])) =
      put_at (cluster_buffer s) (i * 512) (concat (map (\<lambda>j. ?S (?l + of_nat j)) [i..<i + Suc n]))"
    unfolding b_def using fit len put_at_append[of "i * 512" "?S (?l + of_nat i)" "cluster_buffer s"]
    by (simp add: upt_rec[of i] add.commute)
  with s' io_to_trans[OF io1 s'(2)] d'(1) st show ?case by auto
qed

lemma read_cluster_ok:
  assumes r: "ready s" and v: "valid_cluster (g_fs s) c"
  obtains s' where "fat32_read_cluster D c s = Some (0, s')"
    "io_to s (on_disk s) (put_at (cluster_buffer s) 0 (cluster_data (on_disk s) (g_fs s) c)) s'"
proof -
  from read_cluster_loop_ok[OF r v, of 0 "unat (sectors_per_cluster (g_fs s))"] obtain s' where
    "fat32_read_cluster_loop D (cluster_lba (g_fs s) c) (unat (sectors_per_cluster (g_fs s))) 0 s = Some (0, s')"
    "io_to s (on_disk s) (put_at (cluster_buffer s) 0 (cluster_data (on_disk s) (g_fs s) c)) s'"
    by (auto simp: cluster_data_def)
  then show ?thesis
    using that[of s'] cluster_lba_eq[OF r v] by (simp add: fat32_read_cluster_def)
qed

lemma write_cluster_loop_ok:
  assumes "ready s" and "valid_cluster (g_fs s) c" and "i + n = unat (sectors_per_cluster (g_fs s))"
  shows "\<exists>s'. fat32_write_cluster_loop D (cluster_lba (g_fs s) c) n i s = Some (0, s') \<and>
    io_to s (store_range (on_disk s) (cluster_lba (g_fs s) c) (sector_chunk (cluster_buffer s)) i n)
      (cluster_buffer s) s'"
  using assms
proof (induction n arbitrary: i s)
  case 0
  then show ?case using io_to_refl[of s] by (simp add: store_range_0)
next
  case (Suc n)
  let ?fs = "g_fs s" and ?S = "on_disk s" and ?buf = "cluster_buffer s"
  let ?l = "cluster_lba ?fs c" and ?b = "sector_chunk (cluster_buffer s) i"
  have g: "geometry_ok cap ?fs" using Suc.prems(1) by (rule ready_geometry)
  have cap: "?l + of_nat i < cap" using cluster_span(2)[OF g Suc.prems(2)] Suc.prems(3)
    by (simp add: word_less_nat_alt)
  from Suc.prems(1,3) g have fit: "(i + Suc n) * 512 \<le> length ?buf" "i \<le> 128"
    by (simp_all add: fat_ready_def buffers_ok_def geometry_ok_def)
  then have ld: "load ?buf (i * 512) 512 = Some ?b" "length ?b = 512"
    by (simp_all add: load_def sector_chunk_def)
  obtain d' where d': "dk_write D (?l + of_nat i) ?b (disk s) = (ATA_OK, d')"
    "online d'" "sectors d' = ?S(?l + of_nat i := ?b)"
    using write_ok[OF _ cap ld(2)] Suc.prems(1) by (auto simp: fat_ready_def)
  have io1: "io_to s (?S(?l + of_nat i := ?b)) ?buf (s\<lparr>disk := d'\<rparr>)"
    using Suc.prems(1) d' by (simp add: io_to_def fat_ready_def buffers_ok_def)
  have "Suc i + n = unat (sectors_per_cluster (g_fs (s\<lparr>disk := d'\<rparr>)))" using Suc.prems(3) by simp
  from Suc.IH[OF io_to_ready[OF io1 Suc.prems(1)] _ this] Suc.prems(2)
  obtain s' where s': "fat32_write_cluster_loop D ?l n (Suc i) (s\<lparr>disk := d'\<rparr>) = Some (0, s')"
    "io_to (s\<lparr>disk := d'\<rparr>) (store_range (sectors d') ?l (sector_chunk ?buf) (Suc i) n) ?buf s'" by auto
  from s'(2) have "io_to (s\<lparr>disk := d'\<rparr>) (store_range ?S ?l (sector_chunk ?buf) i (Suc n)) ?buf s'"
    unfolding d'(3) using fit(2) by (simp add: store_range_step del: fun_upd_apply)
  then show ?case using io_to_trans[OF io1] s'(1) d'(1) ld(1) by auto
qed

lemma write_cluster_ok:
  assumes r: "ready s" and v: "valid_cluster (g_fs s) c"
  obtains s' where "fat32_write_cluster D c s = Some (0, s')"
    "io_to s (cluster_store (on_disk s) (g_fs s) c (cluster_buffer s)) (cluster_buffer s) s'"
proof -
  from write_cluster_loop_ok[OF r v, of 0 "unat (sectors_per_cluster (g_fs s))"] obtain s' where
    "fat32_write_cluster_loop D (cluster_lba (g_fs s) c) (unat (sectors_per_cluster (g_fs s))) 0 s = Some (0, s')"
    "io_to s (cluster_store (on_disk s) (g_fs s) c (cluster_buffer s)) (cluster_buffer s) s'"
    by (auto simp: store_range_all)
  then show ?thesis
    using that[of s'] cluster_lba_eq[OF r v] by (simp add: fat32_write_cluster_def)
qed

subsection \<open>The contracts the file layer uses\<close>

lemma num_fats_pos: "ready s \<Longrightarrow> 0 < unat (num_fats (g_fs s))"
  using ready_geometry[of s] by (simp add: geometry_ok_def word_less_nat_alt)

lemma set_next_free_ready: "ready s \<Longrightarrow> ready (set_next_free n s)"
  by (simp add: fat_ready_def set_next_free_def geometry_ok_def buffers_ok_def)

lemma alloc_cluster_spec:
  assumes r: "ready s" and a: "fat32_alloc_cluster D s = (c, s')"
  shows "ready s'" and "cluster_buffer s' = cluster_buffer s"
    and "if \<exists>x. valid_cluster (g_fs s) x \<and> fat_entry (on_disk s) (g_fs s) x = 0
      then valid_cluster (g_fs s) c \<and> fat_entry (on_disk s) (g_fs s) c = 0 \<and>
        on_disk s' = fat_update (on_disk s) (g_fs s) c FAT32_EOC_MAX
      else c = 0 \<and> on_disk s' = on_disk s"
proof -
  from alloc_cluster_ok[OF r] a
  have *: "alloc_result s (\<exists>c. valid_cluster (g_fs s) c \<and> fat_entry (on_disk s) (g_fs s) c = 0) c s'" by simp
  then obtain t S' where t: "io_to s S' (cluster_buffer s) t" "s' = t \<or> s' = set_next_free (c + 1) t"
    by (auto simp: alloc_result_def split: if_splits)
  from t show "ready s'" using io_to_ready[OF t(1) r] set_next_free_ready by blast
  from t show "cluster_buffer s' = cluster_buffer s" by (auto simp: set_next_free_def io_toD(2))
  from * show "if \<exists>x. valid_cluster (g_fs s) x \<and> fat_entry (on_disk s) (g_fs s) x = 0
      then valid_cluster (g_fs s) c \<and> fat_entry (on_disk s) (g_fs s) c = 0 \<and>
        on_disk s' = fat_update (on_disk s) (g_fs s) c FAT32_EOC_MAX
      else c = 0 \<and> on_disk s' = on_disk s"
    by (auto simp: alloc_result_def set_next_free_def dest: io_toD(1) split: if_splits)
qed

lemma cluster_write_read:
  assumes r: "ready s" and v: "valid_cluster (g_fs s) c" and v': "valid_cluster (g_fs s) c'"
  shows "\<exists>s1 s2. fat32_write_cluster D c s = Some (0, s1) \<and> fat32_read_cluster D c' s1 = Some (0, s2) \<and>
    take (unat (bytes_per_cluster (g_fs s))) (cluster_buffer s2) =
      (if c' = c then take (unat (bytes_per_cluster (g_fs s))) (cluster_buffer s)
       else cluster_data (on_disk s) (g_fs s) c') \<and>
    (\<forall>k < unat (num_fats (g_fs s)). \<forall>x. valid_cluster (g_fs s) x \<longrightarrow>
       fat_copy (on_disk s2) (g_fs s) k x = fat_copy (on_disk s) (g_fs s) k x)"
proof -
  let ?fs = "g_fs s" and ?buf = "cluster_buffer s"
  have g: "geometry_ok cap ?fs" using r by (rule ready_geometry)
  obtain s1 where s1: "fat32_write_cluster D c s = Some (0, s1)"
    "io_to s (cluster_store (on_disk s) ?fs c ?buf) ?buf s1" using r v by (rule write_cluster_ok)
  note f1 = io_toD[OF s1(2)]
  obtain s2 where s2: "fat32_read_cluster D c' s1 = Some (0, s2)"
    "io_to s1 (on_disk s1) (put_at (cluster_buffer s1) 0 (cluster_data (on_disk s1) (g_fs s1) c')) s2"
    using io_to_ready[OF s1(2) r] v' f1(3) by (metis read_cluster_ok)
  note f2 = io_toD[OF s2(2)]
  have "length (cluster_data (on_disk s1) ?fs c') = unat (bytes_per_cluster ?fs)"
    using length_cluster_data[of "on_disk s1" ?fs c'] f1(1,4) g by (simp add: geometry_ok_def)
  then have "take (unat (bytes_per_cluster ?fs)) (cluster_buffer s2) = cluster_data (on_disk s1) ?fs c'"
    unfolding f2(2) f1(3) by (simp add: put_at_def)
  moreover have "cluster_data (on_disk s1) ?fs c' =
      (if c' = c then take (unat (bytes_per_cluster ?fs)) ?buf else cluster_data (on_disk s) ?fs c')"
    unfolding f1(1) using r by (intro cluster_data_store[OF g v v']) (simp add: fat_ready_def buffers_ok_def)
  moreover have "fat_copy (on_disk s2) ?fs k x = fat_copy (on_disk s) ?fs k x"
    if "k < unat (num_fats ?fs)" "valid_cluster ?fs x" for k x
    unfolding f2(1) f1(1) by (rule fat_copy_cluster_store[OF g v that(2,1)])
  ultimately show ?thesis using s1(1) s2(1) by auto
qed

end

section \<open>A small volume\<close>

text \<open>Two one-sector tables, one sector per cluster, twelve clusters, on the reference drive.\<close>

definition small_fs :: fat32_fs where
  "small_fs = \<lparr>fs_boot = (boot_of_bytes (replicate 512 0))\<lparr>bs_fat_size_32 := 1\<rparr>,
     fs_fsinfo = fsinfo_of_bytes (replicate 512 0),
     fat_begin_lba = 32, cluster_begin_lba = 34, root_dir_first_cluster = 2,
     sectors_per_cluster = 1, bytes_per_cluster = 512, total_clusters = 12, num_fats = 2\<rparr>"

definition small_volume :: "ata_dev fat_state" where
  "small_volume = \<lparr>g_fs = small_fs, sector_buffer = replicate 512 0, cluster_buffer = replicate 65536 0,
     path_stack = replicate 16 (replicate 12 0), path_depth = 0, g_current_dir_cluster = 2, console = [],
     disk = blank_drive\<rparr>"

lemma small_volume_ready: "fat_ready pio.hw_online 0x10000000 small_volume"
  by (simp add: fat_ready_def geometry_ok_def buffers_ok_def small_volume_def small_fs_def
      pio.hw_online_def ata_ready_def blank_drive_def)

section \<open>Properties\<close>

text \<open>C22. \<open>fat32_alloc_cluster\<close> on a mounted volume: it finds a free cluster whenever there is one, marks
  it as the end of a chain in every copy of the table, and changes no other entry and no data;
  it returns 0 and leaves the disk as it was exactly when no cluster is free.\<close>

theorem fat32_alloc_cluster_correct:
  assumes "block_device D sectors online cap" and "fat_ready online cap s"
    and "fat32_alloc_cluster D s = (c, s')"
  shows "fat_ready online cap s' \<and>
    (if \<exists>x. valid_cluster (g_fs s) x \<and> fat_entry (sectors (disk s)) (g_fs s) x = 0
     then valid_cluster (g_fs s) c \<and> fat_entry (sectors (disk s)) (g_fs s) c = 0 \<and>
       (\<forall>x. valid_cluster (g_fs s) x \<longrightarrow>
         cluster_data (sectors (disk s')) (g_fs s) x = cluster_data (sectors (disk s)) (g_fs s) x \<and>
         (\<forall>k < unat (num_fats (g_fs s)). fat_copy (sectors (disk s')) (g_fs s) k x =
           (if x = c then FAT32_EOC_MAX else fat_copy (sectors (disk s)) (g_fs s) k x)))
     else c = 0 \<and> sectors (disk s') = sectors (disk s))"
proof -
  note spec = block_device.alloc_cluster_spec[OF assms]
    and g = block_device.ready_geometry[OF assms(1,2)]
    and len = block_device.ready_sector_length[OF assms(1,2)]
  from spec(1,3) show ?thesis
    using fat_copy_update[where S = "sectors (disk s)" and v = FAT32_EOC_MAX, OF g _ _ _ len]
      cluster_data_fat_update[OF g]
    by (auto split: if_splits)
qed

theorem fat32_alloc_cluster_correct_witness:
  "fat_ready pio.hw_online 0x10000000 small_volume \<and>
   valid_cluster small_fs (fst (fat32_alloc_cluster (ata_disk pio_drive) small_volume))"
proof -
  have f: "valid_cluster small_fs 2" "fat_entry (pio.hw_sectors blank_drive) small_fs 2 = 0"
    by (simp_all add: valid_cluster_def small_fs_def fat_copy_def pio.hw_sectors_def blank_drive_def
        get32_def fat_lba_def)
  show ?thesis
    using fat32_alloc_cluster_correct[OF pio.blk.block_device_axioms small_volume_ready
        prod.collapse[symmetric]] small_volume_ready f
    by (auto simp: small_volume_def split: if_splits)
qed

text \<open>C23. \<open>fat32_free_cluster_chain\<close> returns on every table, even a cyclic one, and frees exactly the
  clusters reachable from its argument, in every copy of the table, leaving all data in place.\<close>

theorem fat32_free_cluster_chain_correct:
  assumes "block_device D sectors online cap" and "fat_ready online cap s"
  shows "\<exists>s'. fat32_free_cluster_chain D c s = Some s' \<and> fat_ready online cap s' \<and>
    chain_freed (sectors (disk s)) (g_fs s) c (sectors (disk s'))"
  using block_device.free_chain_ok[OF assms, of c] block_device.io_to_ready[OF assms(1) _ assms(2)]
    block_device.io_toD(1)[OF assms(1)] by metis

theorem fat32_free_cluster_chain_correct_witness:
  "\<exists>s'. fat32_free_cluster_chain (ata_disk pio_drive) 5 small_volume = Some s' \<and>
    chain_freed (pio.hw_sectors blank_drive) small_fs 5 (pio.hw_sectors (disk s'))"
  using fat32_free_cluster_chain_correct[OF pio.blk.block_device_axioms small_volume_ready, of 5]
  by (auto simp: small_volume_def)

text \<open>Cluster transfers: what \<open>fat32_write_cluster\<close> stores is what \<open>fat32_read_cluster\<close> of the same
  cluster brings back, any other cluster keeps its data, and the table is not touched.\<close>

theorem fat32_cluster_roundtrip:
  assumes "block_device D sectors online cap" and "fat_ready online cap s"
    and "valid_cluster (g_fs s) c" and "valid_cluster (g_fs s) c'"
  shows "\<exists>s1 s2. fat32_write_cluster D c s = Some (0, s1) \<and> fat32_read_cluster D c' s1 = Some (0, s2) \<and>
    take (unat (bytes_per_cluster (g_fs s))) (cluster_buffer s2) =
      (if c' = c then take (unat (bytes_per_cluster (g_fs s))) (cluster_buffer s)
       else cluster_data (sectors (disk s)) (g_fs s) c') \<and>
    (\<forall>k < unat (num_fats (g_fs s)). \<forall>x. valid_cluster (g_fs s) x \<longrightarrow>
       fat_copy (sectors (disk s2)) (g_fs s) k x = fat_copy (sectors (disk s)) (g_fs s) k x)"
  using assms by (rule block_device.cluster_write_read)

theorem fat32_cluster_roundtrip_witness:
  "\<exists>s1 s2. fat32_write_cluster (ata_disk pio_drive) 3 small_volume = Some (0, s1) \<and>
    fat32_read_cluster (ata_disk pio_drive) 3 s1 = Some (0, s2) \<and>
    take 512 (cluster_buffer s2) = replicate 512 0"
  using fat32_cluster_roundtrip[OF pio.blk.block_device_axioms small_volume_ready, of 3 3]
  by (auto simp: small_volume_def small_fs_def valid_cluster_def take_replicate)

end
