(* ===== verification/Fat32_Dir.thy ===== *)
theory Fat32_Dir
  imports Fat32_Chain Kernel_Libc
begin

text \<open>
  Directories of \<open>src/fs/fat32.c\<close>: 8.3 names (\<open>fat32_to_short_name\<close>), the search and the creation
  of entries, \<open>fat32_readdir\<close>, \<open>fat32_list_dir\<close>, \<open>fat32_print_info\<close>, the current path and
  \<open>fat32_chdir\<close>.  Path names are C objects (\<open>is_cstr\<close>); loops over cluster chains are
  \<open>partial_function\<close>s, since a damaged chain can make them run forever.
\<close>

section \<open>Short names\<close>

fun last_dot :: "nat \<Rightarrow> nat option \<Rightarrow> bytes \<Rightarrow> nat option option" where
  "last_dot i dot [] = None"
| "last_dot i dot (c # p) =
     (if c = 0 then Some dot else last_dot (Suc i) (if c = 0x2E then Some i else dot) p)"

definition upcase :: "u8 \<Rightarrow> u8" where
  "upcase c = (if 0x61 \<le> c \<and> c \<le> 0x7A then c - 32 else c)"

definition fat32_to_short_name :: "bytes \<Rightarrow> bytes option" where
  "fat32_to_short_name name = do {
     short_name \<leftarrow> memset (replicate 11 0) 0x20 11;
     dot \<leftarrow> last_dot 0 None name;
     name_len \<leftarrow> (case dot of Some d \<Rightarrow> Some d | None \<Rightarrow> strlen name);
     ext_len \<leftarrow> (case dot of Some d \<Rightarrow> strlen (drop (d + 1) name) | None \<Rightarrow> Some 0);
     let name_len = min name_len 8;
     let ext_len = min ext_len 3;
     short_name \<leftarrow> store short_name 0 (map upcase (take name_len name));
     (case dot of
        Some d \<Rightarrow> store short_name 8 (map upcase (take ext_len (drop (d + 1) name)))
      | None \<Rightarrow> Some short_name)
   }"

section \<open>Searching a directory\<close>

datatype dir_scan = ScanEnd | ScanHit nat | ScanNext

fun find_scan :: "bytes \<Rightarrow> bytes \<Rightarrow> nat \<Rightarrow> nat \<Rightarrow> dir_scan option" where
  "find_scan buf short_name 0 i = Some ScanNext"
| "find_scan buf short_name (Suc n) i = do {
     e \<leftarrow> load buf (i * 32) 32;
     if e ! 0 = 0x00 then Some ScanEnd
     else if e ! 0 = 0xE5 then find_scan buf short_name n (Suc i)
     else if e ! 11 = FAT32_ATTR_LFN then find_scan buf short_name n (Suc i)
     else do {
       r \<leftarrow> memcmp e short_name 11;
       if r = 0 then Some (ScanHit i) else find_scan buf short_name n (Suc i)
     }
   }"

text \<open>The result is the entry, its cluster and its offset there, or \<open>None\<close> for the error code.\<close>

partial_function (option) find_entry_loop ::
    "'d disk_ops \<Rightarrow> bytes \<Rightarrow> u32 \<Rightarrow> 'd fat_state \<Rightarrow> ((fat32_dirent \<times> u32 \<times> u32) option \<times> 'd fat_state) option" where
  "find_entry_loop D short_name cluster s =
     (if cluster_in_range s cluster then do {
        (r, s) \<leftarrow> fat32_read_cluster D cluster s;
        if r \<noteq> 0 then Some (None, s) else do {
          sc \<leftarrow> find_scan (cluster_buffer s) short_name (unat (bytes_per_cluster (g_fs s) div 32)) 0;
          (case sc of
             ScanEnd \<Rightarrow> Some (None, s)
           | ScanHit i \<Rightarrow>
               Some (Some (dirent_of_bytes (drop (i * 32) (cluster_buffer s)), cluster, of_nat (i * 32)), s)
           | ScanNext \<Rightarrow> (let (next, s) = fat32_read_fat D cluster s in find_entry_loop D short_name next s))
        }
      }
      else Some (None, s))"

declare find_entry_loop.simps [code]

definition fat32_find_entry ::
    "'d disk_ops \<Rightarrow> u32 \<Rightarrow> bytes \<Rightarrow> 'd fat_state \<Rightarrow> ((fat32_dirent \<times> u32 \<times> u32) option \<times> 'd fat_state) option" where
  "fat32_find_entry D dir_cluster name s = do {
     short_name \<leftarrow> fat32_to_short_name name;
     find_entry_loop D short_name dir_cluster s
   }"

section \<open>Creating an entry\<close>

fun free_scan :: "bytes \<Rightarrow> nat \<Rightarrow> nat \<Rightarrow> nat option option" where
  "free_scan buf 0 i = Some None"
| "free_scan buf (Suc n) i = do {
     e \<leftarrow> load buf (i * 32) 32;
     if e ! 0 = 0x00 \<or> e ! 0 = 0xE5 then Some (Some i) else free_scan buf n (Suc i)
   }"

definition new_dirent :: "bytes \<Rightarrow> u8 \<Rightarrow> u32 \<Rightarrow> fat32_dirent" where
  "new_dirent short_name attr first_cluster = \<lparr>
     de_name = short_name, de_attr = attr, de_nt_reserved = 0, de_create_time_tenth = 0,
     de_create_time = 0, de_create_date = 0, de_access_date = 0,
     de_first_cluster_high = ucast (drop_bit 16 first_cluster AND 0xFFFF),
     de_write_time = 0, de_write_date = 0,
     de_first_cluster_low = ucast (first_cluster AND 0xFFFF), de_file_size = 0\<rparr>"

definition clear_cluster_buffer :: "'d fat_state \<Rightarrow> 'd fat_state option" where
  "clear_cluster_buffer s =
     map_option (\<lambda>b. s\<lparr>cluster_buffer := b\<rparr>) (memset (cluster_buffer s) 0 (bytes_per_cluster (g_fs s)))"

partial_function (option) create_entry_loop ::
    "'d disk_ops \<Rightarrow> fat32_dirent \<Rightarrow> u32 \<Rightarrow> 'd fat_state \<Rightarrow> (int \<times> 'd fat_state) option" where
  "create_entry_loop D e cluster s =
     (if cluster \<ge> 2 \<and> cluster < FAT32_EOC_MIN then do {
        (r, s) \<leftarrow> fat32_read_cluster D cluster s;
        if r \<noteq> 0 then Some (- 1, s) else do {
          slot \<leftarrow> free_scan (cluster_buffer s) (unat (bytes_per_cluster (g_fs s) div 32)) 0;
          (case slot of
             Some i \<Rightarrow> do {
               buf \<leftarrow> store (cluster_buffer s) (i * 32) (dirent_to_bytes e);
               fat32_write_cluster D cluster (s\<lparr>cluster_buffer := buf\<rparr>)
             }
           | None \<Rightarrow>
               (let (next, s) = fat32_read_fat D cluster s in
                if next \<ge> FAT32_EOC_MIN then
                  (let (new_cluster, s) = fat32_alloc_cluster D s in
                   if new_cluster = 0 then Some (- 1, s)
                   else
                     (let (_, s) = fat32_write_fat D cluster new_cluster s in do {
                        s \<leftarrow> clear_cluster_buffer s;
                        (_, s) \<leftarrow> fat32_write_cluster D new_cluster s;
                        create_entry_loop D e new_cluster s
                      }))
                else create_entry_loop D e next s))
        }
      }
      else Some (- 1, s))"

declare create_entry_loop.simps [code]

definition fat32_create_entry ::
    "'d disk_ops \<Rightarrow> u32 \<Rightarrow> bytes \<Rightarrow> u8 \<Rightarrow> u32 \<Rightarrow> 'd fat_state \<Rightarrow> (int \<times> 'd fat_state) option" where
  "fat32_create_entry D dir_cluster name attr first_cluster s = do {
     short_name \<leftarrow> fat32_to_short_name name;
     create_entry_loop D (new_dirent short_name attr first_cluster) dir_cluster s
   }"

section \<open>Directories and deletion\<close>

definition fat32_mkdir :: "'d disk_ops \<Rightarrow> bytes \<Rightarrow> 'd fat_state \<Rightarrow> (int \<times> 'd fat_state) option" where
  "fat32_mkdir D path s =
     (let (new_cluster, s) = fat32_alloc_cluster D s in
      if new_cluster = 0 then Some (- 1, s)
      else do {
        (r, s) \<leftarrow> fat32_create_entry D (g_current_dir_cluster s) path FAT32_ATTR_DIRECTORY new_cluster s;
        if r \<noteq> 0 then do {
          s \<leftarrow> fat32_free_cluster_chain D new_cluster s;
          Some (- 1, s)
        }
        else do {
          s \<leftarrow> clear_cluster_buffer s;
          (_, s) \<leftarrow> fat32_write_cluster D new_cluster s;
          Some (0, s)
        }
      })"

definition fat32_unlink :: "'d disk_ops \<Rightarrow> bytes \<Rightarrow> 'd fat_state \<Rightarrow> (int \<times> 'd fat_state) option" where
  "fat32_unlink D path s = do {
     (found, s) \<leftarrow> fat32_find_entry D (g_current_dir_cluster s) path s;
     (case found of
        None \<Rightarrow> Some (- 1, s)
      | Some (entry, cluster, offset) \<Rightarrow> do {
          let first_cluster = dirent_cluster entry;
          s \<leftarrow> (if first_cluster \<ge> 2 then fat32_free_cluster_chain D first_cluster s else Some s);
          (r, s) \<leftarrow> fat32_read_cluster D cluster s;
          if r \<noteq> 0 then Some (- 1, s)
          else do {
            buf \<leftarrow> store (cluster_buffer s) (unat offset) [0xE5];
            fat32_write_cluster D cluster (s\<lparr>cluster_buffer := buf\<rparr>)
          }
        })
   }"

section \<open>Listing a directory\<close>

record fat32_file_info =
  info_name :: bytes
  info_size :: u32
  info_attr :: u8
  info_first_cluster :: u32
  info_create_date :: u16
  info_create_time :: u16
  info_write_date :: u16
  info_write_time :: u16

fun readdir_scan :: "bytes \<Rightarrow> nat \<Rightarrow> nat \<Rightarrow> dir_scan option" where
  "readdir_scan buf 0 i = Some ScanNext"
| "readdir_scan buf (Suc n) i = do {
     e \<leftarrow> load buf (i * 32) 32;
     if e ! 0 = 0x00 then Some ScanEnd
     else if e ! 0 = 0xE5 \<or> e ! 11 = FAT32_ATTR_LFN then readdir_scan buf n (Suc i)
     else Some (ScanHit i)
   }"

definition display_name :: "bytes \<Rightarrow> bytes" where
  "display_name n =
     takeWhile (\<lambda>c. c \<noteq> 0x20) (take 8 n) @
     (if n ! 8 \<noteq> 0x20 then 0x2E # takeWhile (\<lambda>c. c \<noteq> 0x20) (take 3 (drop 8 n)) else [])"

definition fill_info :: "fat32_dirent \<Rightarrow> fat32_file_info \<Rightarrow> fat32_file_info" where
  "fill_info e info = info\<lparr>
     info_name := display_name (de_name e) @ replicate (256 - length (display_name (de_name e))) 0,
     info_size := de_file_size e, info_attr := de_attr e, info_first_cluster := dirent_cluster e\<rparr>"

fun skip_chain :: "'d disk_ops \<Rightarrow> nat \<Rightarrow> u32 \<Rightarrow> 'd fat_state \<Rightarrow> u32 \<times> 'd fat_state" where
  "skip_chain D 0 cluster s = (cluster, s)"
| "skip_chain D (Suc n) cluster s =
     (if cluster \<ge> 2 then (let (next, s) = fat32_read_fat D cluster s in skip_chain D n next s)
      else (cluster, s))"

partial_function (option) readdir_loop ::
    "'d disk_ops \<Rightarrow> nat \<Rightarrow> u32 \<Rightarrow> 'd fat_state \<Rightarrow> (fat32_dirent option \<times> 'd fat_state) option" where
  "readdir_loop D entry_in_cluster cluster s =
     (if cluster \<ge> 2 \<and> cluster < FAT32_EOC_MIN then do {
        (r, s) \<leftarrow> fat32_read_cluster D cluster s;
        if r \<noteq> 0 then Some (None, s) else do {
          sc \<leftarrow> readdir_scan (cluster_buffer s)
                  (unat (bytes_per_cluster (g_fs s) div 32) - entry_in_cluster) entry_in_cluster;
          (case sc of
             ScanEnd \<Rightarrow> Some (None, s)
           | ScanHit i \<Rightarrow> Some (Some (dirent_of_bytes (drop (i * 32) (cluster_buffer s))), s)
           | ScanNext \<Rightarrow> (let (next, s) = fat32_read_fat D cluster s in readdir_loop D 0 next s))
        }
      }
      else Some (None, s))"

declare readdir_loop.simps [code]

definition fat32_readdir ::
    "'d disk_ops \<Rightarrow> u32 \<Rightarrow> u32 \<Rightarrow> fat32_file_info \<Rightarrow> 'd fat_state \<Rightarrow>
     (int \<times> u32 \<times> fat32_file_info \<times> 'd fat_state) option" where
  "fat32_readdir D cluster index info s =
     (let entries_per_cluster = bytes_per_cluster (g_fs s) div 32 in
      if entries_per_cluster = 0 then None
      else
        (let (current_cluster, s) = skip_chain D (unat (index div entries_per_cluster)) cluster s in do {
           (found, s) \<leftarrow> readdir_loop D (unat (index mod entries_per_cluster)) current_cluster s;
           (case found of
              None \<Rightarrow> Some (- 1, index, info, s)
            | Some e \<Rightarrow> Some (0, index + 1, fill_info e info, s))
         }))"

partial_function (option) list_dir_loop ::
    "'d disk_ops \<Rightarrow> u32 \<Rightarrow> u32 \<Rightarrow> fat32_file_info \<Rightarrow> 'd fat_state \<Rightarrow> 'd fat_state option" where
  "list_dir_loop D cluster index info s = do {
     (r, index, info, s) \<leftarrow> fat32_readdir D cluster index info s;
     if r \<noteq> 0 then Some s
     else list_dir_loop D cluster index info
       (fat_puts [0x0A]
         (fat_puts (cstr (info_name info))
           (fat_puts (if info_attr info AND FAT32_ATTR_DIRECTORY \<noteq> 0 then ascii ''<DIR> '' else ascii ''      '') s)))
   }"

declare list_dir_loop.simps [code]

text \<open>The local \<open>info\<close> starts indeterminate; it is read only after \<open>fat32_readdir\<close> filled it.\<close>

definition blank_info :: fat32_file_info where
  "blank_info = \<lparr>info_name = replicate 256 0, info_size = 0, info_attr = 0, info_first_cluster = 0,
     info_create_date = 0, info_create_time = 0, info_write_date = 0, info_write_time = 0\<rparr>"

definition fat32_list_dir :: "'d disk_ops \<Rightarrow> bytes \<Rightarrow> 'd fat_state \<Rightarrow> 'd fat_state option" where
  "fat32_list_dir D path s =
     list_dir_loop D (root_dir_first_cluster (g_fs s)) 0 blank_info
       (fat_puts [0x0A] (fat_puts (cstr path) (fat_puts (ascii ''Directory listing: '') s)))"

definition print_field :: "bytes \<Rightarrow> u32 \<Rightarrow> bytes \<times> 'd fat_state \<Rightarrow> (bytes \<times> 'd fat_state) option" where
  "print_field label v = (\<lambda>(buf, s). do {
     let s = fat_puts label s;
     buf \<leftarrow> itoa v buf 10;
     Some (buf, fat_puts (cstr buf) s)
   })"

definition fat32_print_info :: "'d fat_state \<Rightarrow> 'd fat_state option" where
  "fat32_print_info s =
     (let boot = fs_boot (g_fs s); s = fat_puts ([0x0A] @ ascii ''FAT32 Filesystem Information:'' @ [0x0A]) s in do {
        x \<leftarrow> print_field (ascii ''Bytes per sector: '') (ucast (bs_bytes_per_sector boot)) (replicate 16 0, s);
        x \<leftarrow> print_field ([0x0A] @ ascii ''Sectors per cluster: '') (ucast (bs_sectors_per_cluster boot)) x;
        x \<leftarrow> print_field ([0x0A] @ ascii ''Reserved sectors: '') (ucast (bs_reserved_sectors boot)) x;
        x \<leftarrow> print_field ([0x0A] @ ascii ''Number of FATs: '') (ucast (bs_num_fats boot)) x;
        x \<leftarrow> print_field ([0x0A] @ ascii ''FAT size: '') (bs_fat_size_32 boot) x;
        x \<leftarrow> print_field (ascii '' sectors'' @ [0x0A] @ ascii ''Root cluster: '') (bs_root_cluster boot) x;
        x \<leftarrow> print_field ([0x0A] @ ascii ''Total clusters: '') (total_clusters (g_fs s)) x;
        x \<leftarrow> print_field ([0x0A] @ ascii ''Free clusters: '') (fi_free_count (fs_fsinfo (g_fs s))) x;
        Some (fat_puts [0x0A, 0x0A] (snd x))
      })"

definition fat32_get_root_cluster :: "'d fat_state \<Rightarrow> u32" where
  "fat32_get_root_cluster s = root_dir_first_cluster (g_fs s)"

section \<open>The current path\<close>

fun pwd_loop :: "nat \<Rightarrow> nat \<Rightarrow> 'd fat_state \<Rightarrow> 'd fat_state" where
  "pwd_loop 0 i s = s"
| "pwd_loop (Suc n) i s =
     (let s = fat_puts (cstr (path_stack s ! i)) s;
          s = (if i < path_depth s - 1 then fat_puts (ascii ''/'') s else s)
      in pwd_loop n (Suc i) s)"

definition fat32_pwd :: "'d fat_state \<Rightarrow> 'd fat_state" where
  "fat32_pwd s =
     (if path_depth s = 0 then fat_puts (ascii ''/'') s
      else pwd_loop (path_depth s) 0 (fat_puts (ascii ''/'') s))"

text \<open>\<open>buf\<close> is the caller's buffer, \<open>None\<close> the null pointer.\<close>

fun current_path_loop ::
    "bytes list \<Rightarrow> nat \<Rightarrow> nat \<Rightarrow> nat \<Rightarrow> bytes \<Rightarrow> int \<Rightarrow> nat \<Rightarrow> (int \<times> bytes) option" where
  "current_path_loop stack depth 0 i buf buffer_size pos = do {
     buf \<leftarrow> store buf pos [0];
     Some (int pos, buf)
   }"
| "current_path_loop stack depth (Suc n) i buf buffer_size pos = do {
     name_len \<leftarrow> strlen (stack ! i);
     if int (pos + name_len + 1) > buffer_size - 1 then do {
       buf \<leftarrow> store buf pos [0];
       Some (- 1, buf)
     }
     else do {
       tail \<leftarrow> strcpy (drop pos buf) (stack ! i);
       let buf = take pos buf @ tail;
       let pos = pos + name_len;
       if i < depth - 1 then do {
         buf \<leftarrow> store buf pos [0x2F];
         current_path_loop stack depth n (Suc i) buf buffer_size (pos + 1)
       }
       else current_path_loop stack depth n (Suc i) buf buffer_size pos
     }
   }"

definition fat32_get_current_path ::
    "bytes option \<Rightarrow> int \<Rightarrow> 'd fat_state \<Rightarrow> (int \<times> bytes option) option" where
  "fat32_get_current_path buffer buffer_size s =
     (case buffer of
        None \<Rightarrow> Some (- 1, None)
      | Some buf \<Rightarrow>
          if buffer_size \<le> 0 then Some (- 1, Some buf)
          else if path_depth s = 0 then
            (if buffer_size < 2 then Some (- 1, Some buf)
             else do {
               buf \<leftarrow> store buf 0 [0x2F, 0];
               Some (1, Some buf)
             })
          else do {
            (buf, pos) \<leftarrow> (if 0 < buffer_size - 1
                           then map_option (\<lambda>b. (b, 1)) (store buf 0 [0x2F]) else Some (buf, 0));
            (r, buf) \<leftarrow> current_path_loop (path_stack s) (path_depth s) (path_depth s) 0 buf buffer_size pos;
            Some (r, Some buf)
          })"

fun chdir_walk ::
    "'d disk_ops \<Rightarrow> nat \<Rightarrow> nat \<Rightarrow> u32 \<Rightarrow> 'd fat_state \<Rightarrow> (u32 option \<times> 'd fat_state) option" where
  "chdir_walk D 0 i cluster s = Some (Some cluster, s)"
| "chdir_walk D (Suc n) i cluster s = do {
     (found, s) \<leftarrow> fat32_find_entry D cluster (path_stack s ! i) s;
     (case found of
        None \<Rightarrow> Some (None, s)
      | Some (entry, _, _) \<Rightarrow> chdir_walk D n (Suc i) (dirent_cluster entry) s)
   }"

definition fat32_chdir :: "'d disk_ops \<Rightarrow> bytes \<Rightarrow> 'd fat_state \<Rightarrow> (int \<times> 'd fat_state) option" where
  "fat32_chdir D path s = do {
     is_root \<leftarrow> strcmp path (ascii ''/'' @ [0]);
     if is_root = 0 then
       Some (0, s\<lparr>g_current_dir_cluster := root_dir_first_cluster (g_fs s), path_depth := 0\<rparr>)
     else do {
       is_parent \<leftarrow> strcmp path (ascii ''..'' @ [0]);
       if is_parent = 0 then
         (if path_depth s > 0 then
            (let s = s\<lparr>path_depth := path_depth s - 1\<rparr> in
             if path_depth s = 0 then
               Some (0, s\<lparr>g_current_dir_cluster := root_dir_first_cluster (g_fs s)\<rparr>)
             else do {
               (c, s) \<leftarrow> chdir_walk D (path_depth s) 0 (root_dir_first_cluster (g_fs s)) s;
               (case c of
                  None \<Rightarrow> Some (- 1, s)
                | Some cluster \<Rightarrow> Some (0, s\<lparr>g_current_dir_cluster := cluster\<rparr>))
             })
          else Some (0, s))
       else do {
         (found, s) \<leftarrow> fat32_find_entry D (g_current_dir_cluster s) path s;
         (case found of
            None \<Rightarrow> Some (- 1, s)
          | Some (entry, _, _) \<Rightarrow>
              if de_attr entry AND FAT32_ATTR_DIRECTORY = 0 then Some (- 1, s)
              else
                (let s = s\<lparr>g_current_dir_cluster := dirent_cluster entry\<rparr> in
                 if path_depth s < MAX_PATH_DEPTH then do {
                   slot \<leftarrow> strncpy (path_stack s ! path_depth s) path (int MAX_NAME_LEN - 1);
                   slot \<leftarrow> store slot (MAX_NAME_LEN - 1) [0];
                   Some (0, s\<lparr>path_stack := (path_stack s)[path_depth s := slot],
                              path_depth := path_depth s + 1\<rparr>)
                 }
                 else Some (0, s)))
       }
     }
   }"

end
