(* ===== verification/Fat32_File.thy ===== *)
theory Fat32_File
  imports Fat32_Dir
begin

text \<open>
  Open files of \<open>src/fs/fat32.c\<close>: \<open>fat32_open\<close>, \<open>fat32_close\<close>, \<open>fat32_read\<close>, \<open>fat32_write\<close>,
  \<open>fat32_seek\<close> and \<open>fat32_tell\<close>.  The file object is passed by value and returned; the callers
  (\<open>user/syscall.c\<close>, \<open>kernel/exec.c\<close>) always pass the address of one.  A caller's buffer is
  \<open>Some\<close> object or \<open>None\<close> for the null pointer.
\<close>

section \<open>Operations\<close>

record fat32_file =
  f_first_cluster :: u32
  f_current_cluster :: u32
  f_file_size :: u32
  f_position :: u32
  f_dir_cluster :: u32
  f_dir_entry_offset :: u32
  f_flags :: u8
  f_is_open :: u8
  f_attr :: u8

definition blank_file :: fat32_file where
  "blank_file = \<lparr>f_first_cluster = 0, f_current_cluster = 0, f_file_size = 0, f_position = 0,
     f_dir_cluster = 0, f_dir_entry_offset = 0, f_flags = 0, f_is_open = 0, f_attr = 0\<rparr>"

text \<open>The common end of both branches of \<open>fat32_open\<close>.\<close>

definition finish_open :: "u8 \<Rightarrow> fat32_file \<Rightarrow> fat32_file" where
  "finish_open flags file = file\<lparr>f_flags := flags, f_is_open := 1,
     f_position := (if flags AND FAT32_O_APPEND \<noteq> 0 then f_file_size file else 0)\<rparr>"

definition open_existing ::
    "'d disk_ops \<Rightarrow> u8 \<Rightarrow> fat32_dirent \<times> u32 \<times> u32 \<Rightarrow> 'd fat_state \<Rightarrow> (fat32_file \<times> 'd fat_state) option" where
  "open_existing D flags found s =
     (case found of (entry, cluster, offset) \<Rightarrow>
      let file = blank_file\<lparr>f_dir_cluster := cluster, f_dir_entry_offset := offset,
            f_first_cluster := dirent_cluster entry, f_current_cluster := dirent_cluster entry,
            f_file_size := de_file_size entry, f_attr := de_attr entry\<rparr> in
      if flags AND FAT32_O_TRUNC \<noteq> 0 \<and> f_first_cluster file \<ge> 2 then do {
        s \<leftarrow> fat32_free_cluster_chain D (f_first_cluster file) s;
        Some (file\<lparr>f_first_cluster := 0, f_current_cluster := 0, f_file_size := 0\<rparr>, s)
      }
      else Some (file, s))"

definition open_new ::
    "'d disk_ops \<Rightarrow> bytes \<Rightarrow> 'd fat_state \<Rightarrow> (fat32_file option \<times> 'd fat_state) option" where
  "open_new D path s =
     (let dir_cluster = g_current_dir_cluster s;
          (new_cluster, s) = fat32_alloc_cluster D s in
      if new_cluster = 0 then Some (None, s)
      else do {
        (r, s) \<leftarrow> fat32_create_entry D dir_cluster path FAT32_ATTR_ARCHIVE new_cluster s;
        if r \<noteq> 0 then do {
          s \<leftarrow> fat32_free_cluster_chain D new_cluster s;
          Some (None, s)
        }
        else do {
          (found, s) \<leftarrow> fat32_find_entry D dir_cluster path s;
          (case found of
             None \<Rightarrow> do {
               s \<leftarrow> fat32_free_cluster_chain D new_cluster s;
               Some (None, s)
             }
           | Some (_, cluster, offset) \<Rightarrow>
               Some (Some (blank_file\<lparr>f_dir_cluster := cluster, f_dir_entry_offset := offset,
                 f_first_cluster := new_cluster, f_current_cluster := new_cluster, f_file_size := 0,
                 f_attr := FAT32_ATTR_ARCHIVE\<rparr>), s))
        }
      })"

text \<open>On failure the file object is left cleared.\<close>

definition fat32_open ::
    "'d disk_ops \<Rightarrow> bytes \<Rightarrow> u8 \<Rightarrow> 'd fat_state \<Rightarrow> (int \<times> fat32_file \<times> 'd fat_state) option" where
  "fat32_open D path flags s = do {
     (found, s) \<leftarrow> fat32_find_entry D (g_current_dir_cluster s) path s;
     (case found of
        Some f \<Rightarrow> do {
          (file, s) \<leftarrow> open_existing D flags f s;
          Some (0, finish_open flags file, s)
        }
      | None \<Rightarrow>
          if flags AND FAT32_O_CREAT = 0 then Some (- 1, blank_file, s)
          else do {
            (file, s) \<leftarrow> open_new D path s;
            (case file of
               None \<Rightarrow> Some (- 1, blank_file, s)
             | Some file \<Rightarrow> Some (0, finish_open flags file, s))
          })
   }"

definition fat32_close :: "'d disk_ops \<Rightarrow> fat32_file \<Rightarrow> 'd fat_state \<Rightarrow> (int \<times> fat32_file \<times> 'd fat_state) option" where
  "fat32_close D file s =
     (if f_is_open file = 0 then Some (- 1, file, s)
      else do {
        (r, s) \<leftarrow> fat32_read_cluster D (f_dir_cluster file) s;
        if r \<noteq> 0 then Some (- 1, file, s)
        else do {
          let off = unat (f_dir_entry_offset file);
          buf \<leftarrow> store (cluster_buffer s) (off + 28) (le32 (f_file_size file));
          buf \<leftarrow> store buf (off + 26) (le16 (ucast (f_first_cluster file AND 0xFFFF)));
          buf \<leftarrow> store buf (off + 20) (le16 (ucast (drop_bit 16 (f_first_cluster file) AND 0xFFFF)));
          (_, s) \<leftarrow> fat32_write_cluster D (f_dir_cluster file) (s\<lparr>cluster_buffer := buf\<rparr>);
          Some (0, file\<lparr>f_is_open := 0\<rparr>, s)
        }
      })"

partial_function (option) fat32_read_loop ::
    "'d disk_ops \<Rightarrow> u32 \<Rightarrow> u32 \<Rightarrow> u32 \<Rightarrow> u32 \<Rightarrow> fat32_file \<Rightarrow> bytes \<Rightarrow> 'd fat_state \<Rightarrow>
     (u32 \<times> fat32_file \<times> bytes \<times> 'd fat_state) option" where
  "fat32_read_loop D cluster offset_in_cluster sz bytes_read file buffer s =
     (if sz > 0 \<and> cluster \<ge> 2 \<and> cluster < FAT32_EOC_MIN then do {
        (r, s) \<leftarrow> fat32_read_cluster D cluster s;
        if r \<noteq> 0 then Some (bytes_read, file, buffer, s)
        else do {
          let to_copy = min (bytes_per_cluster (g_fs s) - offset_in_cluster) sz;
          data \<leftarrow> load (cluster_buffer s) (unat offset_in_cluster) (unat to_copy);
          buffer \<leftarrow> store buffer (unat bytes_read) data;
          let bytes_read = bytes_read + to_copy;
          let sz = sz - to_copy;
          let file = file\<lparr>f_position := f_position file + to_copy\<rparr>;
          let (cluster, s) = (if sz > 0 then fat32_read_fat D cluster s else (cluster, s));
          fat32_read_loop D cluster 0 sz bytes_read file buffer s
        }
      }
      else Some (bytes_read, file, buffer, s))"

declare fat32_read_loop.simps [code]

definition fat32_read ::
    "'d disk_ops \<Rightarrow> fat32_file \<Rightarrow> bytes option \<Rightarrow> u32 \<Rightarrow> 'd fat_state \<Rightarrow>
     (int \<times> fat32_file \<times> bytes option \<times> 'd fat_state) option" where
  "fat32_read D file buffer sz s =
     (case buffer of
        None \<Rightarrow> Some (- 1, file, None, s)
      | Some buf \<Rightarrow>
          if f_is_open file = 0 then Some (- 1, file, Some buf, s)
          else if f_position file \<ge> f_file_size file then Some (0, file, Some buf, s)
          else
            (let sz = (if f_position file + sz > f_file_size file
                         then f_file_size file - f_position file else sz);
                 bpc = bytes_per_cluster (g_fs s) in
             if bpc = 0 then None
             else
               (let (cluster, s) = skip_chain D (unat (f_position file div bpc)) (f_first_cluster file) s;
                    file = file\<lparr>f_current_cluster := cluster\<rparr> in do {
                  (n, file, buf, s) \<leftarrow>
                    fat32_read_loop D cluster (f_position file mod bpc) sz 0 file buf s;
                  Some (sint n, file, Some buf, s)
                })))"

text \<open>The link to the next cluster of a file being written: the existing one, or a new cluster.
  \<open>None\<close> is the disk-full case.\<close>

definition next_or_alloc :: "'d disk_ops \<Rightarrow> u32 \<Rightarrow> 'd fat_state \<Rightarrow> u32 option \<times> 'd fat_state" where
  "next_or_alloc D cluster s =
     (let (next, s) = fat32_read_fat D cluster s in
      if next \<ge> FAT32_EOC_MIN then
        (let (next, s) = fat32_alloc_cluster D s in
         if next = 0 then (None, s)
         else (let (_, s) = fat32_write_fat D cluster next s in (Some next, s)))
      else (Some next, s))"

fun write_skip :: "'d disk_ops \<Rightarrow> nat \<Rightarrow> u32 \<Rightarrow> 'd fat_state \<Rightarrow> u32 option \<times> 'd fat_state" where
  "write_skip D 0 cluster s = (Some cluster, s)"
| "write_skip D (Suc n) cluster s =
     (if cluster \<ge> 2 then
        (let (next, s) = next_or_alloc D cluster s in
         case next of None \<Rightarrow> (None, s) | Some c \<Rightarrow> write_skip D n c s)
      else (Some cluster, s))"

text \<open>What writing \<open>m\<close> bytes does to the file object.\<close>

definition advance :: "fat32_file \<Rightarrow> u32 \<Rightarrow> fat32_file" where
  "advance file m =
     (let file = file\<lparr>f_position := f_position file + m\<rparr> in
      if f_position file > f_file_size file then file\<lparr>f_file_size := f_position file\<rparr> else file)"

partial_function (option) fat32_write_loop ::
    "'d disk_ops \<Rightarrow> u32 \<Rightarrow> u32 \<Rightarrow> u32 \<Rightarrow> u32 \<Rightarrow> fat32_file \<Rightarrow> bytes \<Rightarrow> 'd fat_state \<Rightarrow>
     (u32 \<times> fat32_file \<times> 'd fat_state) option" where
  "fat32_write_loop D cluster offset_in_cluster sz bytes_written file buffer s =
     (if sz > 0 \<and> cluster \<ge> 2 then do {
        (r, s) \<leftarrow> (if offset_in_cluster > 0 \<or> sz < bytes_per_cluster (g_fs s)
                   then fat32_read_cluster D cluster s else Some (0, s));
        if r \<noteq> 0 then Some (bytes_written, file, s)
        else do {
          let to_copy = min (bytes_per_cluster (g_fs s) - offset_in_cluster) sz;
          data \<leftarrow> load buffer (unat bytes_written) (unat to_copy);
          buf \<leftarrow> store (cluster_buffer s) (unat offset_in_cluster) data;
          (r, s) \<leftarrow> fat32_write_cluster D cluster (s\<lparr>cluster_buffer := buf\<rparr>);
          if r \<noteq> 0 then Some (bytes_written, file, s)
          else do {
            let bytes_written = bytes_written + to_copy;
            let sz = sz - to_copy;
            let file = advance file to_copy;
            if sz > 0 then
              (let (next, s) = next_or_alloc D cluster s in
               case next of
                 None \<Rightarrow> Some (bytes_written, file, s)
               | Some c \<Rightarrow> fat32_write_loop D c 0 sz bytes_written file buffer s)
            else fat32_write_loop D cluster 0 sz bytes_written file buffer s
          }
        }
      }
      else Some (bytes_written, file, s))"

declare fat32_write_loop.simps [code]

definition fat32_write ::
    "'d disk_ops \<Rightarrow> fat32_file \<Rightarrow> bytes option \<Rightarrow> u32 \<Rightarrow> 'd fat_state \<Rightarrow>
     (int \<times> fat32_file \<times> 'd fat_state) option" where
  "fat32_write D file buffer sz s =
     (case buffer of
        None \<Rightarrow> Some (- 1, file, s)
      | Some buf \<Rightarrow>
          if f_is_open file = 0 then Some (- 1, file, s)
          else
            (let (file, s) =
               (if f_first_cluster file = 0
                then (let (c, s) = fat32_alloc_cluster D s in (if c = 0 then file else file\<lparr>f_first_cluster := c, f_current_cluster := c\<rparr>, s))
                else (file, s)) in
             if f_first_cluster file = 0 then Some (- 1, file, s)
             else
               (let bpc = bytes_per_cluster (g_fs s) in
                if bpc = 0 then None
                else
                  (let (skipped, s) = write_skip D (unat (f_position file div bpc)) (f_first_cluster file) s in
                   case skipped of
                     None \<Rightarrow> Some (0, file, s)
                   | Some cluster \<Rightarrow> do {
                       let file = file\<lparr>f_current_cluster := cluster\<rparr>;
                       (n, file, s) \<leftarrow>
                         fat32_write_loop D cluster (f_position file mod bpc) sz 0 file buf s;
                       Some (sint n, file, s)
                     }))))"

definition fat32_seek :: "fat32_file \<Rightarrow> u32 \<Rightarrow> u8 \<Rightarrow> int \<times> fat32_file" where
  "fat32_seek file offset whence =
     (if f_is_open file = 0 then (- 1, file)
      else if whence = 0 then (0, file\<lparr>f_position := offset\<rparr>)
      else if whence = 1 then (0, file\<lparr>f_position := f_position file + offset\<rparr>)
      else if whence = 2 then (0, file\<lparr>f_position := f_file_size file + offset\<rparr>)
      else (- 1, file))"

definition fat32_tell :: "fat32_file \<Rightarrow> int" where
  "fat32_tell file = (if f_is_open file = 0 then - 1 else sint (f_position file))"

end
