(* ===== verification/Fat32_Mount.thy ===== *)
theory Fat32_Mount
  imports Fat32_File
begin

text \<open>
  \<open>fat32_init\<close>, \<open>fat32_format\<close> and \<open>fat32_mount\<close> of \<open>src/fs/fat32.c\<close>, and the theorem that a freshly
  formatted disk is a sound volume: the geometry holds, the root directory is empty and every
  other cluster is free in both copies of the table.
\<close>

section \<open>Operations\<close>

definition zero_boot :: fat32_boot_sector where
  "zero_boot = boot_of_bytes (replicate 90 0)"

definition zero_fsinfo :: fat32_fsinfo where
  "zero_fsinfo = fsinfo_of_bytes (replicate 512 0)"

definition fat32_init :: "'d fat_state \<Rightarrow> int \<times> 'd fat_state" where
  "fat32_init s = (0, s\<lparr>g_fs := \<lparr>fs_boot = zero_boot, fs_fsinfo = zero_fsinfo,
     fat_begin_lba = 0, cluster_begin_lba = 0, root_dir_first_cluster = 0, sectors_per_cluster = 0,
     bytes_per_cluster = 0, total_clusters = 0, num_fats = 0\<rparr>\<rparr>)"

text \<open>A zero \<open>sectors_per_cluster\<close> makes the division trap.\<close>

definition fat32_mount :: "'d disk_ops \<Rightarrow> 'd fat_state \<Rightarrow> (int \<times> 'd fat_state) option" where
  "fat32_mount D s =
     (let s = fat_puts (ascii ''Mounting FAT32 filesystem...'' @ [0x0A]) s;
          (e, s) = read_sector D 0 s in
      if e \<noteq> ATA_OK then Some (- 1, fat_puts (ascii ''Failed to read boot sector'' @ [0x0A]) s)
      else
        (let boot = boot_of_bytes (sector_buffer s);
             s = s\<lparr>g_fs := (g_fs s)\<lparr>fs_boot := boot\<rparr>\<rparr> in
         if bs_bytes_per_sector boot \<noteq> 512
         then Some (- 1, fat_puts (ascii ''Invalid sector size'' @ [0x0A]) s)
         else
           (let (e, s) = read_sector D (ucast (bs_fs_info boot)) s in
            if e \<noteq> ATA_OK then Some (- 1, fat_puts (ascii ''Failed to read FSInfo'' @ [0x0A]) s)
            else
              (let fs = (g_fs s)\<lparr>fs_fsinfo := fsinfo_of_bytes (sector_buffer s),
                     fat_begin_lba := ucast (bs_reserved_sectors boot),
                     cluster_begin_lba := ucast (bs_reserved_sectors boot) +
                       ucast (bs_num_fats boot) * bs_fat_size_32 boot,
                     root_dir_first_cluster := bs_root_cluster boot\<rparr> in
               if root_dir_first_cluster fs < 2
               then Some (- 1, fat_puts (ascii ''Invalid root cluster'' @ [0x0A]) (s\<lparr>g_fs := fs\<rparr>))
               else
                 (let fs = fs\<lparr>sectors_per_cluster := ucast (bs_sectors_per_cluster boot),
                        bytes_per_cluster := ucast (bs_sectors_per_cluster boot) * 512,
                        num_fats := bs_num_fats boot\<rparr>;
                      data_sectors = bs_total_sectors_32 boot - cluster_begin_lba fs in
                  if sectors_per_cluster fs = 0 then None
                  else Some (0, fat_puts (ascii ''FAT32 mounted successfully'' @ [0x0A])
                    (s\<lparr>g_fs := fs\<lparr>total_clusters := data_sectors div sectors_per_cluster fs\<rparr>\<rparr>)))))))"

definition format_size :: "u32 \<Rightarrow> u32" where
  "format_size total_sectors = (total_sectors - 32) div (8 + (2 * 128)) + 1"

definition format_boot :: "u32 \<Rightarrow> u32 \<Rightarrow> fat32_boot_sector" where
  "format_boot total_sectors fat_size = zero_boot\<lparr>
     bs_jmp := [0xEB, 0x58, 0x90], bs_oem := ascii ''MYOS    '', bs_bytes_per_sector := 512,
     bs_sectors_per_cluster := 8, bs_reserved_sectors := 32, bs_num_fats := 2, bs_root_entries := 0,
     bs_total_sectors_16 := 0, bs_media_type := 0xF8, bs_fat_size_16 := 0, bs_sectors_per_track := 63,
     bs_num_heads := 255, bs_hidden_sectors := 0, bs_total_sectors_32 := total_sectors,
     bs_fat_size_32 := fat_size, bs_ext_flags := 0, bs_fs_version := 0, bs_root_cluster := 2,
     bs_fs_info := 1, bs_backup_boot := 6, bs_drive_number := 0x80, bs_boot_sig := 0x29,
     bs_volume_id := 0x12345678, bs_volume_label := ascii ''MYOS DISK  '', bs_fs_type := ascii ''FAT32   ''\<rparr>"

definition format_fsinfo :: fat32_fsinfo where
  "format_fsinfo = zero_fsinfo\<lparr>fi_lead_sig := 0x41615252, fi_struct_sig := 0x61417272,
     fi_free_count := 0xFFFFFFFF, fi_next_free := 3, fi_trail_sig := 0xAA550000\<rparr>"

definition clear_sector_buffer :: "'d fat_state \<Rightarrow> 'd fat_state" where
  "clear_sector_buffer s = s\<lparr>sector_buffer := replicate 512 0\<rparr>"

definition fat_head :: bytes where
  "fat_head = [0xF8, 0xFF, 0xFF, 0x0F, 0xFF, 0xFF, 0xFF, 0x0F, 0xFF, 0xFF, 0xFF, 0x0F]"

fun format_fat_loop :: "'d disk_ops \<Rightarrow> u32 \<Rightarrow> nat \<Rightarrow> nat \<Rightarrow> 'd fat_state \<Rightarrow> ata_error \<times> 'd fat_state" where
  "format_fat_loop D lba 0 i s = (ATA_OK, s)"
| "format_fat_loop D lba (Suc n) i s =
     (let s = (if i = 0 then s\<lparr>sector_buffer := put_at (sector_buffer s) 0 fat_head\<rparr>
               else clear_sector_buffer s);
          (e, s) = write_sector D (lba + of_nat i) s in
      if e \<noteq> ATA_OK then (e, s) else format_fat_loop D lba n (Suc i) s)"

fun format_root_loop :: "'d disk_ops \<Rightarrow> u32 \<Rightarrow> nat \<Rightarrow> nat \<Rightarrow> 'd fat_state \<Rightarrow> ata_error \<times> 'd fat_state" where
  "format_root_loop D lba 0 i s = (ATA_OK, s)"
| "format_root_loop D lba (Suc n) i s =
     (let (e, s) = write_sector D (lba + of_nat i) s in
      if e \<noteq> ATA_OK then (e, s) else format_root_loop D lba n (Suc i) s)"

text \<open>Both copies of the table, then the cluster of the root directory.\<close>

definition format_tables :: "'d disk_ops \<Rightarrow> u32 \<Rightarrow> 'd fat_state \<Rightarrow> string option \<times> 'd fat_state" where
  "format_tables D fat_size s =
     (let (e, s) = format_fat_loop D 32 (unat fat_size) 0 (clear_sector_buffer s) in
      if e \<noteq> ATA_OK then (Some ''Failed to write FAT'', s)
      else
        (let (e, s) = format_fat_loop D (32 + fat_size) (unat fat_size) 0 s in
         if e \<noteq> ATA_OK then (Some ''Failed to write FAT'', s)
         else
           (let (e, s) = format_root_loop D (32 + 2 * fat_size) 8 0 (clear_sector_buffer s) in
            if e \<noteq> ATA_OK then (Some ''Failed to clear root directory'', s) else (None, s))))"

definition fat32_format :: "'d disk_ops \<Rightarrow> u32 \<Rightarrow> 'd fat_state \<Rightarrow> (int \<times> 'd fat_state) option" where
  "fat32_format D total_sectors s =
     (let s = fat_puts (ascii ''Formatting FAT32 filesystem...'' @ [0x0A]) s;
          fat_size = format_size total_sectors;
          boot = format_boot total_sectors fat_size;
          s = s\<lparr>g_fs := (g_fs s)\<lparr>fs_boot := boot\<rparr>,
                sector_buffer := put_at (put_at (replicate 512 0) 0 (boot_to_bytes boot)) 510 [0x55, 0xAA]\<rparr>;
          (e, s) = write_sector D 0 s in
      if e \<noteq> ATA_OK then Some (- 1, fat_puts (ascii ''Failed to write boot sector'' @ [0x0A]) s)
      else
        (let s = s\<lparr>g_fs := (g_fs s)\<lparr>fs_fsinfo := format_fsinfo\<rparr>,
                   sector_buffer := put_at (replicate 512 0) 0 (fsinfo_to_bytes format_fsinfo)\<rparr>;
             (e, s) = write_sector D 1 s in
         if e \<noteq> ATA_OK then Some (- 1, fat_puts (ascii ''Failed to write FSInfo'' @ [0x0A]) s)
         else
           (let (failed, s) = format_tables D fat_size s in
            case failed of
              Some msg \<Rightarrow> Some (- 1, fat_puts (ascii msg @ [0x0A]) s)
            | None \<Rightarrow> fat32_mount D (fat_puts (ascii ''FAT32 format complete'' @ [0x0A]) s))))"

section \<open>What a formatted disk holds\<close>

definition head_sector :: bytes where
  "head_sector = fat_head @ replicate 500 0"

definition fat_sector :: "nat \<Rightarrow> bytes" where
  "fat_sector j = (if j = 0 then head_sector else replicate 512 0)"

lemma length_fat_sector: "length (fat_sector j) = 512"
  by (simp add: fat_sector_def head_sector_def fat_head_def)

lemma put_fat_head:
  "b = replicate 512 0 \<or> b = head_sector \<Longrightarrow> put_at b 0 fat_head = head_sector"
  by (auto simp: put_at_def head_sector_def fat_head_def)

lemma store_range_at:
  assumes "unat l + n \<le> 4294967296"
  shows "store_range S l g 0 n x =
    (if unat l \<le> unat x \<and> unat x < unat l + n then g (unat x - unat l) else S x)"
proof (cases "l \<le> x")
  case True
  then show ?thesis by (auto simp: store_range_def unat_sub word_le_nat_alt Let_def)
next
  case False
  then have lt: "unat x < unat l" by (simp add: word_le_nat_alt)
  have "unat (x - l) = unat x + 4294967296 - unat l"
    using lt unat_u32[of l] by (simp add: unat_sub_if_size word_size word_le_nat_alt)
  with lt assms show ?thesis by (auto simp: store_range_def Let_def)
qed

text \<open>The table entry of a valid cluster in a freshly written copy.\<close>

lemma get32_fat_sector:
  assumes "2 \<le> c"
  shows "get32 (fat_sector (c div 128)) (4 * (c mod 128)) = (if c = 2 then 0x0FFFFFFF else 0)"
proof -
  have m: "c mod 128 < 128" by simp
  show ?thesis
  proof (cases "c < 128")
    case True
    then have "c div 128 = 0" "c mod 128 = c" by auto
    moreover have "get32 head_sector (4 * c) = 0" if "3 \<le> c"
      using that True by (simp add: get32_def head_sector_def fat_head_def nth_append)
    moreover have "get32 head_sector 8 = 0x0FFFFFFF"
      by (simp add: get32_def head_sector_def fat_head_def)
    ultimately show ?thesis using assms by (cases "c = 2") (auto simp: fat_sector_def)
  next
    case False
    then have "c div 128 \<noteq> 0" by simp
    with False m show ?thesis by (simp add: fat_sector_def get32_def)
  qed
qed

definition formatted_fs :: "u32 \<Rightarrow> fat32_fs" where
  "formatted_fs total_sectors = \<lparr>
     fs_boot = format_boot total_sectors (format_size total_sectors), fs_fsinfo = format_fsinfo,
     fat_begin_lba = 32, cluster_begin_lba = 32 + 2 * format_size total_sectors,
     root_dir_first_cluster = 2, sectors_per_cluster = 8, bytes_per_cluster = 4096,
     total_clusters = (total_sectors - (32 + 2 * format_size total_sectors)) div 8, num_fats = 2\<rparr>"

definition formatted_sectors :: "(u32 \<Rightarrow> bytes) \<Rightarrow> u32 \<Rightarrow> u32 \<Rightarrow> bytes" where
  "formatted_sectors S total_sectors =
     (let F = format_size total_sectors;
          b0 = put_at (put_at (replicate 512 0) 0 (boot_to_bytes (format_boot total_sectors F))) 510 [0x55, 0xAA];
          b1 = put_at (replicate 512 0) 0 (fsinfo_to_bytes format_fsinfo);
          S = store_range (S(0 := b0, 1 := b1)) 32 fat_sector 0 (unat F);
          S = store_range S (32 + F) fat_sector 0 (unat F)
      in store_range S (32 + 2 * F) (\<lambda>_. replicate 512 0) 0 8)"

lemma format_arith:
  assumes "42 \<le> unat t" and "unat t \<le> 0x10000000"
  shows "unat (format_size t) = (unat t - 32) div 264 + 1"
    and "42 + 2 * ((unat t - 32) div 264) \<le> unat t"
    and "unat (32 + format_size t) = 32 + unat (format_size t)"
    and "unat (32 + 2 * format_size t) = 32 + 2 * unat (format_size t)"
    and "unat (t - (32 + 2 * format_size t)) = unat t - 32 - 2 * unat (format_size t)"
proof -
  define q where "q = (unat t - 32) div 264"
  have q: "264 * q \<le> unat t - 32" by (simp add: q_def)
  have "unat (t - 32) = unat t - 32" using assms by (simp add: unat_sub word_le_nat_alt)
  then have "unat ((t - 32) div 264) = q" by (simp add: unat_div q_def)
  then have F: "unat (format_size t) = q + 1"
    using q assms(2) by (simp add: format_size_def unat_word_ariths)
  then show "unat (format_size t) = (unat t - 32) div 264 + 1" by (simp add: q_def)
  have le: "42 + 2 * q \<le> unat t" using q assms(1) by (cases "q = 0") auto
  then show "42 + 2 * ((unat t - 32) div 264) \<le> unat t" by (simp add: q_def)
  show "unat (32 + format_size t) = 32 + unat (format_size t)"
    using F le assms(2) by (simp add: unat_word_ariths)
  show d: "unat (32 + 2 * format_size t) = 32 + 2 * unat (format_size t)"
    using F le assms(2) by (simp add: unat_word_ariths)
  show "unat (t - (32 + 2 * format_size t)) = unat t - 32 - 2 * unat (format_size t)"
    using d F le by (simp add: unat_sub word_le_nat_alt)
qed

lemma formatted_geometry:
  assumes "42 \<le> unat t" and "unat t \<le> unat cap" and "unat cap \<le> 0x10000000"
  shows "geometry_ok cap (formatted_fs t)"
proof -
  have t: "unat t \<le> 0x10000000" using assms by simp
  note a = format_arith[OF assms(1) t]
  let ?f = "unat (format_size t)" and ?n = "(unat t - 32 - 2 * unat (format_size t)) div 8"
  have n: "unat (total_clusters (formatted_fs t)) = ?n"
    by (simp add: formatted_fs_def unat_div a(5))
  have "unat t - 32 < 264 * ?f" unfolding a(1) by (simp add: dividend_less_times_div)
  moreover have "8 * ?n \<le> unat t - 32 - 2 * ?f" by simp
  ultimately have "?n + 2 \<le> 128 * ?f" "?n + 2 < 0x0FFFFFF7" "32 + 2 * ?f + ?n * 8 \<le> unat t"
    using a(1,2) t by linarith+
  then show ?thesis
    unfolding geometry_ok_def n using assms(2)
    by (simp add: formatted_fs_def format_boot_def a(4))
qed

lemma formatted_sectors_at:
  assumes "42 \<le> unat t" and "unat t \<le> 0x10000000"
  shows "formatted_sectors S t x =
    (let f = unat (format_size t); i = unat x in
     if i = 0 then put_at (put_at (replicate 512 0) 0 (boot_to_bytes (format_boot t (format_size t)))) 510 [0x55, 0xAA]
     else if i = 1 then put_at (replicate 512 0) 0 (fsinfo_to_bytes format_fsinfo)
     else if 32 \<le> i \<and> i < 32 + f then fat_sector (i - 32)
     else if 32 + f \<le> i \<and> i < 32 + 2 * f then fat_sector (i - 32 - f)
     else if 32 + 2 * f \<le> i \<and> i < 32 + 2 * f + 8 then replicate 512 0
     else S x)"
proof -
  note a = format_arith[OF assms]
  let ?F = "format_size t"
  have b: "unat ?F + unat ?F + 40 \<le> 4294967296" using a(1,2) assms(2) by linarith
  have 1: "x = 0 \<longleftrightarrow> unat x = 0" "x = 1 \<longleftrightarrow> unat x = 1" by (simp_all add: word_unat_eq_iff)
  have 2: "unat (32 :: u32) = 32" by simp
  show ?thesis
    unfolding formatted_sectors_def Let_def
    using b by (simp add: store_range_at a(3,4) 1 2 diff_diff_eq)
qed

lemma formatted_table:
  fixes cap :: u32
  assumes t: "42 \<le> unat t" "unat t \<le> unat cap" "unat cap \<le> 0x10000000"
    and c: "valid_cluster (formatted_fs t) c" and k: "k < 2"
  shows "fat_copy (formatted_sectors S t) (formatted_fs t) k c = (if c = 2 then FAT32_EOC_MAX else 0)"
proof -
  let ?fs = "formatted_fs t" and ?f = "unat (format_size t)"
  have g: "geometry_ok cap ?fs" using t by (rule formatted_geometry)
  have t': "unat t \<le> 0x10000000" using t by simp
  have "unat (num_fats ?fs) = 2" "unat (fat_begin_lba ?fs) = 32" "unat (bs_fat_size_32 (fs_boot ?fs)) = ?f"
    by (simp_all add: formatted_fs_def format_boot_def)
  with unat_fat_lba[OF g c, of k] entry_sector_bound[OF g c] k
  have l: "unat (fat_lba ?fs k c) = 32 + k * ?f + unat c div 128" "unat c div 128 < ?f" by auto
  have "formatted_sectors S t (fat_lba ?fs k c) = fat_sector (unat c div 128)"
    unfolding formatted_sectors_at[OF t(1) t'] Let_def l(1)
    using k l(2) by (cases "k = 0") (auto simp: less_2_cases_iff)
  moreover have "2 \<le> unat c" using c by (simp add: valid_cluster_def)
  moreover have "unat c = 2 \<longleftrightarrow> c = 2" by (simp add: word_unat_eq_iff)
  ultimately show ?thesis
    unfolding fat_copy_def entry_offset[OF g c] using get32_fat_sector[of "unat c"] by simp
qed

lemma formatted_root:
  fixes cap :: u32
  assumes t: "42 \<le> unat t" "unat t \<le> unat cap" "unat cap \<le> 0x10000000"
  shows "cluster_data (formatted_sectors S t) (formatted_fs t) 2 = replicate 4096 0"
    and "valid_cluster (formatted_fs t) 2"
proof -
  let ?fs = "formatted_fs t" and ?f = "unat (format_size t)"
  have g: "geometry_ok cap ?fs" using t by (rule formatted_geometry)
  have t': "unat t \<le> 0x10000000" using t by simp
  note a = format_arith[OF t(1) t']
  have "8 \<le> unat t - 32 - 2 * ?f" using a(1,2) by linarith
  then have "1 \<le> (unat t - 32 - 2 * ?f) div 8" using div_le_mono[of 8 _ 8] by simp
  then show v: "valid_cluster ?fs 2"
    by (simp add: valid_cluster_def formatted_fs_def unat_div a(5))
  have spc: "unat (sectors_per_cluster ?fs) = 8" by (simp add: formatted_fs_def)
  have "unat (cluster_begin_lba ?fs) = 32 + 2 * ?f" by (simp add: formatted_fs_def a(4))
  then have "unat (cluster_lba ?fs 2 + of_nat i) = 32 + 2 * ?f + i" if "i < 8" for i
    using cluster_span(1)[OF g v, of i] that spc by simp
  then have "formatted_sectors S t (cluster_lba ?fs 2 + of_nat i) = replicate 512 0" if "i < 8" for i
    unfolding formatted_sectors_at[OF t(1) t'] Let_def using that by simp
  then have "cluster_data (formatted_sectors S t) ?fs 2 = concat (map (\<lambda>_. replicate 512 0) [0..<8])"
    unfolding cluster_data_def spc by (intro arg_cong[where f = concat] map_cong) auto
  also have "\<dots> = replicate 4096 0"
    by (simp add: upt_conv_Cons replicate_add [symmetric])
  finally show "cluster_data (formatted_sectors S t) ?fs 2 = replicate 4096 0" .
qed

lemma ascii_lengths:
  "length (ascii ''MYOS    '') = 8" "length (ascii ''MYOS DISK  '') = 11" "length (ascii ''FAT32   '') = 8"
  by (simp_all add: ascii_def)

lemma format_boot_arrays: "boot_arrays_ok (format_boot t F)"
  by (simp add: boot_arrays_ok_def format_boot_def zero_boot_def boot_of_bytes_def ascii_lengths)

lemma format_fsinfo_arrays: "fsinfo_arrays_ok format_fsinfo"
  by (simp add: fsinfo_arrays_ok_def format_fsinfo_def zero_fsinfo_def fsinfo_of_bytes_def)

lemma formatted_boot:
  fixes t F :: u32
  defines "b \<equiv> put_at (put_at (replicate 512 0) 0 (boot_to_bytes (format_boot t F))) 510 [0x55, 0xAA]"
  shows "boot_of_bytes b = format_boot t F" and "length b = 512"
proof -
  let ?x = "boot_to_bytes (format_boot t F)"
  have l: "length ?x = 90" by (rule length_boot[OF format_boot_arrays])
  have "b = ?x @ replicate 420 0 @ [0x55, 0xAA]"
    by (simp add: b_def put_at_def l)
  then show "boot_of_bytes b = format_boot t F" "length b = 512"
    using boot_roundtrip[OF format_boot_arrays, of t F] l by simp_all
qed

lemma formatted_fsinfo:
  defines "b \<equiv> put_at (replicate 512 0) 0 (fsinfo_to_bytes format_fsinfo)"
  shows "fsinfo_of_bytes b = format_fsinfo" and "length b = 512"
proof -
  have l: "length (fsinfo_to_bytes format_fsinfo) = 512" by (rule length_fsinfo[OF format_fsinfo_arrays])
  then have "b = fsinfo_to_bytes format_fsinfo" by (simp add: b_def put_at_def)
  then show "fsinfo_of_bytes b = format_fsinfo" "length b = 512"
    using fsinfo_roundtrip[OF format_fsinfo_arrays, of "[]"] l by simp_all
qed

section \<open>Formatting over a block device\<close>

context block_device
begin

lemma write_sector_online:
  assumes "online (disk s)" and "lba < cap" and "length (sector_buffer s) = 512"
  obtains d' where "write_sector D lba s = (ATA_OK, s\<lparr>disk := d'\<rparr>)" "online d'"
    "sectors d' = (sectors (disk s))(lba := sector_buffer s)"
  using write_ok[OF assms] that by (auto simp: write_sector_def)

lemma read_sector_online:
  assumes "online (disk s)" and "lba < cap"
  obtains d' where "read_sector D lba s = (ATA_OK, s\<lparr>disk := d', sector_buffer := sectors (disk s) lba\<rparr>)"
    "online d'" "sectors d' = sectors (disk s)"
  using read_ok[OF assms] that by (auto simp: read_sector_def)

definition wrote :: "'d fat_state \<Rightarrow> (u32 \<Rightarrow> bytes) \<Rightarrow> 'd fat_state \<Rightarrow> bool" where
  "wrote s S s' \<longleftrightarrow>
     g_fs s' = g_fs s \<and> path_stack s' = path_stack s \<and> path_depth s' = path_depth s \<and>
     g_current_dir_cluster s' = g_current_dir_cluster s \<and> console s' = console s \<and>
     length (sector_buffer s') = 512 \<and> cluster_buffer s' = cluster_buffer s \<and>
     online (disk s') \<and> sectors (disk s') = S"

lemma wrote_trans:
  assumes "wrote s S s'" and "wrote s' S' s''"
  shows "wrote s S' s''"
  using assms by (simp add: wrote_def)

lemma format_fat_loop_ok:
  assumes "online (disk s)" and "sector_buffer s = replicate 512 0 \<or> sector_buffer s = head_sector"
    and "unat lba + i + n \<le> unat cap"
  shows "\<exists>s'. format_fat_loop D lba n i s = (ATA_OK, s') \<and>
    wrote s (store_range (sectors (disk s)) lba fat_sector i n) s' \<and>
    (sector_buffer s' = replicate 512 0 \<or> sector_buffer s' = head_sector)"
  using assms
proof (induction n arbitrary: i s)
  case 0
  then show ?case
    using length_fat_sector[of 0]
    by (auto simp: wrote_def store_range_0 fat_sector_def)
next
  case (Suc n)
  let ?s = "s\<lparr>sector_buffer := fat_sector i\<rparr>"
  have i: "i < 4294967296" using Suc.prems(3) unat_u32[of cap] by linarith
  have "unat (lba + of_nat i) = unat lba + i"
    using Suc.prems(3) unat_u32[of cap] i by (simp add: unat_word_ariths unat_of_nat)
  then have cap: "lba + of_nat i < cap" using Suc.prems(3) by (simp add: word_less_nat_alt)
  obtain d where d: "write_sector D (lba + of_nat i) ?s = (ATA_OK, ?s\<lparr>disk := d\<rparr>)" "online d"
    "sectors d = (sectors (disk s))(lba + of_nat i := fat_sector i)"
    using write_sector_online[of ?s, OF _ cap] Suc.prems(1) by (auto simp: length_fat_sector)
  have st: "format_fat_loop D lba (Suc n) i s = format_fat_loop D lba n (Suc i) (?s\<lparr>disk := d\<rparr>)"
    using d(1) put_fat_head[OF Suc.prems(2)]
    by (auto simp: fat_sector_def clear_sector_buffer_def)
  have "sector_buffer (?s\<lparr>disk := d\<rparr>) = replicate 512 0 \<or> sector_buffer (?s\<lparr>disk := d\<rparr>) = head_sector"
    by (simp add: fat_sector_def)
  from Suc.IH[of "?s\<lparr>disk := d\<rparr>" "Suc i", OF _ this] d(2) Suc.prems(3) obtain s' where
    s': "format_fat_loop D lba n (Suc i) (?s\<lparr>disk := d\<rparr>) = (ATA_OK, s')"
    "wrote (?s\<lparr>disk := d\<rparr>) (store_range (sectors d) lba fat_sector (Suc i) n) s'"
    "sector_buffer s' = replicate 512 0 \<or> sector_buffer s' = head_sector" by auto
  have "wrote s (sectors d) (?s\<lparr>disk := d\<rparr>)"
    using d(2) by (simp add: wrote_def length_fat_sector)
  with wrote_trans[OF this s'(2)] s' st show ?case
    unfolding d(3) by (simp add: store_range_step[OF i] del: fun_upd_apply)
qed

lemma format_root_loop_ok:
  assumes "online (disk s)" and "length (sector_buffer s) = 512" and "unat lba + i + n \<le> unat cap"
  shows "\<exists>s'. format_root_loop D lba n i s = (ATA_OK, s') \<and>
    wrote s (store_range (sectors (disk s)) lba (\<lambda>_. sector_buffer s) i n) s'"
  using assms
proof (induction n arbitrary: i s)
  case 0
  then show ?case
    by (simp add: wrote_def store_range_0)
next
  case (Suc n)
  have i: "i < 4294967296" using Suc.prems(3) unat_u32[of cap] by linarith
  have "unat (lba + of_nat i) = unat lba + i"
    using Suc.prems(3) unat_u32[of cap] i by (simp add: unat_word_ariths unat_of_nat)
  then have cap: "lba + of_nat i < cap" using Suc.prems(3) by (simp add: word_less_nat_alt)
  obtain d where d: "write_sector D (lba + of_nat i) s = (ATA_OK, s\<lparr>disk := d\<rparr>)" "online d"
    "sectors d = (sectors (disk s))(lba + of_nat i := sector_buffer s)"
    using write_sector_online[OF Suc.prems(1) cap Suc.prems(2)] by blast
  from Suc.IH[of "s\<lparr>disk := d\<rparr>" "Suc i"] d(2) Suc.prems(2,3) obtain s' where
    s': "format_root_loop D lba n (Suc i) (s\<lparr>disk := d\<rparr>) = (ATA_OK, s')"
    "wrote (s\<lparr>disk := d\<rparr>) (store_range (sectors d) lba (\<lambda>_. sector_buffer s) (Suc i) n) s'" by auto
  have "wrote s (sectors d) (s\<lparr>disk := d\<rparr>)"
    using d(2) Suc.prems(2) by (simp add: wrote_def)
  with wrote_trans[OF this s'(2)] s'(1) d(1) show ?case
    unfolding d(3) using store_range_step[OF i, of _ _ "\<lambda>_. sector_buffer s"] by simp
qed

lemma format_tables_ok:
  assumes on: "online (disk s)" and t: "42 \<le> unat t" "unat t \<le> unat cap" "unat cap \<le> 0x10000000"
  shows "\<exists>s'. format_tables D (format_size t) s = (None, s') \<and>
    wrote s (store_range (store_range (store_range (sectors (disk s)) 32 fat_sector 0 (unat (format_size t)))
      (32 + format_size t) fat_sector 0 (unat (format_size t)))
      (32 + 2 * format_size t) (\<lambda>_. replicate 512 0) 0 8) s'"
proof -
  let ?F = "format_size t"
  have t': "unat t \<le> 0x10000000" using t by simp
  note a = format_arith[OF t(1) t']
  have f: "42 + 2 * (unat ?F - 1) \<le> unat cap" using a(1,2) t(2) by simp
  have c0: "unat (32 :: u32) + 0 + unat ?F \<le> unat cap" using f a(1) by simp
  from format_fat_loop_ok[of "clear_sector_buffer s" 32 0 "unat ?F", OF _ _ c0] on obtain s1 where
    s1: "format_fat_loop D 32 (unat ?F) 0 (clear_sector_buffer s) = (ATA_OK, s1)"
    "wrote (clear_sector_buffer s) (store_range (sectors (disk s)) 32 fat_sector 0 (unat ?F)) s1"
    "sector_buffer s1 = replicate 512 0 \<or> sector_buffer s1 = head_sector"
    by (auto simp: clear_sector_buffer_def)
  have c1: "unat (32 + ?F) + 0 + unat ?F \<le> unat cap" using f a(1,3) by simp
  have on1: "online (disk s1)" using s1(2) by (simp add: wrote_def)
  from format_fat_loop_ok[OF on1 s1(3) c1] obtain s2 where
    s2: "format_fat_loop D (32 + ?F) (unat ?F) 0 s1 = (ATA_OK, s2)"
    "wrote s1 (store_range (sectors (disk s1)) (32 + ?F) fat_sector 0 (unat ?F)) s2" by blast
  have c2: "unat (32 + 2 * ?F) + 0 + 8 \<le> unat cap" using f a(1,4) by simp
  have on2: "online (disk s2)" using s2(2) by (simp add: wrote_def)
  from format_root_loop_ok[of "clear_sector_buffer s2" "32 + 2 * ?F" 0 8, OF _ _ c2] on2 obtain s3 where
    s3: "format_root_loop D (32 + 2 * ?F) 8 0 (clear_sector_buffer s2) = (ATA_OK, s3)"
    "wrote (clear_sector_buffer s2) (store_range (sectors (disk s2)) (32 + 2 * ?F) (\<lambda>_. replicate 512 0) 0 8) s3"
    by (auto simp: clear_sector_buffer_def)
  have "format_tables D ?F s = (None, s3)" using s1(1) s2(1) s3(1) by (simp add: format_tables_def)
  then show ?thesis
    using s1(2) s2(2) s3(2) by (simp add: wrote_def clear_sector_buffer_def)
qed

lemma mount_formatted:
  assumes "online (disk s)" and "sectors (disk s) = formatted_sectors S t"
    and t: "42 \<le> unat t" "unat t \<le> unat cap" "unat cap \<le> 0x10000000"
  shows "\<exists>s'. fat32_mount D s = Some (0, s') \<and> g_fs s' = formatted_fs t \<and> online (disk s') \<and>
    sectors (disk s') = formatted_sectors S t \<and> length (sector_buffer s') = 512 \<and>
    cluster_buffer s' = cluster_buffer s"
proof -
  have t': "unat t \<le> 0x10000000" using t by simp
  have cap: "(0 :: u32) < cap" "(1 :: u32) < cap" using t by (simp_all add: word_less_nat_alt)
  note at = formatted_sectors_at[OF t(1) t']
  let ?b = "format_boot t (format_size t)"
  have b0: "boot_of_bytes (formatted_sectors S t 0) = ?b" by (simp add: at formatted_boot(1))
  have b1: "fsinfo_of_bytes (formatted_sectors S t 1) = format_fsinfo" "length (formatted_sectors S t 1) = 512"
    by (simp_all add: at formatted_fsinfo)
  let ?s = "fat_puts (ascii ''Mounting FAT32 filesystem...'' @ [0x0A]) s"
  have "online (disk ?s)" "disk ?s = disk s" using assms(1) by (simp_all add: fat_puts_def)
  with read_sector_online[of ?s 0] cap(1) assms(2) obtain d1 where
    d1: "read_sector D 0 ?s = (ATA_OK, ?s\<lparr>disk := d1, sector_buffer := formatted_sectors S t 0\<rparr>)"
    "online d1" "sectors d1 = formatted_sectors S t" by metis
  let ?s1 = "?s\<lparr>disk := d1, sector_buffer := formatted_sectors S t 0, g_fs := (g_fs ?s)\<lparr>fs_boot := ?b\<rparr>\<rparr>"
  have "online (disk ?s1)" "disk ?s1 = d1" using d1 by simp_all
  with read_sector_online[of ?s1 1] cap(2) d1(3) obtain d2 where
    d2: "read_sector D 1 ?s1 = (ATA_OK, ?s1\<lparr>disk := d2, sector_buffer := formatted_sectors S t 1\<rparr>)"
    "online d2" "sectors d2 = formatted_sectors S t" by metis
  show ?thesis
    unfolding fat32_mount_def Let_def d1(1) split
    using d2 b0 b1 by (simp add: format_boot_def formatted_fs_def fat_puts_def mult.commute)
qed

lemma format_ok:
  assumes on: "online (disk s)" and t: "42 \<le> unat t" "unat t \<le> unat cap" "unat cap \<le> 0x10000000"
  shows "\<exists>s'. fat32_format D t s = Some (0, s') \<and> g_fs s' = formatted_fs t \<and> online (disk s') \<and>
    sectors (disk s') = formatted_sectors (sectors (disk s)) t \<and> length (sector_buffer s') = 512 \<and>
    cluster_buffer s' = cluster_buffer s"
proof -
  have cap: "(0 :: u32) < cap" "(1 :: u32) < cap" using t by (simp_all add: word_less_nat_alt)
  define F where "F = format_size t"
  define b0 where "b0 = put_at (put_at (replicate 512 0) 0 (boot_to_bytes (format_boot t F))) 510 [0x55, 0xAA]"
  define b1 where "b1 = put_at (replicate 512 0) 0 (fsinfo_to_bytes format_fsinfo)"
  define s0 where "s0 = (fat_puts (ascii ''Formatting FAT32 filesystem...'' @ [0x0A]) s)
    \<lparr>g_fs := (g_fs s)\<lparr>fs_boot := format_boot t F\<rparr>, sector_buffer := b0\<rparr>"
  have s0: "online (disk s0)" "length (sector_buffer s0) = 512"
    using on formatted_boot(2) by (simp_all add: s0_def b0_def fat_puts_def)
  obtain d0 where d0: "write_sector D 0 s0 = (ATA_OK, s0\<lparr>disk := d0\<rparr>)" "online d0"
    "sectors d0 = (sectors (disk s0))(0 := sector_buffer s0)"
    using s0(1) cap(1) s0(2) by (rule write_sector_online)
  define s1 where "s1 = s0\<lparr>disk := d0, g_fs := (g_fs s0)\<lparr>fs_fsinfo := format_fsinfo\<rparr>, sector_buffer := b1\<rparr>"
  have s1: "online (disk s1)" "length (sector_buffer s1) = 512"
    using d0(2) formatted_fsinfo(2) by (simp_all add: s1_def b1_def)
  obtain d1 where d1: "write_sector D 1 s1 = (ATA_OK, s1\<lparr>disk := d1\<rparr>)" "online d1"
    "sectors d1 = (sectors (disk s1))(1 := sector_buffer s1)"
    using s1(1) cap(2) s1(2) by (rule write_sector_online)
  have on1: "online (disk (s1\<lparr>disk := d1\<rparr>))" using d1(2) by simp
  from format_tables_ok[OF on1 t] obtain s2 where
    s2: "format_tables D F (s1\<lparr>disk := d1\<rparr>) = (None, s2)" "online (disk s2)"
    "sectors (disk s2) = formatted_sectors (sectors (disk s)) t" "cluster_buffer s2 = cluster_buffer s"
    using d1(3) d0(3)
    by (auto simp: wrote_def formatted_sectors_def Let_def F_def s1_def s0_def b0_def b1_def fat_puts_def
        simp del: fun_upd_apply)
  let ?s2 = "fat_puts (ascii ''FAT32 format complete'' @ [0x0A]) s2"
  have "fat32_format D t s = fat32_mount D ?s2"
    using d0(1) d1(1) s2(1)
    unfolding fat32_format_def Let_def F_def [symmetric] b0_def [symmetric] b1_def [symmetric] s0_def s1_def
    by (simp add: fat_puts_def)
  moreover have "online (disk ?s2)" "sectors (disk ?s2) = formatted_sectors (sectors (disk s)) t"
    "cluster_buffer ?s2 = cluster_buffer s" using s2 by (simp_all add: fat_puts_def)
  ultimately show ?thesis using mount_formatted[of ?s2, OF _ _ t] by metis
qed

end

section \<open>Properties\<close>

text \<open>C15. \<open>fat32_format\<close> of a disk of at least 42 sectors, none beyond the device and its 28-bit addresses,
  succeeds and leaves a sound, mounted, empty volume: its geometry holds, the root directory
  is the zero-filled cluster 2, that cluster is an allocated chain of length one, and every other
  cluster is free, in both copies of the table.\<close>

theorem fat32_format_correct:
  assumes "block_device D sectors online cap" and "online (disk s)"
    and "length (cluster_buffer s) = CLUSTER_BUFFER_SIZE"
    and "42 \<le> unat t" "unat t \<le> unat cap" "unat cap \<le> 0x10000000"
  shows "\<exists>s'. fat32_format D t s = Some (0, s') \<and> fat_ready online cap s' \<and>
    root_dir_first_cluster (g_fs s') = 2 \<and> num_fats (g_fs s') = 2 \<and>
    unat (total_clusters (g_fs s')) = (unat t - 34 - 2 * ((unat t - 32) div 264)) div 8 \<and>
    cluster_data (sectors (disk s')) (g_fs s') 2 = replicate 4096 0 \<and>
    (\<forall>k < 2. \<forall>c. valid_cluster (g_fs s') c \<longrightarrow>
      fat_copy (sectors (disk s')) (g_fs s') k c = (if c = 2 then FAT32_EOC_MAX else FAT32_FREE_CLUSTER))"
proof -
  from block_device.format_ok[OF assms(1,2,4-6)] obtain s' where
    s': "fat32_format D t s = Some (0, s')" "g_fs s' = formatted_fs t" "online (disk s')"
    "sectors (disk s') = formatted_sectors (sectors (disk s)) t" "length (sector_buffer s') = 512"
    "cluster_buffer s' = cluster_buffer s" by blast
  have t: "unat t \<le> 0x10000000" using assms(5,6) by simp
  have "fat_ready online cap s'"
    using s' assms(3) formatted_geometry[OF assms(4-6)] by (simp add: fat_ready_def buffers_ok_def)
  moreover have "unat (total_clusters (formatted_fs t)) = (unat t - 34 - 2 * ((unat t - 32) div 264)) div 8"
    using format_arith(1,5)[OF assms(4) t] by (simp add: formatted_fs_def unat_div diff_diff_eq)
  moreover have "root_dir_first_cluster (formatted_fs t) = 2" "num_fats (formatted_fs t) = 2"
    by (simp_all add: formatted_fs_def)
  ultimately show ?thesis
    using s' formatted_root(1)[OF assms(4-6)] formatted_table[OF assms(4-6)] by simp
qed

theorem fat32_format_correct_witness:
  "\<exists>s'. fat32_format (ata_disk pio_drive) 2048 small_volume = Some (0, s') \<and>
    unat (total_clusters (g_fs s')) = 250 \<and>
    fat_copy (pio.hw_sectors (disk s')) (g_fs s') 1 2 = FAT32_EOC_MAX"
proof -
  have r: "pio.hw_online (disk small_volume)" "length (cluster_buffer small_volume) = CLUSTER_BUFFER_SIZE"
    using small_volume_ready by (simp_all add: fat_ready_def buffers_ok_def)
  show ?thesis
    using fat32_format_correct[OF pio.blk.block_device_axioms r, of 2048] by (auto simp: valid_cluster_def)
qed

end
