(* ===== verification/Fat32_Access.thy ===== *)
theory Fat32_Access
  imports Fat32_Mount
begin

text \<open>
  Reading and writing files over a block device.  A file is the list of clusters its table
  entries link together (\<open>is_chain\<close>), its contents the concatenation of their data.
\<close>

section \<open>Chains as lists\<close>

fun is_chain :: "(u32 \<Rightarrow> u32) \<Rightarrow> fat32_fs \<Rightarrow> u32 list \<Rightarrow> bool" where
  "is_chain F fs [] \<longleftrightarrow> False"
| "is_chain F fs [c] \<longleftrightarrow> valid_cluster fs c \<and> F c \<ge> FAT32_EOC_MIN"
| "is_chain F fs (c # d # cs) \<longleftrightarrow> valid_cluster fs c \<and> F c = d \<and> is_chain F fs (d # cs)"

definition file_data :: "(u32 \<Rightarrow> bytes) \<Rightarrow> fat32_fs \<Rightarrow> u32 list \<Rightarrow> bytes" where
  "file_data S fs cs = concat (map (cluster_data S fs) cs)"

lemma is_chain_valid: "is_chain F fs cs \<Longrightarrow> c \<in> set cs \<Longrightarrow> valid_cluster fs c"
  by (induction F fs cs rule: is_chain.induct) auto

lemma is_chain_step: "is_chain F fs (c # cs) \<Longrightarrow> cs \<noteq> [] \<Longrightarrow> F c = hd cs \<and> is_chain F fs cs"
  by (cases cs) auto

lemma valid_not_eoc:
  assumes "geometry_ok cap fs" and "valid_cluster fs c"
  shows "c < FAT32_EOC_MIN" and "2 \<le> c" and "c \<noteq> 0"
  using assms by (auto simp: geometry_ok_def valid_cluster_def word_less_nat_alt word_le_nat_alt)

lemma is_chain_end_iff:
  assumes "geometry_ok cap fs" and "is_chain F fs (c # cs)"
  shows "F c \<ge> FAT32_EOC_MIN \<longleftrightarrow> cs = []"
proof (cases "cs = []")
  case False
  then have "valid_cluster fs (F c)" using is_chain_step[OF assms(2)] is_chain_valid[of F fs cs] by auto
  then show ?thesis using valid_not_eoc(1)[OF assms(1)] False by (simp add: not_le)
qed (use assms in simp)

lemma is_chain_deterministic:
  assumes "geometry_ok cap fs"
  shows "is_chain F fs (c # cs) \<Longrightarrow> is_chain F fs (c # ds) \<Longrightarrow> cs = ds"
proof (induction cs arbitrary: c ds)
  case Nil
  then show ?case using is_chain_end_iff[OF assms] by blast
next
  case (Cons a cs)
  then have "ds \<noteq> []" using is_chain_end_iff[OF assms] by blast
  with Cons show ?case by (cases ds) auto
qed

lemma is_chain_suffix: "is_chain F fs (xs @ ys) \<Longrightarrow> ys \<noteq> [] \<Longrightarrow> is_chain F fs ys"
  by (induction xs) (auto dest: is_chain_step)

lemma is_chain_distinct:
  assumes "geometry_ok cap fs"
  shows "is_chain F fs cs \<Longrightarrow> distinct cs"
proof (induction cs)
  case (Cons c cs)
  have "c \<notin> set cs"
  proof
    assume "c \<in> set cs"
    then obtain xs ys where split: "cs = xs @ c # ys" by (meson split_list)
    then have "is_chain F fs (c # ys)" using Cons.prems is_chain_suffix[of F fs "c # xs" "c # ys"] by simp
    then have "cs = ys" using is_chain_deterministic[OF assms Cons.prems] by simp
    with split show False by simp
  qed
  then show ?case using Cons by (cases "cs = []") (auto dest: is_chain_step)
qed simp

lemma is_chain_cong:
  assumes "\<And>c. c \<in> set cs \<Longrightarrow> F c = G c"
  shows "is_chain F fs cs = is_chain G fs cs"
  using assms by (induction F fs cs rule: is_chain.induct) auto

lemma file_data_cong:
  "(\<And>c. c \<in> set cs \<Longrightarrow> cluster_data S fs c = cluster_data S' fs c) \<Longrightarrow> file_data S fs cs = file_data S' fs cs"
  by (auto simp: file_data_def intro!: arg_cong[where f = concat] map_cong)

lemma length_file_data:
  assumes "\<And>l. length (S l) = 512" and "geometry_ok cap fs"
  shows "length (file_data S fs cs) = length cs * unat (bytes_per_cluster fs)"
  using length_cluster_data[of S fs, OF assms(1)] assms(2)
  by (simp add: file_data_def length_concat o_def sum_list_triv geometry_ok_def)

lemma drop_file_data:
  assumes "\<And>l. length (S l) = 512" and "geometry_ok cap fs"
  shows "drop (p mod unat (bytes_per_cluster fs)) (file_data S fs (drop (p div unat (bytes_per_cluster fs)) cs)) =
    drop p (file_data S fs cs)"
proof -
  let ?b = "unat (bytes_per_cluster fs)"
  have d: "drop (q * ?b) (file_data S fs cs) = file_data S fs (drop q cs)" for q
  proof (induction q arbitrary: cs)
    case (Suc q)
    have "length (cluster_data S fs c) = ?b" for c
      using length_file_data[where S = S and cs = "[c]", OF assms] by (simp add: file_data_def)
    then show ?case using Suc by (cases cs) (simp_all add: file_data_def)
  qed simp
  have "drop p (file_data S fs cs) = drop (p mod ?b) (drop (p div ?b * ?b) (file_data S fs cs))"
    by (simp add: add.commute)
  then show ?thesis by (simp only: d)
qed

section \<open>Reading\<close>

context block_device
begin

abbreviation chain_at :: "'d fat_state \<Rightarrow> u32 list \<Rightarrow> bool" where
  "chain_at s cs \<equiv> is_chain (fat_entry (on_disk s) (g_fs s)) (g_fs s) cs"

lemma skip_chain_ok:
  assumes "ready s" and "chain_at s cs" and "n < length cs"
  shows "\<exists>s'. skip_chain D n (hd cs) s = (cs ! n, s') \<and> io_to s (on_disk s) (cluster_buffer s) s'"
  using assms
proof (induction n arbitrary: cs s)
  case 0
  then show ?case using io_to_refl by (cases cs) auto
next
  case (Suc n)
  obtain c ds where cs: "cs = c # ds" "ds \<noteq> []" using Suc.prems(3) by (cases cs; cases "tl cs") auto
  note st = is_chain_step[OF Suc.prems(2)[unfolded cs(1)] cs(2)]
  have v: "valid_cluster (g_fs s) c" using is_chain_valid[OF Suc.prems(2)] cs(1) by simp
  obtain s1 where s1: "fat32_read_fat D c s = (hd ds, s1)" "io_to s (on_disk s) (cluster_buffer s) s1"
    using read_fat_ok[OF Suc.prems(1) v] st by metis
  note f1 = io_toD[OF s1(2)]
  have "chain_at s1 ds" using st f1(1,3) by simp
  from Suc.IH[OF io_to_ready[OF s1(2) Suc.prems(1)] this] Suc.prems(3) cs(1) obtain s' where
    s': "skip_chain D n (hd ds) s1 = (ds ! n, s')" "io_to s1 (on_disk s1) (cluster_buffer s1) s'" by auto
  have "io_to s (on_disk s) (cluster_buffer s) s'" using io_to_trans[OF s1(2) s'(2)] f1(1,2) by simp
  then show ?case
    using s1(1) s'(1) cs valid_not_eoc(2)[OF ready_geometry[OF Suc.prems(1)] v] by simp
qed

lemma unat_min: "unat (min a b :: u32) = min (unat a) (unat b)"
  by (simp add: min_def word_le_nat_alt)

lemma bpc_facts:
  assumes "ready s"
  shows "0 < unat (bytes_per_cluster (g_fs s))" and "unat (bytes_per_cluster (g_fs s)) \<le> length (cluster_buffer s)"
    and "bytes_per_cluster (g_fs s) \<noteq> 0"
  using assms ready_geometry[OF assms]
  by (auto simp: fat_ready_def buffers_ok_def geometry_ok_def word_less_nat_alt)

lemma length_cluster_ready:
  "ready s \<Longrightarrow> length (cluster_data (on_disk s) (g_fs s) c) = unat (bytes_per_cluster (g_fs s))"
  using length_cluster_data[of "on_disk s" "g_fs s"] ready_sector_length[of s] ready_geometry[of s]
  by (simp add: geometry_ok_def)

lemma read_loop_stop: "fat32_read_loop D c off 0 k f buf s = Some (k, f, buf, s)"
  by (subst fat32_read_loop.simps) simp

text \<open>One iteration of the loop, as far as the test for a next cluster.\<close>

lemma read_step:
  assumes r: "ready s" and v: "valid_cluster (g_fs s) c" and off: "off < bytes_per_cluster (g_fs s)"
    and sz: "0 < sz" and m: "m = min (bytes_per_cluster (g_fs s) - off) sz"
    and fit: "unat k + unat m \<le> length buf"
  obtains s1 where "io_to s (on_disk s) (cluster_buffer s1) s1"
    "fat32_read_loop D c off sz k f buf s =
      (let (c', s2) = (if 0 < sz - m then fat32_read_fat D c s1 else (c, s1)) in
       fat32_read_loop D c' 0 (sz - m) (k + m) (f\<lparr>f_position := f_position f + m\<rparr>)
         (put_at buf (unat k) (take (unat m) (drop (unat off) (cluster_data (on_disk s) (g_fs s) c)))) s2)"
proof -
  let ?fs = "g_fs s" and ?data = "cluster_data (on_disk s) (g_fs s) c"
  obtain s1 where s1: "fat32_read_cluster D c s = Some (0, s1)"
    "io_to s (on_disk s) (put_at (cluster_buffer s) 0 ?data) s1" using r v by (rule read_cluster_ok)
  note f1 = io_toD[OF s1(2)]
  have len: "length ?data = unat (bytes_per_cluster ?fs)" using r by (rule length_cluster_ready)
  have "unat off < unat (bytes_per_cluster ?fs)" using off by (simp add: word_less_nat_alt)
  then have om: "unat off + unat m \<le> length ?data"
    using off by (simp add: m unat_min len unat_sub word_le_nat_alt less_imp_le_nat)
  have "load (cluster_buffer s1) (unat off) (unat m) = Some (take (unat m) (drop (unat off) ?data))"
    unfolding f1(2) load_def put_at_def using om len bpc_facts(2)[OF r] by simp
  moreover have "store buf (unat k) (take (unat m) (drop (unat off) ?data)) =
      Some (put_at buf (unat k) (take (unat m) (drop (unat off) ?data)))"
    using fit om by (intro store_put_at) simp
  moreover have "2 \<le> c" "c < FAT32_EOC_MIN" using valid_not_eoc[OF ready_geometry[OF r] v] by auto
  moreover have "m = min (bytes_per_cluster (g_fs s1) - off) sz" using m f1(3) by simp
  ultimately have "fat32_read_loop D c off sz k f buf s =
      (let (c', s2) = (if 0 < sz - m then fat32_read_fat D c s1 else (c, s1)) in
       fat32_read_loop D c' 0 (sz - m) (k + m) (f\<lparr>f_position := f_position f + m\<rparr>)
         (put_at buf (unat k) (take (unat m) (drop (unat off) ?data))) s2)"
    using s1(1) sz by (subst fat32_read_loop.simps) (simp add: Let_def)
  then show ?thesis using that[of s1] s1(2) f1(2) by simp
qed

text \<open>The last iteration, when the rest of the request ends in this cluster.\<close>

lemma read_loop_last:
  assumes r: "ready s" and v: "valid_cluster (g_fs s) c"
    and off: "off < bytes_per_cluster (g_fs s)" and le: "unat off + unat sz \<le> unat (bytes_per_cluster (g_fs s))"
    and fit: "unat k + unat sz \<le> length buf"
  shows "\<exists>s'. fat32_read_loop D c off sz k f buf s =
      Some (k + sz, f\<lparr>f_position := f_position f + sz\<rparr>,
        put_at buf (unat k) (take (unat sz) (drop (unat off) (cluster_data (on_disk s) (g_fs s) c))), s') \<and>
    io_to s (on_disk s) (cluster_buffer s') s'"
proof (cases "sz = 0")
  case True
  then show ?thesis using io_to_refl[OF r] by (simp add: read_loop_stop put_at_def)
next
  case False
  have "sz = min (bytes_per_cluster (g_fs s) - off) sz"
    using off le by (simp add: word_unat_eq_iff unat_min unat_sub)
  moreover have "0 < sz" using False by (simp add: word_gt_0)
  ultimately obtain s1 where s1: "io_to s (on_disk s) (cluster_buffer s1) s1"
    "fat32_read_loop D c off sz k f buf s =
      (let (c', s2) = (if 0 < sz - sz then fat32_read_fat D c s1 else (c, s1)) in
       fat32_read_loop D c' 0 (sz - sz) (k + sz) (f\<lparr>f_position := f_position f + sz\<rparr>)
         (put_at buf (unat k) (take (unat sz) (drop (unat off) (cluster_data (on_disk s) (g_fs s) c)))) s2)"
    using read_step[OF r v off _ _ fit] by metis
  then show ?thesis by (simp add: read_loop_stop)
qed

lemma read_loop_ok:
  assumes "ready s" and "chain_at s (c # cs)" and "off < bytes_per_cluster (g_fs s)"
    and "unat off + unat sz \<le> length (c # cs) * unat (bytes_per_cluster (g_fs s))"
    and "unat k + unat sz \<le> length buf" and "unat k + unat sz < 4294967296"
  shows "\<exists>s'. fat32_read_loop D c off sz k f buf s =
      Some (k + sz, f\<lparr>f_position := f_position f + sz\<rparr>,
        put_at buf (unat k) (take (unat sz) (drop (unat off) (file_data (on_disk s) (g_fs s) (c # cs)))), s') \<and>
    io_to s (on_disk s) (cluster_buffer s') s'"
  using assms
proof (induction cs arbitrary: c off sz k f buf s)
  case Nil
  then have v: "valid_cluster (g_fs s) c" by simp
  show ?case
    using read_loop_last[OF Nil(1) v Nil(3), of sz k buf f] Nil(4,5) by (simp add: file_data_def)
next
  case (Cons d cs)
  let ?bpc = "bytes_per_cluster (g_fs s)" and ?S = "on_disk s" and ?fs = "g_fs s"
  let ?data = "cluster_data ?S ?fs c"
  have v: "valid_cluster ?fs c" using Cons.prems(2) by simp
  have off: "unat off < unat ?bpc" using Cons.prems(3) by (simp add: word_less_nat_alt)
  have len: "length ?data = unat ?bpc" using Cons.prems(1) by (rule length_cluster_ready)
  show ?case
  proof (cases "unat off + unat sz \<le> unat ?bpc")
    case True
    then have "take (unat sz) (drop (unat off) (file_data ?S ?fs (c # d # cs))) = take (unat sz) (drop (unat off) ?data)"
      using len by (simp add: file_data_def)
    then show ?thesis
      using read_loop_last[OF Cons.prems(1) v Cons.prems(3) True Cons.prems(5), of f] by simp
  next
    case False
    define m where "m = ?bpc - off"
    have m: "unat m = unat ?bpc - unat off" using off by (simp add: m_def unat_sub word_le_nat_alt)
    have lt: "unat m < unat sz" "unat m \<le> unat sz" using False m off by linarith+
    from lt(2) have mn: "m = min (?bpc - off) sz" by (simp add: m_def min_absorb1 word_le_nat_alt)
    have sz: "0 < sz" "unat (sz - m) = unat sz - unat m" "0 < sz - m"
      using lt by (simp_all add: word_less_nat_alt unat_sub word_le_nat_alt)
    have k: "unat (k + m) = unat k + unat m" using Cons.prems(6) False m by (simp add: unat_word_ariths)
    have fit: "unat k + unat m \<le> length buf" using Cons.prems(5) False m by linarith
    obtain s1 where s1: "io_to s ?S (cluster_buffer s1) s1"
      "fat32_read_loop D c off sz k f buf s =
        (let (c', s2) = (if 0 < sz - m then fat32_read_fat D c s1 else (c, s1)) in
         fat32_read_loop D c' 0 (sz - m) (k + m) (f\<lparr>f_position := f_position f + m\<rparr>)
           (put_at buf (unat k) (take (unat m) (drop (unat off) ?data))) s2)"
      using read_step[OF Cons.prems(1) v Cons.prems(3) sz(1) mn fit] .
    note f1 = io_toD[OF s1(1)] and r1 = io_to_ready[OF s1(1) Cons.prems(1)]
    obtain s2 where s2: "fat32_read_fat D c s1 = (d, s2)" "io_to s1 (on_disk s1) (cluster_buffer s1) s2"
      using read_fat_ok[OF r1, of c] v f1(1,3) Cons.prems(2) by auto
    have io2: "io_to s ?S (cluster_buffer s2) s2"
      using io_to_trans[OF s1(1) s2(2)] f1(1) io_toD(2)[OF s2(2)] by simp
    note f2 = io_toD[OF io2]
    let ?buf = "put_at buf (unat k) (take (unat m) (drop (unat off) ?data))"
    have lb: "length ?buf = length buf" using fit len m by (simp add: length_put_at)
    have p: "chain_at s2 (d # cs)" "0 < bytes_per_cluster (g_fs s2)"
      using Cons.prems(2) f2(1,3) bpc_facts(1)[OF Cons.prems(1)] by (simp_all add: word_less_nat_alt)
    have "unat off + unat sz \<le> unat ?bpc + length (d # cs) * unat ?bpc" using Cons.prems(4) by simp
    then have room: "unat (0 :: u32) + unat (sz - m) \<le> length (d # cs) * unat (bytes_per_cluster (g_fs s2))"
      unfolding sz(2) m f2(3) unat_0 using off by linarith
    have tot: "unat (k + m) + unat (sz - m) = unat k + unat sz" using k sz(2) lt(2) by simp
    obtain s' where s': "fat32_read_loop D d 0 (sz - m) (k + m) (f\<lparr>f_position := f_position f + m\<rparr>) ?buf s2 =
        Some (k + sz, f\<lparr>f_position := f_position f + sz\<rparr>,
          put_at ?buf (unat k + unat m) (take (unat sz - unat m) (file_data ?S ?fs (d # cs))), s')"
      "io_to s2 ?S (cluster_buffer s') s'"
      using Cons.IH[OF io_to_ready[OF io2 Cons.prems(1)] p room, of "k + m" ?buf "f\<lparr>f_position := f_position f + m\<rparr>"]
        Cons.prems(5,6) lb tot k sz(2) f2(1,3) by auto
    have "put_at ?buf (unat k + unat m) (take (unat sz - unat m) (file_data ?S ?fs (d # cs))) =
        put_at buf (unat k) (take (unat sz) (drop (unat off) (file_data ?S ?fs (c # d # cs))))"
      using put_at_append[of "unat k" "take (unat m) (drop (unat off) ?data)" buf] fit len m False off
      by (simp add: file_data_def)
    then show ?thesis
      using s1(2) s2(1) sz(3) s' io_to_trans[OF io2 s'(2)] by auto
  qed
qed

lemma read_ok_chain:
  assumes r: "ready s" and ch: "chain_at s cs" and hd: "f_first_cluster f = hd cs"
    and fit: "unat (f_file_size f) \<le> length cs * unat (bytes_per_cluster (g_fs s))"
    and op: "f_is_open f \<noteq> 0" and sz: "unat (f_position f) + unat sz < 4294967296"
    and n: "n = min (unat sz) (unat (f_file_size f) - unat (f_position f))" and buf: "n \<le> length buf"
  shows "\<exists>s' f'. fat32_read D f (Some buf) sz s = Some (sint (of_nat n :: u32), f',
      Some (put_at buf 0 (take n (drop (unat (f_position f)) (file_data (on_disk s) (g_fs s) cs)))), s') \<and>
    unat (f_position f') = unat (f_position f) + n \<and>
    f' = f\<lparr>f_position := f_position f', f_current_cluster := f_current_cluster f'\<rparr> \<and>
    io_to s (on_disk s) (cluster_buffer s') s'"
proof (cases "f_position f < f_file_size f")
  case False
  then have "n = 0" by (simp add: n word_less_nat_alt)
  with False show ?thesis
    using io_to_refl[OF r] op by (intro exI[of _ s] exI[of _ f]) (simp add: fat32_read_def not_less put_at_def)
next
  case True
  let ?p = "f_position f" and ?bpc = "bytes_per_cluster (g_fs s)"
  let ?q = "unat (f_position f div bytes_per_cluster (g_fs s))"
  have p: "unat ?p < unat (f_file_size f)" using True by (simp add: word_less_nat_alt)
  have ps: "unat (?p + sz) = unat ?p + unat sz" using sz by (simp add: unat_word_ariths)
  define z where "z = (if ?p + sz > f_file_size f then f_file_size f - ?p else sz)"
  have z: "unat z = n" using p ps by (auto simp: z_def n word_less_nat_alt unat_sub word_le_nat_alt)
  have b0: "0 < unat ?bpc" "?bpc \<noteq> 0" using bpc_facts[OF r] by auto
  have q: "?q = unat ?p div unat ?bpc" by (rule unat_div)
  have "unat ?p < length cs * unat ?bpc" using p fit by simp
  then have ql: "?q < length cs" unfolding q using b0 by (simp add: div_less_iff_less_mult)
  obtain s1 where s1: "skip_chain D ?q (hd cs) s = (cs ! ?q, s1)" "io_to s (on_disk s) (cluster_buffer s) s1"
    using skip_chain_ok[OF r ch ql] by blast
  note f1 = io_toD[OF s1(2)] and r1 = io_to_ready[OF s1(2) r]
  have split: "drop ?q cs = cs ! ?q # drop (Suc ?q) cs" using ql by (simp add: Cons_nth_drop_Suc)
  have ch1: "chain_at s1 (cs ! ?q # drop (Suc ?q) cs)"
    using is_chain_suffix[of _ _ "take ?q cs" "drop ?q cs"] ch ql unfolding split[symmetric] f1(1,3) by simp
  have off: "?p mod ?bpc < bytes_per_cluster (g_fs s1)"
    using b0 f1(3) by (simp add: word_less_nat_alt unat_mod)
  have data: "drop (unat (?p mod ?bpc)) (file_data (on_disk s) (g_fs s) (drop ?q cs)) =
      drop (unat ?p) (file_data (on_disk s) (g_fs s) cs)"
    unfolding q unat_mod using ready_sector_length[OF r] ready_geometry[OF r] by (rule drop_file_data)
  have len: "length (cs ! ?q # drop (Suc ?q) cs) = length cs - ?q" using ql by simp
  have "unat (?p mod ?bpc) + unat z \<le> (length cs - ?q) * unat ?bpc"
  proof -
    have "?q * unat ?bpc + unat (?p mod ?bpc) = unat ?p" unfolding q unat_mod by simp
    moreover have "unat ?p + unat z \<le> length cs * unat ?bpc" using z n p fit by linarith
    ultimately show ?thesis by (simp add: diff_mult_distrib)
  qed
  then obtain s' where s': "fat32_read_loop D (cs ! ?q) (?p mod ?bpc) z 0 (f\<lparr>f_current_cluster := cs ! ?q\<rparr>) buf s1 =
      Some (z, f\<lparr>f_current_cluster := cs ! ?q, f_position := ?p + z\<rparr>,
        put_at buf 0 (take n (drop (unat ?p) (file_data (on_disk s) (g_fs s) cs))), s')"
    "io_to s1 (on_disk s1) (cluster_buffer s') s'"
    using read_loop_ok[OF r1 ch1 off, of z 0 buf "f\<lparr>f_current_cluster := cs ! ?q\<rparr>"] z buf f1(1,3) unat_u32[of z]
    unfolding len split[symmetric] by (auto simp: data)
  have "unat (?p + z) = unat ?p + n"
    using z n p unat_u32[of "f_file_size f"] by (simp add: unat_word_ariths)
  moreover have "io_to s (on_disk s) (cluster_buffer s') s'" using io_to_trans[OF s1(2) s'(2)] f1(1) by simp
  moreover have "of_nat n = z" using z by auto
  moreover have "\<not> f_file_size f \<le> ?p" using True by (simp add: not_le)
  ultimately show ?thesis
    using s1(1) s'(1) op hd b0(2)
    by (intro exI[of _ s'] exI[of _ "f\<lparr>f_current_cluster := cs ! ?q, f_position := ?p + z\<rparr>"])
      (simp add: fat32_read_def Let_def z_def [symmetric])
qed

end

end
