(* ===== verification/Fat32_Extend.thy ===== *)
theory Fat32_Extend
  imports Fat32_Access
begin

text \<open>
  Writing files over a block device: extending a chain by free clusters, the write loop, and the
  correctness of \<open>fat32_write\<close> (the bytes land where they should, the chain grows by exactly the
  clusters needed, nothing else on the volume changes).
\<close>

section \<open>Views of a volume that ignore the FSInfo copy\<close>

lemma fsinfo_irrelevant [simp]:
  "valid_cluster (fs\<lparr>fs_fsinfo := i\<rparr>) = valid_cluster fs"
  "fat_lba (fs\<lparr>fs_fsinfo := i\<rparr>) = fat_lba fs"
  "fat_copy S (fs\<lparr>fs_fsinfo := i\<rparr>) = fat_copy S fs"
  "cluster_lba (fs\<lparr>fs_fsinfo := i\<rparr>) = cluster_lba fs"
  "cluster_data S (fs\<lparr>fs_fsinfo := i\<rparr>) = cluster_data S fs"
  "geometry_ok cap (fs\<lparr>fs_fsinfo := i\<rparr>) = geometry_ok cap fs"
  by (auto simp: fun_eq_iff valid_cluster_def fat_lba_def fat_copy_def cluster_lba_def cluster_data_def
      geometry_ok_def)

lemma file_data_fsinfo [simp]: "file_data S (fs\<lparr>fs_fsinfo := i\<rparr>) = file_data S fs"
  by (simp add: fun_eq_iff file_data_def)

lemma is_chain_fsinfo [simp]: "is_chain F (fs\<lparr>fs_fsinfo := i\<rparr>) cs = is_chain F fs cs"
  by (induction F fs cs rule: is_chain.induct) auto

lemma same_geometry_trans:
  "fs' = fs\<lparr>fs_fsinfo := i\<rparr> \<Longrightarrow> fs'' = fs'\<lparr>fs_fsinfo := j\<rparr> \<Longrightarrow> fs'' = fs\<lparr>fs_fsinfo := j\<rparr>"
  by simp

definition free_clusters :: "(u32 \<Rightarrow> bytes) \<Rightarrow> fat32_fs \<Rightarrow> u32 set" where
  "free_clusters S fs = {x. valid_cluster fs x \<and> fat_entry S fs x = FAT32_FREE_CLUSTER}"

lemma free_clusters_fsinfo [simp]: "free_clusters S (fs\<lparr>fs_fsinfo := i\<rparr>) = free_clusters S fs"
  by (simp add: free_clusters_def)

lemma finite_free_clusters [simp]: "finite (free_clusters S fs)"
  by (rule finite_subset[OF _ finite_valid_clusters[of fs]]) (auto simp: free_clusters_def)

lemma is_chain_nonfree:
  assumes "geometry_ok cap fs" and "is_chain (fat_entry S fs) fs cs" and "c \<in> set cs"
  shows "c \<notin> free_clusters S fs"
proof -
  obtain xs ys where cs: "cs = xs @ c # ys" using assms(3) by (meson split_list)
  then have ch: "is_chain (fat_entry S fs) fs (c # ys)" using assms(2) is_chain_suffix by blast
  have "fat_entry S fs c \<noteq> 0"
  proof (cases "ys = []")
    case True
    then show ?thesis using ch by auto
  next
    case False
    then show ?thesis
      using is_chain_step[OF ch] is_chain_valid[of _ fs ys "hd ys"] valid_not_eoc(3)[OF assms(1)] by auto
  qed
  then show ?thesis by (simp add: free_clusters_def)
qed

lemma is_chain_append:
  assumes "is_chain F fs (xs @ [c])" and "distinct (xs @ [c])" and "d \<notin> set (xs @ [c])"
    and "valid_cluster fs d" and "G c = d" and "G d \<ge> FAT32_EOC_MIN"
    and "\<And>x. x \<in> set xs \<Longrightarrow> G x = F x"
  shows "is_chain G fs (xs @ [c, d])"
  using assms
proof (induction xs)
  case (Cons x xs)
  then show ?case by (cases xs) auto
qed simp

lemma valid_mask:
  assumes "valid_cluster fs d" and "geometry_ok cap fs"
  shows "d AND 0x0FFFFFFF = (d :: u32)"
proof -
  have "(0x0FFFFFFF :: u32) = mask 28" by (simp add: mask_eq_exp_minus_1)
  moreover have "d < 0x10000000"
    using assms by (simp add: valid_cluster_def geometry_ok_def word_less_nat_alt)
  then have "take_bit 28 d = d" by (rule take_bit_28_id)
  ultimately show ?thesis by (simp add: take_bit_eq_mask)
qed

lemma card_diff_short:
  "finite A \<Longrightarrow> set es \<subseteq> A \<Longrightarrow> length es \<le> 1 \<Longrightarrow> card A = card (A - set es) + length es"
  by (cases es; cases "tl es") (auto simp del: card_Diff_insert simp: card.remove)

lemma advance_advance:
  assumes "unat (f_position f) + unat a + unat b < 4294967296"
  shows "advance (advance f a) b = advance f (a + b)"
proof -
  have "unat (f_position f + a) = unat (f_position f) + unat a"
    "unat (f_position f + a + b) = unat (f_position f) + unat a + unat b"
    using assms by (simp_all add: unat_word_ariths)
  then show ?thesis
    by (cases f) (auto simp: advance_def Let_def word_less_nat_alt add.assoc unat_eq_zero)
qed

lemma put_at_append_left:
  "off + length x \<le> length A \<Longrightarrow> put_at (A @ B) off x = put_at A off x @ B"
  by (simp add: put_at_def)

lemma put_at_split:
  "off + length x = length A \<Longrightarrow> put_at (A @ B) off (x @ y) = put_at A off x @ put_at B 0 y"
  by (auto simp: put_at_def add.assoc [symmetric])

section \<open>Growing a chain\<close>

context block_device
begin

text \<open>\<open>s'\<close> is \<open>s\<close> after operations that may change only the clusters in \<open>A\<close> and their table entries.\<close>

definition keeps :: "'d fat_state \<Rightarrow> u32 set \<Rightarrow> 'd fat_state \<Rightarrow> bool" where
  "keeps s A s' \<longleftrightarrow> ready s' \<and> (\<exists>i. g_fs s' = (g_fs s)\<lparr>fs_fsinfo := i\<rparr>) \<and>
     (\<forall>x. valid_cluster (g_fs s) x \<and> x \<notin> A \<longrightarrow>
       cluster_data (on_disk s') (g_fs s) x = cluster_data (on_disk s) (g_fs s) x \<and>
       (\<forall>k < unat (num_fats (g_fs s)). fat_copy (on_disk s') (g_fs s) k x = fat_copy (on_disk s) (g_fs s) k x))"

text \<open>\<open>s'\<close> differs from \<open>s\<close> only in the table.\<close>

definition same_data :: "'d fat_state \<Rightarrow> 'd fat_state \<Rightarrow> bool" where
  "same_data s s' \<longleftrightarrow>
     (\<forall>x. valid_cluster (g_fs s) x \<longrightarrow> cluster_data (on_disk s') (g_fs s) x = cluster_data (on_disk s) (g_fs s) x)"

lemma keeps_fs: "keeps s A s' \<Longrightarrow> \<exists>i. g_fs s' = (g_fs s)\<lparr>fs_fsinfo := i\<rparr>"
  by (simp add: keeps_def)

lemma keeps_views:
  assumes "keeps s A s'"
  shows "bytes_per_cluster (g_fs s') = bytes_per_cluster (g_fs s)"
    and "free_clusters S (g_fs s') = free_clusters S (g_fs s)"
    and "file_data S (g_fs s') = file_data S (g_fs s)"
    and "valid_cluster (g_fs s') = valid_cluster (g_fs s)"
    and "cluster_data S (g_fs s') = cluster_data S (g_fs s)"
    and "fat_copy S (g_fs s') = fat_copy S (g_fs s)"
    and "num_fats (g_fs s') = num_fats (g_fs s)"
proof -
  obtain i where "g_fs s' = (g_fs s)\<lparr>fs_fsinfo := i\<rparr>" using keeps_fs[OF assms] by blast
  then show "bytes_per_cluster (g_fs s') = bytes_per_cluster (g_fs s)"
    "free_clusters S (g_fs s') = free_clusters S (g_fs s)" "file_data S (g_fs s') = file_data S (g_fs s)"
    "valid_cluster (g_fs s') = valid_cluster (g_fs s)" "cluster_data S (g_fs s') = cluster_data S (g_fs s)"
    "fat_copy S (g_fs s') = fat_copy S (g_fs s)" "num_fats (g_fs s') = num_fats (g_fs s)" by simp_all
qed

lemma keeps_trans:
  assumes "keeps s A s'" and "keeps s' B s''"
  shows "keeps s (A \<union> B) s''"
  using assms by (auto simp: keeps_def)

lemma keeps_mono: "keeps s A s' \<Longrightarrow> A \<subseteq> B \<Longrightarrow> keeps s B s'"
  by (auto simp: keeps_def)

lemma keeps_entry: "keeps s A s' \<Longrightarrow> ready s \<Longrightarrow> valid_cluster (g_fs s) x \<Longrightarrow> x \<notin> A \<Longrightarrow>
  fat_entry (on_disk s') (g_fs s) x = fat_entry (on_disk s) (g_fs s) x"
  using num_fats_pos by (auto simp: keeps_def)

lemma keeps_io:
  assumes "ready s" and "io_to s (on_disk s) buf s'"
  shows "keeps s A s'" and "same_data s s'"
  using io_to_ready[OF assms(2,1)] io_toD(1,3)[OF assms(2)]
  by (auto simp: keeps_def same_data_def intro!: exI[of _ "fs_fsinfo (g_fs s)"])

lemma keeps_write_fat:
  assumes "ready s" and "valid_cluster (g_fs s) c" and "io_to s (fat_update (on_disk s) (g_fs s) c v) buf s'"
  shows "keeps s {c} s'" and "same_data s s'"
    and "fat_entry (on_disk s') (g_fs s) c = v AND 0x0FFFFFFF"
proof -
  note g = ready_geometry[OF assms(1)] and f = io_toD[OF assms(3)]
  have u: "fat_copy (on_disk s') (g_fs s) k x = (if x = c then v AND 0x0FFFFFFF else fat_copy (on_disk s) (g_fs s) k x)"
    if "valid_cluster (g_fs s) x" "k < unat (num_fats (g_fs s))" for k x
    unfolding f(1) using fat_copy_update[where S = "on_disk s", OF g assms(2) that ready_sector_length[OF assms(1)]] .
  show "same_data s s'" using cluster_data_fat_update[OF g assms(2)] by (simp add: same_data_def f(1))
  show "fat_entry (on_disk s') (g_fs s) c = v AND 0x0FFFFFFF"
    using u[OF assms(2) num_fats_pos[OF assms(1)]] by simp
  show "keeps s {c} s'"
    using u io_to_ready[OF assms(3,1)] f(3) cluster_data_fat_update[OF g assms(2)]
    by (auto simp: keeps_def f(1) intro!: exI[of _ "fs_fsinfo (g_fs s)"])
qed

lemma alloc_keeps:
  assumes r: "ready s" and free: "free_clusters (on_disk s) (g_fs s) \<noteq> {}"
  obtains d s' where "fat32_alloc_cluster D s = (d, s')" "d \<in> free_clusters (on_disk s) (g_fs s)"
    "keeps s {d} s'" "same_data s s'" "fat_entry (on_disk s') (g_fs s) d = FAT32_EOC_MAX"
    "cluster_buffer s' = cluster_buffer s"
proof -
  obtain d s' where a: "fat32_alloc_cluster D s = (d, s')" by fastforce
  from alloc_cluster_ok[OF r] a free obtain s1 where
    d: "valid_cluster (g_fs s) d" "fat_entry (on_disk s) (g_fs s) d = 0" and
    s1: "io_to s (fat_update (on_disk s) (g_fs s) d FAT32_EOC_MAX) (cluster_buffer s) s1"
    "s' = set_next_free (d + 1) s1"
    by (auto simp: alloc_result_def free_clusters_def split: if_splits)
  note k = keeps_write_fat[OF r d(1) s1(1)]
  have ds: "disk s' = disk s1" by (simp add: s1(2) set_next_free_def)
  have "ready s'" using set_next_free_ready[OF io_to_ready[OF s1(1) r]] s1(2) by simp
  moreover have "\<exists>i. g_fs s' = (g_fs s)\<lparr>fs_fsinfo := i\<rparr>"
    using io_toD(3)[OF s1(1)] by (auto simp: s1(2) set_next_free_def)
  ultimately have "keeps s {d} s'" using k(1) by (simp add: keeps_def ds)
  moreover have "same_data s s'" using k(2) by (simp add: same_data_def ds)
  moreover have "fat_entry (on_disk s') (g_fs s) d = FAT32_EOC_MAX" using k(3) by (simp add: ds)
  moreover have "cluster_buffer s' = cluster_buffer s"
    using io_toD(2)[OF s1(1)] by (simp add: s1(2) set_next_free_def)
  ultimately show ?thesis using that[OF a] d by (simp add: free_clusters_def)
qed

lemma keeps_free:
  assumes "keeps s A s'" and "ready s" and "A \<inter> free_clusters (on_disk s') (g_fs s) = {}"
  shows "free_clusters (on_disk s') (g_fs s) = free_clusters (on_disk s) (g_fs s) - A"
proof -
  have e: "fat_entry (on_disk s') (g_fs s) x = fat_entry (on_disk s) (g_fs s) x"
    if "valid_cluster (g_fs s) x" "x \<notin> A" for x
    using assms(1,2) that by (rule keeps_entry)
  have "x \<in> free_clusters (on_disk s') (g_fs s) \<longleftrightarrow> x \<in> free_clusters (on_disk s) (g_fs s) - A" for x
    using assms(3) e[of x] by (cases "x \<in> A") (auto simp: free_clusters_def)
  then show ?thesis by blast
qed

text \<open>The step from the last cluster of a chain to a new one.\<close>

lemma next_or_alloc_new:
  assumes r: "ready s" and ch: "chain_at s (xs @ [c])" and free: "free_clusters (on_disk s) (g_fs s) \<noteq> {}"
  obtains d s' where "next_or_alloc D c s = (Some d, s')" "d \<in> free_clusters (on_disk s) (g_fs s)"
    "keeps s {c, d} s'" "same_data s s'" "chain_at s' (xs @ [c, d])"
    "free_clusters (on_disk s') (g_fs s) = free_clusters (on_disk s) (g_fs s) - {d}"
proof -
  let ?fs = "g_fs s"
  have g: "geometry_ok cap ?fs" using r by (rule ready_geometry)
  have c: "valid_cluster ?fs c" using is_chain_valid[OF ch] by simp
  have eoc: "fat_entry (on_disk s) ?fs c \<ge> FAT32_EOC_MIN" using is_chain_suffix[OF ch] by simp
  obtain s1 where s1: "fat32_read_fat D c s = (fat_entry (on_disk s) ?fs c, s1)"
    "io_to s (on_disk s) (cluster_buffer s) s1" using r c by (rule read_fat_ok)
  note f1 = io_toD[OF s1(2)] and k1 = keeps_io[OF r s1(2)] and r1 = io_to_ready[OF s1(2) r]
  obtain d s2 where s2: "fat32_alloc_cluster D s1 = (d, s2)" "d \<in> free_clusters (on_disk s) ?fs"
    "keeps s1 {d} s2" "same_data s1 s2" "fat_entry (on_disk s2) ?fs d = FAT32_EOC_MAX"
    using alloc_keeps[OF r1] free f1(1,3) by metis
  have d: "valid_cluster ?fs d" "d \<noteq> 0" "d \<notin> set (xs @ [c])"
    using s2(2) valid_not_eoc(3)[OF g, of d] is_chain_nonfree[OF g ch] by (auto simp: free_clusters_def)
  obtain i2 where fs2: "g_fs s2 = ?fs\<lparr>fs_fsinfo := i2\<rparr>" using keeps_fs[OF s2(3)] f1(3) by auto
  have r2: "ready s2" using s2(3) by (simp add: keeps_def)
  have c2: "valid_cluster (g_fs s2) c" using c by (simp add: fs2)
  obtain s3 where s3: "fat32_write_fat D c d s2 = (0, s3)"
    "io_to s2 (fat_update (on_disk s2) (g_fs s2) c d) (cluster_buffer s2) s3" using r2 c2 by (rule write_fat_ok)
  note k3 = keeps_write_fat[OF r2 c2 s3(2)]
  have k: "keeps s {c, d} s3"
    using keeps_mono[OF keeps_trans[OF keeps_trans[OF k1(1)[of "{}"] s2(3)] k3(1)], of "{c, d}"] by auto
  have dm: "d AND 0x0FFFFFFF = d" using d(1) g by (rule valid_mask)
  have ec: "fat_entry (on_disk s3) ?fs c = d" using k3(3) dm by (simp add: fs2)
  have ed: "fat_entry (on_disk s3) ?fs d = FAT32_EOC_MAX"
    using keeps_entry[OF k3(1) r2, of d] d s2(5) by (simp add: fs2)
  have "chain_at s3 (xs @ [c, d])"
  proof -
    have "fat_entry (on_disk s3) ?fs x = fat_entry (on_disk s) ?fs x" if "x \<in> set xs" for x
      using keeps_entry[OF k r, of x] that is_chain_valid[OF ch, of x] is_chain_distinct[OF g ch] d(3) by auto
    then show ?thesis
      using is_chain_append[OF ch is_chain_distinct[OF g ch] d(3,1), of "fat_entry (on_disk s3) ?fs"] ec ed
        keeps_fs[OF k] by auto
  qed
  moreover have "free_clusters (on_disk s3) ?fs = free_clusters (on_disk s) ?fs - {d}"
    using keeps_free[OF k r] ec ed d(2) is_chain_nonfree[OF g ch, of c] by (auto simp: free_clusters_def)
  moreover have "same_data s s3" using k1(2) s2(4) k3(2) f1(3) fs2 by (simp add: same_data_def)
  moreover have "next_or_alloc D c s = (Some d, s3)"
    using s1(1) s2(1) s3(1) eoc d(2) by (simp add: next_or_alloc_def)
  ultimately show ?thesis using that s2(2) k by blast
qed

text \<open>The step to the next cluster, existing or new; \<open>es\<close> are the clusters it added.\<close>

lemma next_or_alloc_ok:
  assumes r: "ready s" and ch: "chain_at s (xs @ c # ys)"
    and room: "ys \<noteq> [] \<or> free_clusters (on_disk s) (g_fs s) \<noteq> {}"
  obtains d ds es s' where "next_or_alloc D c s = (Some d, s')" "ys @ es = d # ds"
    "set es \<subseteq> free_clusters (on_disk s) (g_fs s)" "length es = (if ys = [] then 1 else 0)"
    "keeps s (set (c # ys @ es)) s'" "same_data s s'" "chain_at s' (xs @ c # ys @ es)"
    "free_clusters (on_disk s') (g_fs s) = free_clusters (on_disk s) (g_fs s) - set es"
proof (cases "ys = []")
  case True
  then have "chain_at s (xs @ [c])" "free_clusters (on_disk s) (g_fs s) \<noteq> {}" using ch room by simp_all
  then obtain d s' where n: "next_or_alloc D c s = (Some d, s')" "d \<in> free_clusters (on_disk s) (g_fs s)"
    "keeps s {c, d} s'" "same_data s s'" "chain_at s' (xs @ [c, d])"
    "free_clusters (on_disk s') (g_fs s) = free_clusters (on_disk s) (g_fs s) - {d}"
    using r by (metis next_or_alloc_new)
  show ?thesis by (rule that[OF n(1), of "[d]" "[]"]) (use n True in auto)
next
  case False
  have ch1: "chain_at s (c # ys)" using is_chain_suffix[OF ch] by simp
  note st = is_chain_step[OF ch1 False]
  have g: "geometry_ok cap (g_fs s)" and v: "valid_cluster (g_fs s) c"
    using ready_geometry[OF r] is_chain_valid[OF ch1] by auto
  obtain s' where s': "fat32_read_fat D c s = (hd ys, s')" "io_to s (on_disk s) (cluster_buffer s) s'"
    using read_fat_ok[OF r v] st by metis
  have "\<not> FAT32_EOC_MIN \<le> hd ys" using is_chain_end_iff[OF g ch1] False st by simp
  then have n: "next_or_alloc D c s = (Some (hd ys), s')" using s'(1) by (simp add: next_or_alloc_def)
  show ?thesis
    by (rule that[OF n, of "[]" "tl ys"])
      (use False keeps_io[OF r s'(2)] ch io_toD(1,3)[OF s'(2)] in auto)
qed

lemma same_data_trans:
  "same_data s s' \<Longrightarrow> keeps s A s' \<Longrightarrow> same_data s' s'' \<Longrightarrow> same_data s s''"
  by (auto simp: same_data_def keeps_def)

lemma write_skip_ok:
  assumes "ready s" and "chain_at s (xs @ c # ys)"
    and "n \<le> length ys + card (free_clusters (on_disk s) (g_fs s))"
  shows "\<exists>s' ds. write_skip D n c s = (Some ((c # ys @ ds) ! n), s') \<and> chain_at s' (xs @ c # ys @ ds) \<and>
    set ds \<subseteq> free_clusters (on_disk s) (g_fs s) \<and> length ds = n - length ys \<and>
    keeps s (set (c # ys @ ds)) s' \<and> same_data s s' \<and>
    free_clusters (on_disk s') (g_fs s) = free_clusters (on_disk s) (g_fs s) - set ds"
  using assms
proof (induction n arbitrary: xs c ys s)
  case 0
  have "keeps s (set (c # ys)) s" "same_data s s"
    using keeps_io[OF 0(1) io_to_refl[OF 0(1)]] by auto
  then show ?case using 0 by (intro exI[of _ s] exI[of _ "[]"]) simp
next
  case (Suc n)
  let ?fs = "g_fs s" and ?S = "on_disk s"
  have g: "geometry_ok cap ?fs" using Suc.prems(1) by (rule ready_geometry)
  have v: "valid_cluster ?fs c" using is_chain_valid[OF Suc.prems(2)] by simp
  have room: "ys \<noteq> [] \<or> free_clusters ?S ?fs \<noteq> {}" using Suc.prems(3) by fastforce
  obtain d zs es s1 where st: "next_or_alloc D c s = (Some d, s1)" "ys @ es = d # zs"
    "set es \<subseteq> free_clusters ?S ?fs" "length es = (if ys = [] then 1 else 0)"
    "keeps s (set (c # ys @ es)) s1" "same_data s s1" "chain_at s1 (xs @ c # ys @ es)"
    "free_clusters (on_disk s1) ?fs = free_clusters ?S ?fs - set es"
    using Suc.prems(1,2) room by (rule next_or_alloc_ok)
  have r1: "ready s1" using st(5) by (simp add: keeps_def)
  have ch1: "chain_at s1 ((xs @ [c]) @ d # zs)" using st(7) st(2) by simp
  have fr: "free_clusters (on_disk s1) (g_fs s1) = free_clusters ?S ?fs - set es"
    using st(8) keeps_views(2)[OF st(5)] by simp
  have card: "card (free_clusters ?S ?fs) = card (free_clusters ?S ?fs - set es) + length es"
    using st(3,4) by (intro card_diff_short) auto
  have "length ys + length es = Suc (length zs)" using arg_cong[OF st(2), of length] by simp
  then have "n \<le> length zs + card (free_clusters (on_disk s1) (g_fs s1))"
    using Suc.prems(3) card fr by simp
  from Suc.IH[OF r1 ch1 this] obtain s' ds where
    s': "write_skip D n d s1 = (Some ((d # zs @ ds) ! n), s')" "chain_at s' ((xs @ [c]) @ d # zs @ ds)"
    "set ds \<subseteq> free_clusters (on_disk s1) (g_fs s1)" "length ds = n - length zs"
    "keeps s1 (set (d # zs @ ds)) s'" "same_data s1 s'"
    "free_clusters (on_disk s') (g_fs s1) = free_clusters (on_disk s1) (g_fs s1) - set ds" by blast
  have eq: "ys @ es @ ds = d # zs @ ds" using st(2) by (metis append_Cons append_assoc)
  have "write_skip D (Suc n) c s = (Some ((c # ys @ es @ ds) ! Suc n), s')"
    using st(1) s'(1) valid_not_eoc(2)[OF g v] by (simp add: eq)
  moreover have "keeps s (set (c # ys @ es @ ds)) s'"
    by (rule keeps_mono[OF keeps_trans[OF st(5) s'(5)]]) (use arg_cong[OF st(2), of set] in auto)
  moreover have "length (es @ ds) = Suc n - length ys"
    using s'(4) st(4) \<open>length ys + length es = Suc (length zs)\<close> by (auto split: if_splits)
  moreover have "same_data s s'" using st(6,5) s'(6) by (rule same_data_trans)
  moreover have "free_clusters (on_disk s') ?fs = free_clusters ?S ?fs - set (es @ ds)"
    using s'(7) fr keeps_views(2)[OF st(5)] by auto
  moreover have "set (es @ ds) \<subseteq> free_clusters ?S ?fs" using st(3) s'(3) fr by auto
  moreover have "chain_at s' (xs @ c # ys @ es @ ds)" using s'(2) by (simp add: eq)
  ultimately show ?case by blast
qed

section \<open>The write loop\<close>

lemma write_loop_stop: "fat32_write_loop D c off 0 k f buf s = Some (k, f, s)"
  by (subst fat32_write_loop.simps) simp

text \<open>One iteration, up to the test for a next cluster.\<close>

lemma write_step:
  assumes r: "ready s" and v: "valid_cluster (g_fs s) c" and off: "off < bytes_per_cluster (g_fs s)"
    and sz: "0 < sz" and m: "m = min (bytes_per_cluster (g_fs s) - off) sz"
    and fit: "unat k + unat m \<le> length buf"
  obtains s1 where "g_fs s1 = g_fs s" "keeps s {c} s1"
    "\<And>x. valid_cluster (g_fs s) x \<Longrightarrow> fat_entry (on_disk s1) (g_fs s) x = fat_entry (on_disk s) (g_fs s) x"
    "cluster_data (on_disk s1) (g_fs s) c =
      put_at (cluster_data (on_disk s) (g_fs s) c) (unat off) (take (unat m) (drop (unat k) buf))"
    "fat32_write_loop D c off sz k f buf s =
      (if 0 < sz - m then
        (let (next, s2) = next_or_alloc D c s1 in
         case next of
           None \<Rightarrow> Some (k + m, advance f m, s2)
         | Some d \<Rightarrow> fat32_write_loop D d 0 (sz - m) (k + m) (advance f m) buf s2)
       else fat32_write_loop D c 0 (sz - m) (k + m) (advance f m) buf s1)"
proof -
  let ?fs = "g_fs s" and ?S = "on_disk s" and ?bpc = "bytes_per_cluster (g_fs s)"
  let ?data = "cluster_data ?S ?fs c" and ?new = "take (unat m) (drop (unat k) buf)"
  have g: "geometry_ok cap ?fs" using r by (rule ready_geometry)
  have len: "length ?data = unat ?bpc" using r by (rule length_cluster_ready)
  have "unat off < unat ?bpc" using off by (simp add: word_less_nat_alt)
  then have om: "unat off + unat m \<le> unat ?bpc"
    using off by (simp add: m unat_min unat_sub word_le_nat_alt less_imp_le_nat)
  have full: "unat off = 0 \<and> unat m = unat ?bpc" if "\<not> (off > 0 \<or> sz < ?bpc)"
    using that m by (simp add: not_less min_def word_gt_0)
  define act where "act = (if off > 0 \<or> sz < ?bpc then fat32_read_cluster D c s else Some (0, s))"
  obtain s0 where s0: "act = Some (0, s0)" "io_to s ?S (cluster_buffer s0) s0"
    and buf0: "take (unat ?bpc) (put_at (cluster_buffer s0) (unat off) ?new) = put_at ?data (unat off) ?new"
  proof (cases "off > 0 \<or> sz < ?bpc")
    case True
    obtain s0 where "fat32_read_cluster D c s = Some (0, s0)" "io_to s ?S (put_at (cluster_buffer s) 0 ?data) s0"
      using r v by (rule read_cluster_ok)
    then show ?thesis
      using that[of s0] True io_toD(2) len om fit by (simp add: act_def put_at_def)
  next
    case False
    then show ?thesis
      using that[of s] io_to_refl[OF r] full[OF False] len fit by (simp add: act_def put_at_def)
  qed
  note f0 = io_toD[OF s0(2)] and r0 = io_to_ready[OF s0(2) r]
  have b0: "length (cluster_buffer s0) = CLUSTER_BUFFER_SIZE" using r0 by (simp add: fat_ready_def buffers_ok_def)
  let ?buf = "put_at (cluster_buffer s0) (unat off) ?new"
  have room: "unat off + length ?new \<le> length (cluster_buffer s0)"
    using om fit bpc_facts(2)[OF r] b0 r by (simp add: fat_ready_def buffers_ok_def)
  have st: "store (cluster_buffer s0) (unat off) ?new = Some ?buf" using room by (rule store_put_at)
  have lb: "length ?buf = CLUSTER_BUFFER_SIZE" using length_put_at[OF room] b0 by simp
  have r0': "ready (s0\<lparr>cluster_buffer := ?buf\<rparr>)" using r0 lb by (simp add: fat_ready_def buffers_ok_def)
  have "valid_cluster (g_fs (s0\<lparr>cluster_buffer := ?buf\<rparr>)) c" using v f0(3) by simp
  with r0' obtain s1 where s1: "fat32_write_cluster D c (s0\<lparr>cluster_buffer := ?buf\<rparr>) = Some (0, s1)"
    "io_to (s0\<lparr>cluster_buffer := ?buf\<rparr>) (cluster_store ?S ?fs c ?buf) ?buf s1"
    using write_cluster_ok[of "s0\<lparr>cluster_buffer := ?buf\<rparr>" c] f0(1,3) by auto
  note f1 = io_toD[OF s1(2)]
  have fs1: "g_fs s1 = ?fs" using f1(3) f0(3) by simp
  have cd: "cluster_data (on_disk s1) ?fs x = (if x = c then put_at ?data (unat off) ?new else cluster_data ?S ?fs x)"
    if "valid_cluster ?fs x" for x
    unfolding f1(1) using cluster_data_store[OF g v that lb, of ?S] buf0 by simp
  have fe: "fat_copy (on_disk s1) ?fs j x = fat_copy ?S ?fs j x"
    if "valid_cluster ?fs x" "j < unat (num_fats ?fs)" for j x
    unfolding f1(1) by (rule fat_copy_cluster_store[OF g v that])
  have "keeps s {c} s1"
    using cd fe io_to_ready[OF s1(2) r0'] fs1
    by (auto simp: keeps_def intro!: exI[of _ "fs_fsinfo ?fs"])
  moreover have "fat32_write_loop D c off sz k f buf s =
      (if 0 < sz - m then
        (let (next, s2) = next_or_alloc D c s1 in
         case next of
           None \<Rightarrow> Some (k + m, advance f m, s2)
         | Some d \<Rightarrow> fat32_write_loop D d 0 (sz - m) (k + m) (advance f m) buf s2)
       else fat32_write_loop D c 0 (sz - m) (k + m) (advance f m) buf s1)"
    using sz valid_not_eoc(2)[OF g v] s0(1) st s1(1) f0(3) fit
    unfolding act_def
    by (subst fat32_write_loop.simps) (simp add: m [symmetric] load_def Let_def)
  ultimately show ?thesis using that[of s1] fs1 cd[OF v] fe num_fats_pos[OF r] by simp
qed

text \<open>The last iteration, when the rest of the data ends in this cluster.\<close>

lemma write_loop_last:
  assumes r: "ready s" and ch: "chain_at s (xs @ c # ys)" and off: "off < bytes_per_cluster (g_fs s)"
    and sz: "0 < sz" and le: "unat off + unat sz \<le> unat (bytes_per_cluster (g_fs s))"
    and fit: "unat k + unat sz \<le> length buf"
  shows "\<exists>s'. fat32_write_loop D c off sz k f buf s = Some (k + sz, advance f sz, s') \<and>
    chain_at s' (xs @ c # ys) \<and> keeps s (set (c # ys)) s' \<and>
    file_data (on_disk s') (g_fs s) (c # ys) =
      put_at (file_data (on_disk s) (g_fs s) (c # ys)) (unat off) (take (unat sz) (drop (unat k) buf))"
proof -
  let ?fs = "g_fs s"
  have g: "geometry_ok cap ?fs" using r by (rule ready_geometry)
  have v: "valid_cluster ?fs c" using is_chain_valid[OF ch] by simp
  have m: "sz = min (bytes_per_cluster ?fs - off) sz"
    using off le by (simp add: word_unat_eq_iff unat_min unat_sub)
  obtain s1 where s1: "g_fs s1 = ?fs" "keeps s {c} s1"
    "\<And>x. valid_cluster ?fs x \<Longrightarrow> fat_entry (on_disk s1) ?fs x = fat_entry (on_disk s) ?fs x"
    "cluster_data (on_disk s1) ?fs c =
      put_at (cluster_data (on_disk s) ?fs c) (unat off) (take (unat sz) (drop (unat k) buf))"
    "fat32_write_loop D c off sz k f buf s = Some (k + sz, advance f sz, s1)"
    using r v off sz m fit by (rule write_step[where f = f]) (simp add: write_loop_stop)
  have "chain_at s1 (xs @ c # ys)"
    using ch s1(1,3) is_chain_valid[OF ch] by (subst is_chain_cong[of _ _ "fat_entry (on_disk s) ?fs"]) auto
  moreover have "file_data (on_disk s1) ?fs ys = file_data (on_disk s) ?fs ys"
    using s1(2) is_chain_distinct[OF g ch] is_chain_valid[OF ch] by (intro file_data_cong) (auto simp: keeps_def)
  then have "file_data (on_disk s1) ?fs (c # ys) =
      put_at (file_data (on_disk s) ?fs (c # ys)) (unat off) (take (unat sz) (drop (unat k) buf))"
    using s1(4) le fit length_cluster_ready[OF r, of c]
    by (simp add: file_data_def put_at_append_left)
  ultimately show ?thesis using s1(5) keeps_mono[OF s1(2), of "set (c # ys)"] by auto
qed

text \<open>An iteration that fills the cluster and goes on to the next.\<close>

lemma write_loop_more:
  assumes r: "ready s" and ch: "chain_at s (xs @ c # ys)" and off: "off < bytes_per_cluster (g_fs s)"
    and m: "m = bytes_per_cluster (g_fs s) - off" and more: "m < sz"
    and fit: "unat k + unat m \<le> length buf"
    and room: "ys \<noteq> [] \<or> free_clusters (on_disk s) (g_fs s) \<noteq> {}"
  obtains d zs es s2 where
    "fat32_write_loop D c off sz k f buf s = fat32_write_loop D d 0 (sz - m) (k + m) (advance f m) buf s2"
    "ys @ es = d # zs" "set es \<subseteq> free_clusters (on_disk s) (g_fs s)" "length es = (if ys = [] then 1 else 0)"
    "keeps s (set (c # ys @ es)) s2" "chain_at s2 (xs @ c # ys @ es)"
    "free_clusters (on_disk s2) (g_fs s) = free_clusters (on_disk s) (g_fs s) - set es"
    "\<And>x. valid_cluster (g_fs s) x \<Longrightarrow> cluster_data (on_disk s2) (g_fs s) x =
      (if x = c then put_at (cluster_data (on_disk s) (g_fs s) c) (unat off) (take (unat m) (drop (unat k) buf))
       else cluster_data (on_disk s) (g_fs s) x)"
proof -
  let ?fs = "g_fs s" and ?S = "on_disk s"
  have v: "valid_cluster ?fs c" using is_chain_valid[OF ch] by simp
  have mn: "m = min (bytes_per_cluster ?fs - off) sz" using more by (simp add: m min_absorb1)
  have sz: "0 < sz" "0 < sz - m" using more by (simp_all add: word_less_nat_alt unat_sub word_le_nat_alt)
  obtain s1 where s1: "g_fs s1 = ?fs" "keeps s {c} s1"
    "\<And>x. valid_cluster ?fs x \<Longrightarrow> fat_entry (on_disk s1) ?fs x = fat_entry ?S ?fs x"
    "cluster_data (on_disk s1) ?fs c = put_at (cluster_data ?S ?fs c) (unat off) (take (unat m) (drop (unat k) buf))"
    "fat32_write_loop D c off sz k f buf s =
      (let (next, s2) = next_or_alloc D c s1 in
       case next of
         None \<Rightarrow> Some (k + m, advance f m, s2)
       | Some d \<Rightarrow> fat32_write_loop D d 0 (sz - m) (k + m) (advance f m) buf s2)"
    using r v off sz(1) mn fit by (rule write_step[where f = f]) (simp add: sz(2))
  have r1: "ready s1" using s1(2) by (simp add: keeps_def)
  have ch1: "chain_at s1 (xs @ c # ys)"
    using ch s1(1,3) is_chain_valid[OF ch] by (subst is_chain_cong[of _ _ "fat_entry ?S ?fs"]) auto
  have fr1: "free_clusters (on_disk s1) (g_fs s1) = free_clusters ?S ?fs"
    using s1(1,3) by (auto simp: free_clusters_def)
  obtain d zs es s2 where n: "next_or_alloc D c s1 = (Some d, s2)" "ys @ es = d # zs"
    "set es \<subseteq> free_clusters (on_disk s1) (g_fs s1)" "length es = (if ys = [] then 1 else 0)"
    "keeps s1 (set (c # ys @ es)) s2" "same_data s1 s2" "chain_at s2 (xs @ c # ys @ es)"
    "free_clusters (on_disk s2) (g_fs s1) = free_clusters (on_disk s1) (g_fs s1) - set es"
    using r1 ch1 room[folded fr1] by (rule next_or_alloc_ok)
  show ?thesis
  proof (rule that[OF _ n(2) _ n(4) _ n(7)])
    show "fat32_write_loop D c off sz k f buf s = fat32_write_loop D d 0 (sz - m) (k + m) (advance f m) buf s2"
      using s1(5) n(1) by simp
    show "keeps s (set (c # ys @ es)) s2" by (rule keeps_mono[OF keeps_trans[OF s1(2) n(5)]]) auto
  next
    fix x assume "valid_cluster ?fs x"
    then show "cluster_data (on_disk s2) ?fs x =
        (if x = c then put_at (cluster_data ?S ?fs c) (unat off) (take (unat m) (drop (unat k) buf))
         else cluster_data ?S ?fs x)"
      using n(6) s1(1,2,4) by (auto simp: same_data_def keeps_def)
  qed (use n(3,8) fr1 s1(1) in auto)
qed

lemma write_data_glue:
  assumes r: "ready s" and k1: "keeps s A s2" and k2: "keeps s2 (set cs) s'" and ch: "chain_at s' (xs @ c # cs)"
    and one: "\<And>x. valid_cluster (g_fs s) x \<Longrightarrow> cluster_data (on_disk s2) (g_fs s) x =
      (if x = c then put_at (cluster_data (on_disk s) (g_fs s) c) off (take m (drop k buf))
       else cluster_data (on_disk s) (g_fs s) x)"
    and rest: "file_data (on_disk s') (g_fs s) cs =
      put_at (file_data (on_disk s2) (g_fs s) cs) 0 (take (n - m) (drop (k + m) buf))"
    and m: "off + m = unat (bytes_per_cluster (g_fs s))" and le: "m \<le> n" "k + m \<le> length buf"
  shows "file_data (on_disk s') (g_fs s) (c # cs) =
    put_at (file_data (on_disk s) (g_fs s) (c # cs)) off (take n (drop k buf))"
proof -
  let ?fs = "g_fs s" and ?A = "cluster_data (on_disk s) (g_fs s) c"
  have fs: "valid_cluster (g_fs s2) = valid_cluster ?fs" "valid_cluster (g_fs s') = valid_cluster ?fs"
    "cluster_data S (g_fs s2) = cluster_data S ?fs" for S
    using keeps_views(4,5)[OF k1] keeps_views(4)[OF k2] by simp_all
  have ready': "geometry_ok cap (g_fs s')" using k2 by (auto simp: keeps_def fat_ready_def)
  have v: "valid_cluster ?fs x" if "x \<in> set (c # cs)" for x
    using is_chain_valid[OF ch, of x] that fs(2) by auto
  have nin: "c \<notin> set cs" using is_chain_distinct[OF ready' ch] by simp
  have "cluster_data (on_disk s') ?fs c = cluster_data (on_disk s2) ?fs c"
    using k2 nin v[of c] fs(1,3) by (auto simp: keeps_def)
  also have "\<dots> = put_at ?A off (take m (drop k buf))" using one[of c] v by simp
  finally have hd: "cluster_data (on_disk s') ?fs c = put_at ?A off (take m (drop k buf))" .
  have "file_data (on_disk s2) ?fs cs = file_data (on_disk s) ?fs cs"
    using one v nin by (intro file_data_cong) auto
  then have tl: "file_data (on_disk s') ?fs cs =
      put_at (file_data (on_disk s) ?fs cs) 0 (take (n - m) (drop (k + m) buf))" using rest by simp
  have "take n (drop k buf) = take m (drop k buf) @ take (n - m) (drop (k + m) buf)"
    using le(1) take_add[of m "n - m" "drop k buf"] by (simp add: add.commute)
  moreover have "off + length (take m (drop k buf)) = length ?A"
    using m le(2) length_cluster_ready[OF r, of c] by simp
  ultimately show ?thesis
    using hd tl put_at_split[of off "take m (drop k buf)" ?A] by (simp add: file_data_def)
qed

lemma write_loop_ok:
  assumes "ready s" and "chain_at s (xs @ c # ys)" and "off < bytes_per_cluster (g_fs s)"
    and "unat off + unat sz \<le>
      (1 + length ys + card (free_clusters (on_disk s) (g_fs s))) * unat (bytes_per_cluster (g_fs s))"
    and "unat k + unat sz \<le> length buf" and "unat k + unat sz < 4294967296"
    and "unat (f_position f) + unat sz < 4294967296" and "0 < sz"
  shows "\<exists>s' ds. fat32_write_loop D c off sz k f buf s = Some (k + sz, advance f sz, s') \<and>
    chain_at s' (xs @ c # ys @ ds) \<and> set ds \<subseteq> free_clusters (on_disk s) (g_fs s) \<and>
    keeps s (set (c # ys @ ds)) s' \<and>
    file_data (on_disk s') (g_fs s) (c # ys @ ds) =
      put_at (file_data (on_disk s) (g_fs s) (c # ys @ ds)) (unat off) (take (unat sz) (drop (unat k) buf))"
  using assms
proof (induction "unat sz" arbitrary: xs c ys off sz k f s rule: less_induct)
  case less
  note r = less.prems(1) and ch = less.prems(2)
  let ?fs = "g_fs s" and ?S = "on_disk s" and ?bpc = "bytes_per_cluster (g_fs s)"
  have off: "unat off < unat ?bpc" using less.prems(3) by (simp add: word_less_nat_alt)
  show ?case
  proof (cases "unat off + unat sz \<le> unat ?bpc")
    case True
    from write_loop_last[OF r ch less.prems(3,8) True less.prems(5), of f] obtain s' where
      "fat32_write_loop D c off sz k f buf s = Some (k + sz, advance f sz, s')"
      "chain_at s' (xs @ c # ys)" "keeps s (set (c # ys)) s'"
      "file_data (on_disk s') ?fs (c # ys) =
        put_at (file_data ?S ?fs (c # ys)) (unat off) (take (unat sz) (drop (unat k) buf))" by blast
    then show ?thesis by (intro exI[of _ s'] exI[of _ "[]"]) simp
  next
    case False
    define m where "m = ?bpc - off"
    have m: "unat m = unat ?bpc - unat off" using off by (simp add: m_def unat_sub word_le_nat_alt)
    have lt: "unat m < unat sz" "unat m \<le> unat sz" "0 < unat m" using False m off by linarith+
    have sz: "unat (sz - m) = unat sz - unat m" "0 < sz - m" "m < sz"
      using lt by (simp_all add: word_less_nat_alt unat_sub word_le_nat_alt)
    have fit: "unat k + unat m \<le> length buf" using less.prems(5) lt by linarith
    have k: "unat (k + m) = unat k + unat m" using less.prems(6) lt by (simp add: unat_word_ariths)
    let ?free = "free_clusters ?S ?fs"
    have "1 < 1 + length ys + card ?free"
    proof (rule ccontr)
      assume "\<not> 1 < 1 + length ys + card ?free"
      then have "(1 + length ys + card ?free) * unat ?bpc \<le> 1 * unat ?bpc" by (intro mult_le_mono1) simp
      with less.prems(4) have "unat off + unat sz \<le> 1 * unat ?bpc" by (rule le_trans)
      with False show False by simp
    qed
    then have room: "ys \<noteq> [] \<or> ?free \<noteq> {}" by auto
    obtain d zs es s2 where st:
      "fat32_write_loop D c off sz k f buf s = fat32_write_loop D d 0 (sz - m) (k + m) (advance f m) buf s2"
      "ys @ es = d # zs" "set es \<subseteq> ?free" "length es = (if ys = [] then 1 else 0)"
      "keeps s (set (c # ys @ es)) s2" "chain_at s2 (xs @ c # ys @ es)"
      "free_clusters (on_disk s2) ?fs = ?free - set es"
      "\<And>x. valid_cluster ?fs x \<Longrightarrow> cluster_data (on_disk s2) ?fs x =
        (if x = c then put_at (cluster_data ?S ?fs c) (unat off) (take (unat m) (drop (unat k) buf))
         else cluster_data ?S ?fs x)"
      using r ch less.prems(3) m_def sz(3) fit room by (rule write_loop_more[where f = f]) (rule that)
    have len: "length ys + length es = Suc (length zs)" using arg_cong[OF st(2), of length] by simp
    have fs2: "bytes_per_cluster (g_fs s2) = ?bpc"
      "free_clusters (on_disk s2) (g_fs s2) = ?free - set es" "file_data S (g_fs s2) = file_data S ?fs" for S
      using keeps_views[OF st(5)] st(7) by simp_all
    have "card ?free = card (?free - set es) + length es"
      using st(3,4) by (intro card_diff_short) auto
    then have "1 + length zs + card (free_clusters (on_disk s2) (g_fs s2)) = length ys + card ?free"
      using len fs2(2) by simp
    then have b2: "unat (0 :: u32) + unat (sz - m) \<le>
        (1 + length zs + card (free_clusters (on_disk s2) (g_fs s2))) * unat (bytes_per_cluster (g_fs s2))"
      using less.prems(4) sz(1) m off fs2(1) by (simp add: algebra_simps)
    have pos: "unat (f_position (advance f m)) = unat (f_position f) + unat m"
      using less.prems(7) lt by (simp add: advance_def Let_def unat_word_ariths)
    have r2: "ready s2" using st(5) by (simp add: keeps_def)
    have ch2: "chain_at s2 ((xs @ [c]) @ d # zs)" using st(2,6) by simp
    have "unat (sz - m) < unat sz" "0 < bytes_per_cluster (g_fs s2)"
      using sz(1) lt off fs2(1) by (simp_all add: word_less_nat_alt)
    from less.hyps[OF this(1) r2 ch2 this(2) b2, of "k + m" "advance f m"] obtain s' ds where
      s': "fat32_write_loop D d 0 (sz - m) (k + m) (advance f m) buf s2 = Some (k + sz, advance f sz, s')"
      "chain_at s' (xs @ c # d # zs @ ds)" "set ds \<subseteq> ?free - set es" "keeps s2 (set (d # zs @ ds)) s'"
      "file_data (on_disk s') ?fs (d # zs @ ds) =
        put_at (file_data (on_disk s2) ?fs (d # zs @ ds)) 0 (take (unat sz - unat m) (drop (unat k + unat m) buf))"
      using less.prems(5-7) pos k sz lt advance_advance[of f m "sz - m"] by (auto simp: fs2(2,3))
    have eq: "ys @ es @ ds = d # zs @ ds" using st(2) by (metis append_Cons append_assoc)
    have "file_data (on_disk s') ?fs (c # d # zs @ ds) =
        put_at (file_data ?S ?fs (c # d # zs @ ds)) (unat off) (take (unat sz) (drop (unat k) buf))"
      using write_data_glue[OF r st(5) s'(4) s'(2) st(8) s'(5)]
        lt(2) m off fit by simp
    moreover have "keeps s (set (c # ys @ es @ ds)) s'"
      by (rule keeps_mono[OF keeps_trans[OF st(5) s'(4)]]) (use arg_cong[OF st(2), of set] in auto)
    ultimately show ?thesis
      using s'(1-3) st(1,3) by (intro exI[of _ s'] exI[of _ "es @ ds"]) (auto simp: eq)
  qed
qed

section \<open>The whole operation\<close>

lemma write_prefix_glue:
  assumes r: "ready s" and k1: "keeps s A s1" and same: "same_data s s1" and k2: "keeps s1 (set cs) s2"
    and ch: "chain_at s2 (xs @ cs)" and len: "length xs = q"
    and rest: "file_data (on_disk s2) (g_fs s) cs = put_at (file_data (on_disk s1) (g_fs s) cs) off new"
  shows "file_data (on_disk s2) (g_fs s) (xs @ cs) =
    put_at (file_data (on_disk s) (g_fs s) (xs @ cs)) (q * unat (bytes_per_cluster (g_fs s)) + off) new"
proof -
  let ?fs = "g_fs s"
  have "geometry_ok cap (g_fs s2)" using k2 by (auto simp: keeps_def fat_ready_def)
  then have dis: "set xs \<inter> set cs = {}" using is_chain_distinct[OF _ ch] by auto
  have v: "valid_cluster ?fs x" if "x \<in> set (xs @ cs)" for x
    using is_chain_valid[OF ch that] keeps_views(4)[OF k1] keeps_views(4)[OF k2] by simp
  have one: "file_data (on_disk s1) ?fs ys = file_data (on_disk s) ?fs ys" if "set ys \<subseteq> set (xs @ cs)" for ys
    using same v that by (intro file_data_cong) (auto simp: same_data_def)
  have "file_data (on_disk s2) ?fs xs = file_data (on_disk s1) ?fs xs"
    using k2 v dis keeps_views(4,5)[OF k1] by (intro file_data_cong) (auto simp: keeps_def)
  moreover have "length (file_data (on_disk s) ?fs xs) = q * unat (bytes_per_cluster ?fs)"
    using length_file_data[where S = "on_disk s", OF ready_sector_length[OF r] ready_geometry[OF r]] len by simp
  ultimately show ?thesis
    using rest one[of xs] one[of cs] by (simp add: file_data_def put_at_def)
qed

lemma write_ok_chain:
  assumes r: "ready s" and ch: "chain_at s cs" and hd: "f_first_cluster f = hd cs"
    and op: "f_is_open f \<noteq> 0" and sz: "0 < sz" and buf: "unat sz \<le> length buf"
    and wrap: "unat (f_position f) + unat sz < 4294967296"
    and room: "unat (f_position f) + unat sz \<le>
      (length cs + card (free_clusters (on_disk s) (g_fs s))) * unat (bytes_per_cluster (g_fs s))"
  shows "\<exists>s' ds c. fat32_write D f (Some buf) sz s = Some (sint sz, advance (f\<lparr>f_current_cluster := c\<rparr>) sz, s') \<and>
    chain_at s' (cs @ ds) \<and> set ds \<subseteq> free_clusters (on_disk s) (g_fs s) \<and> keeps s (set (cs @ ds)) s' \<and>
    file_data (on_disk s') (g_fs s) (cs @ ds) =
      put_at (file_data (on_disk s) (g_fs s) (cs @ ds)) (unat (f_position f)) (take (unat sz) buf)"
proof -
  let ?fs = "g_fs s" and ?S = "on_disk s" and ?p = "f_position f" and ?bpc = "bytes_per_cluster (g_fs s)"
  let ?free = "free_clusters ?S ?fs" and ?q = "unat (f_position f div bytes_per_cluster (g_fs s))"
  have g: "geometry_ok cap ?fs" using r by (rule ready_geometry)
  have b0: "0 < unat ?bpc" "?bpc \<noteq> 0" using bpc_facts[OF r] by auto
  obtain c0 cs0 where cs: "cs = c0 # cs0" using ch by (cases cs) auto
  have c0: "c0 \<noteq> 0" using valid_not_eoc(3)[OF g] is_chain_valid[OF ch, of c0] cs by simp
  have q: "?q = unat ?p div unat ?bpc" by (rule unat_div)
  have "unat ?p < (length cs + card ?free) * unat ?bpc" using room sz by (simp add: word_less_nat_alt)
  then have ql: "?q < length cs + card ?free" unfolding q using b0 by (simp add: div_less_iff_less_mult)
  have "?q \<le> length cs0 + card ?free" using ql by (simp add: cs)
  from write_skip_ok[of s "[]" c0 cs0, OF r _ this] ch cs obtain s1 ds1 where
    s1: "write_skip D ?q c0 s = (Some ((cs @ ds1) ! ?q), s1)" "chain_at s1 (cs @ ds1)" "set ds1 \<subseteq> ?free"
    "length ds1 = ?q - length cs0" "keeps s (set (cs @ ds1)) s1" "same_data s s1"
    "free_clusters (on_disk s1) ?fs = ?free - set ds1" by auto
  define L where "L = cs @ ds1"
  have qL: "?q < length L" using s1(4) by (simp add: L_def cs)
  have split: "L = take ?q L @ L ! ?q # drop (Suc ?q) L" using qL by (simp add: id_take_nth_drop)
  have r1: "ready s1" using s1(5) by (simp add: keeps_def)
  have fs1: "bytes_per_cluster (g_fs s1) = ?bpc" "free_clusters (on_disk s1) (g_fs s1) = ?free - set ds1"
    "file_data S (g_fs s1) = file_data S ?fs" for S using keeps_views[OF s1(5)] s1(7) by simp_all
  have ch1: "chain_at s1 (take ?q L @ L ! ?q # drop (Suc ?q) L)" using s1(2) split by (simp add: L_def)
  have "distinct ds1" using is_chain_distinct[OF ready_geometry[OF r1] s1(2)] by simp
  then have cf: "card ?free = card (?free - set ds1) + length ds1"
    using card_Diff_subset[OF _ s1(3)] card_mono[OF _ s1(3)] distinct_card[of ds1] by simp
  have off: "?p mod ?bpc < bytes_per_cluster (g_fs s1)" using b0 fs1(1) by (simp add: word_less_nat_alt unat_mod)
  have pq: "?q * unat ?bpc + unat (?p mod ?bpc) = unat ?p" unfolding q unat_mod by simp
  have cnt: "1 + length (drop (Suc ?q) L) + card (free_clusters (on_disk s1) (g_fs s1)) =
      length cs + card ?free - ?q"
    using qL cf fs1(2) by (simp add: L_def)
  have b1: "unat (?p mod ?bpc) + unat sz \<le> (1 + length (drop (Suc ?q) L) +
      card (free_clusters (on_disk s1) (g_fs s1))) * unat (bytes_per_cluster (g_fs s1))"
    unfolding cnt fs1(1) using room pq by (simp add: diff_mult_distrib)
  let ?f = "f\<lparr>f_current_cluster := L ! ?q\<rparr>"
  from write_loop_ok[OF r1 ch1 off b1, of 0 buf ?f] buf wrap sz obtain s2 ds2 where
    s2: "fat32_write_loop D (L ! ?q) (?p mod ?bpc) sz 0 ?f buf s1 = Some (sz, advance ?f sz, s2)"
    "chain_at s2 (take ?q L @ L ! ?q # drop (Suc ?q) L @ ds2)" "set ds2 \<subseteq> ?free - set ds1"
    "keeps s1 (set (L ! ?q # drop (Suc ?q) L @ ds2)) s2"
    "file_data (on_disk s2) ?fs (L ! ?q # drop (Suc ?q) L @ ds2) =
      put_at (file_data (on_disk s1) ?fs (L ! ?q # drop (Suc ?q) L @ ds2)) (unat (?p mod ?bpc)) (take (unat sz) buf)"
    using fs1(2,3) unat_u32[of sz] by auto
  have eq: "take ?q L @ L ! ?q # drop (Suc ?q) L @ ds2 = L @ ds2"
    using split by (metis append_Cons append_assoc)
  have "file_data (on_disk s2) ?fs (L @ ds2) =
      put_at (file_data ?S ?fs (L @ ds2)) (unat ?p) (take (unat sz) buf)"
    using write_prefix_glue[OF r s1(5,6) s2(4,2) _ s2(5), of ?q] pq qL unfolding eq by simp
  moreover have "keeps s (set (L @ ds2)) s2"
    by (rule keeps_mono[OF keeps_trans[OF s1(5) s2(4)]])
      (use arg_cong[OF eq, of set] in \<open>auto simp: L_def\<close>)
  moreover have "fat32_write D f (Some buf) sz s = Some (sint sz, advance ?f sz, s2)"
    using op hd cs c0 b0(2) s1(1) s2(1) by (simp add: fat32_write_def Let_def L_def)
  moreover have "chain_at s2 (L @ ds2)" using s2(2) unfolding eq .
  ultimately show ?thesis
    using s2(3) s1(3) unfolding L_def
    by (intro exI[of _ s2] exI[of _ "ds1 @ ds2"] exI[of _ "(cs @ ds1) ! ?q"]) auto
qed

text \<open>A file that shares no cluster with the one written keeps its chain and its contents.\<close>

lemma keeps_other_file:
  assumes r: "ready s" and k: "keeps s (set (cs @ ds)) s'" and ds: "set ds \<subseteq> free_clusters (on_disk s) (g_fs s)"
    and bs: "chain_at s bs" and dis: "set bs \<inter> set cs = {}"
  shows "chain_at s' bs" and "file_data (on_disk s') (g_fs s) bs = file_data (on_disk s) (g_fs s) bs"
proof -
  have out: "valid_cluster (g_fs s) x" "x \<notin> set (cs @ ds)" if "x \<in> set bs" for x
    using is_chain_valid[OF bs that] is_chain_nonfree[OF ready_geometry[OF r] bs that] ds dis that by auto
  have "is_chain (fat_entry (on_disk s') (g_fs s)) (g_fs s) bs"
    using keeps_entry[OF k r] out bs by (subst is_chain_cong[of _ _ "fat_entry (on_disk s) (g_fs s)"]) auto
  then show "chain_at s' bs" using keeps_fs[OF k] by auto
  show "file_data (on_disk s') (g_fs s) bs = file_data (on_disk s) (g_fs s) bs"
    using k out by (intro file_data_cong) (auto simp: keeps_def)
qed

lemma write_covers:
  assumes r: "ready s" and k: "keeps s A s'" and new: "0 < length new"
    and d: "file_data (on_disk s') (g_fs s) cs = put_at (file_data (on_disk s) (g_fs s) cs) p new"
  shows "p + length new \<le> length cs * unat (bytes_per_cluster (g_fs s))"
proof -
  have r': "ready s'" using k by (simp add: keeps_def)
  have len: "length (file_data (on_disk t) (g_fs s) cs) = length cs * unat (bytes_per_cluster (g_fs s))"
    if "ready t" for t
    using length_file_data[where S = "on_disk t", OF ready_sector_length[OF that] ready_geometry[OF r]] .
  have "length (put_at (file_data (on_disk s) (g_fs s) cs) p new) = length (file_data (on_disk s) (g_fs s) cs)"
    using arg_cong[OF d, of length] len[OF r] len[OF r'] by simp
  then show ?thesis using len[OF r] new by (auto simp: put_at_def min_def split: if_splits)
qed

lemma write_read_back:
  assumes r: "ready s" and ch: "chain_at s cs" and hd: "f_first_cluster f = hd cs"
    and op: "f_is_open f \<noteq> 0" and sz: "0 < sz" and buf: "unat sz \<le> length buf" "unat sz \<le> length out"
    and wrap: "unat (f_position f) + unat sz < 4294967296"
    and fits: "unat (f_file_size f) \<le> length cs * unat (bytes_per_cluster (g_fs s))"
    and room: "unat (f_position f) + unat sz \<le>
      (length cs + card (free_clusters (on_disk s) (g_fs s))) * unat (bytes_per_cluster (g_fs s))"
  shows "\<exists>f' s' f'' s''. fat32_write D f (Some buf) sz s = Some (sint sz, f', s') \<and>
    fat32_read D (snd (fat32_seek f' (f_position f) 0)) (Some out) sz s' =
      Some (sint sz, f'', Some (put_at out 0 (take (unat sz) buf)), s'')"
proof -
  from write_ok_chain[OF r ch hd op sz buf(1) wrap room] obtain s' ds c where
    w: "fat32_write D f (Some buf) sz s = Some (sint sz, advance (f\<lparr>f_current_cluster := c\<rparr>) sz, s')"
    "chain_at s' (cs @ ds)" "keeps s (set (cs @ ds)) s'"
    "file_data (on_disk s') (g_fs s) (cs @ ds) =
      put_at (file_data (on_disk s) (g_fs s) (cs @ ds)) (unat (f_position f)) (take (unat sz) buf)" by blast
  let ?f' = "advance (f\<lparr>f_current_cluster := c\<rparr>) sz"
  let ?g = "?f'\<lparr>f_position := f_position f\<rparr>"
  have r': "ready s'" using w(3) by (simp add: keeps_def)
  have lt: "length (take (unat sz) buf) = unat sz" "0 < unat sz" using buf(1) sz by (simp_all add: word_less_nat_alt)
  then have cov: "unat (f_position f) + unat sz \<le> length (cs @ ds) * unat (bytes_per_cluster (g_fs s))"
    using write_covers[OF r w(3) _ w(4)] by simp
  have ps: "unat (f_position f + sz) = unat (f_position f) + unat sz" using wrap by (simp add: unat_word_ariths)
  have fsz: "unat (f_file_size ?f') = max (unat (f_file_size f)) (unat (f_position f) + unat sz)"
    using ps by (simp add: advance_def Let_def word_less_nat_alt)
  have "unat (f_file_size f) \<le> length (cs @ ds) * unat (bytes_per_cluster (g_fs s))"
    using fits by (simp add: add_mult_distrib)
  then have fit: "unat (f_file_size ?g) \<le> length (cs @ ds) * unat (bytes_per_cluster (g_fs s'))"
    using fsz cov keeps_views(1)[OF w(3)] by simp
  have gf: "f_first_cluster ?g = hd (cs @ ds)" "f_is_open ?g \<noteq> 0" "f_position ?g = f_position f"
    using hd op ch by (auto simp: advance_def Let_def hd_append)
  have n: "unat sz = min (unat sz) (unat (f_file_size ?g) - unat (f_position ?g))" using fsz by simp
  have "unat (f_position ?g) + unat sz < 4294967296" using wrap by simp
  from read_ok_chain[OF r' w(2) gf(1) fit gf(2) this n buf(2)] obtain s'' f'' where
    rd: "fat32_read D ?g (Some out) sz s' = Some (sint sz, f'',
      Some (put_at out 0 (take (unat sz) (drop (unat (f_position f)) (file_data (on_disk s') (g_fs s) (cs @ ds))))), s'')"
    by (auto simp: keeps_views(3)[OF w(3)])
  have "length (file_data (on_disk s) (g_fs s) (cs @ ds)) = length (cs @ ds) * unat (bytes_per_cluster (g_fs s))"
    using length_file_data[where S = "on_disk s", OF ready_sector_length[OF r] ready_geometry[OF r]] .
  then have "take (unat sz) (drop (unat (f_position f)) (file_data (on_disk s') (g_fs s) (cs @ ds))) = take (unat sz) buf"
    unfolding w(4) using cov lt(1) by (simp add: put_at_def)
  moreover have "snd (fat32_seek ?f' (f_position f) 0) = ?g"
    using gf(2) by (simp add: fat32_seek_def)
  ultimately show ?thesis using w(1) rd by auto
qed

end

section \<open>A volume with one file\<close>

text \<open>The small volume with cluster 3 as a file of its own, and a handle to that file.\<close>

definition one_file_volume :: "ata_dev fat_state" where
  "one_file_volume = small_volume\<lparr>disk := blank_drive\<lparr>a_disk :=
     (\<lambda>l. if l = 32 \<or> l = 33 then put_at (replicate 512 0) 12 (le32 FAT32_EOC_MAX) else replicate 512 0)\<rparr>\<rparr>"

definition one_file :: fat32_file where
  "one_file = blank_file\<lparr>f_first_cluster := 3, f_current_cluster := 3, f_file_size := 100, f_is_open := 1,
     f_position := 10\<rparr>"

lemma one_file_volume_ready: "fat_ready pio.hw_online 0x10000000 one_file_volume"
  using small_volume_ready
  by (auto simp: fat_ready_def one_file_volume_def pio.hw_online_def ata_ready_def blank_drive_def
      buffers_ok_def length_put_at)

lemma one_file_chain:
  "is_chain (fat_entry (pio.hw_sectors (disk one_file_volume)) small_fs) small_fs [3]"
  using get32_put_at[of 12 "replicate 512 0" 12 FAT32_EOC_MAX]
  by (simp add: valid_cluster_def small_fs_def fat_copy_def fat_lba_def one_file_volume_def pio.hw_sectors_def)

lemma one_file_volume_fs: "g_fs one_file_volume = small_fs"
  by (simp add: one_file_volume_def small_volume_def)

section \<open>Properties\<close>

text \<open>\<open>fat32_read\<close> on an open file whose chain covers its size returns exactly the bytes of the file
  from its position, as many as asked for and available, stores them at the start of the buffer,
  moves the position past them and changes nothing on the disk.\<close>

theorem fat32_read_correct:
  assumes "block_device D sectors online cap" and "fat_ready online cap s"
    and "is_chain (fat_entry (sectors (disk s)) (g_fs s)) (g_fs s) cs" and "f_first_cluster f = hd cs"
    and "unat (f_file_size f) \<le> length cs * unat (bytes_per_cluster (g_fs s))"
    and "f_is_open f \<noteq> 0" and "unat (f_position f) + unat sz < 4294967296"
    and "n = min (unat sz) (unat (f_file_size f) - unat (f_position f))" and "n \<le> length buf"
  shows "\<exists>s' f'. fat32_read D f (Some buf) sz s = Some (sint (of_nat n :: u32), f',
      Some (put_at buf 0 (take n (drop (unat (f_position f)) (file_data (sectors (disk s)) (g_fs s) cs)))), s') \<and>
    unat (f_position f') = unat (f_position f) + n \<and> f_file_size f' = f_file_size f \<and>
    sectors (disk s') = sectors (disk s) \<and> fat_ready online cap s'"
proof -
  from block_device.read_ok_chain[OF assms] obtain s' f' where
    r: "fat32_read D f (Some buf) sz s = Some (sint (of_nat n :: u32), f',
      Some (put_at buf 0 (take n (drop (unat (f_position f)) (file_data (sectors (disk s)) (g_fs s) cs)))), s')"
    "unat (f_position f') = unat (f_position f) + n"
    "f' = f\<lparr>f_position := f_position f', f_current_cluster := f_current_cluster f'\<rparr>"
    "block_device.io_to sectors online s (sectors (disk s)) (cluster_buffer s') s'" by blast
  have "f_file_size f' = f_file_size f" using arg_cong[OF r(3), of f_file_size] by simp
  then show ?thesis
    using r(1,2) block_device.io_toD(1)[OF assms(1) r(4)] block_device.io_to_ready[OF assms(1) r(4) assms(2)]
    by blast
qed

theorem fat32_read_correct_witness:
  "\<exists>s' f'. fat32_read (ata_disk pio_drive) one_file (Some (replicate 256 1)) 200 one_file_volume =
      Some (90, f', Some (replicate 90 0 @ replicate 166 1), s') \<and> f_position f' = 100"
proof -
  have h: "unat (f_file_size one_file) \<le> length [3 :: u32] * unat (bytes_per_cluster (g_fs one_file_volume))"
    "f_is_open one_file \<noteq> 0" "f_first_cluster one_file = hd [3]"
    "unat (f_position one_file) + unat (200 :: u32) < 4294967296"
    "90 = min (unat (200 :: u32)) (unat (f_file_size one_file) - unat (f_position one_file))"
    "90 \<le> length (replicate 256 (1 :: u8))"
    by (simp_all add: one_file_def one_file_volume_fs small_fs_def)
  have d: "cluster_data (pio.hw_sectors (disk one_file_volume)) small_fs 3 = replicate 512 0"
    by (simp add: cluster_data_def small_fs_def cluster_lba_def one_file_volume_def pio.hw_sectors_def)
  note c = one_file_chain[folded one_file_volume_fs]
  from fat32_read_correct[OF pio.blk.block_device_axioms one_file_volume_ready c h(3,1,2,4,5,6)]
  obtain s' f' where "fat32_read (ata_disk pio_drive) one_file (Some (replicate 256 1)) 200 one_file_volume =
      Some (sint (of_nat 90 :: u32), f', Some (put_at (replicate 256 1) 0 (take 90 (drop (unat (f_position one_file))
        (file_data (pio.hw_sectors (disk one_file_volume)) (g_fs one_file_volume) [3])))), s')"
    "unat (f_position f') = unat (f_position one_file) + 90" by blast
  moreover from this(2) have "f_position f' = 100" by (simp add: word_unat_eq_iff one_file_def)
  ultimately show ?thesis
    by (auto simp: one_file_volume_fs file_data_def d one_file_def put_at_def)
qed

text \<open>C2. \<open>fat32_write\<close> on an open file, when chain and free clusters suffice: it writes all bytes at the
  position, overwriting what was there, extends the chain only by free clusters, moves the position
  and raises the size as needed, and every other file of the volume keeps its chain and contents.\<close>

theorem fat32_write_correct:
  assumes "block_device D sectors online cap" and "fat_ready online cap s"
    and "is_chain (fat_entry (sectors (disk s)) (g_fs s)) (g_fs s) cs" and "f_first_cluster f = hd cs"
    and "f_is_open f \<noteq> 0" and "0 < sz" and "unat sz \<le> length buf"
    and "unat (f_position f) + unat sz < 4294967296"
    and "unat (f_position f) + unat sz \<le>
      (length cs + card (free_clusters (sectors (disk s)) (g_fs s))) * unat (bytes_per_cluster (g_fs s))"
  shows "\<exists>s' f' ds. fat32_write D f (Some buf) sz s = Some (sint sz, f', s') \<and> fat_ready online cap s' \<and>
    is_chain (fat_entry (sectors (disk s')) (g_fs s')) (g_fs s') (cs @ ds) \<and>
    set ds \<subseteq> free_clusters (sectors (disk s)) (g_fs s) \<and>
    file_data (sectors (disk s')) (g_fs s') (cs @ ds) =
      put_at (file_data (sectors (disk s)) (g_fs s) (cs @ ds)) (unat (f_position f)) (take (unat sz) buf) \<and>
    f_position f' = f_position f + sz \<and> f_file_size f' = max (f_file_size f) (f_position f + sz) \<and>
    (\<forall>bs. is_chain (fat_entry (sectors (disk s)) (g_fs s)) (g_fs s) bs \<and> set bs \<inter> set cs = {} \<longrightarrow>
      is_chain (fat_entry (sectors (disk s')) (g_fs s')) (g_fs s') bs \<and>
      file_data (sectors (disk s')) (g_fs s') bs = file_data (sectors (disk s)) (g_fs s) bs)"
proof -
  from block_device.write_ok_chain[OF assms] obtain s' ds c where
    w: "fat32_write D f (Some buf) sz s = Some (sint sz, advance (f\<lparr>f_current_cluster := c\<rparr>) sz, s')"
    "is_chain (fat_entry (sectors (disk s')) (g_fs s')) (g_fs s') (cs @ ds)"
    "set ds \<subseteq> free_clusters (sectors (disk s)) (g_fs s)"
    "block_device.keeps sectors online cap s (set (cs @ ds)) s'"
    "file_data (sectors (disk s')) (g_fs s) (cs @ ds) =
      put_at (file_data (sectors (disk s)) (g_fs s) (cs @ ds)) (unat (f_position f)) (take (unat sz) buf)" by blast
  note other = block_device.keeps_other_file[OF assms(1,2) w(4,3)]
    and view = block_device.keeps_views(3)[OF assms(1) w(4)]
  have "fat_ready online cap s'" using w(4) by (simp add: block_device.keeps_def[OF assms(1)])
  moreover have "f_file_size (advance (f\<lparr>f_current_cluster := c\<rparr>) sz) = max (f_file_size f) (f_position f + sz)"
    "f_position (advance (f\<lparr>f_current_cluster := c\<rparr>) sz) = f_position f + sz"
    by (auto simp: advance_def Let_def max_def not_le)
  ultimately show ?thesis using w other by (auto simp: view)
qed

theorem fat32_write_correct_witness:
  "\<exists>s' f' ds. fat32_write (ata_disk pio_drive) one_file (Some [1, 2, 3]) 3 one_file_volume = Some (3, f', s') \<and>
    file_data (pio.hw_sectors (disk s')) (g_fs s') ([3] @ ds) =
      put_at (file_data (pio.hw_sectors (disk one_file_volume)) small_fs ([3] @ ds)) 10 [1, 2, 3]"
proof -
  have h: "f_first_cluster one_file = hd [3]" "f_is_open one_file \<noteq> 0" "0 < (3 :: u32)"
    "unat (3 :: u32) \<le> length [1, 2, 3 :: u8]" "unat (f_position one_file) + unat (3 :: u32) < 4294967296"
    "unat (f_position one_file) + unat (3 :: u32) \<le> (length [3 :: u32] +
      card (free_clusters (pio.hw_sectors (disk one_file_volume)) (g_fs one_file_volume))) *
      unat (bytes_per_cluster (g_fs one_file_volume))"
    by (simp_all add: one_file_def one_file_volume_fs small_fs_def)
  note c = one_file_chain[folded one_file_volume_fs]
  from fat32_write_correct[OF pio.blk.block_device_axioms one_file_volume_ready c h] obtain s' f' ds where
    w: "fat32_write (ata_disk pio_drive) one_file (Some [1, 2, 3]) 3 one_file_volume = Some (sint (3 :: u32), f', s')"
    "file_data (pio.hw_sectors (disk s')) (g_fs s') ([3] @ ds) =
      put_at (file_data (pio.hw_sectors (disk one_file_volume)) (g_fs one_file_volume) ([3] @ ds))
        (unat (f_position one_file)) (take (unat (3 :: u32)) [1, 2, 3])" by blast
  have "unat (f_position one_file) = 10" "take (unat (3 :: u32)) [1, 2, 3 :: u8] = [1, 2, 3]" "sint (3 :: u32) = 3"
    by (simp_all add: one_file_def)
  with w show ?thesis unfolding one_file_volume_fs by metis
qed

text \<open>C1. Reading back what was written: after a successful \<open>fat32_write\<close>, seeking back to the position
  and reading as many bytes returns the bytes written, across cluster boundaries and newly
  allocated clusters.\<close>

theorem fat32_write_read_roundtrip:
  assumes "block_device D sectors online cap" and "fat_ready online cap s"
    and "is_chain (fat_entry (sectors (disk s)) (g_fs s)) (g_fs s) cs" and "f_first_cluster f = hd cs"
    and "f_is_open f \<noteq> 0" and "0 < sz" and "unat sz \<le> length buf" and "unat sz \<le> length out"
    and "unat (f_position f) + unat sz < 4294967296"
    and "unat (f_file_size f) \<le> length cs * unat (bytes_per_cluster (g_fs s))"
    and "unat (f_position f) + unat sz \<le>
      (length cs + card (free_clusters (sectors (disk s)) (g_fs s))) * unat (bytes_per_cluster (g_fs s))"
  shows "\<exists>f' s' f'' s''. fat32_write D f (Some buf) sz s = Some (sint sz, f', s') \<and>
    fat32_read D (snd (fat32_seek f' (f_position f) 0)) (Some out) sz s' =
      Some (sint sz, f'', Some (put_at out 0 (take (unat sz) buf)), s'')"
  using assms by (rule block_device.write_read_back)

theorem fat32_write_read_roundtrip_witness:
  "\<exists>f' s' f'' s''. fat32_write (ata_disk pio_drive) one_file (Some [1, 2, 3]) 3 one_file_volume = Some (3, f', s') \<and>
    fat32_read (ata_disk pio_drive) (snd (fat32_seek f' 10 0)) (Some [9, 9, 9]) 3 s' = Some (3, f'', Some [1, 2, 3], s'')"
proof -
  have h: "f_first_cluster one_file = hd [3]" "f_is_open one_file \<noteq> 0" "0 < (3 :: u32)"
    "unat (3 :: u32) \<le> length [1, 2, 3 :: u8]" "unat (3 :: u32) \<le> length [9, 9, 9 :: u8]"
    "unat (f_position one_file) + unat (3 :: u32) < 4294967296"
    "unat (f_file_size one_file) \<le> length [3 :: u32] * unat (bytes_per_cluster (g_fs one_file_volume))"
    "unat (f_position one_file) + unat (3 :: u32) \<le> (length [3 :: u32] +
      card (free_clusters (pio.hw_sectors (disk one_file_volume)) (g_fs one_file_volume))) *
      unat (bytes_per_cluster (g_fs one_file_volume))"
    by (simp_all add: one_file_def one_file_volume_fs small_fs_def)
  note c = one_file_chain[folded one_file_volume_fs]
  from fat32_write_read_roundtrip[OF pio.blk.block_device_axioms one_file_volume_ready c h] show ?thesis
    by (simp add: one_file_def put_at_def)
qed

end
