(* ===== verification/Fat32_Lookup.thy ===== *)
theory Fat32_Lookup
  imports Fat32_Extend
begin

text \<open>
  Directories as finite maps from short names to entries.  The bytes of a directory chain are
  cut into 32-byte slots; searching and creating entries on the disk are shown to be a lookup
  and an insertion on that list of slots, and these to be lookup and update of a map.
\<close>

section \<open>Slots\<close>

definition slots :: "bytes \<Rightarrow> bytes list" where
  "slots bs = map (\<lambda>i. take 32 (drop (i * 32) bs)) [0..<length bs div 32]"

definition live :: "bytes \<Rightarrow> bool" where
  "live e \<longleftrightarrow> e ! 0 \<noteq> 0x00 \<and> e ! 0 \<noteq> 0xE5 \<and> e ! 11 \<noteq> FAT32_ATTR_LFN"

fun scan_slots :: "bytes \<Rightarrow> nat \<Rightarrow> bytes list \<Rightarrow> dir_scan" where
  "scan_slots sn i [] = ScanNext"
| "scan_slots sn i (e # es) =
     (if e ! 0 = 0x00 then ScanEnd
      else if live e \<and> take 11 e = sn then ScanHit i
      else scan_slots sn (Suc i) es)"

text \<open>The directory as a map from short names to slots: the search stops at the first slot that
  starts with a zero byte.\<close>

fun slot_get :: "bytes \<Rightarrow> bytes list \<Rightarrow> bytes option" where
  "slot_get sn [] = None"
| "slot_get sn (e # es) =
     (if e ! 0 = 0x00 then None
      else if live e \<and> take 11 e = sn then Some e
      else slot_get sn es)"

definition slot_free :: "bytes \<Rightarrow> bool" where
  "slot_free e \<longleftrightarrow> e ! 0 = 0x00 \<or> e ! 0 = 0xE5"

text \<open>Insertion takes the first free slot.\<close>

fun slot_put :: "bytes \<Rightarrow> bytes list \<Rightarrow> bytes list" where
  "slot_put new [] = []"
| "slot_put new (e # es) = (if slot_free e then new # es else e # slot_put new es)"

text \<open>Nothing but unused slots after the end mark.\<close>

fun zero_tail :: "bytes list \<Rightarrow> bool" where
  "zero_tail [] \<longleftrightarrow> True"
| "zero_tail (e # es) \<longleftrightarrow> (e ! 0 = 0x00 \<longrightarrow> list_all (\<lambda>x. x ! 0 = 0x00) es) \<and> zero_tail es"

lemma slot_get_zeros: "list_all (\<lambda>x. x ! 0 = 0x00) es \<Longrightarrow> slot_get sn es = None"
  by (cases es) auto

lemma slot_put_get:
  assumes "live new" and "take 11 new = sn" and "list_ex slot_free L" and "zero_tail L"
    and "slot_get sn L = None"
  shows "slot_get sn' (slot_put new L) = (if sn' = sn then Some new else slot_get sn' L)"
  using assms(3-5)
proof (induction L)
  case (Cons e L)
  then show ?case
    using assms(1,2) by (auto simp: slot_free_def live_def slot_get_zeros split: if_splits)
qed simp

lemma zero_tail_zeros: "list_all (\<lambda>x. x ! 0 = 0x00) es \<Longrightarrow> zero_tail es"
  by (induction es) auto

lemma slot_put_zero_tail:
  assumes "live new" and "zero_tail L"
  shows "zero_tail (slot_put new L)"
  using assms(2)
proof (induction L)
  case (Cons e L)
  then show ?case using assms(1) by (auto simp: slot_free_def live_def)
qed simp

lemma slot_get_append:
  "list_all (\<lambda>x. x ! 0 \<noteq> 0x00) xs \<Longrightarrow>
   slot_get sn (xs @ ys) = (case slot_get sn xs of None \<Rightarrow> slot_get sn ys | Some e \<Rightarrow> Some e)"
  by (induction xs) auto

lemma scan_slots_append:
  "scan_slots sn i (xs @ ys) =
     (case scan_slots sn i xs of ScanNext \<Rightarrow> scan_slots sn (i + length xs) ys | r \<Rightarrow> r)"
  by (induction xs arbitrary: i) (auto split: dir_scan.splits)

lemma scan_slots_get:
  "slot_get sn L = (case scan_slots sn i L of ScanHit j \<Rightarrow> Some (L ! (j - i)) | _ \<Rightarrow> None) \<and>
   (\<forall>j. scan_slots sn i L = ScanHit j \<longrightarrow> i \<le> j \<and> j < i + length L)"
proof (induction L arbitrary: i)
  case (Cons e L)
  show ?case using Cons[of "Suc i"] by (auto split: dir_scan.splits simp: Suc_diff_le nth_Cons')
qed simp

lemma length_slots [simp]: "length (slots bs) = length bs div 32"
  by (simp add: slots_def)

lemma slots_nth: "i < length bs div 32 \<Longrightarrow> slots bs ! i = take 32 (drop (i * 32) bs)"
  by (simp add: slots_def)

lemma slots_append:
  assumes "length a = n * 32"
  shows "slots (a @ b) = slots a @ slots b"
proof (rule nth_equalityI)
  show l: "length (slots (a @ b)) = length (slots a @ slots b)" using assms by simp
  fix i assume "i < length (slots (a @ b))"
  then have i: "i < n + length b div 32" using assms by simp
  show "slots (a @ b) ! i = (slots a @ slots b) ! i"
  proof (cases "i < n")
    case True
    then have "i * 32 + 32 \<le> length a" using assms by simp
    then show ?thesis using True assms i by (simp add: slots_nth nth_append)
  next
    case False
    then have "i * 32 = length a + (i - n) * 32" using assms by (simp add: diff_mult_distrib)
    then show ?thesis using False assms i by (simp add: slots_nth nth_append)
  qed
qed

lemma slots_put_at:
  assumes "length bs = n * 32" and "i < n" and "length e = 32"
  shows "slots (put_at bs (i * 32) e) = (slots bs)[i := e]"
proof -
  have le: "i * 32 + 32 \<le> length bs" using assms(1,2) by simp
  have bs: "bs = take (i * 32) bs @ take 32 (drop (i * 32) bs) @ drop (i * 32 + 32) bs"
    by (metis append_take_drop_id add.commute drop_drop)
  have l: "length (take (i * 32) bs) = i * 32" using le by simp
  have one: "slots x = [x]" if "length x = 32" for x using that by (simp add: slots_def)
  have "slots bs = slots (take (i * 32) bs) @ [take 32 (drop (i * 32) bs)] @ slots (drop (i * 32 + 32) bs)"
    using le by (subst bs, subst slots_append[OF l], subst slots_append[of _ 1]) (simp_all add: one)
  moreover have "slots (put_at bs (i * 32) e) = slots (take (i * 32) bs) @ [e] @ slots (drop (i * 32 + 32) bs)"
    unfolding put_at_def using assms(3)
    by (subst slots_append[OF l], subst slots_append[of _ 1]) (simp_all add: one)
  moreover have "length (slots (take (i * 32) bs)) = i" using l by simp
  ultimately show ?thesis by (simp add: list_update_append)
qed

lemma slot_get_scan:
  "slot_get sn (xs @ ys) =
     (case scan_slots sn 0 xs of ScanEnd \<Rightarrow> None | ScanHit i \<Rightarrow> Some (xs ! i) | ScanNext \<Rightarrow> slot_get sn ys)"
proof -
  have "slot_get sn (xs @ ys) =
      (case scan_slots sn i xs of ScanEnd \<Rightarrow> None | ScanHit j \<Rightarrow> Some (xs ! (j - i)) | ScanNext \<Rightarrow> slot_get sn ys)"
    for i
  proof (induction xs arbitrary: i)
    case (Cons e xs)
    show ?case
      using Cons[of "Suc i"] scan_slots_get[of sn xs "Suc i"]
      by (auto split: dir_scan.splits simp: Suc_diff_le nth_Cons')
  qed simp
  from this[of 0] show ?thesis by (simp split: dir_scan.splits)
qed

fun first_free :: "nat \<Rightarrow> bytes list \<Rightarrow> nat option" where
  "first_free i [] = None"
| "first_free i (e # es) = (if slot_free e then Some i else first_free (Suc i) es)"

lemma first_free_put:
  "case first_free i L of
     None \<Rightarrow> \<not> list_ex slot_free L
   | Some j \<Rightarrow> list_ex slot_free L \<and> (\<exists>k < length L. j = i + k \<and> slot_put new L = L[k := new])"
proof (induction L arbitrary: i)
  case (Cons e L)
  show ?case
  proof (cases "slot_free e")
    case False
    show ?thesis
    proof (cases "first_free (Suc i) L")
      case None
      with Cons[of "Suc i"] False show ?thesis by simp
    next
      case (Some j)
      with Cons[of "Suc i"] obtain k where "list_ex slot_free L" "k < length L" "j = Suc i + k"
        "slot_put new L = L[k := new]" by auto
      with Some False show ?thesis by (auto intro!: exI[of _ "Suc k"])
    qed
  qed auto
qed simp

lemma slot_put_append:
  "slot_put new (xs @ ys) = (if list_ex slot_free xs then slot_put new xs @ ys else xs @ slot_put new ys)"
  by (induction xs) auto

lemma free_scan_eq:
  "(i + n) * 32 \<le> length buf \<Longrightarrow>
   free_scan buf n i = Some (first_free i (map (\<lambda>j. take 32 (drop (j * 32) buf)) [i..<i + n]))"
proof (induction n arbitrary: i)
  case (Suc n)
  define e where "e = take 32 (drop (i * 32) buf)"
  have ld: "load buf (i * 32) 32 = Some e" using Suc.prems by (simp add: load_def e_def)
  have upt: "[i..<i + Suc n] = i # [Suc i..<Suc i + n]" by (simp add: upt_conv_Cons)
  have IH: "free_scan buf n (Suc i) =
      Some (first_free (Suc i) (map (\<lambda>j. take 32 (drop (j * 32) buf)) [Suc i..<Suc i + n]))"
    using Suc.IH[of "Suc i"] Suc.prems by simp
  show ?case
    unfolding upt using ld IH by (simp add: slot_free_def e_def [symmetric] del: upt_Suc)
qed simp

lemma slots_zero: "slots (replicate (n * 32) 0) = replicate n (replicate 32 0)"
proof (rule nth_equalityI)
  fix i assume "i < length (slots (replicate (n * 32) 0))"
  then have i: "i < n" by simp
  then have "32 \<le> n * 32 - i * 32" by (simp add: diff_mult_distrib [symmetric])
  with i show "slots (replicate (n * 32) 0) ! i = replicate n (replicate 32 0) ! i"
    by (simp add: slots_nth min_def)
qed simp

lemma no_free_nonzero: "\<not> list_ex slot_free L \<Longrightarrow> list_all (\<lambda>x. x ! 0 \<noteq> 0x00) L"
  by (induction L) (auto simp: slot_free_def)

lemma zero_tail_append:
  "list_all (\<lambda>x. x ! 0 \<noteq> 0x00) xs \<Longrightarrow> zero_tail (xs @ ys) \<longleftrightarrow> zero_tail xs \<and> zero_tail ys"
  by (induction xs) auto

section \<open>Short names\<close>

lemma upcase_nonzero: "c \<noteq> 0 \<Longrightarrow> upcase c \<noteq> 0"
proof
  assume "upcase c = 0" and "c \<noteq> 0"
  then have "0x61 \<le> c" "c - 32 = 0" by (auto simp: upcase_def split: if_splits)
  then show False by simp
qed

lemma last_dot_spec:
  "is_cstr p \<Longrightarrow> \<exists>r. last_dot i dot p = Some r \<and>
     (r = dot \<or> (\<exists>k. r = Some (i + k) \<and> k < length (cstr p)))"
proof (induction p arbitrary: i dot)
  case (Cons c p)
  show ?case
  proof (cases "c = 0")
    case False
    then have p: "is_cstr p" "cstr (c # p) = c # cstr p" using Cons.prems by (auto simp: is_cstr_def cstr_def)
    from Cons.IH[OF p(1), of "Suc i" "if c = 0x2E then Some i else dot"] obtain r where
      r: "last_dot (Suc i) (if c = 0x2E then Some i else dot) p = Some r"
      "r = (if c = 0x2E then Some i else dot) \<or> (\<exists>k. r = Some (Suc i + k) \<and> k < length (cstr p))" by blast
    from r(2) have "r = dot \<or> (\<exists>k. r = Some (i + k) \<and> k < length (cstr (c # p)))"
    proof
      assume "r = (if c = 0x2E then Some i else dot)"
      then show ?thesis using p(2) by (auto split: if_splits intro!: exI[of _ 0])
    next
      assume "\<exists>k. r = Some (Suc i + k) \<and> k < length (cstr p)"
      then show ?thesis using p(2) by (metis Suc_less_eq add_Suc_shift length_Cons)
    qed
    with r(1) False show ?thesis by simp
  qed (simp add: cstr_def)
qed (simp add: is_cstr_def)

lemma cstr_take: "is_cstr s \<Longrightarrow> n \<le> length (cstr s) \<Longrightarrow> take n s = take n (cstr s)"
  using is_cstr_split[of s] by (metis take_append diff_is_0_eq take_0 append_Nil2)

lemma cstr_drop: "is_cstr s \<Longrightarrow> k \<le> length (cstr s) \<Longrightarrow> is_cstr (drop k s) \<and> cstr (drop k s) = drop k (cstr s)"
proof -
  assume s: "is_cstr s" and k: "k \<le> length (cstr s)"
  obtain r where r: "s = cstr s @ 0 # r" using is_cstr_split[OF s] by blast
  have "drop k s = drop k (cstr s) @ 0 # r" using k by (subst r) simp
  moreover have "0 \<notin> set (drop k (cstr s))" using cstr_no_nul[of s] in_set_dropD by fast
  ultimately show ?thesis by (simp add: cstr_append)
qed

lemma short_name_ok:
  assumes "is_cstr name"
  obtains sn where "fat32_to_short_name name = Some sn" "length sn = 11" "0 \<notin> set sn"
proof -
  have pad: "memset (replicate 11 0) 0x20 11 = Some (replicate 11 0x20)" by (simp add: memset_spec)
  have nz: "0 \<notin> set (map upcase (take n (cstr x)))" for n x
  proof
    assume "0 \<in> set (map upcase (take n (cstr x)))"
    then obtain c where "c \<in> set (take n (cstr x))" "upcase c = 0" by auto
    then have "c \<in> set (cstr x)" "c = 0" using upcase_nonzero[of c] by (auto dest: in_set_takeD)
    then show False using cstr_no_nul[of x] by simp
  qed
  obtain r where r: "last_dot 0 None name = Some r" "r = None \<or> (\<exists>k. r = Some k \<and> k < length (cstr name))"
    using last_dot_spec[OF assms, of 0 None] by auto
  show ?thesis
  proof (cases r)
    case None
    let ?x = "map upcase (take (min (length (cstr name)) 8) (cstr name))"
    have "fat32_to_short_name name = store (replicate 11 0x20) 0 ?x"
      using pad r(1) None strlen_cstr[OF assms] cstr_take[OF assms, of "min (length (cstr name)) 8"]
      by (auto simp: fat32_to_short_name_def Let_def split: option.splits)
    moreover have st: "store (replicate 11 0x20) 0 ?x = Some (put_at (replicate 11 0x20) 0 ?x)"
      by (rule store_put_at) simp
    moreover have "0 \<notin> set (put_at (replicate 11 0x20) 0 ?x)"
      using nz by (auto simp: put_at_def dest: in_set_dropD)
    ultimately show ?thesis using that store_length[OF st] by simp
  next
    case (Some k)
    then have k: "k < length (cstr name)" using r(2) by simp
    then have d: "is_cstr (drop (k + 1) name)" using cstr_drop[OF assms, of "k + 1"] by simp
    let ?x = "map upcase (take (min k 8) (cstr name))"
    let ?y = "map upcase (take (min (length (cstr (drop (k + 1) name))) 3) (cstr (drop (k + 1) name)))"
    have st: "store (replicate 11 0x20) 0 ?x = Some (put_at (replicate 11 0x20) 0 ?x)" by (rule store_put_at) simp
    have st2: "store (put_at (replicate 11 0x20) 0 ?x) 8 ?y = Some (put_at (put_at (replicate 11 0x20) 0 ?x) 8 ?y)"
      using store_length[OF st] by (intro store_put_at) simp
    have "fat32_to_short_name name = Some (put_at (put_at (replicate 11 0x20) 0 ?x) 8 ?y)"
      using pad r(1) Some strlen_cstr[OF d] st st2 k cstr_take[OF assms, of "min k 8"]
        cstr_take[OF d, of "min (length (cstr (drop (k + 1) name))) 3"]
      by (simp add: fat32_to_short_name_def Let_def)
    moreover have "0 \<notin> set (put_at (put_at (replicate 11 0x20) 0 ?x) 8 ?y)"
      using nz by (auto simp: put_at_def dest: in_set_dropD in_set_takeD)
    ultimately show ?thesis using that store_length[OF st] store_length[OF st2] by simp
  qed
qed

section \<open>Searching on the disk\<close>

definition dir_slots :: "(u32 \<Rightarrow> bytes) \<Rightarrow> fat32_fs \<Rightarrow> u32 list \<Rightarrow> bytes list" where
  "dir_slots S fs cs = slots (file_data S fs cs)"

text \<open>The search, cluster by cluster.\<close>

fun lookup_chain :: "(u32 \<Rightarrow> bytes) \<Rightarrow> fat32_fs \<Rightarrow> bytes \<Rightarrow> u32 list \<Rightarrow> (fat32_dirent \<times> u32 \<times> u32) option" where
  "lookup_chain S fs sn [] = None"
| "lookup_chain S fs sn (c # cs) =
     (case scan_slots sn 0 (slots (cluster_data S fs c)) of
        ScanEnd \<Rightarrow> None
      | ScanHit i \<Rightarrow> Some (dirent_of_bytes (slots (cluster_data S fs c) ! i), c, of_nat (i * 32))
      | ScanNext \<Rightarrow> lookup_chain S fs sn cs)"

lemma find_scan_eq:
  assumes "length sn = 11"
  shows "(i + n) * 32 \<le> length buf \<Longrightarrow>
    find_scan buf sn n i = Some (scan_slots sn i (map (\<lambda>j. take 32 (drop (j * 32) buf)) [i..<i + n]))"
proof (induction n arbitrary: i)
  case (Suc n)
  define e where "e = take 32 (drop (i * 32) buf)"
  have ld: "load buf (i * 32) 32 = Some e" "length e = 32" using Suc.prems by (simp_all add: load_def e_def)
  have upt: "[i..<i + Suc n] = i # [Suc i..<Suc i + n]" by (simp add: upt_conv_Cons)
  have IH: "find_scan buf sn n (Suc i) =
      Some (scan_slots sn (Suc i) (map (\<lambda>j. take 32 (drop (j * 32) buf)) [Suc i..<Suc i + n]))"
    using Suc.IH[of "Suc i"] Suc.prems by simp
  have u: "unat (11 :: u32) = 11" by simp
  obtain r where r: "memcmp e sn 11 = Some r" "r = 0 \<longleftrightarrow> take 11 e = sn"
    using memcmp_loop_zero_iff[of 11 e sn] ld(2) assms unfolding memcmp_def u by auto
  show ?case
    unfolding upt using ld(1) IH r by (simp add: live_def e_def [symmetric] del: upt_Suc)
qed simp

lemma dirent_of_bytes_take: "32 \<le> length b \<Longrightarrow> dirent_of_bytes (take 32 b) = dirent_of_bytes b"
  by (simp add: dirent_of_bytes_def get8_def get16_def get32_def)

lemma slots_buffer:
  assumes "length data = n * 32" and "i < n" and "n * 32 \<le> length buf"
  shows "take 32 (drop (i * 32) (put_at buf 0 data)) = slots data ! i"
proof -
  have "i * 32 + 32 \<le> length data" using assms(1,2) by simp
  then show ?thesis using assms by (simp add: put_at_def slots_nth)
qed

context block_device
begin

text \<open>A cluster just read, seen as slots.\<close>

lemma buffer_slots:
  assumes r: "ready s" and b: "b = put_at (cluster_buffer s) 0 (cluster_data (on_disk s) (g_fs s) c)"
    and n: "n = unat (bytes_per_cluster (g_fs s) div 32)"
  shows "map (\<lambda>j. take 32 (drop (j * 32) b)) [0..<n] = slots (cluster_data (on_disk s) (g_fs s) c)"
    and "n * 32 \<le> length b" and "length (cluster_data (on_disk s) (g_fs s) c) = n * 32" and "0 < n"
    and "n < 134217728"
proof -
  let ?d = "cluster_data (on_disk s) (g_fs s) c"
  have "unat (bytes_per_cluster (g_fs s)) = unat (sectors_per_cluster (g_fs s)) * 512"
    "unat (sectors_per_cluster (g_fs s)) \<le> 128" "0 < unat (sectors_per_cluster (g_fs s))"
    using ready_geometry[OF r] by (auto simp: geometry_ok_def word_less_nat_alt)
  then have n32: "unat (bytes_per_cluster (g_fs s)) = n * 32" "0 < n" "n < 134217728" by (simp_all add: n unat_div)
  then show ld: "length ?d = n * 32" "0 < n" "n < 134217728" using length_cluster_ready[OF r, of c] by simp_all
  have lb: "n * 32 \<le> length (cluster_buffer s)" using bpc_facts(2)[OF r] n32(1) by simp
  then show "n * 32 \<le> length b" using ld(1) by (simp add: b put_at_def)
  show "map (\<lambda>j. take 32 (drop (j * 32) b)) [0..<n] = slots ?d"
    using slots_buffer[OF ld(1) _ lb] ld(1) by (intro nth_equalityI) (simp_all add: b)
qed

lemma find_step:
  assumes r: "ready s" and v: "valid_cluster (g_fs s) c" and sn: "length sn = 11"
  obtains s1 where "io_to s (on_disk s) (cluster_buffer s1) s1"
    "find_entry_loop D sn c s =
      (case scan_slots sn 0 (slots (cluster_data (on_disk s) (g_fs s) c)) of
         ScanEnd \<Rightarrow> Some (None, s1)
       | ScanHit i \<Rightarrow>
           Some (Some (dirent_of_bytes (slots (cluster_data (on_disk s) (g_fs s) c) ! i), c, of_nat (i * 32)), s1)
       | ScanNext \<Rightarrow> (let (next, s2) = fat32_read_fat D c s1 in find_entry_loop D sn next s2))"
proof -
  let ?d = "cluster_data (on_disk s) (g_fs s) c" and ?b = "put_at (cluster_buffer s) 0 (cluster_data (on_disk s) (g_fs s) c)"
  obtain s1 where s1: "fat32_read_cluster D c s = Some (0, s1)" "io_to s (on_disk s) ?b s1"
    using r v by (rule read_cluster_ok)
  note f1 = io_toD[OF s1(2)]
  define n where "n = unat (bytes_per_cluster (g_fs s) div 32)"
  note bs = buffer_slots[where c = c, OF r refl n_def]
  have sc: "find_scan (cluster_buffer s1) sn n 0 = Some (scan_slots sn 0 (slots ?d))"
    using find_scan_eq[OF sn, of 0 n ?b] bs(1,2) f1(2) by simp
  have hit: "dirent_of_bytes (drop (i * 32) (cluster_buffer s1)) = dirent_of_bytes (slots ?d ! i)"
    if "scan_slots sn 0 (slots ?d) = ScanHit i" for i
  proof -
    have i: "i < n" using scan_slots_get[of sn "slots ?d" 0] that bs(3) by simp
    then have "i * 32 + 32 \<le> length ?b" using bs(2) by linarith
    then have "dirent_of_bytes (drop (i * 32) ?b) = dirent_of_bytes (take 32 (drop (i * 32) ?b))"
      by (intro dirent_of_bytes_take[symmetric]) simp
    moreover have "take 32 (drop (i * 32) ?b) = slots ?d ! i"
      using i unfolding bs(1)[symmetric] by simp
    ultimately show ?thesis unfolding f1(2) by simp
  qed
  have "cluster_in_range s c" using cluster_in_range_iff[OF ready_geometry[OF r]] v by simp
  then have "find_entry_loop D sn c s =
      (case scan_slots sn 0 (slots ?d) of
         ScanEnd \<Rightarrow> Some (None, s1)
       | ScanHit i \<Rightarrow> Some (Some (dirent_of_bytes (slots ?d ! i), c, of_nat (i * 32)), s1)
       | ScanNext \<Rightarrow> (let (next, s2) = fat32_read_fat D c s1 in find_entry_loop D sn next s2))"
    using s1(1) sc hit f1(3) n_def
    by (subst find_entry_loop.simps) (simp split: dir_scan.splits)
  then show ?thesis using that[of s1] s1(2) f1(2) by simp
qed

lemma find_loop_ok:
  assumes "ready s" and "chain_at s (c # cs)" and "length sn = 11"
  shows "\<exists>s'. find_entry_loop D sn c s = Some (lookup_chain (on_disk s) (g_fs s) sn (c # cs), s') \<and>
    io_to s (on_disk s) (cluster_buffer s') s'"
  using assms
proof (induction cs arbitrary: c s)
  case Nil
  have v: "valid_cluster (g_fs s) c" using Nil.prems(2) by simp
  obtain s1 where s1: "io_to s (on_disk s) (cluster_buffer s1) s1"
    "find_entry_loop D sn c s =
      (case scan_slots sn 0 (slots (cluster_data (on_disk s) (g_fs s) c)) of
         ScanEnd \<Rightarrow> Some (None, s1)
       | ScanHit i \<Rightarrow>
           Some (Some (dirent_of_bytes (slots (cluster_data (on_disk s) (g_fs s) c) ! i), c, of_nat (i * 32)), s1)
       | ScanNext \<Rightarrow> (let (next, s2) = fat32_read_fat D c s1 in find_entry_loop D sn next s2))"
    using Nil.prems(1) v Nil.prems(3) by (rule find_step)
  note f1 = io_toD[OF s1(1)] and r1 = io_to_ready[OF s1(1) Nil.prems(1)]
  have v1: "valid_cluster (g_fs s1) c" using v f1(3) by simp
  obtain s2 where s2: "fat32_read_fat D c s1 = (fat_entry (on_disk s1) (g_fs s1) c, s2)"
    "io_to s1 (on_disk s1) (cluster_buffer s1) s2" using r1 v1 by (rule read_fat_ok)
  have "\<not> cluster_in_range s2 (fat_entry (on_disk s1) (g_fs s1) c)"
    using Nil.prems(2) f1(1,3) by (auto simp: cluster_in_range_def dest: leD)
  then have stop: "find_entry_loop D sn (fat_entry (on_disk s1) (g_fs s1) c) s2 = Some (None, s2)"
    by (subst find_entry_loop.simps) simp
  have "io_to s (on_disk s) (cluster_buffer s2) s2"
    using io_to_trans[OF s1(1) s2(2)] f1(1) io_toD(2)[OF s2(2)] by simp
  then show ?case
    using s1 s2(1) stop by (cases "scan_slots sn 0 (slots (cluster_data (on_disk s) (g_fs s) c))") auto
next
  case (Cons d cs)
  have v: "valid_cluster (g_fs s) c" using Cons.prems(2) by simp
  obtain s1 where s1: "io_to s (on_disk s) (cluster_buffer s1) s1"
    "find_entry_loop D sn c s =
      (case scan_slots sn 0 (slots (cluster_data (on_disk s) (g_fs s) c)) of
         ScanEnd \<Rightarrow> Some (None, s1)
       | ScanHit i \<Rightarrow>
           Some (Some (dirent_of_bytes (slots (cluster_data (on_disk s) (g_fs s) c) ! i), c, of_nat (i * 32)), s1)
       | ScanNext \<Rightarrow> (let (next, s2) = fat32_read_fat D c s1 in find_entry_loop D sn next s2))"
    using Cons.prems(1) v Cons.prems(3) by (rule find_step)
  note f1 = io_toD[OF s1(1)] and r1 = io_to_ready[OF s1(1) Cons.prems(1)]
  obtain s2 where s2: "fat32_read_fat D c s1 = (d, s2)" "io_to s1 (on_disk s1) (cluster_buffer s1) s2"
    using read_fat_ok[OF r1, of c] v f1(1,3) Cons.prems(2) by auto
  have io2: "io_to s (on_disk s) (cluster_buffer s2) s2"
    using io_to_trans[OF s1(1) s2(2)] f1(1) io_toD(2)[OF s2(2)] by simp
  note f2 = io_toD[OF io2]
  from Cons.IH[OF io_to_ready[OF io2 Cons.prems(1)], of d] Cons.prems(2,3) f2(1,3) obtain s' where
    s': "find_entry_loop D sn d s2 = Some (lookup_chain (on_disk s) (g_fs s) sn (d # cs), s')"
    "io_to s2 (on_disk s) (cluster_buffer s') s'" by auto
  show ?case
    using s1 s2(1) s'(1) io_to_trans[OF io2 s'(2)]
    by (cases "scan_slots sn 0 (slots (cluster_data (on_disk s) (g_fs s) c))") auto
qed

lemma dir_slots_Cons:
  assumes "ready s"
  shows "dir_slots (on_disk s) (g_fs s) (c # cs) =
    slots (cluster_data (on_disk s) (g_fs s) c) @ dir_slots (on_disk s) (g_fs s) cs"
  unfolding dir_slots_def file_data_def
  using slots_append[OF buffer_slots(3)[OF assms refl refl, of c]] by simp

text \<open>The search finds what the map of the directory holds.\<close>

lemma lookup_chain_get:
  assumes "ready s"
  shows "map_option fst (lookup_chain (on_disk s) (g_fs s) sn cs) =
    map_option dirent_of_bytes (slot_get sn (dir_slots (on_disk s) (g_fs s) cs))"
proof (induction cs)
  case Nil
  then show ?case by (simp add: dir_slots_def file_data_def slots_def)
next
  case (Cons c cs)
  then show ?case
    unfolding dir_slots_Cons[OF assms] by (simp add: slot_get_scan split: dir_scan.splits)
qed

section \<open>Creating on the disk\<close>

text \<open>Writing \<open>cluster_buffer\<close> to a cluster.\<close>

lemma write_buffer_ok:
  assumes r: "ready s" and v: "valid_cluster (g_fs s) c" and lb: "length b = CLUSTER_BUFFER_SIZE"
  obtains s1 where "fat32_write_cluster D c (s\<lparr>cluster_buffer := b\<rparr>) = Some (0, s1)" "g_fs s1 = g_fs s"
    "keeps s {c} s1"
    "\<And>x. valid_cluster (g_fs s) x \<Longrightarrow> fat_entry (on_disk s1) (g_fs s) x = fat_entry (on_disk s) (g_fs s) x"
    "cluster_data (on_disk s1) (g_fs s) c = take (unat (bytes_per_cluster (g_fs s))) b"
proof -
  let ?fs = "g_fs s" and ?t = "s\<lparr>cluster_buffer := b\<rparr>"
  have g: "geometry_ok cap ?fs" using r by (rule ready_geometry)
  have rt: "ready ?t" and vt: "valid_cluster (g_fs ?t) c"
    using r lb v by (simp_all add: fat_ready_def buffers_ok_def)
  obtain s1 where s1: "fat32_write_cluster D c ?t = Some (0, s1)"
    "io_to ?t (cluster_store (on_disk ?t) (g_fs ?t) c (cluster_buffer ?t)) (cluster_buffer ?t) s1"
    using rt vt by (rule write_cluster_ok)
  note f1 = io_toD[OF s1(2)]
  have cd: "cluster_data (on_disk s1) ?fs x =
      (if x = c then take (unat (bytes_per_cluster ?fs)) b else cluster_data (on_disk s) ?fs x)"
    if "valid_cluster ?fs x" for x
    unfolding f1(1) using cluster_data_store[OF g v that lb] by simp
  have fe: "fat_copy (on_disk s1) ?fs j x = fat_copy (on_disk s) ?fs j x"
    if "valid_cluster ?fs x" "j < unat (num_fats ?fs)" for j x
    unfolding f1(1) using fat_copy_cluster_store[OF g v that] by simp
  have fs1: "g_fs s1 = ?fs" using f1(3) by simp
  have "keeps s {c} s1"
    using cd fe io_to_ready[OF s1(2) rt] fs1 by (auto simp: keeps_def intro!: exI[of _ "fs_fsinfo ?fs"])
  then show ?thesis using that[OF s1(1) fs1] cd[OF v] fe num_fats_pos[OF r] by simp
qed

text \<open>A cluster with a free slot takes the entry.\<close>

lemma create_hit:
  assumes r: "ready s" and v: "valid_cluster (g_fs s) c" and e: "length (de_name e) = 11"
    and free: "list_ex slot_free (slots (cluster_data (on_disk s) (g_fs s) c))"
  obtains s1 where "create_entry_loop D e c s = Some (0, s1)" "g_fs s1 = g_fs s" "keeps s {c} s1"
    "\<And>x. valid_cluster (g_fs s) x \<Longrightarrow> fat_entry (on_disk s1) (g_fs s) x = fat_entry (on_disk s) (g_fs s) x"
    "slots (cluster_data (on_disk s1) (g_fs s) c) =
      slot_put (dirent_to_bytes e) (slots (cluster_data (on_disk s) (g_fs s) c))"
proof -
  let ?fs = "g_fs s" and ?d = "cluster_data (on_disk s) (g_fs s) c" and ?new = "dirent_to_bytes e"
  let ?b = "put_at (cluster_buffer s) 0 ?d"
  obtain s0 where s0: "fat32_read_cluster D c s = Some (0, s0)" "io_to s (on_disk s) ?b s0"
    using r v by (rule read_cluster_ok)
  note f0 = io_toD[OF s0(2)] and r0 = io_to_ready[OF s0(2) r]
  define n where "n = unat (bytes_per_cluster ?fs div 32)"
  note bs = buffer_slots[where c = c, OF r refl n_def]
  obtain i where ff: "first_free 0 (slots ?d) = Some i" "i < n" "slot_put ?new (slots ?d) = (slots ?d)[i := ?new]"
    using first_free_put[where i = 0 and L = "slots ?d" and new = ?new] free bs(3) by (auto split: option.splits)
  have sc: "free_scan (cluster_buffer s0) n 0 = Some (Some i)"
    using free_scan_eq[of 0 n ?b] bs(1,2) f0(2) ff(1) by simp
  have new: "length ?new = 32" using e by (rule length_dirent)
  have le: "i * 32 + 32 \<le> n * 32" using ff(2) by simp
  have lb: "length ?b = CLUSTER_BUFFER_SIZE" using r0 f0(2) by (simp add: fat_ready_def buffers_ok_def)
  have st: "store ?b (i * 32) ?new = Some (put_at ?b (i * 32) ?new)"
    using le bs(2) new by (intro store_put_at) simp
  have lb2: "length (put_at ?b (i * 32) ?new) = CLUSTER_BUFFER_SIZE" using store_length[OF st] lb by simp
  have bpc: "unat (bytes_per_cluster ?fs) = n * 32" using bs(3) length_cluster_ready[OF r, of c] by simp
  have v0: "valid_cluster (g_fs s0) c" using v f0(3) by simp
  obtain s1 where s1: "fat32_write_cluster D c (s0\<lparr>cluster_buffer := put_at ?b (i * 32) ?new\<rparr>) = Some (0, s1)"
    "g_fs s1 = g_fs s0" "keeps s0 {c} s1"
    "\<And>x. valid_cluster (g_fs s0) x \<Longrightarrow> fat_entry (on_disk s1) (g_fs s0) x = fat_entry (on_disk s0) (g_fs s0) x"
    "cluster_data (on_disk s1) (g_fs s0) c = take (unat (bytes_per_cluster (g_fs s0))) (put_at ?b (i * 32) ?new)"
    using r0 v0 lb2 by (rule write_buffer_ok) (rule that)
  have "take (n * 32) (put_at ?b (i * 32) ?new) = put_at ?d (i * 32) ?new"
    using le bs(3) new by (simp add: put_at_def)
  then have "slots (cluster_data (on_disk s1) ?fs c) = slot_put ?new (slots ?d)"
    using s1(5) f0(3) bpc slots_put_at[OF bs(3) ff(2) new] ff(3) by simp
  moreover have "create_entry_loop D e c s = Some (0, s1)"
    using valid_not_eoc[OF ready_geometry[OF r] v] s0(1) sc st s1(1) f0(2,3) n_def
    by (subst create_entry_loop.simps) simp
  moreover have "keeps s {c} s1"
    using keeps_trans[OF keeps_io(1)[OF r s0(2), of "{}"] s1(3)] by simp
  ultimately show ?thesis using that[of s1] s1(2,4) f0(1,3) by simp
qed

text \<open>A full cluster passes the search on.\<close>

lemma create_miss:
  assumes r: "ready s" and v: "valid_cluster (g_fs s) c"
    and full: "\<not> list_ex slot_free (slots (cluster_data (on_disk s) (g_fs s) c))"
  obtains s0 where "io_to s (on_disk s) (cluster_buffer s0) s0"
    "create_entry_loop D e c s =
      (let (next, s1) = fat32_read_fat D c s0 in
       if next \<ge> FAT32_EOC_MIN then
         (let (new_cluster, s2) = fat32_alloc_cluster D s1 in
          if new_cluster = 0 then Some (- 1, s2)
          else
            (let (_, s3) = fat32_write_fat D c new_cluster s2 in do {
               s4 \<leftarrow> clear_cluster_buffer s3;
               (_, s5) \<leftarrow> fat32_write_cluster D new_cluster s4;
               create_entry_loop D e new_cluster s5
             }))
       else create_entry_loop D e next s1)"
proof -
  let ?d = "cluster_data (on_disk s) (g_fs s) c" and ?b = "put_at (cluster_buffer s) 0 (cluster_data (on_disk s) (g_fs s) c)"
  obtain s0 where s0: "fat32_read_cluster D c s = Some (0, s0)" "io_to s (on_disk s) ?b s0"
    using r v by (rule read_cluster_ok)
  note f0 = io_toD[OF s0(2)]
  define n where "n = unat (bytes_per_cluster (g_fs s) div 32)"
  note bs = buffer_slots[where c = c, OF r refl n_def]
  have "first_free 0 (slots ?d) = None"
    using first_free_put[where i = 0 and L = "slots ?d" and new = "[]"] full by (auto split: option.splits)
  then have sc: "free_scan (cluster_buffer s0) n 0 = Some None"
    using free_scan_eq[of 0 n ?b] bs(1,2) f0(2) by simp
  have "create_entry_loop D e c s =
      (let (next, s1) = fat32_read_fat D c s0 in
       if next \<ge> FAT32_EOC_MIN then
         (let (new_cluster, s2) = fat32_alloc_cluster D s1 in
          if new_cluster = 0 then Some (- 1, s2)
          else
            (let (_, s3) = fat32_write_fat D c new_cluster s2 in do {
               s4 \<leftarrow> clear_cluster_buffer s3;
               (_, s5) \<leftarrow> fat32_write_cluster D new_cluster s4;
               create_entry_loop D e new_cluster s5
             }))
       else create_entry_loop D e next s1)"
    using valid_not_eoc[OF ready_geometry[OF r] v] s0(1) sc n_def f0(3)
    by (subst create_entry_loop.simps) simp
  then show ?thesis using that[of s0] s0(2) f0(2) by simp
qed

lemma clear_buffer_ok:
  assumes "ready s"
  shows "clear_cluster_buffer s = Some (s\<lparr>cluster_buffer := replicate (unat (bytes_per_cluster (g_fs s))) 0 @
    drop (unat (bytes_per_cluster (g_fs s))) (cluster_buffer s)\<rparr>)"
  using bpc_facts(2)[OF assms] by (simp add: clear_cluster_buffer_def memset_spec)

text \<open>A fresh cluster is zeroed and takes the entry.\<close>

lemma create_zeroed:
  assumes r: "ready s" and v: "valid_cluster (g_fs s) d" and e: "length (de_name e) = 11"
    and n: "n = unat (bytes_per_cluster (g_fs s) div 32)"
  obtains s' where
    "do { s4 \<leftarrow> clear_cluster_buffer s; (_, s5) \<leftarrow> fat32_write_cluster D d s4; create_entry_loop D e d s5 } = Some (0, s')"
    "g_fs s' = g_fs s" "keeps s {d} s'"
    "\<And>x. valid_cluster (g_fs s) x \<Longrightarrow> fat_entry (on_disk s') (g_fs s) x = fat_entry (on_disk s) (g_fs s) x"
    "slots (cluster_data (on_disk s') (g_fs s) d) = slot_put (dirent_to_bytes e) (replicate n (replicate 32 0))"
proof -
  let ?bpc = "unat (bytes_per_cluster (g_fs s))"
  let ?b = "replicate ?bpc 0 @ drop ?bpc (cluster_buffer s)"
  have lb: "length ?b = CLUSTER_BUFFER_SIZE"
    using bpc_facts(2)[OF r] r by (simp add: fat_ready_def buffers_ok_def)
  obtain s5 where s5: "fat32_write_cluster D d (s\<lparr>cluster_buffer := ?b\<rparr>) = Some (0, s5)" "g_fs s5 = g_fs s" "keeps s {d} s5"
    "\<And>x. valid_cluster (g_fs s) x \<Longrightarrow> fat_entry (on_disk s5) (g_fs s) x = fat_entry (on_disk s) (g_fs s) x"
    "cluster_data (on_disk s5) (g_fs s) d = take ?bpc ?b"
    using r v lb by (rule write_buffer_ok) (rule that)
  have r5: "ready s5" using s5(3) by (simp add: keeps_def)
  have v5: "valid_cluster (g_fs s5) d" using v s5(2) by simp
  have n32: "?bpc = n * 32" "0 < n"
    using buffer_slots(3,4)[where c = d, OF r refl n] length_cluster_ready[OF r, of d] by simp_all
  have z: "slots (cluster_data (on_disk s5) (g_fs s5) d) = replicate n (replicate 32 0)"
    using s5(2,5) n32(1) by (simp add: slots_zero)
  have fr5: "list_ex slot_free (slots (cluster_data (on_disk s5) (g_fs s5) d))"
    unfolding z using n32(2) by (cases n) (simp_all add: slot_free_def)
  obtain s' where s': "create_entry_loop D e d s5 = Some (0, s')" "g_fs s' = g_fs s5" "keeps s5 {d} s'"
    "\<And>x. valid_cluster (g_fs s5) x \<Longrightarrow> fat_entry (on_disk s') (g_fs s5) x = fat_entry (on_disk s5) (g_fs s5) x"
    "slots (cluster_data (on_disk s') (g_fs s5) d) =
      slot_put (dirent_to_bytes e) (slots (cluster_data (on_disk s5) (g_fs s5) d))"
    using r5 v5 e fr5 by (rule create_hit) (rule that)
  have "keeps s {d} s'" using keeps_trans[OF s5(3) s'(3)] by simp
  moreover have "do { s4 \<leftarrow> clear_cluster_buffer s; (_, s5) \<leftarrow> fat32_write_cluster D d s4; create_entry_loop D e d s5 }
      = Some (0, s')"
    using clear_buffer_ok[OF r] s5(1) s'(1) by simp
  ultimately show ?thesis using that[of s'] s'(2,4,5) s5(2,4) z by simp
qed

text \<open>When the whole chain is full the directory grows by one such cluster.\<close>

lemma create_extend:
  assumes r: "ready s" and ch: "chain_at s (xs @ [c])" and e: "length (de_name e) = 11"
    and full: "\<not> list_ex slot_free (slots (cluster_data (on_disk s) (g_fs s) c))"
    and free: "free_clusters (on_disk s) (g_fs s) \<noteq> {}"
    and n: "n = unat (bytes_per_cluster (g_fs s) div 32)"
  obtains d s' where "create_entry_loop D e c s = Some (0, s')" "d \<in> free_clusters (on_disk s) (g_fs s)"
    "chain_at s' (xs @ [c, d])" "keeps s {c, d} s'"
    "cluster_data (on_disk s') (g_fs s) c = cluster_data (on_disk s) (g_fs s) c"
    "slots (cluster_data (on_disk s') (g_fs s) d) = slot_put (dirent_to_bytes e) (replicate n (replicate 32 0))"
proof -
  let ?fs = "g_fs s"
  have v: "valid_cluster ?fs c" using is_chain_valid[OF ch] by simp
  obtain s0 where s0: "io_to s (on_disk s) (cluster_buffer s0) s0"
    "create_entry_loop D e c s =
      (let (next, s1) = fat32_read_fat D c s0 in
       if next \<ge> FAT32_EOC_MIN then
         (let (new_cluster, s2) = fat32_alloc_cluster D s1 in
          if new_cluster = 0 then Some (- 1, s2)
          else
            (let (_, s3) = fat32_write_fat D c new_cluster s2 in do {
               s4 \<leftarrow> clear_cluster_buffer s3;
               (_, s5) \<leftarrow> fat32_write_cluster D new_cluster s4;
               create_entry_loop D e new_cluster s5
             }))
       else create_entry_loop D e next s1)"
    using r v full by (rule create_miss)
  note f0 = io_toD[OF s0(1)] and r0 = io_to_ready[OF s0(1) r]
  have ch0: "chain_at s0 (xs @ [c])" and fr0: "free_clusters (on_disk s0) (g_fs s0) \<noteq> {}"
    using ch free f0(1,3) by simp_all
  obtain d s3 where s3: "next_or_alloc D c s0 = (Some d, s3)" "d \<in> free_clusters (on_disk s0) (g_fs s0)"
    "keeps s0 {c, d} s3" "same_data s0 s3" "chain_at s3 (xs @ [c, d])"
    using r0 ch0 fr0 by (rule next_or_alloc_new)
  note views = keeps_views[OF s3(3), unfolded f0(3)]
  have r3: "ready s3" using s3(3) by (simp add: keeps_def)
  have v3: "valid_cluster (g_fs s3) d" using is_chain_valid[OF s3(5)] by simp
  have dc: "d \<noteq> c" using is_chain_distinct[OF ready_geometry[OF r3] s3(5)] by auto
  have n3: "n = unat (bytes_per_cluster (g_fs s3) div 32)" using n views(1) by simp
  have eoc: "fst (fat32_read_fat D c s0) \<ge> FAT32_EOC_MIN"
    using read_fat_ok[OF r0, of c] is_chain_suffix[OF ch0] by (metis fst_conv is_chain.simps(2) not_Cons_self2)
  obtain s' where s':
    "do { s4 \<leftarrow> clear_cluster_buffer s3; (_, s5) \<leftarrow> fat32_write_cluster D d s4; create_entry_loop D e d s5 } = Some (0, s')"
    "g_fs s' = g_fs s3" "keeps s3 {d} s'"
    "\<And>x. valid_cluster (g_fs s3) x \<Longrightarrow> fat_entry (on_disk s') (g_fs s3) x = fat_entry (on_disk s3) (g_fs s3) x"
    "slots (cluster_data (on_disk s') (g_fs s3) d) = slot_put (dirent_to_bytes e) (replicate n (replicate 32 0))"
    using r3 v3 e n3 by (rule create_zeroed) (rule that)
  have "create_entry_loop D e c s = Some (0, s')"
    using s0(2) s3(1) eoc s'(1) by (auto simp: next_or_alloc_def split_beta Let_def split: if_splits)
  moreover have "chain_at s' (xs @ [c, d])"
    using s3(5) s'(2,4) is_chain_valid[OF s3(5)]
    by (subst is_chain_cong[of _ _ "fat_entry (on_disk s3) (g_fs s3)"]) auto
  moreover have "keeps s {c, d} s'"
    using keeps_mono[OF keeps_trans[OF keeps_trans[OF keeps_io(1)[OF r s0(1), of "{}"] s3(3)] s'(3)], of "{c, d}"]
    by auto
  moreover have "cluster_data (on_disk s') ?fs c = cluster_data (on_disk s) ?fs c"
  proof -
    have "cluster_data (on_disk s') ?fs c = cluster_data (on_disk s3) ?fs c"
      using s'(3) dc v views(4,5) by (auto simp: keeps_def)
    also have "\<dots> = cluster_data (on_disk s) ?fs c" using s3(4) v f0(1,3) by (simp add: same_data_def)
    finally show ?thesis .
  qed
  ultimately show ?thesis using that s3(2) s'(5) f0(1,3) views(5) by simp
qed

lemma dir_slots_after:
  assumes k: "keeps s A s'"
  shows "dir_slots (on_disk s') (g_fs s) (c # cs) =
    slots (cluster_data (on_disk s') (g_fs s) c) @ dir_slots (on_disk s') (g_fs s) cs"
proof -
  have "ready s'" using k by (simp add: keeps_def)
  from dir_slots_Cons[OF this, of c cs] show ?thesis
    by (simp add: dir_slots_def keeps_views(3,5)[OF k])
qed

lemma dir_slots_unchanged:
  assumes k: "keeps s A s'" and "set cs \<inter> A = {}" and "\<And>c. c \<in> set cs \<Longrightarrow> valid_cluster (g_fs s) c"
  shows "dir_slots (on_disk s') (g_fs s) cs = dir_slots (on_disk s) (g_fs s) cs"
proof -
  have "file_data (on_disk s') (g_fs s) cs = file_data (on_disk s) (g_fs s) cs"
    using assms by (intro file_data_cong) (auto simp: keeps_def)
  then show ?thesis by (simp add: dir_slots_def)
qed

definition created :: "'d fat_state \<Rightarrow> u32 list \<Rightarrow> u32 list \<Rightarrow> fat32_dirent \<Rightarrow> u32 list \<Rightarrow> 'd fat_state \<Rightarrow> bool" where
  "created s xs cs e ds s' \<longleftrightarrow>
     chain_at s' (xs @ cs @ ds) \<and> set ds \<subseteq> free_clusters (on_disk s) (g_fs s) \<and> keeps s (set (cs @ ds)) s' \<and>
     length ds = (if list_ex slot_free (dir_slots (on_disk s) (g_fs s) cs) then 0 else 1) \<and>
     dir_slots (on_disk s') (g_fs s) (cs @ ds) =
       slot_put (dirent_to_bytes e) (dir_slots (on_disk s) (g_fs s) cs @
         concat (map (\<lambda>_. replicate (unat (bytes_per_cluster (g_fs s) div 32)) (replicate 32 0)) ds))"

lemma created_hit:
  assumes r: "ready s" and ch: "chain_at s (xs @ c # cs)" and e: "length (de_name e) = 11"
    and free: "list_ex slot_free (slots (cluster_data (on_disk s) (g_fs s) c))"
  shows "\<exists>s'. create_entry_loop D e c s = Some (0, s') \<and> created s xs (c # cs) e [] s'"
proof -
  have g: "geometry_ok cap (g_fs s)" using r by (rule ready_geometry)
  have v: "valid_cluster (g_fs s) x" if "x \<in> set (xs @ c # cs)" for x using is_chain_valid[OF ch that] .
  obtain s1 where s1: "create_entry_loop D e c s = Some (0, s1)" "g_fs s1 = g_fs s" "keeps s {c} s1"
    "\<And>x. valid_cluster (g_fs s) x \<Longrightarrow> fat_entry (on_disk s1) (g_fs s) x = fat_entry (on_disk s) (g_fs s) x"
    "slots (cluster_data (on_disk s1) (g_fs s) c) =
      slot_put (dirent_to_bytes e) (slots (cluster_data (on_disk s) (g_fs s) c))"
    using r v[of c] e free by - (rule create_hit, auto)
  have "dir_slots (on_disk s1) (g_fs s) cs = dir_slots (on_disk s) (g_fs s) cs"
    using is_chain_distinct[OF g ch] v by (intro dir_slots_unchanged[OF s1(3)]) auto
  then have "dir_slots (on_disk s1) (g_fs s) (c # cs) =
      slot_put (dirent_to_bytes e) (dir_slots (on_disk s) (g_fs s) (c # cs))"
    using s1(5) free by (simp add: dir_slots_after[OF s1(3)] dir_slots_Cons[OF r] slot_put_append)
  moreover have "chain_at s1 (xs @ c # cs)"
    using ch s1(2,4) v by (subst is_chain_cong[of _ _ "fat_entry (on_disk s) (g_fs s)"]) auto
  moreover have "keeps s (set (c # cs)) s1" by (rule keeps_mono[OF s1(3)]) auto
  ultimately show ?thesis using s1(1) free by (auto simp: created_def dir_slots_Cons[OF r])
qed

lemma created_skip:
  assumes r: "ready s" and ch: "chain_at s (xs @ c # cs)" and io: "io_to s (on_disk s) (cluster_buffer s1) s1"
    and full: "\<not> list_ex slot_free (slots (cluster_data (on_disk s) (g_fs s) c))"
    and cr: "created s1 (xs @ [c]) cs e ds s'"
  shows "created s xs (c # cs) e ds s'"
proof -
  note f = io_toD(1,3)[OF io]
  have k: "keeps s1 (set (cs @ ds)) s'" and chain: "chain_at s' (xs @ c # cs @ ds)"
    using cr by (simp_all add: created_def)
  have ks: "keeps s (set (cs @ ds)) s'" using keeps_trans[OF keeps_io(1)[OF r io, of "{}"] k] by simp
  have "geometry_ok cap (g_fs s')" using ks by (auto simp: keeps_def fat_ready_def)
  then have nin: "c \<notin> set (cs @ ds)" using is_chain_distinct[OF _ chain] by auto
  have v: "valid_cluster (g_fs s) c" using is_chain_valid[OF ch] by simp
  have "cluster_data (on_disk s') (g_fs s) c = cluster_data (on_disk s) (g_fs s) c"
    using ks nin v by (simp add: keeps_def)
  moreover have "keeps s (set (c # cs @ ds)) s'" by (rule keeps_mono[OF ks]) auto
  ultimately show ?thesis
    using cr full chain unfolding created_def f
    by (simp add: dir_slots_after[OF ks] dir_slots_Cons[OF r] slot_put_append)
qed

lemma create_loop_ok:
  assumes "ready s" and "chain_at s (xs @ c # cs)" and "length (de_name e) = 11"
    and "list_ex slot_free (dir_slots (on_disk s) (g_fs s) (c # cs)) \<or> free_clusters (on_disk s) (g_fs s) \<noteq> {}"
  shows "\<exists>s' ds. create_entry_loop D e c s = Some (0, s') \<and> created s xs (c # cs) e ds s'"
  using assms
proof (induction cs arbitrary: xs c s)
  case Nil
  show ?case
  proof (cases "list_ex slot_free (slots (cluster_data (on_disk s) (g_fs s) c))")
    case True
    then show ?thesis using created_hit[OF Nil.prems(1-3)] by blast
  next
    case False
    have d0: "dir_slots (on_disk s) (g_fs s) [c] = slots (cluster_data (on_disk s) (g_fs s) c)"
      by (simp add: dir_slots_def file_data_def)
    have fr: "free_clusters (on_disk s) (g_fs s) \<noteq> {}" using Nil.prems(4) False d0 by simp
    obtain d s' where s': "create_entry_loop D e c s = Some (0, s')" "d \<in> free_clusters (on_disk s) (g_fs s)"
      "chain_at s' (xs @ [c, d])" "keeps s {c, d} s'"
      "cluster_data (on_disk s') (g_fs s) c = cluster_data (on_disk s) (g_fs s) c"
      "slots (cluster_data (on_disk s') (g_fs s) d) = slot_put (dirent_to_bytes e)
        (replicate (unat (bytes_per_cluster (g_fs s) div 32)) (replicate 32 0))"
      using Nil.prems(1,2,3) False fr refl by (rule create_extend)
    have "dir_slots (on_disk s') (g_fs s) [c, d] = slots (cluster_data (on_disk s) (g_fs s) c) @
        slot_put (dirent_to_bytes e) (replicate (unat (bytes_per_cluster (g_fs s) div 32)) (replicate 32 0))"
      using s'(5,6) by (simp add: dir_slots_after[OF s'(4)]) (simp add: dir_slots_def file_data_def slots_def)
    then have "created s xs [c] e [d] s'"
      using s'(2-4) False by (simp add: created_def d0 slot_put_append)
    then show ?thesis using s'(1) by blast
  qed
next
  case (Cons d cs)
  show ?case
  proof (cases "list_ex slot_free (slots (cluster_data (on_disk s) (g_fs s) c))")
    case True
    then show ?thesis using created_hit[OF Cons.prems(1-3)] by blast
  next
    case False
    have v: "valid_cluster (g_fs s) c" using is_chain_valid[OF Cons.prems(2)] by simp
    have chc: "chain_at s (c # d # cs)" using is_chain_suffix[OF Cons.prems(2)] by simp
    obtain s0 where s0: "io_to s (on_disk s) (cluster_buffer s0) s0"
      "create_entry_loop D e c s =
        (let (next, s1) = fat32_read_fat D c s0 in
         if next \<ge> FAT32_EOC_MIN then
           (let (new_cluster, s2) = fat32_alloc_cluster D s1 in
            if new_cluster = 0 then Some (- 1, s2)
            else
              (let (_, s3) = fat32_write_fat D c new_cluster s2 in do {
                 s4 \<leftarrow> clear_cluster_buffer s3;
                 (_, s5) \<leftarrow> fat32_write_cluster D new_cluster s4;
                 create_entry_loop D e new_cluster s5
               }))
         else create_entry_loop D e next s1)"
      using Cons.prems(1) v False by (rule create_miss)
    note f0 = io_toD[OF s0(1)] and r0 = io_to_ready[OF s0(1) Cons.prems(1)]
    obtain s1 where s1: "fat32_read_fat D c s0 = (d, s1)" "io_to s0 (on_disk s0) (cluster_buffer s0) s1"
      using read_fat_ok[OF r0, of c] v f0(1,3) chc by auto
    have io1: "io_to s (on_disk s) (cluster_buffer s1) s1"
      using io_to_trans[OF s0(1) s1(2)] f0(1) io_toD(2)[OF s1(2)] by simp
    note f1 = io_toD[OF io1]
    have "\<not> FAT32_EOC_MIN \<le> d"
      using is_chain_end_iff[OF ready_geometry[OF Cons.prems(1)] chc] chc by simp
    then have st: "create_entry_loop D e c s = create_entry_loop D e d s1" using s0(2) s1(1) by simp
    have room: "list_ex slot_free (dir_slots (on_disk s1) (g_fs s1) (d # cs)) \<or>
        free_clusters (on_disk s1) (g_fs s1) \<noteq> {}"
      using Cons.prems(4) False f1(1,3) by (simp add: dir_slots_Cons[OF Cons.prems(1), of c])
    have "chain_at s1 ((xs @ [c]) @ d # cs)" using Cons.prems(2) f1(1,3) by simp
    from Cons.IH[OF io_to_ready[OF io1 Cons.prems(1)] this Cons.prems(3) room] obtain s' ds where
      s': "create_entry_loop D e d s1 = Some (0, s')" "created s1 (xs @ [c]) (d # cs) e ds s'" by blast
    have "created s xs (c # d # cs) e ds s'"
      using Cons.prems(1,2) io1 False s'(2) by (rule created_skip)
    then show ?thesis using st s'(1) by auto
  qed
qed

lemma find_entry_ok:
  assumes "ready s" and "chain_at s cs" and "fat32_to_short_name name = Some sn" and "length sn = 11"
  shows "\<exists>s'. fat32_find_entry D (hd cs) name s = Some (lookup_chain (on_disk s) (g_fs s) sn cs, s') \<and>
    io_to s (on_disk s) (cluster_buffer s') s'"
proof -
  obtain c ds where cs: "cs = c # ds" using assms(2) by (cases cs) auto
  show ?thesis
    using find_loop_ok[OF assms(1) _ assms(4), of c ds] assms(2,3) by (simp add: cs fat32_find_entry_def)
qed

lemma create_entry_ok:
  assumes r: "ready s" and ch: "chain_at s cs" and sn: "fat32_to_short_name name = Some sn" "length sn = 11"
    and nz: "0 \<notin> set sn" "hd sn \<noteq> 0xE5" and attr: "attr \<noteq> FAT32_ATTR_LFN"
    and tail: "zero_tail (dir_slots (on_disk s) (g_fs s) cs)"
    and new: "slot_get sn (dir_slots (on_disk s) (g_fs s) cs) = None"
    and room: "list_ex slot_free (dir_slots (on_disk s) (g_fs s) cs) \<or> free_clusters (on_disk s) (g_fs s) \<noteq> {}"
  obtains s' ds where "fat32_create_entry D (hd cs) name attr fc s = Some (0, s')"
    "chain_at s' (cs @ ds)" "set ds \<subseteq> free_clusters (on_disk s) (g_fs s)" "keeps s (set (cs @ ds)) s'"
    "zero_tail (dir_slots (on_disk s') (g_fs s) (cs @ ds))"
    "\<And>sn'. slot_get sn' (dir_slots (on_disk s') (g_fs s) (cs @ ds)) =
      (if sn' = sn then Some (dirent_to_bytes (new_dirent sn attr fc))
       else slot_get sn' (dir_slots (on_disk s) (g_fs s) cs))"
proof -
  let ?L = "dir_slots (on_disk s) (g_fs s) cs" and ?e = "new_dirent sn attr fc"
  let ?n = "unat (bytes_per_cluster (g_fs s) div 32)"
  obtain c cs0 where cs: "cs = c # cs0" using ch by (cases cs) auto
  have e: "length (de_name ?e) = 11" using sn(2) by (simp add: new_dirent_def)
  from create_loop_ok[of s "[]" c cs0 ?e] r ch e room cs obtain s' ds where
    s': "create_entry_loop D ?e c s = Some (0, s')" "created s [] cs ?e ds s'" by auto
  define Z where "Z = concat (map (\<lambda>_. replicate ?n (replicate 32 (0 :: u8))) ds)"
  have n: "0 < ?n" using buffer_slots(4)[where c = c, OF r refl refl] .
  have Z: "list_all (\<lambda>x. x ! 0 = 0x00) Z" by (auto simp: Z_def list_all_iff)
  have len: "length ds = (if list_ex slot_free ?L then 0 else 1)" and
    L': "dir_slots (on_disk s') (g_fs s) (cs @ ds) = slot_put (dirent_to_bytes ?e) (?L @ Z)"
    using s'(2) by (simp_all add: created_def Z_def)
  have ext: "zero_tail (?L @ Z) \<and> list_ex slot_free (?L @ Z) \<and> (\<forall>x. slot_get x (?L @ Z) = slot_get x ?L)"
  proof (cases "list_ex slot_free ?L")
    case True
    then show ?thesis using len tail by (simp add: Z_def)
  next
    case False
    then obtain d where "ds = [d]" using len by (cases ds) auto
    then have "list_ex slot_free Z" using n by (cases ?n) (auto simp: Z_def slot_free_def)
    then show ?thesis
      using no_free_nonzero[OF False] tail Z
      by (simp add: zero_tail_append zero_tail_zeros slot_get_append slot_get_zeros split: option.splits)
  qed
  have "sn \<noteq> []" "sn ! 0 \<noteq> 0" using sn(2) nz(1) by (auto simp: in_set_conv_nth)
  then have live: "live (dirent_to_bytes ?e)" "take 11 (dirent_to_bytes ?e) = sn"
    using sn(2) nz attr by (auto simp: live_def dirent_to_bytes_def new_dirent_def nth_append hd_conv_nth)
  have "slot_get x (dir_slots (on_disk s') (g_fs s) (cs @ ds)) =
      (if x = sn then Some (dirent_to_bytes ?e) else slot_get x ?L)" for x
    unfolding L' using slot_put_get[OF live, of "?L @ Z" x] ext new by auto
  moreover have "zero_tail (dir_slots (on_disk s') (g_fs s) (cs @ ds))"
    unfolding L' using slot_put_zero_tail[OF live(1)] ext by simp
  moreover have "fat32_create_entry D (hd cs) name attr fc s = Some (0, s')"
    using s'(1) sn(1) by (simp add: cs fat32_create_entry_def)
  moreover have "chain_at s' (cs @ ds)" "set ds \<subseteq> free_clusters (on_disk s) (g_fs s)" "keeps s (set (cs @ ds)) s'"
    using s'(2) by (simp_all add: created_def)
  ultimately show ?thesis using that by blast
qed

end

section \<open>Properties\<close>

lemma new_dirent_decode:
  assumes "length sn = 11"
  shows "dirent_of_bytes (dirent_to_bytes (new_dirent sn attr fc)) = new_dirent sn attr fc"
    and "dirent_cluster (new_dirent sn attr fc) = fc" and "de_attr (new_dirent sn attr fc) = attr"
  using dirent_roundtrip[of "new_dirent sn attr fc" "[]"] assms cluster_halves[of fc]
  by (simp_all add: new_dirent_def dirent_cluster_def)

text \<open>C9. \<open>fat32_find_entry\<close> on any well-formed directory chain ends, reads only, and returns exactly the
  entry that the directory, seen as a map from short names to live slots, holds for the name.\<close>

theorem fat32_find_entry_correct:
  assumes "block_device D sectors online cap" and "fat_ready online cap s"
    and "is_chain (fat_entry (sectors (disk s)) (g_fs s)) (g_fs s) cs" and "is_cstr name"
  shows "\<exists>sn r s'. fat32_to_short_name name = Some sn \<and> fat32_find_entry D (hd cs) name s = Some (r, s') \<and>
    map_option fst r = map_option dirent_of_bytes (slot_get sn (dir_slots (sectors (disk s)) (g_fs s) cs)) \<and>
    sectors (disk s') = sectors (disk s) \<and> fat_ready online cap s'"
proof -
  obtain sn where sn: "fat32_to_short_name name = Some sn" "length sn = 11" using assms(4) by (rule short_name_ok)
  from block_device.find_entry_ok[OF assms(1-3) sn] obtain s' where
    s': "fat32_find_entry D (hd cs) name s = Some (lookup_chain (sectors (disk s)) (g_fs s) sn cs, s')"
    "block_device.io_to sectors online s (sectors (disk s)) (cluster_buffer s') s'" by blast
  show ?thesis
    using sn(1) s'(1) block_device.lookup_chain_get[OF assms(1,2), of sn cs]
      block_device.io_toD(1)[OF assms(1) s'(2)] block_device.io_to_ready[OF assms(1) s'(2) assms(2)]
    by blast
qed

theorem fat32_find_entry_correct_witness:
  "\<exists>sn s' r. fat32_to_short_name (ascii ''a.b'' @ [0]) = Some sn \<and>
    fat32_find_entry (ata_disk pio_drive) 3 (ascii ''a.b'' @ [0]) one_file_volume = Some (r, s')"
  using fat32_find_entry_correct[OF pio.blk.block_device_axioms one_file_volume_ready
      one_file_chain[folded one_file_volume_fs], of "ascii ''a.b'' @ [0]"]
  by auto

text \<open>C8. \<open>fat32_create_entry\<close> updates the directory as a map: with a free slot or a free cluster it
  succeeds, binds the new name to the new entry, keeps every other binding, keeps the directory
  well formed (it may append one cluster), and leaves every other file alone.\<close>

theorem fat32_create_entry_correct:
  assumes "block_device D sectors online cap" and "fat_ready online cap s"
    and "is_chain (fat_entry (sectors (disk s)) (g_fs s)) (g_fs s) cs"
    and "is_cstr name" and "fat32_to_short_name name = Some sn" and "hd sn \<noteq> 0xE5" and "attr \<noteq> FAT32_ATTR_LFN"
    and "zero_tail (dir_slots (sectors (disk s)) (g_fs s) cs)"
    and "slot_get sn (dir_slots (sectors (disk s)) (g_fs s) cs) = None"
    and "list_ex slot_free (dir_slots (sectors (disk s)) (g_fs s) cs) \<or>
      free_clusters (sectors (disk s)) (g_fs s) \<noteq> {}"
  shows "\<exists>s' ds. fat32_create_entry D (hd cs) name attr fc s = Some (0, s') \<and> fat_ready online cap s' \<and>
    is_chain (fat_entry (sectors (disk s')) (g_fs s')) (g_fs s') (cs @ ds) \<and>
    zero_tail (dir_slots (sectors (disk s')) (g_fs s') (cs @ ds)) \<and>
    (\<forall>x. slot_get x (dir_slots (sectors (disk s')) (g_fs s') (cs @ ds)) =
      (if x = sn then Some (dirent_to_bytes (new_dirent sn attr fc))
       else slot_get x (dir_slots (sectors (disk s)) (g_fs s) cs))) \<and>
    (\<forall>bs. is_chain (fat_entry (sectors (disk s)) (g_fs s)) (g_fs s) bs \<and> set bs \<inter> set cs = {} \<longrightarrow>
      is_chain (fat_entry (sectors (disk s')) (g_fs s')) (g_fs s') bs \<and>
      file_data (sectors (disk s')) (g_fs s') bs = file_data (sectors (disk s)) (g_fs s) bs)"
proof -
  have sn: "length sn = 11" "0 \<notin> set sn" using short_name_ok[OF assms(4)] assms(5) by auto
  obtain s' ds where c: "fat32_create_entry D (hd cs) name attr fc s = Some (0, s')"
    "is_chain (fat_entry (sectors (disk s')) (g_fs s')) (g_fs s') (cs @ ds)"
    "set ds \<subseteq> free_clusters (sectors (disk s)) (g_fs s)"
    "block_device.keeps sectors online cap s (set (cs @ ds)) s'"
    "zero_tail (dir_slots (sectors (disk s')) (g_fs s) (cs @ ds))"
    "\<And>x. slot_get x (dir_slots (sectors (disk s')) (g_fs s) (cs @ ds)) =
      (if x = sn then Some (dirent_to_bytes (new_dirent sn attr fc))
       else slot_get x (dir_slots (sectors (disk s)) (g_fs s) cs))"
    using assms(1-3,5) sn assms(6-10) by (rule block_device.create_entry_ok) (rule that)
  note view = block_device.keeps_views(3)[OF assms(1) c(4)]
    and other = block_device.keeps_other_file[OF assms(1,2) c(4,3)]
  have "fat_ready online cap s'" using c(4) by (simp add: block_device.keeps_def[OF assms(1)])
  with c(1,2,5,6) other show ?thesis by (auto simp: dir_slots_def view)
qed

theorem fat32_create_entry_correct_witness:
  "\<exists>s' ds. fat32_create_entry (ata_disk pio_drive) 3 (ascii ''a.b'' @ [0]) FAT32_ATTR_ARCHIVE 7 one_file_volume = Some (0, s') \<and>
    slot_get (ascii ''A       B  '') (dir_slots (pio.hw_sectors (disk s')) (g_fs s') (3 # ds)) =
      Some (dirent_to_bytes (new_dirent (ascii ''A       B  '') FAT32_ATTR_ARCHIVE 7))"
proof -
  have sn: "fat32_to_short_name (ascii ''a.b'' @ [0]) = Some (ascii ''A       B  '')" by code_simp
  have "cluster_data (pio.hw_sectors (disk one_file_volume)) small_fs 3 = replicate (16 * 32) 0"
    by (simp add: cluster_data_def small_fs_def cluster_lba_def one_file_volume_def pio.hw_sectors_def)
  then have d: "dir_slots (pio.hw_sectors (disk one_file_volume)) (g_fs one_file_volume) [3] =
      replicate 16 (replicate 32 0)"
    using slots_zero[of 16] by (simp add: dir_slots_def file_data_def one_file_volume_fs)
  have h: "is_cstr (ascii ''a.b'' @ [0])" "hd (ascii ''A       B  '') \<noteq> 0xE5" "FAT32_ATTR_ARCHIVE \<noteq> FAT32_ATTR_LFN"
    by (simp_all add: ascii_def is_cstr_def)
  have z: "zero_tail (replicate 16 (replicate 32 0))" "slot_get sn (replicate 16 (replicate 32 0)) = None"
    "list_ex slot_free (replicate 16 (replicate 32 0)) \<or>
      free_clusters (pio.hw_sectors (disk one_file_volume)) (g_fs one_file_volume) \<noteq> {}" for sn
    by (simp_all add: slot_free_def numeral_eq_Suc)
  from fat32_create_entry_correct[OF pio.blk.block_device_axioms one_file_volume_ready
      one_file_chain[folded one_file_volume_fs] h(1) sn h(2,3), unfolded d, OF z, of 7]
  obtain s' ds where "fat32_create_entry (ata_disk pio_drive) (hd [3]) (ascii ''a.b'' @ [0]) FAT32_ATTR_ARCHIVE 7
      one_file_volume = Some (0, s')"
    "slot_get (ascii ''A       B  '') (dir_slots (pio.hw_sectors (disk s')) (g_fs s') ([3] @ ds)) =
      (if ascii ''A       B  '' = ascii ''A       B  ''
       then Some (dirent_to_bytes (new_dirent (ascii ''A       B  '') FAT32_ATTR_ARCHIVE 7))
       else slot_get (ascii ''A       B  '') (replicate 16 (replicate 32 0)))" by blast
  then show ?thesis by (metis append_Cons append_Nil list.sel(1))
qed

end
