(* ===== verification/Fat32_Remove.thy ===== *)
theory Fat32_Remove
  imports Fat32_Lookup
begin

text \<open>
  Deleting and listing files: \<open>fat32_unlink\<close> and \<open>fat32_list_dir\<close> (with \<open>fat32_readdir\<close>) of \<open>src/fs/fat32.c\<close> over
  a block device.  Deleting is a removal from the directory as a map and frees exactly the clusters of the file; what a
  listing shows is a function of the slots of the directory, which reports an entry once more for every unused slot
  right before it.
\<close>

section \<open>Removing a slot\<close>

fun slot_del :: "bytes \<Rightarrow> bytes list \<Rightarrow> bytes list" where
  "slot_del sn [] = []"
| "slot_del sn (e # es) =
     (if e ! 0 = 0x00 then e # es
      else if live e \<and> take 11 e = sn then e[0 := 0xE5] # es
      else e # slot_del sn es)"

text \<open>The names a directory holds, up to its end mark.\<close>

definition slot_names :: "bytes list \<Rightarrow> bytes list" where
  "slot_names L = map (take 11) (filter live (takeWhile (\<lambda>e. e ! 0 \<noteq> 0x00) L))"

lemma slot_names_simps [simp]:
  "slot_names [] = []"
  "slot_names (e # es) = (if e ! 0 = 0x00 then [] else if live e then take 11 e # slot_names es else slot_names es)"
  by (simp_all add: slot_names_def)

lemma slot_get_None_iff: "slot_get sn L = None \<longleftrightarrow> sn \<notin> set (slot_names L)"
  by (induction L) auto

lemma not_live_deleted: "e \<noteq> [] \<Longrightarrow> \<not> live (e[0 := 0xE5]) \<and> e[0 := 0xE5] ! 0 \<noteq> 0x00"
  by (simp add: live_def)

lemma slot_del_names:
  "list_all (\<lambda>e. e \<noteq> []) L \<Longrightarrow> slot_names (slot_del sn L) = remove1 sn (slot_names L)"
  by (induction L) (auto simp: not_live_deleted)

lemma slot_del_get:
  assumes "list_all (\<lambda>e. e \<noteq> []) L" and "distinct (slot_names L)"
  shows "slot_get x (slot_del sn L) = (if x = sn then None else slot_get x L)"
proof (cases "x = sn")
  case True
  have "sn \<notin> set (slot_names (slot_del sn L))" using assms by (simp add: slot_del_names)
  then show ?thesis using True slot_get_None_iff by metis
next
  case False
  from assms(1) have "slot_get x (slot_del sn L) = slot_get x L"
    by (induction L) (use False in \<open>auto simp: not_live_deleted\<close>)
  with False show ?thesis by simp
qed

lemma slot_del_zero_tail:
  assumes "list_all (\<lambda>e. e \<noteq> []) L" and "zero_tail L"
  shows "zero_tail (slot_del sn L)"
  using assms by (induction L) (auto simp: not_live_deleted)

lemma slot_del_scan:
  "slot_del sn (xs @ ys) =
     (case scan_slots sn 0 xs of
        ScanEnd \<Rightarrow> xs @ ys
      | ScanHit i \<Rightarrow> xs[i := (xs ! i)[0 := 0xE5]] @ ys
      | ScanNext \<Rightarrow> xs @ slot_del sn ys)"
proof -
  have d: "Suc k \<le> j \<Longrightarrow> j - k = Suc (j - Suc k)" for k j :: nat by simp
  have "slot_del sn (xs @ ys) =
      (case scan_slots sn k xs of
         ScanEnd \<Rightarrow> xs @ ys
       | ScanHit i \<Rightarrow> xs[i - k := (xs ! (i - k))[0 := 0xE5]] @ ys
       | ScanNext \<Rightarrow> xs @ slot_del sn ys)" for k
  proof (induction xs arbitrary: k)
    case (Cons e xs)
    show ?case
      using Cons[of "Suc k"] scan_slots_get[of sn xs "Suc k"]
      by (auto split: dir_scan.splits simp: d)
  qed simp
  from this[of 0] show ?thesis by (simp split: dir_scan.splits)
qed

lemma slots_poke:
  assumes "length bs = n * 32" and "i < n"
  shows "slots (put_at bs (i * 32) [b]) = (slots bs)[i := (slots bs ! i)[0 := b]]"
proof -
  have le: "i * 32 + 32 \<le> length bs" using assms by simp
  have e: "slots bs ! i = take 32 (drop (i * 32) bs)" using assms by (simp add: slots_nth)
  have "put_at bs (i * 32) ((take 32 (drop (i * 32) bs))[0 := b]) = put_at bs (i * 32) [b]"
  proof -
    obtain x r where x: "drop (i * 32) bs = x # r" using le by (cases "drop (i * 32) bs") auto
    have r: "r = drop (i * 32 + 1) bs" using x by (metis add.commute drop_Suc drop_drop list.sel(3) plus_1_eq_Suc tl_drop)
    have "drop (i * 32 + 32) bs = drop 31 r" unfolding r by (simp add: add.commute)
    moreover have "31 \<le> length r" using le arg_cong[OF x, of length] by simp
    ultimately show ?thesis using le unfolding put_at_def x by (simp add: min_def add.commute) (simp add: r)
  qed
  moreover have "slots (put_at bs (i * 32) ((take 32 (drop (i * 32) bs))[0 := b])) =
      (slots bs)[i := (take 32 (drop (i * 32) bs))[0 := b]]"
    by (rule slots_put_at[OF assms]) (use le in simp)
  ultimately show ?thesis by (simp add: e)
qed

lemma slots_nonempty: "list_all (\<lambda>e. e \<noteq> []) (slots bs)"
proof -
  have "take 32 (drop (i * 32) bs) \<noteq> []" if "i < length bs div 32" for i
  proof -
    have "i * 32 + 32 \<le> length bs" using that by simp
    then show ?thesis by simp
  qed
  then show ?thesis by (auto simp: slots_def list_all_iff)
qed

text \<open>The clusters reachable along a well-formed chain are those in its list.\<close>

lemma chain_reach_list:
  assumes "geometry_ok cap fs" and "is_chain F fs cs"
  shows "chain_reach F fs (hd cs) x \<longleftrightarrow> x \<in> set cs"
proof
  have next_in: "F b \<in> set cs" if "b \<in> set cs" "valid_cluster fs (F b)" for b
  proof -
    from that(1) obtain us vs where cs: "cs = us @ b # vs" by (meson split_list)
    have ch: "is_chain F fs (b # vs)" using is_chain_suffix[of F fs us "b # vs"] assms(2) cs by simp
    have "vs \<noteq> []" using is_chain_end_iff[OF assms(1) ch] valid_not_eoc(1)[OF assms(1) that(2)] by auto
    then show ?thesis using is_chain_step[OF ch] cs by (cases vs) auto
  qed
  assume "chain_reach F fs (hd cs) x"
  then show "x \<in> set cs"
    by (induction rule: chain_reach.induct) (use next_in assms(2) in \<open>auto intro: list.set_sel(1)\<close>)
next
  have "chain_reach F fs (hd (us @ x # vs)) x" if "is_chain F fs (us @ x # vs)" for us vs
    using that
  proof (induction us arbitrary: x vs rule: rev_induct)
    case Nil
    then show ?case using is_chain_valid[OF Nil] by (auto intro: chain_start)
  next
    case (snoc u us)
    have ch: "is_chain F fs (u # x # vs)" using is_chain_suffix[of F fs us "u # x # vs"] snoc.prems by simp
    have "chain_reach F fs (hd (us @ u # x # vs)) u" using snoc.IH[of u "x # vs"] snoc.prems by simp
    moreover have "F u = x" "valid_cluster fs x" using ch is_chain_valid[OF ch] by auto
    ultimately show ?case using chain_step[of F fs "hd (us @ u # x # vs)" u] by (cases us) auto
  qed
  moreover assume "x \<in> set cs"
  ultimately show "chain_reach F fs (hd cs) x" using assms(2) by (metis split_list)
qed

section \<open>Deleting on the disk\<close>

text \<open>The clusters an entry owns: none, or the chain that starts at its first cluster.\<close>

definition owns :: "(u32 \<Rightarrow> bytes) \<Rightarrow> fat32_fs \<Rightarrow> fat32_dirent \<Rightarrow> u32 list \<Rightarrow> bool" where
  "owns S fs e fcs \<longleftrightarrow>
     (if dirent_cluster e < 2 then fcs = [] else is_chain (fat_entry S fs) fs fcs \<and> hd fcs = dirent_cluster e)"

lemma lookup_chain_split:
  assumes "lookup_chain S fs sn cs = Some (e, c, off)"
  obtains us vs i where "cs = us @ c # vs" and "\<And>x. x \<in> set us \<Longrightarrow> scan_slots sn 0 (slots (cluster_data S fs x)) = ScanNext"
    and "scan_slots sn 0 (slots (cluster_data S fs c)) = ScanHit i" and "off = of_nat (i * 32)"
    and "e = dirent_of_bytes (slots (cluster_data S fs c) ! i)"
proof -
  have "\<exists>us vs i. cs = us @ c # vs \<and> (\<forall>x \<in> set us. scan_slots sn 0 (slots (cluster_data S fs x)) = ScanNext) \<and>
      scan_slots sn 0 (slots (cluster_data S fs c)) = ScanHit i \<and> off = of_nat (i * 32) \<and>
      e = dirent_of_bytes (slots (cluster_data S fs c) ! i)"
    using assms
  proof (induction cs)
    case (Cons a cs)
    show ?case
    proof (cases "scan_slots sn 0 (slots (cluster_data S fs a))")
      case ScanEnd
      then show ?thesis using Cons.prems by simp
    next
      case (ScanHit i)
      then show ?thesis using Cons.prems by (intro exI[of _ "[]"] exI[of _ cs] exI[of _ i]) auto
    next
      case ScanNext
      with Cons obtain us vs i where "cs = us @ c # vs" "\<forall>x \<in> set us. scan_slots sn 0 (slots (cluster_data S fs x)) = ScanNext"
        "scan_slots sn 0 (slots (cluster_data S fs c)) = ScanHit i" "off = of_nat (i * 32)"
        "e = dirent_of_bytes (slots (cluster_data S fs c) ! i)" by auto
      with ScanNext show ?thesis by (intro exI[of _ "a # us"] exI[of _ vs] exI[of _ i]) auto
    qed
  qed simp
  then show ?thesis using that by blast
qed

context block_device
begin

text \<open>Freeing the chain of a file changes the table at its clusters only.\<close>

lemma free_owned_ok:
  assumes r: "ready s" and o: "owns (on_disk s) (g_fs s) e fcs"
  obtains s' where
    "(if dirent_cluster e \<ge> 2 then fat32_free_cluster_chain D (dirent_cluster e) s else Some s) = Some s'"
    "g_fs s' = g_fs s" "keeps s (set fcs) s'" "same_data s s'" "cluster_buffer s' = cluster_buffer s"
    "\<And>x. valid_cluster (g_fs s) x \<Longrightarrow>
      fat_entry (on_disk s') (g_fs s) x = (if x \<in> set fcs then 0 else fat_entry (on_disk s) (g_fs s) x)"
proof (cases "dirent_cluster e < 2")
  case True
  then show ?thesis
    using that[of s] o keeps_io[OF r io_to_refl[OF r]] by (auto simp: owns_def not_le[symmetric])
next
  case False
  let ?c = "dirent_cluster e"
  have ch: "chain_at s fcs" "hd fcs = ?c" using o False by (simp_all add: owns_def)
  from free_chain_ok[OF r, of ?c] obtain s' S' where s': "fat32_free_cluster_chain D ?c s = Some s'"
    "io_to s S' (cluster_buffer s) s'" "chain_freed (on_disk s) (g_fs s) ?c S'" by blast
  note f = io_toD[OF s'(2)]
  have reach: "chain_reach (fat_entry (on_disk s) (g_fs s)) (g_fs s) ?c x \<longleftrightarrow> x \<in> set fcs" for x
    using chain_reach_list[OF ready_geometry[OF r] ch(1), of x] ch(2) by simp
  have d: "cluster_data (on_disk s') (g_fs s) x = cluster_data (on_disk s) (g_fs s) x"
    and t: "\<And>k. k < unat (num_fats (g_fs s)) \<Longrightarrow> fat_copy (on_disk s') (g_fs s) k x =
      (if x \<in> set fcs then 0 else fat_copy (on_disk s) (g_fs s) k x)" if "valid_cluster (g_fs s) x" for x
    using s'(3) that unfolding chain_freed_def reach f(1) by auto
  have "keeps s (set fcs) s'"
    using d t io_to_ready[OF s'(2) r] f(3) by (auto simp: keeps_def intro!: exI[of _ "fs_fsinfo (g_fs s)"])
  then show ?thesis
    using that[of s'] s'(1) False d t num_fats_pos[OF r] f(2,3) by (simp add: same_data_def not_less)
qed

text \<open>Marking a slot of a cluster as deleted.\<close>

lemma mark_slot_ok:
  assumes r: "ready s" and v: "valid_cluster (g_fs s) c" and i: "i < length (slots (cluster_data (on_disk s) (g_fs s) c))"
  obtains s1 s2 buf where "fat32_read_cluster D c s = Some (0, s1)" "g_fs s1 = g_fs s"
    "store (cluster_buffer s1) (unat (of_nat (i * 32) :: u32)) [0xE5] = Some buf"
    "fat32_write_cluster D c (s1\<lparr>cluster_buffer := buf\<rparr>) = Some (0, s2)" "g_fs s2 = g_fs s" "keeps s {c} s2"
    "\<And>x. valid_cluster (g_fs s) x \<Longrightarrow> fat_entry (on_disk s2) (g_fs s) x = fat_entry (on_disk s) (g_fs s) x"
    "slots (cluster_data (on_disk s2) (g_fs s) c) = (slots (cluster_data (on_disk s) (g_fs s) c))
      [i := (slots (cluster_data (on_disk s) (g_fs s) c) ! i)[0 := 0xE5]]"
proof -
  let ?fs = "g_fs s" and ?d = "cluster_data (on_disk s) (g_fs s) c"
  let ?b = "put_at (cluster_buffer s) 0 ?d"
  obtain s1 where s1: "fat32_read_cluster D c s = Some (0, s1)" "io_to s (on_disk s) ?b s1"
    using r v by (rule read_cluster_ok)
  note f1 = io_toD[OF s1(2)] and r1 = io_to_ready[OF s1(2) r]
  define n where "n = unat (bytes_per_cluster ?fs div 32)"
  note bs = buffer_slots[where c = c, OF r refl n_def]
  have i: "i < n" using i bs(3) by simp
  have lb: "length ?b = CLUSTER_BUFFER_SIZE" using r1 f1(2) by (simp add: fat_ready_def buffers_ok_def)
  have le: "i * 32 + 32 \<le> n * 32" using i by simp
  have u: "unat (of_nat (i * 32) :: u32) = i * 32" using i bs(5) by (intro unat_of_nat_u32) simp
  have st: "store ?b (i * 32) [0xE5] = Some (put_at ?b (i * 32) [0xE5])" using le bs(2) by (intro store_put_at) simp
  have lb2: "length (put_at ?b (i * 32) [0xE5]) = CLUSTER_BUFFER_SIZE" using store_length[OF st] lb by simp
  have v1: "valid_cluster (g_fs s1) c" using v f1(3) by simp
  obtain s2 where s2: "fat32_write_cluster D c (s1\<lparr>cluster_buffer := put_at ?b (i * 32) [0xE5]\<rparr>) = Some (0, s2)"
    "g_fs s2 = g_fs s1" "keeps s1 {c} s2"
    "\<And>x. valid_cluster (g_fs s1) x \<Longrightarrow> fat_entry (on_disk s2) (g_fs s1) x = fat_entry (on_disk s1) (g_fs s1) x"
    "cluster_data (on_disk s2) (g_fs s1) c = take (unat (bytes_per_cluster (g_fs s1))) (put_at ?b (i * 32) [0xE5])"
    using r1 v1 lb2 by (rule write_buffer_ok) (rule that)
  have bpc: "unat (bytes_per_cluster ?fs) = n * 32" using bs(3) length_cluster_ready[OF r, of c] by simp
  have "take (n * 32) (put_at ?b (i * 32) [0xE5]) = put_at ?d (i * 32) [0xE5]"
    using le bs(3) by (simp add: put_at_def take_Cons')
  then have "slots (cluster_data (on_disk s2) ?fs c) = (slots ?d)[i := (slots ?d ! i)[0 := 0xE5]]"
    using s2(5) f1(3) bpc slots_poke[OF bs(3) i, of "0xE5"] by simp
  moreover have "keeps s {c} s2" using keeps_trans[OF keeps_io(1)[OF r s1(2), of "{}"] s2(3)] by simp
  ultimately show ?thesis using that[of s1 "put_at ?b (i * 32) [0xE5]" s2] s1(1) s2(1,2,4) st u f1(1,2,3) by simp
qed

lemma dir_slots_append:
  assumes "ready s"
  shows "dir_slots (on_disk s) (g_fs s) (us @ vs) = dir_slots (on_disk s) (g_fs s) us @ dir_slots (on_disk s) (g_fs s) vs"
proof (induction us)
  case Nil
  then show ?case by (simp add: dir_slots_def file_data_def slots_def)
next
  case (Cons c us)
  then show ?case by (simp add: dir_slots_Cons[OF assms])
qed

lemma slot_del_chain:
  assumes r: "ready s" and "\<And>x. x \<in> set us \<Longrightarrow> scan_slots sn 0 (slots (cluster_data (on_disk s) (g_fs s) x)) = ScanNext"
    and hit: "scan_slots sn 0 (slots (cluster_data (on_disk s) (g_fs s) c)) = ScanHit i"
  shows "slot_del sn (dir_slots (on_disk s) (g_fs s) (us @ c # vs)) =
    dir_slots (on_disk s) (g_fs s) us @ (slots (cluster_data (on_disk s) (g_fs s) c))
      [i := (slots (cluster_data (on_disk s) (g_fs s) c) ! i)[0 := 0xE5]] @ dir_slots (on_disk s) (g_fs s) vs"
  using assms(2)
proof (induction us)
  case Nil
  then show ?case using hit by (simp add: dir_slots_Cons[OF r] slot_del_scan) (simp add: dir_slots_def file_data_def slots_def)
next
  case (Cons a us)
  then show ?case by (simp add: dir_slots_Cons[OF r] slot_del_scan)
qed

lemma unlink_ok:
  assumes r: "ready s" and ch: "chain_at s cs" and cur: "hd cs = g_current_dir_cluster s"
    and sn: "fat32_to_short_name path = Some sn" "length sn = 11"
    and e: "slot_get sn (dir_slots (on_disk s) (g_fs s) cs) = Some b"
    and o: "owns (on_disk s) (g_fs s) (dirent_of_bytes b) fcs" and dis: "set fcs \<inter> set cs = {}"
  obtains s' where "fat32_unlink D path s = Some (0, s')" "g_fs s' = g_fs s" "keeps s (set (cs @ fcs)) s'"
    "dir_slots (on_disk s') (g_fs s) cs = slot_del sn (dir_slots (on_disk s) (g_fs s) cs)"
    "\<And>x. valid_cluster (g_fs s) x \<Longrightarrow>
      fat_entry (on_disk s') (g_fs s) x = (if x \<in> set fcs then 0 else fat_entry (on_disk s) (g_fs s) x)"
proof -
  let ?fs = "g_fs s" and ?d = "\<lambda>x. cluster_data (on_disk s) (g_fs s) x"
  obtain s0 where s0: "fat32_find_entry D (hd cs) path s = Some (lookup_chain (on_disk s) ?fs sn cs, s0)"
    "io_to s (on_disk s) (cluster_buffer s0) s0" using find_entry_ok[OF r ch sn] by blast
  note f0 = io_toD[OF s0(2)] and r0 = io_to_ready[OF s0(2) r]
  obtain en c off where hit: "lookup_chain (on_disk s) ?fs sn cs = Some (en, c, off)" and en: "en = dirent_of_bytes b"
    using lookup_chain_get[OF r, of sn cs] e by auto
  obtain us vs i where cs: "cs = us @ c # vs"
    and us: "\<And>x. x \<in> set us \<Longrightarrow> scan_slots sn 0 (slots (?d x)) = ScanNext"
    and i: "scan_slots sn 0 (slots (?d c)) = ScanHit i" "off = of_nat (i * 32)"
    using hit by (rule lookup_chain_split) (rule that)
  have o0: "owns (on_disk s0) (g_fs s0) en fcs" using o f0(1,3) by (simp add: en)
  obtain s1 where s1: "(if dirent_cluster en \<ge> 2 then fat32_free_cluster_chain D (dirent_cluster en) s0 else Some s0) = Some s1"
    "g_fs s1 = g_fs s0" "keeps s0 (set fcs) s1" "same_data s0 s1"
    "\<And>x. valid_cluster (g_fs s0) x \<Longrightarrow>
      fat_entry (on_disk s1) (g_fs s0) x = (if x \<in> set fcs then 0 else fat_entry (on_disk s0) (g_fs s0) x)"
    using r0 o0 by (rule free_owned_ok) (rule that)
  have r1: "ready s1" using s1(3) by (simp add: keeps_def)
  have fs1: "g_fs s1 = ?fs" using s1(2) f0(3) by simp
  have v: "valid_cluster ?fs x" if "x \<in> set cs" for x using is_chain_valid[OF ch that] .
  have d1: "cluster_data (on_disk s1) ?fs x = ?d x" if "valid_cluster ?fs x" for x
    using s1(4) that f0(1,3) by (simp add: same_data_def)
  have v1: "valid_cluster (g_fs s1) c" using v fs1 by (simp add: cs)
  have i1: "i < length (slots (cluster_data (on_disk s1) (g_fs s1) c))"
    using scan_slots_get[of sn "slots (?d c)" 0] i(1) d1[of c] v by (simp add: fs1 cs)
  obtain s2 s3 buf where s3: "fat32_read_cluster D c s1 = Some (0, s2)" "g_fs s2 = g_fs s1"
    "store (cluster_buffer s2) (unat (of_nat (i * 32) :: u32)) [0xE5] = Some buf"
    "fat32_write_cluster D c (s2\<lparr>cluster_buffer := buf\<rparr>) = Some (0, s3)" "g_fs s3 = g_fs s1" "keeps s1 {c} s3"
    "\<And>x. valid_cluster (g_fs s1) x \<Longrightarrow> fat_entry (on_disk s3) (g_fs s1) x = fat_entry (on_disk s1) (g_fs s1) x"
    "slots (cluster_data (on_disk s3) (g_fs s1) c) = (slots (cluster_data (on_disk s1) (g_fs s1) c))
      [i := (slots (cluster_data (on_disk s1) (g_fs s1) c) ! i)[0 := 0xE5]]"
    using r1 v1 i1 by (rule mark_slot_ok) (rule that)
  have "fat32_unlink D path s = Some (0, s3)"
    using s0(1) hit s1(1) s3(1,3,4) cur i(2) by (simp add: fat32_unlink_def Let_def split: if_splits)
  moreover have k1: "keeps s (set fcs) s1" using keeps_trans[OF keeps_io(1)[OF r s0(2), of "{}"] s1(3)] by simp
  moreover have "keeps s (set (cs @ fcs)) s3" by (rule keeps_mono[OF keeps_trans[OF k1 s3(6)]]) (auto simp: cs)
  moreover have "dir_slots (on_disk s3) ?fs cs = slot_del sn (dir_slots (on_disk s) ?fs cs)"
  proof -
    have dist: "distinct cs" using is_chain_distinct[OF ready_geometry[OF r] ch] .
    have same: "dir_slots (on_disk s3) ?fs xs = dir_slots (on_disk s) ?fs xs" if "set xs \<subseteq> set cs" "c \<notin> set xs" for xs
    proof -
      have "cluster_data (on_disk s3) ?fs x = ?d x" if "x \<in> set xs" for x
      proof -
        have "valid_cluster ?fs x" "x \<noteq> c" using v that \<open>set xs \<subseteq> set cs\<close> \<open>c \<notin> set xs\<close> by auto
        then show ?thesis using s3(6) d1[of x] by (simp add: keeps_def fs1)
      qed
      then show ?thesis unfolding dir_slots_def by (intro arg_cong[where f = slots] file_data_cong)
    qed
    have r3: "ready s3" and fs3: "g_fs s3 = ?fs" using s3(5,6) fs1 by (simp_all add: keeps_def)
    have "slots (cluster_data (on_disk s3) ?fs c) = (slots (?d c))[i := (slots (?d c) ! i)[0 := 0xE5]]"
      using s3(8) d1[of c] v by (simp add: fs1 cs)
    moreover have "dir_slots (on_disk s3) ?fs us = dir_slots (on_disk s) ?fs us" "dir_slots (on_disk s3) ?fs vs = dir_slots (on_disk s) ?fs vs"
      by (rule same; use dist in \<open>auto simp: cs\<close>)+
    ultimately have "dir_slots (on_disk s3) ?fs cs =
        dir_slots (on_disk s) ?fs us @ (slots (?d c))[i := (slots (?d c) ! i)[0 := 0xE5]] @ dir_slots (on_disk s) ?fs vs"
      using dir_slots_append[OF r3, of us "c # vs"] dir_slots_Cons[OF r3, of c vs]
      by (simp add: fs3 cs)
    then show ?thesis using slot_del_chain[OF r us i(1)] by (simp add: cs)
  qed
  moreover have "fat_entry (on_disk s3) ?fs x = (if x \<in> set fcs then 0 else fat_entry (on_disk s) ?fs x)"
    if "valid_cluster ?fs x" for x
    using s3(7) s1(5) that f0(1,3) by (simp add: fs1)
  ultimately show ?thesis using that[of s3] s3(5) fs1 by simp
qed

lemma unlink_missing:
  assumes r: "ready s" and ch: "chain_at s cs" and cur: "hd cs = g_current_dir_cluster s"
    and sn: "fat32_to_short_name path = Some sn" "length sn = 11"
    and e: "slot_get sn (dir_slots (on_disk s) (g_fs s) cs) = None"
  shows "\<exists>s'. fat32_unlink D path s = Some (- 1, s') \<and> io_to s (on_disk s) (cluster_buffer s') s'"
  using find_entry_ok[OF r ch sn] lookup_chain_get[OF r, of sn cs] e cur by (auto simp: fat32_unlink_def)

end

section \<open>Listing a directory\<close>

text \<open>The first live slot, and what successive calls of \<open>fat32_readdir\<close> return: each starts one slot further.\<close>

fun first_live :: "bytes list \<Rightarrow> bytes option" where
  "first_live [] = None"
| "first_live (e # es) = (if e ! 0 = 0x00 then None else if live e then Some e else first_live es)"

fun listing :: "bytes list \<Rightarrow> bytes list" where
  "listing [] = []"
| "listing (e # es) = (case first_live (e # es) of None \<Rightarrow> [] | Some x \<Rightarrow> x # listing es)"

text \<open>Without unused slots a listing is the directory; with them the next entry is shown again and again.\<close>

lemma listing_live: "list_all live us \<Longrightarrow> z ! 0 = 0x00 \<Longrightarrow> listing (us @ z # vs) = us"
  by (induction us) (auto simp: live_def)

lemma first_live_dead: "list_all (\<lambda>d. \<not> live d \<and> d ! 0 \<noteq> 0x00) ds \<Longrightarrow> live e \<Longrightarrow> first_live (ds @ e # es) = Some e"
  by (induction ds) (auto simp: live_def)

lemma listing_repeats:
  "list_all (\<lambda>d. \<not> live d \<and> d ! 0 \<noteq> 0x00) ds \<Longrightarrow> live e \<Longrightarrow> listing (ds @ e # es) = replicate (Suc (length ds)) e @ listing es"
proof (induction ds)
  case Nil
  then show ?case by (simp add: live_def)
next
  case (Cons d ds)
  have "first_live (d # ds @ e # es) = Some e" using first_live_dead[of "d # ds" e es] Cons.prems by simp
  then show ?case using Cons by simp
qed

fun scan_live :: "nat \<Rightarrow> bytes list \<Rightarrow> dir_scan" where
  "scan_live i [] = ScanNext"
| "scan_live i (e # es) = (if e ! 0 = 0x00 then ScanEnd else if live e then ScanHit i else scan_live (Suc i) es)"

lemma scan_live_bound: "scan_live i L = ScanHit j \<Longrightarrow> i \<le> j \<and> j < i + length L"
  by (induction L arbitrary: i) (fastforce split: if_splits)+

lemma first_live_scan:
  "first_live (xs @ ys) =
     (case scan_live i xs of ScanEnd \<Rightarrow> None | ScanHit j \<Rightarrow> Some (xs ! (j - i)) | ScanNext \<Rightarrow> first_live ys)"
proof (induction xs arbitrary: i)
  case (Cons e xs)
  have d: "Suc k \<le> j \<Longrightarrow> j - k = Suc (j - Suc k)" for k j :: nat by simp
  show ?case using Cons[of "Suc i"] scan_live_bound[of "Suc i" xs] by (auto split: dir_scan.splits simp: d)
qed simp

lemma readdir_scan_eq:
  "(i + n) * 32 \<le> length buf \<Longrightarrow>
   readdir_scan buf n i = Some (scan_live i (map (\<lambda>j. take 32 (drop (j * 32) buf)) [i..<i + n]))"
proof (induction n arbitrary: i)
  case (Suc n)
  define e where "e = take 32 (drop (i * 32) buf)"
  have ld: "load buf (i * 32) 32 = Some e" using Suc.prems by (simp add: load_def e_def)
  have upt: "[i..<i + Suc n] = i # [Suc i..<Suc i + n]" by (simp add: upt_conv_Cons)
  have IH: "readdir_scan buf n (Suc i) =
      Some (scan_live (Suc i) (map (\<lambda>j. take 32 (drop (j * 32) buf)) [Suc i..<Suc i + n]))"
    using Suc.IH[of "Suc i"] Suc.prems by simp
  show ?case unfolding upt using ld IH by (simp add: live_def e_def [symmetric] del: upt_Suc)
qed simp

text \<open>A line of the listing.\<close>

definition dir_line :: "bytes \<Rightarrow> bytes" where
  "dir_line b =
     (let e = dirent_of_bytes b; name = display_name (de_name e)
      in (if de_attr e AND FAT32_ATTR_DIRECTORY \<noteq> 0 then ascii ''<DIR> '' else ascii ''      '') @
         cstr (name @ replicate (256 - length name) 0) @ [0x0A])"

lemma skip_chain_add:
  "skip_chain D (m + n) c s = (let (c', s') = skip_chain D m c s in skip_chain D n c' s')"
proof (induction m arbitrary: c s)
  case (Suc m)
  show ?case
  proof (cases "2 \<le> c")
    case True
    then show ?thesis using Suc by (simp add: case_prod_beta Let_def)
  next
    case False
    then show ?thesis by (cases n) simp_all
  qed
qed simp

context block_device
begin

lemma readdir_step:
  assumes r: "ready s" and v: "valid_cluster (g_fs s) c" and k: "k \<le> unat (bytes_per_cluster (g_fs s) div 32)"
  obtains s1 where "io_to s (on_disk s) (cluster_buffer s1) s1"
    "readdir_loop D k c s =
      (case scan_live k (drop k (slots (cluster_data (on_disk s) (g_fs s) c))) of
         ScanEnd \<Rightarrow> Some (None, s1)
       | ScanHit i \<Rightarrow> Some (Some (dirent_of_bytes (slots (cluster_data (on_disk s) (g_fs s) c) ! i)), s1)
       | ScanNext \<Rightarrow> (let (next, s2) = fat32_read_fat D c s1 in readdir_loop D 0 next s2))"
proof -
  let ?d = "cluster_data (on_disk s) (g_fs s) c" and ?b = "put_at (cluster_buffer s) 0 (cluster_data (on_disk s) (g_fs s) c)"
  obtain s1 where s1: "fat32_read_cluster D c s = Some (0, s1)" "io_to s (on_disk s) ?b s1"
    using r v by (rule read_cluster_ok)
  note f1 = io_toD[OF s1(2)]
  define n where "n = unat (bytes_per_cluster (g_fs s) div 32)"
  note bs = buffer_slots[where c = c, OF r refl n_def]
  have kn: "k \<le> n" using k by (simp add: n_def)
  have "drop k (slots ?d) = map (\<lambda>j. take 32 (drop (j * 32) ?b)) [k..<k + (n - k)]"
    unfolding bs(1)[symmetric] using kn by (simp add: drop_map)
  then have sc: "readdir_scan (cluster_buffer s1) (n - k) k = Some (scan_live k (drop k (slots ?d)))"
    using readdir_scan_eq[of k "n - k" ?b] kn bs(2) f1(2) by simp
  have hit: "dirent_of_bytes (drop (i * 32) (cluster_buffer s1)) = dirent_of_bytes (slots ?d ! i)"
    if "scan_live k (drop k (slots ?d)) = ScanHit i" for i
  proof -
    have i: "i < n" using scan_live_bound[OF that] bs(3) kn by simp
    then have "i * 32 + 32 \<le> length ?b" using bs(2) by linarith
    then have "dirent_of_bytes (drop (i * 32) ?b) = dirent_of_bytes (take 32 (drop (i * 32) ?b))"
      by (intro dirent_of_bytes_take[symmetric]) simp
    moreover have "take 32 (drop (i * 32) ?b) = slots ?d ! i" using i unfolding bs(1)[symmetric] by simp
    ultimately show ?thesis unfolding f1(2) by simp
  qed
  have "cluster_in_range s c" using cluster_in_range_iff[OF ready_geometry[OF r]] v by simp
  then have "2 \<le> c \<and> c < FAT32_EOC_MIN" using valid_not_eoc[OF ready_geometry[OF r] v] by simp
  then have "readdir_loop D k c s =
      (case scan_live k (drop k (slots ?d)) of
         ScanEnd \<Rightarrow> Some (None, s1)
       | ScanHit i \<Rightarrow> Some (Some (dirent_of_bytes (slots ?d ! i)), s1)
       | ScanNext \<Rightarrow> (let (next, s2) = fat32_read_fat D c s1 in readdir_loop D 0 next s2))"
    using s1(1) sc hit f1(3) n_def by (subst readdir_loop.simps) (simp split: dir_scan.splits)
  then show ?thesis using that[of s1] s1(2) f1(2) by simp
qed

lemma readdir_loop_stop: "\<not> (2 \<le> c \<and> c < FAT32_EOC_MIN) \<Longrightarrow> readdir_loop D k c s = Some (None, s)"
  by (subst readdir_loop.simps) auto

lemma readdir_loop_ok:
  assumes "ready s" and "chain_at s (c # cs)" and "k \<le> unat (bytes_per_cluster (g_fs s) div 32)"
  shows "\<exists>s'. readdir_loop D k c s =
      Some (map_option dirent_of_bytes (first_live (drop k (dir_slots (on_disk s) (g_fs s) (c # cs)))), s') \<and>
    io_to s (on_disk s) (cluster_buffer s') s'"
  using assms
proof (induction cs arbitrary: c s k)
  case (Nil c s k)
  let ?d = "slots (cluster_data (on_disk s) (g_fs s) c)"
  have v: "valid_cluster (g_fs s) c" using Nil.prems(2) by simp
  obtain s1 where s1: "io_to s (on_disk s) (cluster_buffer s1) s1"
    "readdir_loop D k c s = (case scan_live k (drop k ?d) of
       ScanEnd \<Rightarrow> Some (None, s1) | ScanHit i \<Rightarrow> Some (Some (dirent_of_bytes (?d ! i)), s1)
     | ScanNext \<Rightarrow> (let (next, s2) = fat32_read_fat D c s1 in readdir_loop D 0 next s2))"
    using Nil.prems(1) v Nil.prems(3) by (rule readdir_step)
  note f1 = io_toD[OF s1(1)] and r1 = io_to_ready[OF s1(1) Nil.prems(1)]
  have v1: "valid_cluster (g_fs s1) c" using v f1(3) by simp
  obtain s2 where s2: "fat32_read_fat D c s1 = (fat_entry (on_disk s1) (g_fs s1) c, s2)"
    "io_to s1 (on_disk s1) (cluster_buffer s1) s2" using r1 v1 by (rule read_fat_ok)
  have "\<not> (2 \<le> fat_entry (on_disk s1) (g_fs s1) c \<and> fat_entry (on_disk s1) (g_fs s1) c < FAT32_EOC_MIN)"
    using Nil.prems(2) f1(1,3) by (auto dest: leD)
  then have stop: "readdir_loop D 0 (fat_entry (on_disk s1) (g_fs s1) c) s2 = Some (None, s2)" by (rule readdir_loop_stop)
  have "io_to s (on_disk s) (cluster_buffer s2) s2"
    using io_to_trans[OF s1(1) s2(2)] f1(1) io_toD(2)[OF s2(2)] by simp
  moreover have "dir_slots (on_disk s) (g_fs s) [c] = ?d" by (simp add: dir_slots_def file_data_def)
  ultimately show ?case
    using s1 s2(1) stop first_live_scan[of "drop k ?d" "[]" k] scan_live_bound[of k "drop k ?d"]
    by (cases "scan_live k (drop k ?d)") auto
next
  case (Cons d cs c s k)
  let ?d = "slots (cluster_data (on_disk s) (g_fs s) c)"
  have v: "valid_cluster (g_fs s) c" using Cons.prems(2) by simp
  obtain s1 where s1: "io_to s (on_disk s) (cluster_buffer s1) s1"
    "readdir_loop D k c s = (case scan_live k (drop k ?d) of
       ScanEnd \<Rightarrow> Some (None, s1) | ScanHit i \<Rightarrow> Some (Some (dirent_of_bytes (?d ! i)), s1)
     | ScanNext \<Rightarrow> (let (next, s2) = fat32_read_fat D c s1 in readdir_loop D 0 next s2))"
    using Cons.prems(1) v Cons.prems(3) by (rule readdir_step)
  note f1 = io_toD[OF s1(1)] and r1 = io_to_ready[OF s1(1) Cons.prems(1)]
  obtain s2 where s2: "fat32_read_fat D c s1 = (d, s2)" "io_to s1 (on_disk s1) (cluster_buffer s1) s2"
    using read_fat_ok[OF r1, of c] v f1(1,3) Cons.prems(2) by auto
  have io2: "io_to s (on_disk s) (cluster_buffer s2) s2"
    using io_to_trans[OF s1(1) s2(2)] f1(1) io_toD(2)[OF s2(2)] by simp
  note f2 = io_toD[OF io2]
  from Cons.IH[OF io_to_ready[OF io2 Cons.prems(1)], of d 0] Cons.prems(2) f2(1,3) obtain s' where
    s': "readdir_loop D 0 d s2 = Some (map_option dirent_of_bytes (first_live (dir_slots (on_disk s) (g_fs s) (d # cs))), s')"
    "io_to s2 (on_disk s) (cluster_buffer s') s'" by auto
  have "k \<le> length ?d" using Cons.prems(3) buffer_slots(3)[where c = c, OF Cons.prems(1) refl refl] by simp
  then have dr: "drop k (dir_slots (on_disk s) (g_fs s) (c # d # cs)) = drop k ?d @ dir_slots (on_disk s) (g_fs s) (d # cs)"
    by (simp add: dir_slots_Cons[OF Cons.prems(1), of c])
  show ?case
    unfolding dr first_live_scan[where i = k]
    using s1 s2(1) s'(1) io_to_trans[OF io2 s'(2)] scan_live_bound[of k "drop k ?d"]
    by (cases "scan_live k (drop k ?d)") auto
qed

text \<open>Following the links of a whole chain leads to its end mark.\<close>

lemma skip_chain_end:
  assumes "ready s" and "chain_at s cs"
  shows "\<exists>e s'. skip_chain D (length cs) (hd cs) s = (e, s') \<and> FAT32_EOC_MIN \<le> e \<and> io_to s (on_disk s) (cluster_buffer s) s'"
proof -
  obtain ds c where cs: "cs = ds @ [c]" using assms(2) by (cases cs rule: rev_cases) auto
  obtain s1 where s1: "skip_chain D (length ds) (hd cs) s = (c, s1)" "io_to s (on_disk s) (cluster_buffer s) s1"
    using skip_chain_ok[OF assms, of "length ds"] by (auto simp: cs)
  note f1 = io_toD[OF s1(2)] and r1 = io_to_ready[OF s1(2) assms(1)]
  have c: "valid_cluster (g_fs s) c" "FAT32_EOC_MIN \<le> fat_entry (on_disk s) (g_fs s) c"
    using is_chain_suffix[of _ _ ds "[c]"] assms(2) by (auto simp: cs)
  have v1: "valid_cluster (g_fs s1) c" using c(1) f1(3) by simp
  obtain s2 where s2: "fat32_read_fat D c s1 = (fat_entry (on_disk s1) (g_fs s1) c, s2)"
    "io_to s1 (on_disk s1) (cluster_buffer s1) s2" using r1 v1 by (rule read_fat_ok)
  have "skip_chain D (length cs) (hd cs) s = (fat_entry (on_disk s1) (g_fs s1) c, s2)"
    using skip_chain_add[of D "length ds" 1 "hd cs" s] s1(1) s2(1) valid_not_eoc(2)[OF ready_geometry[OF assms(1)] c(1)]
    by (simp add: cs)
  then show ?thesis using c(2) f1 io_to_trans[OF s1(2) s2(2)] by auto
qed

lemma length_dir_slots:
  assumes "ready s"
  shows "length (dir_slots (on_disk s) (g_fs s) cs) = length cs * unat (bytes_per_cluster (g_fs s) div 32)"
proof (induction cs)
  case (Cons c cs)
  then show ?case using buffer_slots(3)[where c = c, OF assms refl refl] by (simp add: dir_slots_Cons[OF assms])
qed (simp add: dir_slots_def file_data_def slots_def)

lemma dir_slots_drop:
  assumes "ready s" and "q \<le> length cs"
  shows "dir_slots (on_disk s) (g_fs s) (drop q cs) =
    drop (q * unat (bytes_per_cluster (g_fs s) div 32)) (dir_slots (on_disk s) (g_fs s) cs)"
  using dir_slots_append[OF assms(1), of "take q cs" "drop q cs"] length_dir_slots[OF assms(1), of "take q cs"] assms(2)
  by simp

text \<open>One call: the first live entry at or after the index, and the index is one further.\<close>

lemma readdir_ok:
  assumes r: "ready s" and ch: "chain_at s cs" and i: "unat idx \<le> length (dir_slots (on_disk s) (g_fs s) cs)"
  shows "\<exists>s'. fat32_readdir D (hd cs) idx info s =
      Some (case first_live (drop (unat idx) (dir_slots (on_disk s) (g_fs s) cs)) of
              None \<Rightarrow> (- 1, idx, info, s')
            | Some b \<Rightarrow> (0, idx + 1, fill_info (dirent_of_bytes b) info, s')) \<and>
    io_to s (on_disk s) (cluster_buffer s') s'"
proof -
  define n where "n = unat (bytes_per_cluster (g_fs s) div 32)"
  let ?L = "dir_slots (on_disk s) (g_fs s) cs" and ?q = "unat idx div n" and ?k = "unat idx mod n"
  obtain c ds where cs: "cs = c # ds" using ch by (cases cs) auto
  have n: "0 < n" using buffer_slots(4)[where c = c, OF r refl n_def] .
  have L: "length ?L = length cs * n" using length_dir_slots[OF r, of cs] by (simp add: n_def)
  have div: "unat (idx div (bytes_per_cluster (g_fs s) div 32)) = ?q" "unat (idx mod (bytes_per_cluster (g_fs s) div 32)) = ?k"
    by (simp_all add: n_def unat_div unat_mod)
  have nz: "bytes_per_cluster (g_fs s) div 32 \<noteq> 0" using n by (auto simp: n_def)
  show ?thesis
  proof (cases "unat idx < length ?L")
    case True
    have q: "?q < length cs" using True L n by (simp add: less_mult_imp_div_less)
    obtain s1 where s1: "skip_chain D ?q (hd cs) s = (cs ! ?q, s1)" "io_to s (on_disk s) (cluster_buffer s) s1"
      using skip_chain_ok[OF r ch q] by blast
    note f1 = io_toD[OF s1(2)] and r1 = io_to_ready[OF s1(2) r]
    have d: "drop ?q cs = cs ! ?q # drop (Suc ?q) cs" using q by (simp add: Cons_nth_drop_Suc)
    have ch1: "chain_at s1 (cs ! ?q # drop (Suc ?q) cs)"
      using is_chain_suffix[of _ _ "take ?q cs" "drop ?q cs"] ch q f1(1,3) unfolding d[symmetric] by simp
    have k: "?k \<le> unat (bytes_per_cluster (g_fs s1) div 32)" using n f1(3) by (simp add: n_def[symmetric] less_imp_le)
    obtain s2 where s2: "readdir_loop D ?k (cs ! ?q) s1 =
        Some (map_option dirent_of_bytes (first_live (drop ?k (dir_slots (on_disk s1) (g_fs s1) (drop ?q cs)))), s2)"
      "io_to s1 (on_disk s1) (cluster_buffer s2) s2" using readdir_loop_ok[OF r1 ch1 k] unfolding d by blast
    have "drop ?k (dir_slots (on_disk s1) (g_fs s1) (drop ?q cs)) = drop (unat idx) ?L"
      using dir_slots_drop[OF r, of ?q cs] q f1(1,3) by (simp add: n_def[symmetric] add.commute)
    moreover have "io_to s (on_disk s) (cluster_buffer s2) s2" using io_to_trans[OF s1(2) s2(2)] f1(1) by simp
    ultimately show ?thesis
      using s1(1) s2(1) div nz by (intro exI[of _ s2]) (simp add: fat32_readdir_def Let_def split: option.splits)
  next
    case False
    then have u: "unat idx = length cs * n" using i L by simp
    then have q: "?q = length cs" "?k = 0" using n by simp_all
    obtain e s1 where s1: "skip_chain D (length cs) (hd cs) s = (e, s1)" "FAT32_EOC_MIN \<le> e" "io_to s (on_disk s) (cluster_buffer s) s1"
      using skip_chain_end[OF r ch] by blast
    have "readdir_loop D 0 e s1 = Some (None, s1)" using s1(2) by (intro readdir_loop_stop) (auto dest: leD)
    then show ?thesis
      using s1(1,3) div nz q u L io_toD(2)[OF s1(3)] by (intro exI[of _ s1]) (simp add: fat32_readdir_def Let_def)
  qed
qed

text \<open>Printing between transfers.\<close>

definition printed :: "'d fat_state \<Rightarrow> bytes \<Rightarrow> 'd fat_state \<Rightarrow> bool" where
  "printed s txt s' \<longleftrightarrow> io_to (s\<lparr>console := console s @ txt\<rparr>) (on_disk s) (cluster_buffer s') s'"

lemma printed_io: "io_to s (on_disk s) (cluster_buffer s') s' \<Longrightarrow> printed s [] s'"
  by (simp add: printed_def)

lemma printed_puts: "printed s t s' \<Longrightarrow> printed s (t @ u) (fat_puts u s')"
  by (simp add: printed_def io_to_def fat_puts_def)

lemma printed_trans: "printed s t s' \<Longrightarrow> printed s' u s'' \<Longrightarrow> printed s (t @ u) s''"
  by (simp add: printed_def io_to_def)

lemma printed_facts:
  "printed s t s' \<Longrightarrow> ready s \<Longrightarrow> ready s' \<and> on_disk s' = on_disk s \<and> g_fs s' = g_fs s \<and> console s' = console s @ t"
  by (auto simp: printed_def io_to_def fat_ready_def buffers_ok_def)

lemma list_dir_loop_ok:
  assumes "ready s" and "chain_at s cs" and "unat idx \<le> length (dir_slots (on_disk s) (g_fs s) cs)"
    and "length (dir_slots (on_disk s) (g_fs s) cs) < 2 ^ 32"
  shows "\<exists>s'. list_dir_loop D (hd cs) idx info s = Some s' \<and>
    printed s (concat (map dir_line (listing (drop (unat idx) (dir_slots (on_disk s) (g_fs s) cs))))) s'"
  using assms
proof (induction "length (dir_slots (on_disk s) (g_fs s) cs) - unat idx" arbitrary: s idx info)
  case 0
  let ?L = "dir_slots (on_disk s) (g_fs s) cs"
  have d: "drop (unat idx) ?L = []" using 0(1) by simp
  obtain s' where s': "fat32_readdir D (hd cs) idx info s = Some (- 1, idx, info, s')" "io_to s (on_disk s) (cluster_buffer s') s'"
    using readdir_ok[OF 0(2,3,4), of info] unfolding d by auto
  then show ?case unfolding d by (subst list_dir_loop.simps) (simp add: printed_io)
next
  case (Suc n s idx info)
  let ?L = "dir_slots (on_disk s) (g_fs s) cs"
  have lt: "unat idx < length ?L" using Suc.hyps(2) by simp
  then have u: "unat (idx + 1) = Suc (unat idx)" using Suc.prems(4) by (simp add: unat_word_ariths)
  have d: "drop (unat idx) ?L = ?L ! unat idx # drop (unat (idx + 1)) ?L" using lt u by (simp add: Cons_nth_drop_Suc)
  show ?case
  proof (cases "first_live (drop (unat idx) ?L)")
    case None
    then obtain s' where s': "fat32_readdir D (hd cs) idx info s = Some (- 1, idx, info, s')" "io_to s (on_disk s) (cluster_buffer s') s'"
      using readdir_ok[OF Suc.prems(1-3), of info] by auto
    have "listing (drop (unat idx) ?L) = []" using None unfolding d by (simp only: listing.simps option.case)
    then show ?thesis using s' by (subst list_dir_loop.simps) (simp add: printed_io)
  next
    case (Some b)
    let ?e = "dirent_of_bytes b"
    let ?i = "fill_info ?e info"
    obtain s1 where s1: "fat32_readdir D (hd cs) idx info s = Some (0, idx + 1, ?i, s1)" "io_to s (on_disk s) (cluster_buffer s1) s1"
      using readdir_ok[OF Suc.prems(1-3), of info] Some by auto
    define s2 where "s2 = fat_puts [0x0A] (fat_puts (cstr (info_name ?i))
      (fat_puts (if info_attr ?i AND FAT32_ATTR_DIRECTORY \<noteq> 0 then ascii ''<DIR> '' else ascii ''      '') s1))"
    have p: "printed s (dir_line b) s2"
      using printed_puts[OF printed_puts[OF printed_puts[OF printed_io[OF s1(2)]]]]
      by (simp add: s2_def dir_line_def fill_info_def Let_def)
    note f = printed_facts[OF p Suc.prems(1)]
    have "\<exists>s'. list_dir_loop D (hd cs) (idx + 1) ?i s2 = Some s' \<and>
        printed s2 (concat (map dir_line (listing (drop (unat (idx + 1)) (dir_slots (on_disk s2) (g_fs s2) cs))))) s'"
      using Suc.hyps(2) Suc.prems f lt u by (intro Suc.hyps(1)) auto
    then obtain s' where s': "list_dir_loop D (hd cs) (idx + 1) ?i s2 = Some s'"
      "printed s2 (concat (map dir_line (listing (drop (unat (idx + 1)) ?L)))) s'" using f by auto
    have "listing (drop (unat idx) ?L) = b # listing (drop (unat (idx + 1)) ?L)"
      using Some unfolding d by (simp only: listing.simps option.case)
    moreover have "list_dir_loop D (hd cs) idx info s = Some s'"
      using s1(1) s'(1) by (subst list_dir_loop.simps) (simp add: s2_def)
    ultimately show ?thesis using printed_trans[OF p s'(2)] by simp
  qed
qed

end

section \<open>Properties of deleting\<close>

text \<open>C10. \<open>fat32_unlink\<close> in a directory of distinct names: a name it does not hold is answered with -1 and the disk is
  as before; otherwise the directory, as a map, loses exactly this name, exactly the clusters of the file become free,
  and every other chain keeps its clusters and contents.\<close>

theorem fat32_unlink_correct:
  assumes "block_device D sectors online cap" and "fat_ready online cap s"
    and "is_chain (fat_entry (sectors (disk s)) (g_fs s)) (g_fs s) cs" and "hd cs = g_current_dir_cluster s"
    and "is_cstr path" and "fat32_to_short_name path = Some sn" and "L = dir_slots (sectors (disk s)) (g_fs s) cs"
    and "distinct (slot_names L)"
    and "\<And>b. slot_get sn L = Some b \<Longrightarrow> owns (sectors (disk s)) (g_fs s) (dirent_of_bytes b) fcs \<and> set fcs \<inter> set cs = {}"
  shows "\<exists>r s'. fat32_unlink D path s = Some (r, s') \<and> fat_ready online cap s' \<and> g_fs s' = g_fs s \<and>
    (if slot_get sn L = None then r = - 1 \<and> sectors (disk s') = sectors (disk s)
     else r = 0 \<and> is_chain (fat_entry (sectors (disk s')) (g_fs s)) (g_fs s) cs \<and>
       (\<forall>x. slot_get x (dir_slots (sectors (disk s')) (g_fs s) cs) = (if x = sn then None else slot_get x L)) \<and>
       free_clusters (sectors (disk s')) (g_fs s) = free_clusters (sectors (disk s)) (g_fs s) \<union> set fcs \<and>
       (\<forall>bs. is_chain (fat_entry (sectors (disk s)) (g_fs s)) (g_fs s) bs \<and> set bs \<inter> set (cs @ fcs) = {} \<longrightarrow>
         is_chain (fat_entry (sectors (disk s')) (g_fs s)) (g_fs s) bs \<and>
         file_data (sectors (disk s')) (g_fs s) bs = file_data (sectors (disk s)) (g_fs s) bs))"
proof (cases "slot_get sn L")
  case None
  have "length sn = 11" using short_name_ok[OF assms(5)] assms(6) by auto
  from block_device.unlink_missing[OF assms(1-4,6) this] None assms(7) obtain s' where
    s': "fat32_unlink D path s = Some (- 1, s')" "block_device.io_to sectors online s (sectors (disk s)) (cluster_buffer s') s'" by auto
  then show ?thesis
    using None block_device.io_toD(1,3)[OF assms(1) s'(2)] block_device.io_to_ready[OF assms(1) s'(2) assms(2)] by auto
next
  case (Some b)
  have len: "length sn = 11" using short_name_ok[OF assms(5)] assms(6) by auto
  note e = Some[unfolded assms(7)] and o = assms(9)[OF Some]
  obtain s' where s': "fat32_unlink D path s = Some (0, s')" "g_fs s' = g_fs s"
    "block_device.keeps sectors online cap s (set (cs @ fcs)) s'"
    "dir_slots (sectors (disk s')) (g_fs s) cs = slot_del sn (dir_slots (sectors (disk s)) (g_fs s) cs)"
    "\<And>x. valid_cluster (g_fs s) x \<Longrightarrow> fat_entry (sectors (disk s')) (g_fs s) x =
      (if x \<in> set fcs then 0 else fat_entry (sectors (disk s)) (g_fs s) x)"
    using assms(1-4,6) len e o[THEN conjunct1] o[THEN conjunct2] by (rule block_device.unlink_ok) (rule that)
  have valid: "valid_cluster (g_fs s) x" if "x \<in> set fcs" for x
    using o that is_chain_valid[of _ "g_fs s" fcs x] by (auto simp: owns_def split: if_splits)
  have free: "free_clusters (sectors (disk s')) (g_fs s) = free_clusters (sectors (disk s)) (g_fs s) \<union> set fcs"
    using s'(5) valid by (auto simp: free_clusters_def split: if_splits)
  have other: "is_chain (fat_entry (sectors (disk s')) (g_fs s)) (g_fs s) bs"
    if "is_chain (fat_entry (sectors (disk s)) (g_fs s)) (g_fs s) bs" "set bs \<inter> set fcs = {}" for bs
    using s'(5) that is_chain_valid[OF that(1)]
    by (subst is_chain_cong[of _ _ "fat_entry (sectors (disk s)) (g_fs s)"]) auto
  have data: "file_data (sectors (disk s')) (g_fs s) bs = file_data (sectors (disk s)) (g_fs s) bs"
    if "is_chain (fat_entry (sectors (disk s)) (g_fs s)) (g_fs s) bs" "set bs \<inter> set (cs @ fcs) = {}" for bs
    using s'(3) that is_chain_valid[OF that(1)]
    by (intro file_data_cong) (auto simp: block_device.keeps_def[OF assms(1)])
  have "slot_get x (dir_slots (sectors (disk s')) (g_fs s) cs) = (if x = sn then None else slot_get x L)" for x
    unfolding s'(4) assms(7)[symmetric]
    by (rule slot_del_get[OF _ assms(8)]) (simp add: assms(7) dir_slots_def slots_nonempty)
  moreover have "fat_ready online cap s'" using s'(3) by (simp add: block_device.keeps_def[OF assms(1)])
  moreover have "is_chain (fat_entry (sectors (disk s')) (g_fs s)) (g_fs s) cs" using other[OF assms(3)] o by auto
  moreover have "is_chain (fat_entry (sectors (disk s')) (g_fs s)) (g_fs s) bs \<and>
      file_data (sectors (disk s')) (g_fs s) bs = file_data (sectors (disk s)) (g_fs s) bs"
    if "is_chain (fat_entry (sectors (disk s)) (g_fs s)) (g_fs s) bs \<and> set bs \<inter> set (cs @ fcs) = {}" for bs
    using other[of bs] data[of bs] that by auto
  ultimately show ?thesis using s'(1,2) Some free by (intro exI[of _ 0] exI[of _ s']) simp
qed

section \<open>Properties of listing\<close>


text \<open>A small volume whose directory at cluster 3 holds an unused slot and one file, at cluster 4.\<close>

definition file_slot :: bytes where
  "file_slot = dirent_to_bytes (new_dirent (ascii ''A       B  '') FAT32_ATTR_ARCHIVE 4)"

definition gap_directory :: bytes where
  "gap_directory = (0xE5 # replicate 31 0) @ file_slot @ replicate (14 * 32) 0"

definition gap_volume :: "ata_dev fat_state" where
  "gap_volume = small_volume\<lparr>g_fs := small_fs\<lparr>root_dir_first_cluster := 3\<rparr>, g_current_dir_cluster := 3,
     disk := blank_drive\<lparr>a_disk := (\<lambda>l.
       if l = 32 \<or> l = 33 then put_at (put_at (replicate 512 0) 12 (le32 FAT32_EOC_MAX)) 16 (le32 FAT32_EOC_MAX)
       else if l = 35 then gap_directory else replicate 512 0)\<rparr>\<rparr>"

lemma length_file_slot: "length file_slot = 32" "length gap_directory = 512"
proof -
  show f: "length file_slot = 32" unfolding file_slot_def by (rule length_dirent) (simp add: new_dirent_def ascii_def)
  show "length gap_directory = 512" by (simp add: gap_directory_def f)
qed

lemma gap_volume_ready: "fat_ready pio.hw_online 0x10000000 gap_volume"
  by (simp add: fat_ready_def geometry_ok_def buffers_ok_def gap_volume_def small_volume_def small_fs_def
      pio.hw_online_def ata_ready_def blank_drive_def length_put_at length_file_slot)

lemma gap_volume_chains:
  "is_chain (fat_entry (pio.hw_sectors (disk gap_volume)) (g_fs gap_volume)) (g_fs gap_volume) [3]"
  "is_chain (fat_entry (pio.hw_sectors (disk gap_volume)) (g_fs gap_volume)) (g_fs gap_volume) [4]"
  using get32_put_at[of 16 "put_at (replicate 512 0) 12 (le32 FAT32_EOC_MAX)" 12 FAT32_EOC_MAX]
    get32_put_at[of 16 "put_at (replicate 512 0) 12 (le32 FAT32_EOC_MAX)" 16 FAT32_EOC_MAX]
    get32_put_at[of 12 "replicate 512 0" 12 FAT32_EOC_MAX]
  by (simp_all add: valid_cluster_def small_fs_def fat_copy_def fat_lba_def gap_volume_def pio.hw_sectors_def length_put_at)

lemma gap_volume_slots:
  "dir_slots (pio.hw_sectors (disk gap_volume)) (g_fs gap_volume) [3] =
     (0xE5 # replicate 31 0) # file_slot # replicate 14 (replicate 32 0)"
proof -
  have one: "slots x = [x]" if "length x = 32" for x using that by (simp add: slots_def)
  have "cluster_data (pio.hw_sectors (disk gap_volume)) (g_fs gap_volume) 3 = gap_directory"
    by (simp add: cluster_data_def gap_volume_def small_fs_def cluster_lba_def pio.hw_sectors_def)
  then have "dir_slots (pio.hw_sectors (disk gap_volume)) (g_fs gap_volume) [3] = slots gap_directory"
    by (simp add: dir_slots_def file_data_def)
  also have "\<dots> = slots (0xE5 # replicate 31 0) @ slots file_slot @ slots (replicate (14 * 32) 0)"
    unfolding gap_directory_def by (subst slots_append[of _ 1], simp, subst slots_append[of _ 1]) (simp_all add: length_file_slot)
  finally show ?thesis using slots_zero[of 14] by (simp add: one length_file_slot)
qed

lemma file_slot_live: "live file_slot" "take 11 file_slot = ascii ''A       B  ''" "\<not> live (0xE5 # replicate 31 0)" "file_slot ! 0 \<noteq> 0"
  by (simp_all add: file_slot_def live_def dirent_to_bytes_def new_dirent_def ascii_def)

lemma gap_volume_file:
  "slot_get (ascii ''A       B  '') ((0xE5 # replicate 31 0) # file_slot # replicate 14 (replicate 32 0)) = Some file_slot"
  "owns (pio.hw_sectors (disk gap_volume)) (g_fs gap_volume) (dirent_of_bytes file_slot) [4]"
proof -
  show "slot_get (ascii ''A       B  '') ((0xE5 # replicate 31 0) # file_slot # replicate 14 (replicate 32 0)) = Some file_slot"
    using file_slot_live by simp
  have "dirent_cluster (dirent_of_bytes file_slot) = 4"
    unfolding file_slot_def by (subst new_dirent_decode(1)) (simp_all add: ascii_def new_dirent_decode(2))
  then show "owns (pio.hw_sectors (disk gap_volume)) (g_fs gap_volume) (dirent_of_bytes file_slot) [4]"
    using gap_volume_chains(2) by (simp add: owns_def)
qed

theorem fat32_unlink_correct_witness:
  "\<exists>s'. fat32_unlink (ata_disk pio_drive) (ascii ''a.b'' @ [0]) gap_volume = Some (0, s') \<and>
    4 \<in> free_clusters (pio.hw_sectors (disk s')) (g_fs gap_volume) \<and>
    slot_get (ascii ''A       B  '') (dir_slots (pio.hw_sectors (disk s')) (g_fs gap_volume) [3]) = None"
proof -
  have sn: "fat32_to_short_name (ascii ''a.b'' @ [0]) = Some (ascii ''A       B  '')" by code_simp
  let ?L = "(0xE5 # replicate 31 0) # file_slot # replicate 14 (replicate 32 0)"
  have h: "hd [3] = g_current_dir_cluster gap_volume" "is_cstr (ascii ''a.b'' @ [0])"
    by (simp_all add: gap_volume_def ascii_def is_cstr_def)
  have "slot_names (replicate 14 (replicate 32 0)) = []" by (simp add: numeral_eq_Suc)
  then have d: "distinct (slot_names ?L)" using file_slot_live by simp
  have o: "owns (pio.hw_sectors (disk gap_volume)) (g_fs gap_volume) (dirent_of_bytes b) [4] \<and> set [4] \<inter> set [3 :: u32] = {}"
    if "slot_get (ascii ''A       B  '') ?L = Some b" for b
  proof -
    have "b = file_slot" using that gap_volume_file(1) by (simp only: option.inject)
    then show ?thesis using gap_volume_file(2) by (simp only:) simp
  qed
  have n: "slot_get (ascii ''A       B  '') ?L \<noteq> None" using gap_volume_file(1) by (simp only: option.distinct) simp
  from fat32_unlink_correct[OF pio.blk.block_device_axioms gap_volume_ready gap_volume_chains(1) h sn gap_volume_slots[symmetric] d o]
  obtain s' where s': "fat32_unlink (ata_disk pio_drive) (ascii ''a.b'' @ [0]) gap_volume = Some (0, s')"
    "\<forall>x. slot_get x (dir_slots (pio.hw_sectors (disk s')) (g_fs gap_volume) [3]) = (if x = ascii ''A       B  '' then None else slot_get x ?L)"
    "free_clusters (pio.hw_sectors (disk s')) (g_fs gap_volume) =
      free_clusters (pio.hw_sectors (disk gap_volume)) (g_fs gap_volume) \<union> set [4]"
    unfolding if_not_P[OF n] by blast
  then show ?thesis by (intro exI[of _ s']) (simp only: list.set Un_iff insert_iff refl if_True simp_thms)
qed


end
