(* ===== verification/Fat32_Mkdir.thy ===== *)
theory Fat32_Mkdir
  imports Fat32_Remove
begin

text \<open>
  Making directories: \<open>fat32_mkdir\<close> of \<open>src/fs/fat32.c\<close> over a block device.  It takes a cluster, enters it in the
  current directory (which may grow by another one) and clears it, so the new directory is an empty map.
\<close>

section \<open>Making a directory on the disk\<close>

context block_device
begin

lemma alloc_current: "ready s \<Longrightarrow> fat32_alloc_cluster D s = (d, s') \<Longrightarrow> g_current_dir_cluster s' = g_current_dir_cluster s"
  using alloc_cluster_ok[of s] by (auto simp: alloc_result_def set_next_free_def io_toD split: if_splits)

lemma dir_slots_keeps: "keeps s A s' \<Longrightarrow> dir_slots S (g_fs s') cs = dir_slots S (g_fs s) cs"
  using keeps_views(3)[of s A s'] by (simp add: dir_slots_def)

lemma chain_keeps: "keeps s A s' \<Longrightarrow> is_chain (fat_entry S (g_fs s')) (g_fs s') cs = is_chain (fat_entry S (g_fs s)) (g_fs s) cs"
  using keeps_fs[of s A s'] by auto

lemma mkdir_ok:
  assumes r: "ready s" and ch: "chain_at s cs" and cur: "hd cs = g_current_dir_cluster s"
    and sn: "fat32_to_short_name path = Some sn" "length sn = 11" "0 \<notin> set sn" "hd sn \<noteq> 0xE5"
    and tail: "zero_tail (dir_slots (on_disk s) (g_fs s) cs)" and new: "slot_get sn (dir_slots (on_disk s) (g_fs s) cs) = None"
    and room: "free_clusters (on_disk s) (g_fs s) \<noteq> {}"
      "list_ex slot_free (dir_slots (on_disk s) (g_fs s) cs) \<or> 1 < card (free_clusters (on_disk s) (g_fs s))"
  obtains d ds s' where "fat32_mkdir D path s = Some (0, s')" "d \<in> free_clusters (on_disk s) (g_fs s)"
    "set ds \<subseteq> free_clusters (on_disk s) (g_fs s)" "keeps s (set (cs @ d # ds)) s'"
    "chain_at s' (cs @ ds)" "chain_at s' [d]"
    "dir_slots (on_disk s') (g_fs s) [d] = replicate (unat (bytes_per_cluster (g_fs s) div 32)) (replicate 32 0)"
    "zero_tail (dir_slots (on_disk s') (g_fs s) (cs @ ds))"
    "\<And>x. slot_get x (dir_slots (on_disk s') (g_fs s) (cs @ ds)) =
      (if x = sn then Some (dirent_to_bytes (new_dirent sn FAT32_ATTR_DIRECTORY d))
       else slot_get x (dir_slots (on_disk s) (g_fs s) cs))"
proof -
  let ?fs = "g_fs s" and ?free = "free_clusters (on_disk s) (g_fs s)"
  note g = ready_geometry[OF r]
  obtain d s1 where s1: "fat32_alloc_cluster D s = (d, s1)" "d \<in> ?free" "keeps s {d} s1" "same_data s s1"
    "fat_entry (on_disk s1) ?fs d = FAT32_EOC_MAX" "cluster_buffer s1 = cluster_buffer s"
    using r room(1) by (rule alloc_keeps)
  have r1: "ready s1" using s1(3) by (simp add: keeps_def)
  have d: "valid_cluster ?fs d" "d \<noteq> 0" "d \<notin> set cs"
    using s1(2) valid_not_eoc(3)[OF g] is_chain_nonfree[OF g ch] by (auto simp: free_clusters_def)
  have v: "valid_cluster ?fs x" if "x \<in> set cs" for x using is_chain_valid[OF ch that] .
  have ch1: "chain_at s1 cs"
    unfolding chain_keeps[OF s1(3)]
    using keeps_entry[OF s1(3) r] v d(3) ch by (subst is_chain_cong[of _ _ "fat_entry (on_disk s) ?fs"]) auto
  have L1: "dir_slots (on_disk s1) (g_fs s1) cs = dir_slots (on_disk s) ?fs cs"
    unfolding dir_slots_keeps[OF s1(3)] by (rule dir_slots_unchanged[OF s1(3)]) (use d(3) v in auto)
  have free1: "free_clusters (on_disk s1) (g_fs s1) = ?free - {d}"
    unfolding keeps_views(2)[OF s1(3)] by (rule keeps_free[OF s1(3) r]) (simp add: free_clusters_def s1(5))
  have "?free - {d} \<noteq> {}" if "1 < card ?free"
  proof
    assume "?free - {d} = {}"
    then have "?free \<subseteq> {d}" by blast
    then have "card ?free \<le> 1" using card_mono[of "{d}" ?free] by simp
    with that show False by simp
  qed
  then have room1: "list_ex slot_free (dir_slots (on_disk s1) (g_fs s1) cs) \<or> free_clusters (on_disk s1) (g_fs s1) \<noteq> {}"
    using room(2) by (simp only: L1 free1) blast
  have attr: "FAT32_ATTR_DIRECTORY \<noteq> FAT32_ATTR_LFN" by simp
  obtain s2 ds where s2: "fat32_create_entry D (hd cs) path FAT32_ATTR_DIRECTORY d s1 = Some (0, s2)"
    "chain_at s2 (cs @ ds)" "set ds \<subseteq> free_clusters (on_disk s1) (g_fs s1)" "keeps s1 (set (cs @ ds)) s2"
    "zero_tail (dir_slots (on_disk s2) (g_fs s1) (cs @ ds))"
    "\<And>x. slot_get x (dir_slots (on_disk s2) (g_fs s1) (cs @ ds)) =
      (if x = sn then Some (dirent_to_bytes (new_dirent sn FAT32_ATTR_DIRECTORY d))
       else slot_get x (dir_slots (on_disk s1) (g_fs s1) cs))"
    by (rule create_entry_ok[OF r1 ch1 sn(1-4) attr, where fc = d])
      (use tail new room1 in \<open>auto simp: L1\<close>)
  have k2: "keeps s ({d} \<union> set (cs @ ds)) s2" using keeps_trans[OF s1(3) s2(4)] .
  have r2: "ready s2" using k2 by (simp add: keeps_def)
  have dd: "d \<notin> set (cs @ ds)" using d(3) s2(3) free1 by auto
  have v1: "valid_cluster (g_fs s1) d" using d(1) by (simp add: keeps_views(4)[OF s1(3)])
  have v2: "valid_cluster (g_fs s2) d" using d(1) by (simp add: keeps_views(4)[OF k2])
  have e2: "fat_entry (on_disk s2) ?fs d = FAT32_EOC_MAX"
    using keeps_entry[OF s2(4) r1 v1 dd] s1(5) by (simp add: keeps_views(6)[OF s1(3)])
  let ?bpc = "unat (bytes_per_cluster (g_fs s2))"
  let ?b = "replicate ?bpc 0 @ drop ?bpc (cluster_buffer s2)"
  have lb: "length ?b = CLUSTER_BUFFER_SIZE" using bpc_facts(2)[OF r2] r2 by (simp add: fat_ready_def buffers_ok_def)
  obtain s3 where s3: "fat32_write_cluster D d (s2\<lparr>cluster_buffer := ?b\<rparr>) = Some (0, s3)" "g_fs s3 = g_fs s2" "keeps s2 {d} s3"
    "\<And>x. valid_cluster (g_fs s2) x \<Longrightarrow> fat_entry (on_disk s3) (g_fs s2) x = fat_entry (on_disk s2) (g_fs s2) x"
    "cluster_data (on_disk s3) (g_fs s2) d = take ?bpc ?b"
    using r2 v2 lb by (rule write_buffer_ok) (rule that)
  have fe3: "fat_entry (on_disk s3) ?fs x = fat_entry (on_disk s2) ?fs x" if "valid_cluster ?fs x" for x
    using s3(4) that by (simp add: keeps_views(4,6)[OF k2])
  have mk: "fat32_mkdir D path s = Some (0, s3)"
    using s1(1) d(2) s2(1) s3(1) cur alloc_current[OF r s1(1)] clear_buffer_ok[OF r2] by (simp add: fat32_mkdir_def Let_def)
  have k3: "keeps s (set (cs @ d # ds)) s3" by (rule keeps_mono[OF keeps_trans[OF k2 s3(3)]]) auto
  have c3: "chain_at s3 (cs @ ds)"
    unfolding s3(2) using s2(2) s3(4) is_chain_valid[OF s2(2)]
    by (subst is_chain_cong[of _ _ "fat_entry (on_disk s2) (g_fs s2)"]) auto
  have cd: "chain_at s3 [d]" unfolding chain_keeps[OF k3] using d(1) e2 fe3[OF d(1)] by simp
  have L3: "dir_slots (on_disk s3) ?fs (cs @ ds) = dir_slots (on_disk s2) (g_fs s1) (cs @ ds)"
    using dir_slots_unchanged[OF s3(3), of "cs @ ds"] dd is_chain_valid[OF s2(2)]
    by (simp add: dir_slots_keeps[OF k2] dir_slots_keeps[OF s1(3)])
  have n: "?bpc = unat (bytes_per_cluster ?fs div 32) * 32"
    using buffer_slots(3)[OF r refl refl, of d] length_cluster_ready[OF r, of d] keeps_views(1)[OF k2] by simp
  have "dir_slots (on_disk s3) ?fs [d] = slots (cluster_data (on_disk s3) ?fs d)" by (simp add: dir_slots_def file_data_def)
  then have "dir_slots (on_disk s3) ?fs [d] = replicate (unat (bytes_per_cluster ?fs div 32)) (replicate 32 0)"
    using s3(5) n by (simp add: keeps_views(5)[OF k2] slots_zero)
  moreover have "set ds \<subseteq> ?free" using s2(3) free1 by blast
  moreover note s2(5)[folded L3] s2(6)[unfolded L1, folded L3]
  ultimately show ?thesis using that[OF mk s1(2) _ k3 c3 cd] by blast
qed

end

section \<open>The property\<close>

text \<open>C11. \<open>fat32_mkdir\<close> with a new name and room for it: the current directory, as a map, gains exactly this name, bound
  to a cluster that was free, that is a chain of its own now and holds an empty directory; the current directory stays
  well formed, and every other chain keeps its clusters and contents.\<close>

theorem fat32_mkdir_correct:
  assumes "block_device D sectors online cap" and "fat_ready online cap s"
    and "is_chain (fat_entry (sectors (disk s)) (g_fs s)) (g_fs s) cs" and "hd cs = g_current_dir_cluster s"
    and "is_cstr path" and "fat32_to_short_name path = Some sn" and "hd sn \<noteq> 0xE5"
    and "L = dir_slots (sectors (disk s)) (g_fs s) cs" and "zero_tail L" and "slot_get sn L = None"
    and "free_clusters (sectors (disk s)) (g_fs s) \<noteq> {}"
    and "list_ex slot_free L \<or> 1 < card (free_clusters (sectors (disk s)) (g_fs s))"
  shows "\<exists>s' d ds. fat32_mkdir D path s = Some (0, s') \<and> fat_ready online cap s' \<and>
    d \<in> free_clusters (sectors (disk s)) (g_fs s) \<and> dirent_cluster (new_dirent sn FAT32_ATTR_DIRECTORY d) = d \<and>
    is_chain (fat_entry (sectors (disk s')) (g_fs s')) (g_fs s') (cs @ ds) \<and>
    zero_tail (dir_slots (sectors (disk s')) (g_fs s') (cs @ ds)) \<and>
    (\<forall>x. slot_get x (dir_slots (sectors (disk s')) (g_fs s') (cs @ ds)) =
      (if x = sn then Some (dirent_to_bytes (new_dirent sn FAT32_ATTR_DIRECTORY d)) else slot_get x L)) \<and>
    is_chain (fat_entry (sectors (disk s')) (g_fs s')) (g_fs s') [d] \<and>
    (\<forall>x. slot_get x (dir_slots (sectors (disk s')) (g_fs s') [d]) = None) \<and>
    (\<forall>bs. is_chain (fat_entry (sectors (disk s)) (g_fs s)) (g_fs s) bs \<and> set bs \<inter> set cs = {} \<longrightarrow>
      is_chain (fat_entry (sectors (disk s')) (g_fs s')) (g_fs s') bs \<and>
      file_data (sectors (disk s')) (g_fs s') bs = file_data (sectors (disk s)) (g_fs s) bs)"
proof -
  have sn: "length sn = 11" "0 \<notin> set sn" using short_name_ok[OF assms(5)] assms(6) by auto
  obtain d ds s' where m: "fat32_mkdir D path s = Some (0, s')" "d \<in> free_clusters (sectors (disk s)) (g_fs s)"
    "set ds \<subseteq> free_clusters (sectors (disk s)) (g_fs s)" "block_device.keeps sectors online cap s (set (cs @ d # ds)) s'"
    "is_chain (fat_entry (sectors (disk s')) (g_fs s')) (g_fs s') (cs @ ds)"
    "is_chain (fat_entry (sectors (disk s')) (g_fs s')) (g_fs s') [d]"
    "dir_slots (sectors (disk s')) (g_fs s) [d] = replicate (unat (bytes_per_cluster (g_fs s) div 32)) (replicate 32 0)"
    "zero_tail (dir_slots (sectors (disk s')) (g_fs s) (cs @ ds))"
    "\<And>x. slot_get x (dir_slots (sectors (disk s')) (g_fs s) (cs @ ds)) =
      (if x = sn then Some (dirent_to_bytes (new_dirent sn FAT32_ATTR_DIRECTORY d))
       else slot_get x (dir_slots (sectors (disk s)) (g_fs s) cs))"
    by (rule block_device.mkdir_ok[OF assms(1-4,6) sn assms(7)]) (use assms(8-12) in auto)
  note view = block_device.dir_slots_keeps[OF assms(1) m(4)] and fview = block_device.keeps_views(3)[OF assms(1) m(4)]
  have "set (d # ds) \<subseteq> free_clusters (sectors (disk s)) (g_fs s)" using m(2,3) by simp
  note other = block_device.keeps_other_file[OF assms(1,2) m(4) this]
  have "slot_get x (replicate k (replicate 32 0)) = None" for x k by (cases k) simp_all
  moreover have "fat_ready online cap s'" using m(4) by (simp add: block_device.keeps_def[OF assms(1)])
  ultimately show ?thesis
    using m(1,2,5-9) other new_dirent_decode(2)[OF sn(1)]
    by (intro exI[of _ s'] exI[of _ d] exI[of _ ds]) (simp add: view fview assms(8))
qed

theorem fat32_mkdir_correct_witness:
  "\<exists>s' d ds. fat32_mkdir (ata_disk pio_drive) (ascii ''dir'' @ [0]) gap_volume = Some (0, s') \<and>
    slot_get (ascii ''DIR        '') (dir_slots (pio.hw_sectors (disk s')) (g_fs s') (3 # ds)) =
      Some (dirent_to_bytes (new_dirent (ascii ''DIR        '') FAT32_ATTR_DIRECTORY d))"
proof -
  let ?L = "(0xE5 # replicate 31 0) # file_slot # replicate 14 (replicate 32 0)"
  have sn: "fat32_to_short_name (ascii ''dir'' @ [0]) = Some (ascii ''DIR        '')" by code_simp
  have h: "hd [3] = g_current_dir_cluster gap_volume" "is_cstr (ascii ''dir'' @ [0])" "hd (ascii ''DIR        '') \<noteq> 0xE5"
    by (simp_all add: gap_volume_def ascii_def is_cstr_def)
  have "slot_get x (replicate 14 (replicate 32 0)) = None" "zero_tail (replicate 14 (replicate 32 0))" for x
    by (simp_all add: numeral_eq_Suc)
  moreover have "ascii ''A       B  '' \<noteq> ascii ''DIR        ''" by (simp add: ascii_def)
  ultimately have L: "zero_tail ?L" "slot_get (ascii ''DIR        '') ?L = None" "list_ex slot_free ?L"
    using file_slot_live by (simp_all add: slot_free_def)
  have "2 \<in> free_clusters (pio.hw_sectors (disk gap_volume)) (g_fs gap_volume)"
    using get32_put_at[of 16 "put_at (replicate 512 0) 12 (le32 FAT32_EOC_MAX)" 8 FAT32_EOC_MAX]
      get32_put_at[of 12 "replicate 512 0" 8 FAT32_EOC_MAX]
    by (simp add: free_clusters_def valid_cluster_def small_fs_def fat_copy_def fat_lba_def gap_volume_def pio.hw_sectors_def
        length_put_at get32_def)
  then have f: "free_clusters (pio.hw_sectors (disk gap_volume)) (g_fs gap_volume) \<noteq> {}" by blast
  from fat32_mkdir_correct[OF pio.blk.block_device_axioms gap_volume_ready gap_volume_chains(1) h(1,2) sn h(3)
      gap_volume_slots[symmetric] L(1,2) f disjI1[OF L(3)]]
  obtain s' d ds where "fat32_mkdir (ata_disk pio_drive) (ascii ''dir'' @ [0]) gap_volume = Some (0, s')"
    "\<forall>x. slot_get x (dir_slots (pio.hw_sectors (disk s')) (g_fs s') ([3] @ ds)) =
      (if x = ascii ''DIR        '' then Some (dirent_to_bytes (new_dirent (ascii ''DIR        '') FAT32_ATTR_DIRECTORY d))
       else slot_get x ?L)" by blast
  then show ?thesis by (metis append_Cons append_Nil)
qed

end
