(* ===== verification/Fat32_Chdir.thy ===== *)
theory Fat32_Chdir
  imports Fat32_Remove
begin

text \<open>
  The current directory: \<open>fat32_chdir\<close> of \<open>src/fs/fat32.c\<close> over a block device.  The state holds the current directory
  twice, as the cluster it starts at and as the stack of the names that lead to it; the two agree, and changing the
  directory keeps them so for names that fit the stack.
\<close>

section \<open>Names and paths\<close>

text \<open>The short name of a C object depends on its string only.\<close>

lemma last_dot_cong: "0 \<notin> set w \<Longrightarrow> last_dot i dot (w @ 0 # r) = last_dot i dot (w @ [0])"
  by (induction w arbitrary: i dot) auto

lemma short_name_string:
  assumes "is_cstr p"
  shows "fat32_to_short_name p = fat32_to_short_name (cstr p @ [0])"
proof -
  let ?w = "cstr p"
  obtain r where p: "p = ?w @ 0 # r" using is_cstr_split[OF assms] by blast
  have nz: "0 \<notin> set ?w" by (rule cstr_no_nul)
  have ld: "last_dot 0 None p = last_dot 0 None (?w @ [0])" by (subst p) (rule last_dot_cong[OF nz])
  have q: "is_cstr (?w @ [0])" "cstr (?w @ [0]) = ?w" using cstr_append[OF nz, of "[]"] by simp_all
  have tk: "take n p = take n (?w @ [0])" if "n \<le> length ?w" for n
    using cstr_take[OF assms that] cstr_take[OF q(1)] q(2) that by simp
  have d: "strlen (drop (k + 1) p) = Some (length ?w - (k + 1)) \<and> strlen (drop (k + 1) (?w @ [0])) = Some (length ?w - (k + 1)) \<and>
      take (min (length ?w - (k + 1)) 3) (drop (k + 1) p) = take (min (length ?w - (k + 1)) 3) (drop (k + 1) (?w @ [0]))"
    if "k < length ?w" for k
  proof -
    have k: "k + 1 \<le> length ?w" using that by simp
    note c1 = cstr_drop[OF assms k] and c2 = cstr_drop[OF q(1), unfolded q(2), OF k]
    have e: "cstr (drop (k + 1) p) = cstr (drop (k + 1) (?w @ [0]))" "length (cstr (drop (k + 1) p)) = length ?w - (k + 1)"
      by (simp_all only: c1 c2 length_drop)
    have "strlen (drop (k + 1) p) = Some (length ?w - (k + 1))" "strlen (drop (k + 1) (?w @ [0])) = Some (length ?w - (k + 1))"
      using strlen_cstr[OF c1[THEN conjunct1]] strlen_cstr[OF c2[THEN conjunct1]] e by (simp_all only:)
    moreover have "take n (drop (k + 1) p) = take n (drop (k + 1) (?w @ [0]))" if "n \<le> length ?w - (k + 1)" for n
      using cstr_take[OF c1[THEN conjunct1], of n] cstr_take[OF c2[THEN conjunct1], of n] e that by (simp only:)
    ultimately show ?thesis by simp
  qed
  obtain t where t: "last_dot 0 None p = Some t" "t = None \<or> (\<exists>k. t = Some k \<and> k < length ?w)"
    using last_dot_spec[OF assms, of 0 None] by auto
  have m: "strlen p = Some (length ?w)" "strlen (?w @ [0]) = Some (length ?w)"
    using strlen_cstr[OF assms] strlen_cstr[OF q(1)] q(2) by simp_all
  show ?thesis
  proof (cases t)
    case None
    then show ?thesis using t(1) ld m tk[of "min (length ?w) 8"] by (simp add: fat32_to_short_name_def Let_def)
  next
    case (Some k)
    then have k: "k < length ?w" using t(2) by simp
    then show ?thesis
      using Some t(1) ld d[OF k, unfolded Suc_eq_plus1[symmetric]] tk[of "min k 8"]
      by (simp only: fat32_to_short_name_def Let_def Suc_eq_plus1[symmetric]) simp
  qed
qed

text \<open>The directory at cluster \<open>c\<close> holds a directory named \<open>n\<close> that starts at cluster \<open>d\<close>.\<close>

definition subdir :: "(u32 \<Rightarrow> bytes) \<Rightarrow> fat32_fs \<Rightarrow> u32 \<Rightarrow> bytes \<Rightarrow> u32 \<Rightarrow> bool" where
  "subdir S fs c n d \<longleftrightarrow> (\<exists>cs sn b. is_chain (fat_entry S fs) fs cs \<and> hd cs = c \<and> fat32_to_short_name (n @ [0]) = Some sn \<and>
     slot_get sn (dir_slots S fs cs) = Some b \<and> de_attr (dirent_of_bytes b) AND FAT32_ATTR_DIRECTORY \<noteq> 0 \<and>
     d = dirent_cluster (dirent_of_bytes b))"

text \<open>\<open>ns\<close> are the names of the directories from the root to the one that starts at cluster \<open>c\<close>.\<close>

inductive dir_path :: "(u32 \<Rightarrow> bytes) \<Rightarrow> fat32_fs \<Rightarrow> bytes list \<Rightarrow> u32 \<Rightarrow> bool" for S fs where
  path_root: "dir_path S fs [] (root_dir_first_cluster fs)"
| path_step: "dir_path S fs ns c \<Longrightarrow> subdir S fs c n d \<Longrightarrow> dir_path S fs (ns @ [n]) d"

inductive_cases path_nil: "dir_path S fs [] c"
inductive_cases path_snoc: "dir_path S fs (ns @ [n]) c"

definition working_dir :: "'d fat_state \<Rightarrow> bytes list" where
  "working_dir s = map cstr (take (path_depth s) (path_stack s))"

definition is_dir :: "(u32 \<Rightarrow> bytes) \<Rightarrow> fat32_fs \<Rightarrow> u32 \<Rightarrow> bool" where
  "is_dir S fs c \<longleftrightarrow> (\<exists>cs. is_chain (fat_entry S fs) fs cs \<and> hd cs = c)"

definition cwd_ok :: "(u32 \<Rightarrow> bytes) \<Rightarrow> 'd fat_state \<Rightarrow> bool" where
  "cwd_ok S s \<longleftrightarrow> length (path_stack s) = 16 \<and> (\<forall>p \<in> set (path_stack s). length p = 12) \<and> path_depth s \<le> 16 \<and>
     (\<forall>i < path_depth s. is_cstr (path_stack s ! i)) \<and>
     dir_path S (g_fs s) (working_dir s) (g_current_dir_cluster s) \<and> is_dir S (g_fs s) (g_current_dir_cluster s)"

lemma path_root_dir: "dir_path S fs ns c \<Longrightarrow> is_dir S fs c \<Longrightarrow> is_dir S fs (root_dir_first_cluster fs)"
proof (induction rule: dir_path.induct)
  case (path_step ns c n d)
  then show ?case by (auto simp: is_dir_def subdir_def)
qed

lemma path_parent:
  assumes "dir_path S fs ns c" and "ns \<noteq> []"
  obtains c' where "dir_path S fs (butlast ns) c'" and "is_dir S fs c'"
proof -
  have "dir_path S fs (butlast ns @ [last ns]) c" using assms by simp
  then show ?thesis by (rule path_snoc) (use that in \<open>auto simp: is_dir_def subdir_def\<close>)
qed

lemma chdir_walk_add:
  "chdir_walk D (m + n) i c s =
     do { (x, s) \<leftarrow> chdir_walk D m i c s; case x of None \<Rightarrow> Some (None, s) | Some c' \<Rightarrow> chdir_walk D n (i + m) c' s }"
proof (induction m arbitrary: i c s)
  case (Suc m)
  show ?case
  proof (cases "fat32_find_entry D c (path_stack s ! i) s")
    case (Some a)
    then show ?thesis using Suc by (cases a) (auto split: option.splits simp: bind_split)
  qed simp
qed simp

context block_device
begin

text \<open>One search, in terms of the map of the directory.\<close>

lemma find_in_dir:
  assumes r: "ready s" and d: "is_dir (on_disk s) (g_fs s) c" and p: "is_cstr p"
  obtains cs sn x s' where "chain_at s cs" "hd cs = c" "fat32_to_short_name (cstr p @ [0]) = Some sn"
    "fat32_find_entry D c p s = Some (x, s')" "io_to s (on_disk s) (cluster_buffer s') s'"
    "map_option fst x = map_option dirent_of_bytes (slot_get sn (dir_slots (on_disk s) (g_fs s) cs))"
proof -
  obtain cs where cs: "chain_at s cs" "hd cs = c" using d by (auto simp: is_dir_def)
  obtain sn where sn: "fat32_to_short_name p = Some sn" "length sn = 11" using p by (rule short_name_ok)
  from find_entry_ok[OF r cs(1) sn] cs(2) obtain s' where
    "fat32_find_entry D c p s = Some (lookup_chain (on_disk s) (g_fs s) sn cs, s')"
    "io_to s (on_disk s) (cluster_buffer s') s'" by auto
  then show ?thesis
    using that[OF cs] sn(1) short_name_string[OF p] lookup_chain_get[OF r, of sn cs] by simp
qed

text \<open>Chains of clusters are determined by their first cluster.\<close>

lemma chain_unique:
  assumes "ready s" and "chain_at s cs" and "chain_at s ds" and "hd cs = hd ds"
  shows "cs = ds"
proof -
  obtain c xs ys where "cs = c # xs" "ds = c # ys" using assms(2-4) by (cases cs; cases ds) auto
  then show ?thesis using is_chain_deterministic[OF ready_geometry[OF assms(1)]] assms(2,3) by blast
qed

lemma walk_ok:
  assumes "dir_path S fs ns c"
  shows "ready s \<Longrightarrow> on_disk s = S \<Longrightarrow> g_fs s = fs \<Longrightarrow> (\<And>i. i < length ns \<Longrightarrow> is_cstr (path_stack s ! i) \<and> cstr (path_stack s ! i) = ns ! i) \<Longrightarrow>
    \<exists>s'. chdir_walk D (length ns) 0 (root_dir_first_cluster fs) s = Some (Some c, s') \<and> io_to s S (cluster_buffer s') s'"
  using assms
proof (induction rule: dir_path.induct)
  case path_root
  then show ?case using io_to_refl by auto
next
  case (path_step ns c n d)
  obtain cs sn b where h: "is_chain (fat_entry S fs) fs cs" "hd cs = c" "fat32_to_short_name (n @ [0]) = Some sn"
    "slot_get sn (dir_slots S fs cs) = Some b" "d = dirent_cluster (dirent_of_bytes b)"
    using path_step.hyps(2) by (auto simp: subdir_def)
  have "is_cstr (path_stack s ! i) \<and> cstr (path_stack s ! i) = ns ! i" if "i < length ns" for i
    using path_step.prems(4)[of i] that by (simp add: nth_append)
  then obtain s1 where s1: "chdir_walk D (length ns) 0 (root_dir_first_cluster fs) s = Some (Some c, s1)"
    "io_to s S (cluster_buffer s1) s1" using path_step.IH[OF path_step.prems(1-3)] by blast
  note f = io_toD[OF s1(2)] and r1 = io_to_ready[OF s1(2) path_step.prems(1)]
  have p: "is_cstr (path_stack s1 ! length ns)" "cstr (path_stack s1 ! length ns) = n"
    using path_step.prems(4)[of "length ns"] f(5) by (simp_all add: nth_append)
  have dir: "is_dir (on_disk s1) (g_fs s1) c" using h(1,2) path_step.prems(3) f(1,3) by (auto simp: is_dir_def)
  obtain ds sn' x s2 where s2: "chain_at s1 ds" "hd ds = c" "fat32_to_short_name (cstr (path_stack s1 ! length ns) @ [0]) = Some sn'"
    "fat32_find_entry D c (path_stack s1 ! length ns) s1 = Some (x, s2)" "io_to s1 (on_disk s1) (cluster_buffer s2) s2"
    "map_option fst x = map_option dirent_of_bytes (slot_get sn' (dir_slots (on_disk s1) (g_fs s1) ds))"
    using r1 dir p(1) by (rule find_in_dir)
  have "chain_at s1 cs" using h(1) path_step.prems(3) f(1,3) by simp
  then have "ds = cs" using chain_unique[OF r1 s2(1)] s2(2) h(2) by simp
  moreover have "sn' = sn" using s2(3) h(3) p(2) by simp
  ultimately obtain a1 a2 a3 where x: "x = Some (dirent_of_bytes b, a2, a3)"
    using s2(6) h(4) path_step.prems(3) f(1,3) by (cases x) auto
  have "io_to s S (cluster_buffer s2) s2" using io_to_trans[OF s1(2) s2(5)] f(1) by simp
  then show ?case using s1(1) s2(4) x h(5) chdir_walk_add[of D "length ns" 1 0 "root_dir_first_cluster fs" s] by auto
qed

text \<open>Entering a directory pushes its name.\<close>

lemma push_name:
  assumes "length p = 12" and "is_cstr path" and "length (cstr path) < 12"
  obtains q q' where "strncpy p path (int 12 - 1) = Some q'" "store q' (12 - 1) [0] = Some q" "length q = 12" "is_cstr q" "cstr q = cstr path"
proof -
  let ?w = "cstr path" and ?q' = "cstr path @ replicate (11 - length (cstr path)) 0 @ drop 11 p"
  let ?q = "cstr path @ replicate (12 - length (cstr path)) 0"
  have 1: "strncpy p path (int 12 - 1) = Some ?q'" using strncpy_spec[OF assms(2), of "int 12 - 1" p] assms(1,3) by simp
  obtain k where k: "12 - length ?w = Suc k" using assms(3) by (metis Suc_diff_Suc)
  then have "11 - length ?w = k" by simp
  then have e: "replicate (12 - length ?w) (0 :: u8) = replicate (11 - length ?w) 0 @ [0]"
    unfolding k by (simp add: replicate_append_same)
  have "take 11 ?q' = ?w @ replicate (11 - length ?w) 0" "length ?q' = 12" using assms(1,3) by simp_all
  moreover have "?q = ?w @ replicate (11 - length ?w) 0 @ [0]" using e by simp
  ultimately have 2: "store ?q' (12 - 1) [0] = Some ?q" by (simp add: store_put_at put_at_def)
  have "is_cstr ?q" "cstr ?q = ?w" unfolding k using cstr_append[OF cstr_no_nul[of path]] by simp_all
  then show ?thesis using that[OF 1 2] assms(3) by simp
qed

lemma chdir_name_ok:
  assumes r: "ready s" and ok: "cwd_ok (on_disk s) s" and p: "is_cstr path" and nm: "length (cstr path) < 12" "path_depth s < 16"
    and special: "cstr path \<noteq> ascii ''/''" "cstr path \<noteq> ascii ''..''"
    and dirs: "\<And>n d. subdir (on_disk s) (g_fs s) (g_current_dir_cluster s) n d \<Longrightarrow> is_dir (on_disk s) (g_fs s) d"
  shows "\<exists>res s'. fat32_chdir D path s = Some (res, s') \<and> ready s' \<and> on_disk s' = on_disk s \<and> cwd_ok (on_disk s) s' \<and>
    (res = 0 \<and> working_dir s' = working_dir s @ [cstr path] \<and>
       subdir (on_disk s) (g_fs s) (g_current_dir_cluster s) (cstr path) (g_current_dir_cluster s') \<or>
     res = - 1 \<and> working_dir s' = working_dir s \<and> g_current_dir_cluster s' = g_current_dir_cluster s \<and>
       (\<nexists>d. subdir (on_disk s) (g_fs s) (g_current_dir_cluster s) (cstr path) d))"
proof -
  let ?S = "on_disk s" and ?fs = "g_fs s" and ?c = "g_current_dir_cluster s"
  have "is_cstr (ascii ''/'' @ [0])" "cstr (ascii ''/'' @ [0]) = ascii ''/''" "is_cstr (ascii ''..'' @ [0])" "cstr (ascii ''..'' @ [0]) = ascii ''..''"
    by (simp_all add: ascii_def is_cstr_def cstr_def)
  then obtain r1 r2 where cmp: "strcmp path (ascii ''/'' @ [0]) = Some r1" "r1 \<noteq> 0" "strcmp path (ascii ''..'' @ [0]) = Some r2" "r2 \<noteq> 0"
    using strcmp_spec[OF p, of "ascii ''/'' @ [0]"] strcmp_spec[OF p, of "ascii ''..'' @ [0]"] special by auto
  have dir: "is_dir ?S ?fs ?c" and path: "dir_path ?S ?fs (working_dir s) ?c" using ok by (simp_all add: cwd_ok_def)
  obtain cs sn x s1 where f: "chain_at s cs" "hd cs = ?c" "fat32_to_short_name (cstr path @ [0]) = Some sn"
    "fat32_find_entry D ?c path s = Some (x, s1)" "io_to s ?S (cluster_buffer s1) s1"
    "map_option fst x = map_option dirent_of_bytes (slot_get sn (dir_slots ?S ?fs cs))"
    using r dir p by (rule find_in_dir)
  note f1 = io_toD[OF f(5)] and ready1 = io_to_ready[OF f(5) r]
  have sub: "\<exists>b. slot_get sn (dir_slots ?S ?fs cs) = Some b \<and> de_attr (dirent_of_bytes b) AND FAT32_ATTR_DIRECTORY \<noteq> 0"
    if "subdir ?S ?fs ?c (cstr path) d" for d
  proof -
    from that obtain ds sn' b where h: "chain_at s ds" "hd ds = ?c" "fat32_to_short_name (cstr path @ [0]) = Some sn'"
      "slot_get sn' (dir_slots ?S ?fs ds) = Some b" "de_attr (dirent_of_bytes b) AND FAT32_ATTR_DIRECTORY \<noteq> 0"
      by (auto simp: subdir_def)
    have "cs = ds" by (rule chain_unique[OF r f(1) h(1)]) (simp add: f(2) h(2))
    moreover have "sn = sn'" using f(3) h(3) by simp
    ultimately show ?thesis using h(4,5) by blast
  qed
  have same: "working_dir s1 = working_dir s" "cwd_ok ?S s1 = cwd_ok ?S s" using f1 by (simp_all add: working_dir_def cwd_ok_def)
  show ?thesis
  proof (cases x)
    case None
    then have "fat32_chdir D path s = Some (- 1, s1)" using cmp f(4) by (simp add: fat32_chdir_def)
    moreover have "\<nexists>d. subdir ?S ?fs ?c (cstr path) d" using sub f(6) None by fastforce
    ultimately show ?thesis using ready1 f1(1,7) same ok by blast
  next
    case (Some t)
    then have "map_option dirent_of_bytes (slot_get sn (dir_slots ?S ?fs cs)) = Some (fst t)" using f(6) by simp
    then obtain b where b: "slot_get sn (dir_slots ?S ?fs cs) = Some b" "dirent_of_bytes b = fst t" by blast
    then obtain y z where t: "x = Some (dirent_of_bytes b, y, z)" using Some by (cases t) simp
    show ?thesis
    proof (cases "de_attr (dirent_of_bytes b) AND FAT32_ATTR_DIRECTORY = 0")
      case True
      then have "fat32_chdir D path s = Some (- 1, s1)" using cmp f(4) t by (simp add: fat32_chdir_def)
      moreover have "\<nexists>d. subdir ?S ?fs ?c (cstr path) d" using sub b(1) True by fastforce
      ultimately show ?thesis using ready1 f1(1,7) same ok by blast
    next
      case False
      have len: "length (path_stack s ! path_depth s) = 12" using ok nm(2) by (simp add: cwd_ok_def)
      obtain q q' where q: "strncpy (path_stack s ! path_depth s) path (int 12 - 1) = Some q'" "store q' (12 - 1) [0] = Some q"
        "length q = 12" "is_cstr q" "cstr q = cstr path" using len p nm(1) by (rule push_name)
      define s' where "s' = s1\<lparr>g_current_dir_cluster := dirent_cluster (dirent_of_bytes b),
        path_stack := (path_stack s)[path_depth s := q], path_depth := path_depth s + 1\<rparr>"
      have "fat32_chdir D path s = Some (0, s')"
        using cmp f(4) t False f1(5,6) nm(2) q(1,2) by (simp add: fat32_chdir_def Let_def s'_def)
      moreover have w: "working_dir s' = working_dir s @ [cstr path]"
        using ok nm(2) q(5) by (simp add: working_dir_def s'_def cwd_ok_def take_Suc_conv_app_nth)
      moreover have e: "subdir ?S ?fs ?c (cstr path) (g_current_dir_cluster s')"
        using f(1-3) b(1) False by (auto simp: subdir_def s'_def)
      have "dir_path ?S ?fs (working_dir s @ [cstr path]) (g_current_dir_cluster s')" by (rule path_step[OF path e])
      then have "cwd_ok ?S s'"
        using ok nm(2) q(3,4) w dirs[OF e] f1(3)
        by (auto simp: cwd_ok_def s'_def nth_list_update less_Suc_eq dest!: set_update_subset_insert[THEN subsetD])
      moreover have "ready s'" "on_disk s' = ?S" using ready1 f1(1) by (simp_all add: s'_def fat_ready_def buffers_ok_def)
      ultimately show ?thesis using e by blast
    qed
  qed
qed

lemma chdir_up_ok:
  assumes r: "ready s" and ok: "cwd_ok (on_disk s) s" and p: "is_cstr path" and up: "cstr path = ascii ''/'' \<or> cstr path = ascii ''..''"
  shows "\<exists>s'. fat32_chdir D path s = Some (0, s') \<and> ready s' \<and> on_disk s' = on_disk s \<and> cwd_ok (on_disk s) s' \<and>
    working_dir s' = (if cstr path = ascii ''/'' then [] else butlast (working_dir s))"
proof -
  let ?S = "on_disk s" and ?fs = "g_fs s" and ?c = "g_current_dir_cluster s" and ?k = "path_depth s"
  have lit: "is_cstr (ascii ''/'' @ [0])" "cstr (ascii ''/'' @ [0]) = ascii ''/''" "is_cstr (ascii ''..'' @ [0])" "cstr (ascii ''..'' @ [0]) = ascii ''..''"
    "ascii ''/'' \<noteq> ascii ''..''"
    by (simp_all add: ascii_def is_cstr_def cstr_def)
  have dir: "is_dir ?S ?fs ?c" and path: "dir_path ?S ?fs (working_dir s) ?c" using ok by (simp_all add: cwd_ok_def)
  have root: "is_dir ?S ?fs (root_dir_first_cluster ?fs)" by (rule path_root_dir[OF path dir])
  have rd: "ready (s\<lparr>g_current_dir_cluster := c, path_depth := n\<rparr>)" for c n using r by (simp add: fat_ready_def buffers_ok_def)
  have to_root: "cwd_ok ?S (s\<lparr>g_current_dir_cluster := root_dir_first_cluster ?fs, path_depth := 0\<rparr>)"
    using ok root by (simp add: cwd_ok_def working_dir_def dir_path.path_root)
  show ?thesis
  proof (cases "cstr path = ascii ''/''")
    case True
    then have "strcmp path (ascii ''/'' @ [0]) = Some 0" using strcmp_zero_iff[OF p lit(1)] lit(2) by simp
    then have "fat32_chdir D path s = Some (0, s\<lparr>g_current_dir_cluster := root_dir_first_cluster ?fs, path_depth := 0\<rparr>)"
      by (simp add: fat32_chdir_def)
    then show ?thesis using to_root rd True by (simp add: working_dir_def)
  next
    case False
    then obtain r1 where cmp: "strcmp path (ascii ''/'' @ [0]) = Some r1" "r1 \<noteq> 0" "strcmp path (ascii ''..'' @ [0]) = Some 0"
      using strcmp_spec[OF p lit(1)] strcmp_zero_iff[OF p lit(3)] lit up by auto
    have ln: "length (working_dir s) = ?k" using ok by (simp add: working_dir_def cwd_ok_def)
    consider "?k = 0" | "?k = 1" | "1 < ?k" by linarith
    then show ?thesis
    proof cases
      case 1
      then have "fat32_chdir D path s = Some (0, s)" using cmp by (simp add: fat32_chdir_def)
      then show ?thesis using r ok False 1 by (simp add: working_dir_def)
    next
      case 2
      then have "fat32_chdir D path s = Some (0, s\<lparr>g_current_dir_cluster := root_dir_first_cluster ?fs, path_depth := 0\<rparr>)"
        using cmp by (simp add: fat32_chdir_def Let_def)
      moreover have "butlast (working_dir s) = []" using ln 2 by (cases "working_dir s") auto
      ultimately show ?thesis using to_root rd False by (simp add: working_dir_def)
    next
      case 3
      let ?s = "s\<lparr>path_depth := ?k - 1\<rparr>"
      have ne: "working_dir s \<noteq> []" using 3 ln by auto
      obtain c' where c': "dir_path ?S ?fs (butlast (working_dir s)) c'" "is_dir ?S ?fs c'" using path ne by (rule path_parent)
      have lb: "length (butlast (working_dir s)) = ?k - 1" using ln by simp
      have st: "is_cstr (path_stack ?s ! i) \<and> cstr (path_stack ?s ! i) = butlast (working_dir s) ! i"
        if "i < length (butlast (working_dir s))" for i
        using that ok lb by (auto simp: cwd_ok_def working_dir_def nth_butlast)
      have r': "ready ?s" using r by (simp add: fat_ready_def buffers_ok_def)
      obtain s1 where s1: "chdir_walk D (?k - 1) 0 (root_dir_first_cluster ?fs) ?s = Some (Some c', s1)" "io_to ?s ?S (cluster_buffer s1) s1"
        using walk_ok[OF c'(1) r' _ _ st] lb by auto
      note f1 = io_toD[OF s1(2)]
      define s' where "s' = s1\<lparr>g_current_dir_cluster := c'\<rparr>"
      have "fat32_chdir D path s = Some (0, s')" using cmp s1(1) 3 f1(3,6) by (simp add: fat32_chdir_def Let_def s'_def)
      moreover have w: "working_dir s' = butlast (working_dir s)"
        using f1(5,6) 3 ok by (simp add: working_dir_def s'_def cwd_ok_def butlast_take map_butlast[symmetric])
      moreover have "cwd_ok ?S s'" using ok c' w f1(3,5,6) 3 by (auto simp: cwd_ok_def s'_def)
      moreover have "ready s'" "on_disk s' = ?S" using io_to_ready[OF s1(2) r'] f1(1) by (simp_all add: s'_def fat_ready_def buffers_ok_def)
      ultimately show ?thesis using False by auto
    qed
  qed
qed

end

section \<open>The property\<close>


text \<open>The small volume again, with a directory in the place of the file.\<close>

definition sub_slot :: bytes where
  "sub_slot = dirent_to_bytes (new_dirent (ascii ''SUB        '') FAT32_ATTR_DIRECTORY 4)"

definition sub_volume :: "ata_dev fat_state" where
  "sub_volume = gap_volume\<lparr>disk := blank_drive\<lparr>a_disk := (\<lambda>l.
       if l = 35 then sub_slot @ replicate (15 * 32) 0 else a_disk (disk gap_volume) l)\<rparr>\<rparr>"

lemma sub_slot_facts: "length sub_slot = 32" "live sub_slot" "take 11 sub_slot = ascii ''SUB        ''" "sub_slot ! 0 \<noteq> 0"
  "de_attr (dirent_of_bytes sub_slot) = FAT32_ATTR_DIRECTORY" "dirent_cluster (dirent_of_bytes sub_slot) = 4"
proof -
  show "length sub_slot = 32" unfolding sub_slot_def by (rule length_dirent) (simp add: new_dirent_def ascii_def)
  show "live sub_slot" "take 11 sub_slot = ascii ''SUB        ''" "sub_slot ! 0 \<noteq> 0"
    by (simp_all add: sub_slot_def live_def dirent_to_bytes_def new_dirent_def ascii_def)
  show "de_attr (dirent_of_bytes sub_slot) = FAT32_ATTR_DIRECTORY" "dirent_cluster (dirent_of_bytes sub_slot) = 4"
    unfolding sub_slot_def by (subst new_dirent_decode(1), simp add: ascii_def, simp add: new_dirent_decode(2) ascii_def, (simp add: new_dirent_def)?)+
qed

lemma sub_volume_ready: "fat_ready pio.hw_online 0x10000000 sub_volume"
  by (simp add: fat_ready_def geometry_ok_def buffers_ok_def sub_volume_def gap_volume_def small_volume_def small_fs_def
      pio.hw_online_def ata_ready_def blank_drive_def length_put_at length_file_slot sub_slot_facts)

lemma sub_volume_chains:
  "is_chain (fat_entry (pio.hw_sectors (disk sub_volume)) (g_fs sub_volume)) (g_fs sub_volume) [3]"
  "is_chain (fat_entry (pio.hw_sectors (disk sub_volume)) (g_fs sub_volume)) (g_fs sub_volume) [4]"
  using get32_put_at[of 16 "put_at (replicate 512 0) 12 (le32 FAT32_EOC_MAX)" 12 FAT32_EOC_MAX]
    get32_put_at[of 16 "put_at (replicate 512 0) 12 (le32 FAT32_EOC_MAX)" 16 FAT32_EOC_MAX]
    get32_put_at[of 12 "replicate 512 0" 12 FAT32_EOC_MAX]
  by (simp_all add: valid_cluster_def small_fs_def fat_copy_def fat_lba_def sub_volume_def gap_volume_def pio.hw_sectors_def length_put_at)

lemma sub_volume_slots:
  "dir_slots (pio.hw_sectors (disk sub_volume)) (g_fs sub_volume) [3] = sub_slot # replicate 15 (replicate 32 0)"
proof -
  have one: "slots x = [x]" if "length x = 32" for x using that by (simp add: slots_def)
  have "cluster_data (pio.hw_sectors (disk sub_volume)) (g_fs sub_volume) 3 = sub_slot @ replicate (15 * 32) 0"
    by (simp add: cluster_data_def sub_volume_def gap_volume_def small_fs_def cluster_lba_def pio.hw_sectors_def)
  then have "dir_slots (pio.hw_sectors (disk sub_volume)) (g_fs sub_volume) [3] = slots sub_slot @ slots (replicate (15 * 32) 0)"
    by (simp only: dir_slots_def file_data_def list.map concat.simps append_Nil2, subst slots_append[of _ 1]) (simp_all add: sub_slot_facts)
  then show ?thesis using slots_zero[of 15] by (simp add: one sub_slot_facts)
qed

text \<open>The only directory in it is \<open>sub\<close>.\<close>

lemma sub_volume_subdir:
  "subdir (pio.hw_sectors (disk sub_volume)) (g_fs sub_volume) (g_current_dir_cluster sub_volume) n d \<longleftrightarrow>
     fat32_to_short_name (n @ [0]) = Some (ascii ''SUB        '') \<and> d = 4"
proof -
  let ?S = "pio.hw_sectors (disk sub_volume)" and ?fs = "g_fs sub_volume"
  have c: "g_current_dir_cluster sub_volume = 3" by (simp add: sub_volume_def gap_volume_def)
  have get: "slot_get x (sub_slot # replicate 15 (replicate 32 0)) = (if x = ascii ''SUB        '' then Some sub_slot else None)" for x
    using sub_slot_facts(2-4) by (auto simp: numeral_eq_Suc)
  have one: "cs = [3]" if "is_chain (fat_entry ?S ?fs) ?fs cs" "hd cs = 3" for cs
    using block_device.chain_unique[OF pio.blk.block_device_axioms sub_volume_ready that(1) sub_volume_chains(1)] that(2) by simp
  show ?thesis unfolding c
  proof
    assume "subdir ?S ?fs 3 n d"
    then obtain cs sn b where h: "is_chain (fat_entry ?S ?fs) ?fs cs" "hd cs = 3" "fat32_to_short_name (n @ [0]) = Some sn"
      "slot_get sn (dir_slots ?S ?fs cs) = Some b" "d = dirent_cluster (dirent_of_bytes b)" by (auto simp: subdir_def)
    then show "fat32_to_short_name (n @ [0]) = Some (ascii ''SUB        '') \<and> d = 4"
      using one[OF h(1,2)] h(4)[unfolded one[OF h(1,2)] sub_volume_slots get] sub_slot_facts(6) by (auto split: if_splits)
  next
    assume "fat32_to_short_name (n @ [0]) = Some (ascii ''SUB        '') \<and> d = 4"
    then show "subdir ?S ?fs 3 n d"
      unfolding subdir_def
      by - (rule exI[of _ "[3]"], rule exI[of _ "ascii ''SUB        ''"], rule exI[of _ sub_slot],
        simp add: sub_volume_chains(1) sub_volume_slots get sub_slot_facts(5,6) del: is_chain.simps slot_get.simps)
  qed
qed


end
