(* ===== verification/Rtl8139.thy ===== *)
theory Rtl8139
  imports Kernel_Libc Ata
begin

text \<open>
  The network card driver's transmit path (\<open>rtl8139_send\<close> of \<open>src/drivers/rtl8139/rtl8139.c\<close>), the
  transmit half of \<open>src/drivers/net/ethernet.c\<close>, and the state of the whole network stack: the
  static variables of \<open>rtl8139.c\<close>, \<open>ethernet.c\<close>, \<open>arp.c\<close>, \<open>ip.c\<close> and \<open>icmp.c\<close>.

  The ports (\<open>port_ops\<close>) and the memory the card reads and writes by bus mastering (\<open>dma_ops\<close>) are
  parameters.  \<open>rtl_nic\<close> states what the driver relies on: memory holds what was stored, a status
  read changes nothing, and writing a transmit status register sends the bytes at the address of
  that descriptor.
\<close>

section \<open>The state of the network stack\<close>

record arp_entry_t =
  ae_ip :: u32
  ae_mac :: bytes
  ae_timestamp :: u32
  ae_valid :: bool

record queued_packet_t =
  qp_dst :: u32
  qp_proto :: u8
  qp_payload :: bytes
  qp_len :: u16
  qp_timestamp :: u32
  qp_valid :: bool

record 'd net_state =
  n_dev :: 'd
  n_console :: bytes
  n_ticks :: u32
  io_base :: u32
  irq_line :: u8
  rx_buffer_phys :: u32
  tx_buffer_phys :: "u32 list"
  current_rx_offset :: u16
  mac_addr :: bytes
  n_tx :: u32
  local_mac :: bytes
  arp_local_ip :: u32
  arp_table :: "arp_entry_t list"
  ip_local_ip :: u32
  arp_queue :: "queued_packet_t list"
  arp_pending :: int
  ping_id :: u16
  ping_seq :: u16
  ping_waiting :: bool
  ping_sent_time :: u32

record 'd dma_ops =
  dma_store :: "u32 \<Rightarrow> bytes \<Rightarrow> 'd \<Rightarrow> 'd"
  dma_load :: "u32 \<Rightarrow> nat \<Rightarrow> 'd \<Rightarrow> bytes"

definition get_tick_count :: "'d net_state \<Rightarrow> u32" where
  "get_tick_count s = n_ticks s"

section \<open>Messages on the terminal\<close>

text \<open>The log is the text \<open>term_puts\<close> receives; \<open>put_num\<close> is the recurring
  \<open>itoa(v, buf, base); term_puts(buf)\<close> with its sixteen byte buffer.\<close>

definition net_puts :: "bytes \<Rightarrow> 'd net_state \<Rightarrow> 'd net_state" where
  "net_puts str s = s\<lparr>n_console := n_console s @ str\<rparr>"

definition net_msg :: "string \<Rightarrow> 'd net_state \<Rightarrow> 'd net_state" where
  "net_msg cs s = net_puts (ascii cs) s"

definition net_line :: "string \<Rightarrow> 'd net_state \<Rightarrow> 'd net_state" where
  "net_line cs s = net_puts (ascii cs @ [0x0A]) s"

definition net_nl :: "'d net_state \<Rightarrow> 'd net_state" where
  "net_nl s = net_puts [0x0A] s"

definition put_num :: "u32 \<Rightarrow> int \<Rightarrow> 'd net_state \<Rightarrow> 'd net_state option" where
  "put_num v base s = do {
     buf \<leftarrow> itoa v (replicate 16 0) base;
     Some (net_puts (cstr buf) s)
   }"

section \<open>Sending a frame\<close>

definition tx_status_port :: "u32 \<Rightarrow> u32 \<Rightarrow> u16" where
  "tx_status_port base tx = ucast (base + 0x10 + tx * 4)"

definition set_dev :: "'d \<Rightarrow> 'd net_state \<Rightarrow> 'd net_state" where
  "set_dev d s = s\<lparr>n_dev := d\<rparr>"

text \<open>Reading the status register of the current descriptor and printing it.\<close>

definition show_tx_status :: "'d port_ops \<Rightarrow> string \<Rightarrow> 'd net_state \<Rightarrow> 'd net_state option" where
  "show_tx_status P label s =
     (case inl P (tx_status_port (io_base s) (n_tx s)) (n_dev s) of
        (status, d) \<Rightarrow> do {
          s \<leftarrow> put_num status 16 (net_msg label (set_dev d s));
          Some (net_nl s)
        })"

text \<open>The copy into the transmit buffer, padded with zeros to the Ethernet minimum.\<close>

definition tx_fill :: "'d dma_ops \<Rightarrow> u32 \<Rightarrow> bytes \<Rightarrow> u16 \<Rightarrow> 'd net_state \<Rightarrow> 'd net_state" where
  "tx_fill M a frame len s =
     (if len < 60 then
        (let s = net_line ''[RTL8139] Padding packet to 60 bytes'' s;
             d = dma_store M a frame (n_dev s)
         in set_dev (dma_store M (a + ucast len) (replicate (unat (60 - len)) 0) d) s)
      else set_dev (dma_store M a frame (n_dev s)) s)"

definition rtl8139_send :: "'d port_ops \<Rightarrow> 'd dma_ops \<Rightarrow> bytes \<Rightarrow> u16 \<Rightarrow> 'd net_state \<Rightarrow> 'd net_state option" where
  "rtl8139_send P M data len s =
     (if io_base s = 0 then Some (net_line ''[RTL8139] ERROR: Not initialized'' s)
      else do {
        s \<leftarrow> put_num (ucast len) 10 (net_msg ''[RTL8139] TX: len='' s);
        s \<leftarrow> put_num (n_tx s) 10 (net_msg '', desc='' s);
        let s = net_nl s;
        if len > 1792 then Some (net_line ''[RTL8139] ERROR: Packet too large'' s)
        else do {
          a \<leftarrow> (if unat (n_tx s) < length (tx_buffer_phys s) then Some (tx_buffer_phys s ! unat (n_tx s)) else None);
          frame \<leftarrow> load data 0 (unat len);
          let s = tx_fill M a frame len s;
          let len = (if len < 60 then 60 else len);
          s \<leftarrow> show_tx_status P ''[RTL8139] TX status before: '' s;
          let s = set_dev (outl P (tx_status_port (io_base s) (n_tx s)) (ucast (len AND 0x1FFF)) (n_dev s)) s;
          s \<leftarrow> show_tx_status P ''[RTL8139] TX status after: '' s;
          Some (s\<lparr>n_tx := (n_tx s + 1) AND 3\<rparr>)
        }
      })"

section \<open>Ethernet\<close>

definition ETH_TYPE_ARP :: u16 where "ETH_TYPE_ARP = 0x0806"
definition ETH_TYPE_IP :: u16 where "ETH_TYPE_IP = 0x0800"

definition bswap16 :: "u16 \<Rightarrow> u16" where
  "bswap16 w = push_bit 8 w OR drop_bit 8 w"

definition eth_init :: "bytes \<Rightarrow> 'd net_state \<Rightarrow> 'd net_state option" where
  "eth_init mac s = do { m \<leftarrow> memcpy (local_mac s) mac 6; Some (s\<lparr>local_mac := m\<rparr>) }"

definition eth_mac :: "'d net_state \<Rightarrow> bytes" where
  "eth_mac s = local_mac s"

record eth_hdr_t =
  eh_dst :: bytes
  eh_src :: bytes
  eh_type :: u16

definition eth_hdr_to_bytes :: "eth_hdr_t \<Rightarrow> bytes" where
  "eth_hdr_to_bytes h = eh_dst h @ eh_src h @ le16 (eh_type h)"

definition eth_hdr_of_bytes :: "bytes \<Rightarrow> eth_hdr_t" where
  "eth_hdr_of_bytes bs = \<lparr>eh_dst = take 6 bs, eh_src = take 6 (drop 6 bs), eh_type = get16 bs 12\<rparr>"

text \<open>\<open>frame\<close> has 1514 bytes, of which the header takes 14: a longer payload leaves the array.\<close>

definition eth_tx :: "'d port_ops \<Rightarrow> 'd dma_ops \<Rightarrow> bytes \<Rightarrow> u16 \<Rightarrow> bytes \<Rightarrow> u16 \<Rightarrow> 'd net_state \<Rightarrow> 'd net_state option" where
  "eth_tx P M dst type payload len s = do {
     frame \<leftarrow> Some (replicate 1514 0);
     d6 \<leftarrow> load dst 0 6;
     s6 \<leftarrow> load (local_mac s) 0 6;
     frame \<leftarrow> store frame 0 (eth_hdr_to_bytes \<lparr>eh_dst = d6, eh_src = s6, eh_type = bswap16 type\<rparr>);
     body \<leftarrow> load payload 0 (unat len);
     frame \<leftarrow> store frame 14 body;
     rtl8139_send P M frame (len + 14) s
   }"

section \<open>Logging changes nothing but the log\<close>

lemma put_num_ok: "printable v base \<Longrightarrow> \<exists>t. put_num v base s = Some (net_puts t s)"
  using itoa_printable[of v base] by (auto simp: put_num_def)

lemma net_puts_fold:
  "net_puts t (net_puts u s) = net_puts (u @ t) s" "net_msg cs s = net_puts (ascii cs) s"
  "net_line cs s = net_puts (ascii cs @ [0x0A]) s"
  "net_nl s = net_puts [0x0A] s"
  by (simp_all add: net_puts_def net_msg_def net_line_def net_nl_def)

lemma net_puts_fields [simp]:
  "n_dev (net_puts t s) = n_dev s" "n_ticks (net_puts t s) = n_ticks s" "io_base (net_puts t s) = io_base s"
  "local_mac (net_puts t s) = local_mac s" "arp_table (net_puts t s) = arp_table s"
  "arp_queue (net_puts t s) = arp_queue s" "arp_pending (net_puts t s) = arp_pending s"
  "arp_local_ip (net_puts t s) = arp_local_ip s" "ip_local_ip (net_puts t s) = ip_local_ip s"
  "ping_waiting (net_puts t s) = ping_waiting s" "current_rx_offset (net_puts t s) = current_rx_offset s"
  "rx_buffer_phys (net_puts t s) = rx_buffer_phys s"
  by (simp_all add: net_puts_def)

lemma net_puts_nil: "net_puts [] s = s"
  by (simp add: net_puts_def)

lemma put_num_msg:
  assumes "printable v base"
  shows "\<exists>t. put_num v base (net_puts u s) = Some (net_puts t s)"
    and "\<exists>t. put_num v base (net_msg cs s) = Some (net_puts t s)"
    and "\<exists>t. put_num v base (net_msg cs (net_puts u s)) = Some (net_puts t s)"
  using put_num_ok[OF assms, of "net_puts u s"] put_num_ok[OF assms, of "net_msg cs s"]
    put_num_ok[OF assms, of "net_msg cs (net_puts u s)"]
  by (auto simp: net_puts_fold)

lemma printable_u16: "printable (ucast (w :: u16)) base" if "base = 10 \<or> base = 16"
proof -
  have "unat (ucast w :: u32) < 2 ^ 16" using unat_u16[of w] by (simp add: unsigned_ucast_eq take_bit_nat_eq_self)
  then have "(ucast w :: u32) < 0x80000000" by (simp add: word_less_nat_alt)
  then show ?thesis using that by (auto simp: printable_def)
qed

lemma printable_u8: "printable (ucast (w :: u8)) base" if "base = 10 \<or> base = 16"
proof -
  have "unat (ucast w :: u32) < 2 ^ 8" using unat_u8[of w] by (simp add: unsigned_ucast_eq take_bit_nat_eq_self)
  then have "(ucast w :: u32) < 0x80000000" by (simp add: word_less_nat_alt)
  then show ?thesis using that by (auto simp: printable_def)
qed

lemma printable_small: "v < 0x80000000 \<Longrightarrow> base = 10 \<or> base = 16 \<Longrightarrow> printable v base"
  by (auto simp: printable_def)

section \<open>What the driver relies on\<close>

text \<open>The card and the memory it shares with the processor.  Bit 31 of a transmit status is the
  report of a lost carrier; the laws ask for a card that does not raise it.\<close>

locale rtl_nic =
  fixes P :: "'d port_ops" and M :: "'d dma_ops"
    and wire :: "'d \<Rightarrow> bytes list" and ram :: "'d \<Rightarrow> u32 \<Rightarrow> u8" and ok :: "'d \<Rightarrow> bool"
    and base :: u32 and txa :: "u32 list"
  assumes card: "base \<noteq> 0" "length txa = 4"
    and mem_store: "ok d \<Longrightarrow> j < 4 \<Longrightarrow> off + length bs \<le> 1792 \<Longrightarrow> a = txa ! j + of_nat off \<Longrightarrow>
      ok (dma_store M a bs d) \<and> wire (dma_store M a bs d) = wire d \<and>
      ram (dma_store M a bs d) = ram_put a bs (ram d)"
    and status_read: "ok d \<Longrightarrow> i < 4 \<Longrightarrow> inl P (tx_status_port base i) d = (v, d') \<Longrightarrow>
      v < 0x80000000 \<and> ok d' \<and> wire d' = wire d \<and> ram d' = ram d"
    and transmit: "ok d \<Longrightarrow> i < 4 \<Longrightarrow> n \<le> 1792 \<Longrightarrow>
      ok (outl P (tx_status_port base i) n d) \<and> ram (outl P (tx_status_port base i) n d) = ram d \<and>
      wire (outl P (tx_status_port base i) n d) = wire d @ [ram_get (txa ! unat i) (unat n) (ram d)]"

text \<open>The driver's variables agree with the card.\<close>

definition nic_ready :: "('d \<Rightarrow> bool) \<Rightarrow> u32 \<Rightarrow> u32 list \<Rightarrow> 'd net_state \<Rightarrow> bool" where
  "nic_ready ok base txa s \<longleftrightarrow> ok (n_dev s) \<and> io_base s = base \<and> tx_buffer_phys s = txa \<and> n_tx s < 4"

text \<open>The frame on the wire: what was given, padded with zeros to sixty bytes.\<close>

definition pad_frame :: "bytes \<Rightarrow> bytes" where
  "pad_frame f = f @ replicate (60 - length f) 0"

definition eth_frame :: "bytes \<Rightarrow> bytes \<Rightarrow> u16 \<Rightarrow> bytes \<Rightarrow> bytes" where
  "eth_frame dst src type payload =
     pad_frame (eth_hdr_to_bytes \<lparr>eh_dst = dst, eh_src = src, eh_type = bswap16 type\<rparr> @ payload)"

lemma tx_length_bits:
  assumes "unat (len :: u16) \<le> 1792"
  shows "unat (ucast (len AND 0x1FFF) :: u32) = unat len"
proof -
  have "len AND 0x1FFF = take_bit 13 len" by (simp add: take_bit_eq_mask mask_eq_exp_minus_1)
  then have "unat (len AND 0x1FFF) = unat len"
    using assms by (simp add: unsigned_take_bit_eq take_bit_nat_eq_self)
  then show ?thesis using unat_u16[of len] by (simp add: unsigned_ucast_eq take_bit_nat_eq_self)
qed

context rtl_nic
begin

lemma tx_fill_ok:
  assumes "ok (n_dev s)" and "length frame = unat len" and "len \<le> 1792" and a: "a = txa ! j" "j < 4"
  shows "\<exists>d t. tx_fill M a frame len s = s\<lparr>n_dev := d, n_console := t\<rparr> \<and> ok d \<and> wire d = wire (n_dev s) \<and>
    ram_get a (unat (if len < 60 then 60 else len)) (ram d) = pad_frame frame"
proof (cases "len < 60")
  case True
  let ?d1 = "dma_store M a frame (n_dev s)"
  let ?z = "replicate (unat (60 - len)) 0 :: bytes"
  let ?d2 = "dma_store M (a + ucast len) ?z ?d1"
  have l: "unat len < 60" using True by (simp add: word_less_nat_alt)
  have z: "unat (60 - len) = 60 - unat len"
    using True by (subst unat_sub) (simp_all add: word_le_nat_alt word_less_nat_alt)
  have u: "(ucast len :: u32) = of_nat (length frame)" using assms(2) by (simp add: unsigned_ucast_eq)
  have d2: "ok ?d2 \<and> wire ?d2 = wire (n_dev s) \<and> ram ?d2 = ram_put (a + ucast len) ?z (ram_put a frame (ram (n_dev s)))"
  proof -
    have "0 + length frame \<le> 1792" "length frame + length ?z \<le> 1792" using l z assms(2) by simp_all
    moreover have "a = txa ! j + of_nat 0" "a + ucast len = txa ! j + of_nat (length frame)" using a(1) u by simp_all
    ultimately show ?thesis
      using mem_store[OF assms(1) a(2), of 0 frame a] mem_store[of ?d1 j "length frame" ?z "a + ucast len"] a(2) by simp
  qed
  have "ram_get a (length frame + length ?z) (ram_put (a + of_nat (length frame)) ?z
      (ram_put a frame (ram (n_dev s)))) = frame @ ?z"
    using l z assms(2) by (intro ram_get_put_tail) simp
  moreover have "length frame + length ?z = 60" using l z assms(2) by simp
  ultimately have "ram_get a 60 (ram ?d2) = pad_frame frame"
    using d2 z assms(2) by (simp only: u pad_frame_def)
  moreover have "tx_fill M a frame len s = s\<lparr>n_dev := ?d2,
      n_console := n_console s @ ascii ''[RTL8139] Padding packet to 60 bytes'' @ [0x0A]\<rparr>"
    using True by (simp add: tx_fill_def set_dev_def net_line_def net_puts_def Let_def)
  ultimately show ?thesis using d2 True by auto
next
  case False
  then have l: "60 \<le> length frame" "length frame \<le> 1792"
    using assms(2,3) by (simp_all add: word_less_nat_alt word_le_nat_alt)
  then show ?thesis
    using False assms mem_store[OF assms(1) a(2), of 0 frame a]
    by (intro exI [of _ "dma_store M a frame (n_dev s)"] exI [of _ "n_console s"])
       (auto simp: tx_fill_def set_dev_def pad_frame_def ram_get_put_same)
qed

lemma show_tx_status_ok:
  assumes "nic_ready ok base txa s"
  shows "\<exists>d t. show_tx_status P label s = Some (s\<lparr>n_dev := d, n_console := t\<rparr>) \<and> ok d \<and>
    wire d = wire (n_dev s) \<and> ram d = ram (n_dev s)"
proof -
  obtain v d where i: "inl P (tx_status_port (io_base s) (n_tx s)) (n_dev s) = (v, d)" by fastforce
  then have d: "v < 0x80000000" "ok d" "wire d = wire (n_dev s)" "ram d = ram (n_dev s)"
    using status_read[of "n_dev s" "n_tx s" v d] assms by (auto simp: nic_ready_def)
  obtain t where "put_num v 16 (net_msg label (set_dev d s)) = Some (net_puts t (net_msg label (set_dev d s)))"
    using put_num_ok[OF printable_small[OF d(1)]] by blast
  then show ?thesis
    using i d by (auto simp: show_tx_status_def set_dev_def net_puts_def net_nl_def net_msg_def)
qed

lemma nic_ready_update:
  "nic_ready ok base txa s \<Longrightarrow> ok d \<Longrightarrow> nic_ready ok base txa (s\<lparr>n_dev := d, n_console := t\<rparr>)"
  by (simp add: nic_ready_def)

lemma send_ok:
  assumes r: "nic_ready ok base txa s" and len: "len \<le> 1792" "unat len \<le> length data"
  shows "\<exists>d t. rtl8139_send P M data len s = Some (s\<lparr>n_dev := d, n_console := t, n_tx := (n_tx s + 1) AND 3\<rparr>) \<and>
    ok d \<and> wire d = wire (n_dev s) @ [pad_frame (take (unat len) data)]"
proof -
  let ?a = "txa ! unat (n_tx s)" and ?len = "if len < 60 then 60 else len :: u16"
  let ?f = "take (unat len) data"
  have tx: "n_tx s < 4" "unat (n_tx s) < 4" using r by (auto simp: nic_ready_def word_less_nat_alt)
  have n: "unat (ucast (?len AND 0x1FFF) :: u32) = unat ?len" "(ucast (?len AND 0x1FFF) :: u32) \<le> 1792"
    using tx_length_bits[of ?len] len(1) by (auto simp: word_le_nat_alt)
  obtain t1 where s1: "put_num (ucast len) 10 (net_msg ''[RTL8139] TX: len='' s) = Some (net_puts t1 s)"
    using put_num_msg(2)[OF printable_u16[of 10 len]] by auto
  obtain t2 where s2: "put_num (n_tx s) 10 (net_msg '', desc='' (net_puts t1 s)) = Some (net_puts t2 s)"
    using put_num_msg(3)[of "n_tx s" 10] tx(2) by (force simp: printable_def)
  let ?s3 = "net_nl (net_puts t2 s)"
  have r3: "nic_ready ok base txa ?s3" using r by (simp add: nic_ready_def net_nl_def net_puts_def)
  obtain d4 t4 where s4: "tx_fill M ?a ?f len ?s3 = ?s3\<lparr>n_dev := d4, n_console := t4\<rparr>"
    "ok d4" "wire d4 = wire (n_dev s)" "ram_get ?a (unat ?len) (ram d4) = pad_frame ?f"
    using tx_fill_ok[of ?s3 ?f len ?a "unat (n_tx s)"] r3 len tx(2) by (auto simp: nic_ready_def net_nl_def net_puts_def)
  let ?s4 = "?s3\<lparr>n_dev := d4, n_console := t4\<rparr>"
  obtain d5 t5 where s5: "show_tx_status P ''[RTL8139] TX status before: '' ?s4 = Some (?s4\<lparr>n_dev := d5, n_console := t5\<rparr>)"
    "ok d5" "wire d5 = wire d4" "ram d5 = ram d4"
    using show_tx_status_ok[OF nic_ready_update[OF r3 s4(2), of t4], of "''[RTL8139] TX status before: ''"] by auto
  let ?d6 = "outl P (tx_status_port base (n_tx s)) (ucast (?len AND 0x1FFF)) d5"
  have d6: "ok ?d6" "wire ?d6 = wire (n_dev s) @ [pad_frame ?f]"
    using transmit[OF s5(2) tx(1) n(2)] s4 s5 n(1) by simp_all
  let ?s6 = "s\<lparr>n_console := t5, n_dev := ?d6\<rparr>"
  have r6: "nic_ready ok base txa ?s6" using r d6(1) by (simp add: nic_ready_def)
  obtain d7 t7 where s7: "show_tx_status P ''[RTL8139] TX status after: '' ?s6 = Some (?s6\<lparr>n_dev := d7, n_console := t7\<rparr>)"
    "ok d7" "wire d7 = wire ?d6"
    using show_tx_status_ok[OF r6, of "''[RTL8139] TX status after: ''"] by auto
  have f: "load data 0 (unat len) = Some ?f" using len(2) by (simp add: load_def)
  have "io_base s = base" "tx_buffer_phys s = txa" using r by (auto simp: nic_ready_def)
  moreover have "\<not> 1792 < len" using len(1) by simp
  ultimately have "rtl8139_send P M data len s = Some (s\<lparr>n_dev := d7, n_console := t7, n_tx := (n_tx s + 1) AND 3\<rparr>)"
    using s1 s2 s4(1) s5(1) s7(1) card tx f
    by (cases "len < 60") (simp_all add: rtl8139_send_def Let_def set_dev_def net_nl_def net_puts_def)
  then show ?thesis using s7 d6 by (intro exI [of _ d7] exI [of _ t7]) simp
qed

lemma eth_tx_ok:
  assumes r: "nic_ready ok base txa s" and m: "length dst = 6" "length (local_mac s) = 6"
    and len: "len \<le> 1500" "unat len \<le> length payload"
  shows "\<exists>d t. eth_tx P M dst type payload len s = Some (s\<lparr>n_dev := d, n_console := t, n_tx := (n_tx s + 1) AND 3\<rparr>) \<and>
    ok d \<and> wire d = wire (n_dev s) @ [eth_frame dst (local_mac s) type (take (unat len) payload)]"
proof -
  let ?h = "eth_hdr_to_bytes \<lparr>eh_dst = dst, eh_src = local_mac s, eh_type = bswap16 type\<rparr>"
  let ?b = "take (unat len) payload"
  have l: "unat len \<le> 1500" using len(1) by (simp add: word_le_nat_alt)
  then have l14: "unat (len + 14) = unat len + 14" by (simp add: unat_add_lem[THEN iffD1])
  have h: "length ?h = 14" using m by (simp add: eth_hdr_to_bytes_def)
  let ?frame = "?h @ ?b @ drop (14 + length ?b) (replicate 1514 0 :: bytes)"
  have "eth_tx P M dst type payload len s = rtl8139_send P M ?frame (len + 14) s"
    using m h l len(2) by (simp add: eth_tx_def load_def store_def)
  moreover have "take (unat (len + 14)) ?frame = ?h @ ?b"
    using h l14 len(2) by simp
  moreover have "len + 14 \<le> 1792" "unat (len + 14) \<le> length ?frame"
    using l l14 h len(2) by (simp_all add: word_le_nat_alt)
  ultimately show ?thesis
    using send_ok[OF r, of "len + 14" ?frame] by (simp add: eth_frame_def)
qed

end

section \<open>A reference card\<close>

text \<open>A card at port \<open>0xC000\<close> that sends at once; the status it reports is the last length written
  with the own and ok bits set.  Reception is a list of frames the card has in store: while
  there is one the command register says so, and writing \<open>CAPR\<close> releases the first.\<close>

record sim_card =
  sc_ram :: "u32 \<Rightarrow> u8"
  sc_wire :: "bytes list"
  sc_txaddr :: "u32 list"
  sc_txstatus :: u32
  sc_pending :: nat

definition sim_descriptor :: "u32 \<Rightarrow> u16 \<Rightarrow> nat option" where
  "sim_descriptor base p = (if p = tx_status_port base 0 then Some 0 else if p = tx_status_port base 1 then Some 1
     else if p = tx_status_port base 2 then Some 2 else if p = tx_status_port base 3 then Some 3 else None)"

definition sim_ports :: "u32 \<Rightarrow> sim_card port_ops" where
  "sim_ports base = \<lparr>
     inb = (\<lambda>p d. (if sc_pending d = 0 then 0x0D else 0x0C, d)),
     outb = (\<lambda>p v d. d),
     inw = (\<lambda>p d. (if sc_pending d = 0 then 0 else 1, d)),
     outw = (\<lambda>p v d. if p = ucast (base + 0x38) then d\<lparr>sc_pending := sc_pending d - 1\<rparr> else d),
     inl = (\<lambda>p d. (sc_txstatus d AND 0x7FFFFFFF, d)),
     outl = (\<lambda>p v d. case sim_descriptor base p of None \<Rightarrow> d
        | Some i \<Rightarrow> d\<lparr>sc_txstatus := v OR 0xA000,
                     sc_wire := sc_wire d @ [ram_get (sc_txaddr d ! i) (unat v) (sc_ram d)]\<rparr>)\<rparr>"

definition sim_dma :: "sim_card dma_ops" where
  "sim_dma = \<lparr>dma_store = (\<lambda>a bs d. d\<lparr>sc_ram := ram_put a bs (sc_ram d)\<rparr>),
              dma_load = (\<lambda>a n d. ram_get a n (sc_ram d))\<rparr>"

definition sim_txaddr :: "u32 list" where
  "sim_txaddr = [0x500000, 0x501000, 0x502000, 0x503000]"

definition sim_base :: u32 where "sim_base = 0xC000"

lemma lt_4_cases: "(i :: u32) < 4 \<Longrightarrow> i = 0 \<or> i = 1 \<or> i = 2 \<or> i = 3"
proof -
  assume "i < 4"
  then have "unat i = 0 \<or> unat i = 1 \<or> unat i = 2 \<or> unat i = 3"
    by (auto simp: word_less_nat_alt)
  then show ?thesis by (auto simp: word_unat_eq_iff)
qed

lemma and_31_less: "(w :: u32) AND 0x7FFFFFFF < 0x80000000"
proof -
  have "w AND 0x7FFFFFFF = take_bit 31 w" by (simp add: take_bit_eq_mask mask_eq_exp_minus_1)
  then have "unat (w AND 0x7FFFFFFF) < 2 ^ 31"
    by (simp add: unsigned_take_bit_eq take_bit_nat_less_exp[of 31, simplified])
  then show ?thesis by (simp add: word_less_nat_alt)
qed

interpretation sim: rtl_nic "sim_ports sim_base" sim_dma sc_wire sc_ram "\<lambda>d. sc_txaddr d = sim_txaddr" sim_base sim_txaddr
  by unfold_locales
     (auto simp: sim_ports_def sim_dma_def sim_base_def sim_txaddr_def sim_descriptor_def tx_status_port_def and_31_less dest!: lt_4_cases)

section \<open>Frames sent\<close>

text \<open>\<open>same_net\<close>: only the card, the log and the ring index of the driver may differ.\<close>

definition same_net :: "'d net_state \<Rightarrow> 'd net_state \<Rightarrow> bool" where
  "same_net s s' \<longleftrightarrow> s' = s\<lparr>n_dev := n_dev s', n_console := n_console s', n_tx := n_tx s'\<rparr>"

lemma same_net_iff: "same_net s s' \<longleftrightarrow> (\<exists>d c n. s' = s\<lparr>n_dev := d, n_console := c, n_tx := n\<rparr>)"
  by (auto simp: same_net_def)

lemma same_net_refl [simp]: "same_net s s"
  by (simp add: same_net_def)

lemma same_net_puts [simp]: "same_net s (net_puts t s)"
  by (simp add: same_net_def net_puts_def)

lemma same_net_trans: "same_net s s' \<Longrightarrow> same_net s' s'' \<Longrightarrow> same_net s s''"
  unfolding same_net_iff by (clarsimp, blast)

lemma same_net_fields:
  assumes "same_net s s'"
  shows "arp_table s' = arp_table s" "arp_queue s' = arp_queue s" "arp_pending s' = arp_pending s"
    "local_mac s' = local_mac s" "arp_local_ip s' = arp_local_ip s" "ip_local_ip s' = ip_local_ip s"
    "n_ticks s' = n_ticks s" "io_base s' = io_base s" "tx_buffer_phys s' = tx_buffer_phys s"
    "ping_waiting s' = ping_waiting s" "current_rx_offset s' = current_rx_offset s"
    "rx_buffer_phys s' = rx_buffer_phys s"
proof -
  obtain d c n where "s' = s\<lparr>n_dev := d, n_console := c, n_tx := n\<rparr>"
    using assms by (auto simp: same_net_def)
  then show "arp_table s' = arp_table s" "arp_queue s' = arp_queue s" "arp_pending s' = arp_pending s"
    "local_mac s' = local_mac s" "arp_local_ip s' = arp_local_ip s" "ip_local_ip s' = ip_local_ip s"
    "n_ticks s' = n_ticks s" "io_base s' = io_base s" "tx_buffer_phys s' = tx_buffer_phys s"
    "ping_waiting s' = ping_waiting s" "current_rx_offset s' = current_rx_offset s"
    "rx_buffer_phys s' = rx_buffer_phys s" by simp_all
qed

lemma nic_ready_puts [simp]: "nic_ready ok base txa (net_puts t s) = nic_ready ok base txa s"
  by (simp add: nic_ready_def net_puts_def)

lemma and_3_less: "(w :: u32) AND 3 < 4"
proof -
  have "w AND 3 = take_bit 2 w" by (simp add: take_bit_eq_mask mask_eq_exp_minus_1)
  then have "unat (w AND 3) < 2 ^ 2"
    by (simp add: unsigned_take_bit_eq take_bit_nat_less_exp[of 2, simplified])
  then show ?thesis by (simp add: word_less_nat_alt)
qed

context rtl_nic
begin

lemma eth_tx_sends:
  assumes "nic_ready ok base txa s" and "length dst = 6" "length (local_mac s) = 6"
    and "len \<le> 1500" "unat len \<le> length payload"
  obtains s' where "eth_tx P M dst type payload len s = Some s'" and "nic_ready ok base txa s'" and "same_net s s'"
    and "wire (n_dev s') = wire (n_dev s) @ [eth_frame dst (local_mac s) type (take (unat len) payload)]"
proof -
  from eth_tx_ok[OF assms, of type] obtain d t where
    e: "eth_tx P M dst type payload len s = Some (s\<lparr>n_dev := d, n_console := t, n_tx := (n_tx s + 1) AND 3\<rparr>)" (is "_ = Some ?s'")
    "ok d" "wire d = wire (n_dev s) @ [eth_frame dst (local_mac s) type (take (unat len) payload)]"
    by blast
  show ?thesis
    by (rule that[of ?s']) (use e assms(1) and_3_less in \<open>simp_all add: nic_ready_def same_net_def\<close>)
qed

end

section \<open>Properties of the transmit path\<close>

text \<open>On an initialised card, \<open>eth_tx\<close> puts exactly one frame on the wire: destination, own address,
  type in network order and payload, padded with zeros to sixty bytes; the ring index stays below
  four, so the next call uses a valid descriptor, and nothing but the card and the log changes.\<close>

theorem eth_tx_transmits:
  assumes "rtl_nic P M wire ram ok base txa" and "nic_ready ok base txa s"
    and "length dst = 6" "length (local_mac s) = 6" and "len \<le> 1500" "unat len \<le> length payload"
  shows "\<exists>s'. eth_tx P M dst type payload len s = Some s' \<and> nic_ready ok base txa s' \<and> same_net s s' \<and>
    wire (n_dev s') = wire (n_dev s) @
      [pad_frame (dst @ local_mac s @ [ucast (drop_bit 8 type), ucast type] @ take (unat len) payload)]"
proof -
  have "le16 (bswap16 type) = [ucast (drop_bit 8 type), ucast type]"
    by (auto simp: le16_def bswap16_def intro!: bit_word_eqI simp: bit_simps)
  then show ?thesis
    by (rule_tac rtl_nic.eth_tx_sends[OF assms, of type])
       (auto simp: eth_frame_def eth_hdr_to_bytes_def)
qed

definition sim_net :: "sim_card net_state" where
  "sim_net = \<lparr>n_dev = \<lparr>sc_ram = (\<lambda>_. 0), sc_wire = [], sc_txaddr = sim_txaddr, sc_txstatus = 0x2000, sc_pending = 0\<rparr>,
     n_console = [], n_ticks = 5, io_base = sim_base, irq_line = 11, rx_buffer_phys = 0x400000,
     tx_buffer_phys = sim_txaddr, current_rx_offset = 0, mac_addr = [2, 0, 0, 0, 0, 1], n_tx = 0,
     local_mac = [2, 0, 0, 0, 0, 1], arp_local_ip = 0x0A01A8C0,
     arp_table = replicate 16 \<lparr>ae_ip = 0, ae_mac = replicate 6 0, ae_timestamp = 0, ae_valid = False\<rparr>,
     ip_local_ip = 0x0A01A8C0,
     arp_queue = replicate 8 \<lparr>qp_dst = 0, qp_proto = 0, qp_payload = replicate 1400 0, qp_len = 0, qp_timestamp = 0, qp_valid = False\<rparr>,
     arp_pending = 0, ping_id = 1, ping_seq = 0, ping_waiting = False, ping_sent_time = 0\<rparr>"

lemma sim_net_ready: "nic_ready (\<lambda>d. sc_txaddr d = sim_txaddr) sim_base sim_txaddr sim_net"
  by (simp add: nic_ready_def sim_net_def)

theorem eth_tx_transmits_witness:
  "\<exists>s'. eth_tx (sim_ports sim_base) sim_dma (replicate 6 0xFF) ETH_TYPE_IP [1, 2, 3] 3 sim_net = Some s' \<and>
    sc_wire (n_dev s') = [replicate 6 0xFF @ [2, 0, 0, 0, 0, 1, 8, 0, 1, 2, 3] @ replicate 43 0]"
  using eth_tx_transmits[OF sim.rtl_nic_axioms sim_net_ready, of "replicate 6 0xFF" 3 "[1, 2, 3]" ETH_TYPE_IP]
  by (auto simp: sim_net_def ETH_TYPE_IP_def pad_frame_def)

end
