(* ===== verification/Inet_Checksum.thy ===== *)
theory Inet_Checksum
  imports Kernel_Libc
begin

text \<open>
  The Internet checksum, \<open>checksum\<close> of \<open>src/drivers/net/ip.c\<close> and its copy in
  \<open>src/drivers/net/icmp.c\<close>: a 32-bit sum of little-endian 16-bit words, an odd last byte added as
  it is, carries folded back until they are gone, and the complement of the low half.  The
  theory relates it to the sum modulo 65535 and shows that a header that carries its own
  checksum sums up to zero, which is what a receiver tests.
\<close>

section \<open>The computation\<close>

fun checksum_words :: "bytes \<Rightarrow> u32 \<Rightarrow> u32" where
  "checksum_words (a # b # p) acc = checksum_words p (acc + (ucast a + push_bit 8 (ucast b)))"
| "checksum_words [a] acc = acc + ucast a"
| "checksum_words [] acc = acc"

lemma unat_drop_bit_16: "unat (drop_bit 16 (acc :: u32)) = unat acc div 65536"
  by (simp add: drop_bit_eq_div unat_div)

lemma fold_step_less:
  assumes "drop_bit 16 (acc :: u32) \<noteq> 0"
  shows "unat ((acc AND 0xFFFF) + drop_bit 16 acc) < unat acc"
    and "unat ((acc AND 0xFFFF) + drop_bit 16 acc) = unat acc mod 65536 + unat acc div 65536"
proof -
  note hi = unat_drop_bit_16[of acc]
  have "acc AND 0xFFFF = take_bit 16 acc" by (simp add: take_bit_eq_mask mask_eq_exp_minus_1)
  then have lo: "unat (acc AND 0xFFFF) = unat acc mod 65536"
    by (simp add: take_bit_eq_mod unat_mod)
  have "unat acc div 65536 < 65536" using unat_u32[of acc] by (simp add: less_mult_imp_div_less)
  then have "unat (acc AND 0xFFFF) + unat (drop_bit 16 acc) < 2 ^ 32"
    using hi lo mod_less_divisor[of 65536 "unat acc"] by simp
  then show s: "unat ((acc AND 0xFFFF) + drop_bit 16 acc) = unat acc mod 65536 + unat acc div 65536"
    using hi lo by (simp add: unat_add_lem[THEN iffD1])
  have "unat acc div 65536 \<noteq> 0" using assms hi by (metis unat_eq_zero)
  then have "unat acc div 65536 < 65536 * (unat acc div 65536)" by simp
  then show "unat ((acc AND 0xFFFF) + drop_bit 16 acc) < unat acc"
    using s mod_mult_div_eq[of "unat acc" 65536] by linarith
qed

function checksum_fold :: "u32 \<Rightarrow> u32" where
  "checksum_fold acc = (if drop_bit 16 acc \<noteq> 0 then checksum_fold ((acc AND 0xFFFF) + drop_bit 16 acc) else acc)"
  by pat_completeness auto
termination
  by (relation "measure unat") (auto simp: fold_step_less(1))

declare checksum_fold.simps [simp del]

definition checksum :: "bytes \<Rightarrow> nat \<Rightarrow> u16 option" where
  "checksum buf len = do {
     p \<leftarrow> load buf 0 len;
     Some (ucast (NOT (checksum_fold (checksum_words p 0))))
   }"

section \<open>The sum modulo 65535\<close>

text \<open>The reference sum of the words as a natural number.\<close>

fun word_sum :: "bytes \<Rightarrow> nat" where
  "word_sum (a # b # p) = unat a + 256 * unat b + word_sum p"
| "word_sum [a] = unat a"
| "word_sum [] = 0"

lemma word_sum_bound: "word_sum p \<le> 32768 * length p + 32767"
proof (induction p rule: word_sum.induct)
  case (1 a b p)
  then show ?case using unat_u8[of a] unat_u8[of b] by simp
next
  case (2 a)
  then show ?case using unat_u8[of a] by simp
qed simp

lemma unat_u8_pair: "unat (ucast (a :: u8) + push_bit 8 (ucast (b :: u8)) :: u32) = unat a + 256 * unat b"
proof -
  have a: "unat (ucast a :: u32) = unat a" and b: "unat (ucast b :: u32) = unat b"
    using unat_u8[of a] unat_u8[of b] by (simp_all add: unsigned_ucast_eq take_bit_nat_eq_self)
  have "unat (push_bit 8 (ucast b) :: u32) = 256 * unat b"
    using b unat_u8[of b] by (simp add: push_bit_eq_mult unat_mult_lem[THEN iffD1])
  then show ?thesis
    using a unat_u8[of a] unat_u8[of b] by (subst unat_add_lem[THEN iffD1]) simp_all
qed

lemma checksum_words_sum:
  "unat acc + word_sum p < 2 ^ 32 \<Longrightarrow> unat (checksum_words p acc) = unat acc + word_sum p"
proof (induction p acc rule: checksum_words.induct)
  case (1 a b p acc)
  have "unat (acc + (ucast a + push_bit 8 (ucast b))) = unat acc + (unat a + 256 * unat b)"
    using 1 by (subst unat_add_lem[THEN iffD1]) (simp_all add: unat_u8_pair)
  then show ?case using 1 by simp
next
  case (2 a acc)
  have "unat (ucast a :: u32) = unat a"
    using unat_u8[of a] by (simp add: unsigned_ucast_eq take_bit_nat_eq_self)
  then show ?case using 2 by (simp add: unat_add_lem[THEN iffD1])
qed simp

lemma checksum_fold_mod:
  "unat (checksum_fold acc) mod 65535 = unat acc mod 65535 \<and> unat (checksum_fold acc) < 65536 \<and>
   (acc \<noteq> 0 \<longrightarrow> checksum_fold acc \<noteq> 0)"
proof (induction acc rule: checksum_fold.induct)
  case (1 acc)
  show ?case
  proof (cases "drop_bit 16 acc \<noteq> 0")
    case True
    let ?t = "(acc AND 0xFFFF) + drop_bit 16 acc"
    have t: "unat ?t = unat acc mod 65536 + unat acc div 65536" by (rule fold_step_less(2)[OF True])
    have "unat acc = 65535 * (unat acc div 65536) + unat ?t"
      using t mod_mult_div_eq[of "unat acc" 65536] by linarith
    then have m: "unat acc mod 65535 = unat ?t mod 65535" by (metis mod_mult_self4)
    have "unat ?t \<noteq> 0" using t True unat_drop_bit_16[of acc] by (metis add_eq_0_iff_both_eq_0 unat_eq_zero)
    then have "?t \<noteq> 0" by (metis unat_0)
    then show ?thesis using 1[OF True] m True by (simp add: checksum_fold.simps[of acc])
  next
    case False
    then have "unat acc div 65536 = 0"
      by (metis unat_0 unat_drop_bit_16)
    then show ?thesis using False by (auto simp: checksum_fold.simps[of acc])
  qed
qed

text \<open>The folded sum is the one's complement sum: zero for zero, else a residue in \<open>1..65535\<close>.\<close>

definition ones_sum :: "nat \<Rightarrow> nat" where
  "ones_sum n = (if n = 0 then 0 else (n - 1) mod 65535 + 1)"

lemma ones_sum_unique:
  assumes "r mod 65535 = n mod 65535" and "r < 65536" and "n = 0 \<longleftrightarrow> r = 0"
  shows "r = ones_sum n"
proof (cases "n = 0")
  case True
  then show ?thesis using assms by (simp add: ones_sum_def)
next
  case False
  then have "r \<noteq> 0" using assms(3) by simp
  let ?q = "n div 65535" and ?m = "n mod 65535"
  have n: "n = 65535 * ?q + ?m" by simp
  show ?thesis
  proof (cases "?m = 0")
    case True
    then obtain q' where "?q = Suc q'" using n False by (cases ?q) auto
    then have "n - 1 = 65534 + 65535 * q'" using n True by simp
    then have "(n - 1) mod 65535 = 65534" by (simp only: mod_mult_self2) simp
    moreover have "r = 65535" using assms(1,2) True \<open>r \<noteq> 0\<close> by (auto simp: mod_eq_0_iff_dvd elim!: dvdE)
    ultimately show ?thesis using False by (simp add: ones_sum_def)
  next
    case m: False
    then have "n - 1 = (?m - 1) + 65535 * ?q" using n by linarith
    then have "(n - 1) mod 65535 = (?m - 1) mod 65535" by (simp only: mod_mult_self2)
    then have "(n - 1) mod 65535 = ?m - 1" using mod_less_divisor[of 65535 n] by simp
    moreover have "r \<noteq> 65535" using assms(1) m by auto
    then have "r = ?m" using assms(1,2) by simp
    ultimately show ?thesis using False m by (simp add: ones_sum_def)
  qed
qed

lemma ones_sum_complement: "ones_sum (n + (65535 - ones_sum n)) = 65535"
proof (cases "n = 0")
  case False
  let ?k = "(n - 1) div 65535" and ?m = "(n - 1) mod 65535"
  have "n - 1 = 65535 * ?k + ?m" "?m < 65535" by simp_all
  then have e: "n + (65535 - ones_sum n) = 65535 + 65535 * ?k"
    using False unfolding ones_sum_def by (simp only: if_False) linarith
  have "65535 + 65535 * ?k - 1 = 65534 + 65535 * ?k" by simp
  then have "(65535 + 65535 * ?k - 1) mod 65535 = 65534" by (simp only: mod_mult_self2) simp
  then show ?thesis by (simp only: e) (simp add: ones_sum_def)
qed (simp add: ones_sum_def)

lemma unat_not_u32: "unat (NOT (w :: u32)) = 4294967295 - unat w"
proof -
  have "NOT w = - 1 - w" by (simp add: not_eq_complement)
  moreover have "unat (- 1 :: u32) = 4294967295" by (simp add: unsigned_minus_1_eq_mask mask_eq_exp_minus_1)
  moreover have "w \<le> - 1" by simp
  ultimately show ?thesis using unat_sub[of w "- 1"] by simp
qed

lemma checksum_value:
  assumes "length p \<le> 65536"
  shows "\<exists>c. checksum p (length p) = Some c \<and> unat c = 65535 - ones_sum (word_sum p)"
proof -
  let ?f = "checksum_fold (checksum_words p 0)"
  have b: "word_sum p < 2 ^ 32" using word_sum_bound[of p] assms by simp
  then have w: "unat (checksum_words p 0) = word_sum p" using checksum_words_sum[of 0 p] by simp
  then have z: "word_sum p = 0 \<longleftrightarrow> unat ?f = 0"
    using checksum_fold_mod[of "checksum_words p 0"] by (metis checksum_fold.simps drop_bit_of_0 unat_0 unat_eq_zero)
  have f: "unat ?f = ones_sum (word_sum p)" "unat ?f < 65536"
    using checksum_fold_mod[of "checksum_words p 0"] w z by (auto intro!: ones_sum_unique)
  note n = unat_not_u32[of ?f]
  have "unat (ucast (NOT ?f) :: u16) = (4294967295 - unat ?f) mod 65536"
    using n by (simp add: unsigned_ucast_eq take_bit_eq_mod)
  also have "4294967295 - unat ?f = (65535 - unat ?f) + 65536 * 65535" using f(2) by simp
  also have "\<dots> mod 65536 = 65535 - unat ?f" by (simp only: mod_mult_self2) simp
  finally show ?thesis using f(1) by (simp add: checksum_def load_def)
qed

lemma word_sum_append: "even (length xs) \<Longrightarrow> word_sum (xs @ ys) = word_sum xs + word_sum ys"
  by (induction xs rule: word_sum.induct) auto

lemma word_sum_put:
  assumes "even i" and "i + 2 \<le> length h" and "take 2 (drop i h) = [0, 0]"
  shows "word_sum (put_at h i (le16 c)) = word_sum h + unat c"
proof -
  have "unat c = unat c mod 256 + 256 * (unat c div 256)" by simp
  moreover have "unat (ucast c :: u8) = unat c mod 256"
    by (simp add: unsigned_ucast_eq take_bit_eq_mod)
  moreover have "unat (ucast (drop_bit 8 c) :: u8) = unat c div 256"
    using unat_u16[of c] by (simp add: unsigned_ucast_eq take_bit_eq_mod drop_bit_eq_div unat_div)
  ultimately have c: "word_sum (le16 c) = unat c" by (simp add: le16_def)
  have "h = take i h @ take 2 (drop i h) @ drop (i + 2) h"
    by (metis append_take_drop_id drop_drop add.commute)
  then have "h = take i h @ [0, 0] @ drop (i + 2) h" using assms(3) by simp
  moreover have "even (length (take i h))" using assms by simp
  ultimately have "word_sum h = word_sum (take i h) + word_sum (drop (i + 2) h)"
    by (metis word_sum_append word_sum.simps(1) append_Cons append_Nil add_0 mult_0_right unat_0)
  then show ?thesis
    using assms c word_sum_append[of "le16 c" "drop (i + 2) h"]
    by (simp add: put_at_def word_sum_append)
qed

section \<open>A header that carries its checksum\<close>

lemma checksum_put_zero:
  assumes "length h \<le> 65536" and "even i" and "i + 2 \<le> length h" and "take 2 (drop i h) = [0, 0]"
  shows "\<exists>c. checksum h (length h) = Some c \<and>
    checksum (put_at h i (le16 c)) (length h) = Some 0"
proof -
  obtain c where c: "checksum h (length h) = Some c" "unat c = 65535 - ones_sum (word_sum h)"
    using checksum_value[OF assms(1)] by blast
  let ?h = "put_at h i (le16 c)"
  have len: "length ?h = length h" using assms(3) by (simp add: length_put_at)
  obtain c' where c': "checksum ?h (length h) = Some c'" "unat c' = 65535 - ones_sum (word_sum ?h)"
    using checksum_value[of ?h] len assms(1) by auto
  have b: "ones_sum (word_sum h) \<le> 65535" by (simp add: ones_sum_def Suc_le_eq)
  have "word_sum ?h = word_sum h + (65535 - ones_sum (word_sum h))"
    using word_sum_put[OF assms(2-4), of c] c(2) by simp
  moreover have "ones_sum (n + (65535 - ones_sum n)) = 65535" for n
    by (rule ones_sum_complement)
  ultimately have "unat c' = 0" using c'(2) by simp
  then have "c' = 0" by (simp add: unat_eq_zero)
  then show ?thesis using c(1) c'(1) by blast
qed

text \<open>C31. Take a header whose checksum field, at an even offset, is zero.  Once the value \<open>checksum\<close>
  returns is stored there, \<open>checksum\<close> over the whole header is 0: the test every receiver makes.\<close>

theorem checksum_self_verifies:
  assumes "length h \<le> 65536" and "even i" and "i + 2 \<le> length h" and "take 2 (drop i h) = [0, 0]"
  shows "\<exists>c. checksum h (length h) = Some c \<and>
    checksum (put_at h i (le16 c)) (length h) = Some 0"
  using assms by (rule checksum_put_zero)

theorem checksum_self_verifies_witness:
  "checksum [0x45, 0, 0, 28, 0, 0, 0, 0, 64, 1, 0, 0, 192, 168, 1, 10, 192, 168, 1, 1] 20 = Some 0x85F7 \<and>
   checksum [0x45, 0, 0, 28, 0, 0, 0, 0, 64, 1, 0xF7, 0x85, 192, 168, 1, 10, 192, 168, 1, 1] 20 = Some 0"
proof -
  let ?h = "[0x45, 0, 0, 28, 0, 0, 0, 0, 64, 1, 0, 0, 192, 168, 1, 10, 192, 168, 1, 1] :: bytes"
  have len: "length ?h = 20" and c: "checksum ?h 20 = Some 0x85F7" by code_simp+
  have "\<exists>c. checksum ?h (length ?h) = Some c \<and> checksum (put_at ?h 10 (le16 c)) (length ?h) = Some 0"
    by (rule checksum_self_verifies) simp_all
  then have "checksum (put_at ?h 10 (le16 0x85F7)) 20 = Some 0"
    unfolding len c by (metis option.inject)
  moreover have "put_at ?h 10 (le16 0x85F7) =
    [0x45, 0, 0, 28, 0, 0, 0, 0, 64, 1, 0xF7, 0x85, 192, 168, 1, 10, 192, 168, 1, 1]" by code_simp
  ultimately show ?thesis using c by metis
qed

end
