(* ===== verification/Arp.thy ===== *)
theory Arp
  imports Rtl8139 Inet_Checksum
begin

text \<open>
  Address resolution (\<open>src/drivers/net/arp.c\<close>) and the part of \<open>src/drivers/net/ip.c\<close> it calls: the
  queue of packets that wait for an address (\<open>ip_process_arp_queue\<close>) and the IP header.  The table
  is a list of sixteen entries, the queue a list of eight packets; every loop over them is a
  function over the list of its indices, in the order of the code.  The table is shown to be a
  map from addresses to hardware addresses, and resolving an address to send exactly the packets
  that wait for it.
\<close>

section \<open>Packets\<close>

record arp_pkt_t =
  ap_htype :: u16
  ap_ptype :: u16
  ap_hlen :: u8
  ap_plen :: u8
  ap_oper :: u16
  ap_sha :: bytes
  ap_spa :: u32
  ap_tha :: bytes
  ap_tpa :: u32

definition arp_pkt_to_bytes :: "arp_pkt_t \<Rightarrow> bytes" where
  "arp_pkt_to_bytes a = le16 (ap_htype a) @ le16 (ap_ptype a) @ [ap_hlen a, ap_plen a] @ le16 (ap_oper a) @
     ap_sha a @ le32 (ap_spa a) @ ap_tha a @ le32 (ap_tpa a)"

definition arp_pkt_of_bytes :: "bytes \<Rightarrow> arp_pkt_t" where
  "arp_pkt_of_bytes p = \<lparr>ap_htype = get16 p 0, ap_ptype = get16 p 2, ap_hlen = get8 p 4, ap_plen = get8 p 5,
     ap_oper = get16 p 6, ap_sha = take 6 (drop 8 p), ap_spa = get32 p 14, ap_tha = take 6 (drop 18 p),
     ap_tpa = get32 p 24\<rparr>"

record ip_hdr_t =
  ih_ver_ihl :: u8
  ih_tos :: u8
  ih_len :: u16
  ih_id :: u16
  ih_frag :: u16
  ih_ttl :: u8
  ih_proto :: u8
  ih_csum :: u16
  ih_src :: u32
  ih_dst :: u32

definition ip_hdr_to_bytes :: "ip_hdr_t \<Rightarrow> bytes" where
  "ip_hdr_to_bytes h = [ih_ver_ihl h, ih_tos h] @ le16 (ih_len h) @ le16 (ih_id h) @ le16 (ih_frag h) @
     [ih_ttl h, ih_proto h] @ le16 (ih_csum h) @ le32 (ih_src h) @ le32 (ih_dst h)"

section \<open>Tables\<close>

definition ARP_TABLE_SIZE :: nat where "ARP_TABLE_SIZE = 16"
definition ARP_QUEUE_SIZE :: nat where "ARP_QUEUE_SIZE = 8"

definition zero_entry :: arp_entry_t where
  "zero_entry = \<lparr>ae_ip = 0, ae_mac = replicate 6 0, ae_timestamp = 0, ae_valid = False\<rparr>"

definition zero_packet :: queued_packet_t where
  "zero_packet = \<lparr>qp_dst = 0, qp_proto = 0, qp_payload = replicate 1400 0, qp_len = 0, qp_timestamp = 0, qp_valid = False\<rparr>"

text \<open>The search loops: the first index whose element satisfies the test.\<close>

fun first_index :: "('a \<Rightarrow> bool) \<Rightarrow> 'a list \<Rightarrow> nat option" where
  "first_index p [] = None"
| "first_index p (x # xs) = (if p x then Some 0 else map_option Suc (first_index p xs))"

definition put_ip :: "string \<Rightarrow> u32 \<Rightarrow> 'd net_state \<Rightarrow> 'd net_state option" where
  "put_ip label ip s = put_num ip 10 (net_msg label s)"

definition put_ip_line :: "string \<Rightarrow> u32 \<Rightarrow> 'd net_state \<Rightarrow> 'd net_state option" where
  "put_ip_line label ip s = do { s \<leftarrow> put_ip label ip s; Some (net_nl s) }"

fun put_mac :: "bytes \<Rightarrow> 'd net_state \<Rightarrow> 'd net_state option" where
  "put_mac [] s = Some (net_nl s)"
| "put_mac (b # bs) s = do {
     s \<leftarrow> put_num (ucast b) 16 s;
     put_mac bs (if bs \<noteq> [] then net_msg '':'' s else s)
   }"

definition arp_init :: "u32 \<Rightarrow> 'd net_state \<Rightarrow> 'd net_state option" where
  "arp_init ip s =
     put_ip_line ''[ARP] Initialized with IP: '' ip
       (s\<lparr>arp_local_ip := ip, arp_table := replicate ARP_TABLE_SIZE zero_entry\<rparr>)"

definition arp_lookup :: "u32 \<Rightarrow> 'd net_state \<Rightarrow> (bytes option \<times> 'd net_state) option" where
  "arp_lookup ip s =
     (case first_index (\<lambda>e. ae_valid e \<and> ae_ip e = ip) (arp_table s) of
        Some i \<Rightarrow> do { s' \<leftarrow> put_ip_line ''[ARP] Cache hit for IP: '' ip s; Some (Some (ae_mac (arp_table s ! i)), s') }
      | None \<Rightarrow> do { s' \<leftarrow> put_ip_line ''[ARP] Cache miss for IP: '' ip s; Some (None, s') })"

section \<open>The waiting packets\<close>

definition ip_header :: "u32 \<Rightarrow> u32 \<Rightarrow> u8 \<Rightarrow> u16 \<Rightarrow> bytes option" where
  "ip_header src dst proto len = do {
     let h = ip_hdr_to_bytes \<lparr>ih_ver_ihl = 0x45, ih_tos = 0, ih_len = bswap16 (20 + len), ih_id = 0, ih_frag = 0,
               ih_ttl = 64, ih_proto = proto, ih_csum = 0, ih_src = src, ih_dst = dst\<rparr>;
     c \<leftarrow> checksum h 20;
     store h 10 (le16 c)
   }"

text \<open>Header and payload in \<open>buf[1500]\<close>; \<open>payload\<close> is read for \<open>len\<close> bytes.\<close>

definition ip_datagram :: "u32 \<Rightarrow> u32 \<Rightarrow> u8 \<Rightarrow> bytes \<Rightarrow> u16 \<Rightarrow> bytes option" where
  "ip_datagram src dst proto payload len = do {
     h \<leftarrow> ip_header src dst proto len;
     body \<leftarrow> load payload 0 (unat len);
     if 20 + unat len \<le> 1500 then Some (h @ body) else None
   }"

definition flush_slot :: "'d port_ops \<Rightarrow> 'd dma_ops \<Rightarrow> bytes \<Rightarrow> u32 \<Rightarrow> nat \<Rightarrow> 'd net_state \<Rightarrow> 'd net_state option" where
  "flush_slot P M mac ip i s =
     (let q = arp_queue s ! i in
      if qp_valid q \<and> qp_dst q = ip then do {
        buf \<leftarrow> ip_datagram (ip_local_ip s) (qp_dst q) (qp_proto q) (qp_payload q) (qp_len q);
        s \<leftarrow> eth_tx P M mac ETH_TYPE_IP buf (20 + qp_len q) s;
        Some (s\<lparr>arp_queue := (arp_queue s)[i := q\<lparr>qp_valid := False\<rparr>], arp_pending := arp_pending s - 1\<rparr>)
      } else Some s)"

fun flush_loop :: "'d port_ops \<Rightarrow> 'd dma_ops \<Rightarrow> bytes \<Rightarrow> u32 \<Rightarrow> nat list \<Rightarrow> 'd net_state \<Rightarrow> 'd net_state option" where
  "flush_loop P M mac ip [] s = Some s"
| "flush_loop P M mac ip (i # is) s = do { s \<leftarrow> flush_slot P M mac ip i s; flush_loop P M mac ip is s }"

definition ip_process_arp_queue :: "'d port_ops \<Rightarrow> 'd dma_ops \<Rightarrow> u32 \<Rightarrow> 'd net_state \<Rightarrow> 'd net_state option" where
  "ip_process_arp_queue P M ip s = do {
     r \<leftarrow> arp_lookup ip s;
     (case r of
        (None, s) \<Rightarrow> Some s
      | (Some mac, s) \<Rightarrow> flush_loop P M mac ip [0..<ARP_QUEUE_SIZE] s)
   }"

section \<open>Operations of the table\<close>

definition set_entry :: "nat \<Rightarrow> u32 \<Rightarrow> bytes \<Rightarrow> 'd net_state \<Rightarrow> 'd net_state" where
  "set_entry i ip mac s =
     s\<lparr>arp_table := (arp_table s)[i := \<lparr>ae_ip = ip, ae_mac = mac, ae_timestamp = get_tick_count s, ae_valid = True\<rparr>]\<rparr>"

fun oldest_loop :: "arp_entry_t list \<Rightarrow> nat list \<Rightarrow> nat \<Rightarrow> nat" where
  "oldest_loop t [] oldest = oldest"
| "oldest_loop t (i # is) oldest =
     oldest_loop t is (if ae_timestamp (t ! i) < ae_timestamp (t ! oldest) then i else oldest)"

definition arp_oldest :: "arp_entry_t list \<Rightarrow> nat" where
  "arp_oldest t = oldest_loop t [1..<ARP_TABLE_SIZE] 0"

definition arp_add_entry :: "'d port_ops \<Rightarrow> 'd dma_ops \<Rightarrow> u32 \<Rightarrow> bytes \<Rightarrow> 'd net_state \<Rightarrow> 'd net_state option" where
  "arp_add_entry P M ip mac s = do {
     m \<leftarrow> load mac 0 6;
     (case first_index (\<lambda>e. ae_valid e \<and> ae_ip e = ip) (arp_table s) of
        Some i \<Rightarrow> do {
          let s = set_entry i ip m s;
          s \<leftarrow> put_ip ''[ARP] Updated entry for IP: '' ip s;
          put_mac m (net_msg '' MAC: '' s)
        }
      | None \<Rightarrow>
          (case first_index (\<lambda>e. \<not> ae_valid e) (arp_table s) of
             Some i \<Rightarrow> do {
               let s = set_entry i ip m s;
               s \<leftarrow> put_ip ''[ARP] Added new entry for IP: '' ip s;
               s \<leftarrow> put_mac m (net_msg '' MAC: '' s);
               ip_process_arp_queue P M ip s
             }
           | None \<Rightarrow> do {
               let s = net_line ''[ARP] WARNING: Table full, removing oldest entry'' s;
               let s = set_entry (arp_oldest (arp_table s)) ip m s;
               ip_process_arp_queue P M ip s
             }))
   }"

definition arp_request :: "'d port_ops \<Rightarrow> 'd dma_ops \<Rightarrow> u32 \<Rightarrow> 'd net_state \<Rightarrow> 'd net_state option" where
  "arp_request P M ip s = do {
     s \<leftarrow> put_ip_line ''[ARP] Sending request for IP: '' ip s;
     m \<leftarrow> load (eth_mac s) 0 6;
     let a = \<lparr>ap_htype = bswap16 1, ap_ptype = bswap16 0x0800, ap_hlen = 6, ap_plen = 4, ap_oper = bswap16 1,
              ap_sha = m, ap_spa = arp_local_ip s, ap_tha = replicate 6 0, ap_tpa = ip\<rparr>;
     eth_tx P M (replicate 6 255) ETH_TYPE_ARP (arp_pkt_to_bytes a) 28 s
   }"

definition arp_rx :: "'d port_ops \<Rightarrow> 'd dma_ops \<Rightarrow> bytes \<Rightarrow> 'd net_state \<Rightarrow> 'd net_state option" where
  "arp_rx P M pkt s = do {
     p \<leftarrow> load pkt 0 28;
     let a = arp_pkt_of_bytes p;
     let oper = bswap16 (ap_oper a);
     if oper = 1 then do {
       let s = net_line ''[ARP] Received request'' s;
       s \<leftarrow> (if ap_tpa a = arp_local_ip s then do {
               let s = net_line ''[ARP] Request is for us, sending reply'' s;
               m \<leftarrow> load (eth_mac s) 0 6;
               let r = \<lparr>ap_htype = bswap16 1, ap_ptype = bswap16 0x0800, ap_hlen = 6, ap_plen = 4, ap_oper = bswap16 2,
                        ap_sha = m, ap_spa = arp_local_ip s, ap_tha = ap_sha a, ap_tpa = ap_spa a\<rparr>;
               eth_tx P M (ap_sha a) ETH_TYPE_ARP (arp_pkt_to_bytes r) 28 s
             } else Some s);
       arp_add_entry P M (ap_spa a) (ap_sha a) s
     } else if oper = 2 then do {
       s \<leftarrow> put_ip_line ''[ARP] Received reply from IP: '' (ap_spa a) s;
       arp_add_entry P M (ap_spa a) (ap_sha a) s
     } else Some s
   }"

fun print_table_loop :: "arp_entry_t list \<Rightarrow> nat \<Rightarrow> 'd net_state \<Rightarrow> (nat \<times> 'd net_state) option" where
  "print_table_loop [] count s = Some (count, s)"
| "print_table_loop (e # es) count s =
     (if ae_valid e then do {
        s \<leftarrow> put_ip ''IP: '' (ae_ip e) s;
        s \<leftarrow> put_mac (ae_mac e) (net_msg '' -> MAC: '' s);
        print_table_loop es (Suc count) s
      } else print_table_loop es count s)"

definition arp_print_table :: "'d net_state \<Rightarrow> 'd net_state option" where
  "arp_print_table s = do {
     r \<leftarrow> print_table_loop (arp_table s) 0 (net_line ''=== ARP Table ==='' (net_nl s));
     let s = (if fst r = 0 then net_line ''(empty)'' (snd r) else snd r);
     Some (net_nl (net_line ''================='' s))
   }"

definition arp_get_entry_by_index :: "int \<Rightarrow> 'd net_state \<Rightarrow> (u32 \<times> bytes \<times> bool) option" where
  "arp_get_entry_by_index index s =
     (if index < 0 \<or> index \<ge> int ARP_TABLE_SIZE then None
      else (let e = arp_table s ! nat index in Some (ae_ip e, ae_mac e, ae_valid e)))"

section \<open>Messages succeed\<close>

lemma put_ip_ok: "ip \<noteq> 0x80000000 \<Longrightarrow> \<exists>t. put_ip label ip s = Some (net_puts t s)"
  using put_num_msg(2)[of ip 10] by (simp add: put_ip_def printable_def)

lemma put_ip_line_ok: "ip \<noteq> 0x80000000 \<Longrightarrow> \<exists>t. put_ip_line label ip s = Some (net_puts t s)"
  using put_ip_ok[of ip label s] by (auto simp: put_ip_line_def net_puts_fold)

lemma put_mac_ok: "\<exists>t. put_mac bs (net_puts u s) = Some (net_puts t s)"
proof (induction bs arbitrary: u)
  case Nil
  then show ?case by (auto simp: net_puts_fold)
next
  case (Cons b bs)
  obtain t where "put_num (ucast b) 16 (net_puts u s) = Some (net_puts t s)"
    using put_num_msg(1)[OF printable_u8[of 16 b]] by auto
  then show ?case using Cons.IH[of t] Cons.IH[of "t @ ascii '':''"]
    by (auto simp: net_puts_fold)
qed

section \<open>The table as a map\<close>

fun arp_map :: "arp_entry_t list \<Rightarrow> u32 \<Rightarrow> bytes option" where
  "arp_map [] ip = None"
| "arp_map (e # t) ip = (if ae_valid e \<and> ae_ip e = ip then Some (ae_mac e) else arp_map t ip)"

text \<open>The entry \<open>arp_add_entry\<close> uses: the one of the address, else a free one, else the oldest.\<close>

definition arp_slot :: "arp_entry_t list \<Rightarrow> u32 \<Rightarrow> nat" where
  "arp_slot t ip =
     (case first_index (\<lambda>e. ae_valid e \<and> ae_ip e = ip) t of Some i \<Rightarrow> i
      | None \<Rightarrow> (case first_index (\<lambda>e. \<not> ae_valid e) t of Some i \<Rightarrow> i | None \<Rightarrow> arp_oldest t))"

definition arp_ok :: "arp_entry_t list \<Rightarrow> bool" where
  "arp_ok t \<longleftrightarrow> length t = ARP_TABLE_SIZE \<and> (\<forall>e \<in> set t. length (ae_mac e) = 6) \<and>
     (\<forall>i < length t. \<forall>j < length t. ae_valid (t ! i) \<longrightarrow> ae_valid (t ! j) \<longrightarrow> ae_ip (t ! i) = ae_ip (t ! j) \<longrightarrow> i = j)"

lemma first_index_Some: "first_index p xs = Some i \<Longrightarrow> i < length xs \<and> p (xs ! i)"
  by (induction xs arbitrary: i) (auto split: if_splits)

lemma first_index_None: "first_index p xs = None \<longleftrightarrow> (\<forall>x \<in> set xs. \<not> p x)"
  by (induction xs) auto

lemma arp_map_first_index:
  "arp_map t ip = map_option (\<lambda>i. ae_mac (t ! i)) (first_index (\<lambda>e. ae_valid e \<and> ae_ip e = ip) t)"
  by (induction t) (auto simp: option.map_comp o_def)

lemma arp_map_Some:
  "arp_map t ip = Some m \<Longrightarrow> \<exists>i < length t. ae_valid (t ! i) \<and> ae_ip (t ! i) = ip \<and> ae_mac (t ! i) = m"
  using first_index_Some[of "\<lambda>e. ae_valid e \<and> ae_ip e = ip" t] by (auto simp: arp_map_first_index)

lemma arp_map_None: "arp_map t ip = None \<longleftrightarrow> (\<forall>i < length t. ae_valid (t ! i) \<longrightarrow> ae_ip (t ! i) \<noteq> ip)"
  by (auto simp: arp_map_first_index first_index_None all_set_conv_all_nth)

lemma arp_map_eqI:
  assumes "arp_ok t" and "i < length t" and "ae_valid (t ! i)"
  shows "arp_map t (ae_ip (t ! i)) = Some (ae_mac (t ! i))"
proof (cases "arp_map t (ae_ip (t ! i))")
  case None
  then show ?thesis using assms by (auto simp: arp_map_None)
next
  case (Some m)
  then show ?thesis using arp_map_Some[OF Some] assms by (auto simp: arp_ok_def)
qed

lemma oldest_loop_min:
  "\<lbrakk>oldest < n; \<forall>i \<in> set is. i < n\<rbrakk> \<Longrightarrow> oldest_loop t is oldest < n \<and>
   (\<forall>i \<in> insert oldest (set is). ae_timestamp (t ! oldest_loop t is oldest) \<le> ae_timestamp (t ! i))"
proof (induction "is" arbitrary: oldest)
  case (Cons i "is")
  let ?o = "if ae_timestamp (t ! i) < ae_timestamp (t ! oldest) then i else oldest"
  have "oldest_loop t is ?o < n \<and>
    (\<forall>k \<in> insert ?o (set is). ae_timestamp (t ! oldest_loop t is ?o) \<le> ae_timestamp (t ! k))"
    using Cons.prems by (intro Cons.IH) auto
  then show ?case by (auto split: if_splits intro: order_trans dest: less_imp_le)
qed simp

lemma arp_oldest_min:
  "arp_oldest t < ARP_TABLE_SIZE \<and> (\<forall>i < ARP_TABLE_SIZE. ae_timestamp (t ! arp_oldest t) \<le> ae_timestamp (t ! i))"
proof -
  have "set [1..<ARP_TABLE_SIZE] \<union> {0} = {0..<ARP_TABLE_SIZE}" by (auto simp: ARP_TABLE_SIZE_def)
  then show ?thesis
    using oldest_loop_min[of 0 ARP_TABLE_SIZE "[1..<ARP_TABLE_SIZE]" t]
    by (auto simp: arp_oldest_def ARP_TABLE_SIZE_def)
qed

lemma arp_slot_less: "arp_ok t \<Longrightarrow> arp_slot t ip < length t"
  using arp_oldest_min[of t] first_index_Some[of _ t]
  by (auto simp: arp_slot_def arp_ok_def split: option.splits) 

text \<open>The slot is the address's own whenever the table holds the address.\<close>

lemma arp_slot_own:
  assumes "arp_ok t" and "j < length t" and "ae_valid (t ! j)" and "ae_ip (t ! j) = ip"
  shows "arp_slot t ip = j"
proof -
  obtain i where i: "first_index (\<lambda>e. ae_valid e \<and> ae_ip e = ip) t = Some i"
    using assms first_index_None[of "\<lambda>e. ae_valid e \<and> ae_ip e = ip" t] by fastforce
  have "i = j" using first_index_Some[OF i] assms by (auto simp: arp_ok_def)
  then show ?thesis using i by (simp add: arp_slot_def)
qed

definition new_entry :: "u32 \<Rightarrow> bytes \<Rightarrow> u32 \<Rightarrow> arp_entry_t" where
  "new_entry ip mac now = \<lparr>ae_ip = ip, ae_mac = mac, ae_timestamp = now, ae_valid = True\<rparr>"

lemma arp_insert_ok:
  assumes ok: "arp_ok t" and m: "length m = 6"
  shows "arp_ok (t[arp_slot t ip := new_entry ip m now])"
proof -
  let ?i = "arp_slot t ip" and ?t = "t[arp_slot t ip := new_entry ip m now]"
  have own: "j = ?i" if "j < length t" "ae_valid (t ! j)" "ae_ip (t ! j) = ip" for j
    using arp_slot_own[OF ok that] by simp
  have "\<forall>e \<in> set (t[?i := new_entry ip m now]). length (ae_mac e) = 6"
    using ok m set_update_subset_insert[of t ?i "new_entry ip m now"]
    by (auto simp: arp_ok_def new_entry_def)
  moreover have "a = b" if ab: "a < length t" "b < length t" "ae_valid (?t ! a)" "ae_valid (?t ! b)"
    "ae_ip (?t ! a) = ae_ip (?t ! b)" for a b
  proof -
    consider "a = ?i" "b = ?i" | "a = ?i" "b \<noteq> ?i" | "a \<noteq> ?i" "b = ?i" | "a \<noteq> ?i" "b \<noteq> ?i" by blast
    then show ?thesis
    proof cases
      case 2
      then have "ae_valid (t ! b)" "ae_ip (t ! b) = ip" using ab by (simp_all add: new_entry_def)
      then show ?thesis using own[of b] ab 2 by simp
    next
      case 3
      then have "ae_valid (t ! a)" "ae_ip (t ! a) = ip" using ab by (simp_all add: new_entry_def)
      then show ?thesis using own[of a] ab 3 by simp
    next
      case 4
      then have "ae_valid (t ! a)" "ae_valid (t ! b)" "ae_ip (t ! a) = ae_ip (t ! b)" using ab by simp_all
      then show ?thesis using ok ab unfolding arp_ok_def by blast
    qed simp
  qed
  ultimately show ?thesis
    using ok unfolding arp_ok_def length_list_update by blast
qed

lemma arp_insert_lookup:
  assumes ok: "arp_ok t" and m: "length m = 6"
  shows "arp_map (t[arp_slot t ip := new_entry ip m now]) ip' =
    (if ip' = ip then Some m
     else if ae_valid (t ! arp_slot t ip) \<and> ae_ip (t ! arp_slot t ip) = ip' then None else arp_map t ip')"
proof -
  let ?i = "arp_slot t ip" and ?t = "t[arp_slot t ip := new_entry ip m now]"
  have i: "?i < length t" by (rule arp_slot_less[OF ok])
  have ok': "arp_ok ?t" by (rule arp_insert_ok[OF ok m])
  have nth: "?t ! j = (if j = ?i then new_entry ip m now else t ! j)" if "j < length t" for j
    using that by (simp add: nth_list_update)
  show ?thesis
  proof (cases "ip' = ip")
    case True
    then show ?thesis using arp_map_eqI[OF ok', of ?i] i by (simp add: new_entry_def)
  next
    case False
    show ?thesis
    proof (cases "\<exists>j < length t. j \<noteq> ?i \<and> ae_valid (t ! j) \<and> ae_ip (t ! j) = ip'")
      case True
      then obtain j where j: "j < length t" "j \<noteq> ?i" "ae_valid (t ! j)" "ae_ip (t ! j) = ip'" by blast
      then show ?thesis
        using arp_map_eqI[OF ok', of j] arp_map_eqI[OF ok, of j] nth[of j] i ok False
        by (auto simp: arp_ok_def)
    next
      case none: False
      have "ae_ip (?t ! j) \<noteq> ip'" if "j < length t" "ae_valid (?t ! j)" for j
        using that none nth[of j] False by (cases "j = ?i") (auto simp: new_entry_def)
      then have "arp_map ?t ip' = None" by (simp add: arp_map_None)
      moreover have "arp_map t ip' = None" if "\<not> (ae_valid (t ! ?i) \<and> ae_ip (t ! ?i) = ip')"
        using none that by (auto simp: arp_map_None)
      ultimately show ?thesis using False by simp
    qed
  qed
qed

section \<open>IP headers\<close>

lemma ip_header_ok:
  "\<exists>h. ip_header src dst proto len = Some h \<and> length h = 20 \<and> checksum h 20 = Some 0 \<and>
    take 10 h = [0x45, 0] @ le16 (bswap16 (20 + len)) @ [0, 0, 0, 0, 64, proto] \<and> drop 12 h = le32 src @ le32 dst"
proof -
  let ?h = "ip_hdr_to_bytes \<lparr>ih_ver_ihl = 0x45, ih_tos = 0, ih_len = bswap16 (20 + len), ih_id = 0, ih_frag = 0,
               ih_ttl = 64, ih_proto = proto, ih_csum = 0, ih_src = src, ih_dst = dst\<rparr>"
  have l: "length ?h = 20" by (simp add: ip_hdr_to_bytes_def)
  have z: "take 2 (drop 10 ?h) = [0, 0]" by (simp add: ip_hdr_to_bytes_def le16_def)
  have "\<exists>c. checksum ?h (length ?h) = Some c \<and> checksum (put_at ?h 10 (le16 c)) (length ?h) = Some 0"
    using z l by (intro checksum_put_zero) simp_all
  then obtain c where c: "checksum ?h 20 = Some c" "checksum (put_at ?h 10 (le16 c)) 20 = Some 0"
    unfolding l by blast
  have "ip_header src dst proto len = Some (put_at ?h 10 (le16 c))"
    using c(1) l by (simp add: ip_header_def Let_def store_put_at)
  then show ?thesis
    using c(2) l by (simp add: put_at_def ip_hdr_to_bytes_def le16_def)
qed

lemma ip_datagram_ok:
  assumes "unat len \<le> length payload" and "unat len \<le> 1480"
  shows "\<exists>h. ip_datagram src dst proto payload len = Some (h @ take (unat len) payload) \<and>
    ip_header src dst proto len = Some h \<and> length h = 20"
  using ip_header_ok[of src dst proto len] assms by (auto simp: ip_datagram_def load_def)

section \<open>Sending what waits\<close>

definition waits_for :: "u32 \<Rightarrow> queued_packet_t \<Rightarrow> bool" where
  "waits_for ip q \<longleftrightarrow> qp_valid q \<and> qp_dst q = ip"

definition release :: "u32 \<Rightarrow> queued_packet_t \<Rightarrow> queued_packet_t" where
  "release ip q = (if waits_for ip q then q\<lparr>qp_valid := False\<rparr> else q)"

definition packet_frame :: "bytes \<Rightarrow> 'd net_state \<Rightarrow> queued_packet_t \<Rightarrow> bytes" where
  "packet_frame mac s q = eth_frame mac (local_mac s) ETH_TYPE_IP
     (the (ip_datagram (ip_local_ip s) (qp_dst q) (qp_proto q) (qp_payload q) (qp_len q)))"

definition packet_ok :: "queued_packet_t \<Rightarrow> bool" where
  "packet_ok q \<longleftrightarrow> length (qp_payload q) = 1400 \<and> (qp_valid q \<longrightarrow> unat (qp_len q) \<le> 1400)"

definition queue_ok :: "'d net_state \<Rightarrow> bool" where
  "queue_ok s \<longleftrightarrow> length (arp_queue s) = ARP_QUEUE_SIZE \<and> (\<forall>q \<in> set (arp_queue s). packet_ok q) \<and>
     arp_pending s = int (length (filter qp_valid (arp_queue s)))"

text \<open>\<open>same_stack\<close>: only the card, the log, the ring index and the queue may differ.\<close>

definition same_stack :: "'d net_state \<Rightarrow> 'd net_state \<Rightarrow> bool" where
  "same_stack s s' \<longleftrightarrow> (\<exists>d c n q p. s' = s\<lparr>n_dev := d, n_console := c, n_tx := n, arp_queue := q, arp_pending := p\<rparr>)"

lemma same_net_stack: "same_net s s' \<Longrightarrow> same_stack s s'"
  unfolding same_net_iff same_stack_def
  by (elim exE, rule_tac x = d in exI, rule_tac x = c in exI, rule_tac x = n in exI,
      rule_tac x = "arp_queue s" in exI, rule_tac x = "arp_pending s" in exI) simp

lemma same_stack_refl [simp]: "same_stack s s"
  by (simp add: same_net_stack)

lemma same_stack_trans: "same_stack s s' \<Longrightarrow> same_stack s' s'' \<Longrightarrow> same_stack s s''"
  unfolding same_stack_def by (clarsimp, blast)

lemma same_stack_queue: "same_stack s s' \<Longrightarrow> same_stack s (s'\<lparr>arp_queue := q, arp_pending := p\<rparr>)"
  unfolding same_stack_def by (clarsimp, blast)

lemma same_stack_fields:
  assumes "same_stack s s'"
  shows "arp_table s' = arp_table s" "local_mac s' = local_mac s" "arp_local_ip s' = arp_local_ip s"
    "ip_local_ip s' = ip_local_ip s" "n_ticks s' = n_ticks s" "ping_waiting s' = ping_waiting s"
    "rx_buffer_phys s' = rx_buffer_phys s" "current_rx_offset s' = current_rx_offset s"
    "io_base s' = io_base s" "ping_id s' = ping_id s" "ping_seq s' = ping_seq s"
  using assms by (auto simp: same_stack_def)

text \<open>What the receive path keeps in its own variables, untouched by everything that only sends.\<close>

definition rx_vars :: "'d net_state \<Rightarrow> u16 \<times> u32 \<times> u32 \<times> u32" where
  "rx_vars s = (current_rx_offset s, rx_buffer_phys s, n_ticks s, ping_sent_time s)"

lemma rx_vars_stack: "same_stack s s' \<Longrightarrow> rx_vars s' = rx_vars s"
  by (auto simp: same_stack_def rx_vars_def)

lemma packet_frame_stack: "same_stack s s' \<Longrightarrow> packet_frame mac s' q = packet_frame mac s q"
  by (simp add: packet_frame_def same_stack_fields)

context rtl_nic
begin

lemma flush_slot_ok:
  assumes r: "nic_ready ok base txa s" and m: "length mac = 6" "length (local_mac s) = 6"
    and q: "packet_ok (arp_queue s ! i)"
  obtains s' where "flush_slot P M mac ip i s = Some s'" and "nic_ready ok base txa s'" and "same_stack s s'"
    and "arp_queue s' = (arp_queue s)[i := release ip (arp_queue s ! i)]"
    and "arp_pending s' = arp_pending s - (if waits_for ip (arp_queue s ! i) then 1 else 0)"
    and "wire (n_dev s') = wire (n_dev s) @ (if waits_for ip (arp_queue s ! i) then [packet_frame mac s (arp_queue s ! i)] else [])"
proof (cases "waits_for ip (arp_queue s ! i)")
  case False
  show ?thesis
    by (rule that[of s]) (use False r in \<open>auto simp: flush_slot_def Let_def waits_for_def release_def\<close>)
next
  case True
  let ?q = "arp_queue s ! i"
  have w: "qp_valid ?q" "qp_dst ?q = ip" using True by (auto simp: waits_for_def)
  then have l: "unat (qp_len ?q) \<le> 1400" "length (qp_payload ?q) = 1400" using q by (auto simp: packet_ok_def)
  obtain h where h: "ip_datagram (ip_local_ip s) ip (qp_proto ?q) (qp_payload ?q) (qp_len ?q) =
      Some (h @ take (unat (qp_len ?q)) (qp_payload ?q))" "length h = 20"
    using ip_datagram_ok[of "qp_len ?q" "qp_payload ?q"] l by fastforce
  have n: "unat (20 + qp_len ?q) = 20 + unat (qp_len ?q)" using l by (simp add: unat_add_lem[THEN iffD1])
  obtain s1 where s1: "eth_tx P M mac ETH_TYPE_IP (h @ take (unat (qp_len ?q)) (qp_payload ?q)) (20 + qp_len ?q) s = Some s1"
    "nic_ready ok base txa s1" "same_net s s1"
    "wire (n_dev s1) = wire (n_dev s) @ [eth_frame mac (local_mac s) ETH_TYPE_IP
       (take (unat (20 + qp_len ?q)) (h @ take (unat (qp_len ?q)) (qp_payload ?q)))]"
    using eth_tx_sends[OF r m, of "20 + qp_len ?q" "h @ take (unat (qp_len ?q)) (qp_payload ?q)" ETH_TYPE_IP] l h(2) n
    by (auto simp: word_le_nat_alt)
  have len: "take (unat (20 + qp_len ?q)) (h @ take (unat (qp_len ?q)) (qp_payload ?q)) = h @ take (unat (qp_len ?q)) (qp_payload ?q)"
    using n h(2) l by simp
  let ?s' = "s1\<lparr>arp_queue := (arp_queue s1)[i := ?q\<lparr>qp_valid := False\<rparr>], arp_pending := arp_pending s1 - 1\<rparr>"
  show ?thesis
  proof (rule that[of ?s'])
    show "flush_slot P M mac ip i s = Some ?s'" using w h(1) s1(1) by (simp add: flush_slot_def Let_def)
    show "nic_ready ok base txa ?s'" using s1(2) by (simp add: nic_ready_def)
    show "same_stack s ?s'" using same_stack_queue[OF same_net_stack[OF s1(3)]] by simp
    show "wire (n_dev ?s') = wire (n_dev s) @ (if waits_for ip ?q then [packet_frame mac s ?q] else [])"
      using s1(4) len True w h(1) by (simp add: packet_frame_def)
  qed (use True same_net_fields[OF s1(3)] in \<open>simp_all add: release_def\<close>)
qed

lemma flush_loop_ok:
  assumes "nic_ready ok base txa s" and "length mac = 6" "length (local_mac s) = 6"
    and "\<forall>q \<in> set (arp_queue s). packet_ok q" and "distinct is" and "\<forall>i \<in> set is. i < length (arp_queue s)"
  shows "\<exists>s'. flush_loop P M mac ip is s = Some s' \<and> nic_ready ok base txa s' \<and> same_stack s s' \<and>
    length (arp_queue s') = length (arp_queue s) \<and>
    (\<forall>j < length (arp_queue s). arp_queue s' ! j = (if j \<in> set is then release ip (arp_queue s ! j) else arp_queue s ! j)) \<and>
    arp_pending s' = arp_pending s - int (length (filter (waits_for ip) (map ((!) (arp_queue s)) is))) \<and>
    wire (n_dev s') = wire (n_dev s) @ map (packet_frame mac s) (filter (waits_for ip) (map ((!) (arp_queue s)) is))"
  using assms
proof (induction "is" arbitrary: s)
  case Nil
  then show ?case by simp
next
  case (Cons i "is")
  let ?q = "arp_queue s"
  have pq: "packet_ok (?q ! i)" using Cons.prems by simp
  obtain s1 where s1: "flush_slot P M mac ip i s = Some s1" "nic_ready ok base txa s1" "same_stack s s1"
    "arp_queue s1 = ?q[i := release ip (?q ! i)]"
    "arp_pending s1 = arp_pending s - (if waits_for ip (?q ! i) then 1 else 0)"
    "wire (n_dev s1) = wire (n_dev s) @ (if waits_for ip (?q ! i) then [packet_frame mac s (?q ! i)] else [])"
    by (rule flush_slot_ok[OF Cons.prems(1-3) pq, of ip]) (rule that)
  have "packet_ok (release ip (?q ! i))" using pq by (simp add: packet_ok_def release_def)
  then have "\<forall>q \<in> set (arp_queue s1). packet_ok q"
    using Cons.prems(4) set_update_subset_insert[of ?q i "release ip (?q ! i)"] s1(4) by auto
  then obtain s' where s': "flush_loop P M mac ip is s1 = Some s'" "nic_ready ok base txa s'" "same_stack s1 s'"
    "length (arp_queue s') = length (arp_queue s1)"
    "\<forall>j < length (arp_queue s1). arp_queue s' ! j = (if j \<in> set is then release ip (arp_queue s1 ! j) else arp_queue s1 ! j)"
    "arp_pending s' = arp_pending s1 - int (length (filter (waits_for ip) (map ((!) (arp_queue s1)) is)))"
    "wire (n_dev s') = wire (n_dev s1) @ map (packet_frame mac s1) (filter (waits_for ip) (map ((!) (arp_queue s1)) is))"
    using Cons.IH[of s1] s1 Cons.prems same_stack_fields[OF s1(3)] by auto
  have same: "map ((!) (arp_queue s1)) is = map ((!) ?q) is"
    using Cons.prems(5) s1(4) by (auto intro!: map_cong) (metis nth_list_update_neq)
  have pf: "packet_frame mac s1 = packet_frame mac s" using packet_frame_stack[OF s1(3)] by blast
  have "arp_queue s' ! j = (if j \<in> set (i # is) then release ip (?q ! j) else ?q ! j)" if "j < length ?q" for j
    using s'(5) that Cons.prems(5) s1(4) by (cases "j = i") auto
  then show ?case
    using s1 s'(1,2,4) s'(6,7)[unfolded same pf] same_stack_trans[OF s1(3) s'(3)]
    by (simp del: length_filter_map)
qed

end

section \<open>Adding an address\<close>

definition net_ready :: "('d \<Rightarrow> bool) \<Rightarrow> u32 \<Rightarrow> u32 list \<Rightarrow> 'd net_state \<Rightarrow> bool" where
  "net_ready ok base txa s \<longleftrightarrow>
     nic_ready ok base txa s \<and> length (local_mac s) = 6 \<and> arp_ok (arp_table s) \<and> queue_ok s"

lemma net_ready_puts [simp]: "net_ready ok base txa (net_puts t s) = net_ready ok base txa s"
  by (simp add: net_ready_def nic_ready_def queue_ok_def net_puts_def)

lemma net_ready_same: "same_net s s' \<Longrightarrow> nic_ready ok base txa s' \<Longrightarrow> net_ready ok base txa s \<Longrightarrow> net_ready ok base txa s'"
  by (simp add: net_ready_def queue_ok_def same_net_fields)

lemma release_count:
  "length (filter qp_valid (map (release ip) qs)) + length (filter (waits_for ip) qs) = length (filter qp_valid qs)"
  by (induction qs) (auto simp: release_def waits_for_def)

lemma arp_lookup_ok:
  assumes "ip \<noteq> 0x80000000"
  shows "\<exists>t. arp_lookup ip s = Some (arp_map (arp_table s) ip, net_puts t s)"
  using put_ip_line_ok[OF assms, of "''[ARP] Cache hit for IP: ''" s] put_ip_line_ok[OF assms, of "''[ARP] Cache miss for IP: ''" s]
  by (auto simp: arp_lookup_def arp_map_first_index split: option.split)

lemma set_entry_new: "set_entry i ip m s = s\<lparr>arp_table := (arp_table s)[i := new_entry ip m (n_ticks s)]\<rparr>"
  by (simp add: set_entry_def new_entry_def get_tick_count_def)

context rtl_nic
begin

lemma process_queue_ok:
  assumes r: "net_ready ok base txa s" and ip: "ip \<noteq> 0x80000000" and m: "arp_map (arp_table s) ip = Some mac"
  obtains s' where "ip_process_arp_queue P M ip s = Some s'" and "net_ready ok base txa s'" and "same_stack s s'"
    and "arp_queue s' = map (release ip) (arp_queue s)"
    and "wire (n_dev s') = wire (n_dev s) @ map (packet_frame mac s) (filter (waits_for ip) (arp_queue s))"
proof -
  let ?q = "arp_queue s"
  obtain t where t: "arp_lookup ip s = Some (Some mac, net_puts t s)" using arp_lookup_ok[OF ip, of s] m by auto
  have q: "length ?q = ARP_QUEUE_SIZE" "\<forall>q \<in> set ?q. packet_ok q" "arp_pending s = int (length (filter qp_valid ?q))"
    using r by (auto simp: net_ready_def queue_ok_def)
  have "length mac = 6" using arp_map_Some[OF m] r by (auto simp: net_ready_def arp_ok_def)
  then obtain s' where s': "flush_loop P M mac ip [0..<ARP_QUEUE_SIZE] (net_puts t s) = Some s'" "nic_ready ok base txa s'"
    "same_stack (net_puts t s) s'" "length (arp_queue s') = length ?q"
    "\<forall>j < length ?q. arp_queue s' ! j = release ip (?q ! j)"
    "arp_pending s' = arp_pending s - int (length (filter (waits_for ip) ?q))"
    "wire (n_dev s') = wire (n_dev s) @ map (packet_frame mac (net_puts t s)) (filter (waits_for ip) ?q)"
    using flush_loop_ok[of "net_puts t s" mac "[0..<ARP_QUEUE_SIZE]" ip] r q map_nth[of ?q]
    by (auto simp del: length_filter_map simp: net_ready_def)
  have eq: "arp_queue s' = map (release ip) ?q" using s'(4,5) by (intro nth_equalityI) auto
  have st: "same_stack s s'" using same_stack_trans[OF same_net_stack[OF same_net_puts] s'(3)] .
  have "\<forall>q \<in> set (arp_queue s'). packet_ok q" using q(2) eq by (auto simp: release_def packet_ok_def)
  then have "queue_ok s'" using s'(4,6) q eq release_count[of ip ?q] by (simp add: queue_ok_def)
  then have "net_ready ok base txa s'" using r s'(2) same_stack_fields[OF st] by (simp add: net_ready_def)
  moreover have "packet_frame mac (net_puts t s) = packet_frame mac s"
    by (intro ext packet_frame_stack same_net_stack) simp
  ultimately show ?thesis using that[of s'] t s' eq st by (simp add: ip_process_arp_queue_def)
qed

lemma add_entry_ok:
  assumes r: "net_ready ok base txa s" and ip: "ip \<noteq> 0x80000000" and m: "6 \<le> length mac"
  defines "t' \<equiv> (arp_table s)[arp_slot (arp_table s) ip := new_entry ip (take 6 mac) (n_ticks s)]"
  obtains s' where "arp_add_entry P M ip mac s = Some s'" and "net_ready ok base txa s'"
    and "same_stack (s\<lparr>arp_table := t'\<rparr>) s'"
    and "arp_queue s' = (if arp_map (arp_table s) ip = None then map (release ip) (arp_queue s) else arp_queue s)"
    and "wire (n_dev s') = wire (n_dev s) @
      (if arp_map (arp_table s) ip = None then map (packet_frame (take 6 mac) s) (filter (waits_for ip) (arp_queue s)) else [])"
proof -
  let ?m = "take 6 mac" and ?s1 = "s\<lparr>arp_table := t'\<rparr>"
  have l: "load mac 0 6 = Some ?m" and lm: "length ?m = 6" using m by (simp_all add: load_def)
  have aok: "arp_ok (arp_table s)" using r by (simp add: net_ready_def)
  have r1: "net_ready ok base txa ?s1"
    using r arp_insert_ok[OF aok lm] by (simp add: net_ready_def nic_ready_def queue_ok_def t'_def)
  have look: "arp_map (arp_table ?s1) ip = Some ?m" using arp_insert_lookup[OF aok lm] by (simp add: t'_def)
  have pf: "packet_frame ?m ?s1 = packet_frame ?m s" by (simp add: packet_frame_def fun_eq_iff)
  show ?thesis
  proof (cases "first_index (\<lambda>e. ae_valid e \<and> ae_ip e = ip) (arp_table s)")
    case (Some i)
    then have i: "set_entry i ip ?m s = ?s1" by (simp add: set_entry_new t'_def arp_slot_def)
    obtain u where u: "put_ip ''[ARP] Updated entry for IP: '' ip ?s1 = Some (net_puts u ?s1)"
      using put_ip_ok[OF ip] by blast
    obtain v where "put_mac ?m (net_msg '' MAC: '' (net_puts u ?s1)) = Some (net_puts v ?s1)"
      using put_mac_ok by (fastforce simp: net_puts_fold)
    then have "arp_add_entry P M ip mac s = Some (net_puts v ?s1)"
      using Some l i u by (simp add: arp_add_entry_def Let_def)
    then show ?thesis
      using that[of "net_puts v ?s1"] r1 Some by (simp add: same_net_stack arp_map_first_index)
  next
    case None
    then have none: "arp_map (arp_table s) ip = None" by (simp add: arp_map_first_index)
    obtain u where u: "arp_add_entry P M ip mac s = ip_process_arp_queue P M ip (net_puts u ?s1)"
    proof (cases "first_index (\<lambda>e. \<not> ae_valid e) (arp_table s)")
      case (Some i)
      then have i: "set_entry i ip ?m s = ?s1" using None by (simp add: set_entry_new t'_def arp_slot_def)
      obtain u where u: "put_ip ''[ARP] Added new entry for IP: '' ip ?s1 = Some (net_puts u ?s1)"
        using put_ip_ok[OF ip] by blast
      obtain v where "put_mac ?m (net_msg '' MAC: '' (net_puts u ?s1)) = Some (net_puts v ?s1)"
        using put_mac_ok by (fastforce simp: net_puts_fold)
      then show ?thesis using that[of v] None Some l i u by (simp add: arp_add_entry_def Let_def)
    next
      case none2: None
      have "set_entry (arp_oldest (arp_table s)) ip ?m (net_puts x s) = net_puts x ?s1" for x
        using None none2 by (simp add: set_entry_new t'_def arp_slot_def net_puts_def)
      then show ?thesis
        using that None none2 l by (simp add: arp_add_entry_def Let_def net_puts_fold net_puts_def)
    qed
    have "net_ready ok base txa (net_puts u ?s1)" "arp_map (arp_table (net_puts u ?s1)) ip = Some ?m"
      using r1 look by simp_all
    then obtain s' where s': "ip_process_arp_queue P M ip (net_puts u ?s1) = Some s'" "net_ready ok base txa s'"
      "same_stack (net_puts u ?s1) s'" "arp_queue s' = map (release ip) (arp_queue (net_puts u ?s1))"
      "wire (n_dev s') = wire (n_dev (net_puts u ?s1)) @
        map (packet_frame ?m (net_puts u ?s1)) (filter (waits_for ip) (arp_queue (net_puts u ?s1)))"
      using process_queue_ok[OF _ ip] by blast
    have "packet_frame ?m (net_puts u ?s1) = packet_frame ?m s" by (simp add: packet_frame_def fun_eq_iff)
    then show ?thesis
      using that[of s'] u s' none same_stack_trans[OF same_net_stack[OF same_net_puts] s'(3)]
      by simp
  qed
qed

end

section \<open>The table as a cache\<close>

text \<open>What the clients of a resolution cache rely on: an address added is found, and adding one
  address never changes what is found for another, except that it may be forgotten.\<close>

locale address_cache =
  fixes ok :: "'t \<Rightarrow> bool" and good :: "'v \<Rightarrow> bool" and look :: "'t \<Rightarrow> 'k \<Rightarrow> 'v option"
    and add :: "'now \<Rightarrow> 'k \<Rightarrow> 'v \<Rightarrow> 't \<Rightarrow> 't"
  assumes add_ok: "ok t \<Longrightarrow> good v \<Longrightarrow> ok (add now k v t)"
    and look_same: "ok t \<Longrightarrow> good v \<Longrightarrow> look (add now k v t) k = Some v"
    and look_other: "ok t \<Longrightarrow> good v \<Longrightarrow> k' \<noteq> k \<Longrightarrow>
      look (add now k v t) k' = None \<or> look (add now k v t) k' = look t k'"
begin

fun add_all :: "('now \<times> 'k \<times> 'v) list \<Rightarrow> 't \<Rightarrow> 't" where
  "add_all [] t = t"
| "add_all ((now, k, v) # es) t = add_all es (add now k v t)"

lemma add_all_ok: "ok t \<Longrightarrow> \<forall>e \<in> set es. good (snd (snd e)) \<Longrightarrow> ok (add_all es t)"
  by (induction es t rule: add_all.induct) (auto simp: add_ok)

text \<open>After any sequence of additions, a hit is the value added last for that key, or one that
  was there before.\<close>

lemma add_all_sound:
  assumes "ok t" and "\<forall>e \<in> set es. good (snd (snd e))" and "look (add_all es t) k = Some v"
  shows "case map_of (rev (map snd es)) k of Some v' \<Rightarrow> v = v' | None \<Rightarrow> look t k = Some v"
  using assms
proof (induction es arbitrary: t)
  case (Cons e es)
  obtain now k1 v1 where e: "e = (now, k1, v1)" by (cases e)
  have t1: "ok (add now k1 v1 t)" using Cons.prems e by (simp add: add_ok)
  have "case map_of (rev (map snd es)) k of Some v' \<Rightarrow> v = v' | None \<Rightarrow> look (add now k1 v1 t) k = Some v"
    using Cons.IH[OF t1] Cons.prems e by simp
  then show ?case
    using e Cons.prems look_same[of t v1 now k1] look_other[of t v1 k k1 now]
    by (auto split: option.splits simp: map_add_def)
qed simp

end

definition arp_insert :: "u32 \<Rightarrow> u32 \<Rightarrow> bytes \<Rightarrow> arp_entry_t list \<Rightarrow> arp_entry_t list" where
  "arp_insert now ip m t = t[arp_slot t ip := new_entry ip m now]"

interpretation arp_cache: address_cache arp_ok "\<lambda>m. length m = 6" arp_map arp_insert
  by unfold_locales (simp_all add: arp_insert_def arp_insert_ok arp_insert_lookup)

lemma arp_cache_add_all_snoc:
  "arp_cache.add_all (es @ [(now, ip, m)]) t = arp_insert now ip m (arp_cache.add_all es t)"
  by (induction es t rule: arp_cache.add_all.induct) auto

lemma arp_lookup_hit: "arp_lookup ip s = Some (Some m, s') \<Longrightarrow> arp_map (arp_table s) ip = Some m"
  by (auto simp: arp_lookup_def arp_map_first_index split: option.splits bind_splits)

text \<open>A run of announcements, each at its own time.\<close>

fun arp_run :: "'d port_ops \<Rightarrow> 'd dma_ops \<Rightarrow> (u32 \<times> u32 \<times> bytes) list \<Rightarrow> 'd net_state \<Rightarrow> 'd net_state option" where
  "arp_run P M [] s = Some s"
| "arp_run P M ((now, ip, mac) # es) s = do { s \<leftarrow> arp_add_entry P M ip mac (s\<lparr>n_ticks := now\<rparr>); arp_run P M es s }"

definition announcement :: "u32 \<times> u32 \<times> bytes \<Rightarrow> bool" where
  "announcement e \<longleftrightarrow> fst (snd e) \<noteq> 0x80000000 \<and> length (snd (snd e)) = 6"

context rtl_nic
begin

lemma arp_run_ok:
  "net_ready ok base txa s \<Longrightarrow> \<forall>e \<in> set es. announcement e \<Longrightarrow>
   \<exists>s'. arp_run P M es s = Some s' \<and> net_ready ok base txa s' \<and> arp_table s' = arp_cache.add_all es (arp_table s)"
proof (induction es arbitrary: s)
  case (Cons e es)
  obtain now ip mac where e: "e = (now, ip, mac)" by (cases e)
  have r: "net_ready ok base txa (s\<lparr>n_ticks := now\<rparr>)"
    using Cons.prems by (simp add: net_ready_def nic_ready_def queue_ok_def)
  have m: "ip \<noteq> 0x80000000" "length mac = 6" using Cons.prems e by (simp_all add: announcement_def)
  then have "6 \<le> length mac" by simp
  let ?s = "s\<lparr>n_ticks := now\<rparr>"
  obtain s1 where s1: "arp_add_entry P M ip mac ?s = Some s1" "net_ready ok base txa s1"
    "same_stack (?s\<lparr>arp_table := (arp_table ?s)[arp_slot (arp_table ?s) ip := new_entry ip (take 6 mac) (n_ticks ?s)]\<rparr>) s1"
    by (rule add_entry_ok[OF r m(1) \<open>6 \<le> length mac\<close>]) (rule that)
  have "arp_table s1 = arp_insert now ip mac (arp_table s)"
    using same_stack_fields(1)[OF s1(3)] m(2) by (simp add: arp_insert_def)
  then show ?case using Cons.IH[OF s1(2)] Cons.prems s1(1) e by auto
qed simp

end

section \<open>Receiving\<close>

text \<open>What a request and a reply look like on the wire.\<close>

definition arp_answer :: "'d net_state \<Rightarrow> arp_pkt_t \<Rightarrow> bytes" where
  "arp_answer s a = [0, 1, 8, 0, 6, 4, 0, 2] @ local_mac s @ le32 (arp_local_ip s) @ ap_sha a @ le32 (ap_spa a)"

definition arp_question :: "'d net_state \<Rightarrow> u32 \<Rightarrow> bytes" where
  "arp_question s ip = [0, 1, 8, 0, 6, 4, 0, 1] @ local_mac s @ le32 (arp_local_ip s) @ replicate 6 0 @ le32 ip"

lemma le16_bswap_consts: "le16 (bswap16 1) = [0, 1]" "le16 (bswap16 2) = [0, 2]" "le16 (bswap16 0x0800) = [8, 0]"
  by code_simp+

context rtl_nic
begin

lemma arp_request_ok:
  assumes r: "net_ready ok base txa s" and ip: "ip \<noteq> 0x80000000"
  obtains s' where "arp_request P M ip s = Some s'" and "net_ready ok base txa s'" and "same_net s s'"
    and "wire (n_dev s') = wire (n_dev s) @ [eth_frame (replicate 6 255) (local_mac s) ETH_TYPE_ARP (arp_question s ip)]"
proof -
  obtain t where t: "put_ip_line ''[ARP] Sending request for IP: '' ip s = Some (net_puts t s)"
    using put_ip_line_ok[OF ip] by blast
  let ?s = "net_puts t s"
  have lm: "length (local_mac s) = 6" using r by (simp add: net_ready_def)
  let ?a = "\<lparr>ap_htype = bswap16 1, ap_ptype = bswap16 0x0800, ap_hlen = 6, ap_plen = 4, ap_oper = bswap16 1,
    ap_sha = local_mac s, ap_spa = arp_local_ip s, ap_tha = replicate 6 0, ap_tpa = ip\<rparr>"
  have a: "arp_pkt_to_bytes ?a = arp_question s ip" "length (arp_question s ip) = 28"
    using lm by (simp_all add: arp_pkt_to_bytes_def arp_question_def le16_bswap_consts)
  have "nic_ready ok base txa ?s" "length (local_mac ?s) = 6" using r lm by (simp_all add: net_ready_def)
  then obtain s' where s': "eth_tx P M (replicate 6 255) ETH_TYPE_ARP (arp_question s ip) 28 ?s = Some s'"
    "nic_ready ok base txa s'" "same_net ?s s'"
    "wire (n_dev s') = wire (n_dev s) @ [eth_frame (replicate 6 255) (local_mac s) ETH_TYPE_ARP (arp_question s ip)]"
    using eth_tx_sends[of ?s "replicate 6 255" 28 "arp_question s ip" ETH_TYPE_ARP] a(2) by auto
  have m: "load (eth_mac ?s) 0 6 = Some (local_mac s)" using lm by (simp add: eth_mac_def load_def)
  show ?thesis
  proof (rule that[of s'])
    show "arp_request P M ip s = Some s'"
      using t s'(1) m a(1) by (simp add: arp_request_def Let_def)
    show "same_net s s'" using same_net_trans[OF same_net_puts s'(3)] .
    then show "net_ready ok base txa s'" using net_ready_same s'(2) r by blast
  qed (use s' in simp)
qed

lemma arp_rx_ok:
  assumes r: "net_ready ok base txa s" and l: "28 \<le> length pkt"
  defines "a \<equiv> arp_pkt_of_bytes (take 28 pkt)"
  assumes op: "bswap16 (ap_oper a) = 1 \<or> bswap16 (ap_oper a) = 2" and ip: "ap_spa a \<noteq> 0x80000000"
  obtains s' where "arp_rx P M pkt s = Some s'" and "net_ready ok base txa s'"
    and "arp_map (arp_table s') (ap_spa a) = Some (ap_sha a)"
    and "arp_queue s' = (if arp_map (arp_table s) (ap_spa a) = None then map (release (ap_spa a)) (arp_queue s) else arp_queue s)"
    and "rx_vars s' = rx_vars s"
    and "wire (n_dev s') = wire (n_dev s) @
      (if bswap16 (ap_oper a) = 1 \<and> ap_tpa a = arp_local_ip s
       then [eth_frame (ap_sha a) (local_mac s) ETH_TYPE_ARP (arp_answer s a)] else []) @
      (if arp_map (arp_table s) (ap_spa a) = None
       then map (packet_frame (ap_sha a) s) (filter (waits_for (ap_spa a)) (arp_queue s)) else [])"
proof -
  have lm: "length (local_mac s) = 6" using r by (simp add: net_ready_def)
  have sha: "length (ap_sha a) = 6" using l by (simp add: a_def arp_pkt_of_bytes_def)
  have ld: "load pkt 0 28 = Some (take 28 pkt)" using l by (simp add: load_def)
  obtain s1 where s1: "net_ready ok base txa s1" "same_net s s1" "arp_rx P M pkt s = arp_add_entry P M (ap_spa a) (ap_sha a) s1"
    "wire (n_dev s1) = wire (n_dev s) @ (if bswap16 (ap_oper a) = 1 \<and> ap_tpa a = arp_local_ip s
       then [eth_frame (ap_sha a) (local_mac s) ETH_TYPE_ARP (arp_answer s a)] else [])"
  proof (cases "bswap16 (ap_oper a) = 1")
    case True
    show ?thesis
    proof (cases "ap_tpa a = arp_local_ip s")
      case own: True
      let ?r = "\<lparr>ap_htype = bswap16 1, ap_ptype = bswap16 0x0800, ap_hlen = 6, ap_plen = 4, ap_oper = bswap16 2,
        ap_sha = local_mac s, ap_spa = arp_local_ip s, ap_tha = ap_sha a, ap_tpa = ap_spa a\<rparr>"
      let ?s = "net_line ''[ARP] Request is for us, sending reply'' (net_line ''[ARP] Received request'' s)"
      have rb: "arp_pkt_to_bytes ?r = arp_answer s a" "length (arp_answer s a) = 28"
        using lm sha by (simp_all add: arp_pkt_to_bytes_def arp_answer_def le16_bswap_consts)
      have "nic_ready ok base txa ?s" "length (local_mac ?s) = 6"
        using r lm by (simp_all add: net_ready_def net_puts_fold)
      then obtain s1 where s1: "eth_tx P M (ap_sha a) ETH_TYPE_ARP (arp_answer s a) 28 ?s = Some s1"
        "nic_ready ok base txa s1" "same_net ?s s1"
        "wire (n_dev s1) = wire (n_dev s) @ [eth_frame (ap_sha a) (local_mac s) ETH_TYPE_ARP (arp_answer s a)]"
        using eth_tx_sends[of ?s "ap_sha a" 28 "arp_answer s a" ETH_TYPE_ARP] rb(2) sha by (auto simp: net_puts_fold)
      have sn: "same_net s s1" using same_net_trans[OF _ s1(3), of s] by (simp add: net_puts_fold)
      show ?thesis
      proof (rule that[of s1])
        show "net_ready ok base txa s1" using net_ready_same[OF sn s1(2) r] .
        show "arp_rx P M pkt s = arp_add_entry P M (ap_spa a) (ap_sha a) s1"
          using ld True own s1(1) rb(1) lm
          by (simp add: arp_rx_def Let_def a_def[symmetric] net_puts_fold eth_mac_def load_def)
      qed (use sn s1(4) True own in simp_all)
    next
      case False
      show ?thesis
        by (rule that[of "net_line ''[ARP] Received request'' s"])
           (use False True ld r in \<open>simp_all add: arp_rx_def Let_def a_def[symmetric] net_puts_fold\<close>)
    qed
  next
    case False
    then have two: "bswap16 (ap_oper a) = 2" using op by simp
    obtain t where t: "put_ip_line ''[ARP] Received reply from IP: '' (ap_spa a) s = Some (net_puts t s)"
      using put_ip_line_ok[OF ip] by blast
    show ?thesis
      by (rule that[of "net_puts t s"]) (use two ld r t in \<open>simp_all add: arp_rx_def Let_def a_def[symmetric]\<close>)
  qed
  have m: "6 \<le> length (ap_sha a)" "take 6 (ap_sha a) = ap_sha a" using sha by simp_all
  have f: "arp_table s1 = arp_table s" "arp_queue s1 = arp_queue s" using same_net_fields[OF s1(2)] by simp_all
  have pf: "packet_frame mac s1 = packet_frame mac s" for mac
    using packet_frame_stack[OF same_net_stack[OF s1(2)]] by blast
  note add = add_entry_ok[OF s1(1) ip m(1), unfolded m(2) f pf]
  obtain s' where s': "arp_add_entry P M (ap_spa a) (ap_sha a) s1 = Some s'" "net_ready ok base txa s'"
    "same_stack (s1\<lparr>arp_table := (arp_table s)[arp_slot (arp_table s) (ap_spa a) := new_entry (ap_spa a) (ap_sha a) (n_ticks s1)]\<rparr>) s'"
    "arp_queue s' = (if arp_map (arp_table s) (ap_spa a) = None then map (release (ap_spa a)) (arp_queue s) else arp_queue s)"
    "wire (n_dev s') = wire (n_dev s1) @ (if arp_map (arp_table s) (ap_spa a) = None
       then map (packet_frame (ap_sha a) s) (filter (waits_for (ap_spa a)) (arp_queue s)) else [])"
    by (rule add) (rule that)
  have "arp_ok (arp_table s)" using r by (simp add: net_ready_def)
  then have "arp_map (arp_table s') (ap_spa a) = Some (ap_sha a)"
    using same_stack_fields(1)[OF s'(3)] arp_insert_lookup[of "arp_table s" "ap_sha a" "ap_spa a"] sha by simp
  moreover have "rx_vars s' = rx_vars s"
    using rx_vars_stack[OF s'(3)] rx_vars_stack[OF same_net_stack[OF s1(2)]] by (simp add: rx_vars_def)
  ultimately show ?thesis using that[of s'] s' s1 by simp
qed

end

section \<open>Properties of address resolution\<close>

text \<open>C30. From any state in which the stack is sound, every sequence of announcements is processed
  without fault, whatever the clock shows, even when the table overflows; afterwards a hit for an address is
  the hardware address announced last for it (or the one known before, if none was announced), and the
  address announced last is always found.\<close>

theorem arp_cache_sound:
  assumes "rtl_nic P M wire ram ok base txa" and "net_ready ok base txa s" and "\<forall>e \<in> set es. announcement e"
  shows "\<exists>s'. arp_run P M es s = Some s' \<and> net_ready ok base txa s' \<and>
    (\<forall>ip m s''. arp_lookup ip s' = Some (Some m, s'') \<longrightarrow>
       (case map_of (rev (map snd es)) ip of Some m' \<Rightarrow> m = m' | None \<Rightarrow> arp_map (arp_table s) ip = Some m)) \<and>
    (es \<noteq> [] \<longrightarrow> (\<exists>s''. arp_lookup (fst (snd (last es))) s' = Some (Some (snd (snd (last es))), s'')))"
proof -
  obtain s' where s': "arp_run P M es s = Some s'" "net_ready ok base txa s'"
    "arp_table s' = arp_cache.add_all es (arp_table s)"
    using rtl_nic.arp_run_ok[OF assms] by blast
  have ok: "arp_ok (arp_table s)" "\<forall>e \<in> set es. length (snd (snd e)) = 6"
    using assms(2,3) by (auto simp: net_ready_def announcement_def)
  have "case map_of (rev (map snd es)) ip of Some m' \<Rightarrow> m = m' | None \<Rightarrow> arp_map (arp_table s) ip = Some m"
    if "arp_lookup ip s' = Some (Some m, s'')" for ip m s''
  proof (rule arp_cache.add_all_sound[OF ok])
    show "arp_map (arp_cache.add_all es (arp_table s)) ip = Some m"
      using arp_lookup_hit[OF that] unfolding s'(3) .
  qed
  moreover have "\<exists>s''. arp_lookup (fst (snd (last es))) s' = Some (Some (snd (snd (last es))), s'')" if ne: "es \<noteq> []"
  proof -
    obtain es' e where es: "es = es' @ [e]" using ne by (cases es rule: rev_cases) simp_all
    obtain now ip m where e: "e = (now, ip, m)" by (cases e)
    have okk: "arp_ok (arp_cache.add_all es' (arp_table s))"
      by (rule arp_cache.add_all_ok[OF ok(1)]) (use ok(2) es in auto)
    have "length m = 6" using ok(2) es e by simp
    from arp_cache.look_same[OF okk this, of now ip]
    have "arp_map (arp_table s') (fst (snd e)) = Some (snd (snd e))"
      using s'(3) es e by (simp add: arp_cache_add_all_snoc)
    moreover have "fst (snd e) \<noteq> 0x80000000" using assms(3) es by (simp add: announcement_def)
    ultimately show ?thesis using arp_lookup_ok[of "fst (snd e)" s'] es by auto
  qed
  ultimately show ?thesis using s'(1,2) by blast
qed

lemma arp_ok_empty: "arp_ok (replicate 16 \<lparr>ae_ip = 0, ae_mac = replicate 6 0, ae_timestamp = 0, ae_valid = False\<rparr>)"
  by (simp add: arp_ok_def ARP_TABLE_SIZE_def)

lemma sim_net_net_ready: "net_ready (\<lambda>d. sc_txaddr d = sim_txaddr) sim_base sim_txaddr sim_net"
proof -
  have "arp_ok (arp_table sim_net)" by (simp add: sim_net_def arp_ok_empty)
  moreover have "queue_ok sim_net"
    by (simp add: queue_ok_def sim_net_def packet_ok_def ARP_QUEUE_SIZE_def)
  ultimately show ?thesis using sim_net_ready by (simp add: net_ready_def sim_net_def)
qed

theorem arp_cache_sound_witness:
  "\<exists>s' s''. arp_run (sim_ports sim_base) sim_dma
      [(1, 0x0101A8C0, [1, 2, 3, 4, 5, 6]), (2, 0x0101A8C0, [6, 5, 4, 3, 2, 1])] sim_net = Some s' \<and>
    arp_lookup 0x0101A8C0 s' = Some (Some [6, 5, 4, 3, 2, 1], s'')"
  using arp_cache_sound[OF sim.rtl_nic_axioms sim_net_net_ready,
      of "[(1, 0x0101A8C0, [1, 2, 3, 4, 5, 6]), (2, 0x0101A8C0, [6, 5, 4, 3, 2, 1])]"]
  by (auto simp: announcement_def)

text \<open>When an address becomes known that the table did not hold, every packet that waited for it is
  sent, once, in queue order, to the hardware address just learned, and leaves the queue; packets
  for other addresses stay.  The entry takes the address's own slot, a free one, or the oldest.
  (An address already known is only updated: nothing is sent.)\<close>

theorem arp_add_entry_sends_waiting:
  assumes "rtl_nic P M wire ram ok base txa" and "net_ready ok base txa s"
    and "ip \<noteq> 0x80000000" and "length mac = 6"
  shows "\<exists>s'. arp_add_entry P M ip mac s = Some s' \<and> net_ready ok base txa s' \<and>
    arp_table s' = arp_insert (n_ticks s) ip mac (arp_table s) \<and>
    (if arp_map (arp_table s) ip = None
     then wire (n_dev s') = wire (n_dev s) @ map (packet_frame mac s) (filter (waits_for ip) (arp_queue s)) \<and>
       arp_queue s' = map (release ip) (arp_queue s)
     else wire (n_dev s') = wire (n_dev s) \<and> arp_queue s' = arp_queue s)"
proof -
  have m: "6 \<le> length mac" "take 6 mac = mac" using assms(4) by simp_all
  note add = rtl_nic.add_entry_ok[OF assms(1-3) m(1), unfolded m(2)]
  obtain s' where s': "arp_add_entry P M ip mac s = Some s'" "net_ready ok base txa s'"
    "same_stack (s\<lparr>arp_table := (arp_table s)[arp_slot (arp_table s) ip := new_entry ip mac (n_ticks s)]\<rparr>) s'"
    "arp_queue s' = (if arp_map (arp_table s) ip = None then map (release ip) (arp_queue s) else arp_queue s)"
    "wire (n_dev s') = wire (n_dev s) @
      (if arp_map (arp_table s) ip = None then map (packet_frame mac s) (filter (waits_for ip) (arp_queue s)) else [])"
    by (rule add) (rule that)
  have "arp_table s' = arp_insert (n_ticks s) ip mac (arp_table s)"
    using same_stack_fields(1)[OF s'(3)] by (simp add: arp_insert_def)
  then show ?thesis using s'(1,2,4,5) by simp
qed

definition sim_packet :: queued_packet_t where
  "sim_packet = \<lparr>qp_dst = 0x0101A8C0, qp_proto = 1, qp_payload = [8, 0, 0xF6, 0xFF, 1, 0, 1, 0] @ replicate 1392 0,
     qp_len = 8, qp_timestamp = 4, qp_valid = True\<rparr>"

definition sim_waiting :: "sim_card net_state" where
  "sim_waiting = sim_net\<lparr>arp_queue := [zero_packet, zero_packet, sim_packet] @ replicate 5 zero_packet, arp_pending := 1\<rparr>"

lemma sim_waiting_ready: "net_ready (\<lambda>d. sc_txaddr d = sim_txaddr) sim_base sim_txaddr sim_waiting"
proof -
  have "queue_ok sim_waiting"
    by (simp add: queue_ok_def sim_waiting_def packet_ok_def ARP_QUEUE_SIZE_def zero_packet_def sim_packet_def)
  then show ?thesis using sim_net_net_ready by (simp add: net_ready_def nic_ready_def sim_waiting_def)
qed

theorem arp_add_entry_sends_waiting_witness:
  "\<exists>s'. arp_add_entry (sim_ports sim_base) sim_dma 0x0101A8C0 [1, 2, 3, 4, 5, 6] sim_waiting = Some s' \<and>
    sc_wire (n_dev s') = [packet_frame [1, 2, 3, 4, 5, 6] sim_waiting sim_packet]"
proof -
  have "arp_map (arp_table sim_waiting) 0x0101A8C0 = None"
    by (simp add: arp_map_None sim_waiting_def sim_net_def)
  moreover have "filter (waits_for 0x0101A8C0) (arp_queue sim_waiting) = [sim_packet]"
    by (simp add: sim_waiting_def waits_for_def zero_packet_def sim_packet_def)
  moreover have "sc_wire (n_dev sim_waiting) = []" by (simp add: sim_waiting_def sim_net_def)
  ultimately show ?thesis
    using arp_add_entry_sends_waiting[OF sim.rtl_nic_axioms sim_waiting_ready,
        where ip = "0x0101A8C0" and mac = "[1, 2, 3, 4, 5, 6]"]
    by auto
qed

text \<open>A well-formed request or reply teaches the stack the sender's address; a request for the own
  address is answered to the sender alone with the own hardware address, and the answer goes out before
  the packets that were waiting for the sender.\<close>

theorem arp_rx_learns_and_answers:
  assumes "rtl_nic P M wire ram ok base txa" and "net_ready ok base txa s" and "28 \<le> length pkt"
    and "a = arp_pkt_of_bytes (take 28 pkt)" and "bswap16 (ap_oper a) = 1 \<or> bswap16 (ap_oper a) = 2"
    and "ap_spa a \<noteq> 0x80000000"
  shows "\<exists>s'. arp_rx P M pkt s = Some s' \<and> net_ready ok base txa s' \<and>
    arp_map (arp_table s') (ap_spa a) = Some (ap_sha a) \<and>
    wire (n_dev s') = wire (n_dev s) @
      (if bswap16 (ap_oper a) = 1 \<and> ap_tpa a = arp_local_ip s
       then [eth_frame (ap_sha a) (local_mac s) ETH_TYPE_ARP (arp_answer s a)] else []) @
      (if arp_map (arp_table s) (ap_spa a) = None
       then map (packet_frame (ap_sha a) s) (filter (waits_for (ap_spa a)) (arp_queue s)) else [])"
  unfolding assms(4)
  by (rule rtl_nic.arp_rx_ok[OF assms(1-3)]) (use assms(4-6) in auto)

definition sim_request :: bytes where
  "sim_request = [0, 1, 8, 0, 6, 4, 0, 1, 1, 2, 3, 4, 5, 6, 192, 168, 1, 1, 0, 0, 0, 0, 0, 0, 192, 168, 1, 10]"

theorem arp_rx_learns_and_answers_witness:
  "\<exists>s'. arp_rx (sim_ports sim_base) sim_dma sim_request sim_net = Some s' \<and>
    arp_map (arp_table s') 0x0101A8C0 = Some [1, 2, 3, 4, 5, 6] \<and>
    sc_wire (n_dev s') = [[1, 2, 3, 4, 5, 6] @ [2, 0, 0, 0, 0, 1] @ [8, 6] @
      [0, 1, 8, 0, 6, 4, 0, 2] @ [2, 0, 0, 0, 0, 1] @ [192, 168, 1, 10] @ [1, 2, 3, 4, 5, 6] @ [192, 168, 1, 1] @
      replicate 18 0]"
proof -
  let ?a = "arp_pkt_of_bytes (take 28 sim_request)"
  have l: "length sim_request = 28" and op: "bswap16 (ap_oper ?a) = 1" and spa: "ap_spa ?a = 0x0101A8C0"
    and tpa: "ap_tpa ?a = 0x0A01A8C0" and sha: "ap_sha ?a = [1, 2, 3, 4, 5, 6]"
    by code_simp+
  have f: "eth_frame [1, 2, 3, 4, 5, 6] [2, 0, 0, 0, 0, 1] ETH_TYPE_ARP ([0, 1, 8, 0, 6, 4, 0, 2] @ [2, 0, 0, 0, 0, 1] @
      le32 0x0A01A8C0 @ [1, 2, 3, 4, 5, 6] @ le32 0x0101A8C0) =
    [1, 2, 3, 4, 5, 6] @ [2, 0, 0, 0, 0, 1] @ [8, 6] @
      [0, 1, 8, 0, 6, 4, 0, 2] @ [2, 0, 0, 0, 0, 1] @ [192, 168, 1, 10] @ [1, 2, 3, 4, 5, 6] @ [192, 168, 1, 1] @
      replicate 18 0" by code_simp
  have q: "filter (waits_for ip) (arp_queue sim_net) = []" for ip by (simp add: sim_net_def waits_for_def)
  have n: "local_mac sim_net = [2, 0, 0, 0, 0, 1]" "arp_local_ip sim_net = 0x0A01A8C0" "sc_wire (n_dev sim_net) = []"
    by (simp_all add: sim_net_def)
  show ?thesis
    using arp_rx_learns_and_answers[OF sim.rtl_nic_axioms sim_net_net_ready, of sim_request ?a] l op spa
    unfolding arp_answer_def tpa sha spa n q f[symmetric] by (auto split: if_splits)
qed

end
