(* ===== verification/Ip.thy ===== *)
theory Ip
  imports Arp
begin

text \<open>
  Sending and receiving above Ethernet: \<open>src/drivers/net/ip.c\<close> (the queue and header are in
  \<open>Arp\<close>), \<open>src/drivers/net/icmp.c\<close>, the receive half of \<open>src/drivers/net/ethernet.c\<close> and the
  interrupt handler of \<open>src/drivers/rtl8139/rtl8139.c\<close>.  A received packet is the byte list from
  its first byte to the end of the receive buffer.  The handler's loop reads the card until it
  reports an empty buffer, so it is a partial function; a run bounded by the number of frames
  the card holds is shown to end.
\<close>

section \<open>IP\<close>

definition ip_init :: "u32 \<Rightarrow> 'd net_state \<Rightarrow> 'd net_state" where
  "ip_init ip s = s\<lparr>ip_local_ip := ip, arp_queue := replicate ARP_QUEUE_SIZE zero_packet\<rparr>"

text \<open>The slot a packet takes; \<open>payload\<close> is an array of 1400 bytes inside the slot.\<close>

definition queue_packet :: "nat \<Rightarrow> u32 \<Rightarrow> u8 \<Rightarrow> bytes \<Rightarrow> u16 \<Rightarrow> 'd net_state \<Rightarrow> 'd net_state option" where
  "queue_packet slot dst proto payload len s = do {
     body \<leftarrow> load payload 0 (unat len);
     stored \<leftarrow> store (qp_payload (arp_queue s ! slot)) 0 body;
     Some (s\<lparr>arp_queue := (arp_queue s)[slot := \<lparr>qp_dst = dst, qp_proto = proto, qp_payload = stored, qp_len = len,
               qp_timestamp = get_tick_count s, qp_valid = True\<rparr>],
             arp_pending := arp_pending s + 1\<rparr>)
   }"

definition ip_tx :: "'d port_ops \<Rightarrow> 'd dma_ops \<Rightarrow> u32 \<Rightarrow> u8 \<Rightarrow> bytes \<Rightarrow> u16 \<Rightarrow> 'd net_state \<Rightarrow> (int \<times> 'd net_state) option" where
  "ip_tx P M dst proto payload len s = do {
     buf \<leftarrow> ip_datagram (ip_local_ip s) dst proto payload len;
     r \<leftarrow> arp_lookup dst s;
     (case r of
        (None, s) \<Rightarrow>
          (let s = net_line ''[IP] No ARP entry, queueing packet and sending ARP request'' s in
           case first_index (\<lambda>q. \<not> qp_valid q) (arp_queue s) of
             None \<Rightarrow> Some (- 1, net_line ''[IP] ERROR: ARP queue full, packet dropped'' s)
           | Some slot \<Rightarrow> do {
               s \<leftarrow> queue_packet slot dst proto payload len s;
               s \<leftarrow> arp_request P M dst s;
               Some (0, s)
             })
      | (Some mac, s) \<Rightarrow> do {
          s \<leftarrow> eth_tx P M mac ETH_TYPE_IP buf (20 + len) s;
          Some (1, net_line ''[IP] Packet sent successfully'' s)
        })
   }"

section \<open>ICMP\<close>

record icmp_hdr_t =
  ic_type :: u8
  ic_code :: u8
  ic_csum :: u16
  ic_id :: u16
  ic_seq :: u16

definition icmp_hdr_to_bytes :: "icmp_hdr_t \<Rightarrow> bytes" where
  "icmp_hdr_to_bytes h = [ic_type h, ic_code h] @ le16 (ic_csum h) @ le16 (ic_id h) @ le16 (ic_seq h)"

definition icmp_hdr_of_bytes :: "bytes \<Rightarrow> icmp_hdr_t" where
  "icmp_hdr_of_bytes p = \<lparr>ic_type = get8 p 0, ic_code = get8 p 1, ic_csum = get16 p 2, ic_id = get16 p 4, ic_seq = get16 p 6\<rparr>"

definition icmp_ping :: "'d port_ops \<Rightarrow> 'd dma_ops \<Rightarrow> u32 \<Rightarrow> 'd net_state \<Rightarrow> 'd net_state option" where
  "icmp_ping P M ip s = do {
     let s = s\<lparr>ping_seq := ping_seq s + 1\<rparr>;
     let h = \<lparr>ic_type = 8, ic_code = 0, ic_csum = 0, ic_id = ping_id s, ic_seq = ping_seq s\<rparr>;
     c \<leftarrow> checksum (icmp_hdr_to_bytes h) 8;
     let buf = icmp_hdr_to_bytes (h\<lparr>ic_csum := c\<rparr>);
     let s = s\<lparr>ping_waiting := True, ping_sent_time := get_tick_count s\<rparr>;
     r \<leftarrow> ip_tx P M ip 1 buf 8 s;
     Some (snd r)
   }"

definition icmp_rx :: "bytes \<Rightarrow> u16 \<Rightarrow> 'd net_state \<Rightarrow> 'd net_state option" where
  "icmp_rx pkt len s =
     (if len < 8 then Some s
      else do {
        p \<leftarrow> load pkt 0 8;
        let h = icmp_hdr_of_bytes p;
        if ic_type h = 0 \<and> ping_waiting s then do {
          let rtt = get_tick_count s - ping_sent_time s;
          let s = s\<lparr>ping_waiting := False\<rparr>;
          s \<leftarrow> put_num (ucast (ic_seq h)) 10 (net_msg ''Reply from host: seq='' s);
          s \<leftarrow> put_num rtt 10 (net_msg '' time='' s);
          Some (net_line ''ms'' s)
        } else Some s
      })"

definition icmp_get_status :: "'d net_state \<Rightarrow> int" where
  "icmp_get_status s = (if ping_waiting s then 1 else 0)"

definition icmp_reset_status :: "'d net_state \<Rightarrow> 'd net_state" where
  "icmp_reset_status s = s\<lparr>ping_waiting := False\<rparr>"

section \<open>Receiving\<close>

definition ip_rx :: "bytes \<Rightarrow> u16 \<Rightarrow> 'd net_state \<Rightarrow> 'd net_state option" where
  "ip_rx pkt len s =
     (if len < 20 then Some s
      else do {
        p \<leftarrow> load pkt 0 20;
        s \<leftarrow> put_num (ucast (get8 p 9)) 10 (net_msg ''[IP] Received packet, proto='' s);
        let s = net_nl s;
        if get8 p 9 = 1 then icmp_rx (drop 20 pkt) (len - 20) s else Some s
      })"

definition eth_rx :: "'d port_ops \<Rightarrow> 'd dma_ops \<Rightarrow> bytes \<Rightarrow> u16 \<Rightarrow> 'd net_state \<Rightarrow> 'd net_state option" where
  "eth_rx P M data len s = do {
     h \<leftarrow> load data 0 14;
     let type = bswap16 (eh_type (eth_hdr_of_bytes h));
     if type = ETH_TYPE_ARP then arp_rx P M (drop 14 data) s
     else if type = ETH_TYPE_IP then ip_rx (drop 14 data) (len - 14) s
     else Some s
   }"

definition REG_COMMAND :: u32 where "REG_COMMAND = 0x37"
definition REG_CAPR :: u32 where "REG_CAPR = 0x38"
definition REG_ISR :: u32 where "REG_ISR = 0x3E"
definition RX_BUFFER_SIZE :: nat where "RX_BUFFER_SIZE = 8192 + 16 + 1500"

definition nic_outw :: "'d port_ops \<Rightarrow> u32 \<Rightarrow> u16 \<Rightarrow> 'd net_state \<Rightarrow> 'd net_state" where
  "nic_outw P reg v s = set_dev (outw P (ucast (io_base s + reg)) v (n_dev s)) s"

text \<open>The buffer from offset \<open>off\<close> to its end, as the card's memory holds it.\<close>

definition rx_bytes :: "'d dma_ops \<Rightarrow> 'd net_state \<Rightarrow> nat \<Rightarrow> bytes option" where
  "rx_bytes M s off =
     (if off \<le> RX_BUFFER_SIZE
      then Some (dma_load M (rx_buffer_phys s + of_nat off) (RX_BUFFER_SIZE - off) (n_dev s)) else None)"

definition rx_next :: "u16 \<Rightarrow> u16 \<Rightarrow> u16" where
  "rx_next off pkt_len = ucast ((ucast off + ucast pkt_len + 4 + 3 :: u32) AND NOT 3)"

text \<open>One round of the receive loop: the packet at the current offset.\<close>

definition rx_packet :: "'d port_ops \<Rightarrow> 'd dma_ops \<Rightarrow> 'd net_state \<Rightarrow> 'd net_state option" where
  "rx_packet P M s = do {
     let off = current_rx_offset s;
     b \<leftarrow> rx_bytes M s (unat off);
     h \<leftarrow> load b 0 4;
     let pkt_status = get16 h 0;
     let pkt_len = get16 h 2;
     s \<leftarrow> put_num (ucast pkt_len) 10 (net_msg ''[RTL8139] RX: len='' s);
     s \<leftarrow> put_num (ucast pkt_status) 16 (net_msg '', status='' s);
     let s = net_nl s;
     s \<leftarrow> (if pkt_status AND 0x01 \<noteq> 0 \<and> pkt_len \<ge> 60 \<and> pkt_len \<le> 1518
           then eth_rx P M (drop 4 b) (pkt_len - 4) s
           else Some (net_line ''[RTL8139] Bad packet'' s));
     let s = s\<lparr>current_rx_offset := rx_next off pkt_len\<rparr>;
     Some (nic_outw P REG_CAPR (rx_next off pkt_len - 16) s)
   }"

partial_function (option) rx_loop :: "'d port_ops \<Rightarrow> 'd dma_ops \<Rightarrow> 'd net_state \<Rightarrow> 'd net_state option" where
  "rx_loop P M s =
     (case inb P (ucast (io_base s + REG_COMMAND)) (n_dev s) of (cmd, d) \<Rightarrow>
        let s = set_dev d s in
        if cmd AND 0x01 \<noteq> 0 then Some s
        else if current_rx_offset s \<ge> 8192 then
          Some (nic_outw P REG_CAPR 0xFFF0 ((net_line ''[RTL8139] RX overflow, resetting'' s)\<lparr>current_rx_offset := 0\<rparr>))
        else Option.bind (rx_packet P M s) (\<lambda>s. rx_loop P M s))"

definition rtl8139_irq_handler :: "'d port_ops \<Rightarrow> 'd dma_ops \<Rightarrow> 'd net_state \<Rightarrow> 'd net_state option" where
  "rtl8139_irq_handler P M s =
     (if io_base s = 0 then Some s
      else case inw P (ucast (io_base s + REG_ISR)) (n_dev s) of (status, d) \<Rightarrow> do {
        s \<leftarrow> put_num (ucast status) 16 (net_msg ''[RTL8139] IRQ: status='' (set_dev d s));
        let s = net_nl s;
        s \<leftarrow> (if status AND 0x0001 \<noteq> 0 then rx_loop P M (net_line ''[RTL8139] RX packet(s)'' s) else Some s);
        let s = (if status AND 0x0004 \<noteq> 0 then net_line ''[RTL8139] TX complete'' s else s);
        let s = (if status AND 0x0008 \<noteq> 0 then net_line ''[RTL8139] TX error'' s else s);
        let s = (if status AND 0x0002 \<noteq> 0 then net_line ''[RTL8139] RX error'' s else s);
        Some (nic_outw P REG_ISR status s)
      })"

section \<open>Sending\<close>

text \<open>The frame an IP packet becomes.\<close>

definition ip_frame :: "bytes \<Rightarrow> 'd net_state \<Rightarrow> u32 \<Rightarrow> u8 \<Rightarrow> bytes \<Rightarrow> u16 \<Rightarrow> bytes" where
  "ip_frame mac s dst proto payload len =
     eth_frame mac (local_mac s) ETH_TYPE_IP (the (ip_datagram (ip_local_ip s) dst proto payload len))"

definition queue_slot :: "'d net_state \<Rightarrow> nat option" where
  "queue_slot s = first_index (\<lambda>q. \<not> qp_valid q) (arp_queue s)"

definition new_packet :: "u32 \<Rightarrow> u8 \<Rightarrow> bytes \<Rightarrow> u16 \<Rightarrow> 'd net_state \<Rightarrow> nat \<Rightarrow> queued_packet_t" where
  "new_packet dst proto payload len s slot =
     \<lparr>qp_dst = dst, qp_proto = proto,
      qp_payload = take (unat len) payload @ drop (unat len) (qp_payload (arp_queue s ! slot)),
      qp_len = len, qp_timestamp = n_ticks s, qp_valid = True\<rparr>"

lemma ip_datagram_take:
  "unat len \<le> length payload \<Longrightarrow>
   ip_datagram src dst proto (take (unat len) payload @ r) len = ip_datagram src dst proto payload len"
  by (simp add: ip_datagram_def load_def)

lemma packet_frame_new:
  "unat len \<le> length payload \<Longrightarrow>
   packet_frame mac s (new_packet dst proto payload len s' slot) = ip_frame mac s dst proto payload len"
  by (simp add: packet_frame_def ip_frame_def new_packet_def ip_datagram_take)

lemma filter_release: "filter (waits_for dst) (map (release dst) qs) = []"
  by (induction qs) (simp_all add: release_def waits_for_def)

lemma count_valid_update:
  "i < length qs \<Longrightarrow> \<not> qp_valid (qs ! i) \<Longrightarrow> qp_valid q \<Longrightarrow>
   length (filter qp_valid (qs[i := q])) = Suc (length (filter qp_valid qs))"
proof (induction qs arbitrary: i)
  case (Cons a qs)
  then show ?case by (cases i) auto
qed simp

lemma queue_packet_ok:
  assumes q: "queue_ok s" and slot: "queue_slot s = Some i"
    and len: "unat len \<le> 1400" "unat len \<le> length payload"
  obtains s' where "queue_packet i dst proto payload len s = Some s'" and "queue_ok s'"
    and "s' = s\<lparr>arp_queue := (arp_queue s)[i := new_packet dst proto payload len s i], arp_pending := arp_pending s + 1\<rparr>"
proof -
  let ?p = "new_packet dst proto payload len s i"
  let ?s' = "s\<lparr>arp_queue := (arp_queue s)[i := ?p], arp_pending := arp_pending s + 1\<rparr>"
  have i: "i < length (arp_queue s)" "\<not> qp_valid (arp_queue s ! i)"
    using first_index_Some[OF slot[unfolded queue_slot_def]] by auto
  then have pl: "length (qp_payload (arp_queue s ! i)) = 1400"
    using q nth_mem[OF i(1)] by (auto simp: queue_ok_def packet_ok_def)
  have "packet_ok ?p" using len pl by (simp add: packet_ok_def new_packet_def)
  then have "\<forall>q \<in> set ((arp_queue s)[i := ?p]). packet_ok q"
    using q set_update_subset_insert[of "arp_queue s" i ?p] by (auto simp: queue_ok_def)
  moreover have "length (filter qp_valid ((arp_queue s)[i := ?p])) = Suc (length (filter qp_valid (arp_queue s)))"
    using i by (intro count_valid_update) (simp_all add: new_packet_def)
  ultimately have "queue_ok ?s'" using q by (simp add: queue_ok_def)
  moreover have "queue_packet i dst proto payload len s = Some ?s'"
    using len pl by (simp add: queue_packet_def load_def store_def new_packet_def get_tick_count_def min_def)
  ultimately show ?thesis using that by blast
qed

context rtl_nic
begin

lemma ip_tx_known:
  assumes r: "net_ready ok base txa s" and dst: "dst \<noteq> 0x80000000" and m: "arp_map (arp_table s) dst = Some mac"
    and len: "unat len \<le> 1480" "unat len \<le> length payload"
  obtains s' where "ip_tx P M dst proto payload len s = Some (1, s')" and "net_ready ok base txa s'" and "same_net s s'"
    and "wire (n_dev s') = wire (n_dev s) @ [ip_frame mac s dst proto payload len]"
proof -
  obtain h where h: "ip_datagram (ip_local_ip s) dst proto payload len = Some (h @ take (unat len) payload)" "length h = 20"
    using ip_datagram_ok[OF len(2,1), of "ip_local_ip s" dst proto] by blast
  let ?buf = "h @ take (unat len) payload"
  obtain t where t: "arp_lookup dst s = Some (Some mac, net_puts t s)" using arp_lookup_ok[OF dst, of s] m by auto
  have n: "unat (20 + len) = 20 + unat len" using len(1) by (simp add: unat_add_lem[THEN iffD1])
  have lm: "length mac = 6" using arp_map_Some[OF m] r by (auto simp: net_ready_def arp_ok_def)
  have r': "nic_ready ok base txa (net_puts t s)" "length (local_mac (net_puts t s)) = 6" "length (local_mac s) = 6"
    using r by (simp_all add: net_ready_def)
  have l: "20 + len \<le> 1500" "unat (20 + len) \<le> length ?buf" using n len h(2) by (simp_all add: word_le_nat_alt)
  obtain s1 where s1: "eth_tx P M mac ETH_TYPE_IP ?buf (20 + len) (net_puts t s) = Some s1" "nic_ready ok base txa s1"
    "same_net (net_puts t s) s1"
    "wire (n_dev s1) = wire (n_dev s) @ [eth_frame mac (local_mac s) ETH_TYPE_IP (take (unat (20 + len)) ?buf)]"
    using eth_tx_sends[OF r'(1) lm r'(2) l, of ETH_TYPE_IP] by auto
  have sn: "same_net s s1" using same_net_trans[OF same_net_puts s1(3)] .
  show ?thesis
  proof (rule that[of "net_line ''[IP] Packet sent successfully'' s1"])
    show "net_ready ok base txa (net_line ''[IP] Packet sent successfully'' s1)"
      using net_ready_same[OF sn s1(2) r] by (simp add: net_puts_fold)
    show "same_net s (net_line ''[IP] Packet sent successfully'' s1)"
      using same_net_trans[OF sn same_net_puts] by (simp add: net_puts_fold)
    show "wire (n_dev (net_line ''[IP] Packet sent successfully'' s1)) = wire (n_dev s) @ [ip_frame mac s dst proto payload len]"
      using s1(4) n h len by (simp add: net_puts_fold ip_frame_def)
  qed (use h t s1(1) in \<open>simp add: ip_tx_def\<close>)
qed

lemma ip_tx_full:
  assumes dst: "dst \<noteq> 0x80000000" and m: "arp_map (arp_table s) dst = None" and q: "queue_slot s = None"
    and len: "unat len \<le> 1480" "unat len \<le> length payload"
  obtains t where "ip_tx P M dst proto payload len s = Some (- 1, net_puts t s)"
proof -
  obtain h where h: "ip_datagram (ip_local_ip s) dst proto payload len = Some h"
    using ip_datagram_ok[OF len(2,1), of "ip_local_ip s" dst proto] by blast
  obtain t where t: "arp_lookup dst s = Some (None, net_puts t s)" using arp_lookup_ok[OF dst, of s] m by auto
  show ?thesis using that h t q by (simp add: ip_tx_def net_puts_fold Let_def queue_slot_def)
qed

lemma ip_tx_unknown:
  assumes r: "net_ready ok base txa s" and dst: "dst \<noteq> 0x80000000" and m: "arp_map (arp_table s) dst = None"
    and q: "queue_slot s = Some i" and len: "unat len \<le> 1400" "unat len \<le> length payload"
  obtains s' where "ip_tx P M dst proto payload len s = Some (0, s')" and "net_ready ok base txa s'"
    and "same_stack s s'" and "arp_queue s' = (arp_queue s)[i := new_packet dst proto payload len s i]"
    and "wire (n_dev s') = wire (n_dev s) @
      [eth_frame (replicate 6 255) (local_mac s) ETH_TYPE_ARP (arp_question s dst)]"
proof -
  have l: "unat len \<le> 1480" using len(1) by simp
  obtain h where h: "ip_datagram (ip_local_ip s) dst proto payload len = Some h"
    using ip_datagram_ok[OF len(2) l, of "ip_local_ip s" dst proto] by blast
  obtain t where t: "arp_lookup dst s = Some (None, net_puts t s)" using arp_lookup_ok[OF dst, of s] m by auto
  obtain u where u: "net_line ''[IP] No ARP entry, queueing packet and sending ARP request'' (net_puts t s) = net_puts u s"
    by (simp add: net_puts_fold)
  let ?s1 = "net_puts u s"
  have np: "new_packet dst proto payload len ?s1 i = new_packet dst proto payload len s i"
    by (simp add: new_packet_def)
  have "queue_ok ?s1" "queue_slot ?s1 = Some i" using r q by (simp_all add: net_ready_def queue_ok_def queue_slot_def)
  then obtain s2 where s2: "queue_packet i dst proto payload len ?s1 = Some s2" "queue_ok s2"
    "s2 = ?s1\<lparr>arp_queue := (arp_queue s)[i := new_packet dst proto payload len s i], arp_pending := arp_pending s + 1\<rparr>"
    using queue_packet_ok[of ?s1 i len payload dst proto] len np by (metis net_puts_fields(6,7))
  have f: "n_dev s2 = n_dev s" "local_mac s2 = local_mac s" "arp_local_ip s2 = arp_local_ip s"
    "arp_queue s2 = (arp_queue s)[i := new_packet dst proto payload len s i]" "arp_table s2 = arp_table s"
    using s2(3) by simp_all
  have r2: "net_ready ok base txa s2" using r s2(2) f by (simp add: net_ready_def s2(3) nic_ready_def net_puts_def)
  obtain s3 where s3: "arp_request P M dst s2 = Some s3" "net_ready ok base txa s3" "same_net s2 s3"
    "wire (n_dev s3) = wire (n_dev s2) @ [eth_frame (replicate 6 255) (local_mac s2) ETH_TYPE_ARP (arp_question s2 dst)]"
    by (rule arp_request_ok[OF r2 dst]) (rule that)
  have aq: "arp_question s2 dst = arp_question s dst" using f by (simp add: arp_question_def)
  have "same_stack s s2"
    unfolding s2(3) by (intro same_stack_queue same_net_stack same_net_puts)
  then have "same_stack s s3" using same_stack_trans same_net_stack[OF s3(3)] by blast
  moreover have "ip_tx P M dst proto payload len s = Some (0, s3)"
    using h t u q s2(1) s3(1) by (simp add: ip_tx_def Let_def queue_slot_def)
  ultimately show ?thesis using that[of s3] s3 f aq same_net_fields(2)[OF s3(3)] by simp
qed

end

section \<open>Properties of sending\<close>

text \<open>\<open>ip_tx\<close> has exactly three outcomes.  To a known address it sends one frame at once and returns 1;
  to an unknown one it stores the packet in the first free slot, broadcasts one request for the address
  and returns 0; with the queue full it returns -1, sends nothing and keeps every waiting packet.\<close>

theorem ip_tx_outcomes:
  assumes "rtl_nic P M wire ram ok base txa" and "net_ready ok base txa s" and "dst \<noteq> 0x80000000"
    and "unat len \<le> 1400" and "unat len \<le> length payload"
  shows "\<exists>r s'. ip_tx P M dst proto payload len s = Some (r, s') \<and> net_ready ok base txa s' \<and>
    arp_table s' = arp_table s \<and>
    (case arp_map (arp_table s) dst of
       Some mac \<Rightarrow> r = 1 \<and> arp_queue s' = arp_queue s \<and>
         wire (n_dev s') = wire (n_dev s) @ [ip_frame mac s dst proto payload len]
     | None \<Rightarrow>
         (case queue_slot s of
            None \<Rightarrow> r = - 1 \<and> arp_queue s' = arp_queue s \<and> wire (n_dev s') = wire (n_dev s)
          | Some i \<Rightarrow> r = 0 \<and> arp_queue s' = (arp_queue s)[i := new_packet dst proto payload len s i] \<and>
              wire (n_dev s') = wire (n_dev s) @
                [eth_frame (replicate 6 255) (local_mac s) ETH_TYPE_ARP (arp_question s dst)]))"
proof (cases "arp_map (arp_table s) dst")
  case (Some mac)
  have l: "unat len \<le> 1480" using assms(4) by simp
  show ?thesis
    by (rule rtl_nic.ip_tx_known[OF assms(1-3) Some l assms(5), of proto])
       (use Some same_net_fields(1,2) in fastforce)
next
  case None
  show ?thesis
  proof (cases "queue_slot s")
    case none: None
    have l: "unat len \<le> 1480" using assms(4) by simp
    show ?thesis
      by (rule rtl_nic.ip_tx_full[OF assms(1,3) None none l assms(5), of proto])
         (use None none assms(2) in simp)
  next
    case (Some i)
    show ?thesis
      by (rule rtl_nic.ip_tx_unknown[OF assms(1-3) None Some assms(4,5), of proto])
         (use None Some same_stack_fields(1) in fastforce)
  qed
qed

theorem ip_tx_outcomes_witness:
  "\<exists>s'. ip_tx (sim_ports sim_base) sim_dma 0x0101A8C0 1 [8, 0, 0, 0] 4 sim_net = Some (0, s') \<and>
    length (sc_wire (n_dev s')) = 1"
proof -
  have "arp_map (arp_table sim_net) 0x0101A8C0 = None" by (simp add: arp_map_None sim_net_def)
  moreover have "queue_slot sim_net = Some 0" by (simp add: queue_slot_def sim_net_def eval_nat_numeral)
  moreover have "sc_wire (n_dev sim_net) = []" by (simp add: sim_net_def)
  ultimately show ?thesis
    using ip_tx_outcomes[OF sim.rtl_nic_axioms sim_net_net_ready, where dst = "0x0101A8C0" and len = 4
        and payload = "[8, 0, 0, 0]" and proto = 1] by auto
qed

text \<open>C14. A packet that \<open>ip_tx\<close> had to queue is delivered: when the neighbour's request or reply arrives,
  the frame with this packet is put on the wire, addressed to the neighbour, and nothing for the
  neighbour stays in the queue.\<close>

theorem queued_packet_delivered:
  assumes hw: "rtl_nic P M wire ram ok base txa" and r: "net_ready ok base txa s" and dst: "dst \<noteq> 0x80000000"
    and len: "unat len \<le> 1400" "unat len \<le> length payload"
    and unknown: "arp_map (arp_table s) dst = None" and slot: "queue_slot s = Some i"
    and pkt: "28 \<le> length pkt" "a = arp_pkt_of_bytes (take 28 pkt)"
      "bswap16 (ap_oper a) = 1 \<or> bswap16 (ap_oper a) = 2" "ap_spa a = dst"
  shows "\<exists>s1 s2 fs. ip_tx P M dst proto payload len s = Some (0, s1) \<and> arp_rx P M pkt s1 = Some s2 \<and>
    wire (n_dev s2) = wire (n_dev s1) @ fs \<and> ip_frame (ap_sha a) s dst proto payload len \<in> set fs \<and>
    filter (waits_for dst) (arp_queue s2) = []"
proof -
  let ?q = "new_packet dst proto payload len s i"
  obtain s1 where s1: "ip_tx P M dst proto payload len s = Some (0, s1)" "net_ready ok base txa s1" "same_stack s s1"
    "arp_queue s1 = (arp_queue s)[i := ?q]"
    by (rule rtl_nic.ip_tx_unknown[OF hw r dst unknown slot len, of proto]) (rule that)
  have none: "arp_map (arp_table s1) dst = None" using unknown same_stack_fields(1)[OF s1(3)] by simp
  have "ap_spa (arp_pkt_of_bytes (take 28 pkt)) \<noteq> 0x80000000" using pkt dst by simp
  note rx = rtl_nic.arp_rx_ok[OF hw s1(2) pkt(1) pkt(3)[unfolded pkt(2)] this, folded pkt(2), unfolded pkt(4)]
  obtain s2 where s2: "arp_rx P M pkt s1 = Some s2" "arp_queue s2 = (if arp_map (arp_table s1) dst = None
      then map (release dst) (arp_queue s1) else arp_queue s1)"
    "wire (n_dev s2) = wire (n_dev s1) @
      (if bswap16 (ap_oper a) = 1 \<and> ap_tpa a = arp_local_ip s1
       then [eth_frame (ap_sha a) (local_mac s1) ETH_TYPE_ARP (arp_answer s1 a)] else []) @
      (if arp_map (arp_table s1) dst = None
       then map (packet_frame (ap_sha a) s1) (filter (waits_for dst) (arp_queue s1)) else [])"
    by (rule rx) (rule that)
  have "i < length (arp_queue s)" using first_index_Some[OF slot[unfolded queue_slot_def]] by simp
  then have "?q \<in> set (arp_queue s1)" using s1(4) by (simp add: set_update_memI)
  moreover have "waits_for dst ?q" by (simp add: waits_for_def new_packet_def)
  ultimately have "?q \<in> set (filter (waits_for dst) (arp_queue s1))" by simp
  then have "packet_frame (ap_sha a) s1 ?q \<in> set (map (packet_frame (ap_sha a) s1) (filter (waits_for dst) (arp_queue s1)))"
    unfolding set_map by (rule imageI)
  moreover have "packet_frame (ap_sha a) s1 ?q = ip_frame (ap_sha a) s dst proto payload len"
    unfolding packet_frame_stack[OF s1(3)] by (rule packet_frame_new[OF len(2)])
  ultimately have "ip_frame (ap_sha a) s dst proto payload len \<in>
      set (map (packet_frame (ap_sha a) s1) (filter (waits_for dst) (arp_queue s1)))"
    "filter (waits_for dst) (arp_queue s2) = []"
    using s2(2) none filter_release by metis+
  then show ?thesis
    using s1(1) s2(1,3) none
    by (intro exI[of _ s1] exI[of _ s2] exI[of _ "drop (length (wire (n_dev s1))) (wire (n_dev s2))"]) simp
qed

theorem queued_packet_delivered_witness:
  "\<exists>s1 s2 fs. ip_tx (sim_ports sim_base) sim_dma 0x0101A8C0 1 [8, 0, 0, 0] 4 sim_net = Some (0, s1) \<and>
    arp_rx (sim_ports sim_base) sim_dma sim_request s1 = Some s2 \<and> sc_wire (n_dev s2) = sc_wire (n_dev s1) @ fs \<and>
    ip_frame [1, 2, 3, 4, 5, 6] sim_net 0x0101A8C0 1 [8, 0, 0, 0] 4 \<in> set fs"
proof -
  let ?a = "arp_pkt_of_bytes (take 28 sim_request)"
  have a: "28 \<le> length sim_request" "bswap16 (ap_oper ?a) = 1 \<or> bswap16 (ap_oper ?a) = 2" "ap_spa ?a = 0x0101A8C0"
    "ap_sha ?a = [1, 2, 3, 4, 5, 6]"
    by code_simp+
  have "arp_map (arp_table sim_net) 0x0101A8C0 = None" by (simp add: arp_map_None sim_net_def)
  moreover have "queue_slot sim_net = Some 0" by (simp add: queue_slot_def sim_net_def eval_nat_numeral)
  ultimately show ?thesis
    using queued_packet_delivered[OF sim.rtl_nic_axioms sim_net_net_ready _ _ _ _ _ a(1) refl a(2,3), of 4 "[8, 0, 0, 0]" 0 1]
    unfolding a(4) by auto
qed

section \<open>The receive path\<close>

text \<open>A card that also receives: \<open>pending\<close> is the number of packets in its receive buffer, which is at
  \<open>rxa\<close> and apart from the transmit buffers; the command register reports an empty buffer, and
  writing \<open>CAPR\<close> releases the first packet.  Packets that arrive during the handler are part of
  \<open>pending\<close> from the start.\<close>

locale rtl_nic_rx = rtl_nic P M wire ram ok base txa
  for P :: "'d port_ops" and M :: "'d dma_ops" and wire ram ok base txa +
  fixes pending :: "'d \<Rightarrow> nat" and rxa :: u32
  assumes dma: "ok d \<Longrightarrow> dma_load M a n d = ram_get a n (ram d)"
    and apart: "j < 4 \<Longrightarrow> k < 1792 \<Longrightarrow> m < RX_BUFFER_SIZE \<Longrightarrow> txa ! j + of_nat k \<noteq> rxa + of_nat m"
    and command: "ok d \<Longrightarrow> inb P (ucast (base + REG_COMMAND)) d = (c, d') \<Longrightarrow>
      ok d' \<and> ram d' = ram d \<and> pending d' = pending d \<and> (c AND 1 \<noteq> 0 \<longleftrightarrow> pending d = 0)"
    and capr: "ok d \<Longrightarrow> d' = outw P (ucast (base + REG_CAPR)) v d \<Longrightarrow>
      ok d' \<and> ram d' = ram d \<and> pending d' = pending d - 1"
    and isr_read: "ok d \<Longrightarrow> inw P (ucast (base + REG_ISR)) d = (st, d') \<Longrightarrow>
      ok d' \<and> ram d' = ram d \<and> pending d' = pending d"
    and isr_write: "ok d \<Longrightarrow> d' = outw P (ucast (base + REG_ISR)) st d \<Longrightarrow>
      ok d' \<and> ram d' = ram d \<and> pending d' = pending d"
    and sending: "ok d \<Longrightarrow> pending (dma_store M a bs d) = pending d"
      "ok d \<Longrightarrow> i < 4 \<Longrightarrow> pending (snd (inl P (tx_status_port base i) d)) = pending d"
      "ok d \<Longrightarrow> i < 4 \<Longrightarrow> pending (outl P (tx_status_port base i) w d) = pending d"

text \<open>A frame whose processing prints only numbers \<open>itoa\<close> can print.\<close>

definition frame_ok :: "bytes \<Rightarrow> bool" where
  "frame_ok data \<longleftrightarrow> (bswap16 (get16 data 12) = ETH_TYPE_ARP \<longrightarrow> get32 data 28 \<noteq> 0x80000000)"

definition rtt_ok :: "'d net_state \<Rightarrow> bool" where
  "rtt_ok s \<longleftrightarrow> n_ticks s - ping_sent_time s \<noteq> 0x80000000"

lemma rx_vars_puts [simp]:
  "rx_vars (net_puts t s) = rx_vars s" "rx_vars (s\<lparr>ping_waiting := w\<rparr>) = rx_vars s"
  by (simp_all add: rx_vars_def net_puts_def)

lemma rtt_ok_puts [simp]: "rtt_ok (net_puts t s) = rtt_ok s"
  by (simp add: rtt_ok_def net_puts_def)

lemma icmp_rx_ok:
  assumes "8 \<le> length pkt" and "rtt_ok s"
  shows "\<exists>w t. icmp_rx pkt len s = Some ((net_puts t s)\<lparr>ping_waiting := w\<rparr>)"
proof -
  let ?h = "icmp_hdr_of_bytes (take 8 pkt)" and ?s = "s\<lparr>ping_waiting := False\<rparr>"
  obtain t where t: "put_num (ucast (ic_seq ?h)) 10 (net_msg ''Reply from host: seq='' ?s) = Some (net_puts t ?s)"
    using put_num_msg(2)[OF printable_u16[of 10 "ic_seq ?h"], of "''Reply from host: seq=''" ?s] by auto
  obtain u where u: "put_num (n_ticks s - ping_sent_time s) 10 (net_msg '' time='' (net_puts t ?s)) = Some (net_puts u ?s)"
    using put_num_msg(3)[of "n_ticks s - ping_sent_time s" 10 "'' time=''" t ?s] assms(2)
    by (auto simp: rtt_ok_def printable_def)
  have idle: "s = (net_puts [] s)\<lparr>ping_waiting := ping_waiting s\<rparr>" by (simp add: net_puts_def)
  have puts: "net_puts v ?s = (net_puts v s)\<lparr>ping_waiting := False\<rparr>" for v by (simp add: net_puts_def)
  have ld: "load pkt 0 8 = Some (take 8 pkt)" using assms(1) by (simp add: load_def)
  show ?thesis
  proof (cases "len < 8 \<or> \<not> (ic_type ?h = 0 \<and> ping_waiting s)")
    case True
    then have "icmp_rx pkt len s = Some s" using ld by (auto simp: icmp_rx_def)
    then show ?thesis using idle by metis
  next
    case False
    then have "icmp_rx pkt len s = Some (net_line ''ms'' (net_puts u ?s))"
      using ld t u by (simp add: icmp_rx_def Let_def get_tick_count_def)
    then show ?thesis unfolding net_puts_fold unfolding puts by blast
  qed
qed

lemma ip_rx_ok:
  assumes "28 \<le> length pkt" and "rtt_ok s"
  shows "\<exists>w t. ip_rx pkt len s = Some ((net_puts t s)\<lparr>ping_waiting := w\<rparr>)"
proof -
  let ?p = "take 20 pkt"
  obtain t where t: "put_num (ucast (get8 ?p 9)) 10 (net_msg ''[IP] Received packet, proto='' s) = Some (net_puts t s)"
    using put_num_msg(2)[OF printable_u8[of 10 "get8 ?p 9"], of "''[IP] Received packet, proto=''" s] by auto
  have "rtt_ok (net_nl (net_puts t s))" using assms(2) by (simp add: net_puts_fold)
  then obtain w u where i: "icmp_rx (drop 20 pkt) (len - 20) (net_nl (net_puts t s)) =
      Some ((net_puts u (net_nl (net_puts t s)))\<lparr>ping_waiting := w\<rparr>)"
    using icmp_rx_ok[of "drop 20 pkt"] assms(1) by fastforce
  have same: "net_puts v s = (net_puts v s)\<lparr>ping_waiting := ping_waiting s\<rparr>" "s = (net_puts [] s)\<lparr>ping_waiting := ping_waiting s\<rparr>" for v
    by (simp_all add: net_puts_def)
  have ld: "load pkt 0 20 = Some ?p" using assms(1) by (simp add: load_def)
  show ?thesis
  proof (cases "len < 20 \<or> get8 ?p 9 \<noteq> 1")
    case True
    then have "ip_rx pkt len s = Some s \<or> ip_rx pkt len s = Some (net_nl (net_puts t s))"
      using ld t by (auto simp: ip_rx_def Let_def)
    then show ?thesis using same unfolding net_puts_fold by metis
  next
    case False
    then have "ip_rx pkt len s = Some ((net_puts u (net_nl (net_puts t s)))\<lparr>ping_waiting := w\<rparr>)"
      using ld t i by (simp add: ip_rx_def Let_def)
    then show ?thesis unfolding net_puts_fold by blast
  qed
qed

lemma net_ready_waiting: "net_ready ok base txa (s\<lparr>ping_waiting := w\<rparr>) = net_ready ok base txa s"
  by (simp add: net_ready_def nic_ready_def queue_ok_def)

context rtl_nic
begin

lemma eth_rx_ok:
  assumes r: "net_ready ok base txa s" and l: "42 \<le> length data" and f: "frame_ok data" and t: "rtt_ok s"
  obtains s' where "eth_rx P M data len s = Some s'" and "net_ready ok base txa s'" and "rx_vars s' = rx_vars s"
proof -
  have ld: "load data 0 14 = Some (take 14 data)" using l by (simp add: load_def)
  have ty: "eh_type (eth_hdr_of_bytes (take 14 data)) = get16 data 12"
    by (simp add: eth_hdr_of_bytes_def get16_def)
  consider "bswap16 (get16 data 12) = ETH_TYPE_ARP" | "bswap16 (get16 data 12) = ETH_TYPE_IP" "ETH_TYPE_IP \<noteq> ETH_TYPE_ARP"
    | "bswap16 (get16 data 12) \<noteq> ETH_TYPE_ARP" "bswap16 (get16 data 12) \<noteq> ETH_TYPE_IP"
    by (auto simp: ETH_TYPE_ARP_def ETH_TYPE_IP_def)
  then show ?thesis
  proof cases
    case 1
    let ?a = "arp_pkt_of_bytes (take 28 (drop 14 data))"
    have e: "eth_rx P M data len s = arp_rx P M (drop 14 data) s"
      using ld ty 1 by (simp add: eth_rx_def)
    have l': "28 \<le> length (drop 14 data)" using l by simp
    have spa: "ap_spa ?a \<noteq> 0x80000000"
      using f 1 l by (simp add: frame_ok_def arp_pkt_of_bytes_def get32_def)
    show ?thesis
    proof (cases "bswap16 (ap_oper ?a) = 1 \<or> bswap16 (ap_oper ?a) = 2")
      case True
      obtain s' where "arp_rx P M (drop 14 data) s = Some s'" "net_ready ok base txa s'" "rx_vars s' = rx_vars s"
        by (rule arp_rx_ok[OF r l' True spa]) (rule that)
      then show ?thesis using that[of s'] e by simp
    next
      case False
      then have "arp_rx P M (drop 14 data) s = Some s"
        using l' by (simp add: arp_rx_def load_def Let_def)
      then show ?thesis using that[of s] e r by simp
    qed
  next
    case 2
    obtain w u where i: "ip_rx (drop 14 data) (len - 14) s = Some ((net_puts u s)\<lparr>ping_waiting := w\<rparr>)"
      using ip_rx_ok[of "drop 14 data" s "len - 14"] l t by fastforce
    have "eth_rx P M data len s = Some ((net_puts u s)\<lparr>ping_waiting := w\<rparr>)"
      using ld ty 2 i by (simp add: eth_rx_def)
    then show ?thesis
      by (rule that) (use r in \<open>simp_all add: net_ready_waiting rx_vars_puts\<close>)
  next
    case 3
    then have "eth_rx P M data len s = Some s" using ld ty by (simp add: eth_rx_def)
    then show ?thesis using that r by blast
  qed
qed

end

section \<open>The receive loop\<close>

text \<open>Every packet the card may present, wherever the driver looks for it, can be processed.\<close>

definition rx_frames_ok :: "u32 \<Rightarrow> (u32 \<Rightarrow> u8) \<Rightarrow> bool" where
  "rx_frames_ok rxa m \<longleftrightarrow> (\<forall>off < 8192. frame_ok (drop (off + 4) (ram_get rxa RX_BUFFER_SIZE m)))"

definition rx_ready :: "('d \<Rightarrow> bool) \<Rightarrow> u32 \<Rightarrow> u32 list \<Rightarrow> ('d \<Rightarrow> u32 \<Rightarrow> u8) \<Rightarrow> u32 \<Rightarrow> 'd net_state \<Rightarrow> bool" where
  "rx_ready ok base txa ram rxa s \<longleftrightarrow> net_ready ok base txa s \<and> rx_buffer_phys s = rxa \<and>
     rx_frames_ok rxa (ram (n_dev s)) \<and> rtt_ok s"

lemma ram_get_drop: "off \<le> n \<Longrightarrow> ram_get (a + of_nat off) (n - off) m = drop off (ram_get a n m)"
proof (rule nth_equalityI)
  fix i assume "off \<le> n" "i < length (ram_get (a + of_nat off) (n - off) m)"
  then have "i < n - off" "off + i < n" by simp_all
  then show "ram_get (a + of_nat off) (n - off) m ! i = drop off (ram_get a n m) ! i"
    by (simp add: ram_get_def add.assoc)
qed simp

context rtl_nic_rx
begin

text \<open>Sending never writes the receive buffer and never changes what is pending: the transmit laws
  also hold of the card with its receive side frozen.\<close>

definition frozen :: "nat \<Rightarrow> bytes \<Rightarrow> 'd \<Rightarrow> bool" where
  "frozen n R d \<longleftrightarrow> ok d \<and> pending d = n \<and> ram_get rxa RX_BUFFER_SIZE (ram d) = R"

lemma ram_put_apart:
  assumes "j < 4" and "off + length bs \<le> 1792"
  shows "ram_get rxa RX_BUFFER_SIZE (ram_put (txa ! j + of_nat off) bs m) = ram_get rxa RX_BUFFER_SIZE m"
proof (rule nth_equalityI)
  fix i assume "i < length (ram_get rxa RX_BUFFER_SIZE (ram_put (txa ! j + of_nat off) bs m))"
  then have i: "i < RX_BUFFER_SIZE" by simp
  let ?k = "unat (rxa + of_nat i - (txa ! j + of_nat off))"
  have "\<not> ?k < length bs"
  proof
    assume k: "?k < length bs"
    have "txa ! j + of_nat (off + ?k) = rxa + of_nat i" by simp
    moreover have "off + ?k < 1792" using k assms(2) by linarith
    ultimately show False using apart[OF assms(1) _ i] by blast
  qed
  then show "ram_get rxa RX_BUFFER_SIZE (ram_put (txa ! j + of_nat off) bs m) ! i = ram_get rxa RX_BUFFER_SIZE m ! i"
    using i by (simp add: ram_get_def ram_put_def)
qed simp

lemma frozen_nic: "rtl_nic P M wire ram (frozen n R) base txa"
proof
  show "base \<noteq> 0" "length txa = 4" by (fact card)+
next
  fix d j off a and bs :: bytes
  assume d: "frozen n R d" and j: "j < 4" "off + length bs \<le> 1792" "a = txa ! j + of_nat off"
  then have "ok d" by (simp add: frozen_def)
  then show "frozen n R (dma_store M a bs d) \<and> wire (dma_store M a bs d) = wire d \<and> ram (dma_store M a bs d) = ram_put a bs (ram d)"
    using mem_store[OF _ j] d sending(1) ram_put_apart[OF j(1,2)] j(3) by (simp add: frozen_def)
next
  fix d d' and i v :: u32
  assume d: "frozen n R d" and i: "i < 4" "inl P (tx_status_port base i) d = (v, d')"
  then have "ok d" by (simp add: frozen_def)
  then show "v < 0x80000000 \<and> frozen n R d' \<and> wire d' = wire d \<and> ram d' = ram d"
    using status_read[OF _ i] sending(2)[OF _ i(1)] i(2) d by (fastforce simp: frozen_def)
next
  fix d and i w :: u32
  assume d: "frozen n R d" and i: "i < 4" "w \<le> 1792"
  then have "ok d" by (simp add: frozen_def)
  then show "frozen n R (outl P (tx_status_port base i) w d) \<and> ram (outl P (tx_status_port base i) w d) = ram d \<and>
    wire (outl P (tx_status_port base i) w d) = wire d @ [ram_get (txa ! unat i) (unat w) (ram d)]"
    using transmit[OF _ i] sending(3)[OF _ i(1)] d by (simp add: frozen_def)
qed

lemma frozen_ready:
  "net_ready (frozen n R) base txa s \<longleftrightarrow> net_ready ok base txa s \<and> pending (n_dev s) = n \<and>
     ram_get rxa RX_BUFFER_SIZE (ram (n_dev s)) = R"
  by (auto simp: net_ready_def nic_ready_def frozen_def)

lemma net_ready_dev: "net_ready ok base txa s \<Longrightarrow> ok d \<Longrightarrow> net_ready ok base txa (set_dev d s)"
  by (simp add: net_ready_def nic_ready_def queue_ok_def set_dev_def)

lemma rx_packet_ok:
  assumes r: "rx_ready ok base txa ram rxa s" and off: "current_rx_offset s < 8192"
  obtains s' where "rx_packet P M s = Some s'" and "rx_ready ok base txa ram rxa s'"
    and "pending (n_dev s') = pending (n_dev s) - 1"
proof -
  let ?R = "ram_get rxa RX_BUFFER_SIZE (ram (n_dev s))" and ?off = "unat (current_rx_offset s)"
  have n: "net_ready ok base txa s" "rx_buffer_phys s = rxa" "rx_frames_ok rxa (ram (n_dev s))" "rtt_ok s" "ok (n_dev s)"
    using r by (auto simp: rx_ready_def net_ready_def nic_ready_def)
  have o8: "?off < 8192" using off by (simp add: word_less_nat_alt)
  then have o: "?off \<le> RX_BUFFER_SIZE" "?off + 46 \<le> RX_BUFFER_SIZE" by (simp_all add: RX_BUFFER_SIZE_def)
  let ?b = "drop ?off ?R"
  have b: "rx_bytes M s ?off = Some ?b"
    using o(1) n(2) dma[OF n(5)] ram_get_drop[OF o(1)] by (simp add: rx_bytes_def)
  let ?h = "take 4 ?b" let ?st = "get16 ?h 0" and ?len = "get16 ?h 2"
  have h: "load ?b 0 4 = Some ?h" using o(2) by (simp add: load_def)
  obtain t where t: "put_num (ucast ?len) 10 (net_msg ''[RTL8139] RX: len='' s) = Some (net_puts t s)"
    using put_num_msg(2)[OF printable_u16[of 10 ?len], of "''[RTL8139] RX: len=''" s] by auto
  obtain u where u: "put_num (ucast ?st) 16 (net_msg '', status='' (net_puts t s)) = Some (net_puts u s)"
    using put_num_msg(3)[OF printable_u16[of 16 ?st], of "'', status=''" t s] by auto
  let ?s1 = "net_nl (net_puts u s)"
  have r1: "net_ready (frozen (pending (n_dev s)) ?R) base txa ?s1"
    using n(1) by (simp add: frozen_ready net_puts_fold)
  have f: "frame_ok (drop 4 ?b)" using n(3) o8 by (simp add: rx_frames_ok_def add.commute)
  have l: "42 \<le> length (drop 4 ?b)" using o(2) by simp
  have t1: "rtt_ok ?s1" using n(4) by (simp add: net_puts_fold)
  obtain s2 where s2: "(if ?st AND 0x01 \<noteq> 0 \<and> ?len \<ge> 60 \<and> ?len \<le> 1518 then eth_rx P M (drop 4 ?b) (?len - 4) ?s1
      else Some (net_line ''[RTL8139] Bad packet'' ?s1)) = Some s2"
    "net_ready (frozen (pending (n_dev s)) ?R) base txa s2" "rx_vars s2 = rx_vars s"
  proof (cases "?st AND 0x01 \<noteq> 0 \<and> ?len \<ge> 60 \<and> ?len \<le> 1518")
    case True
    obtain s2 where "eth_rx P M (drop 4 ?b) (?len - 4) ?s1 = Some s2"
      "net_ready (frozen (pending (n_dev s)) ?R) base txa s2" "rx_vars s2 = rx_vars ?s1"
      by (rule rtl_nic.eth_rx_ok[OF frozen_nic r1 l f t1]) (rule that)
    then show ?thesis using that[of s2] True by (simp add: net_puts_fold rx_vars_puts)
  next
    case False
    have "net_ready (frozen (pending (n_dev s)) ?R) base txa (net_line ''[RTL8139] Bad packet'' ?s1)"
      "rx_vars (net_line ''[RTL8139] Bad packet'' ?s1) = rx_vars s"
      using r1 by (simp_all add: net_puts_fold)
    then show ?thesis using that False by (simp only: if_False)
  qed
  let ?o = "rx_next (current_rx_offset s) ?len"
  let ?s3 = "s2\<lparr>current_rx_offset := ?o\<rparr>"
  let ?d = "outw P (ucast (base + REG_CAPR)) (?o - 16) (n_dev s2)"
  have d2: "ok (n_dev s2)" "pending (n_dev s2) = pending (n_dev s)" "ram_get rxa RX_BUFFER_SIZE (ram (n_dev s2)) = ?R"
    "io_base s2 = base" "net_ready ok base txa s2"
    using s2(2) by (auto simp: frozen_ready net_ready_def nic_ready_def frozen_def)
  have d: "ok ?d" "ram ?d = ram (n_dev s2)" "pending ?d = pending (n_dev s) - 1" using capr[OF d2(1) refl] d2(2) by auto
  let ?s4 = "set_dev ?d ?s3"
  have "rx_packet P M s = Some ?s4"
    using b h t u s2(1) d2(4) by (simp add: rx_packet_def Let_def nic_outw_def)
  moreover have "rx_ready ok base txa ram rxa ?s4"
    using d2 d(1,2) s2(3) n(2-4)
    by (simp add: rx_ready_def net_ready_def nic_ready_def queue_ok_def set_dev_def rx_frames_ok_def rtt_ok_def rx_vars_def)
  ultimately show ?thesis using that[of ?s4] d(3) by (simp add: set_dev_def)
qed

lemma rx_loop_ok:
  "rx_ready ok base txa ram rxa s \<Longrightarrow>
   \<exists>s'. rx_loop P M s = Some s' \<and> rx_ready ok base txa ram rxa s' \<and>
     (pending (n_dev s') = 0 \<or> current_rx_offset s' = 0)"
proof (induction "pending (n_dev s)" arbitrary: s rule: less_induct)
  case less
  have n: "net_ready ok base txa s" "ok (n_dev s)" "io_base s = base"
    using less.prems by (auto simp: rx_ready_def net_ready_def nic_ready_def)
  obtain c d where c: "inb P (ucast (base + REG_COMMAND)) (n_dev s) = (c, d)" by fastforce
  have d: "ok d" "ram d = ram (n_dev s)" "pending d = pending (n_dev s)" "c AND 1 \<noteq> 0 \<longleftrightarrow> pending (n_dev s) = 0"
    using command[OF n(2) c] by auto
  let ?s = "set_dev d s"
  have r: "rx_ready ok base txa ram rxa ?s"
    using less.prems d(1,2) net_ready_dev[OF n(1) d(1)] by (simp add: rx_ready_def rtt_ok_def set_dev_def)
  have pd: "n_dev ?s = d" "current_rx_offset ?s = current_rx_offset s" "io_base ?s = base" using n(3) by (simp_all add: set_dev_def)
  show ?case
  proof (cases "pending (n_dev s) = 0")
    case True
    then show ?thesis using c d r n(3) by (subst rx_loop.simps) (simp add: pd)
  next
    case more: False
    show ?thesis
    proof (cases "current_rx_offset s \<ge> 8192")
      case True
      let ?s1 = "(net_line ''[RTL8139] RX overflow, resetting'' ?s)\<lparr>current_rx_offset := 0\<rparr>"
      let ?d = "outw P (ucast (base + REG_CAPR)) 0xFFF0 d"
      have od: "ok ?d" "ram ?d = ram d" using capr[OF d(1) refl] by auto
      have "rx_loop P M s = Some (set_dev ?d ?s1)"
        using c d(4) more True n(3) by (subst rx_loop.simps) (simp add: pd nic_outw_def net_puts_fold)
      moreover have "rx_ready ok base txa ram rxa (set_dev ?d ?s1)"
        using r od by (simp add: rx_ready_def net_ready_def nic_ready_def queue_ok_def set_dev_def rtt_ok_def net_puts_fold net_puts_def)
      ultimately show ?thesis by (auto simp: set_dev_def)
    next
      case False
      then have off: "current_rx_offset ?s < 8192" using pd(2) by simp
      obtain s2 where s2: "rx_packet P M ?s = Some s2" "rx_ready ok base txa ram rxa s2" "pending (n_dev s2) = pending d - 1"
        by (rule rx_packet_ok[OF r off]) (use that pd(1) in simp)
      have "pending (n_dev s2) < pending (n_dev s)" using s2(3) d(3) more by simp
      from less.hyps[OF this s2(2)] show ?thesis
        using c d(4) more False n(3) s2(1) by (subst rx_loop.simps) (simp add: pd)
    qed
  qed
qed

end

section \<open>The interrupt handler\<close>

lemma log_if: "(if b then net_line cs s else s) = net_puts (if b then ascii cs @ [0x0A] else []) s"
  by (simp add: net_puts_fold net_puts_nil)

lemma log_if_more:
  "(if b then net_line cs (net_puts u s) else net_puts u s) = net_puts (if b then u @ ascii cs @ [0x0A] else u) s"
  by (simp add: net_puts_fold)

context rtl_nic_rx
begin

lemma irq_handler_ok:
  assumes r: "rx_ready ok base txa ram rxa s" and st: "inw P (ucast (base + REG_ISR)) (n_dev s) = (st, d)"
  shows "\<exists>s'. rtl8139_irq_handler P M s = Some s' \<and> rx_ready ok base txa ram rxa s' \<and>
    (st AND 1 \<noteq> 0 \<longrightarrow> pending (n_dev s') = 0 \<or> current_rx_offset s' = 0)"
proof -
  have n: "net_ready ok base txa s" "ok (n_dev s)" "io_base s = base"
    using r by (auto simp: rx_ready_def net_ready_def nic_ready_def)
  have d: "ok d" "ram d = ram (n_dev s)" "pending d = pending (n_dev s)" using isr_read[OF n(2) st] by auto
  let ?s = "set_dev d s"
  have rs: "rx_ready ok base txa ram rxa ?s"
    using r d(1,2) net_ready_dev[OF n(1) d(1)] by (simp add: rx_ready_def rtt_ok_def set_dev_def)
  obtain t where t: "put_num (ucast st) 16 (net_msg ''[RTL8139] IRQ: status='' ?s) = Some (net_puts t ?s)"
    using put_num_msg(2)[OF printable_u16[of 16 st], of "''[RTL8139] IRQ: status=''" ?s] by auto
  let ?s1 = "net_nl (net_puts t ?s)"
  have puts: "rx_ready ok base txa ram rxa (net_puts u x) = rx_ready ok base txa ram rxa x" for u x
    by (simp add: rx_ready_def)
  obtain s2 where s2: "(if st AND 1 \<noteq> 0 then rx_loop P M (net_line ''[RTL8139] RX packet(s)'' ?s1) else Some ?s1) = Some s2"
    "rx_ready ok base txa ram rxa s2" "st AND 1 \<noteq> 0 \<longrightarrow> pending (n_dev s2) = 0 \<or> current_rx_offset s2 = 0"
    using rx_loop_ok[of "net_line ''[RTL8139] RX packet(s)'' ?s1"] rs by (cases "st AND 1 \<noteq> 0") (auto simp: net_puts_fold puts)
  obtain u where u: "(let s = (if st AND 0x0004 \<noteq> 0 then net_line ''[RTL8139] TX complete'' s2 else s2);
        s = (if st AND 0x0008 \<noteq> 0 then net_line ''[RTL8139] TX error'' s else s)
      in (if st AND 0x0002 \<noteq> 0 then net_line ''[RTL8139] RX error'' s else s)) = net_puts u s2"
    unfolding Let_def log_if[of _ _ s2] log_if_more by blast
  let ?s3 = "net_puts u s2" and ?d = "outw P (ucast (base + REG_ISR)) st (n_dev s2)"
  have d2: "ok (n_dev s2)" "io_base s2 = base" "net_ready ok base txa s2"
    using s2(2) by (auto simp: rx_ready_def net_ready_def nic_ready_def)
  have d3: "ok ?d" "ram ?d = ram (n_dev s2)" "pending ?d = pending (n_dev s2)" using isr_write[OF d2(1) refl] by auto
  have "rtl8139_irq_handler P M s = Some (set_dev ?d ?s3)"
    using st t s2(1) u n(3) card d2(2) by (simp add: rtl8139_irq_handler_def Let_def nic_outw_def)
  moreover have "rx_ready ok base txa ram rxa (set_dev ?d ?s3)"
  proof -
    have "net_ready ok base txa (set_dev ?d ?s3)" using d2(3) d3(1) by (intro net_ready_dev) simp_all
    then show ?thesis using s2(2) d3 by (simp add: rx_ready_def rtt_ok_def set_dev_def net_puts_def)
  qed
  ultimately show ?thesis using s2(3) d3(3) by (simp add: set_dev_def)
qed

end

interpretation sim_rx: rtl_nic_rx "sim_ports sim_base" sim_dma sc_wire sc_ram "\<lambda>d. sc_txaddr d = sim_txaddr" sim_base sim_txaddr
  sc_pending "0x400000"
proof
  fix j k m :: nat
  assume jkm: "j < 4" "k < 1792" "m < RX_BUFFER_SIZE"
  then have "j = 0 \<or> j = 1 \<or> j = 2 \<or> j = 3" by linarith
  then have "unat (sim_txaddr ! j) \<in> {0x500000, 0x501000, 0x502000, 0x503000}" by (auto simp: sim_txaddr_def)
  moreover have "unat (sim_txaddr ! j + of_nat k) = unat (sim_txaddr ! j) + k"
    using calculation jkm(2) by (subst unat_add_lem[THEN iffD1]) (auto simp: unat_of_nat_u32)
  ultimately have "unat (sim_txaddr ! j + of_nat k) \<ge> 0x500000" by auto
  moreover have "unat (0x400000 + of_nat m :: u32) < 0x500000"
    using jkm(3) by (simp add: RX_BUFFER_SIZE_def unat_add_lem[THEN iffD1] unat_of_nat_u32)
  ultimately show "sim_txaddr ! j + of_nat k \<noteq> 0x400000 + of_nat m" by (metis not_le)
qed (auto simp: sim_ports_def sim_dma_def sim_base_def REG_COMMAND_def REG_CAPR_def REG_ISR_def sim_descriptor_def split: if_splits)


definition sim_receiving :: "sim_card net_state" where
  "sim_receiving = sim_net\<lparr>n_dev := (n_dev sim_net)\<lparr>sc_pending := 3\<rparr>\<rparr>"

lemma sim_receiving_ready: "rx_ready (\<lambda>d. sc_txaddr d = sim_txaddr) sim_base sim_txaddr sc_ram 0x400000 sim_receiving"
proof -
  have "net_ready (\<lambda>d. sc_txaddr d = sim_txaddr) sim_base sim_txaddr sim_receiving"
    using sim_net_net_ready by (simp add: sim_receiving_def net_ready_def nic_ready_def queue_ok_def)
  moreover have "frame_ok (drop n (ram_get a RX_BUFFER_SIZE (\<lambda>_. 0)))" if "n < 8200" for n a
  proof -
    have "drop n (ram_get a RX_BUFFER_SIZE (\<lambda>_. 0)) ! i = 0" if "i < 64" for i
      using \<open>n < 8200\<close> that by (simp add: ram_get_def RX_BUFFER_SIZE_def)
    then have "get16 (drop n (ram_get a RX_BUFFER_SIZE (\<lambda>_. 0))) 12 = 0" by (simp add: get16_def)
    moreover have "bswap16 0 \<noteq> ETH_TYPE_ARP" by code_simp
    ultimately show ?thesis by (simp add: frame_ok_def)
  qed
  ultimately show ?thesis
    by (simp add: rx_ready_def sim_receiving_def sim_net_def rx_frames_ok_def rtt_ok_def)
qed


section \<open>Ping\<close>

context rtl_nic
begin

lemma ip_tx_any:
  assumes r: "net_ready ok base txa s" and dst: "dst \<noteq> 0x80000000"
    and len: "unat len \<le> 1400" "unat len \<le> length payload"
  obtains x s' where "ip_tx P M dst proto payload len s = Some (x, s')" and "net_ready ok base txa s'" and "same_stack s s'"
    and "\<And>mac. arp_map (arp_table s) dst = Some mac \<Longrightarrow>
      wire (n_dev s') = wire (n_dev s) @ [ip_frame mac s dst proto payload len]"
proof (cases "arp_map (arp_table s) dst")
  case (Some mac)
  have l: "unat len \<le> 1480" using len(1) by simp
  show ?thesis
    by (rule ip_tx_known[OF r dst Some l len(2), of proto], rule that) (auto intro: same_net_stack simp: Some)
next
  case None
  have l: "unat len \<le> 1480" using len(1) by simp
  show ?thesis
  proof (cases "queue_slot s")
    case none: None
    obtain t where "ip_tx P M dst proto payload len s = Some (- 1, net_puts t s)"
      by (rule ip_tx_full[OF dst None none l len(2)])
    then show ?thesis using that[of "- 1" "net_puts t s"] r None by (simp add: same_net_stack)
  next
    case (Some i)
    show ?thesis
      by (rule ip_tx_unknown[OF r dst None Some len, of proto], rule that) (auto simp: None)
  qed
qed

end

lemma icmp_request_ok:
  "\<exists>c. checksum (icmp_hdr_to_bytes \<lparr>ic_type = 8, ic_code = 0, ic_csum = 0, ic_id = i, ic_seq = q\<rparr>) 8 = Some c \<and>
    checksum (icmp_hdr_to_bytes \<lparr>ic_type = 8, ic_code = 0, ic_csum = c, ic_id = i, ic_seq = q\<rparr>) 8 = Some 0"
proof -
  let ?h = "\<lambda>c. icmp_hdr_to_bytes \<lparr>ic_type = 8, ic_code = 0, ic_csum = c, ic_id = i, ic_seq = q\<rparr>"
  have l: "length (?h 0) = 8" "take 2 (drop 2 (?h 0)) = [0, 0]" by (simp_all add: icmp_hdr_to_bytes_def le16_def)
  have "\<exists>c. checksum (?h 0) (length (?h 0)) = Some c \<and> checksum (put_at (?h 0) 2 (le16 c)) (length (?h 0)) = Some 0"
    using l by (intro checksum_put_zero) simp_all
  moreover have "put_at (?h 0) 2 (le16 c) = ?h c" for c by (simp add: icmp_hdr_to_bytes_def put_at_def le16_def)
  ultimately show ?thesis unfolding l(1) by simp
qed

lemma icmp_rx_status:
  assumes "8 \<le> length pkt" and "8 \<le> len" and "rtt_ok s" and "ping_waiting s"
  shows "\<exists>s'. icmp_rx pkt len s = Some s' \<and> icmp_get_status s' = (if pkt ! 0 = 0 then 0 else 1)"
proof -
  let ?h = "icmp_hdr_of_bytes (take 8 pkt)" and ?s = "s\<lparr>ping_waiting := False\<rparr>"
  obtain t where t: "put_num (ucast (ic_seq ?h)) 10 (net_msg ''Reply from host: seq='' ?s) = Some (net_puts t ?s)"
    using put_num_msg(2)[OF printable_u16[of 10 "ic_seq ?h"], of "''Reply from host: seq=''" ?s] by auto
  obtain u where u: "put_num (n_ticks s - ping_sent_time s) 10 (net_msg '' time='' (net_puts t ?s)) = Some (net_puts u ?s)"
    using put_num_msg(3)[of "n_ticks s - ping_sent_time s" 10 "'' time=''" t ?s] assms(3)
    by (auto simp: rtt_ok_def printable_def)
  have ty: "ic_type ?h = pkt ! 0" by (simp add: icmp_hdr_of_bytes_def get8_def)
  show ?thesis
    using assms t u ty by (auto simp: icmp_rx_def load_def Let_def get_tick_count_def icmp_get_status_def net_puts_fold net_puts_def)
qed

text \<open>\<open>icmp_ping\<close> marks a ping as pending and, to a known neighbour, puts one echo request with a valid
  checksum and the next sequence number on the wire.  From then on an echo reply, at any later time, clears the mark and no
  other message does.\<close>

theorem icmp_ping_roundtrip:
  assumes "rtl_nic P M wire ram ok base txa" and "net_ready ok base txa s" and "ip \<noteq> 0x80000000"
  shows "\<exists>s' c. icmp_ping P M ip s = Some s' \<and> net_ready ok base txa s' \<and> icmp_get_status s' = 1 \<and>
    (let req = [8, 0] @ le16 c @ le16 (ping_id s) @ le16 (ping_seq s + 1) in
       checksum req 8 = Some 0 \<and>
       (\<forall>mac. arp_map (arp_table s) ip = Some mac \<longrightarrow>
          wire (n_dev s') = wire (n_dev s) @ [ip_frame mac s ip 1 req 8])) \<and>
    (\<forall>pkt len now. 8 \<le> length pkt \<longrightarrow> 8 \<le> len \<longrightarrow> now - n_ticks s \<noteq> 0x80000000 \<longrightarrow>
       (\<exists>s''. icmp_rx pkt len (s'\<lparr>n_ticks := now\<rparr>) = Some s'' \<and> icmp_get_status s'' = (if pkt ! 0 = 0 then 0 else 1)))"
proof -
  let ?s = "s\<lparr>ping_seq := ping_seq s + 1, ping_waiting := True, ping_sent_time := n_ticks s\<rparr>"
  obtain c where c: "checksum (icmp_hdr_to_bytes \<lparr>ic_type = 8, ic_code = 0, ic_csum = 0, ic_id = ping_id s, ic_seq = ping_seq s + 1\<rparr>) 8 = Some c"
    "checksum (icmp_hdr_to_bytes \<lparr>ic_type = 8, ic_code = 0, ic_csum = c, ic_id = ping_id s, ic_seq = ping_seq s + 1\<rparr>) 8 = Some 0"
    using icmp_request_ok[of "ping_id s" "ping_seq s + 1"] by blast
  let ?req = "icmp_hdr_to_bytes \<lparr>ic_type = 8, ic_code = 0, ic_csum = c, ic_id = ping_id s, ic_seq = ping_seq s + 1\<rparr>"
  have req: "?req = [8, 0] @ le16 c @ le16 (ping_id s) @ le16 (ping_seq s + 1)" "length ?req = 8"
    by (simp_all add: icmp_hdr_to_bytes_def)
  have r: "net_ready ok base txa ?s" using assms(2) by (simp add: net_ready_def nic_ready_def queue_ok_def)
  have l: "unat (8 :: u16) \<le> 1400" "unat (8 :: u16) \<le> length ?req" using req(2) by simp_all
  obtain x s' where s': "ip_tx P M ip 1 ?req 8 ?s = Some (x, s')" "net_ready ok base txa s'" "same_stack ?s s'"
    "\<And>mac. arp_map (arp_table ?s) ip = Some mac \<Longrightarrow> wire (n_dev s') = wire (n_dev ?s) @ [ip_frame mac ?s ip 1 ?req 8]"
    by (rule rtl_nic.ip_tx_any[OF assms(1) r assms(3) l, of 1]) (rule that)
  have st: "ping_waiting s'" "ping_sent_time s' = n_ticks s" "n_ticks s' = n_ticks s"
    using s'(3) by (auto simp: same_stack_def)
  have "icmp_ping P M ip s = Some s'" using c s'(1) by (simp add: icmp_ping_def Let_def get_tick_count_def)
  moreover have "\<exists>s''. icmp_rx pkt len (s'\<lparr>n_ticks := now\<rparr>) = Some s'' \<and> icmp_get_status s'' = (if pkt ! 0 = 0 then 0 else 1)"
    if "8 \<le> length pkt" "8 \<le> len" "now - n_ticks s \<noteq> 0x80000000" for pkt len now
    using icmp_rx_status[OF that(1,2), of "s'\<lparr>n_ticks := now\<rparr>"] st that(3) by (simp add: rtt_ok_def)
  moreover have "ip_frame mac ?s ip 1 ?req 8 = ip_frame mac s ip 1 ?req 8" for mac by (simp add: ip_frame_def)
  ultimately show ?thesis
    using s'(2,4) c(2) st(1) unfolding req(1) Let_def by (intro exI[of _ s'] exI[of _ c]) (simp add: icmp_get_status_def)
qed

theorem icmp_ping_roundtrip_witness:
  "\<exists>s' s''. icmp_ping (sim_ports sim_base) sim_dma 0x0101A8C0 sim_net = Some s' \<and> icmp_get_status s' = 1 \<and>
    icmp_rx (replicate 8 0) 8 (s'\<lparr>n_ticks := 12\<rparr>) = Some s'' \<and> icmp_get_status s'' = 0"
proof -
  have t: "12 - n_ticks sim_net \<noteq> 0x80000000" by (simp add: sim_net_def)
  obtain s' where s': "icmp_ping (sim_ports sim_base) sim_dma 0x0101A8C0 sim_net = Some s'" "icmp_get_status s' = 1"
    "\<And>pkt len now. 8 \<le> length pkt \<Longrightarrow> 8 \<le> len \<Longrightarrow> now - n_ticks sim_net \<noteq> 0x80000000 \<Longrightarrow>
       (\<exists>s''. icmp_rx pkt len (s'\<lparr>n_ticks := now\<rparr>) = Some s'' \<and> icmp_get_status s'' = (if pkt ! 0 = 0 then 0 else 1))"
    using icmp_ping_roundtrip[OF sim.rtl_nic_axioms sim_net_net_ready, of "0x0101A8C0"] by auto
  have "\<exists>s''. icmp_rx (replicate 8 0) 8 (s'\<lparr>n_ticks := 12\<rparr>) = Some s'' \<and> icmp_get_status s'' = 0"
    using s'(3)[of "replicate 8 0" 8 12] t by simp
  then show ?thesis using s'(1,2) by blast
qed

text \<open>Every datagram the stack builds, for immediate or delayed sending, is well formed: twenty bytes of
  header that sum up to zero, version 4 without options, the total length, and the addresses, before
  the unchanged payload.\<close>

theorem ip_datagram_wellformed:
  assumes "unat len \<le> length payload" and "unat len \<le> 1480"
  shows "\<exists>h. ip_datagram src dst proto payload len = Some (h @ take (unat len) payload) \<and> length h = 20 \<and>
    checksum h 20 = Some 0 \<and> take 2 h = [0x45, 0] \<and> get16 h 2 = bswap16 (20 + len) \<and>
    h ! 9 = proto \<and> get32 h 12 = src \<and> get32 h 16 = dst"
proof -
  obtain h where h: "ip_datagram src dst proto payload len = Some (h @ take (unat len) payload)"
    "length h = 20" "checksum h 20 = Some 0" "take 10 h = [0x45, 0] @ le16 (bswap16 (20 + len)) @ [0, 0, 0, 0, 64, proto]"
    "drop 12 h = le32 src @ le32 dst"
    using ip_datagram_ok[OF assms, of src dst proto] ip_header_ok[of src dst proto len] by fastforce
  have n: "h ! i = ([0x45, 0] @ le16 (bswap16 (20 + len)) @ [0, 0, 0, 0, 64, proto]) ! i" if "i < 10" for i
    using nth_take[OF that, of h] h(4) by simp
  have m: "h ! (12 + i) = (le32 src @ le32 dst) ! i" for i
    using nth_drop[of 12 h i] h(2) unfolding h(5) by simp
  have "take 2 h = take 2 (take 10 h)" by simp
  then have "take 2 h = [0x45, 0]" unfolding h(4) by simp
  moreover have "get16 h 2 = bswap16 (20 + len)"
    using get16_le16[of "bswap16 (20 + len)"] n[of 2] n[of 3] by (simp add: get16_def le16_def)
  moreover have "get32 h 12 = src" "get32 h 16 = dst"
    using get32_le32[of src] get32_le32[of dst] m[of 0] m[of 1] m[of 2] m[of 3] m[of 4] m[of 5] m[of 6] m[of 7]
    by (simp_all add: get32_def le32_def)
  ultimately show ?thesis using h(1-3) n[of 9] by (simp add: le16_def)
qed

theorem ip_datagram_wellformed_witness:
  "\<exists>h. ip_datagram 0x0A01A8C0 0x0101A8C0 1 [8, 0, 0, 0, 9] 4 = Some (h @ [8, 0, 0, 0]) \<and> length h = 20 \<and> checksum h 20 = Some 0"
  using ip_datagram_wellformed[of 4 "[8, 0, 0, 0, 9]" "0x0A01A8C0" "0x0101A8C0" 1] by auto

end
