(* ===== verification/Kernel_Memory.thy ===== *)
theory Kernel_Memory
  imports Kernel_Libc
begin

text \<open>
  The allocators: \<open>src/mm/kmalloc.c\<close> (a pointer that only moves up), \<open>src/lib/malloc.c\<close> (another one
  inside a static array) and \<open>src/kernel/memory.c\<close> (the aligned allocation built on \<open>kmalloc\<close>, and
  \<open>kfree\<close>, which works on a list of blocks with headers that no allocation creates).  Memory is a
  function from 32-bit addresses to bytes.
\<close>

section \<open>State and operations\<close>

record mem_state =
  m_ram :: "u32 \<Rightarrow> u8"
  heap_ptr :: u32
  heap_current :: u32
  heap_list :: u32

definition PAGE_SIZE :: u32 where "PAGE_SIZE = 4096"
definition HEAP_START :: u32 where "HEAP_START = 0x20000000"
definition HEAP_SIZE :: u32 where "HEAP_SIZE = 0x10000000"

definition boot_memory :: "(u32 \<Rightarrow> u8) \<Rightarrow> mem_state" where
  "boot_memory m = \<lparr>m_ram = m, heap_ptr = 0x01000000, heap_current = HEAP_START, heap_list = 0\<rparr>"

definition align_up :: "u32 \<Rightarrow> u32 \<Rightarrow> u32" where
  "align_up addr align = (addr + align - 1) AND NOT (align - 1)"

definition kmalloc :: "u32 \<Rightarrow> mem_state \<Rightarrow> u32 \<times> mem_state" where
  "kmalloc sz s = (heap_ptr s, s\<lparr>heap_ptr := heap_ptr s + sz\<rparr>)"

definition kmalloc_a :: "u32 \<Rightarrow> mem_state \<Rightarrow> u32 \<times> mem_state" where
  "kmalloc_a sz s =
     (let s = s\<lparr>heap_ptr := align_up (heap_ptr s) PAGE_SIZE\<rparr>
      in (heap_ptr s, s\<lparr>heap_ptr := heap_ptr s + sz\<rparr>))"

text \<open>The array of \<open>malloc\<close> has a megabyte, which the function does not check; the state is the pointer.\<close>

definition malloc :: "u32 \<Rightarrow> u32 \<Rightarrow> u32 \<times> u32" where
  "malloc sz heap = (heap, heap + sz)"

definition free :: "u32 \<Rightarrow> u32 \<Rightarrow> u32" where
  "free ptr heap = heap"

text \<open>A block header is twelve bytes: size, free flag, next.\<close>

definition blk_size :: "u32 \<Rightarrow> mem_state \<Rightarrow> u32" where "blk_size b s = rd32 (m_ram s) b"
definition blk_free :: "u32 \<Rightarrow> mem_state \<Rightarrow> u32" where "blk_free b s = rd32 (m_ram s) (b + 4)"
definition blk_next :: "u32 \<Rightarrow> mem_state \<Rightarrow> u32" where "blk_next b s = rd32 (m_ram s) (b + 8)"

definition set_word :: "u32 \<Rightarrow> u32 \<Rightarrow> mem_state \<Rightarrow> mem_state" where
  "set_word a v s = s\<lparr>m_ram := wr32 a v (m_ram s)\<rparr>"

definition memory_init :: "u32 \<Rightarrow> mem_state \<Rightarrow> mem_state" where
  "memory_init mem_size s =
     (let b = heap_current s; s = s\<lparr>heap_list := b\<rparr>
      in set_word (b + 8) 0 (set_word (b + 4) 1 (set_word b (HEAP_SIZE - 12) s)))"

definition kmalloc_aligned :: "u32 \<Rightarrow> u32 \<Rightarrow> mem_state \<Rightarrow> u32 \<times> mem_state" where
  "kmalloc_aligned sz align s =
     (case kmalloc (sz + align) s of (addr, s) \<Rightarrow>
        if addr = 0 then (0, s) else ((addr + align - 1) AND NOT (align - 1), s))"

partial_function (option) kfree_loop :: "u32 \<Rightarrow> mem_state \<Rightarrow> mem_state option" where
  "kfree_loop current s =
     (if current \<noteq> 0 \<and> blk_next current s \<noteq> 0 then
        (let next = blk_next current s in
         if blk_free current s \<noteq> 0 \<and> blk_free next s \<noteq> 0 then
           (let s = set_word current (blk_size current s + (12 + blk_size next s)) s;
                s = set_word (current + 8) (blk_next (blk_next current s) s) s
            in kfree_loop current s)
         else kfree_loop next s)
      else Some s)"

definition kfree :: "u32 \<Rightarrow> mem_state \<Rightarrow> mem_state option" where
  "kfree ptr s =
     (if ptr = 0 then Some s
      else (let block = ptr - 12; s = set_word (block + 4) 1 s in kfree_loop (heap_list s) s))"

definition virt_to_phys :: "u32 \<Rightarrow> u32" where "virt_to_phys virt = virt"
definition phys_to_virt :: "u32 \<Rightarrow> u32" where "phys_to_virt phys = phys"

section \<open>Alignment\<close>

lemma unat_add_no_wrap: "unat a + unat b < 2 ^ 32 \<Longrightarrow> unat (a + b :: u32) = unat a + unat b"
  by (simp add: unat_add_lem[THEN iffD1])

lemma unat_pow2: "k < 32 \<Longrightarrow> unat (2 ^ k :: u32) = 2 ^ k"
proof -
  assume "k < 32"
  then have "(2 :: nat) ^ k < 2 ^ 32" by (rule power_strict_increasing) simp
  then show ?thesis using unat_of_nat_u32[of "2 ^ k"] by simp
qed

lemma align_up_pow2:
  fixes a :: u32
  assumes "k < 32" and "unat a + 2 ^ k \<le> 2 ^ 32"
  shows "unat ((a + 2 ^ k - 1) AND NOT (2 ^ k - 1)) = (unat a + 2 ^ k - 1) div 2 ^ k * 2 ^ k"
proof -
  have "(2 ^ k - 1 :: u32) = mask k" by (simp add: mask_eq_exp_minus_1)
  moreover have "unat (a + mask k) = unat a + (2 ^ k - 1)"
  proof -
    have "unat (mask k :: u32) = 2 ^ k - 1"
      unfolding mask_eq_exp_minus_1 using unat_pow2[OF assms(1)] by (subst unat_sub) (simp_all add: word_le_nat_alt)
    moreover have "unat a + (2 ^ k - 1) < 2 ^ 32" using assms(2) by (simp add: less_eq_Suc_le)
    ultimately show ?thesis using unat_add_no_wrap[of a "mask k"] by (simp only:)
  qed
  ultimately show ?thesis
    using and_not_mask_unat[of "a + mask k" k] by (simp add: add_diff_eq[symmetric] mask_eq_exp_minus_1)
qed

lemma round_up_nat:
  fixes n m :: nat
  assumes "0 < m"
  shows "n \<le> (n + m - 1) div m * m" and "(n + m - 1) div m * m \<le> n + m - 1" and "m dvd (n + m - 1) div m * m"
proof -
  show "(n + m - 1) div m * m \<le> n + m - 1" by simp
  show "m dvd (n + m - 1) div m * m" by simp
  have "n + m - 1 = (n + m - 1) div m * m + (n + m - 1) mod m" by simp
  moreover have "(n + m - 1) mod m < m" using assms by simp
  ultimately show "n \<le> (n + m - 1) div m * m" using assms by linarith
qed

section \<open>An allocator that only moves up\<close>

text \<open>What the users of an allocator rely on: as long as a request fits below the limit, its block lies
  between the old and the new end of the heap, which moves by at most \<open>need\<close>.\<close>

locale bump_allocator =
  fixes inv :: "'s \<Rightarrow> bool" and brk :: "'s \<Rightarrow> nat" and alloc :: "'r \<Rightarrow> 's \<Rightarrow> nat \<times> 's"
    and good :: "'r \<Rightarrow> bool" and len need :: "'r \<Rightarrow> nat" and limit :: nat
  assumes alloc_block: "inv s \<Longrightarrow> good r \<Longrightarrow> brk s + need r < limit \<Longrightarrow> alloc r s = (a, s') \<Longrightarrow>
    inv s' \<and> brk s \<le> a \<and> a + len r \<le> brk s' \<and> brk s' \<le> brk s + need r"
begin

fun alloc_all :: "'r list \<Rightarrow> 's \<Rightarrow> (nat \<times> nat) list \<times> 's" where
  "alloc_all [] s = ([], s)"
| "alloc_all (r # rs) s =
     (case alloc r s of (a, s) \<Rightarrow> case alloc_all rs s of (bs, s) \<Rightarrow> ((a, len r) # bs, s))"

lemma alloc_all_blocks:
  "inv s \<Longrightarrow> \<forall>r \<in> set rs. good r \<Longrightarrow> brk s + sum_list (map need rs) < limit \<Longrightarrow> alloc_all rs s = (bs, s') \<Longrightarrow>
   inv s' \<and> brk s \<le> brk s' \<and> map snd bs = map len rs \<and> (\<forall>(a, n) \<in> set bs. brk s \<le> a \<and> a + n \<le> brk s') \<and>
   sorted_wrt (\<lambda>b c. fst b + snd b \<le> fst c) bs"
proof (induction rs arbitrary: s bs s')
  case (Cons r rs)
  obtain a s1 where a: "alloc r s = (a, s1)" by fastforce
  obtain cs s2 where c: "alloc_all rs s1 = (cs, s2)" by fastforce
  have b: "inv s1 \<and> brk s \<le> a \<and> a + len r \<le> brk s1 \<and> brk s1 \<le> brk s + need r"
    using alloc_block[OF _ _ _ a] Cons.prems(1-3) by simp
  then have "inv s1" "\<forall>r \<in> set rs. good r" "brk s1 + sum_list (map need rs) < limit" using Cons.prems(2,3) by simp_all
  from Cons.IH[OF this c] have "inv s2" "brk s1 \<le> brk s2" "\<forall>(a, n) \<in> set cs. brk s1 \<le> a \<and> a + n \<le> brk s2"
    "sorted_wrt (\<lambda>b c. fst b + snd b \<le> fst c) cs" "map snd cs = map len rs" by simp_all
  moreover have "bs = (a, len r) # cs" "s' = s2" using Cons.prems(4) a c by simp_all
  ultimately show ?case using b by fastforce
qed simp

end

datatype request = Plain u32 | Paged u32 | Aligned u32 nat

fun serve :: "request \<Rightarrow> mem_state \<Rightarrow> nat \<times> mem_state" where
  "serve (Plain sz) s = apfst unat (kmalloc sz s)"
| "serve (Paged sz) s = apfst unat (kmalloc_a sz s)"
| "serve (Aligned sz k) s = apfst unat (kmalloc_aligned sz (2 ^ k) s)"

fun req_len :: "request \<Rightarrow> nat" where
  "req_len (Plain sz) = unat sz"
| "req_len (Paged sz) = unat sz"
| "req_len (Aligned sz k) = unat sz"

fun req_need :: "request \<Rightarrow> nat" where
  "req_need (Plain sz) = unat sz"
| "req_need (Paged sz) = unat sz + 4096"
| "req_need (Aligned sz k) = unat sz + 2 ^ k"

lemma kmalloc_a_block:
  assumes "unat (heap_ptr s) + unat sz + 4096 < 2 ^ 32" and "kmalloc_a sz s = (a, s')"
  shows "unat (heap_ptr s) \<le> unat a" and "unat a + unat sz = unat (heap_ptr s')"
    and "unat (heap_ptr s') \<le> unat (heap_ptr s) + unat sz + 4096" and "4096 dvd unat a" and "m_ram s' = m_ram s"
proof -
  have a: "a = align_up (heap_ptr s) PAGE_SIZE" and s': "heap_ptr s' = a + sz" and m: "m_ram s' = m_ram s"
    using assms(2) by (auto simp: kmalloc_a_def Let_def)
  have "unat a = (unat (heap_ptr s) + 4096 - 1) div 4096 * 4096"
    using align_up_pow2[of 12 "heap_ptr s"] assms(1) by (simp add: a align_up_def PAGE_SIZE_def)
  then have r: "unat (heap_ptr s) \<le> unat a" "unat a \<le> unat (heap_ptr s) + 4096 - 1" "4096 dvd unat a"
    using round_up_nat[of 4096 "unat (heap_ptr s)"] by simp_all
  then have e: "unat (heap_ptr s') = unat a + unat sz" using assms(1) by (simp add: s' unat_add_no_wrap)
  show "unat (heap_ptr s) \<le> unat a" "4096 dvd unat a" "m_ram s' = m_ram s" using r m by simp_all
  show "unat a + unat sz = unat (heap_ptr s')" "unat (heap_ptr s') \<le> unat (heap_ptr s) + unat sz + 4096"
    using e r(2) by simp_all
qed

lemma kmalloc_aligned_block:
  assumes "unat (heap_ptr s) + unat sz + 2 ^ k < 2 ^ 32" and "k < 32" and "heap_ptr s \<noteq> 0"
    and "kmalloc_aligned sz (2 ^ k) s = (a, s')"
  shows "unat (heap_ptr s) \<le> unat a" and "unat a + unat sz \<le> unat (heap_ptr s')"
    and "unat (heap_ptr s') = unat (heap_ptr s) + unat sz + 2 ^ k" and "2 ^ k dvd unat a" and "m_ram s' = m_ram s"
proof -
  have a: "a = (heap_ptr s + 2 ^ k - 1) AND NOT (2 ^ k - 1)" and s': "heap_ptr s' = heap_ptr s + (sz + 2 ^ k)"
    and m: "m_ram s' = m_ram s"
    using assms(3,4) by (auto simp: kmalloc_aligned_def kmalloc_def)
  have p: "unat (2 ^ k :: u32) = 2 ^ k" by (rule unat_pow2[OF assms(2)])
  have "unat (sz + 2 ^ k) = unat sz + 2 ^ k" using assms(1) p by (simp add: unat_add_no_wrap)
  then have e: "unat (heap_ptr s') = unat (heap_ptr s) + unat sz + 2 ^ k"
    using assms(1) by (simp add: s' unat_add_no_wrap)
  have "unat a = (unat (heap_ptr s) + 2 ^ k - 1) div 2 ^ k * 2 ^ k"
    using align_up_pow2[OF assms(2), of "heap_ptr s"] assms(1) by (simp add: a)
  then have r: "unat (heap_ptr s) \<le> unat a" "unat a \<le> unat (heap_ptr s) + 2 ^ k - 1" "2 ^ k dvd unat a"
    using round_up_nat[of "2 ^ k" "unat (heap_ptr s)"] by simp_all
  show "unat (heap_ptr s) \<le> unat a" "2 ^ k dvd unat a" "m_ram s' = m_ram s"
    "unat (heap_ptr s') = unat (heap_ptr s) + unat sz + 2 ^ k" using r m e by simp_all
  show "unat a + unat sz \<le> unat (heap_ptr s')" using r(2) e by simp
qed

definition heap_end :: "mem_state \<Rightarrow> nat" where
  "heap_end s = unat (heap_ptr s)"

fun proper :: "request \<Rightarrow> bool" where
  "proper (Aligned sz k) \<longleftrightarrow> k < 32"
| "proper r \<longleftrightarrow> True"

lemma serve_block:
  assumes "heap_end s + req_need r < 2 ^ 32" and "proper r" and "heap_ptr s \<noteq> 0" and "serve r s = (a, s')"
  shows "heap_end s \<le> a \<and> a + req_len r \<le> heap_end s' \<and> heap_end s' \<le> heap_end s + req_need r \<and> m_ram s' = m_ram s"
proof (cases r)
  case (Plain sz)
  then show ?thesis
    using assms by (auto simp: kmalloc_def heap_end_def unat_add_no_wrap)
next
  case (Paged sz)
  obtain p where p: "kmalloc_a sz s = (p, s')" "a = unat p" using assms(4) Paged by (cases "kmalloc_a sz s") auto
  have "unat (heap_ptr s) + unat sz + 4096 < 2 ^ 32" using assms(1) Paged by (simp add: heap_end_def)
  from kmalloc_a_block[OF this p(1)] show ?thesis using p(2) Paged by (simp add: heap_end_def)
next
  case (Aligned sz k)
  obtain p where p: "kmalloc_aligned sz (2 ^ k) s = (p, s')" "a = unat p"
    using assms(4) Aligned by (cases "kmalloc_aligned sz (2 ^ k) s") auto
  have "unat (heap_ptr s) + unat sz + 2 ^ k < 2 ^ 32" "k < 32" using assms(1,2) Aligned by (simp_all add: heap_end_def)
  from kmalloc_aligned_block[OF this assms(3) p(1)] show ?thesis using p(2) Aligned by (simp add: heap_end_def)
qed

interpretation kheap: bump_allocator "\<lambda>s. heap_ptr s \<noteq> 0" heap_end serve proper req_len req_need "2 ^ 32"
proof
  fix s s' :: mem_state and r a
  assume h: "heap_ptr s \<noteq> 0" "proper r" "heap_end s + req_need r < 2 ^ 32" "serve r s = (a, s')"
  have b: "heap_end s \<le> a \<and> a + req_len r \<le> heap_end s' \<and> heap_end s' \<le> heap_end s + req_need r"
    using serve_block[OF h(3,2,1,4)] by simp
  moreover have "0 < heap_end s" using h(1) by (simp add: heap_end_def unat_gt_0)
  ultimately show "heap_ptr s' \<noteq> 0 \<and> heap_end s \<le> a \<and> a + req_len r \<le> heap_end s' \<and>
      heap_end s' \<le> heap_end s + req_need r"
    by (auto simp: heap_end_def)
qed

section \<open>Properties of the allocators\<close>

text \<open>C32. Whatever sequence of \<open>kmalloc\<close>, \<open>kmalloc_a\<close> and \<open>kmalloc_aligned\<close> calls the kernel makes, as long as
  the heap stays below 4 GB the blocks handed out lie above the old end of the heap, follow each other without
  overlap, and end below the new one.\<close>

theorem kernel_blocks_disjoint:
  assumes "heap_ptr s \<noteq> 0" and "\<forall>r \<in> set rs. proper r" and "heap_end s + sum_list (map req_need rs) < 2 ^ 32"
    and "kheap.alloc_all rs s = (bs, s')"
  shows "map snd bs = map req_len rs \<and> (\<forall>(a, n) \<in> set bs. heap_end s \<le> a \<and> a + n \<le> heap_end s') \<and>
    sorted_wrt (\<lambda>b c. fst b + snd b \<le> fst c) bs"
  using kheap.alloc_all_blocks[OF assms] by blast

theorem kernel_blocks_disjoint_witness:
  "kheap.alloc_all [Plain 100, Paged 8192, Aligned 64 12] (boot_memory (\<lambda>_. 0)) =
     ([(0x01000000, 100), (0x01001000, 8192), (0x01003000, 64)],
      (boot_memory (\<lambda>_. 0))\<lparr>heap_ptr := 0x01004040\<rparr>) \<and>
   sorted_wrt (\<lambda>b c. fst b + snd b \<le> fst c) [(0x01000000, 100), (0x01001000, 8192), (0x01003000 :: nat, 64 :: nat)]"
proof -
  have a: "kheap.alloc_all [Plain 100, Paged 8192, Aligned 64 12] (boot_memory (\<lambda>_. 0)) =
     ([(0x01000000, 100), (0x01001000, 8192), (0x01003000, 64)],
      (boot_memory (\<lambda>_. 0))\<lparr>heap_ptr := 0x01004040\<rparr>)"
    by (simp add: kmalloc_def kmalloc_a_def kmalloc_aligned_def align_up_def boot_memory_def PAGE_SIZE_def Let_def)
  have "heap_ptr (boot_memory (\<lambda>_. 0)) \<noteq> 0" "\<forall>r \<in> set [Plain 100, Paged 8192, Aligned 64 12]. proper r"
    "heap_end (boot_memory (\<lambda>_. 0)) + sum_list (map req_need [Plain 100, Paged 8192, Aligned 64 12]) < 2 ^ 32"
    by (simp_all add: boot_memory_def heap_end_def)
  from kernel_blocks_disjoint[OF this a] a show ?thesis by blast
qed

text \<open>\<open>kmalloc_aligned\<close>: the address is a multiple of the power of two asked for, and the block lies
  inside the memory the underlying \<open>kmalloc\<close> reserved.\<close>

theorem kmalloc_aligned_correct:
  assumes "k < 32" and "heap_ptr s \<noteq> 0" and "heap_end s + unat sz + 2 ^ k < 2 ^ 32"
    and "kmalloc_aligned sz (2 ^ k) s = (a, s')"
  shows "2 ^ k dvd unat a \<and> heap_end s \<le> unat a \<and> unat a + unat sz \<le> heap_end s' \<and> a \<noteq> 0 \<and> m_ram s' = m_ram s"
proof -
  note b = kmalloc_aligned_block[OF _ assms(1,2,4)]
  have "0 < heap_end s" using assms(2) by (simp add: heap_end_def unat_gt_0)
  then show ?thesis using b assms(3) by (auto simp: heap_end_def)
qed

theorem kmalloc_aligned_correct_witness:
  "kmalloc_aligned 0x2000 (2 ^ 12) (boot_memory (\<lambda>_. 0)) = (0x01000000, (boot_memory (\<lambda>_. 0))\<lparr>heap_ptr := 0x01003000\<rparr>) \<and>
   (2 :: nat) ^ 12 dvd unat (0x01000000 :: u32)"
proof -
  have a: "kmalloc_aligned 0x2000 (2 ^ 12) (boot_memory (\<lambda>_. 0)) = (0x01000000, (boot_memory (\<lambda>_. 0))\<lparr>heap_ptr := 0x01003000\<rparr>)"
    by (simp add: kmalloc_def kmalloc_aligned_def boot_memory_def)
  show ?thesis
    using a kmalloc_aligned_correct[OF _ _ _ a] by (simp add: boot_memory_def heap_end_def)
qed

text \<open>\<open>kfree\<close> treats the twelve bytes before a block as its header, but no allocation leaves room for
  one: freeing a block overwrites the last bytes of the block allocated just before it, whatever they held.\<close>

theorem kfree_overwrites_neighbour:
  assumes "kmalloc n s = (a, s1)" and "kmalloc m s1 = (b, s2)" and "12 \<le> n"
    and "unat (heap_ptr s) + unat n + unat m < 2 ^ 32" and "heap_list s = 0"
    and "s3 = s2\<lparr>m_ram := ram_put a data (m_ram s2)\<rparr>" and "length data = unat n" and "b \<noteq> 0"
  shows "\<exists>s4. kfree b s3 = Some s4 \<and> ram_get (a + (n - 8)) 4 (m_ram s4) = [1, 0, 0, 0] \<and>
    unat (a + (n - 8)) + 4 \<le> unat a + unat n"
proof -
  have ab: "a = heap_ptr s" "b = a + n" "heap_list s3 = 0" using assms by (auto simp: kmalloc_def)
  have f: "b - 12 + 4 = a + (n - 8)" using ab by simp
  let ?s4 = "set_word (b - 12 + 4) 1 s3"
  have "heap_list ?s4 = 0" using ab by (simp add: set_word_def)
  then have "kfree b s3 = Some ?s4"
    using assms(8) by (simp add: kfree_def Let_def kfree_loop.simps[of 0])
  moreover have "ram_get (a + (n - 8)) 4 (m_ram ?s4) = take 4 (le32 1)"
    unfolding f by (simp only: set_word_def wr32_def mem_state.select_convs mem_state.update_convs
        mem_state.surjective) (simp add: ram_get_put_same)
  moreover have "le32 1 = [1, 0, 0, 0]" by code_simp
  moreover have "unat (n - 8) = unat n - 8" "12 \<le> unat n" using assms(3) by (simp_all add: unat_sub word_le_nat_alt)
  then have "unat (a + (n - 8)) + 4 \<le> unat a + unat n"
    using assms(4) ab(1) by (subst unat_add_no_wrap) simp_all
  ultimately show ?thesis by auto
qed

theorem kfree_overwrites_neighbour_witness:
  "\<exists>s4. kfree 0x01000010 ((boot_memory (\<lambda>_. 7))\<lparr>heap_ptr := 0x01000020, m_ram := ram_put 0x01000000 (replicate 16 9) (\<lambda>_. 7)\<rparr>) = Some s4 \<and>
     ram_get 0x01000008 4 (m_ram s4) = [1, 0, 0, 0]"
proof -
  let ?s = "boot_memory (\<lambda>_. 7)"
  have 1: "kmalloc 16 ?s = (0x01000000, ?s\<lparr>heap_ptr := 0x01000010\<rparr>)"
    and 2: "kmalloc 16 (?s\<lparr>heap_ptr := 0x01000010\<rparr>) = (0x01000010, ?s\<lparr>heap_ptr := 0x01000020\<rparr>)"
    by (simp_all add: kmalloc_def boot_memory_def)
  show ?thesis
    using kfree_overwrites_neighbour[OF 1 2 _ _ _ refl, of "replicate 16 9"] by (simp add: boot_memory_def)
qed

end
