(* ===== verification/Paging.thy ===== *)
theory Paging
  imports Kernel_Memory
begin

text \<open>
  The page tables of \<open>src/cpu/paging.c\<close>.  A page context is a pointer to three words in memory (the
  directory, the array of table pointers, the physical address of the directory); directory, pointer array
  and tables live in the same memory, so that aliasing, and writes through null pointers, are what they are
  in the code.  The processor's side is the walk of the two table levels and the translations it caches.
  Memory is addressed physically; the kernel runs where the tables map addresses to themselves.
\<close>

section \<open>State\<close>

record paging_state =
  mem :: mem_state
  kernel_page_context :: u32
  current_context :: u32
  cr3 :: u32
  paging_on :: bool
  tlb :: "u32 \<rightharpoonup> u32 \<times> u32"

definition PAGE_PRESENT :: u32 where "PAGE_PRESENT = 1"
definition PAGE_WRITE :: u32 where "PAGE_WRITE = 2"
definition PAGE_USER :: u32 where "PAGE_USER = 4"

definition peek :: "u32 \<Rightarrow> paging_state \<Rightarrow> u32" where
  "peek a s = rd32 (m_ram (mem s)) a"

definition poke :: "u32 \<Rightarrow> u32 \<Rightarrow> paging_state \<Rightarrow> paging_state" where
  "poke a v s = s\<lparr>mem := set_word a v (mem s)\<rparr>"

definition zero_bytes :: "u32 \<Rightarrow> nat \<Rightarrow> paging_state \<Rightarrow> paging_state" where
  "zero_bytes a n s = s\<lparr>mem := (mem s)\<lparr>m_ram := ram_put a (replicate n 0) (m_ram (mem s))\<rparr>\<rparr>"

text \<open>The fields of a page context, and entry \<open>i\<close> of an array of words.\<close>

definition directory :: "u32 \<Rightarrow> paging_state \<Rightarrow> u32" where "directory ctx s = peek ctx s"
definition tables :: "u32 \<Rightarrow> paging_state \<Rightarrow> u32" where "tables ctx s = peek (ctx + 4) s"
definition physical_addr :: "u32 \<Rightarrow> paging_state \<Rightarrow> u32" where "physical_addr ctx s = peek (ctx + 8) s"
definition entry :: "u32 \<Rightarrow> u32 \<Rightarrow> u32" where "entry base i = base + 4 * i"

definition pd_index :: "u32 \<Rightarrow> u32" where "pd_index virt = drop_bit 22 virt"
definition pt_index :: "u32 \<Rightarrow> u32" where "pt_index virt = drop_bit 12 virt AND 0x3FF"

section \<open>The processor\<close>

text \<open>A translation is the physical address and the rights (write, user) both levels grant; \<open>None\<close> is a page
  fault.\<close>

definition mmu :: "u32 \<Rightarrow> (u32 \<Rightarrow> u8) \<Rightarrow> u32 \<Rightarrow> (u32 \<times> u32) option" where
  "mmu root m virt =
     (let pde = rd32 m (entry (root AND 0xFFFFF000) (drop_bit 22 virt)) in
      if pde AND 1 = 0 then None
      else (let pte = rd32 m (entry (pde AND 0xFFFFF000) (drop_bit 12 virt AND 0x3FF)) in
            if pte AND 1 = 0 then None
            else Some ((pte AND 0xFFFFF000) OR (virt AND 0xFFF), pde AND pte AND 6)))"

definition load_cr3 :: "u32 \<Rightarrow> paging_state \<Rightarrow> paging_state" where
  "load_cr3 v s = s\<lparr>cr3 := v, tlb := Map.empty\<rparr>"

definition invlpg :: "u32 \<Rightarrow> paging_state \<Rightarrow> paging_state" where
  "invlpg virt s = s\<lparr>tlb := (tlb s)(virt AND 0xFFFFF000 := None)\<rparr>"

definition boot_paging :: "(u32 \<Rightarrow> u8) \<Rightarrow> paging_state" where
  "boot_paging m =
     \<lparr>mem = boot_memory m, kernel_page_context = 0, current_context = 0, cr3 = 0, paging_on = False, tlb = Map.empty\<rparr>"

text \<open>At any time the processor may remember a translation it has made.\<close>

definition tlb_fill :: "u32 \<Rightarrow> paging_state \<Rightarrow> paging_state" where
  "tlb_fill virt s =
     s\<lparr>tlb := (tlb s)(virt AND 0xFFFFF000 := mmu (cr3 s) (m_ram (mem s)) (virt AND 0xFFFFF000))\<rparr>"

section \<open>Operations\<close>

definition pg_kmalloc :: "u32 \<Rightarrow> paging_state \<Rightarrow> u32 \<times> paging_state" where
  "pg_kmalloc sz s = (case kmalloc sz (mem s) of (a, m) \<Rightarrow> (a, s\<lparr>mem := m\<rparr>))"

definition pg_kmalloc_aligned :: "u32 \<Rightarrow> u32 \<Rightarrow> paging_state \<Rightarrow> u32 \<times> paging_state" where
  "pg_kmalloc_aligned sz al s = (case kmalloc_aligned sz al (mem s) of (a, m) \<Rightarrow> (a, s\<lparr>mem := m\<rparr>))"

definition paging_enable :: "paging_state \<Rightarrow> paging_state" where
  "paging_enable s = (load_cr3 (physical_addr (kernel_page_context s) s) s)\<lparr>paging_on := True\<rparr>"

text \<open>The two loops that install tables: directory entries \<open>i\<close> up to \<open>last\<close>, with the static tables
  from \<open>pt\<close> on.\<close>

fun install_tables :: "nat \<Rightarrow> u32 \<Rightarrow> u32 \<Rightarrow> paging_state \<Rightarrow> paging_state" where
  "install_tables 0 i pt s = s"
| "install_tables (Suc n) i pt s =
     (let k = kernel_page_context s;
          s = poke (entry (tables k s) i) pt s;
          s = zero_bytes (peek (entry (tables k s) i) s) 4096 s;
          s = poke (entry (directory k s) i)
                (peek (entry (tables k s) i) s OR PAGE_PRESENT OR PAGE_WRITE OR PAGE_USER) s
      in install_tables n (i + 1) (pt + 4096) s)"

definition map_self :: "u32 \<Rightarrow> paging_state \<Rightarrow> paging_state" where
  "map_self i s =
     poke (entry (peek (entry (tables (kernel_page_context s) s) (pd_index i)) s) (pt_index i))
       (i OR PAGE_PRESENT OR PAGE_WRITE OR PAGE_USER) s"

function map_low_loop :: "u32 \<Rightarrow> paging_state \<Rightarrow> paging_state" where
  "map_low_loop i s =
     (if i < 0x80000000
      then map_low_loop (i + PAGE_SIZE) (if pd_index i < 512 then map_self i s else s)
      else s)"
  by pat_completeness auto

termination
  by (relation "measure (\<lambda>(i, s). 0x80000000 - unat i)")
    (simp_all add: PAGE_SIZE_def word_less_nat_alt unat_add_no_wrap)

partial_function (option) map_high_loop :: "u32 \<Rightarrow> paging_state \<Rightarrow> paging_state option" where
  "map_high_loop i s = (if i \<noteq> 0 then map_high_loop (i + PAGE_SIZE) (map_self i s) else Some s)"

text \<open>\<open>pd\<close> and \<open>pt\<close> are the addresses of \<open>page_directory_physical\<close> and \<open>page_tables_physical\<close>.\<close>

definition paging_init :: "u32 \<Rightarrow> u32 \<Rightarrow> paging_state \<Rightarrow> paging_state option" where
  "paging_init pd pt s =
     (case pg_kmalloc 12 s of (k, s) \<Rightarrow>
        (let s = poke k pd (s\<lparr>kernel_page_context := k\<rparr>) in
         case pg_kmalloc 4096 s of (t, s) \<Rightarrow>
           (let s = poke (k + 8) pd (poke (k + 4) t s);
                s = zero_bytes (directory k s) 4096 s;
                s = zero_bytes (tables k s) 4096 s;
                s = map_low_loop 0 (install_tables 512 0 pt s);
                s = install_tables 64 960 (pt + 512 * 4096) s
            in map_option (\<lambda>s. paging_enable (s\<lparr>current_context := kernel_page_context s\<rparr>))
                 (map_high_loop 0xC0000000 s))))"

definition paging_create_context :: "paging_state \<Rightarrow> u32" where
  "paging_create_context s = kernel_page_context s"

definition paging_switch_context :: "u32 \<Rightarrow> paging_state \<Rightarrow> paging_state" where
  "paging_switch_context ctx s =
     (if ctx = current_context s then s
      else (let s = s\<lparr>current_context := ctx\<rparr> in load_cr3 (physical_addr ctx s) s))"

definition new_table :: "u32 \<Rightarrow> u32 \<Rightarrow> paging_state \<Rightarrow> paging_state" where
  "new_table ctx i s =
     (case pg_kmalloc_aligned 4096 4096 s of (a, s) \<Rightarrow>
        (let s = poke (entry (tables ctx s) i) a s;
             s = zero_bytes (peek (entry (tables ctx s) i) s) 4096 s;
             pt_phys = virt_to_phys (peek (entry (tables ctx s) i) s)
         in poke (entry (directory ctx s) i) (pt_phys OR PAGE_PRESENT OR PAGE_WRITE OR PAGE_USER) s))"

definition paging_map_page :: "u32 \<Rightarrow> u32 \<Rightarrow> u32 \<Rightarrow> u32 \<Rightarrow> paging_state \<Rightarrow> paging_state" where
  "paging_map_page ctx virt phys flags s =
     (let pdi = pd_index virt; pti = pt_index virt;
          s = (if peek (entry (tables ctx s) pdi) s = 0 then new_table ctx pdi s else s);
          s = poke (entry (peek (entry (tables ctx s) pdi) s) pti) ((phys AND 0xFFFFF000) OR flags) s
      in invlpg virt s)"

definition paging_unmap_page :: "u32 \<Rightarrow> u32 \<Rightarrow> paging_state \<Rightarrow> paging_state" where
  "paging_unmap_page ctx virt s =
     (let pdi = pd_index virt; pti = pt_index virt in
      if peek (entry (tables ctx s) pdi) s \<noteq> 0
      then invlpg virt (poke (entry (peek (entry (tables ctx s) pdi) s) pti) 0 s)
      else s)"

definition paging_get_physical :: "u32 \<Rightarrow> u32 \<Rightarrow> paging_state \<Rightarrow> u32" where
  "paging_get_physical ctx virt s =
     (let pdi = pd_index virt; pti = pt_index virt; offset = virt AND 0xFFF in
      if peek (entry (tables ctx s) pdi) s = 0 then 0
      else (let page = peek (entry (peek (entry (tables ctx s) pdi) s) pti) s in
            if page AND PAGE_PRESENT = 0 then 0 else (page AND 0xFFFFF000) OR offset))"

section \<open>Words in memory\<close>

lemma ram_put_beside:
  assumes "unat a + length bs \<le> 2 ^ 32" and "unat x < unat a \<or> unat a + length bs \<le> unat x"
  shows "ram_put a bs m x = m x"
proof (rule ram_put_other)
  show "length bs \<le> unat (x - a)"
  proof (cases "a \<le> x")
    case True
    then show ?thesis using assms by (simp add: unat_sub word_le_nat_alt)
  next
    case False
    then have "unat (x - a) = unat x + 2 ^ 32 - unat a" by (simp add: unat_sub_if' word_le_nat_alt)
    then show ?thesis using assms(1) by simp
  qed
qed

lemma rd32_put_apart:
  assumes "unat a + length bs \<le> 2 ^ 32" and "unat b + 4 \<le> 2 ^ 32"
    and "unat b + 4 \<le> unat a \<or> unat a + length bs \<le> unat b"
  shows "rd32 (ram_put a bs m) b = rd32 m b"
proof -
  have "ram_put a bs m (b + of_nat k) = m (b + of_nat k)" if "k < 4" for k
  proof (rule ram_put_beside[OF assms(1)])
    have "unat (of_nat k :: u32) = k" using that by (simp add: unat_of_nat_u32)
    then have "unat (b + of_nat k) = unat b + k" using that assms(2) by (simp add: unat_add_no_wrap)
    then show "unat (b + of_nat k) < unat a \<or> unat a + length bs \<le> unat (b + of_nat k)"
      using that assms(3) by linarith
  qed
  then have "ram_get b 4 (ram_put a bs m) = ram_get b 4 m" by (simp add: ram_get_def)
  then show ?thesis by (simp add: rd32_def)
qed

definition apart :: "u32 \<Rightarrow> nat \<Rightarrow> u32 \<Rightarrow> nat \<Rightarrow> bool" where
  "apart a n b m \<longleftrightarrow> unat a + n \<le> unat b \<or> unat b + m \<le> unat a"

lemma peek_poke_same [simp]: "peek a (poke a v s) = v"
  by (simp add: peek_def poke_def set_word_def rd32_wr32)

lemma peek_poke_apart:
  "unat a + 4 \<le> 2 ^ 32 \<Longrightarrow> unat b + 4 \<le> 2 ^ 32 \<Longrightarrow> apart a 4 b 4 \<Longrightarrow> peek b (poke a v s) = peek b s"
  unfolding peek_def poke_def set_word_def wr32_def apart_def
  by (simp add: rd32_put_apart disj_commute)

lemma peek_zero_apart:
  "unat a + n \<le> 2 ^ 32 \<Longrightarrow> unat b + 4 \<le> 2 ^ 32 \<Longrightarrow> apart a n b 4 \<Longrightarrow> peek b (zero_bytes a n s) = peek b s"
  unfolding peek_def zero_bytes_def apart_def by (simp add: rd32_put_apart disj_commute)

lemma peek_zero_inside:
  assumes "unat a + n \<le> 2 ^ 32" and "unat a \<le> unat b" and "unat b + 4 \<le> unat a + n"
  shows "peek b (zero_bytes a n s) = 0"
proof -
  have "ram_put a (replicate n 0) m (b + of_nat k) = 0" if "k < 4" for k m
  proof -
    have "unat (of_nat k :: u32) = k" using that by (simp add: unat_of_nat_u32)
    then have e: "unat (b + of_nat k) = unat b + k" using that assms by (simp add: unat_add_no_wrap)
    then have "a \<le> b + of_nat k" using assms(2) by (simp add: word_le_nat_alt)
    then have "unat (b + of_nat k - a) = unat b + k - unat a" using e by (simp add: unat_sub)
    moreover have "unat b + k - unat a < n" using assms(2,3) that by linarith
    ultimately show ?thesis by (simp add: ram_put_def)
  qed
  then have "ram_get b 4 (ram_put a (replicate n 0) m) = replicate 4 0" for m
    by (auto simp: ram_get_def intro!: nth_equalityI)
  then show ?thesis by (simp add: peek_def zero_bytes_def rd32_def get32_def)
qed

lemma unat_entry: "unat b + 4096 \<le> 2 ^ 32 \<Longrightarrow> i < 1024 \<Longrightarrow> unat (entry b i) = unat b + 4 * unat i"
proof -
  assume b: "unat b + 4096 \<le> 2 ^ 32" and i: "i < 1024"
  have "unat i < 1024" using i by (simp add: word_less_nat_alt)
  moreover from this have "unat (4 * i) = 4 * unat i" by (subst unat_mult_lem[THEN iffD1]) simp_all
  ultimately show ?thesis using b by (simp add: entry_def unat_add_no_wrap)
qed

lemma pd_index_less: "pd_index v < 1024"
proof -
  have "unat (pd_index v) = unat v div 2 ^ 22" unfolding pd_index_def unat_drop_bit_eq by (rule drop_bit_eq_div)
  then show ?thesis using unat_u32[of v] by (simp add: word_less_nat_alt)
qed

lemma pt_index_less: "pt_index v < 1024"
proof -
  have "pt_index v \<le> 0x3FF" unfolding pt_index_def by (rule word_and_le1)
  also have "0x3FF < (1024 :: u32)" by simp
  finally show ?thesis .
qed

lemma page_mask: "(0xFFFFF000 :: u32) = NOT (mask 12)"
  by (simp add: mask_eq_exp_minus_1)

lemma aligned_mask: "4096 dvd unat e \<Longrightarrow> e AND 0xFFFFF000 = (e :: u32)"
proof -
  assume "4096 dvd unat e"
  then have "unat (e AND 0xFFFFF000) = unat e" unfolding page_mask and_not_mask_unat by simp
  then show ?thesis by (simp add: unsigned_word_eqI)
qed

lemma table_entry_bits:
  assumes "4096 dvd unat (e :: u32)"
  shows "(e OR 7) AND 0xFFFFF000 = e" and "(e OR 7) AND 1 = 1" and "(e OR 7) AND (x AND 6) = x AND 6"
proof -
  have "(e OR 7) AND 0xFFFFF000 = (e AND 0xFFFFF000) OR (7 AND 0xFFFFF000)" by (rule word_ao_dist)
  then show "(e OR 7) AND 0xFFFFF000 = e" using aligned_mask[OF assms] by simp
  have low: "e AND x = (e AND (0xFFFFF000 AND x))" for x using aligned_mask[OF assms] by (metis word_bw_assocs(1))
  show "(e OR 7) AND 1 = 1" using low[of 1] by (simp add: word_ao_dist)
  have "(e OR 7) AND 6 = 6" using low[of 6] by (simp add: word_ao_dist)
  then show "(e OR 7) AND (x AND 6) = x AND 6" by (metis word_bw_assocs(1) word_bw_comms(1))
qed

section \<open>Well-formed contexts\<close>

text \<open>What the walk sees: entry \<open>i\<close> of the pointer array and of the directory, and entry \<open>j\<close> of table \<open>i\<close>.\<close>

definition tab :: "u32 \<Rightarrow> paging_state \<Rightarrow> u32 \<Rightarrow> u32" where "tab p s i = peek (entry (tables p s) i) s"
definition pde :: "u32 \<Rightarrow> paging_state \<Rightarrow> u32 \<Rightarrow> u32" where "pde p s i = peek (entry (directory p s) i) s"
definition pte :: "u32 \<Rightarrow> paging_state \<Rightarrow> u32 \<Rightarrow> u32 \<Rightarrow> u32" where
  "pte p s i j = peek (entry (tab p s i) j) s"

abbreviation brk_of :: "paging_state \<Rightarrow> nat" where "brk_of s \<equiv> unat (heap_ptr (mem s))"

definition table_ok :: "u32 \<Rightarrow> paging_state \<Rightarrow> u32 \<Rightarrow> bool" where
  "table_ok p s e \<longleftrightarrow> 4096 dvd unat e \<and> unat e + 4096 \<le> brk_of s \<and> apart e 4096 p 12 \<and>
     apart e 4096 (directory p s) 4096 \<and> apart e 4096 (tables p s) 4096"

definition frame_ok :: "u32 \<Rightarrow> paging_state \<Rightarrow> bool" where
  "frame_ok p s \<longleftrightarrow> physical_addr p s = directory p s \<and> 4096 dvd unat (directory p s) \<and>
     unat p + 12 \<le> brk_of s \<and> unat (tables p s) + 4096 \<le> brk_of s \<and> unat (directory p s) + 4096 \<le> brk_of s \<and>
     apart p 12 (directory p s) 4096 \<and> apart p 12 (tables p s) 4096 \<and>
     apart (directory p s) 4096 (tables p s) 4096"

definition ctx_wf :: "u32 \<Rightarrow> paging_state \<Rightarrow> bool" where
  "ctx_wf p s \<longleftrightarrow> frame_ok p s \<and>
     (\<forall>i<1024. if tab p s i = 0 then pde p s i AND 1 = 0
        else table_ok p s (tab p s i) \<and> pde p s i = tab p s i OR 7 \<and>
          (\<forall>j<1024. tab p s j = tab p s i \<longrightarrow> j = i))"

lemma brk_less: "brk_of s < 2 ^ 32"
  using unat_u32[of "heap_ptr (mem s)"] by simp

lemma apart_tables: "4096 dvd unat a \<Longrightarrow> 4096 dvd unat b \<Longrightarrow> a \<noteq> b \<Longrightarrow> apart a 4096 b 4096"
proof -
  assume "4096 dvd unat a" "4096 dvd unat b" "a \<noteq> b"
  then obtain x y where "unat a = 4096 * x" "unat b = 4096 * y" by (auto simp: dvd_def)
  moreover have "unat a \<noteq> unat b" using \<open>a \<noteq> b\<close> unfolding word_unat_eq_iff .
  ultimately show ?thesis by (auto simp: apart_def)
qed

lemma entry_apart:
  assumes "unat a + 4096 \<le> 2 ^ 32" and "unat b + 4096 \<le> 2 ^ 32" and "i < 1024" and "j < 1024"
    and "apart a 4096 b 4096 \<or> a = b \<and> i \<noteq> j"
  shows "apart (entry a i) 4 (entry b j) 4"
proof -
  have ij: "unat i < 1024" "unat j < 1024" using assms(3,4) by (simp_all add: word_less_nat_alt)
  from assms(5) show ?thesis
  proof
    assume "apart a 4096 b 4096"
    then show ?thesis using assms(1-4) ij by (auto simp: apart_def unat_entry)
  next
    assume ab: "a = b \<and> i \<noteq> j"
    then have "i \<noteq> j" by simp
    then have "unat i \<noteq> unat j" unfolding word_unat_eq_iff .
    then show ?thesis using ab assms(1-4) by (auto simp: apart_def unat_entry)
  qed
qed

lemma entry_room: "unat a + 4096 \<le> 2 ^ 32 \<Longrightarrow> i < 1024 \<Longrightarrow> unat (entry a i) + 4 \<le> 2 ^ 32"
  using unat_entry[of a i] by (simp add: word_less_nat_alt)

text \<open>A write to an array of words, as every reader of such arrays sees it.\<close>

lemma peek_poke_entry:
  assumes "unat a + 4096 \<le> 2 ^ 32" and "unat b + 4096 \<le> 2 ^ 32" and "i < 1024" and "j < 1024"
    and "apart a 4096 b 4096 \<or> a = b"
  shows "peek (entry b j) (poke (entry a i) v s) = (if a = b \<and> i = j then v else peek (entry b j) s)"
proof (cases "a = b \<and> i = j")
  case False
  then have "apart (entry a i) 4 (entry b j) 4" using assms by (intro entry_apart) auto
  then have "peek (entry b j) (poke (entry a i) v s) = peek (entry b j) s"
    using assms(1-4) by (intro peek_poke_apart entry_room)
  then show ?thesis using False by auto
qed simp

lemma peek_field_poke:
  assumes "unat a + 4096 \<le> 2 ^ 32" and "i < 1024" and "apart a 4096 p 12" and "unat p + 12 \<le> 2 ^ 32"
  shows "directory p (poke (entry a i) v s) = directory p s" and "tables p (poke (entry a i) v s) = tables p s"
    and "physical_addr p (poke (entry a i) v s) = physical_addr p s"
proof -
  have i: "unat i < 1024" using assms(2) by (simp add: word_less_nat_alt)
  have e: "unat (entry a i) = unat a + 4 * unat i" by (rule unat_entry[OF assms(1,2)])
  have p: "unat (p + 4) = unat p + 4" "unat (p + 8) = unat p + 8" using assms(4) by (simp_all add: unat_add_no_wrap)
  have "apart (entry a i) 4 p 4" "apart (entry a i) 4 (p + 4) 4" "apart (entry a i) 4 (p + 8) 4"
    using assms(3) e i p by (auto simp: apart_def)
  then show "directory p (poke (entry a i) v s) = directory p s" "tables p (poke (entry a i) v s) = tables p s"
    "physical_addr p (poke (entry a i) v s) = physical_addr p s"
    using e i p assms(1,4) unfolding directory_def tables_def physical_addr_def
    by (simp_all add: peek_poke_apart)
qed

lemma ctx_wf_frame: "ctx_wf p s \<Longrightarrow> frame_ok p s"
  by (simp add: ctx_wf_def)

lemma ctx_wf_table:
  assumes "ctx_wf p s" and "i < 1024" and "tab p s i \<noteq> 0"
  shows "table_ok p s (tab p s i)" and "pde p s i = tab p s i OR 7"
    and "j < 1024 \<Longrightarrow> tab p s j = tab p s i \<Longrightarrow> j = i"
  using assms by (simp_all add: ctx_wf_def)

lemma ctx_wf_room:
  assumes "ctx_wf p s"
  shows "unat (tables p s) + 4096 \<le> 2 ^ 32" and "unat (directory p s) + 4096 \<le> 2 ^ 32" and "unat p + 12 \<le> 2 ^ 32"
    and "i < 1024 \<Longrightarrow> tab p s i \<noteq> 0 \<Longrightarrow> unat (tab p s i) + 4096 \<le> 2 ^ 32"
  using ctx_wf_frame[OF assms] ctx_wf_table(1)[OF assms, of i] brk_less[of s]
  by (simp_all add: frame_ok_def table_ok_def)

lemma heap_poke [simp]: "heap_ptr (mem (poke a v s)) = heap_ptr (mem s)"
  by (simp add: poke_def set_word_def)

lemma heap_zero [simp]: "heap_ptr (mem (zero_bytes a n s)) = heap_ptr (mem s)"
  by (simp add: zero_bytes_def)

lemma frame_ok_cong:
  assumes "frame_ok p s" and "directory p s' = directory p s" and "tables p s' = tables p s"
    and "physical_addr p s' = physical_addr p s" and "brk_of s \<le> brk_of s'"
  shows "frame_ok p s'"
  using assms by (simp add: frame_ok_def)

lemma table_ok_cong:
  assumes "table_ok p s e" and "directory p s' = directory p s" and "tables p s' = tables p s" and "brk_of s \<le> brk_of s'"
  shows "table_ok p s' e"
  using assms by (simp add: table_ok_def)

lemma ctx_wf_cong:
  assumes "ctx_wf p s" and e: "directory p s' = directory p s" "tables p s' = tables p s"
    "physical_addr p s' = physical_addr p s" "brk_of s \<le> brk_of s'"
    and t: "\<And>k. k < 1024 \<Longrightarrow> tab p s' k = tab p s k" and d: "\<And>k. k < 1024 \<Longrightarrow> pde p s' k = pde p s k"
  shows "ctx_wf p s'"
  using assms(1) frame_ok_cong[OF _ e] table_ok_cong[OF _ e(1,2,4)] by (auto simp: ctx_wf_def t d)

text \<open>Writing entry \<open>j\<close> of table \<open>i\<close>.\<close>

lemma poke_pte_view:
  fixes v :: u32
  assumes wf: "ctx_wf p s" and i: "i < 1024" and t: "tab p s i \<noteq> 0" and j: "j < 1024"
  defines "s' \<equiv> poke (entry (tab p s i) j) v s"
  shows "directory p s' = directory p s" and "tables p s' = tables p s" and "physical_addr p s' = physical_addr p s"
    and "k < 1024 \<Longrightarrow> tab p s' k = tab p s k" and "k < 1024 \<Longrightarrow> pde p s' k = pde p s k"
    and "k < 1024 \<Longrightarrow> l < 1024 \<Longrightarrow> tab p s k \<noteq> 0 \<Longrightarrow>
      pte p s' k l = (if k = i \<and> l = j then v else pte p s k l)"
proof -
  note room = ctx_wf_room[OF wf]
  have ok: "table_ok p s (tab p s i)" by (rule ctx_wf_table(1)[OF wf i t])
  then have a: "apart (tab p s i) 4096 p 12" "apart (tab p s i) 4096 (directory p s) 4096"
    "apart (tab p s i) 4096 (tables p s) 4096" by (simp_all add: table_ok_def)
  show f: "directory p s' = directory p s" "tables p s' = tables p s" "physical_addr p s' = physical_addr p s"
    unfolding s'_def using peek_field_poke[OF room(4)[OF i t] j a(1) room(3)] by simp_all
  have ne: "tab p s i \<noteq> tables p s" "tab p s i \<noteq> directory p s" using a by (auto simp: apart_def)
  show tab: "tab p s' k = tab p s k" if "k < 1024" for k
    unfolding tab_def f(2) using peek_poke_entry[OF room(4)[OF i t] room(1) j that, of v s] a(3) ne(1)
    by (simp add: s'_def tab_def)
  show "pde p s' k = pde p s k" if "k < 1024"
    unfolding pde_def f(1) using peek_poke_entry[OF room(4)[OF i t] room(2) j that, of v s] a(2) ne(2)
    by (simp add: s'_def)
  show "pte p s' k l = (if k = i \<and> l = j then v else pte p s k l)" if k: "k < 1024" "l < 1024" "tab p s k \<noteq> 0"
  proof -
    have "apart (tab p s i) 4096 (tab p s k) 4096 \<or> tab p s i = tab p s k"
      using apart_tables ok ctx_wf_table(1)[OF wf k(1,3)] by (auto simp: table_ok_def)
    moreover have "tab p s i = tab p s k \<longleftrightarrow> i = k" using ctx_wf_table(3)[OF wf k(1,3) i] by auto
    ultimately show ?thesis
      unfolding pte_def tab[OF k(1)]
      using peek_poke_entry[OF room(4)[OF i t] room(4)[OF k(1,3)] j k(2), of v s] by (auto simp: s'_def)
  qed
qed

lemma ctx_wf_poke_pte:
  assumes wf: "ctx_wf p s" and i: "i < 1024" and t: "tab p s i \<noteq> 0" and j: "j < 1024"
  shows "ctx_wf p (poke (entry (tab p s i) j) v s)"
  using poke_pte_view[OF assms, where v = v] by (intro ctx_wf_cong[OF wf]) simp_all

text \<open>The walk of the processor, for a well-formed context.\<close>

definition walk :: "u32 \<Rightarrow> paging_state \<Rightarrow> u32 \<Rightarrow> (u32 \<times> u32) option" where
  "walk p s v =
     (if tab p s (pd_index v) = 0 then None
      else (let e = pte p s (pd_index v) (pt_index v) in
            if e AND 1 = 0 then None else Some ((e AND 0xFFFFF000) OR (v AND 0xFFF), e AND 6)))"

lemma mmu_walk:
  assumes "ctx_wf p s"
  shows "mmu (physical_addr p s) (m_ram (mem s)) v = walk p s v"
proof -
  have d: "physical_addr p s = directory p s" "4096 dvd unat (directory p s)"
    using ctx_wf_frame[OF assms] by (simp_all add: frame_ok_def)
  have p: "rd32 (m_ram (mem s)) (entry (directory p s) (pd_index v)) = pde p s (pd_index v)"
    by (simp add: pde_def peek_def)
  show ?thesis
  proof (cases "tab p s (pd_index v) = 0")
    case True
    then have "pde p s (pd_index v) AND 1 = 0" using assms pd_index_less[of v] by (auto simp: ctx_wf_def)
    then show ?thesis using True p by (simp add: mmu_def walk_def d aligned_mask flip: pd_index_def)
  next
    case False
    let ?e = "tab p s (pd_index v)"
    have t: "4096 dvd unat ?e" "pde p s (pd_index v) = ?e OR 7"
      using ctx_wf_table(1,2)[OF assms pd_index_less False] by (simp_all add: table_ok_def)
    have "rd32 (m_ram (mem s)) (entry ?e (pt_index v)) = pte p s (pd_index v) (pt_index v)"
      by (simp add: pte_def peek_def)
    then show ?thesis
      using False p t table_entry_bits[OF t(1)]
      by (simp add: mmu_def walk_def d aligned_mask Let_def flip: pd_index_def pt_index_def)
  qed
qed

lemma get_physical_walk:
  "paging_get_physical p v s = (case walk p s v of None \<Rightarrow> 0 | Some (a, r) \<Rightarrow> a)"
  by (simp add: paging_get_physical_def walk_def tab_def pte_def PAGE_PRESENT_def Let_def)

text \<open>Clearing a page.\<close>

lemma peek_zero_entry:
  assumes "unat a + 4096 \<le> 2 ^ 32" and "unat b + 4096 \<le> 2 ^ 32" and "j < 1024"
  shows "apart a 4096 b 4096 \<Longrightarrow> peek (entry b j) (zero_bytes a 4096 s) = peek (entry b j) s"
    and "peek (entry a j) (zero_bytes a 4096 s) = 0"
proof -
  have j: "unat j < 1024" using assms(3) by (simp add: word_less_nat_alt)
  note e = unat_entry[OF assms(1,3)] unat_entry[OF assms(2,3)]
  show "peek (entry a j) (zero_bytes a 4096 s) = 0"
    using assms(1) e j by (intro peek_zero_inside) simp_all
  assume "apart a 4096 b 4096"
  then have "apart a 4096 (entry b j) 4" using e j by (auto simp: apart_def)
  then show "peek (entry b j) (zero_bytes a 4096 s) = peek (entry b j) s"
    using assms entry_room by (intro peek_zero_apart)
qed

lemma peek_field_zero:
  assumes "unat a + n \<le> 2 ^ 32" and "apart a n p 12" and "unat p + 12 \<le> 2 ^ 32"
  shows "directory p (zero_bytes a n s) = directory p s" and "tables p (zero_bytes a n s) = tables p s"
    and "physical_addr p (zero_bytes a n s) = physical_addr p s"
proof -
  have p: "unat (p + 4) = unat p + 4" "unat (p + 8) = unat p + 8" using assms(3) by (simp_all add: unat_add_no_wrap)
  have "apart a n p 4" "apart a n (p + 4) 4" "apart a n (p + 8) 4"
    using assms(2) p by (auto simp: apart_def)
  then show "directory p (zero_bytes a n s) = directory p s" "tables p (zero_bytes a n s) = tables p s"
    "physical_addr p (zero_bytes a n s) = physical_addr p s"
    using p assms(1,3) unfolding directory_def tables_def physical_addr_def
    by (simp_all add: peek_zero_apart)
qed

lemma apart_sym: "apart a n b m \<longleftrightarrow> apart b m a n"
  by (auto simp: apart_def)

lemma apart_neq: "apart a 4096 b 4096 \<Longrightarrow> a \<noteq> b"
  by (auto simp: apart_def)

lemma pg_kmalloc_aligned_page:
  assumes "brk_of s + 8192 < 2 ^ 32" and "0 < brk_of s" and "pg_kmalloc_aligned 4096 4096 s = (a, s1)"
  shows "brk_of s \<le> unat a" and "unat a + 4096 \<le> brk_of s1" and "brk_of s1 = brk_of s + 8192" and "4096 dvd unat a"
    and "peek x s1 = peek x s" and "m_ram (mem s1) = m_ram (mem s)" and "s1 = s\<lparr>mem := mem s1\<rparr>"
proof -
  obtain m where m: "kmalloc_aligned 4096 (2 ^ 12) (mem s) = (a, m)" and s1: "s1 = s\<lparr>mem := m\<rparr>"
    using assms(3) by (auto simp: pg_kmalloc_aligned_def split: prod.splits)
  have h: "brk_of s + unat (4096 :: u32) + 2 ^ 12 < 2 ^ 32" "heap_ptr (mem s) \<noteq> 0" using assms(1,2) by auto
  note b = kmalloc_aligned_block[OF h(1) _ h(2) m]
  show "brk_of s \<le> unat a" "unat a + 4096 \<le> brk_of s1" "brk_of s1 = brk_of s + 8192" "4096 dvd unat a"
    "m_ram (mem s1) = m_ram (mem s)" "peek x s1 = peek x s" "s1 = s\<lparr>mem := mem s1\<rparr>"
    using b s1 by (simp_all add: peek_def)
qed

text \<open>The bytes a context occupies; operations on it leave all other allocated bytes alone.\<close>

definition within :: "u32 \<Rightarrow> nat \<Rightarrow> u32 \<Rightarrow> bool" where
  "within a n x \<longleftrightarrow> unat a \<le> unat x \<and> unat x < unat a + n"

definition ctx_area :: "u32 \<Rightarrow> paging_state \<Rightarrow> u32 \<Rightarrow> bool" where
  "ctx_area p s x \<longleftrightarrow> within p 12 x \<or> within (tables p s) 4096 x \<or> within (directory p s) 4096 x \<or>
     (\<exists>i<1024. tab p s i \<noteq> 0 \<and> within (tab p s i) 4096 x)"

lemma ram_poke_entry:
  "unat a + 4096 \<le> 2 ^ 32 \<Longrightarrow> i < 1024 \<Longrightarrow> \<not> within a 4096 x \<Longrightarrow> m_ram (mem (poke (entry a i) v s)) x = m_ram (mem s) x"
  unfolding poke_def set_word_def wr32_def within_def
  using unat_entry[of a i] by (auto intro!: ram_put_beside simp: word_less_nat_alt)

lemma ram_zero_bytes:
  "unat a + n \<le> 2 ^ 32 \<Longrightarrow> \<not> within a n x \<Longrightarrow> m_ram (mem (zero_bytes a n s)) x = m_ram (mem s) x"
  unfolding zero_bytes_def within_def by (auto intro!: ram_put_beside)

lemma poke_pte_area:
  assumes "ctx_wf p s" and "i < 1024" and "tab p s i \<noteq> 0" and "j < 1024" and "\<not> ctx_area p s x"
  shows "m_ram (mem (poke (entry (tab p s i) j) v s)) x = m_ram (mem s) x"
    and "\<not> ctx_area p (poke (entry (tab p s i) j) v s) x"
proof -
  have "\<not> within (tab p s i) 4096 x" using assms(2,3,5) by (auto simp: ctx_area_def)
  then show "m_ram (mem (poke (entry (tab p s i) j) v s)) x = m_ram (mem s) x"
    by (intro ram_poke_entry ctx_wf_room(4) assms)
  show "\<not> ctx_area p (poke (entry (tab p s i) j) v s) x"
    using assms(5) poke_pte_view[OF assms(1-4), where v = v] by (auto simp: ctx_area_def)
qed

text \<open>What installing a page does, both at boot and for a new table: the pointer is stored, the page cleared,
  the directory entry set.\<close>

definition link_table :: "u32 \<Rightarrow> u32 \<Rightarrow> u32 \<Rightarrow> paging_state \<Rightarrow> paging_state" where
  "link_table p i a s =
     (let s = poke (entry (tables p s) i) a s;
          s = zero_bytes (peek (entry (tables p s) i) s) 4096 s
      in poke (entry (directory p s) i) (peek (entry (tables p s) i) s OR PAGE_PRESENT OR PAGE_WRITE OR PAGE_USER) s)"

lemma new_table_link:
  "pg_kmalloc_aligned 4096 4096 s = (a, s1) \<Longrightarrow> new_table p i s = link_table p i a s1"
  by (simp add: new_table_def link_table_def virt_to_phys_def Let_def)

lemma link_table_view:
  assumes wf: "ctx_wf p s" and i: "i < 1024" and a: "table_ok p s a" and new: "\<forall>k<1024. tab p s k \<noteq> a"
  defines "s' \<equiv> link_table p i a s"
  shows "directory p s' = directory p s" and "tables p s' = tables p s" and "physical_addr p s' = physical_addr p s"
    and "brk_of s' = brk_of s"
    and "k < 1024 \<Longrightarrow> tab p s' k = (if k = i then a else tab p s k)"
    and "k < 1024 \<Longrightarrow> pde p s' k = (if k = i then a OR 7 else pde p s k)"
    and "k < 1024 \<Longrightarrow> l < 1024 \<Longrightarrow> tab p s' k \<noteq> 0 \<Longrightarrow> pte p s' k l = (if k = i then 0 else pte p s k l)"
    and "\<not> ctx_area p s x \<Longrightarrow> \<not> within a 4096 x \<Longrightarrow> m_ram (mem s') x = m_ram (mem s) x"
proof -
  have f: "frame_ok p s" by (rule ctx_wf_frame[OF wf])
  let ?t = "tables p s" and ?d = "directory p s"
  note rm = ctx_wf_room[OF wf]
  have ra: "unat a + 4096 \<le> 2 ^ 32" using a brk_less[of s] by (simp add: table_ok_def)
  have ap: "apart ?t 4096 p 12" "apart ?d 4096 p 12" "apart a 4096 p 12" "apart a 4096 ?t 4096" "apart a 4096 ?d 4096"
    "apart ?d 4096 ?t 4096"
    using f a by (auto simp: frame_ok_def table_ok_def apart_def)
  define s2 where "s2 = poke (entry ?t i) a s"
  define s3 where "s3 = zero_bytes a 4096 s2"
  have f2: "directory p s2 = ?d" "tables p s2 = ?t" "physical_addr p s2 = physical_addr p s"
    unfolding s2_def peek_field_poke[OF rm(1) i ap(1) rm(3)] by simp_all
  have f3: "directory p s3 = ?d" "tables p s3 = ?t" "physical_addr p s3 = physical_addr p s"
    unfolding s3_def peek_field_zero[OF ra ap(3) rm(3)] by (simp_all add: f2)
  have e2: "peek (entry ?t i) s2 = a" by (simp add: s2_def)
  have e3: "peek (entry ?t i) s3 = a"
    unfolding s3_def peek_zero_entry(1)[OF ra rm(1) i ap(4)] by (rule e2)
  have s': "s' = poke (entry ?d i) (a OR 7) s3"
    unfolding s'_def link_table_def
    by (simp add: f2 e2 f3 e3 PAGE_PRESENT_def PAGE_WRITE_def PAGE_USER_def word_bw_assocs flip: s2_def s3_def)
  show f': "directory p s' = ?d" "tables p s' = ?t" "physical_addr p s' = physical_addr p s"
    unfolding s' peek_field_poke[OF rm(2) i ap(2) rm(3)] by (rule f3)+
  show "brk_of s' = brk_of s" by (simp add: s' s3_def s2_def)
  show tab: "tab p s' k = (if k = i then a else tab p s k)" if k: "k < 1024" for k
  proof -
    have "tab p s' k = peek (entry ?t k) s3"
      unfolding tab_def f'(2) unfolding s'
      using peek_poke_entry[OF rm(2,1) i k, of "a OR 7" s3] ap(6) apart_neq[OF ap(6)] by simp
    also have "\<dots> = peek (entry ?t k) s2" unfolding s3_def by (rule peek_zero_entry(1)[OF ra rm(1) k ap(4)])
    also have "\<dots> = (if k = i then a else tab p s k)"
      using peek_poke_entry[OF rm(1,1) i k, of a s] by (auto simp: s2_def tab_def)
    finally show ?thesis .
  qed
  show "pde p s' k = (if k = i then a OR 7 else pde p s k)" if k: "k < 1024" for k
  proof -
    have "peek (entry ?d k) s3 = peek (entry ?d k) s2" unfolding s3_def by (rule peek_zero_entry(1)[OF ra rm(2) k ap(5)])
    also have "\<dots> = pde p s k"
      using peek_poke_entry[OF rm(1,2) i k, of a s] ap(6) apart_neq[OF ap(6)] by (simp add: s2_def pde_def apart_sym)
    finally show ?thesis
      unfolding pde_def f'(1) unfolding s' using peek_poke_entry[OF rm(2,2) i k, of "a OR 7" s3] by (auto simp: pde_def)
  qed
  show "pte p s' k l = (if k = i then 0 else pte p s k l)" if k: "k < 1024" "l < 1024" "tab p s' k \<noteq> 0"
  proof (cases "k = i")
    case True
    have "peek (entry a l) s' = 0"
      unfolding s' using peek_poke_entry[OF rm(2) ra i k(2), of "a OR 7" s3] ap(5) apart_neq[OF ap(5)]
        peek_zero_entry(2)[OF ra ra k(2), of s2]
      by (simp add: apart_sym flip: s3_def)
    then show ?thesis using True by (simp add: pte_def tab[OF i])
  next
    case False
    then have tk: "tab p s k \<noteq> 0" using tab[OF k(1)] k(3) by simp
    let ?e = "tab p s k"
    have ok: "table_ok p s ?e" by (rule ctx_wf_table(1)[OF wf k(1) tk])
    have o: "apart ?e 4096 ?d 4096" "apart ?e 4096 ?t 4096" using ok by (simp_all add: table_ok_def)
    have oa: "apart a 4096 ?e 4096" using a ok new k(1) by (intro apart_tables) (auto simp: table_ok_def)
    note re = rm(4)[OF k(1) tk]
    have "peek (entry ?e l) s' = peek (entry ?e l) s3"
      using peek_poke_entry[OF rm(2) re i k(2), of "a OR 7" s3] o(1) apart_neq[OF o(1)] unfolding s' by (simp add: apart_sym)
    also have "\<dots> = peek (entry ?e l) s2" unfolding s3_def by (rule peek_zero_entry(1)[OF ra re k(2) oa])
    also have "\<dots> = peek (entry ?e l) s"
      using peek_poke_entry[OF rm(1) re i k(2), of a s] o(2) apart_neq[OF o(2)] by (simp add: s2_def apart_sym)
    finally show ?thesis using False by (simp add: pte_def tab[OF k(1)])
  qed
  show "m_ram (mem s') x = m_ram (mem s) x" if x: "\<not> ctx_area p s x" "\<not> within a 4096 x"
  proof -
    have "\<not> within ?d 4096 x" "\<not> within ?t 4096 x" using x(1) by (simp_all add: ctx_area_def)
    then show ?thesis
      using ram_poke_entry[OF rm(2) i] ram_zero_bytes[OF ra x(2)] ram_poke_entry[OF rm(1) i]
      by (simp add: s' s3_def s2_def)
  qed
qed

lemma ctx_wf_link_table:
  assumes wf: "ctx_wf p s" and i: "i < 1024" and a: "table_ok p s a" "a \<noteq> 0" and new: "\<forall>k<1024. tab p s k \<noteq> a"
  shows "ctx_wf p (link_table p i a s)"
proof -
  note v = link_table_view[OF wf i a(1) new]
  let ?s = "link_table p i a s"
  have ok: "table_ok p ?s e" if "table_ok p s e" for e
    by (rule table_ok_cong[OF that v(1,2)]) (simp add: v(4))
  have "frame_ok p ?s" by (rule frame_ok_cong[OF ctx_wf_frame[OF wf] v(1-3)]) (simp add: v(4))
  moreover have "if tab p ?s k = 0 then pde p ?s k AND 1 = 0
      else table_ok p ?s (tab p ?s k) \<and> pde p ?s k = tab p ?s k OR 7 \<and>
        (\<forall>j<1024. tab p ?s j = tab p ?s k \<longrightarrow> j = k)" if k: "k < 1024" for k
  proof (cases "k = i")
    case True
    then show ?thesis using v(5,6) i ok[OF a(1)] a(2) new by auto
  next
    case False
    note e = v(5)[OF k] v(6)[OF k]
    show ?thesis
    proof (cases "tab p s k = 0")
      case True
      then show ?thesis using e False wf k by (auto simp: ctx_wf_def)
    next
      case nz: False
      have "j = k" if "j < 1024" "tab p ?s j = tab p ?s k" for j
        using that v(5)[OF that(1)] new k e(1) False ctx_wf_table(3)[OF wf k nz that(1)] by (auto split: if_splits)
      then show ?thesis using nz e False ok[OF ctx_wf_table(1)[OF wf k nz]] ctx_wf_table(2)[OF wf k nz] by simp
    qed
  qed
  ultimately show ?thesis by (simp add: ctx_wf_def)
qed

lemma link_table_area:
  assumes wf: "ctx_wf p s" and i: "i < 1024" and a: "table_ok p s a" and new: "\<forall>k<1024. tab p s k \<noteq> a"
    and x: "\<not> ctx_area p s x" "\<not> within a 4096 x"
  shows "m_ram (mem (link_table p i a s)) x = m_ram (mem s) x" and "\<not> ctx_area p (link_table p i a s) x"
proof -
  note v = link_table_view[OF wf i a new]
  show "m_ram (mem (link_table p i a s)) x = m_ram (mem s) x" by (rule v(8)[OF x])
  have "\<not> within (tab p (link_table p i a s) k) 4096 x" if k: "k < 1024" "tab p (link_table p i a s) k \<noteq> 0" for k
    using v(5)[OF k(1)] k x by (auto simp: ctx_area_def split: if_splits)
  then show "\<not> ctx_area p (link_table p i a s) x" using x(1) v(1,2) by (auto simp: ctx_area_def)
qed

text \<open>A new table comes from the heap, above everything the context has.\<close>

lemma new_table_from_heap:
  assumes wf: "ctx_wf p s" and room: "brk_of s + 8192 < 2 ^ 32"
  obtains a s1 where "new_table p i s = link_table p i a s1" and "ctx_wf p s1" and "table_ok p s1 a" and "a \<noteq> 0"
    and "\<forall>k<1024. tab p s1 k \<noteq> a" and "brk_of s \<le> unat a" and "brk_of s1 = brk_of s + 8192"
    and "m_ram (mem s1) = m_ram (mem s)" and "\<And>x. peek x s1 = peek x s"
proof -
  obtain a s1 where a: "pg_kmalloc_aligned 4096 4096 s = (a, s1)" by fastforce
  have f: "frame_ok p s" by (rule ctx_wf_frame[OF wf])
  then have pos: "0 < brk_of s" by (simp add: frame_ok_def)
  note al = pg_kmalloc_aligned_page[OF room pos a]
  have s1: "directory p s1 = directory p s" "tables p s1 = tables p s" "physical_addr p s1 = physical_addr p s"
    "tab p s1 = tab p s" "pde p s1 = pde p s"
    by (simp_all add: directory_def tables_def physical_addr_def tab_def pde_def al(5) fun_eq_iff)
  have wf1: "ctx_wf p s1" by (rule ctx_wf_cong[OF wf s1(1-3)]) (simp_all add: al(3) s1)
  have ok: "table_ok p s1 a" using f al(1,2,4) by (auto simp: table_ok_def frame_ok_def apart_def s1)
  have "\<forall>k<1024. tab p s1 k \<noteq> a"
  proof (intro allI impI notI)
    fix k :: u32
    assume k: "k < 1024" and e: "tab p s1 k = a"
    then have "tab p s k \<noteq> 0" using al(1) pos s1(4) by auto
    then have "unat a + 4096 \<le> brk_of s" using ctx_wf_table(1)[OF wf k] e s1(4) by (simp add: table_ok_def)
    then show False using al(1) by simp
  qed
  moreover have "a \<noteq> 0" using al(1) pos by auto
  ultimately show ?thesis using that[OF new_table_link[OF a] wf1 ok _ _ al(1,3,6,5)] by blast
qed

lemma new_table_wf:
  assumes wf: "ctx_wf p s" and i: "i < 1024" and t: "tab p s i = 0" and room: "brk_of s + 8192 < 2 ^ 32"
  shows "ctx_wf p (new_table p i s)" and "tab p (new_table p i s) i \<noteq> 0"
    and "physical_addr p (new_table p i s) = physical_addr p s" and "brk_of (new_table p i s) = brk_of s + 8192"
    and "walk p (new_table p i s) v = walk p s v"
    and "unat x < brk_of s \<Longrightarrow> \<not> ctx_area p s x \<Longrightarrow>
      m_ram (mem (new_table p i s)) x = m_ram (mem s) x \<and> \<not> ctx_area p (new_table p i s) x"
proof -
  obtain a s1 where n: "new_table p i s = link_table p i a s1" "ctx_wf p s1" "table_ok p s1 a" "a \<noteq> 0"
    "\<forall>k<1024. tab p s1 k \<noteq> a" "brk_of s \<le> unat a" "brk_of s1 = brk_of s + 8192"
    "m_ram (mem s1) = m_ram (mem s)" "\<And>x. peek x s1 = peek x s"
    by (rule new_table_from_heap[OF wf room, of i]) (rule that)
  note v = link_table_view[OF n(2) i n(3,5)]
  have s1: "physical_addr p s1 = physical_addr p s" "tab p s1 = tab p s" "pte p s1 = pte p s"
    "tables p s1 = tables p s" "directory p s1 = directory p s"
    by (simp_all add: physical_addr_def tables_def directory_def tab_def pte_def n(9) fun_eq_iff)
  show "ctx_wf p (new_table p i s)" unfolding n(1) by (rule ctx_wf_link_table[OF n(2) i n(3,4,5)])
  show "tab p (new_table p i s) i \<noteq> 0" using v(5)[OF i] n(1,4) by simp
  show "physical_addr p (new_table p i s) = physical_addr p s" "brk_of (new_table p i s) = brk_of s + 8192"
    using v(3,4) n(1,7) s1(1) by simp_all
  show "walk p (new_table p i s) v = walk p s v"
  proof (cases "pd_index v = i")
    case True
    then show ?thesis
      using v(5,7)[OF i] pt_index_less[of v] n(4) t by (simp add: walk_def n(1) Let_def)
  next
    case False
    then show ?thesis
      using v(5)[OF pd_index_less] v(7)[OF pd_index_less pt_index_less] by (simp add: walk_def n(1) s1 Let_def)
  qed
  show "m_ram (mem (new_table p i s)) x = m_ram (mem s) x \<and> \<not> ctx_area p (new_table p i s) x"
    if x: "unat x < brk_of s" "\<not> ctx_area p s x"
  proof -
    have "\<not> ctx_area p s1 x" using x(2) by (simp add: ctx_area_def s1)
    moreover have "\<not> within a 4096 x" using n(6) x(1) by (simp add: within_def)
    ultimately show ?thesis using link_table_area[OF n(2) i n(3,5)] n(1,8) by simp
  qed
qed

section \<open>Mapping pages\<close>

lemma same_page: "v AND 0xFFFFF000 = w AND 0xFFFFF000 \<longleftrightarrow> pd_index v = pd_index w \<and> pt_index v = pt_index w"
proof
  assume "v AND 0xFFFFF000 = w AND 0xFFFFF000"
  then have "drop_bit 12 (v AND NOT (mask 12)) = drop_bit 12 (w AND NOT (mask 12))" by (simp only: page_mask)
  moreover have "drop_bit 12 (u AND NOT (mask 12)) = drop_bit 12 u" for u :: u32
    by (rule bit_word_eqI) (auto simp: bit_simps dest: bit_imp_le_length)
  ultimately have d: "drop_bit 12 v = drop_bit 12 w" by simp
  have "drop_bit 22 u = drop_bit 10 (drop_bit 12 u)" for u :: u32 by simp
  then have "drop_bit 22 v = drop_bit 22 w" by (metis d)
  then show "pd_index v = pd_index w \<and> pt_index v = pt_index w" by (simp add: pd_index_def pt_index_def d)
next
  assume a: "pd_index v = pd_index w \<and> pt_index v = pt_index w"
  have m: "(0x3FF :: u32) = mask 10" by (simp add: mask_eq_exp_minus_1)
  show "v AND 0xFFFFF000 = w AND 0xFFFFF000" unfolding page_mask
  proof (rule bit_word_eqI)
    fix n assume n: "n < LENGTH(32)"
    have hi: "bit (drop_bit 22 v) k = bit (drop_bit 22 w) k" for k using a by (simp only: pd_index_def)
    have lo: "bit (drop_bit 12 v AND mask 10) k = bit (drop_bit 12 w AND mask 10) k" for k
      using a by (simp only: pt_index_def m)
    show "bit (v AND NOT (mask 12)) n = bit (w AND NOT (mask 12)) n"
    proof (cases "22 \<le> n")
      case True
      then show ?thesis using hi[of "n - 22"] by (simp add: bit_simps)
    next
      case False
      then show ?thesis using lo[of "n - 12"] by (auto simp: bit_simps)
    qed
  qed
qed

lemma flags_bits:
  assumes "unat (f :: u32) < 4096"
  shows "((p AND 0xFFFFF000) OR f) AND 0xFFFFF000 = p AND 0xFFFFF000"
    and "((p AND 0xFFFFF000) OR f) AND 1 = f AND 1" and "((p AND 0xFFFFF000) OR f) AND 6 = f AND 6"
proof -
  have "unat (f AND NOT (mask 12)) = 0" using assms by (simp add: and_not_mask_unat)
  then have "f AND 0xFFFFF000 = 0" unfolding page_mask by (simp only: unat_eq_0)
  then show "((p AND 0xFFFFF000) OR f) AND 0xFFFFF000 = p AND 0xFFFFF000" by (simp add: word_ao_dist word_bw_assocs)
  show "((p AND 0xFFFFF000) OR f) AND 1 = f AND 1" "((p AND 0xFFFFF000) OR f) AND 6 = f AND 6"
    by (simp_all add: word_ao_dist word_bw_assocs)
qed

lemma field_invlpg [simp]:
  "mem (invlpg v s) = mem s" "peek a (invlpg v s) = peek a s" "directory p (invlpg v s) = directory p s"
  "tables p (invlpg v s) = tables p s" "physical_addr p (invlpg v s) = physical_addr p s" "tab p (invlpg v s) = tab p s"
  "pde p (invlpg v s) = pde p s" "pte p (invlpg v s) = pte p s" "walk p (invlpg v s) = walk p s"
  "ctx_wf p (invlpg v s) = ctx_wf p s" "ctx_area p (invlpg v s) = ctx_area p s"
  by (simp_all add: invlpg_def peek_def directory_def tables_def physical_addr_def tab_def pde_def pte_def
      walk_def ctx_wf_def frame_ok_def table_ok_def ctx_area_def fun_eq_iff)

text \<open>Making sure there is a table does not change any translation.\<close>

definition with_table :: "u32 \<Rightarrow> u32 \<Rightarrow> paging_state \<Rightarrow> paging_state" where
  "with_table p i s = (if tab p s i = 0 then new_table p i s else s)"

lemma with_table:
  assumes wf: "ctx_wf p s" and i: "i < 1024" and room: "brk_of s + 8192 < 2 ^ 32"
  defines "s' \<equiv> with_table p i s"
  shows "ctx_wf p s'" and "tab p s' i \<noteq> 0" and "walk p s' v = walk p s v" and "physical_addr p s' = physical_addr p s"
    and "brk_of s \<le> brk_of s'" and "brk_of s' \<le> brk_of s + 8192"
    and "unat x < brk_of s \<Longrightarrow> \<not> ctx_area p s x \<Longrightarrow> m_ram (mem s') x = m_ram (mem s) x \<and> \<not> ctx_area p s' x"
  using new_table_wf[OF wf i _ room] wf by (auto simp: s'_def with_table_def)

lemma walk_poke_pte:
  assumes wf: "ctx_wf p s" and t: "tab p s (pd_index v) \<noteq> 0"
  shows "walk p (poke (entry (tab p s (pd_index v)) (pt_index v)) e s) w =
    (if w AND 0xFFFFF000 = v AND 0xFFFFF000
     then (if e AND 1 = 0 then None else Some ((e AND 0xFFFFF000) OR (w AND 0xFFF), e AND 6)) else walk p s w)"
proof -
  let ?s = "poke (entry (tab p s (pd_index v)) (pt_index v)) e s"
  note u = poke_pte_view(4,6)[OF wf pd_index_less[of v] t pt_index_less[of v], where v = e]
  have "tab p ?s (pd_index w) = tab p s (pd_index w)" by (rule u(1)[OF pd_index_less])
  moreover have "pte p ?s (pd_index w) (pt_index w) =
      (if pd_index w = pd_index v \<and> pt_index w = pt_index v then e else pte p s (pd_index w) (pt_index w))"
    if "tab p s (pd_index w) \<noteq> 0" by (rule u(2)[OF pd_index_less pt_index_less that])
  ultimately show ?thesis using t by (auto simp: walk_def same_page Let_def)
qed

lemma map_page_with_table:
  "paging_map_page p v a f s =
     (let s1 = with_table p (pd_index v) s
      in invlpg v (poke (entry (tab p s1 (pd_index v)) (pt_index v)) ((a AND 0xFFFFF000) OR f) s1))"
  by (simp add: paging_map_page_def with_table_def tab_def Let_def)

lemma map_page_correct:
  fixes v a :: u32
  assumes wf: "ctx_wf p s" and room: "brk_of s + 8192 < 2 ^ 32" and f: "unat f < 4096"
  defines "s' \<equiv> paging_map_page p v a f s"
  shows "ctx_wf p s'" and "physical_addr p s' = physical_addr p s" and "brk_of s \<le> brk_of s'" and "brk_of s' \<le> brk_of s + 8192"
    and "walk p s' w = (if w AND 0xFFFFF000 = v AND 0xFFFFF000
      then (if f AND 1 = 0 then None else Some ((a AND 0xFFFFF000) OR (w AND 0xFFF), f AND 6)) else walk p s w)"
    and "unat x < brk_of s \<Longrightarrow> \<not> ctx_area p s x \<Longrightarrow> m_ram (mem s') x = m_ram (mem s) x \<and> \<not> ctx_area p s' x"
proof -
  let ?s1 = "with_table p (pd_index v) s"
  note w = with_table[OF wf pd_index_less[of v] room]
  note u = w(1) pd_index_less[of v] w(2) pt_index_less[of v]
  show "ctx_wf p s'" "physical_addr p s' = physical_addr p s" "brk_of s \<le> brk_of s'" "brk_of s' \<le> brk_of s + 8192"
    using ctx_wf_poke_pte[OF u] poke_pte_view(3)[OF u] w(4-6)
    by (simp_all add: s'_def map_page_with_table Let_def)
  show "walk p s' w = (if w AND 0xFFFFF000 = v AND 0xFFFFF000
      then (if f AND 1 = 0 then None else Some ((a AND 0xFFFFF000) OR (w AND 0xFFF), f AND 6)) else walk p s w)"
    using walk_poke_pte[OF w(1,2)] w(3) flags_bits[OF f] by (simp add: s'_def map_page_with_table Let_def)
  show "m_ram (mem s') x = m_ram (mem s) x \<and> \<not> ctx_area p s' x" if "unat x < brk_of s" "\<not> ctx_area p s x"
    using w(7)[OF that] poke_pte_area[OF u] by (simp add: s'_def map_page_with_table Let_def)
qed

lemma unmap_page_correct:
  fixes v :: u32
  assumes wf: "ctx_wf p s"
  defines "s' \<equiv> paging_unmap_page p v s"
  shows "ctx_wf p s'" and "physical_addr p s' = physical_addr p s"
    and "walk p s' w = (if w AND 0xFFFFF000 = v AND 0xFFFFF000 then None else walk p s w)"
proof -
  have s': "s' = (if tab p s (pd_index v) = 0 then s else invlpg v (poke (entry (tab p s (pd_index v)) (pt_index v)) 0 s))"
    by (simp add: s'_def paging_unmap_page_def tab_def Let_def)
  show "ctx_wf p s'" "physical_addr p s' = physical_addr p s"
    using wf ctx_wf_poke_pte[OF wf pd_index_less _ pt_index_less] poke_pte_view(3)[OF wf pd_index_less _ pt_index_less]
    by (simp_all add: s')
  show "walk p s' w = (if w AND 0xFFFFF000 = v AND 0xFFFFF000 then None else walk p s w)"
  proof (cases "tab p s (pd_index v) = 0")
    case True
    then show ?thesis by (simp add: s' walk_def same_page)
  next
    case False
    then show ?thesis using walk_poke_pte[OF wf False, of 0 w] by (simp add: s')
  qed
qed

section \<open>Address translation as a map\<close>

text \<open>What a client of the page tables relies on: mapping a page changes the translation of that page and of
  no other, and leaves the bytes it has allocated alone; \<open>ok n\<close> is well-formedness with memory for \<open>n\<close> more
  tables.\<close>

locale page_mapper =
  fixes ok :: "nat \<Rightarrow> 's \<Rightarrow> bool" and translate :: "'s \<Rightarrow> u32 \<Rightarrow> (u32 \<times> u32) option"
    and map_one :: "u32 \<Rightarrow> u32 \<Rightarrow> u32 \<Rightarrow> 's \<Rightarrow> 's" and keeps :: "u32 \<Rightarrow> 's \<Rightarrow> bool" and byte :: "'s \<Rightarrow> u32 \<Rightarrow> u8"
  assumes map_ok: "ok (Suc n) s \<Longrightarrow> unat f < 4096 \<Longrightarrow> ok n (map_one v a f s)"
    and map_translate: "ok (Suc n) s \<Longrightarrow> unat f < 4096 \<Longrightarrow> f AND 1 = 1 \<Longrightarrow>
      translate (map_one v a f s) w =
        (if w AND 0xFFFFF000 = v AND 0xFFFFF000 then Some ((a AND 0xFFFFF000) OR (w AND 0xFFF), f AND 6)
         else translate s w)"
    and map_keeps: "ok (Suc n) s \<Longrightarrow> unat f < 4096 \<Longrightarrow> keeps x s \<Longrightarrow>
      keeps x (map_one v a f s) \<and> byte (map_one v a f s) x = byte s x"
begin

fun map_pages :: "nat \<Rightarrow> u32 \<Rightarrow> u32 \<Rightarrow> u32 \<Rightarrow> 's \<Rightarrow> 's" where
  "map_pages 0 v a f s = s"
| "map_pages (Suc n) v a f s = map_pages n (v + 4096) (a + 4096) f (map_one v a f s)"

lemma map_pages_ok: "ok (n + m) s \<Longrightarrow> unat f < 4096 \<Longrightarrow> ok m (map_pages n v a f s)"
  by (induction n arbitrary: s v a) (simp_all add: map_ok)

lemma map_pages_keeps:
  "ok (n + m) s \<Longrightarrow> unat f < 4096 \<Longrightarrow> keeps x s \<Longrightarrow>
   keeps x (map_pages n v a f s) \<and> byte (map_pages n v a f s) x = byte s x"
proof (induction n arbitrary: s v a)
  case (Suc n)
  have "ok (n + m) (map_one v a f s)" "keeps x (map_one v a f s)" "byte (map_one v a f s) x = byte s x"
    using map_ok[of "n + m" s f v a] map_keeps[of "n + m" s f x v a] Suc.prems by simp_all
  then show ?case using Suc.IH[of "map_one v a f s" "v + 4096" "a + 4096"] Suc.prems(2) by simp
qed simp

text \<open>Pages mapped in a row: the last one to match a page decides, and without wrap-around there is only one.\<close>

lemma map_pages_other:
  "ok (n + m) s \<Longrightarrow> unat f < 4096 \<Longrightarrow> f AND 1 = 1 \<Longrightarrow>
   (\<And>k. k < n \<Longrightarrow> w AND 0xFFFFF000 \<noteq> (v + 4096 * of_nat k) AND 0xFFFFF000) \<Longrightarrow>
   translate (map_pages n v a f s) w = translate s w"
proof (induction n arbitrary: s v a)
  case (Suc n)
  have o: "ok (n + m) (map_one v a f s)" using map_ok[of "n + m" s f v a] Suc.prems by simp
  have "w AND 0xFFFFF000 \<noteq> (v + 4096 + 4096 * of_nat k) AND 0xFFFFF000" if "k < n" for k
    using Suc.prems(4)[of "Suc k"] that by (simp add: algebra_simps)
  from Suc.IH[OF o Suc.prems(2,3) this, of "a + 4096"]
  have "translate (map_pages (Suc n) v a f s) w = translate (map_one v a f s) w" by simp
  also have "\<dots> = translate s w"
    using Suc.prems(1-3) Suc.prems(4)[of 0] map_translate[of "n + m" s f v a w] by simp
  finally show ?case .
qed simp

lemma map_pages_hit:
  assumes "ok (n + m) s" and "unat f < 4096" and "f AND 1 = 1" and "k < n"
    and "\<And>i j. i < n \<Longrightarrow> j < n \<Longrightarrow> (v + 4096 * of_nat i) AND 0xFFFFF000 = (v + 4096 * of_nat j) AND 0xFFFFF000 \<Longrightarrow> i = j"
    and "w AND 0xFFFFF000 = (v + 4096 * of_nat k) AND 0xFFFFF000"
  shows "translate (map_pages n v a f s) w =
    Some (((a + 4096 * of_nat k) AND 0xFFFFF000) OR (w AND 0xFFF), f AND 6)"
  using assms
proof (induction n arbitrary: s v a k)
  case (Suc n)
  have o: "ok (n + m) (map_one v a f s)" using map_ok[of "n + m" s f v a] Suc.prems by simp
  have inj: "i = j" if "i < n" "j < n" "(v + 4096 + 4096 * of_nat i) AND 0xFFFFF000 = (v + 4096 + 4096 * of_nat j) AND 0xFFFFF000" for i j
    using Suc.prems(5)[of "Suc i" "Suc j"] that by (simp add: algebra_simps)
  show ?case
  proof (cases k)
    case 0
    have "w AND 0xFFFFF000 \<noteq> (v + 4096 + 4096 * of_nat i) AND 0xFFFFF000" if "i < n" for i
      using Suc.prems(5)[of "Suc i" 0] Suc.prems(6) that 0 by (auto simp: algebra_simps)
    from map_pages_other[OF o Suc.prems(2,3) this, of "a + 4096"]
    show ?thesis using Suc.prems(1-3,6) 0 map_translate[of "n + m" s f v a w] by simp
  next
    case (Suc i)
    have "w AND 0xFFFFF000 = (v + 4096 + 4096 * of_nat i) AND 0xFFFFF000" "i < n"
      using Suc.prems(4,6) Suc by (simp_all add: algebra_simps)
    from Suc.IH[OF o Suc.prems(2,3) this(2) inj this(1), of "a + 4096"]
    show ?thesis using Suc by (simp add: algebra_simps)
  qed
qed simp

end

definition map_room :: "u32 \<Rightarrow> nat \<Rightarrow> paging_state \<Rightarrow> bool" where
  "map_room p n s \<longleftrightarrow> ctx_wf p s \<and> brk_of s + 8192 * n < 2 ^ 32"

interpretation kpages: page_mapper "map_room p" "walk p" "paging_map_page p"
  "\<lambda>x s. unat x < brk_of s \<and> \<not> ctx_area p s x" "\<lambda>s. m_ram (mem s)" for p
proof
  fix n s and f v a w x :: u32
  assume r: "map_room p (Suc n) s" and f: "unat f < 4096"
  then have wf: "ctx_wf p s" and room: "brk_of s + 8192 < 2 ^ 32" by (simp_all add: map_room_def)
  note m = map_page_correct[OF wf room f]
  show "map_room p n (paging_map_page p v a f s)" using m(1,4)[of v a] r by (simp add: map_room_def)
  show "walk p (paging_map_page p v a f s) w =
      (if w AND 0xFFFFF000 = v AND 0xFFFFF000 then Some ((a AND 0xFFFFF000) OR (w AND 0xFFF), f AND 6) else walk p s w)"
    if "f AND 1 = 1" using m(5)[of v a w] that by simp
  show "(unat x < brk_of (paging_map_page p v a f s) \<and> \<not> ctx_area p (paging_map_page p v a f s) x) \<and>
      m_ram (mem (paging_map_page p v a f s)) x = m_ram (mem s) x" if "unat x < brk_of s \<and> \<not> ctx_area p s x"
    using m(3)[of v a] m(6)[of x v a] that by simp
qed

section \<open>The translations the processor remembers\<close>

definition page_base :: "u32 \<Rightarrow> bool" where "page_base v \<longleftrightarrow> v AND 0xFFFFF000 = v"

definition vm_ok :: "paging_state \<Rightarrow> bool" where
  "vm_ok s \<longleftrightarrow> ctx_wf (current_context s) s \<and> cr3 s = physical_addr (current_context s) s \<and>
     (\<forall>k e. tlb s k = Some e \<longrightarrow> page_base k \<and> walk (current_context s) s k = Some e)"

lemma other_fields [simp]:
  "current_context (poke a v s) = current_context s" "cr3 (poke a v s) = cr3 s" "tlb (poke a v s) = tlb s"
  "current_context (zero_bytes a n s) = current_context s" "cr3 (zero_bytes a n s) = cr3 s" "tlb (zero_bytes a n s) = tlb s"
  "current_context (invlpg v s) = current_context s" "cr3 (invlpg v s) = cr3 s"
  by (simp_all add: poke_def zero_bytes_def invlpg_def)

lemma other_fields_new_table [simp]:
  "current_context (new_table p i s) = current_context s" "cr3 (new_table p i s) = cr3 s" "tlb (new_table p i s) = tlb s"
  by (simp_all add: new_table_def pg_kmalloc_aligned_def Let_def split: prod.splits)

lemma other_fields_map [simp]:
  "current_context (paging_map_page p v a f s) = current_context s" "cr3 (paging_map_page p v a f s) = cr3 s"
  "tlb (paging_map_page p v a f s) = (tlb s)(v AND 0xFFFFF000 := None)"
  "current_context (paging_unmap_page p v s) = current_context s" "cr3 (paging_unmap_page p v s) = cr3 s"
  by (simp_all add: map_page_with_table with_table_def Let_def paging_unmap_page_def) (simp add: invlpg_def)

lemma page_base_eq: "page_base k \<Longrightarrow> (k AND 0xFFFFF000 = x) = (k = x)"
  unfolding page_base_def by metis

lemma page_base_mask: "page_base (v AND 0xFFFFF000)"
  by (simp add: page_base_def word_bw_assocs)

lemma vm_ok_map:
  assumes ok: "vm_ok s" and room: "brk_of s + 8192 < 2 ^ 32" and f: "unat f < 4096"
  shows "vm_ok (paging_map_page (current_context s) v a f s)"
proof -
  let ?p = "current_context s" and ?s = "paging_map_page (current_context s) v a f s"
  have wf: "ctx_wf ?p s" using ok by (simp add: vm_ok_def)
  note m = map_page_correct[OF wf room f, of v a]
  have "page_base k \<and> walk ?p ?s k = Some e" if "tlb ?s k = Some e" for k e
  proof -
    have k: "k \<noteq> v AND 0xFFFFF000" "tlb s k = Some e" using that by (auto split: if_splits)
    then have "page_base k" "walk ?p s k = Some e" using ok unfolding vm_ok_def by blast+
    then show ?thesis using m(5)[of k] k(1) by (simp add: page_base_eq)
  qed
  moreover have "cr3 ?s = physical_addr ?p ?s" using m(2) ok by (simp add: vm_ok_def)
  ultimately show ?thesis unfolding vm_ok_def using m(1) unfolding other_fields_map by blast
qed

lemma vm_ok_unmap:
  assumes ok: "vm_ok s"
  shows "vm_ok (paging_unmap_page (current_context s) v s)"
proof -
  let ?p = "current_context s" and ?s = "paging_unmap_page (current_context s) v s"
  have wf: "ctx_wf ?p s" using ok by (simp add: vm_ok_def)
  note m = unmap_page_correct[OF wf, of v]
  have "page_base k \<and> walk ?p ?s k = Some e" if t: "tlb ?s k = Some e" for k e
  proof (cases "tab ?p s (pd_index v) = 0")
    case True
    then have e: "?s = s" by (simp add: paging_unmap_page_def tab_def Let_def)
    have "tlb s k = Some e" using t by (simp only: e)
    then show ?thesis unfolding e using ok unfolding vm_ok_def by blast
  next
    case False
    then have "tlb ?s = (tlb s)(v AND 0xFFFFF000 := None)"
      by (simp add: paging_unmap_page_def tab_def Let_def) (simp add: invlpg_def)
    then have k: "k \<noteq> v AND 0xFFFFF000" "tlb s k = Some e" using t by (auto split: if_splits)
    then have "page_base k" "walk ?p s k = Some e" using ok unfolding vm_ok_def by blast+
    then show ?thesis using m(3)[of k] k(1) by (simp add: page_base_eq)
  qed
  moreover have "cr3 ?s = physical_addr ?p ?s" using m(2) ok by (simp add: vm_ok_def)
  ultimately show ?thesis unfolding vm_ok_def using m(1) unfolding other_fields_map by blast
qed

text \<open>Everything but the memory.\<close>

lemma same_mem:
  assumes "mem s' = mem s"
  shows "peek a s' = peek a s" and "directory p s' = directory p s" and "tables p s' = tables p s"
    and "physical_addr p s' = physical_addr p s" and "tab p s' = tab p s" and "pde p s' = pde p s" and "pte p s' = pte p s"
    and "walk p s' = walk p s" and "ctx_wf p s' = ctx_wf p s"
proof -
  show a: "peek a s' = peek a s" for a by (simp add: peek_def assms)
  show b: "directory p s' = directory p s" "tables p s' = tables p s" "physical_addr p s' = physical_addr p s" for p
    by (simp_all add: directory_def tables_def physical_addr_def a)
  show c: "tab p s' = tab p s" "pde p s' = pde p s" for p by (simp_all add: tab_def pde_def a b fun_eq_iff)
  show d: "pte p s' = pte p s" by (simp add: pte_def a c fun_eq_iff)
  show "walk p s' = walk p s" "ctx_wf p s' = ctx_wf p s"
    by (simp_all add: walk_def ctx_wf_def frame_ok_def table_ok_def b c d assms fun_eq_iff)
qed

lemma vm_ok_switch:
  assumes "vm_ok s" and "ctx_wf ctx s"
  shows "vm_ok (paging_switch_context ctx s)"
proof (cases "ctx = current_context s")
  case False
  let ?s = "s\<lparr>current_context := ctx, cr3 := physical_addr ctx s, tlb := Map.empty\<rparr>"
  have "paging_switch_context ctx s = ?s"
    using False same_mem(4)[of "s\<lparr>current_context := ctx\<rparr>" s ctx] by (simp add: paging_switch_context_def load_cr3_def)
  moreover have "mem ?s = mem s" by simp
  ultimately show ?thesis using assms(2) same_mem(4,9)[of ?s s ctx] by (simp add: vm_ok_def)
qed (use assms in \<open>simp add: paging_switch_context_def\<close>)

lemma vm_ok_fill:
  assumes "vm_ok s"
  shows "vm_ok (tlb_fill v s)"
proof -
  have wf: "ctx_wf (current_context s) s" and c: "cr3 s = physical_addr (current_context s) s"
    and t: "\<And>k e. tlb s k = Some e \<Longrightarrow> page_base k \<and> walk (current_context s) s k = Some e"
    using assms unfolding vm_ok_def by blast+
  have "page_base k \<and> walk (current_context s) s k = Some e"
    if "((tlb s)(v AND 0xFFFFF000 := walk (current_context s) s (v AND 0xFFFFF000))) k = Some e" for k e
    using that t[of k e] page_base_mask[of v] by (auto split: if_splits)
  moreover have "mem (tlb_fill v s) = mem s" by (simp add: tlb_fill_def)
  moreover have "tlb (tlb_fill v s) = (tlb s)(v AND 0xFFFFF000 := walk (current_context s) s (v AND 0xFFFFF000))"
    "cr3 (tlb_fill v s) = cr3 s" "current_context (tlb_fill v s) = current_context s"
    using wf c by (simp_all add: tlb_fill_def mmu_walk)
  ultimately show ?thesis
    using wf c same_mem(4,8,9)[of "tlb_fill v s" s "current_context s"] unfolding vm_ok_def by metis
qed

inductive vm_step :: "paging_state \<Rightarrow> paging_state \<Rightarrow> bool" where
  Map: "brk_of s + 8192 < 2 ^ 32 \<Longrightarrow> unat f < 4096 \<Longrightarrow> vm_step s (paging_map_page (current_context s) v a f s)"
| Unmap: "vm_step s (paging_unmap_page (current_context s) v s)"
| Switch: "ctx_wf ctx s \<Longrightarrow> vm_step s (paging_switch_context ctx s)"
| Translate: "vm_step s (tlb_fill v s)"

lemma vm_step_ok: "vm_step s s' \<Longrightarrow> vm_ok s \<Longrightarrow> vm_ok s'"
  by (induction rule: vm_step.induct) (simp_all add: vm_ok_map vm_ok_unmap vm_ok_switch vm_ok_fill)

lemma vm_steps_ok: "vm_step\<^sup>*\<^sup>* s s' \<Longrightarrow> vm_ok s \<Longrightarrow> vm_ok s'"
  by (induction rule: rtranclp_induct) (auto intro: vm_step_ok)

section \<open>Building the kernel's tables\<close>

lemma install_tables:
  assumes "ctx_wf p s" and "kernel_page_context s = p" and "unat i + n \<le> 1024"
    and "\<forall>m<n. pt + 4096 * of_nat m \<noteq> 0 \<and> table_ok p s (pt + 4096 * of_nat m) \<and> (\<forall>j<1024. tab p s j \<noteq> pt + 4096 * of_nat m)"
    and "\<forall>m<n. \<forall>l<n. pt + 4096 * of_nat m = pt + 4096 * (of_nat l :: u32) \<longrightarrow> m = l"
  defines "s' \<equiv> install_tables n i pt s"
  shows "ctx_wf p s' \<and> kernel_page_context s' = p \<and> mem s'\<lparr>m_ram := m\<rparr> = mem s\<lparr>m_ram := m\<rparr> \<and>
    directory p s' = directory p s \<and> tables p s' = tables p s \<and>
    (\<forall>j<1024. tab p s' j = (if unat i \<le> unat j \<and> unat j < unat i + n then pt + 4096 * (j - i) else tab p s j)) \<and>
    (\<forall>j<1024. \<forall>l<1024. tab p s' j \<noteq> 0 \<longrightarrow>
      pte p s' j l = (if unat i \<le> unat j \<and> unat j < unat i + n then 0 else pte p s j l))"
  using assms(1-5) unfolding s'_def
proof (induction n arbitrary: i pt s)
  case (Suc n)
  let ?s = "link_table p i pt s"
  have i: "i < 1024" using Suc.prems(3) by (simp add: word_less_nat_alt)
  have a: "pt \<noteq> 0" "table_ok p s pt" "\<forall>j<1024. tab p s j \<noteq> pt" using Suc.prems(4)[rule_format, of 0] by simp_all
  note v = link_table_view[OF Suc.prems(1) i a(2,3)]
  have wf: "ctx_wf p ?s" by (rule ctx_wf_link_table[OF Suc.prems(1) i a(2,1,3)])
  have k: "kernel_page_context ?s = p" using Suc.prems(2) by (simp add: link_table_def poke_def zero_bytes_def Let_def)
  have h: "mem ?s\<lparr>m_ram := m\<rparr> = mem s\<lparr>m_ram := m\<rparr>" by (simp add: link_table_def poke_def zero_bytes_def set_word_def Let_def)
  have ui: "unat (i + 1) = unat i + 1" using Suc.prems(3) by (simp add: unat_add_no_wrap)
  have n: "unat (i + 1) + n \<le> 1024" using Suc.prems(3) ui by simp
  have e: "pt + 4096 + 4096 * of_nat m = pt + 4096 * of_nat (Suc m)" for m by (simp add: algebra_simps)
  have new: "\<forall>m<n. pt + 4096 + 4096 * of_nat m \<noteq> 0 \<and> table_ok p ?s (pt + 4096 + 4096 * of_nat m) \<and>
      (\<forall>j<1024. tab p ?s j \<noteq> pt + 4096 + 4096 * of_nat m)"
  proof (intro allI impI)
    fix m assume m: "m < n"
    then have b: "pt + 4096 * of_nat (Suc m) \<noteq> 0" "table_ok p s (pt + 4096 * of_nat (Suc m))"
      "\<forall>j<1024. tab p s j \<noteq> pt + 4096 * of_nat (Suc m)" using Suc.prems(4) by blast+
    have "pt + 4096 * of_nat 0 = pt + 4096 * (of_nat (Suc m) :: u32) \<longrightarrow> 0 = Suc m" using Suc.prems(5) m by blast
    then have ne: "pt \<noteq> pt + 4096 * of_nat (Suc m)" by simp
    have "table_ok p ?s (pt + 4096 * of_nat (Suc m))" by (rule table_ok_cong[OF b(2) v(1,2)]) (simp add: v(4))
    then show "pt + 4096 + 4096 * of_nat m \<noteq> 0 \<and> table_ok p ?s (pt + 4096 + 4096 * of_nat m) \<and>
      (\<forall>j<1024. tab p ?s j \<noteq> pt + 4096 + 4096 * of_nat m)"
      unfolding e using b(1,3) ne v(5) by auto
  qed
  have inj: "\<forall>m<n. \<forall>l<n. pt + 4096 + 4096 * of_nat m = pt + 4096 + 4096 * (of_nat l :: u32) \<longrightarrow> m = l"
    unfolding e using Suc.prems(5) by (metis Suc_less_eq nat.inject)
  have st: "install_tables (Suc n) i pt s = install_tables n (i + 1) (pt + 4096) ?s"
    using Suc.prems(2) by (simp add: link_table_def Let_def)
  note IH = Suc.IH[OF wf k n new inj]
  have j: "(unat (i + 1) \<le> unat j \<and> unat j < unat (i + 1) + n) \<longleftrightarrow> (unat i \<le> unat j \<and> unat j < unat i + Suc n) \<and> j \<noteq> i" for j
    unfolding ui using word_unat_eq_iff[of j i] by auto
  have pj: "pt + 4096 + 4096 * (j - (i + 1)) = pt + 4096 * (j - i)" for j by (simp add: algebra_simps)
  show ?case
    unfolding st
  proof (intro conjI)
    show "\<forall>k<1024. tab p (install_tables n (i + 1) (pt + 4096) ?s) k =
        (if unat i \<le> unat k \<and> unat k < unat i + Suc n then pt + 4096 * (k - i) else tab p s k)"
      using IH v(5) by (auto simp: j pj)
    show "\<forall>k<1024. \<forall>l<1024. tab p (install_tables n (i + 1) (pt + 4096) ?s) k \<noteq> 0 \<longrightarrow>
        pte p (install_tables n (i + 1) (pt + 4096) ?s) k l =
        (if unat i \<le> unat k \<and> unat k < unat i + Suc n then 0 else pte p s k l)"
    proof (intro allI impI)
      fix k l :: u32
      assume kl: "k < 1024" "l < 1024" and nz: "tab p (install_tables n (i + 1) (pt + 4096) ?s) k \<noteq> 0"
      show "pte p (install_tables n (i + 1) (pt + 4096) ?s) k l =
        (if unat i \<le> unat k \<and> unat k < unat i + Suc n then 0 else pte p s k l)"
        using IH kl nz v(7)[OF kl] by (simp add: j) (metis (no_types, lifting) j le_refl less_add_Suc1)
    qed
  qed (use IH h v(1,2) in simp_all)
qed (auto simp: not_less)

text \<open>Filling the tables: what every step keeps.\<close>

definition keeps_ctx :: "u32 \<Rightarrow> paging_state \<Rightarrow> paging_state \<Rightarrow> bool" where
  "keeps_ctx p s s' \<longleftrightarrow> ctx_wf p s' \<and> kernel_page_context s' = kernel_page_context s \<and>
     mem s'\<lparr>m_ram := m_ram (mem s)\<rparr> = mem s \<and> directory p s' = directory p s \<and> tables p s' = tables p s \<and>
     (\<forall>j<1024. tab p s' j = tab p s j)"

lemma keeps_ctx_trans:
  assumes "keeps_ctx p s s'" and "keeps_ctx p s' s''"
  shows "keeps_ctx p s s''"
proof -
  have "mem s''\<lparr>m_ram := m_ram (mem s)\<rparr> = (mem s''\<lparr>m_ram := m_ram (mem s')\<rparr>)\<lparr>m_ram := m_ram (mem s)\<rparr>" by simp
  also have "\<dots> = mem s" using assms unfolding keeps_ctx_def by simp
  finally show ?thesis using assms by (simp add: keeps_ctx_def)
qed

lemma keeps_ctx_poke:
  assumes "ctx_wf p (poke a v s)" and "directory p (poke a v s) = directory p s" and "tables p (poke a v s) = tables p s"
    and "\<And>j. j < 1024 \<Longrightarrow> tab p (poke a v s) j = tab p s j"
  shows "keeps_ctx p s (poke a v s)"
  using assms by (simp add: keeps_ctx_def) (simp add: poke_def set_word_def)

lemma page_range:
  fixes w i :: u32
  assumes "4096 dvd unat i"
  shows "w AND 0xFFFFF000 = i AND 0xFFFFF000 \<longleftrightarrow> unat i \<le> unat w \<and> unat w < unat i + 4096"
proof -
  have m: "unat (x AND 0xFFFFF000) = unat x div 4096 * 4096" for x :: u32 unfolding page_mask and_not_mask_unat by simp
  obtain k where k: "unat i = 4096 * k" using assms by (auto simp: dvd_def)
  have "w AND 0xFFFFF000 = i AND 0xFFFFF000 \<longleftrightarrow> unat w div 4096 * 4096 = unat i div 4096 * 4096"
    unfolding word_unat_eq_iff[of "w AND 0xFFFFF000" "i AND 0xFFFFF000"] unfolding m ..
  also have "\<dots> \<longleftrightarrow> unat w div 4096 = k" using k by simp
  also have "\<dots> \<longleftrightarrow> unat i \<le> unat w \<and> unat w < unat i + 4096" using k by auto
  finally show ?thesis .
qed

lemma page_offset: "(w AND 0xFFFFF000) OR (w AND 0xFFF) = (w :: u32)"
proof -
  have "(0xFFF :: u32) = mask 12" by (simp add: mask_eq_exp_minus_1)
  then show ?thesis unfolding page_mask by (auto intro!: bit_word_eqI simp: bit_simps)
qed

lemma map_self_entry: "map_self i s = poke (entry (tab (kernel_page_context s) s (pd_index i)) (pt_index i)) (i OR 7) s"
  by (simp add: map_self_def tab_def PAGE_PRESENT_def PAGE_WRITE_def PAGE_USER_def word_bw_assocs)

lemma map_self_mapped:
  assumes wf: "ctx_wf p s" and k: "kernel_page_context s = p" and t: "tab p s (pd_index i) \<noteq> 0" and al: "4096 dvd unat i"
  shows "keeps_ctx p s (map_self i s)"
    and "walk p (map_self i s) w = (if unat i \<le> unat w \<and> unat w < unat i + 4096 then Some (w, 6) else walk p s w)"
    and "j < 1024 \<Longrightarrow> peek (entry 0 j) (map_self i s) = peek (entry 0 j) s"
proof -
  note u = wf pd_index_less[of i] t pt_index_less[of i]
  have m: "map_self i s = poke (entry (tab p s (pd_index i)) (pt_index i)) (i OR 7) s" by (simp add: map_self_entry k)
  note v = poke_pte_view[OF u, where v = "i OR 7"]
  show "keeps_ctx p s (map_self i s)"
    unfolding m by (intro keeps_ctx_poke ctx_wf_poke_pte[OF u] v)
  have b: "(i OR 7) AND 0xFFFFF000 = i AND 0xFFFFF000" "(i OR 7) AND 1 = 1" "(i OR 7) AND 6 = 6"
    using table_entry_bits[OF al] table_entry_bits(3)[OF al, of 6] aligned_mask[OF al] by simp_all
  show "walk p (map_self i s) w = (if unat i \<le> unat w \<and> unat w < unat i + 4096 then Some (w, 6) else walk p s w)"
    unfolding m walk_poke_pte[OF wf t] b page_range[OF al, symmetric]
  proof (cases "w AND 0xFFFFF000 = i AND 0xFFFFF000")
    case True
    then have "(i AND 0xFFFFF000) OR (w AND 0xFFF) = w" using page_offset[of w] by (simp only:)
    then show "(if w AND 0xFFFFF000 = i AND 0xFFFFF000
      then (if (1 :: u32) = 0 then None else Some ((i AND 0xFFFFF000) OR (w AND 0xFFF), 6)) else walk p s w) =
      (if w AND 0xFFFFF000 = i AND 0xFFFFF000 then Some (w, 6) else walk p s w)" using True by simp
  qed simp
  have ok: "table_ok p s (tab p s (pd_index i))" by (rule ctx_wf_table(1)[OF wf pd_index_less t])
  have "4096 \<le> unat (tab p s (pd_index i))"
    using ok t by (intro dvd_imp_le) (simp_all add: table_ok_def unat_gt_0)
  then have ap: "apart (tab p s (pd_index i)) 4096 0 4096" by (simp add: apart_def)
  show "peek (entry 0 j) (map_self i s) = peek (entry 0 j) s" if j: "j < 1024"
    unfolding m using peek_poke_entry[OF ctx_wf_room(4)[OF u(1-3)] _ u(4) j, of 0] ap t by simp
qed

definition above_page_0 :: "u32 \<Rightarrow> paging_state \<Rightarrow> bool" where
  "above_page_0 p s \<longleftrightarrow> 4096 \<le> unat p \<and> 4096 \<le> unat (tables p s) \<and> 4096 \<le> unat (directory p s)"

text \<open>Where there is no table, the entry is written into the first page of memory.\<close>

lemma map_self_null:
  assumes wf: "ctx_wf p s" and k: "kernel_page_context s = p" and t: "tab p s (pd_index i) = 0" and hi: "above_page_0 p s"
  shows "keeps_ctx p s (map_self i s)" and "walk p (map_self i s) w = walk p s w"
    and "j < 1024 \<Longrightarrow> peek (entry 0 j) (map_self i s) = (if j = pt_index i then i OR 7 else peek (entry 0 j) s)"
proof -
  have m: "map_self i s = poke (entry 0 (pt_index i)) (i OR 7) s" by (simp add: map_self_entry k t)
  have r0: "unat (0 :: u32) + 4096 \<le> 2 ^ 32" by simp
  note pt = pt_index_less[of i]
  have ap: "apart 0 4096 p 12" "apart 0 4096 (tables p s) 4096" "apart 0 4096 (directory p s) 4096"
    "0 \<noteq> tables p s" "0 \<noteq> directory p s"
    using hi by (auto simp: apart_def above_page_0_def)
  note rm = ctx_wf_room[OF wf]
  have f: "directory p (map_self i s) = directory p s" "tables p (map_self i s) = tables p s"
    "physical_addr p (map_self i s) = physical_addr p s"
    unfolding m by (rule peek_field_poke[OF r0 pt ap(1) rm(3)])+
  have tb: "tab p (map_self i s) x = tab p s x" if x: "x < 1024" for x
    unfolding tab_def f unfolding m using peek_poke_entry[OF r0 rm(1) pt x] ap by simp
  have pd: "pde p (map_self i s) x = pde p s x" if x: "x < 1024" for x
    unfolding pde_def f unfolding m using peek_poke_entry[OF r0 rm(2) pt x] ap by simp
  have "ctx_wf p (map_self i s)" by (rule ctx_wf_cong[OF wf f]) (simp_all add: tb pd, simp add: m)
  then show "keeps_ctx p s (map_self i s)"
    using f tb unfolding m by (intro keeps_ctx_poke)
  show "peek (entry 0 j) (map_self i s) = (if j = pt_index i then i OR 7 else peek (entry 0 j) s)" if "j < 1024"
    unfolding m using peek_poke_entry[OF r0 r0 pt that] by auto
  have "pte p (map_self i s) x y = pte p s x y" if x: "x < 1024" "y < 1024" "tab p s x \<noteq> 0" for x y
  proof -
    have "4096 \<le> unat (tab p s x)"
      using ctx_wf_table(1)[OF wf x(1,3)] x(3) by (intro dvd_imp_le) (simp_all add: table_ok_def unat_gt_0)
    then have "apart 0 4096 (tab p s x) 4096" by (simp add: apart_def)
    then show ?thesis
      unfolding pte_def tb[OF x(1)] unfolding m using peek_poke_entry[OF r0 rm(4)[OF x(1,3)] pt x(2)] x(3) by simp
  qed
  then show "walk p (map_self i s) w = walk p s w"
    using tb[OF pd_index_less] pd_index_less pt_index_less by (simp add: walk_def Let_def)
qed

declare map_low_loop.simps [simp del]

lemma less_512_1024: "(j :: u32) < 512 \<Longrightarrow> j < 1024"
  by (simp add: word_less_nat_alt)

lemma map_low_loop_correct:
  "ctx_wf p s \<Longrightarrow> kernel_page_context s = p \<Longrightarrow> 4096 dvd unat i \<Longrightarrow> \<forall>j<512. tab p s j \<noteq> 0 \<Longrightarrow>
   keeps_ctx p s (map_low_loop i s) \<and>
   walk p (map_low_loop i s) w = (if unat i \<le> unat w \<and> unat w < 0x80000000 then Some (w, 6) else walk p s w)"
proof (induction i s rule: map_low_loop.induct)
  case (1 i s)
  show ?case
  proof (cases "i < 0x80000000")
    case True
    have u: "unat i < 0x80000000" using True by (simp add: word_less_nat_alt)
    have "unat (pd_index i) = unat i div 2 ^ 22" unfolding pd_index_def unat_drop_bit_eq by (rule drop_bit_eq_div)
    then have pd: "pd_index i < 512" using u by (simp add: word_less_nat_alt)
    then have t: "tab p s (pd_index i) \<noteq> 0" using "1.prems"(4) by simp
    note m = map_self_mapped[OF "1.prems"(1,2) t "1.prems"(3)]
    have n: "unat (i + PAGE_SIZE) = unat i + 4096" using u by (simp add: PAGE_SIZE_def unat_add_no_wrap)
    have k: "ctx_wf p (map_self i s)" "kernel_page_context (map_self i s) = p" "\<forall>j<512. tab p (map_self i s) j \<noteq> 0"
      using m(1) "1.prems"(2,4) less_512_1024 unfolding keeps_ctx_def by simp_all
    have "keeps_ctx p (map_self i s) (map_low_loop (i + PAGE_SIZE) (map_self i s)) \<and>
      walk p (map_low_loop (i + PAGE_SIZE) (map_self i s)) w =
        (if unat (i + PAGE_SIZE) \<le> unat w \<and> unat w < 0x80000000 then Some (w, 6) else walk p (map_self i s) w)"
      using "1.IH"[OF True] k "1.prems"(3) pd n by simp
    moreover have "unat i + 4096 \<le> 0x80000000"
    proof -
      obtain q where "unat i = 4096 * q" using "1.prems"(3) by (auto simp: dvd_def)
      then show ?thesis using u by simp
    qed
    moreover have "map_low_loop i s = map_low_loop (i + PAGE_SIZE) (map_self i s)"
      using True pd by (simp add: map_low_loop.simps[of i])
    ultimately show ?thesis
      using keeps_ctx_trans[OF m(1)] m(2)[of w] n by auto
  next
    case False
    then have "map_low_loop i s = s" by (simp add: map_low_loop.simps[of i])
    moreover have "0x80000000 \<le> unat i" using False by (simp add: word_less_nat_alt)
    ultimately show ?thesis using "1.prems"(1) by (auto simp: keeps_ctx_def)
  qed
qed

text \<open>The second loop runs to the end of the address space, \<open>n\<close> pages from it.\<close>

lemma page_from_end:
  assumes "0 < n" and "n \<le> 0x40000"
  defines "i \<equiv> (of_nat (2 ^ 32 - 4096 * n) :: u32)"
  shows "unat i = 2 ^ 32 - 4096 * n" and "i \<noteq> 0" and "i + PAGE_SIZE = of_nat (2 ^ 32 - 4096 * (n - 1))" and "4096 dvd unat i"
    and "unat (pd_index i) = (2 ^ 32 - 4096 * n) div 2 ^ 22" and "unat (pt_index i) = (2 ^ 32 - 4096 * n) div 4096 mod 1024"
proof -
  show u: "unat i = 2 ^ 32 - 4096 * n" unfolding i_def using assms(1) by (intro unat_of_nat_u32) simp
  then show "i \<noteq> 0" using assms(2) by auto
  have "2 ^ 32 - 4096 * (n - 1) = 2 ^ 32 - 4096 * n + 4096" using assms(1,2) by simp
  then show "i + PAGE_SIZE = of_nat (2 ^ 32 - 4096 * (n - 1))" unfolding i_def PAGE_SIZE_def by (simp only: of_nat_add of_nat_numeral)
  have "2 ^ 32 - 4096 * n = 4096 * (2 ^ 20 - n)" by simp
  then show "4096 dvd unat i" using u by (metis dvd_triv_left)
  show "unat (pd_index i) = (2 ^ 32 - 4096 * n) div 2 ^ 22"
    unfolding pd_index_def unat_drop_bit_eq u by (rule drop_bit_eq_div)
  have m: "(0x3FF :: u32) = mask 10" by (simp add: mask_eq_exp_minus_1)
  have "unat (pt_index i) = take_bit 10 (drop_bit 12 (unat i))"
    unfolding pt_index_def m by (simp add: unat_drop_bit_eq unsigned_take_bit_eq flip: take_bit_eq_mask)
  then show "unat (pt_index i) = (2 ^ 32 - 4096 * n) div 4096 mod 1024"
    unfolding u by (simp add: take_bit_eq_mod drop_bit_eq_div)
qed

lemma map_high_loop_correct:
  assumes "n \<le> 0x40000" and "ctx_wf p s" and "kernel_page_context s = p" and "above_page_0 p s"
    and "\<forall>x<1024. 768 \<le> x \<longrightarrow> (tab p s x = 0 \<longleftrightarrow> x < 960)"
  shows "\<exists>s'. map_high_loop (of_nat (2 ^ 32 - 4096 * n)) s = Some s' \<and> keeps_ctx p s s' \<and>
    (\<forall>w. walk p s' w = (if 2 ^ 32 - 4096 * n \<le> unat w \<and> tab p s (pd_index w) \<noteq> 0 then Some (w, 6) else walk p s w)) \<and>
    (\<forall>j<1024. peek (entry 0 j) s' =
      (if 2 ^ 32 - 4096 * n \<le> 0xEFC00000 + 4096 * unat j then (0xEFC00000 + 4096 * j) OR 7 else peek (entry 0 j) s))"
  using assms
proof (induction n arbitrary: s)
  case 0
  have z: "(of_nat (2 ^ 32 - 4096 * 0) :: u32) = 0" by simp
  have "map_high_loop (of_nat (2 ^ 32 - 4096 * 0)) s = Some s"
    unfolding z by (simp add: map_high_loop.simps[of 0])
  moreover have "\<not> 2 ^ 32 - 4096 * 0 \<le> 0xEFC00000 + 4096 * unat j" if "j < 1024" for j :: u32
    using that by (simp add: word_less_nat_alt)
  moreover have "\<not> 2 ^ 32 - 4096 * 0 \<le> unat w" for w :: u32 using unat_u32[of w] by simp
  ultimately show ?case using "0.prems"(2) by (simp add: keeps_ctx_def)
next
  case (Suc n)
  define i :: u32 where "i = of_nat (2 ^ 32 - 4096 * Suc n)"
  note e = page_from_end[of "Suc n", folded i_def, OF _ Suc.prems(1)]
  have ui: "unat i = 2 ^ 32 - 4096 * Suc n" and nz: "i \<noteq> 0" and al: "4096 dvd unat i" using e(1,2,4) by simp_all
  have nx: "i + PAGE_SIZE = of_nat (2 ^ 32 - 4096 * n)" using e(3) by simp
  let ?s = "map_self i s"
  have pd: "unat (pd_index i) = unat i div 2 ^ 22" and pt: "unat (pt_index i) = unat i div 4096 mod 1024"
    using e(5,6) ui by simp_all
  have lo: "0xC0000000 \<le> unat i" using ui Suc.prems(1) by simp
  have null: "tab p s (pd_index i) = 0 \<longleftrightarrow> unat i < 0xF0000000"
  proof -
    have "768 \<le> pd_index i" "pd_index i < 960 \<longleftrightarrow> unat i < 0xF0000000"
      using pd lo by (simp_all add: word_le_nat_alt word_less_nat_alt) linarith
    then show ?thesis using Suc.prems(5) pd_index_less by blast
  qed
  have step: "keeps_ctx p s ?s \<and>
      walk p ?s w = (if unat i \<le> unat w \<and> unat w < unat i + 4096 \<and> tab p s (pd_index w) \<noteq> 0 then Some (w, 6) else walk p s w)"
    for w
  proof -
    have same: "tab p s (pd_index w) = tab p s (pd_index i)" if "unat i \<le> unat w" "unat w < unat i + 4096"
      using page_range[OF al, of w] same_page[of w i] that by simp
    show ?thesis
      using map_self_mapped(1,2)[OF Suc.prems(2,3) _ al] map_self_null(1,2)[OF Suc.prems(2,3) _ Suc.prems(4)] same
      by (cases "tab p s (pd_index i) = 0") auto
  qed
  have low: "peek (entry 0 j) ?s = (if unat i = 0xEFC00000 + 4096 * unat j then (0xEFC00000 + 4096 * j) OR 7 else peek (entry 0 j) s)"
    if j: "j < 1024" and far: "0xEFC00000 + 4096 * unat j < unat i + 4096" for j
  proof -
    have uj: "unat j < 1024" using j by (simp add: word_less_nat_alt)
    have u4: "unat (4096 * j) = 4096 * unat j" using uj by (subst unat_mult_lem[THEN iffD1]) simp_all
    then have "unat (0xEFC00000 + 4096 * j) = 0xEFC00000 + 4096 * unat j" using uj by (simp add: unat_add_no_wrap)
    then have eq: "unat i = 0xEFC00000 + 4096 * unat j \<longleftrightarrow> i = 0xEFC00000 + 4096 * j"
      using word_unat_eq_iff[of i "0xEFC00000 + 4096 * j"] by simp
    show ?thesis
    proof (cases "tab p s (pd_index i) = 0")
      case True
      then have "unat i < 0xF0000000" using null by simp
      moreover have iq: "unat i = 4096 * (unat i div 4096)" using al by simp
      ultimately have "j = pt_index i \<longleftrightarrow> unat i = 0xEFC00000 + 4096 * unat j"
      proof -
        have r: "unat i div 4096 < 0xF0000" "0xEFC00 + unat j < unat i div 4096 + 1"
          using \<open>unat i < 0xF0000000\<close> far iq by linarith+
        then have "unat i div 4096 mod 1024 = unat i div 4096 - 0xEFC00" by (intro mod_nat_eqI) auto
        then have "unat (pt_index i) = unat i div 4096 - 0xEFC00" using pt by simp
        then show ?thesis unfolding word_unat_eq_iff[of j] using iq r(2) by arith
      qed
      then show ?thesis
        using map_self_null(3)[OF Suc.prems(2,3) True Suc.prems(4) j] eq by auto
    next
      case False
      then have "0xF0000000 \<le> unat i" using null by simp
      then have "unat i \<noteq> 0xEFC00000 + 4096 * unat j" using uj by simp
      then show ?thesis using map_self_mapped(3)[OF Suc.prems(2,3) False al j] by simp
    qed
  qed
  have k: "ctx_wf p ?s" "kernel_page_context ?s = p" "above_page_0 p ?s" "\<forall>x<1024. tab p ?s x = tab p s x"
    using step Suc.prems(3,4) by (simp_all add: keeps_ctx_def above_page_0_def)
  have "\<forall>x<1024. 768 \<le> x \<longrightarrow> (tab p ?s x = 0 \<longleftrightarrow> x < 960)" using k(4) Suc.prems(5) by simp
  from Suc.IH[OF _ k(1-3) this] Suc.prems(1) obtain s' where
    s': "map_high_loop (of_nat (2 ^ 32 - 4096 * n)) ?s = Some s'" "keeps_ctx p ?s s'"
    and w: "\<And>w. walk p s' w = (if 2 ^ 32 - 4096 * n \<le> unat w \<and> tab p ?s (pd_index w) \<noteq> 0 then Some (w, 6) else walk p ?s w)"
    and l: "\<And>j. j < 1024 \<Longrightarrow> peek (entry 0 j) s' =
      (if 2 ^ 32 - 4096 * n \<le> 0xEFC00000 + 4096 * unat j then (0xEFC00000 + 4096 * j) OR 7 else peek (entry 0 j) ?s)"
    by auto
  have ni: "2 ^ 32 - 4096 * n = unat i + 4096" using ui Suc.prems(1) by simp
  have "map_high_loop i s = Some s'" using nz nx s'(1) by (simp add: map_high_loop.simps[of i])
  moreover have "keeps_ctx p s s'" using keeps_ctx_trans step s'(2) by blast
  moreover have "walk p s' w' = (if unat i \<le> unat w' \<and> tab p s (pd_index w') \<noteq> 0 then Some (w', 6) else walk p s w')" for w'
    using w[of w'] step[of w'] k(4)[rule_format, OF pd_index_less, of w'] unfolding ni by auto
  moreover have "peek (entry 0 j) s' =
      (if unat i \<le> 0xEFC00000 + 4096 * unat j then (0xEFC00000 + 4096 * j) OR 7 else peek (entry 0 j) s)" if "j < 1024" for j
  proof -
    have "4096 dvd 0xEFC00000 + 4096 * unat j" by simp
    then obtain a b where "unat i = 4096 * a" "0xEFC00000 + 4096 * unat j = 4096 * b" using al unfolding dvd_def by metis
    then have d: "unat i \<le> 0xEFC00000 + 4096 * unat j \<longleftrightarrow>
      unat i + 4096 \<le> 0xEFC00000 + 4096 * unat j \<or> unat i = 0xEFC00000 + 4096 * unat j" by auto
    show ?thesis using l[OF that] low[OF that] unfolding ni d by auto
  qed
  moreover have c: "of_nat (unat i) = i" by simp
  ultimately show ?case unfolding ui[symmetric] c by blast
qed

text \<open>The linker places the static directory and tables page by page, below the heap and above the first page.\<close>

definition boot_layout :: "u32 \<Rightarrow> u32 \<Rightarrow> paging_state \<Rightarrow> bool" where
  "boot_layout pd pt s \<longleftrightarrow> 4096 dvd unat pd \<and> 4096 dvd unat pt \<and> 4096 \<le> unat pd \<and> 4096 \<le> unat pt \<and>
     apart pd 4096 pt (768 * 4096) \<and> unat pd + 4096 \<le> brk_of s \<and> unat pt + 768 * 4096 \<le> brk_of s \<and>
     brk_of s + 4108 < 2 ^ 32"

definition fresh_context :: "u32 \<Rightarrow> paging_state \<Rightarrow> u32 \<times> paging_state" where
  "fresh_context pd s =
     (case pg_kmalloc 12 s of (k, s) \<Rightarrow>
        (let s = poke k pd (s\<lparr>kernel_page_context := k\<rparr>) in
         case pg_kmalloc 4096 s of (t, s) \<Rightarrow>
           (let s = poke (k + 8) pd (poke (k + 4) t s);
                s = zero_bytes (directory k s) 4096 s
            in (k, zero_bytes (tables k s) 4096 s))))"

lemma peek_poke_word:
  "unat a + 4 \<le> 2 ^ 32 \<Longrightarrow> unat b + 4 \<le> 2 ^ 32 \<Longrightarrow> apart a 4 b 4 \<or> a = b \<Longrightarrow>
   peek b (poke a v s) = (if a = b then v else peek b s)"
  using peek_poke_apart[of a b v s] by (auto simp: apart_def)

lemma pg_kmalloc_parts:
  assumes "pg_kmalloc n s = (a, s1)"
  shows "a = heap_ptr (mem s)" and "heap_ptr (mem s1) = heap_ptr (mem s) + n" and "peek x s1 = peek x s"
    and "kernel_page_context s1 = kernel_page_context s" and "m_ram (mem s1) = m_ram (mem s)"
  using assms by (auto simp: pg_kmalloc_def kmalloc_def peek_def)

lemma kernel_page_context_keeps [simp]:
  "kernel_page_context (poke a v s) = kernel_page_context s" "kernel_page_context (zero_bytes a n s) = kernel_page_context s"
  by (simp_all add: poke_def zero_bytes_def)

lemma fresh_context_correct:
  assumes lay: "boot_layout pd pt s" and fc: "fresh_context pd s = (k, s')"
  shows "ctx_wf k s'" and "kernel_page_context s' = k" and "directory k s' = pd" and "tables k s' = k + 12" and "k = heap_ptr (mem s)"
    and "brk_of s' = brk_of s + 4108" and "\<forall>j<1024. tab k s' j = 0"
proof -
  obtain k0 s1 where k0: "pg_kmalloc 12 s = (k0, s1)" by fastforce
  note a1 = pg_kmalloc_parts[OF k0]
  define s2 where "s2 = poke k0 pd (s1\<lparr>kernel_page_context := k0\<rparr>)"
  obtain t s3 where t: "pg_kmalloc 4096 s2 = (t, s3)" by fastforce
  note a2 = pg_kmalloc_parts[OF t]
  define s4 where "s4 = poke (k0 + 8) pd (poke (k0 + 4) t s3)"
  define s5 where "s5 = zero_bytes (directory k0 s4) 4096 s4"
  have "k = k0 \<and> s' = zero_bytes (tables k0 s5) 4096 s5"
    using fc by (auto simp: fresh_context_def k0 t Let_def simp flip: s2_def s4_def s5_def)
  then have kk: "k = k0" and s': "s' = zero_bytes (tables k0 s5) 4096 s5" by simp_all
  have lim: "brk_of s + 4108 < 2 ^ 32" using lay by (simp add: boot_layout_def)
  have h: "unat (k0 + 4) = unat k0 + 4" "unat (k0 + 8) = unat k0 + 8" "unat (k0 + 12) = unat k0 + 12"
    using lim a1(1) by (simp_all add: unat_add_no_wrap)
  have tk: "t = k0 + 12" using a2(1) a1(1,2) by (simp add: s2_def)
  have r4: "unat t + 4096 \<le> 2 ^ 32" "unat k0 + 12 \<le> 2 ^ 32" using tk h lim a1(1) by simp_all
  have f4: "directory k0 s4 = pd" "tables k0 s4 = t" "physical_addr k0 s4 = pd"
    using h r4 a2(3) unfolding directory_def tables_def physical_addr_def s4_def
    by (simp_all add: peek_poke_word apart_def s2_def)
  have pd: "unat pd + 4096 \<le> unat k0" "4096 \<le> unat pd" "4096 dvd unat pd" using lay a1(1) by (simp_all add: boot_layout_def)
  have rp: "unat pd + 4096 \<le> 2 ^ 32" using pd(1) r4 by simp
  have ap: "apart pd 4096 k0 12" "apart t 4096 k0 12" "apart t 4096 pd 4096" using pd tk h by (simp_all add: apart_def)
  have f5: "directory k0 s5 = pd" "tables k0 s5 = t" "physical_addr k0 s5 = pd"
    unfolding s5_def f4(1) peek_field_zero[OF rp ap(1) r4(2)] by (simp_all add: f4)
  have f': "directory k0 s' = pd" "tables k0 s' = t" "physical_addr k0 s' = pd"
    unfolding s' f5(2) peek_field_zero[OF r4(1) ap(2) r4(2)] by (simp_all add: f5)
  show b: "brk_of s' = brk_of s + 4108"
    using a1(2) a2(2) lim by (simp add: s' s5_def s4_def s2_def unat_add_no_wrap)
  have tz: "tab k0 s' j = 0" if "j < 1024" for j
    unfolding tab_def f' unfolding s' f5 by (rule peek_zero_entry(2)[OF r4(1) r4(1) that])
  have dz: "pde k0 s' j = 0" if "j < 1024" for j
  proof -
    have "pde k0 s' j = peek (entry pd j) s5"
      unfolding pde_def f' unfolding s' f5 by (rule peek_zero_entry(1)[OF r4(1) rp that ap(3)])
    also have "\<dots> = 0" unfolding s5_def f4 by (rule peek_zero_entry(2)[OF rp rp that])
    finally show ?thesis .
  qed
  have "frame_ok k0 s'"
    unfolding frame_ok_def f' b using pd h tk a1(1) by (auto simp: apart_def)
  then show "ctx_wf k s'" by (simp add: ctx_wf_def kk tz dz)
  show "kernel_page_context s' = k" using a2(4) by (simp add: s' s5_def s4_def s2_def kk)
  show "directory k s' = pd" "tables k s' = k + 12" "k = heap_ptr (mem s)" "\<forall>j<1024. tab k s' j = 0"
    using f' tk a1(1) tz by (simp_all add: kk)
qed

lemma paging_init_parts:
  "paging_init pd pt s =
     (case fresh_context pd s of (k, s1) \<Rightarrow>
        map_option (\<lambda>s. paging_enable (s\<lparr>current_context := kernel_page_context s\<rparr>))
          (map_high_loop 0xC0000000
            (install_tables 64 960 (pt + 512 * 4096) (map_low_loop 0 (install_tables 512 0 pt s1)))))"
  by (simp add: paging_init_def fresh_context_def Let_def split: prod.splits)

lemma unat_pd_index: "unat (pd_index w) = unat w div 2 ^ 22"
  unfolding pd_index_def unat_drop_bit_eq by (rule drop_bit_eq_div)

lemma walk_install:
  assumes "\<forall>j<1024. tab p s' j = (if unat i \<le> unat j \<and> unat j < unat i + n then pt + 4096 * (j - i) else tab p s j)"
    and "\<forall>j<1024. \<forall>l<1024. tab p s' j \<noteq> 0 \<longrightarrow>
      pte p s' j l = (if unat i \<le> unat j \<and> unat j < unat i + n then 0 else pte p s j l)"
  shows "walk p s' w = (if unat i \<le> unat (pd_index w) \<and> unat (pd_index w) < unat i + n then None else walk p s w)"
  using assms pd_index_less[of w] pt_index_less[of w] by (auto simp: walk_def Let_def)

lemma static_tables:
  assumes "m < n" and "unat pt + 4096 * n \<le> 2 ^ 32" and "4096 dvd unat pt"
  shows "unat (pt + 4096 * of_nat m :: u32) = unat pt + 4096 * m" and "4096 dvd unat (pt + 4096 * of_nat m :: u32)"
proof -
  have "4096 * m < 2 ^ 32" using assms(1,2) by simp
  then have "unat (4096 * of_nat m :: u32) = 4096 * m"
    using unat_of_nat_u32[of "4096 * m"] by (simp only: of_nat_mult of_nat_numeral)
  then show "unat (pt + 4096 * of_nat m :: u32) = unat pt + 4096 * m"
    using assms(1,2) by (simp add: unat_add_no_wrap)
  then show "4096 dvd unat (pt + 4096 * of_nat m :: u32)" using assms(3) by simp
qed

lemma static_tables_ok:
  assumes wf: "ctx_wf p s" and lay: "4096 dvd unat pt" "unat pt + 4096 * n \<le> brk_of s" "4096 \<le> unat pt"
    and ap: "apart pt (4096 * n) p 12" "apart pt (4096 * n) (directory p s) 4096" "apart pt (4096 * n) (tables p s) 4096"
    and new: "\<forall>j<1024. \<not> (unat pt \<le> unat (tab p s j) \<and> unat (tab p s j) < unat pt + 4096 * n)"
  shows "\<forall>m<n. pt + 4096 * of_nat m \<noteq> 0 \<and> table_ok p s (pt + 4096 * of_nat m) \<and> (\<forall>j<1024. tab p s j \<noteq> pt + 4096 * of_nat m)"
    and "\<forall>m<n. \<forall>l<n. pt + 4096 * of_nat m = pt + 4096 * (of_nat l :: u32) \<longrightarrow> m = l"
proof -
  have r: "unat pt + 4096 * n \<le> 2 ^ 32" using lay(2) brk_less[of s] by simp
  have u: "unat (pt + 4096 * of_nat m) = unat pt + 4096 * m" if "m < n" for m by (rule static_tables(1)[OF that r lay(1)])
  show "\<forall>m<n. pt + 4096 * of_nat m \<noteq> 0 \<and> table_ok p s (pt + 4096 * of_nat m) \<and> (\<forall>j<1024. tab p s j \<noteq> pt + 4096 * of_nat m)"
  proof (intro allI impI conjI)
    fix m assume m: "m < n"
    have 1: "4096 * m + 4096 \<le> 4096 * n" using m by simp
    have "0 < unat (pt + 4096 * of_nat m)" using u[OF m] lay(3) by simp
    then show "pt + 4096 * of_nat m \<noteq> 0" by auto
    show "table_ok p s (pt + 4096 * of_nat m)"
      using static_tables(2)[OF m r lay(1)] u[OF m] 1 lay(2) ap by (auto simp: table_ok_def apart_def)
    fix j :: u32 assume j: "j < 1024"
    show "tab p s j \<noteq> pt + 4096 * of_nat m" using new[rule_format, OF j] u[OF m] m by auto
  qed
  show "\<forall>m<n. \<forall>l<n. pt + 4096 * of_nat m = pt + 4096 * (of_nat l :: u32) \<longrightarrow> m = l"
    using u by (metis add_left_cancel mult_left_cancel zero_neq_numeral)
qed

lemma paging_enable_same: "mem (paging_enable s) = mem s"
  by (simp add: paging_enable_def load_cr3_def)

lemma paging_init_facts:
  assumes "boot_layout pd pt s"
  shows "\<exists>s'. paging_init pd pt s = Some s' \<and> vm_ok s' \<and> paging_on s' \<and>
    current_context s' = kernel_page_context s' \<and> brk_of s' = brk_of s + 4108 \<and>
    (\<forall>v. mmu (cr3 s') (m_ram (mem s')) v = (if v < 0x80000000 \<or> 0xF0000000 \<le> v then Some (v, 6) else None)) \<and>
    (\<forall>j<1024. rd32 (m_ram (mem s')) (4 * j) = (0xEFC00000 + 4096 * j) OR 7) \<and> kernel_page_context s' \<noteq> 0"
proof -
  obtain p s1 where fc: "fresh_context pd s = (p, s1)" by fastforce
  note f = fresh_context_correct[OF assms fc]
  have lay: "4096 dvd unat pd" "4096 dvd unat pt" "4096 \<le> unat pd" "4096 \<le> unat pt" "apart pd 4096 pt (768 * 4096)"
    "unat pd + 4096 \<le> unat p" "unat pt + 768 * 4096 \<le> unat p" "unat p + 4108 < 2 ^ 32"
    using assms f(5) by (simp_all add: boot_layout_def)
  have p12: "unat (p + 12) = unat p + 12" using lay(8) by (simp add: unat_add_no_wrap)
  have al: "unat pt + 4096 * 512 \<le> brk_of s1" using lay(7) f(5,6) by simp
  have ap: "apart pt (4096 * 512) p 12" "apart pt (4096 * 512) (directory p s1) 4096" "apart pt (4096 * 512) (tables p s1) 4096"
    using lay f(3,4) p12 by (auto simp: apart_def)
  have pn: "\<forall>j<1024. \<not> (unat pt \<le> unat (tab p s1 j) \<and> unat (tab p s1 j) < unat pt + 4096 * 512)"
    using f(7) lay(4) by simp
  note so = static_tables_ok[OF f(1) lay(2) al lay(4) ap pn]
  define s2 where "s2 = install_tables 512 0 pt s1"
  note i1 = install_tables[OF f(1,2), of 0 512 pt, OF _ so, folded s2_def]
  have s2: "ctx_wf p s2" "kernel_page_context s2 = p" "directory p s2 = pd" "tables p s2 = p + 12"
    and s2m: "mem s2\<lparr>m_ram := m_ram (mem s1)\<rparr> = mem s1\<lparr>m_ram := m_ram (mem s1)\<rparr>"
    and t2: "\<forall>j<1024. tab p s2 j = (if unat (0 :: u32) \<le> unat j \<and> unat j < unat (0 :: u32) + 512 then pt + 4096 * (j - 0) else tab p s1 j)"
    using i1[of "m_ram (mem s1)"] f(3,4) by simp_all
  have b2: "brk_of s2 = brk_of s1" using arg_cong[OF s2m, of heap_ptr] by simp
  have w2: "walk p s2 w = None" for w
    using i1[of "m_ram (mem s1)"] f(7)[rule_format, OF pd_index_less, of w] by (subst walk_install[of p s2 0 512 pt s1]) (auto simp: walk_def)
  have pj: "unat (pt + 4096 * j) = unat pt + 4096 * unat j" if "unat j < 768" for j :: u32
    using static_tables(1)[of "unat j" 768 pt] that lay(2,7,8) by simp
  have t2a: "tab p s2 j = (if unat j < 512 then pt + 4096 * j else 0)" if "j < 1024" for j using t2 f(7) that by simp
  have nz: "\<forall>j<512. tab p s2 j \<noteq> 0"
  proof (intro allI impI)
    fix j :: u32 assume "j < 512"
    then have j: "j < 1024" "unat j < 512" by (simp_all add: word_less_nat_alt)
    then have "0 < unat (tab p s2 j)" using t2a[OF j(1)] pj[of j] lay(4) by simp
    then show "tab p s2 j \<noteq> 0" by auto
  qed
  define s3 where "s3 = map_low_loop 0 s2"
  have l: "keeps_ctx p s2 s3" "walk p s3 w = (if unat w < 0x80000000 then Some (w, 6) else None)" for w
    using map_low_loop_correct[OF s2(1,2) _ nz, of 0] w2 by (simp_all add: s3_def)
  have s3: "ctx_wf p s3" "kernel_page_context s3 = p" "directory p s3 = pd" "tables p s3 = p + 12" "\<forall>j<1024. tab p s3 j = tab p s2 j"
    and s3m: "mem s3\<lparr>m_ram := m_ram (mem s2)\<rparr> = mem s2" using l(1) s2 by (simp_all add: keeps_ctx_def)
  have b3: "brk_of s3 = brk_of s1" using arg_cong[OF s3m, of heap_ptr] b2 by simp
  let ?q = "pt + 512 * 4096"
  have q: "unat ?q = unat pt + 512 * 4096" using lay(7,8) by (simp add: unat_add_no_wrap)
  have qa: "4096 dvd unat ?q" "4096 \<le> unat ?q" "unat ?q + 4096 * 64 \<le> brk_of s3"
    using q lay(2,4,7) b3 f(5,6) by simp_all
  have qap: "apart ?q (4096 * 64) p 12" "apart ?q (4096 * 64) (directory p s3) 4096" "apart ?q (4096 * 64) (tables p s3) 4096"
    using lay s3(3,4) p12 q by (auto simp: apart_def)
  have qn: "\<forall>j<1024. \<not> (unat ?q \<le> unat (tab p s3 j) \<and> unat (tab p s3 j) < unat ?q + 4096 * 64)"
  proof (intro allI impI)
    fix j :: u32 assume j: "j < 1024"
    have "unat (tab p s3 j) < unat ?q" if "unat j < 512" using that s3(5) j t2a[OF j] pj[of j] q by simp
    moreover have "unat (tab p s3 j) = 0" if "\<not> unat j < 512" using that s3(5) j t2a[OF j] by simp
    ultimately show "\<not> (unat ?q \<le> unat (tab p s3 j) \<and> unat (tab p s3 j) < unat ?q + 4096 * 64)" using qa(2) by fastforce
  qed
  note so2 = static_tables_ok[OF s3(1) qa(1,3,2) qap qn]
  define s4 where "s4 = install_tables 64 960 ?q s3"
  note i2 = install_tables[OF s3(1,2), of 960 64 ?q, OF _ so2, folded s4_def]
  have s4: "ctx_wf p s4" "kernel_page_context s4 = p" "directory p s4 = pd" "tables p s4 = p + 12"
    and s4m: "mem s4\<lparr>m_ram := m_ram (mem s3)\<rparr> = mem s3\<lparr>m_ram := m_ram (mem s3)\<rparr>"
    and t4: "\<forall>j<1024. tab p s4 j = (if unat (960 :: u32) \<le> unat j \<and> unat j < unat (960 :: u32) + 64 then ?q + 4096 * (j - 960) else tab p s3 j)"
    using i2[of "m_ram (mem s3)"] s3(3,4) by simp_all
  have b4: "brk_of s4 = brk_of s1" using arg_cong[OF s4m, of heap_ptr] b3 by simp
  have w4: "walk p s4 w = (if unat w < 0x80000000 then Some (w, 6) else None)" for w
    using i2[of "m_ram (mem s3)"] l(2)[of w] by (subst walk_install[of p s4 960 64 ?q s3]) (auto simp: unat_pd_index)
  have t4a: "tab p s4 j = 0 \<longleftrightarrow> 512 \<le> unat j \<and> unat j < 960" if j: "j < 1024" for j
  proof -
    have "unat j < 1024" using j by (simp add: word_less_nat_alt)
    have "tab p s4 j \<noteq> 0" if "960 \<le> unat j"
    proof -
      have "unat j - 960 < 64" using \<open>unat j < 1024\<close> by simp
      then have "?q + 4096 * of_nat (unat j - 960) \<noteq> 0" using so2(1) by blast
      moreover have "(of_nat (unat j - 960) :: u32) = j - 960" using that by (simp add: of_nat_diff)
      ultimately show ?thesis using t4 j that \<open>unat j < 1024\<close> by simp
    qed
    moreover have "tab p s4 j = tab p s2 j" if "unat j < 960" using t4 s3(5) j that by simp
    moreover have "tab p s2 j \<noteq> 0" if "unat j < 512" using nz that by (simp add: word_less_nat_alt)
    ultimately show ?thesis using t2a[OF j] by (cases "unat j < 512"; cases "unat j < 960") simp_all
  qed
  have hi: "above_page_0 p s4" using lay s4(3,4) p12 by (simp add: above_page_0_def)
  have nul: "\<forall>x<1024. 768 \<le> x \<longrightarrow> (tab p s4 x = 0 \<longleftrightarrow> x < 960)"
    using t4a by (simp add: word_le_nat_alt word_less_nat_alt)
  have start: "(of_nat (2 ^ 32 - 4096 * 0x40000) :: u32) = 0xC0000000" by simp
  from map_high_loop_correct[OF _ s4(1,2) hi nul, of "0x40000"] obtain s5 where
    s5: "map_high_loop 0xC0000000 s4 = Some s5" "keeps_ctx p s4 s5"
    and w5: "\<And>w. walk p s5 w = (if 2 ^ 32 - 4096 * 0x40000 \<le> unat w \<and> tab p s4 (pd_index w) \<noteq> 0 then Some (w, 6) else walk p s4 w)"
    and l5: "\<And>j. j < 1024 \<Longrightarrow> peek (entry 0 j) s5 =
      (if 2 ^ 32 - 4096 * 0x40000 \<le> 0xEFC00000 + 4096 * unat j then (0xEFC00000 + 4096 * j) OR 7 else peek (entry 0 j) s4)"
    unfolding start by auto
  have k5: "kernel_page_context s5 = p" "ctx_wf p s5" and s5m: "mem s5\<lparr>m_ram := m_ram (mem s4)\<rparr> = mem s4"
    using s5(2) s4(2) by (simp_all add: keeps_ctx_def)
  have b5: "brk_of s5 = brk_of s + 4108" using arg_cong[OF s5m, of heap_ptr] b4 f(6) by simp
  define s6 where "s6 = paging_enable (s5\<lparr>current_context := p\<rparr>)"
  have m6: "mem s6 = mem s5" by (simp add: s6_def paging_enable_same)
  note sm = same_mem[OF m6]
  have c6: "current_context s6 = p" "kernel_page_context s6 = p" "tlb s6 = Map.empty" "paging_on s6" "cr3 s6 = physical_addr p s5"
    using same_mem(4)[of "s5\<lparr>current_context := p\<rparr>" s5 p]
    by (simp_all add: s6_def paging_enable_def load_cr3_def k5)
  have "paging_init pd pt s = Some s6"
    by (simp only: paging_init_parts fc prod.case s2_def[symmetric] s3_def[symmetric] s4_def[symmetric] s5(1)
        option.map k5(1) s6_def)
  moreover have "vm_ok s6" using k5(2) sm(4,9)[of p] c6 by (simp add: vm_ok_def)
  moreover have "mmu (cr3 s6) (m_ram (mem s6)) v = (if v < 0x80000000 \<or> 0xF0000000 \<le> v then Some (v, 6) else None)" for v
  proof -
    have "mmu (cr3 s6) (m_ram (mem s6)) v = walk p s5 v" using mmu_walk[OF k5(2)] c6(5) m6 by simp
    also have "\<dots> = (if v < 0x80000000 \<or> 0xF0000000 \<le> v then Some (v, 6) else None)"
      using w5[of v] w4[of v] t4a[OF pd_index_less, of v] unat_u32[of v]
      by (auto simp: unat_pd_index word_less_nat_alt word_le_nat_alt)
    finally show ?thesis .
  qed
  moreover have "rd32 (m_ram (mem s6)) (4 * j) = (0xEFC00000 + 4096 * j) OR 7" if "j < 1024" for j
    using l5[OF that] m6 by (simp add: peek_def entry_def)
  moreover have "p \<noteq> 0" using lay(6) by auto
  ultimately show ?thesis using c6 b5 m6 by auto
qed

section \<open>Properties of the page tables\<close>

lemma vm_ok_mmu: "vm_ok s \<Longrightarrow> mmu (cr3 s) (m_ram (mem s)) v = walk (current_context s) s v"
  using mmu_walk[of "current_context s" s v] by (simp add: vm_ok_def)

lemma boot_layout_example: "boot_layout 0x200000 0x201000 (boot_paging m)"
  by (simp add: boot_layout_def boot_paging_def boot_memory_def apart_def)

text \<open>C16. \<open>paging_init\<close> returns, for every place the linker may give the static tables, with paging on and
  well-formed tables, in which the processor translates every address below 0x80000000 and from 0xF0000000 on to
  itself, writable and open to user mode.\<close>

theorem paging_init_identity:
  assumes "boot_layout pd pt s"
  shows "\<exists>s'. paging_init pd pt s = Some s' \<and> vm_ok s' \<and> paging_on s' \<and> current_context s' = kernel_page_context s' \<and>
    (\<forall>v. v < 0x80000000 \<or> 0xF0000000 \<le> v \<longrightarrow> mmu (cr3 s') (m_ram (mem s')) v = Some (v, PAGE_WRITE OR PAGE_USER))"
  using paging_init_facts[OF assms] by (auto simp: PAGE_WRITE_def PAGE_USER_def)

theorem paging_init_identity_witness:
  "\<exists>s. paging_init 0x200000 0x201000 (boot_paging (\<lambda>_. 0)) = Some s \<and>
     mmu (cr3 s) (m_ram (mem s)) 0xB8000 = Some (0xB8000, 6) \<and> mmu (cr3 s) (m_ram (mem s)) 0xFEE00000 = Some (0xFEE00000, 6)"
  using paging_init_identity[OF boot_layout_example[of "\<lambda>_. 0"]] by (auto simp: PAGE_WRITE_def PAGE_USER_def)

text \<open>The loop of \<open>paging_init\<close> that means to map the addresses from 0xC0000000 on finds no tables below
  0xF0000000: that part stays unmapped, and its entries are written through null pointers over the first page of
  memory, of which no byte survives.\<close>

theorem paging_init_null_tables:
  assumes "boot_layout pd pt s"
  shows "\<exists>s'. paging_init pd pt s = Some s' \<and>
    (\<forall>v. 0x80000000 \<le> v \<and> v < 0xF0000000 \<longrightarrow> mmu (cr3 s') (m_ram (mem s')) v = None) \<and>
    (\<forall>j<1024. rd32 (m_ram (mem s')) (4 * j) = (0xEFC00000 + 4096 * j) OR 7)"
  using paging_init_facts[OF assms] by (auto simp: not_less not_le)

theorem paging_init_null_tables_witness:
  "\<exists>s. paging_init 0x200000 0x201000 (boot_paging (\<lambda>_. 0)) = Some s \<and>
     mmu (cr3 s) (m_ram (mem s)) 0xC0000000 = None \<and> rd32 (m_ram (mem s)) (4 * 0x21) = 0xEFC21007"
proof -
  obtain s where s: "paging_init 0x200000 0x201000 (boot_paging (\<lambda>_. 0)) = Some s"
    "\<forall>v. 0x80000000 \<le> v \<and> v < 0xF0000000 \<longrightarrow> mmu (cr3 s) (m_ram (mem s)) v = None"
    "\<forall>j<1024. rd32 (m_ram (mem s)) (4 * j) = (0xEFC00000 + 4096 * j) OR 7"
    using paging_init_null_tables[OF boot_layout_example[of "\<lambda>_. 0"]] by auto
  have "rd32 (m_ram (mem s)) (4 * 0x21) = (0xEFC00000 + 4096 * 0x21) OR 7" using s(3)[rule_format, of "0x21"] by simp
  then show ?thesis using s(1,2) by simp
qed



text \<open>C27. Whatever is mapped, unmapped or switched, and whatever translations the processor remembers in
  between, every remembered translation is the one the tables in memory give: no operation leaves a stale one.\<close>

theorem tlb_never_stale:
  assumes "vm_step\<^sup>*\<^sup>* s s'" and "vm_ok s" and "tlb s' v = Some e"
  shows "mmu (cr3 s') (m_ram (mem s')) v = Some e"
proof -
  have ok: "vm_ok s'" by (rule vm_steps_ok[OF assms(1,2)])
  then have "walk (current_context s') s' v = Some e" using assms(3) unfolding vm_ok_def by blast
  then show ?thesis by (simp add: vm_ok_mmu[OF ok])
qed

theorem tlb_never_stale_witness:
  "\<exists>s s1 s2. paging_init 0x200000 0x201000 (boot_paging (\<lambda>_. 0)) = Some s \<and> s1 = tlb_fill 0x400000 s \<and>
     tlb s1 0x400000 = Some (0x400000, 6) \<and> mmu (cr3 s1) (m_ram (mem s1)) 0x400000 = Some (0x400000, 6) \<and>
     s2 = paging_map_page (current_context s1) 0x400000 0x1500000 7 s1 \<and> tlb s2 0x400000 = None"
proof -
  obtain s where s: "paging_init 0x200000 0x201000 (boot_paging (\<lambda>_. 0)) = Some s" "vm_ok s"
    "mmu (cr3 s) (m_ram (mem s)) 0x400000 = Some (0x400000, 6)"
    using paging_init_facts[OF boot_layout_example[of "\<lambda>_. 0"]] by auto
  have t: "tlb (tlb_fill 0x400000 s) 0x400000 = Some (0x400000, 6)" using s(3) by (simp add: tlb_fill_def)
  have "vm_step\<^sup>*\<^sup>* s (tlb_fill 0x400000 s)" by (rule r_into_rtranclp) (rule vm_step.Translate)
  from tlb_never_stale[OF this s(2) t] show ?thesis using s(1) t by simp
qed

end
