(* ===== verification/Tasks.thy ===== *)
theory Tasks
  imports Paging
begin

text \<open>
  Tasks and the scheduler: \<open>src/kernel/task.c\<close> and \<open>src/kernel/scheduler.c\<close>.  Tasks are structures at
  addresses of the kernel heap (the first one is a static variable), linked into a ring by their \<open>next\<close>
  pointers; the store of tasks is a map from addresses.  The call of \<open>context_switch\<close>, which is written in
  assembly and does not return before the task is resumed, is the value an operation ends with.
\<close>

section \<open>State and operations\<close>

datatype task_state = TASK_RUNNING | TASK_SLEEPING | TASK_ZOMBIE

record task_t =
  t_pid :: int
  t_esp :: u32
  t_ebp :: u32
  t_eip :: u32
  t_state :: task_state
  t_wakeup :: u32
  t_name :: bytes
  t_ctx :: u32
  t_next :: u32

type_synonym task_store = "u32 \<rightharpoonup> task_t"

record task_sys =
  tasks :: task_store
  t_current :: u32
  task_list :: u32
  next_pid :: int
  tick_count :: u32
  vm :: paging_state

text \<open>How an operation ends: it returns, or the processor continues another task (the addresses are the
  arguments of \<open>context_switch\<close>).\<close>

datatype outcome = Returns | Switch u32 u32

definition zero_task :: task_t where
  "zero_task = \<lparr>t_pid = 0, t_esp = 0, t_ebp = 0, t_eip = 0, t_state = TASK_RUNNING, t_wakeup = 0,
     t_name = replicate 32 0, t_ctx = 0, t_next = 0\<rparr>"

definition task_current :: "task_sys \<Rightarrow> u32" where
  "task_current s = t_current s"

definition task_get_list :: "task_sys \<Rightarrow> u32" where
  "task_get_list s = task_list s"

text \<open>\<open>kt\<close> is the address of the static variable \<open>kernel_task\<close>.\<close>

definition task_init :: "u32 \<Rightarrow> task_sys \<Rightarrow> task_sys" where
  "task_init kt s =
     s\<lparr>tasks := (tasks s)(kt \<mapsto> zero_task\<lparr>t_pid := 0, t_state := TASK_RUNNING,
           t_ctx := kernel_page_context (vm s), t_next := kt\<rparr>),
       t_current := kt, task_list := kt\<rparr>"

text \<open>\<open>ret\<close> is the address of \<open>task_exit\<close>, to which the entry function of a task returns.\<close>

definition task_create :: "u32 \<Rightarrow> u32 \<Rightarrow> bytes option \<Rightarrow> task_sys \<Rightarrow> (u32 \<times> task_sys) option" where
  "task_create ret start name s =
     (case pg_kmalloc 64 (vm s) of (t, v) \<Rightarrow>
      case pg_kmalloc 4096 v of (stack, v) \<Rightarrow>
        (let stack_top = stack + 4096 - 4;
             v = poke stack_top ret v
         in do {
           nm \<leftarrow> strncpy (replicate 32 0) (case name of Some n \<Rightarrow> n | None \<Rightarrow> ascii ''task'' @ [0]) 31;
           let new = zero_task\<lparr>t_esp := stack_top, t_ebp := stack_top, t_eip := start, t_state := TASK_RUNNING,
             t_pid := next_pid s, t_name := nm, t_ctx := paging_create_context v\<rparr>;
           l \<leftarrow> tasks s (task_list s);
           if next_pid s = INT_MAX then None
           else Some (t, s\<lparr>vm := v, next_pid := next_pid s + 1,
             tasks := (tasks s)(t \<mapsto> new\<lparr>t_next := t_next l\<rparr>, task_list s \<mapsto> l\<lparr>t_next := t\<rparr>)\<rparr>)
         }))"

definition task_set_current :: "u32 \<Rightarrow> task_sys \<Rightarrow> task_sys option" where
  "task_set_current t s =
     (let s = s\<lparr>t_current := t\<rparr> in
      if t = 0 then Some s
      else do {
        k \<leftarrow> tasks s t;
        Some (if t_ctx k \<noteq> 0 then s\<lparr>vm := paging_switch_context (t_ctx k) (vm s)\<rparr> else s)
      })"

definition wake :: "u32 \<Rightarrow> task_t \<Rightarrow> task_t" where
  "wake now t = (if t_state t = TASK_SLEEPING \<and> t_wakeup t \<le> now then t\<lparr>t_state := TASK_RUNNING\<rparr> else t)"

partial_function (option) schedule_loop :: "u32 \<Rightarrow> u32 \<Rightarrow> task_store \<Rightarrow> (u32 \<times> task_store) option" where
  "schedule_loop now next h =
     do {
       t \<leftarrow> h next;
       if t_state t \<noteq> TASK_RUNNING then schedule_loop now (t_next t) (h(next \<mapsto> wake now t))
       else Some (next, h)
     }"

definition task_schedule :: "task_sys \<Rightarrow> (outcome \<times> task_sys) option" where
  "task_schedule s =
     (let prev = task_current s in do {
       p \<leftarrow> tasks s prev;
       (next, h) \<leftarrow> schedule_loop (tick_count s) (t_next p) (tasks s);
       let s = s\<lparr>tasks := h\<rparr>;
       if next = prev then Some (Returns, s)
       else do {
         s \<leftarrow> task_set_current next s;
         Some (Switch prev next, s)
       }
     })"

text \<open>\<open>task_exit\<close> never returns: where no other task is found it loops forever.\<close>

definition task_exit :: "task_sys \<Rightarrow> (outcome \<times> task_sys) option" where
  "task_exit s =
     do {
       c \<leftarrow> tasks s (task_current s);
       let s = s\<lparr>tasks := (tasks s)(task_current s \<mapsto> c\<lparr>t_state := TASK_ZOMBIE\<rparr>)\<rparr>;
       (r, s) \<leftarrow> task_schedule s;
       if r = Returns then None else Some (r, s)
     }"

definition task_sleep :: "u32 \<Rightarrow> task_sys \<Rightarrow> (outcome \<times> task_sys) option" where
  "task_sleep ms s =
     do {
       c \<leftarrow> tasks s (task_current s);
       task_schedule (s\<lparr>tasks := (tasks s)(task_current s \<mapsto>
         c\<lparr>t_state := TASK_SLEEPING, t_wakeup := tick_count s + ms\<rparr>)\<rparr>)
     }"

text \<open>The loop of \<open>task_kill\<close> looks for the number; \<open>None\<close> in the result is the end of the ring.\<close>

partial_function (option) find_pid :: "int \<Rightarrow> u32 \<Rightarrow> u32 \<Rightarrow> task_store \<Rightarrow> u32 option option" where
  "find_pid pid start a h =
     do {
       t \<leftarrow> h a;
       if t_pid t = pid then Some (Some a)
       else if t_next t \<noteq> start then find_pid pid start (t_next t) h
       else Some None
     }"

definition task_kill :: "int \<Rightarrow> task_sys \<Rightarrow> (int \<times> outcome \<times> task_sys) option" where
  "task_kill pid s =
     do {
       r \<leftarrow> find_pid pid (task_get_list s) (task_get_list s) (tasks s);
       case r of
         None \<Rightarrow> Some (-1, Returns, s)
       | Some a \<Rightarrow>
           if a = task_current s then do { (o', s) \<leftarrow> task_exit s; Some (0, o', s) }
           else do {
             t \<leftarrow> tasks s a;
             Some (0, Returns, s\<lparr>tasks := (tasks s)(a \<mapsto> t\<lparr>t_state := TASK_ZOMBIE\<rparr>)\<rparr>)
           }
     }"

section \<open>The ring\<close>

text \<open>\<open>links h a xs b\<close>: the tasks from \<open>a\<close> on, in the order of their pointers, are \<open>xs\<close>, and the last one
  points to \<open>b\<close>.\<close>

fun links :: "task_store \<Rightarrow> u32 \<Rightarrow> u32 list \<Rightarrow> u32 \<Rightarrow> bool" where
  "links h a [] b \<longleftrightarrow> a = b"
| "links h a (x # xs) b \<longleftrightarrow> a = x \<and> (\<exists>t. h x = Some t \<and> links h (t_next t) xs b)"

lemma links_append: "links h a (xs @ ys) b \<longleftrightarrow> (\<exists>c. links h a xs c \<and> links h c ys b)"
  by (induction xs arbitrary: a) auto

lemma links_dom: "links h a xs b \<Longrightarrow> set xs \<subseteq> dom h"
  by (induction xs arbitrary: a) auto

text \<open>Only the pointers of the tasks on the way matter.\<close>

lemma links_cong:
  "(\<And>x. x \<in> set xs \<Longrightarrow> map_option t_next (h' x) = map_option t_next (h x)) \<Longrightarrow> links h' a xs b \<longleftrightarrow> links h a xs b"
proof (induction xs arbitrary: a)
  case (Cons x xs)
  have x: "map_option t_next (h' x) = map_option t_next (h x)" by (rule Cons.prems) simp
  have xs: "links h' c xs b \<longleftrightarrow> links h c xs b" for c by (rule Cons.IH) (rule Cons.prems, simp)
  show ?case
    using x by (cases "h x"; cases "h' x") (simp_all add: xs)
qed simp

definition tour :: "task_store \<Rightarrow> u32 list \<Rightarrow> bool" where
  "tour h xs \<longleftrightarrow> xs \<noteq> [] \<and> distinct xs \<and> links h (hd xs) xs (hd xs)"

lemma tour_rotate1: "tour h xs \<Longrightarrow> tour h (rotate1 xs)"
proof -
  assume t: "tour h xs"
  then obtain x ys where xs: "xs = x # ys" by (cases xs) (auto simp: tour_def)
  with t obtain k where k: "h x = Some k" "links h (t_next k) ys x" "distinct (x # ys)" by (auto simp: tour_def)
  have "links h (t_next k) (ys @ [x]) (t_next k)" using k(1,2) by (auto simp: links_append)
  moreover have "t_next k = hd (ys @ [x])" using k(2) by (cases ys) auto
  ultimately show ?thesis using k(3) by (simp add: tour_def xs)
qed

lemma tour_rotate: "tour h xs \<Longrightarrow> tour h (rotate n xs)"
  by (induction n) (simp_all add: tour_rotate1)

lemma tour_cong:
  "(\<And>x. x \<in> set xs \<Longrightarrow> map_option t_next (h' x) = map_option t_next (h x)) \<Longrightarrow> tour h' xs \<longleftrightarrow> tour h xs"
  using links_cong[of xs h' h] by (simp add: tour_def)

lemma tour_head: "tour h (x # xs) \<Longrightarrow> \<exists>t. h x = Some t \<and> links h (t_next t) (xs @ [x]) (t_next t)"
  using tour_rotate1[of h "x # xs"] by (auto simp: tour_def links_append)

section \<open>The choice of the next task\<close>

definition running :: "task_store \<Rightarrow> u32 \<Rightarrow> bool" where
  "running h x \<longleftrightarrow> (\<exists>t. h x = Some t \<and> t_state t = TASK_RUNNING)"

definition due :: "u32 \<Rightarrow> task_store \<Rightarrow> u32 \<Rightarrow> bool" where
  "due now h x \<longleftrightarrow> (\<exists>t. h x = Some t \<and> t_state t = TASK_SLEEPING \<and> t_wakeup t \<le> now)"

text \<open>A pass over \<open>xs\<close> wakes the sleepers whose time has come.\<close>

definition wake_all :: "u32 \<Rightarrow> u32 list \<Rightarrow> task_store \<Rightarrow> task_store" where
  "wake_all now xs h x = (if x \<in> set xs then map_option (wake now) (h x) else h x)"

lemma wake_fields [simp]:
  "t_next (wake now t) = t_next t" "t_pid (wake now t) = t_pid t" "t_ctx (wake now t) = t_ctx t"
  by (simp_all add: wake_def)

lemma wake_all_next: "map_option t_next (wake_all now xs h x) = map_option t_next (h x)"
  by (simp add: wake_all_def option.map_comp comp_def)

lemma running_wake_all: "running (wake_all now xs h) x \<longleftrightarrow> running h x \<or> x \<in> set xs \<and> due now h x"
  by (cases "h x") (auto simp: wake_all_def running_def due_def wake_def)

lemma wake_all_Cons:
  "h x = Some t \<Longrightarrow> x \<notin> set xs \<Longrightarrow> wake_all now xs (h(x \<mapsto> wake now t)) = wake_all now (x # xs) h"
  by (auto simp: wake_all_def fun_eq_iff)

text \<open>Tasks that do not run are passed over.\<close>

lemma schedule_loop_pass:
  "links h a xs b \<Longrightarrow> distinct xs \<Longrightarrow> \<forall>x \<in> set xs. \<not> running h x \<Longrightarrow>
   schedule_loop now a h = schedule_loop now b (wake_all now xs h)"
proof (induction xs arbitrary: a h)
  case Nil
  then show ?case by (simp add: wake_all_def)
next
  case (Cons x xs)
  then obtain t where a: "a = x" and t: "h x = Some t" and p: "links h (t_next t) xs b" and nr: "t_state t \<noteq> TASK_RUNNING"
    by (auto simp: running_def)
  let ?h = "h(x \<mapsto> wake now t)"
  have "links ?h (t_next t) xs b" using p links_cong[of xs ?h h] Cons.prems(2) t by auto
  moreover have "\<forall>y \<in> set xs. \<not> running ?h y" using Cons.prems(2,3) by (auto simp: running_def)
  ultimately have "schedule_loop now (t_next t) ?h = schedule_loop now b (wake_all now xs ?h)"
    using Cons.IH Cons.prems(2) by simp
  moreover have "schedule_loop now a h = schedule_loop now (t_next t) ?h"
    using nr by (simp add: a t schedule_loop.simps[of now x h])
  ultimately show ?case using wake_all_Cons[of h x t xs now] t Cons.prems(2) by simp
qed

lemma schedule_loop_stop: "running h a \<Longrightarrow> schedule_loop now a h = Some (a, h)"
  by (auto simp: running_def schedule_loop.simps[of now a h])

lemma schedule_loop_first:
  assumes "links h a (xs @ y # ys) b" and "distinct xs" and "\<forall>x \<in> set xs. \<not> running h x" and "running h y" and "y \<notin> set xs"
  shows "schedule_loop now a h = Some (y, wake_all now xs h)"
proof -
  have p: "links h a xs y" using assms(1) by (auto simp: links_append)
  have "running (wake_all now xs h) y" using assms(4) by (simp add: running_wake_all)
  then show ?thesis using schedule_loop_pass[OF p assms(2,3), of now] schedule_loop_stop by simp
qed

text \<open>If the loop stops, something on the ring can run; otherwise it goes round for ever.\<close>

definition nobody :: "u32 \<Rightarrow> task_store \<Rightarrow> u32 set \<Rightarrow> bool" where
  "nobody now h S \<longleftrightarrow> (\<forall>x \<in> S. \<not> running h x \<and> \<not> due now h x \<and> (\<forall>t. h x = Some t \<longrightarrow> t_next t \<in> S))"

lemma schedule_loop_nobody:
  assumes "schedule_loop now a h = Some r"
  shows "nobody now h S \<longrightarrow> a \<notin> S"
proof (rule schedule_loop.raw_induct[where P = "\<lambda>now a h r. nobody now h S \<longrightarrow> a \<notin> S", OF _ assms], intro impI notI)
  fix f now a h r
  assume IH: "\<And>now a h r. f now a h = Some r \<Longrightarrow> nobody now h S \<longrightarrow> a \<notin> S"
    and f: "h a \<bind> (\<lambda>t. if t_state t \<noteq> TASK_RUNNING then f now (t_next t) (h(a \<mapsto> wake now t)) else Some (a, h)) = Some r"
    and n: "nobody now h S" "a \<in> S"
  obtain t where t: "h a = Some t" using f by (cases "h a") auto
  have s: "t_state t \<noteq> TASK_RUNNING" "\<not> (t_state t = TASK_SLEEPING \<and> t_wakeup t \<le> now)" "t_next t \<in> S"
    using n t by (auto simp: nobody_def running_def due_def)
  then have "h(a \<mapsto> wake now t) = h" using t by (auto simp: wake_def)
  then have "f now (t_next t) h = Some r" using f t s(1) by simp
  then show False using IH n(1) s(3) by blast
qed

lemma schedule_loop_none: "nobody now h S \<Longrightarrow> a \<in> S \<Longrightarrow> schedule_loop now a h = None"
  using schedule_loop_nobody[of now a h _ S] by (cases "schedule_loop now a h") auto

text \<open>What the loop picks among the tasks in the order in which it visits them: the first that runs, or else
  the first sleeper whose time has come.\<close>

definition next_task :: "u32 \<Rightarrow> task_store \<Rightarrow> u32 list \<Rightarrow> u32 option" where
  "next_task now h order =
     (case filter (running h) order of
        y # _ \<Rightarrow> Some y
      | [] \<Rightarrow> (case filter (due now h) order of y # _ \<Rightarrow> Some y | [] \<Rightarrow> None))"

text \<open>All it changes is that sleepers whose time has come run.\<close>

definition woken :: "u32 \<Rightarrow> task_store \<Rightarrow> task_store \<Rightarrow> bool" where
  "woken now h h' \<longleftrightarrow> (\<forall>x. h' x = h x \<or> due now h x \<and> h' x = map_option (wake now) (h x))"

lemma woken_wake_all: "woken now h (wake_all now xs h)"
proof -
  have "map_option (wake now) (h x) = h x" if "\<not> due now h x" for x
    using that by (cases "h x") (auto simp: due_def wake_def)
  then show ?thesis unfolding woken_def wake_all_def by metis
qed

lemma wake_all_twice: "set us \<subseteq> set xs \<Longrightarrow> wake_all now us (wake_all now xs h) = wake_all now xs h"
  by (rule ext) (auto simp: wake_all_def wake_def option.map_comp comp_def intro!: option.map_cong)

lemma filter_first: "filter P xs = y # zs \<Longrightarrow> \<exists>us vs. xs = us @ y # vs \<and> (\<forall>u \<in> set us. \<not> P u) \<and> P y"
  by (auto simp: filter_eq_Cons_iff)

lemma schedule_loop_round:
  assumes "links h a order a" and "distinct order" and "order \<noteq> []"
  shows "case next_task now h order of
      None \<Rightarrow> schedule_loop now a h = None
    | Some y \<Rightarrow> y \<in> set order \<and> (\<exists>h'. schedule_loop now a h = Some (y, h') \<and> woken now h h' \<and> running h' y)"
proof (cases "filter (running h) order")
  case (Cons y zs)
  from filter_first[OF Cons] obtain us vs where o: "order = us @ y # vs" "\<forall>u \<in> set us. \<not> running h u" "running h y" by auto
  have "schedule_loop now a h = Some (y, wake_all now us h)"
    using assms(1,2) o by (intro schedule_loop_first[of h a us y vs a]) auto
  moreover have "running (wake_all now us h) y" using o(3) by (simp add: running_wake_all)
  ultimately show ?thesis using Cons o(1) woken_wake_all by (auto simp: next_task_def)
next
  case none: Nil
  then have nr: "\<forall>x \<in> set order. \<not> running h x" by (simp add: filter_empty_conv)
  let ?h = "wake_all now order h"
  have pass: "schedule_loop now a h = schedule_loop now a ?h" by (rule schedule_loop_pass[OF assms(1,2) nr])
  show ?thesis
  proof (cases "filter (due now h) order")
    case (Cons y zs)
    from filter_first[OF Cons] obtain us vs where o: "order = us @ y # vs" "\<forall>u \<in> set us. \<not> due now h u" "due now h y" by auto
    have p: "links ?h a (us @ y # vs) a" using assms(1) links_cong[of order ?h h] o(1) by (simp add: wake_all_next)
    have "\<forall>u \<in> set us. \<not> running ?h u" "running ?h y" using nr o by (simp_all add: running_wake_all)
    from schedule_loop_first[OF p _ this] assms(2) o(1)
    have "schedule_loop now a ?h = Some (y, wake_all now us ?h)" by simp
    moreover have "wake_all now us ?h = ?h" using o(1) by (intro wake_all_twice) auto
    ultimately show ?thesis
      using pass none Cons o(1) woken_wake_all \<open>running ?h y\<close> by (auto simp: next_task_def)
  next
    case Nil
    have "a \<in> set order" using assms(1,3) by (cases order) auto
    have "t_next t \<in> set order" if "x \<in> set order" "h x = Some t" for x t
    proof -
      from that(1) obtain us vs where o: "order = us @ x # vs" by (meson split_list)
      then have "links h (t_next t) vs a" using assms(1) that(2) by (auto simp: links_append)
      then show ?thesis using o \<open>a \<in> set order\<close> by (cases vs) auto
    qed
    then have "nobody now h (set order)" using nr Nil by (auto simp: nobody_def filter_empty_conv)
    then show ?thesis using none Nil \<open>a \<in> set order\<close> schedule_loop_none by (simp add: next_task_def)
  qed
qed

section \<open>The invariant\<close>

definition tasks_ok :: "task_sys \<Rightarrow> u32 list \<Rightarrow> bool" where
  "tasks_ok s xs \<longleftrightarrow> tour (tasks s) xs \<and> hd xs = t_current s \<and> dom (tasks s) = set xs \<and> task_list s \<in> set xs \<and>
     inj_on (\<lambda>x. map_option t_pid (tasks s x)) (set xs) \<and>
     (\<forall>x t. tasks s x = Some t \<longrightarrow> x \<noteq> 0 \<and> 0 \<le> t_pid t \<and> t_pid t < next_pid s \<and> unat x + 64 \<le> brk_of (vm s) \<and>
       t_ctx t = kernel_page_context (vm s)) \<and>
     current_context (vm s) = kernel_page_context (vm s)"

text \<open>Tasks that keep their numbers, pointers and contexts.\<close>

definition same_links :: "task_store \<Rightarrow> task_store \<Rightarrow> bool" where
  "same_links h h' \<longleftrightarrow>
     (\<forall>x. map_option (\<lambda>t. (t_pid t, t_ctx t, t_next t)) (h' x) = map_option (\<lambda>t. (t_pid t, t_ctx t, t_next t)) (h x))"

lemma same_links_fields:
  assumes "same_links h h'"
  shows "map_option t_next (h' x) = map_option t_next (h x)" and "map_option t_pid (h' x) = map_option t_pid (h x)"
    and "h' x = Some t' \<Longrightarrow> \<exists>t. h x = Some t \<and> t_pid t = t_pid t' \<and> t_ctx t = t_ctx t'" and "dom h' = dom h"
proof -
  have e: "map_option (\<lambda>t. (t_pid t, t_ctx t, t_next t)) (h' x) = map_option (\<lambda>t. (t_pid t, t_ctx t, t_next t)) (h x)" for x
    using assms by (simp add: same_links_def)
  show "map_option t_next (h' x) = map_option t_next (h x)" "map_option t_pid (h' x) = map_option t_pid (h x)"
    "h' x = Some t' \<Longrightarrow> \<exists>t. h x = Some t \<and> t_pid t = t_pid t' \<and> t_ctx t = t_ctx t'"
    using e[of x] by (cases "h x"; cases "h' x"; simp)+
  have "h' x = None \<longleftrightarrow> h x = None" for x using e[of x] by (cases "h x"; cases "h' x"; simp)
  then show "dom h' = dom h" by (simp add: dom_def)
qed

lemma tasks_ok_links:
  assumes ok: "tasks_ok s xs" and l: "same_links (tasks s) h"
  shows "tasks_ok (s\<lparr>tasks := h\<rparr>) xs"
proof -
  note f = same_links_fields[OF l]
  have "tour h xs" using ok tour_cong[of xs h "tasks s"] f(1) by (simp add: tasks_ok_def)
  moreover have "inj_on (\<lambda>x. map_option t_pid (h x)) (set xs)" using ok f(2) by (simp add: tasks_ok_def)
  moreover have "x \<noteq> 0 \<and> 0 \<le> t_pid t \<and> t_pid t < next_pid s \<and> unat x + 64 \<le> brk_of (vm s) \<and>
      t_ctx t = kernel_page_context (vm s)" if hx: "h x = Some t" for x t
  proof -
    obtain u where u: "tasks s x = Some u" "t_pid u = t_pid t" "t_ctx u = t_ctx t" using f(3)[OF hx] by auto
    have "x \<noteq> 0 \<and> 0 \<le> t_pid u \<and> t_pid u < next_pid s \<and> unat x + 64 \<le> brk_of (vm s) \<and>
      t_ctx u = kernel_page_context (vm s)" using ok u(1) unfolding tasks_ok_def by blast
    then show ?thesis using u(2,3) by simp
  qed
  ultimately show ?thesis using ok f(4) by (simp add: tasks_ok_def)
qed

lemma woken_links: "woken now h h' \<Longrightarrow> same_links h h'"
  unfolding woken_def same_links_def
proof
  fix x assume "\<forall>x. h' x = h x \<or> due now h x \<and> h' x = map_option (wake now) (h x)"
  then have "h' x = h x \<or> h' x = map_option (wake now) (h x)" by blast
  then show "map_option (\<lambda>t. (t_pid t, t_ctx t, t_next t)) (h' x) = map_option (\<lambda>t. (t_pid t, t_ctx t, t_next t)) (h x)"
    by (auto simp: option.map_comp comp_def)
qed

lemma same_links_upd:
  "h x = Some t \<Longrightarrow> t_pid t' = t_pid t \<Longrightarrow> t_ctx t' = t_ctx t \<Longrightarrow> t_next t' = t_next t \<Longrightarrow> same_links h (h(x \<mapsto> t'))"
  by (simp add: same_links_def)

lemma tasks_ok_at:
  "tasks_ok s xs \<Longrightarrow> tasks s x = Some t \<Longrightarrow>
   x \<noteq> 0 \<and> 0 \<le> t_pid t \<and> t_pid t < next_pid s \<and> unat x + 64 \<le> brk_of (vm s) \<and> t_ctx t = kernel_page_context (vm s)"
  unfolding tasks_ok_def by blast

lemma tasks_ok_member:
  assumes "tasks_ok s xs" and "x \<in> set xs"
  obtains t where "tasks s x = Some t" and "x \<noteq> 0" and "t_ctx t = kernel_page_context (vm s)"
proof -
  have "x \<in> dom (tasks s)" using assms by (simp add: tasks_ok_def)
  then obtain t where t: "tasks s x = Some t" by blast
  then show ?thesis using that[OF t] assms(1) unfolding tasks_ok_def by blast
qed

lemma rotate_to:
  assumes "rotate1 xs = us @ y # vs"
  shows "rotate (Suc (length us)) xs = y # vs @ us"
  using assms by (simp add: rotate1_rotate_swap rotate_append)

text \<open>A call of the scheduler, in the terms of the ring: with nobody to run it does not return; otherwise the
  chosen task is current.\<close>

lemma task_schedule_round:
  assumes ok: "tasks_ok s xs"
  shows "case next_task (tick_count s) (tasks s) (rotate1 xs) of
      None \<Rightarrow> task_schedule s = None
    | Some y \<Rightarrow> (\<exists>h. task_schedule s = Some (if y = t_current s then Returns else Switch (t_current s) y, s\<lparr>tasks := h, t_current := y\<rparr>) \<and>
        y \<in> set xs \<and> woken (tick_count s) (tasks s) h \<and> running h y)"
proof -
  let ?h = "tasks s" and ?p = "t_current s" and ?now = "tick_count s"
  obtain ys where xs: "xs = ?p # ys" and tr: "tour ?h (?p # ys)"
    using ok by (cases xs) (auto simp: tasks_ok_def tour_def)
  from tour_head[OF tr] obtain p where p: "?h ?p = Some p" "links ?h (t_next p) (ys @ [?p]) (t_next p)" by auto
  have d: "distinct (ys @ [?p])" using tr by (simp add: tour_def)
  note r = schedule_loop_round[OF p(2) d, of ?now]
  show ?thesis
  proof (cases "next_task ?now ?h (ys @ [?p])")
    case None
    then show ?thesis using r p(1) by (simp add: xs task_schedule_def task_current_def Let_def)
  next
    case (Some y)
    then obtain h where y: "y \<in> set xs" and l: "schedule_loop ?now (t_next p) ?h = Some (y, h)" and w: "woken ?now ?h h"
      and run: "running h y" using r by (auto simp: xs)
    have ok': "tasks_ok (s\<lparr>tasks := h\<rparr>) xs" by (rule tasks_ok_links[OF ok woken_links[OF w]])
    from tasks_ok_member[OF ok' y] obtain t where t: "h y = Some t" "y \<noteq> 0" "t_ctx t = kernel_page_context (vm s)" by auto
    have sc: "paging_switch_context (t_ctx t) (vm s) = vm s"
      using ok t(3) by (simp add: tasks_ok_def paging_switch_context_def)
    have "task_schedule s = Some (if y = ?p then Returns else Switch ?p y, s\<lparr>tasks := h, t_current := y\<rparr>)"
      using p(1) l t(1,2) sc by (simp add: task_schedule_def task_current_def task_set_current_def Let_def)
    then show ?thesis using Some y w run by (auto simp: xs)
  qed
qed

lemma tasks_ok_schedule:
  assumes ok: "tasks_ok s xs" and y: "y \<in> set xs" and w: "woken now (tasks s) h"
  obtains k where "tasks_ok (s\<lparr>tasks := h, t_current := y\<rparr>) (rotate (Suc k) xs)" and "rotate1 xs ! k = y" and "k < length xs"
proof -
  have "y \<in> set (rotate1 xs)" using y by simp
  then obtain us vs where us: "rotate1 xs = us @ y # vs" by (meson split_list)
  have ok': "tasks_ok (s\<lparr>tasks := h\<rparr>) xs" by (rule tasks_ok_links[OF ok woken_links[OF w]])
  have t: "tour h (rotate (Suc (length us)) xs)" using ok' tour_rotate by (simp add: tasks_ok_def del: rotate_Suc)
  have r: "rotate (Suc (length us)) xs = y # vs @ us" by (rule rotate_to[OF us])
  have s: "set (y # vs @ us) = set xs" using us by (metis r set_rotate)
  have "tasks_ok (s\<lparr>tasks := h, t_current := y\<rparr>) (rotate (Suc (length us)) xs)"
    using ok' t unfolding r by (simp add: tasks_ok_def s[simplified, symmetric] insert_commute)
  moreover have "rotate1 xs ! length us = y" "length us < length xs"
    using us length_rotate1[of xs] by (simp_all add: us)
  ultimately show ?thesis using that by blast
qed

section \<open>Every operation keeps the ring\<close>

definition sched_ok :: "task_sys \<Rightarrow> u32 list \<Rightarrow> bool" where
  "sched_ok s xs \<longleftrightarrow> tasks_ok s xs \<and> running (tasks s) (t_current s)"

definition zombie :: "task_store \<Rightarrow> u32 \<Rightarrow> bool" where
  "zombie h x \<longleftrightarrow> (\<exists>t. h x = Some t \<and> t_state t = TASK_ZOMBIE)"

lemma woken_keeps: "woken now h h' \<Longrightarrow> h x = Some t \<Longrightarrow> t_state t \<noteq> TASK_SLEEPING \<Longrightarrow> h' x = Some t"
proof -
  assume w: "woken now h h'" and t: "h x = Some t" "t_state t \<noteq> TASK_SLEEPING"
  have "\<not> due now h x" using t by (simp add: due_def)
  then show "h' x = Some t" using w t(1) unfolding woken_def by metis
qed

lemma zombie_woken: "woken now h h' \<Longrightarrow> zombie h x \<Longrightarrow> zombie h' x"
  using woken_keeps[of now h h' x] by (auto simp: zombie_def)

lemma running_woken: "woken now h h' \<Longrightarrow> running h x \<Longrightarrow> running h' x"
  using woken_keeps[of now h h' x] by (auto simp: running_def)

lemma zombie_not_running: "zombie h x \<Longrightarrow> \<not> running h x"
  by (auto simp: zombie_def running_def)

lemma sched_after_schedule:
  assumes ok: "tasks_ok s xs" and sc: "task_schedule s = Some (r, s')"
  shows "\<exists>ys. sched_ok s' ys \<and> set ys = set xs" and "zombie (tasks s) x \<Longrightarrow> zombie (tasks s') x"
proof -
  from task_schedule_round[OF ok] sc obtain y h where
    s': "s' = s\<lparr>tasks := h, t_current := y\<rparr>" and y: "y \<in> set xs" and w: "woken (tick_count s) (tasks s) h"
    and run: "running h y"
    by (auto split: option.splits)
  obtain k where "tasks_ok (s\<lparr>tasks := h, t_current := y\<rparr>) (rotate (Suc k) xs)"
    by (rule tasks_ok_schedule[OF ok y w]) (rule that)
  then have "sched_ok s' (rotate (Suc k) xs)" using run by (simp add: s' sched_ok_def)
  then show "\<exists>ys. sched_ok s' ys \<and> set ys = set xs" by (metis set_rotate)
  show "zombie (tasks s) x \<Longrightarrow> zombie (tasks s') x" using zombie_woken[OF w] by (simp add: s')
qed

lemma current_task:
  assumes "sched_ok s xs"
  obtains c where "tasks s (t_current s) = Some c" and "t_state c = TASK_RUNNING"
  using assms by (auto simp: sched_ok_def running_def)

lemma tasks_ok_state:
  assumes ok: "tasks_ok s xs" and x: "tasks s x = Some t"
    and e: "t_pid t' = t_pid t" "t_ctx t' = t_ctx t" "t_next t' = t_next t"
  shows "tasks_ok (s\<lparr>tasks := (tasks s)(x \<mapsto> t')\<rparr>) xs"
proof (rule tasks_ok_links[OF ok])
  show "same_links (tasks s) ((tasks s)(x \<mapsto> t'))" using x e by (rule same_links_upd)
qed

lemma sched_after_exit:
  assumes ok: "sched_ok s xs" and ex: "task_exit s = Some (r, s')"
  shows "\<exists>ys. sched_ok s' ys \<and> set ys = set xs" and "zombie (tasks s) x \<Longrightarrow> zombie (tasks s') x"
    and "zombie (tasks s') (t_current s)"
proof -
  obtain c where c: "tasks s (t_current s) = Some c" by (rule current_task[OF ok])
  let ?s = "s\<lparr>tasks := (tasks s)(t_current s \<mapsto> c\<lparr>t_state := TASK_ZOMBIE\<rparr>)\<rparr>"
  have ok': "tasks_ok ?s xs" using ok c by (intro tasks_ok_state) (simp_all add: sched_ok_def)
  have sc: "task_schedule ?s = Some (r, s')"
    using ex c by (auto simp: task_exit_def task_current_def Let_def split: bind_splits if_splits)
  show "\<exists>ys. sched_ok s' ys \<and> set ys = set xs" by (rule sched_after_schedule(1)[OF ok' sc])
  show "zombie (tasks s) x \<Longrightarrow> zombie (tasks s') x" "zombie (tasks s') (t_current s)"
    by (rule sched_after_schedule(2)[OF ok' sc]; simp add: zombie_def)+
qed

lemma sched_after_sleep:
  assumes ok: "sched_ok s xs" and sl: "task_sleep ms s = Some (r, s')"
  shows "\<exists>ys. sched_ok s' ys \<and> set ys = set xs" and "zombie (tasks s) x \<Longrightarrow> zombie (tasks s') x"
proof -
  obtain c where c: "tasks s (t_current s) = Some c" "t_state c = TASK_RUNNING" by (rule current_task[OF ok])
  let ?s = "s\<lparr>tasks := (tasks s)(t_current s \<mapsto> c\<lparr>t_state := TASK_SLEEPING, t_wakeup := tick_count s + ms\<rparr>)\<rparr>"
  have ok': "tasks_ok ?s xs" using ok c(1) by (intro tasks_ok_state) (simp_all add: sched_ok_def)
  have sc: "task_schedule ?s = Some (r, s')"
    using sl c(1) by (simp add: task_sleep_def task_current_def)
  show "\<exists>ys. sched_ok s' ys \<and> set ys = set xs" by (rule sched_after_schedule(1)[OF ok' sc])
  assume "zombie (tasks s) x"
  then have "x \<noteq> t_current s" using c by (auto simp: zombie_def)
  then show "zombie (tasks s') x"
    using \<open>zombie (tasks s) x\<close> by (intro sched_after_schedule(2)[OF ok' sc]) (simp add: zombie_def)
qed

text \<open>The search of \<open>task_kill\<close> goes once round the ring.\<close>

definition has_pid :: "int \<Rightarrow> task_store \<Rightarrow> u32 \<Rightarrow> bool" where
  "has_pid pid h x \<longleftrightarrow> (\<exists>t. h x = Some t \<and> t_pid t = pid)"

lemma find_pid_links:
  "links h a xs b \<Longrightarrow> xs \<noteq> [] \<Longrightarrow> b \<notin> set (tl xs) \<Longrightarrow> find_pid pid b a h = Some (find (has_pid pid h) xs)"
proof (induction xs arbitrary: a)
  case (Cons x xs)
  then obtain t where t: "a = x" "h x = Some t" "links h (t_next t) xs b" by auto
  show ?case
  proof (cases "t_pid t = pid")
    case True
    then show ?thesis using t by (simp add: find_pid.simps[of pid b x h] has_pid_def)
  next
    case False
    show ?thesis
    proof (cases xs)
      case Nil
      then show ?thesis using t False by (simp add: find_pid.simps[of pid b x h] has_pid_def)
    next
      case (Cons y zs)
      then have "t_next t \<noteq> b" "b \<notin> set (tl xs)" using t(3) Cons.prems(3) by auto
      then show ?thesis
        using Cons.IH[OF t(3)] t(1,2) False Cons by (simp add: find_pid.simps[of pid b x h] has_pid_def)
    qed
  qed
qed simp

lemma find_pid_tour:
  assumes ok: "tasks_ok s xs"
  obtains r where "find_pid pid (task_list s) (task_list s) (tasks s) = Some r"
    and "r = None \<Longrightarrow> \<forall>x. \<not> has_pid pid (tasks s) x" and "\<And>x. r = Some x \<Longrightarrow> x \<in> set xs \<and> has_pid pid (tasks s) x"
proof -
  have "task_list s \<in> set xs" using ok by (simp add: tasks_ok_def)
  then obtain us vs where us: "xs = us @ task_list s # vs" by (meson split_list)
  have "tour (tasks s) (rotate (length us) xs)" using ok tour_rotate by (simp add: tasks_ok_def)
  then have t: "tour (tasks s) (task_list s # vs @ us)" by (simp add: us rotate_append)
  then have p: "links (tasks s) (task_list s) (task_list s # vs @ us) (task_list s)" "task_list s \<notin> set (vs @ us)"
    by (auto simp: tour_def)
  have f: "find_pid pid (task_list s) (task_list s) (tasks s) = Some (find (has_pid pid (tasks s)) (task_list s # vs @ us))"
    by (rule find_pid_links[OF p(1)]) (use p(2) in simp_all)
  have s: "set (task_list s # vs @ us) = set xs" by (auto simp: us)
  show ?thesis
  proof (rule that[OF f])
    assume "find (has_pid pid (tasks s)) (task_list s # vs @ us) = None"
    then have "\<forall>x \<in> set xs. \<not> has_pid pid (tasks s) x" using s by (simp only: find_None_iff2 simp_thms flip: s) (metis find_None_iff)
    moreover have "x \<in> set xs" if "has_pid pid (tasks s) x" for x
      using that ok by (auto simp: tasks_ok_def has_pid_def)
    ultimately show "\<forall>x. \<not> has_pid pid (tasks s) x" by blast
  next
    fix x assume "find (has_pid pid (tasks s)) (task_list s # vs @ us) = Some x"
    then show "x \<in> set xs \<and> has_pid pid (tasks s) x" using s by (metis find_Some_iff nth_mem)
  qed
qed

text \<open>What killing does: nothing without such a task, the task becomes a zombie, or the caller exits.\<close>

lemma task_kill_result:
  assumes ok: "tasks_ok s xs"
  shows "(\<forall>x. \<not> has_pid pid (tasks s) x) \<and> task_kill pid s = Some (-1, Returns, s) \<or>
    (\<exists>x t. tasks s x = Some t \<and> t_pid t = pid \<and> x \<noteq> t_current s \<and>
      task_kill pid s = Some (0, Returns, s\<lparr>tasks := (tasks s)(x \<mapsto> t\<lparr>t_state := TASK_ZOMBIE\<rparr>)\<rparr>)) \<or>
    (has_pid pid (tasks s) (t_current s) \<and> task_kill pid s = map_option (\<lambda>(r, s). (0, r, s)) (task_exit s))"
proof -
  obtain r where r: "find_pid pid (task_list s) (task_list s) (tasks s) = Some r"
    "r = None \<Longrightarrow> \<forall>x. \<not> has_pid pid (tasks s) x" "\<And>x. r = Some x \<Longrightarrow> x \<in> set xs \<and> has_pid pid (tasks s) x"
    by (rule find_pid_tour[OF ok]) (rule that)
  show ?thesis
  proof (cases r)
    case None
    then show ?thesis using r(1,2) by (simp add: task_kill_def task_get_list_def)
  next
    case (Some x)
    then obtain t where t: "tasks s x = Some t" "t_pid t = pid" using r(3)[OF Some] by (auto simp: has_pid_def)
    show ?thesis
    proof (cases "x = t_current s")
      case True
      have "has_pid pid (tasks s) (t_current s)" using r(3)[OF Some] True by simp
      moreover have "task_kill pid s = map_option (\<lambda>(r, s). (0, r, s)) (task_exit s)"
        using r(1) Some True
        by (cases "task_exit s") (auto simp: task_kill_def task_get_list_def task_current_def)
      ultimately show ?thesis by blast
    next
      case False
      then have "task_kill pid s = Some (0, Returns, s\<lparr>tasks := (tasks s)(x \<mapsto> t\<lparr>t_state := TASK_ZOMBIE\<rparr>)\<rparr>)"
        using r(1) Some t by (simp add: task_kill_def task_get_list_def task_current_def)
      then show ?thesis using t False by blast
    qed
  qed
qed

lemma sched_after_kill:
  assumes ok: "sched_ok s xs" and k: "task_kill pid s = Some (v, r, s')"
  shows "\<exists>ys. sched_ok s' ys \<and> set ys = set xs" and "zombie (tasks s) x \<Longrightarrow> zombie (tasks s') x"
proof -
  have ok': "tasks_ok s xs" using ok by (simp add: sched_ok_def)
  from task_kill_result[OF ok', of pid] k consider (nobody) "s' = s"
    | (other) y t where "tasks s y = Some t" "y \<noteq> t_current s" "s' = s\<lparr>tasks := (tasks s)(y \<mapsto> t\<lparr>t_state := TASK_ZOMBIE\<rparr>)\<rparr>"
    | (self) r where "task_exit s = Some (r, s')"
    by (cases "task_exit s") auto
  then have "(\<exists>ys. sched_ok s' ys \<and> set ys = set xs) \<and> (zombie (tasks s) x \<longrightarrow> zombie (tasks s') x)"
  proof cases
    case nobody
    then show ?thesis using ok by blast
  next
    case other
    have "tasks_ok s' xs" unfolding other(3) by (rule tasks_ok_state[OF ok' other(1)]) simp_all
    moreover have "running (tasks s') (t_current s')" using ok other(2) by (simp add: other(3) sched_ok_def running_def)
    ultimately show ?thesis by (auto simp: sched_ok_def other(3) zombie_def)
  next
    case self
    then show ?thesis using sched_after_exit[OF ok self] by blast
  qed
  then show "\<exists>ys. sched_ok s' ys \<and> set ys = set xs" "zombie (tasks s) x \<Longrightarrow> zombie (tasks s') x" by blast+
qed

text \<open>A new task goes into the ring behind \<open>task_list\<close>.\<close>

lemma tour_insert:
  assumes t: "tour h xs" and l: "l \<in> set xs" "h l = Some k" and a: "a \<notin> set xs" and n: "t_next new = t_next k"
  obtains ys where "tour (h(a \<mapsto> new, l \<mapsto> k\<lparr>t_next := a\<rparr>)) ys" and "set ys = insert a (set xs)" and "hd ys = hd xs"
proof -
  let ?h = "h(a \<mapsto> new, l \<mapsto> k\<lparr>t_next := a\<rparr>)"
  from l(1) obtain us vs where us: "xs = us @ l # vs" by (meson split_list)
  have "tour h (rotate (length us) xs)" by (rule tour_rotate[OF t])
  then have r: "tour h (l # vs @ us)" by (simp add: us rotate_append)
  then have p: "links h (t_next k) (vs @ us) l" and d: "distinct (l # vs @ us)" using l(2) by (auto simp: tour_def)
  have al: "a \<noteq> l" using a l(1) by auto
  have "map_option t_next (?h x) = map_option t_next (h x)" if "x \<in> set (vs @ us)" for x
    using that a d by (auto simp: us)
  then have "links ?h (t_next k) (vs @ us) l" using p links_cong[of "vs @ us" ?h h] by blast
  then have "links ?h l (l # a # vs @ us) l" using al n by simp
  moreover have "distinct (l # a # vs @ us)" using d a by (auto simp: us)
  ultimately have tr: "tour ?h (l # a # vs @ us)" by (simp add: tour_def)
  have s: "set (l # a # vs @ us) = insert a (set xs)" by (auto simp: us)
  have "hd xs \<in> set xs" using t by (simp add: tour_def)
  then have "hd xs \<in> set (l # a # vs @ us)" using s by blast
  then obtain ps qs where ps: "l # a # vs @ us = ps @ hd xs # qs" by (meson split_list)
  have "tour ?h (rotate (length ps) (l # a # vs @ us))" by (rule tour_rotate[OF tr])
  then have "tour ?h (hd xs # qs @ ps)" by (simp add: ps rotate_append)
  moreover have "set (hd xs # qs @ ps) = insert a (set xs)" using s unfolding ps by auto
  ultimately show ?thesis using that by auto
qed

lemma paging_fields_alloc:
  assumes "pg_kmalloc n v = (a, v')"
  shows "kernel_page_context v' = kernel_page_context v" and "current_context v' = current_context v"
  using assms by (auto simp: pg_kmalloc_def kmalloc_def)

lemma task_create_result:
  assumes ok: "sched_ok s xs" and room: "brk_of (vm s) + 4160 < 2 ^ 32" and nm: "\<forall>n. name = Some n \<longrightarrow> is_cstr n"
    and pid: "next_pid s < INT_MAX"
  obtains t s' ys k where "task_create ret start name s = Some (t, s')" and "sched_ok s' ys" and "set ys = insert t (set xs)"
    and "t \<notin> set xs" and "tasks s' t = Some k" and "t_state k = TASK_RUNNING" and "t_pid k = next_pid s" and "t_eip k = start"
    and "peek (t_esp k) (vm s') = ret" and "\<And>x. x \<in> set xs \<Longrightarrow> map_option t_state (tasks s' x) = map_option t_state (tasks s x)"
    and "t_current s' = t_current s"
proof -
  have tok: "tasks_ok s xs" and run: "running (tasks s) (t_current s)" using ok by (simp_all add: sched_ok_def)
  obtain t v1 where t: "pg_kmalloc 64 (vm s) = (t, v1)" by fastforce
  obtain st v2 where st: "pg_kmalloc 4096 v1 = (st, v2)" by fastforce
  note a1 = pg_kmalloc_parts[OF t] and a2 = pg_kmalloc_parts[OF st]
  note f1 = paging_fields_alloc[OF t] and f2 = paging_fields_alloc[OF st]
  let ?v = "poke (st + 4096 - 4) ret v2"
  have b: "brk_of ?v = brk_of (vm s) + 4160" using a1(2) a2(2) room by (simp add: unat_add_no_wrap)
  let ?src = "case name of Some n \<Rightarrow> n | None \<Rightarrow> ascii ''task'' @ [0]"
  have "is_cstr ?src" using nm by (auto simp: is_cstr_def split: option.splits)
  then obtain nb where nb: "strncpy (replicate 32 0) ?src 31 = Some nb" using strncpy_spec[of ?src 31 "replicate 32 0"] by simp
  have lt: "task_list s \<in> set xs" using tok by (simp add: tasks_ok_def)
  from tasks_ok_member[OF tok lt] obtain l where l: "tasks s (task_list s) = Some l" by blast
  define new where "new = zero_task\<lparr>t_esp := st + 4096 - 4, t_ebp := st + 4096 - 4, t_eip := start, t_state := TASK_RUNNING,
      t_pid := next_pid s, t_name := nb, t_ctx := kernel_page_context (vm s), t_next := t_next l\<rparr>"
  define h where "h = (tasks s)(t \<mapsto> new, task_list s \<mapsto> l\<lparr>t_next := t\<rparr>)"
  let ?s = "s\<lparr>vm := ?v, next_pid := next_pid s + 1, tasks := h\<rparr>"
  have cr: "task_create ret start name s = Some (t, ?s)"
    using nb l pid by (simp add: task_create_def t st paging_create_context_def f1 f2 new_def h_def Let_def)
  have tn: "t \<notin> set xs"
  proof
    assume "t \<in> set xs"
    then have "unat t + 64 \<le> brk_of (vm s)" using tasks_ok_member[OF tok] tasks_ok_at[OF tok] by metis
    then show False using a1(1) by simp
  qed
  have nx: "t_next new = t_next l" by (simp add: new_def)
  have tr: "tour (tasks s) xs" using tok by (simp add: tasks_ok_def)
  obtain ys where ys: "tour h ys" "set ys = insert t (set xs)" "hd ys = hd xs"
    by (rule tour_insert[where h = "tasks s" and xs = xs and l = "task_list s" and k = l and a = t and new = new])
      (use tr lt l tn nx in \<open>auto simp: h_def\<close>)
  have tl: "t \<noteq> task_list s" using tn lt by auto
  have cur: "t_current s \<in> set xs" using tok hd_in_set[of xs] by (simp add: tasks_ok_def tour_def)
  have pidx: "map_option t_pid (h x) = (if x = t then Some (next_pid s) else map_option t_pid (tasks s x))" for x
    using tl l by (auto simp: new_def h_def)
  have pids: "map_option t_pid (tasks s x) \<noteq> Some (next_pid s)" for x
    using tasks_ok_at[OF tok, of x] by (cases "tasks s x") auto
  have inj: "inj_on (\<lambda>x. map_option t_pid (h x)) (insert t (set xs))"
    using tok tn pids unfolding pidx tasks_ok_def inj_on_def by (metis insert_iff)
  have t0: "t \<noteq> 0"
  proof -
    have "0 < brk_of (vm s)" using tasks_ok_at[OF tok l] by simp
    then show ?thesis using a1(1) by auto
  qed
  have each: "x \<noteq> 0 \<and> 0 \<le> t_pid k \<and> t_pid k < next_pid s + 1 \<and> unat x + 64 \<le> brk_of ?v \<and> t_ctx k = kernel_page_context (vm s)"
    if k: "h x = Some k" for x k
  proof (cases "x = t")
    case True
    have "0 \<le> next_pid s" using tasks_ok_at[OF tok l] by simp
    then show ?thesis using True k tl t0 b a1(1) by (auto simp: new_def h_def)
  next
    case False
    then obtain k' where k': "tasks s x = Some k'" "t_pid k' = t_pid k" "t_ctx k' = t_ctx k"
      using k l by (auto simp: h_def split: if_splits)
    have "x \<noteq> 0 \<and> 0 \<le> t_pid k' \<and> t_pid k' < next_pid s \<and> unat x + 64 \<le> brk_of (vm s) \<and> t_ctx k' = kernel_page_context (vm s)"
      by (rule tasks_ok_at[OF tok k'(1)])
    then show ?thesis using k'(2,3) b by simp
  qed
  have "dom h = insert t (set xs)" using tok lt by (auto simp: tasks_ok_def h_def)
  then have "tasks_ok ?s ys"
    using ys inj lt tok f1 f2 each by (simp add: tasks_ok_def)
  moreover have run': "running h (t_current s)" using run l tn cur by (auto simp: running_def h_def)
  ultimately have "sched_ok ?s ys" by (simp add: sched_ok_def)
  moreover have "map_option t_state (h x) = map_option t_state (tasks s x)" if "x \<in> set xs" for x
    using that tn l by (auto simp: h_def)
  moreover have "tasks ?s t = Some new" using tl by (simp add: h_def)
  ultimately show ?thesis
    using that[OF cr _ ys(2) tn, of new] by (simp add: new_def zero_task_def)
qed

text \<open>The scheduler as a transition system: what the running task and the timer do.\<close>

inductive task_step :: "task_sys \<Rightarrow> task_sys \<Rightarrow> bool" where
  Tick: "task_step s (s\<lparr>tick_count := n\<rparr>)"
| Yield: "task_schedule s = Some (r, s') \<Longrightarrow> task_step s s'"
| Sleep: "task_sleep ms s = Some (r, s') \<Longrightarrow> task_step s s'"
| Exit: "task_exit s = Some (r, s') \<Longrightarrow> task_step s s'"
| Kill: "task_kill pid s = Some (v, r, s') \<Longrightarrow> task_step s s'"
| Create: "task_create ret start name s = Some (t, s') \<Longrightarrow> brk_of (vm s) + 4160 < 2 ^ 32 \<Longrightarrow> next_pid s < INT_MAX \<Longrightarrow>
    \<forall>n. name = Some n \<longrightarrow> is_cstr n \<Longrightarrow> task_step s s'"

lemma task_step_ok:
  assumes "task_step s s'" and ok: "sched_ok s xs"
  shows "\<exists>ys. sched_ok s' ys \<and> set xs \<subseteq> set ys" and "zombie (tasks s) x \<Longrightarrow> zombie (tasks s') x"
proof -
  have tok: "tasks_ok s xs" using ok by (simp add: sched_ok_def)
  have "(\<exists>ys. sched_ok s' ys \<and> set xs \<subseteq> set ys) \<and> (zombie (tasks s) x \<longrightarrow> zombie (tasks s') x)"
    using assms(1)
  proof cases
    case (Tick n)
    have "sched_ok s' xs" using ok unfolding Tick sched_ok_def tasks_ok_def by simp
    then show ?thesis using Tick by auto
  next
    case (Yield r)
    then show ?thesis using sched_after_schedule[OF tok Yield] by auto
  next
    case (Sleep ms r)
    then show ?thesis using sched_after_sleep[OF ok Sleep] by auto
  next
    case (Exit r)
    then show ?thesis using sched_after_exit[OF ok Exit] by auto
  next
    case (Kill pid v r)
    then show ?thesis using sched_after_kill[OF ok Kill] by auto
  next
    case (Create ret start name t)
    from task_create_result[OF ok Create(2,4,3), of ret start] obtain t' s'' ys where
      c: "task_create ret start name s = Some (t', s'')" "sched_ok s'' ys" "set ys = insert t' (set xs)"
      and e: "\<And>x. x \<in> set xs \<Longrightarrow> map_option t_state (tasks s'' x) = map_option t_state (tasks s x)" by metis
    have s: "s'' = s'" using c(1) Create(1) by simp
    have "zombie (tasks s') x" if z: "zombie (tasks s) x"
    proof -
      have "x \<in> set xs" using z tok by (auto simp: zombie_def tasks_ok_def)
      from e[OF this] z show ?thesis unfolding s by (auto simp: zombie_def)
    qed
    then show ?thesis using c(2,3) unfolding s by blast
  qed
  then show "\<exists>ys. sched_ok s' ys \<and> set xs \<subseteq> set ys" "zombie (tasks s) x \<Longrightarrow> zombie (tasks s') x" by blast+
qed

lemma task_steps_ok:
  assumes "task_step\<^sup>*\<^sup>* s s'" and "sched_ok s xs"
  shows "(\<exists>ys. sched_ok s' ys \<and> set xs \<subseteq> set ys) \<and> (zombie (tasks s) x \<longrightarrow> zombie (tasks s') x)"
  using assms
proof (induction rule: rtranclp_induct)
  case (step s1 s2)
  then obtain ys where ys: "sched_ok s1 ys" "set xs \<subseteq> set ys" "zombie (tasks s) x \<longrightarrow> zombie (tasks s1) x" by blast
  show ?case using task_step_ok[OF step(2) ys(1)] ys(2,3) by blast
qed blast

lemma task_init_ok:
  assumes "tasks s = Map.empty" and "kt \<noteq> 0" and "unat kt + 64 \<le> brk_of (vm s)" and "0 < next_pid s"
    and "current_context (vm s) = kernel_page_context (vm s)"
  shows "sched_ok (task_init kt s) [kt]"
  using assms by (simp add: sched_ok_def tasks_ok_def task_init_def tour_def running_def zero_task_def)

section \<open>Taking turns\<close>

text \<open>What is asked of a scheduler: if somebody can run, it hands over to the first who can, and leaves those
  behind waiting in their order.  From this alone nobody who can run is passed over more often than there are
  others before him.\<close>

locale round_robin =
  fixes queue :: "'s \<Rightarrow> 'a list \<Rightarrow> bool" and ready :: "'s \<Rightarrow> 'a \<Rightarrow> bool" and yield :: "'t \<Rightarrow> 's \<Rightarrow> 's option"
  assumes yield_turn: "queue s xs \<Longrightarrow> x \<in> set xs \<Longrightarrow> ready s x \<Longrightarrow>
    \<exists>s' j. yield t s = Some s' \<and> queue s' (rotate j xs) \<and> ready s' x \<and> (\<forall>k. 0 < k \<longrightarrow> k < length xs \<longrightarrow> xs ! k = x \<longrightarrow> 0 < j \<and> j \<le> k)"
begin

fun turns :: "'t list \<Rightarrow> 's \<Rightarrow> 's list option" where
  "turns [] s = Some [s]"
| "turns (t # ts) s = do { s' \<leftarrow> yield t s; ss \<leftarrow> turns ts s'; Some (s # ss) }"

lemma turn_comes:
  "queue s xs \<Longrightarrow> k < length xs \<Longrightarrow> xs ! k = x \<Longrightarrow> ready s x \<Longrightarrow>
   \<exists>ss. turns ts s = Some ss \<and> (k \<le> length ts \<longrightarrow> (\<exists>s' \<in> set ss. \<exists>ys. queue s' (x # ys)))"
proof (induction ts arbitrary: s xs k)
  case Nil
  then obtain y ys where xs: "xs = y # ys" by (cases xs) auto
  show ?case using Nil unfolding xs by (cases k) auto
next
  case (Cons t ts)
  have x: "x \<in> set xs" using Cons.prems(2,3) by auto
  from yield_turn[OF Cons.prems(1) x Cons.prems(4), of t] obtain s' j where
    y: "yield t s = Some s'" "queue s' (rotate j xs)" "ready s' x"
      "\<forall>k. 0 < k \<longrightarrow> k < length xs \<longrightarrow> xs ! k = x \<longrightarrow> 0 < j \<and> j \<le> k" by blast
  show ?case
  proof (cases "k = 0")
    case True
    have "x \<in> set (rotate j xs)" using x by simp
    then obtain i where "i < length (rotate j xs)" "rotate j xs ! i = x" by (meson in_set_conv_nth)
    from Cons.IH[OF y(2) this y(3)] obtain ss where "turns ts s' = Some ss" by blast
    moreover have "queue s (x # tl xs)" using Cons.prems True by (cases xs) auto
    ultimately show ?thesis using y(1) by auto
  next
    case False
    then have j: "0 < j" "j \<le> k" using y(4) Cons.prems(2,3) by auto
    have "rotate j xs ! (k - j) = x" using j Cons.prems(2,3) by (simp add: nth_rotate)
    moreover have "k - j < length (rotate j xs)" using Cons.prems(2) by simp
    ultimately obtain ss where ss: "turns ts s' = Some ss" "k - j \<le> length ts \<longrightarrow> (\<exists>s' \<in> set ss. \<exists>ys. queue s' (x # ys))"
      using Cons.IH[OF y(2) _ _ y(3)] by blast
    moreover have "k - j \<le> length ts" if "k \<le> length (t # ts)" using that j by simp
    ultimately show ?thesis using y(1) by auto
  qed
qed

end

text \<open>The scheduler, called at the times \<open>now\<close>.\<close>

definition yield_at :: "u32 \<Rightarrow> task_sys \<Rightarrow> task_sys option" where
  "yield_at now s = map_option snd (task_schedule (s\<lparr>tick_count := now\<rparr>))"

lemma next_task_running:
  assumes "k < length order" and "running h (order ! k)"
  obtains y where "next_task now h order = Some y" and "\<And>i. i < length order \<Longrightarrow> order ! i = y \<Longrightarrow> distinct order \<Longrightarrow> i \<le> k"
proof -
  have "filter (running h) order \<noteq> []" using assms nth_mem by (fastforce simp: filter_empty_conv)
  then obtain y zs where f: "filter (running h) order = y # zs" by (cases "filter (running h) order") auto
  from filter_first[OF f] obtain us vs where o: "order = us @ y # vs" "\<forall>u \<in> set us. \<not> running h u" by blast
  have "length us \<le> k"
  proof (rule ccontr)
    assume "\<not> length us \<le> k"
    then have "order ! k \<in> set us" using o(1) by (simp add: nth_append)
    then show False using o(2) assms(2) by blast
  qed
  moreover have "i = length us" if "i < length order" "order ! i = y" "distinct order" for i
    using that o(1) nth_eq_iff_index_eq[of order i "length us"] by simp
  ultimately have "i \<le> k" if "i < length order" "order ! i = y" "distinct order" for i using that by blast
  then show ?thesis using f by (intro that[of y]) (simp_all add: next_task_def)
qed

interpretation rr: round_robin tasks_ok "\<lambda>s. running (tasks s)" yield_at
proof
  fix s xs x now
  assume ok: "tasks_ok s xs" and x: "x \<in> set xs" and run: "running (tasks s) x"
  let ?s = "s\<lparr>tick_count := now\<rparr>"
  have ok': "tasks_ok ?s xs" using ok unfolding tasks_ok_def by simp
  have d: "distinct (rotate1 xs)" using ok by (simp add: tasks_ok_def tour_def)
  have "x \<in> set (rotate1 xs)" using x by simp
  then obtain m where m: "m < length (rotate1 xs)" "rotate1 xs ! m = x" by (meson in_set_conv_nth)
  obtain y where y: "next_task now (tasks s) (rotate1 xs) = Some y"
    "\<And>i. i < length (rotate1 xs) \<Longrightarrow> rotate1 xs ! i = y \<Longrightarrow> distinct (rotate1 xs) \<Longrightarrow> i \<le> m"
    by (rule next_task_running[of m "rotate1 xs" "tasks s" now]) (use m run in auto)
  from task_schedule_round[OF ok'] y(1) obtain h r where
    sc: "task_schedule ?s = Some (r, ?s\<lparr>tasks := h, t_current := y\<rparr>)" and yx: "y \<in> set xs"
    and w: "woken now (tasks s) h" by auto
  obtain k where k: "tasks_ok (?s\<lparr>tasks := h, t_current := y\<rparr>) (rotate (Suc k) xs)" "rotate1 xs ! k = y" "k < length xs"
    by (rule tasks_ok_schedule[OF ok' yx, of now h]) (use w that in auto)
  have "yield_at now s = Some (?s\<lparr>tasks := h, t_current := y\<rparr>)" using sc by (simp add: yield_at_def)
  moreover have "running h x" by (rule running_woken[OF w run])
  moreover have "0 < Suc k \<and> Suc k \<le> i" if i: "0 < i" "i < length xs" "xs ! i = x" for i
  proof -
    have "rotate1 xs ! (i - 1) = x" using i nth_rotate[of "i - 1" xs 1] by (simp add: rotate1_rotate_swap)
    moreover have "i - 1 < length (rotate1 xs)" using i by simp
    ultimately have "m = i - 1" using m d nth_eq_iff_index_eq by metis
    moreover have "k \<le> m" using y(2)[of k] k(2,3) d by simp
    ultimately show ?thesis using i(1) by simp
  qed
  ultimately show "\<exists>s' j. yield_at now s = Some s' \<and> tasks_ok s' (rotate j xs) \<and> running (tasks s') x \<and>
      (\<forall>k. 0 < k \<longrightarrow> k < length xs \<longrightarrow> xs ! k = x \<longrightarrow> 0 < j \<and> j \<le> k)"
    using k(1) by (intro exI[of _ "?s\<lparr>tasks := h, t_current := y\<rparr>"] exI[of _ "Suc k"]) simp
qed

section \<open>Properties of the scheduler\<close>

text \<open>A system with two tasks beside the kernel's: one runs, one sleeps until tick 50.\<close>

definition example_store :: task_store where
  "example_store = (\<lambda>x.
     if x = 0x200000 then Some (zero_task\<lparr>t_next := 0x1000040\<rparr>)
     else if x = 0x1000040 then Some (zero_task\<lparr>t_pid := 2, t_state := TASK_SLEEPING, t_wakeup := 50, t_next := 0x1000000\<rparr>)
     else if x = 0x1000000 then Some (zero_task\<lparr>t_pid := 1, t_next := 0x200000\<rparr>)
     else None)"

definition example_tasks :: task_sys where
  "example_tasks = \<lparr>tasks = example_store, t_current = 0x200000, task_list = 0x200000, next_pid = 3, tick_count = 10,
     vm = (boot_paging (\<lambda>_. 0))\<lparr>mem := (boot_memory (\<lambda>_. 0))\<lparr>heap_ptr := 0x1000080\<rparr>\<rparr>\<rparr>"

lemma example_tasks_ok: "tasks_ok example_tasks [0x200000, 0x1000040, 0x1000000]"
proof -
  have d: "dom example_store = {0x200000, 0x1000040, 0x1000000}" by (auto simp: example_store_def split: if_splits)
  have "tour example_store [0x200000, 0x1000040, 0x1000000]" by (simp add: tour_def example_store_def)
  moreover have "inj_on (\<lambda>x. map_option t_pid (example_store x)) {0x200000, 0x1000040, 0x1000000}"
    by (simp add: inj_on_def example_store_def zero_task_def)
  ultimately show ?thesis
    by (simp add: tasks_ok_def example_tasks_def d boot_paging_def boot_memory_def)
      (auto simp: example_store_def zero_task_def split: if_splits)
qed

lemma example_sched_ok: "sched_ok example_tasks [0x200000, 0x1000040, 0x1000000]"
  using example_tasks_ok by (simp add: sched_ok_def running_def example_tasks_def example_store_def zero_task_def)

lemma example_running:
  "running example_store 0x200000" "\<not> running example_store 0x1000040" "running example_store 0x1000000"
  by (simp_all add: running_def example_store_def zero_task_def)

text \<open>C20. \<open>task_schedule\<close> visits the tasks behind the current one in the order of the ring and continues the first
  that runs or, if none does, the first sleeper whose time has come; it changes nothing but to let sleepers whose
  time has come run.  If there is no such task it never returns: the time is read only once.\<close>

theorem task_schedule_picks:
  assumes "tasks_ok s xs"
  shows "case next_task (tick_count s) (tasks s) (rotate1 xs) of
      None \<Rightarrow> task_schedule s = None
    | Some y \<Rightarrow> y \<in> set xs \<and>
        (\<exists>h. task_schedule s = Some (if y = t_current s then Returns else Switch (t_current s) y, s\<lparr>tasks := h, t_current := y\<rparr>) \<and>
          woken (tick_count s) (tasks s) h \<and> running h y)"
  using task_schedule_round[OF assms] by (cases "next_task (tick_count s) (tasks s) (rotate1 xs)") auto

theorem task_schedule_picks_witness:
  "\<exists>h. task_schedule example_tasks = Some (Switch 0x200000 0x1000000, example_tasks\<lparr>tasks := h, t_current := 0x1000000\<rparr>)"
  using task_schedule_picks[OF example_tasks_ok]
  by (auto simp: next_task_def example_tasks_def example_running)

text \<open>C5. The scheduler is fair: a task that can run, \<open>k\<close> places behind the current one in the ring, is current
  after at most \<open>k\<close> calls, whatever the times of the calls are, and each of these calls returns.\<close>

theorem round_robin_fair:
  assumes "tasks_ok s xs" and "k < length xs" and "running (tasks s) (xs ! k)" and "length nows = k"
  shows "\<exists>ss. rr.turns nows s = Some ss \<and> (\<exists>s' \<in> set ss. t_current s' = xs ! k)"
proof -
  from rr.turn_comes[OF assms(1,2) refl assms(3), of nows] assms(4) obtain ss s' ys where
    "rr.turns nows s = Some ss" "s' \<in> set ss" "tasks_ok s' (xs ! k # ys)" by blast
  then show ?thesis by (auto simp: tasks_ok_def)
qed

theorem round_robin_fair_witness:
  "\<exists>ss. rr.turns [10, 20] example_tasks = Some ss \<and> (\<exists>s' \<in> set ss. t_current s' = 0x1000000)"
  using round_robin_fair[OF example_tasks_ok, of 2 "[10, 20]"]
  by (simp add: example_running example_tasks_def)

text \<open>C21. Whatever tasks and timer do - yield, sleep, exit, kill, create - the tasks form one ring of distinct
  addresses with distinct numbers around the current task, which is running; and a task that has been killed or has
  exited never becomes current again.\<close>

theorem tasks_form_ring:
  assumes "task_step\<^sup>*\<^sup>* s s'" and "sched_ok s xs" and "zombie (tasks s) x"
  shows "(\<exists>ys. sched_ok s' ys \<and> set xs \<subseteq> set ys) \<and> t_current s' \<noteq> x \<and> zombie (tasks s') x"
proof -
  note r = task_steps_ok[OF assms(1,2), of x]
  then have z: "zombie (tasks s') x" using assms(3) by blast
  then show ?thesis using r zombie_not_running[OF z] by (auto simp: sched_ok_def)
qed

theorem tasks_form_ring_witness:
  "\<exists>s1 s2 r. task_kill 2 example_tasks = Some (0, Returns, s1) \<and> task_schedule s1 = Some (r, s2) \<and>
     t_current s2 \<noteq> 0x1000040 \<and> zombie (tasks s2) 0x1000040"
proof -
  let ?t = "zero_task\<lparr>t_pid := 2, t_state := TASK_SLEEPING, t_wakeup := 50, t_next := 0x1000000\<rparr>"
  let ?s1 = "example_tasks\<lparr>tasks := example_store(0x1000040 \<mapsto> ?t\<lparr>t_state := TASK_ZOMBIE\<rparr>)\<rparr>"
  have f: "find_pid 2 0x200000 0x200000 example_store = Some (Some 0x1000040)"
    by (simp add: find_pid.simps[of 2 _ "0x200000"] find_pid.simps[of 2 _ "0x1000040"] example_store_def zero_task_def)
  then have k: "task_kill 2 example_tasks = Some (0, Returns, ?s1)"
    by (simp add: task_kill_def task_get_list_def task_current_def example_tasks_def) (simp add: example_store_def)
  obtain ys where ok1: "sched_ok ?s1 ys" using sched_after_kill(1)[OF example_sched_ok k] by blast
  have s1: "task_step\<^sup>*\<^sup>* ?s1 ?s1" by simp
  have z1: "zombie (tasks ?s1) 0x1000040" by (simp add: zombie_def)
  have "\<exists>r s2. task_schedule ?s1 = Some (r, s2)"
  proof -
    have "next_task 10 (tasks ?s1) (rotate1 ys) \<noteq> None"
    proof -
      have "0x200000 \<in> set ys" using ok1 by (auto simp: sched_ok_def tasks_ok_def example_tasks_def example_store_def)
      moreover have "running (tasks ?s1) 0x200000" by (simp add: running_def example_store_def zero_task_def)
      ultimately have "filter (running (tasks ?s1)) (rotate1 ys) \<noteq> []" by (auto simp: filter_empty_conv)
      then show ?thesis by (cases "filter (running (tasks ?s1)) (rotate1 ys)") (simp_all add: next_task_def)
    qed
    then show ?thesis
      using task_schedule_round[of ?s1 ys] ok1 by (auto simp: sched_ok_def example_tasks_def split: option.splits)
  qed
  then obtain r s2 where s2: "task_schedule ?s1 = Some (r, s2)" by blast
  have "task_step\<^sup>*\<^sup>* ?s1 s2" by (rule r_into_rtranclp) (rule task_step.Yield[OF s2])
  from tasks_form_ring[OF this ok1 z1] k s2 show ?thesis by blast
qed

end
