(* ===== verification/Exec.thy ===== *)
theory Exec
  imports Tasks Fat32_Lookup
begin

text \<open>
  Loading and starting programs: \<open>src/kernel/exec.c\<close>.  The loader reads an ELF file through the file
  system into frames from the kernel heap and maps them; the state is that of the file system (which also holds
  what went to the terminal) beside that of tasks, page tables and memory.  The kernel writes the frames where
  they are mapped to themselves.
\<close>

section \<open>The file format\<close>

definition ELF_MAGIC :: u32 where "ELF_MAGIC = 0x464C457F"
definition PT_LOAD :: u32 where "PT_LOAD = 1"
definition USER_STACK_SIZE :: u32 where "USER_STACK_SIZE = 0x4000"
definition USER_STACK_TOP :: u32 where "USER_STACK_TOP = 0xC0000000"

record elf_header =
  eh_magic :: u32
  eh_class :: u8
  eh_data :: u8
  eh_version :: u8
  eh_pad :: bytes
  eh_type :: u16
  eh_machine :: u16
  eh_version2 :: u32
  eh_entry :: u32
  eh_phoff :: u32
  eh_shoff :: u32
  eh_flags :: u32
  eh_ehsize :: u16
  eh_phentsize :: u16
  eh_phnum :: u16
  eh_shentsize :: u16
  eh_shnum :: u16
  eh_shstrndx :: u16

definition elf_of_bytes :: "bytes \<Rightarrow> elf_header" where
  "elf_of_bytes b =
     \<lparr>eh_magic = get32 b 0, eh_class = get8 b 4, eh_data = get8 b 5, eh_version = get8 b 6, eh_pad = take 9 (drop 7 b),
      eh_type = get16 b 16, eh_machine = get16 b 18, eh_version2 = get32 b 20, eh_entry = get32 b 24,
      eh_phoff = get32 b 28, eh_shoff = get32 b 32, eh_flags = get32 b 36, eh_ehsize = get16 b 40,
      eh_phentsize = get16 b 42, eh_phnum = get16 b 44, eh_shentsize = get16 b 46, eh_shnum = get16 b 48,
      eh_shstrndx = get16 b 50\<rparr>"

record elf_program_header =
  ph_type :: u32
  ph_offset :: u32
  ph_vaddr :: u32
  ph_paddr :: u32
  ph_filesz :: u32
  ph_memsz :: u32
  ph_flags :: u32
  ph_align :: u32

definition ph_of_bytes :: "bytes \<Rightarrow> elf_program_header" where
  "ph_of_bytes b =
     \<lparr>ph_type = get32 b 0, ph_offset = get32 b 4, ph_vaddr = get32 b 8, ph_paddr = get32 b 12,
      ph_filesz = get32 b 16, ph_memsz = get32 b 20, ph_flags = get32 b 24, ph_align = get32 b 28\<rparr>"

section \<open>State and operations\<close>

record 'd kernel =
  k_fat :: "'d fat_state"
  k_tasks :: task_sys

abbreviation k_vm :: "'d kernel \<Rightarrow> paging_state" where "k_vm s \<equiv> vm (k_tasks s)"

definition set_vm :: "paging_state \<Rightarrow> 'd kernel \<Rightarrow> 'd kernel" where
  "set_vm v s = s\<lparr>k_tasks := (k_tasks s)\<lparr>vm := v\<rparr>\<rparr>"

definition k_puts :: "bytes \<Rightarrow> 'd kernel \<Rightarrow> 'd kernel" where
  "k_puts txt s = s\<lparr>k_fat := fat_puts txt (k_fat s)\<rparr>"

definition k_close :: "'d disk_ops \<Rightarrow> fat32_file \<Rightarrow> 'd kernel \<Rightarrow> 'd kernel option" where
  "k_close D file s = do { (_, _, fs) \<leftarrow> fat32_close D file (k_fat s); Some (s\<lparr>k_fat := fs\<rparr>) }"

text \<open>Reading \<open>sz\<close> bytes of a file to the address \<open>a\<close>.\<close>

definition read_to :: "'d disk_ops \<Rightarrow> fat32_file \<Rightarrow> u32 \<Rightarrow> u32 \<Rightarrow> 'd kernel \<Rightarrow> (int \<times> fat32_file \<times> 'd kernel) option" where
  "read_to D file a sz s =
     (let v = k_vm s in do {
       (r, file, buf, fs) \<leftarrow> fat32_read D file (Some (ram_get a (unat sz) (m_ram (mem v)))) sz (k_fat s);
       Some (r, file, set_vm (v\<lparr>mem := (mem v)\<lparr>m_ram := ram_put a (case buf of Some b \<Rightarrow> b | None \<Rightarrow> []) (m_ram (mem v))\<rparr>\<rparr>)
         (s\<lparr>k_fat := fs\<rparr>))
     })"

fun map_segment :: "u32 \<Rightarrow> nat \<Rightarrow> u32 \<Rightarrow> u32 \<Rightarrow> paging_state \<Rightarrow> paging_state" where
  "map_segment ctx 0 vaddr phys v = v"
| "map_segment ctx (Suc n) vaddr phys v =
     map_segment ctx n (vaddr + 0x1000) (phys + 0x1000)
       (paging_map_page ctx vaddr phys (PAGE_PRESENT OR PAGE_WRITE OR PAGE_USER) v)"

text \<open>One segment: the frames, cleared, filled from the file and mapped; \<open>None\<close> in the result is a failed
  allocation.\<close>

definition load_segment ::
    "'d disk_ops \<Rightarrow> u32 \<Rightarrow> elf_program_header \<Rightarrow> fat32_file \<Rightarrow> 'd kernel \<Rightarrow> (fat32_file option \<times> 'd kernel) option" where
  "load_segment D ctx ph file s =
     (let page_count = (ph_memsz ph + 0xFFF) div 0x1000 in
      case pg_kmalloc_aligned (page_count * 0x1000) 0x1000 (k_vm s) of (phys_base, v) \<Rightarrow>
        (let s = set_vm v s in
         if phys_base = 0 then Some (None, s)
         else do {
           let s = set_vm (zero_bytes phys_base (unat (page_count * 0x1000)) (k_vm s)) s;
           (file, s) \<leftarrow>
             (if ph_filesz ph > 0 then do {
                let (_, file) = fat32_seek file (ph_offset ph) 0;
                let phys_offset = ph_vaddr ph AND 0xFFF;
                (_, file, s) \<leftarrow> read_to D file (phys_base + phys_offset) (ph_filesz ph) s;
                Some (file, s)
              }
              else Some (file, s));
           Some (Some file, set_vm (map_segment ctx (unat page_count) (ph_vaddr ph AND 0xFFFFF000) phys_base (k_vm s)) s)
         }))"

text \<open>The loop over the program headers, \<open>n\<close> of them from number \<open>i\<close> on.  The product that gives the
  position of a header is signed.\<close>

fun load_segments ::
    "'d disk_ops \<Rightarrow> elf_header \<Rightarrow> u32 \<Rightarrow> nat \<Rightarrow> nat \<Rightarrow> fat32_file \<Rightarrow> 'd kernel \<Rightarrow> (int \<times> fat32_file \<times> 'd kernel) option" where
  "load_segments D header ctx 0 i file s = Some (0, file, s)"
| "load_segments D header ctx (Suc n) i file s =
     (if int (i * unat (eh_phentsize header)) > INT_MAX then None
      else do {
        let (_, file) = fat32_seek file (eh_phoff header + of_nat (i * unat (eh_phentsize header))) 0;
        (r, file, b, fs) \<leftarrow> fat32_read D file (Some (replicate 32 0)) 32 (k_fat s);
        let s = s\<lparr>k_fat := fs\<rparr>;
        if r \<noteq> 32 then Some (-1, file, s)
        else (let ph = ph_of_bytes (case b of Some b \<Rightarrow> b | None \<Rightarrow> []) in
          if ph_type ph \<noteq> PT_LOAD then load_segments D header ctx n (Suc i) file s
          else do {
            (r, s) \<leftarrow> load_segment D ctx ph file s;
            case r of
              None \<Rightarrow> Some (-1, file, k_puts (ascii ''exec: failed to allocate memory'' @ [0x0A]) s)
            | Some file \<Rightarrow> load_segments D header ctx n (Suc i) file s
          })
      })"

definition load_elf :: "'d disk_ops \<Rightarrow> bytes \<Rightarrow> u32 \<Rightarrow> 'd kernel \<Rightarrow> (int \<times> u32 option \<times> 'd kernel) option" where
  "load_elf D path ctx s =
     do {
       (r, file, fs) \<leftarrow> fat32_open D path 0 (k_fat s);
       let s = s\<lparr>k_fat := fs\<rparr>;
       if r \<noteq> 0 then Some (-1, None, k_puts (ascii ''exec: failed to open file'' @ [0x0A]) s)
       else do {
         (r, file, b, fs) \<leftarrow> fat32_read D file (Some (replicate 52 0)) 52 (k_fat s);
         let s = s\<lparr>k_fat := fs\<rparr>;
         if r \<noteq> 52 then do {
           s \<leftarrow> k_close D file (k_puts (ascii ''exec: failed to read ELF header'' @ [0x0A]) s);
           Some (-1, None, s)
         }
         else (let header = elf_of_bytes (case b of Some b \<Rightarrow> b | None \<Rightarrow> []) in
           if eh_magic header \<noteq> ELF_MAGIC \<or> eh_class header \<noteq> 1 \<or> eh_machine header \<noteq> 3 then do {
             s \<leftarrow> k_close D file (k_puts (ascii ''exec: invalid ELF file'' @ [0x0A]) s);
             Some (-1, None, s)
           }
           else do {
             (r, file, s) \<leftarrow> load_segments D header ctx (unat (eh_phnum header)) 0 file s;
             s \<leftarrow> k_close D file s;
             Some (r, Some (eh_entry header), s)
           })
       }
     }"

text \<open>\<open>exec\<close> returns only when it fails; otherwise the processor enters user mode at the entry point with the
  given stack pointer.\<close>

datatype exec_outcome = Exec_Returns int | Enter_User u32 u32

definition exec_stack :: "u32 \<Rightarrow> 'd kernel \<Rightarrow> u32 \<times> 'd kernel" where
  "exec_stack ctx s =
     (case pg_kmalloc_aligned USER_STACK_SIZE 0x1000 (k_vm s) of (stack_phys, v) \<Rightarrow>
        if stack_phys = 0 then (0, set_vm v s)
        else (stack_phys, set_vm (map_segment ctx 4 (USER_STACK_TOP - USER_STACK_SIZE) stack_phys
               (zero_bytes stack_phys (unat USER_STACK_SIZE) v)) s))"

definition exec :: "'d disk_ops \<Rightarrow> bytes \<Rightarrow> 'd kernel \<Rightarrow> (exec_outcome \<times> 'd kernel) option" where
  "exec D path s =
     (let s = k_puts (ascii ''exec: loading '' @ cstr path @ [0x0A]) s;
          new_ctx = paging_create_context (k_vm s) in
      if new_ctx = 0 then Some (Exec_Returns (-1), k_puts (ascii ''exec: failed to create page context'' @ [0x0A]) s)
      else do {
        (r, entry_point, s) \<leftarrow> load_elf D path new_ctx s;
        case (if r = 0 then entry_point else None) of
          None \<Rightarrow> Some (Exec_Returns (-1), k_puts (ascii ''exec: failed to load ELF'' @ [0x0A]) s)
        | Some entry_point \<Rightarrow>
            (case exec_stack new_ctx s of (stack_phys, s) \<Rightarrow>
               if stack_phys = 0 then Some (Exec_Returns (-1), k_puts (ascii ''exec: failed to allocate stack'' @ [0x0A]) s)
               else do {
                 let t = k_tasks s;
                 c \<leftarrow> tasks t (task_current t);
                 let t = t\<lparr>tasks := (tasks t)(task_current t \<mapsto> c\<lparr>t_ctx := new_ctx\<rparr>),
                       vm := paging_switch_context new_ctx (vm t)\<rparr>;
                 buf \<leftarrow> itoa entry_point (replicate 16 0) 16;
                 Some (Enter_User entry_point (USER_STACK_TOP - 4),
                   k_puts (ascii ''exec: jumping to entry point 0x'' @ cstr buf @ [0x0A]) (s\<lparr>k_tasks := t\<rparr>))
               })
      })"

section \<open>What the loader needs of the file system\<close>

text \<open>A file that can be read at any position: seeking and reading gives the bytes of \<open>content\<close> there, as long
  as they exist, and leaves it as readable.\<close>

locale readable_file =
  fixes D :: "'d disk_ops" and holds :: "fat32_file \<Rightarrow> 'd fat_state \<Rightarrow> bool" and content :: bytes
  assumes read_at: "holds f fs \<Longrightarrow> unat pos + unat sz \<le> length content \<Longrightarrow> length buf = unat sz \<Longrightarrow>
    \<exists>f' fs'. fat32_read D (snd (fat32_seek f pos 0)) (Some buf) sz fs =
      Some (sint sz, f', Some (take (unat sz) (drop (unat pos) content)), fs') \<and> holds f' fs'"
    and close_ok: "holds f fs \<Longrightarrow> \<exists>r f' fs'. fat32_close D f fs = Some (r, f', fs')"

definition fat_holds ::
    "('d \<Rightarrow> u32 \<Rightarrow> bytes) \<Rightarrow> ('d \<Rightarrow> bool) \<Rightarrow> u32 \<Rightarrow> bytes \<Rightarrow> fat32_file \<Rightarrow> 'd fat_state \<Rightarrow> bool" where
  "fat_holds sectors online cap content f s \<longleftrightarrow>
     (\<exists>cs. fat_ready online cap s \<and> is_chain (fat_entry (sectors (disk s)) (g_fs s)) (g_fs s) cs \<and> f_first_cluster f = hd cs \<and>
       f_is_open f \<noteq> 0 \<and> unat (f_file_size f) \<le> length cs * unat (bytes_per_cluster (g_fs s)) \<and>
       content = take (unat (f_file_size f)) (file_data (sectors (disk s)) (g_fs s) cs) \<and>
       valid_cluster (g_fs s) (f_dir_cluster f) \<and> unat (f_dir_entry_offset f) + 32 \<le> CLUSTER_BUFFER_SIZE)"

lemma readable_fat:
  assumes dev: "block_device D sectors online cap"
  shows "readable_file D (fat_holds sectors online cap content) content"
proof
  fix f fs and pos sz :: u32 and buf :: bytes
  assume h: "fat_holds sectors online cap content f fs" and r: "unat pos + unat sz \<le> length content"
    and len: "length buf = unat sz"
  from h obtain cs where rdy: "fat_ready online cap fs" and ch: "is_chain (fat_entry (sectors (disk fs)) (g_fs fs)) (g_fs fs) cs"
    and hd: "f_first_cluster f = hd cs" and op: "f_is_open f \<noteq> 0"
    and fit: "unat (f_file_size f) \<le> length cs * unat (bytes_per_cluster (g_fs fs))"
    and c: "content = take (unat (f_file_size f)) (file_data (sectors (disk fs)) (g_fs fs) cs)"
    and dc: "valid_cluster (g_fs fs) (f_dir_cluster f)" "unat (f_dir_entry_offset f) + 32 \<le> CLUSTER_BUFFER_SIZE"
    by (auto simp: fat_holds_def)
  let ?f = "f\<lparr>f_position := pos\<rparr>"
  have sk: "snd (fat32_seek f pos 0) = ?f" using op by (simp add: fat32_seek_def)
  have le: "length content \<le> unat (f_file_size f)" by (simp add: c)
  then have sz: "unat (f_position ?f) + unat sz < 4294967296" using r unat_u32[of "f_file_size f"] by simp
  have n: "unat sz = min (unat sz) (unat (f_file_size ?f) - unat (f_position ?f))" using r le by simp
  have hd': "f_first_cluster ?f = hd cs" and fit': "unat (f_file_size ?f) \<le> length cs * unat (bytes_per_cluster (g_fs fs))"
    and op': "f_is_open ?f \<noteq> 0" using hd fit op by simp_all
  from block_device.read_ok_chain[OF dev rdy ch hd' fit' op' sz n, of buf] len obtain s' f' where
    rd: "fat32_read D ?f (Some buf) sz fs = Some (sint (of_nat (unat sz) :: u32), f',
      Some (put_at buf 0 (take (unat sz) (drop (unat pos) (file_data (sectors (disk fs)) (g_fs fs) cs)))), s')"
    and f': "f' = ?f\<lparr>f_position := f_position f', f_current_cluster := f_current_cluster f'\<rparr>"
    and io: "block_device.io_to sectors online fs (sectors (disk fs)) (cluster_buffer s') s'" by auto
  have d: "take (unat sz) (drop (unat pos) content) = take (unat sz) (drop (unat pos) (file_data (sectors (disk fs)) (g_fs fs) cs))"
    unfolding c using r le by (simp add: c drop_take min_def)
  have lc: "length (take (unat sz) (drop (unat pos) content)) = unat sz" using r by simp
  have "put_at buf 0 (take (unat sz) (drop (unat pos) content)) = take (unat sz) (drop (unat pos) content)"
    using lc len by (simp add: put_at_def)
  then have "fat32_read D (snd (fat32_seek f pos 0)) (Some buf) sz fs =
      Some (sint sz, f', Some (take (unat sz) (drop (unat pos) content)), s')"
    unfolding sk using rd d by simp
  moreover have "fat_holds sectors online cap content f' s'"
  proof -
    note io' = block_device.io_toD[OF dev io]
    have e: "f_first_cluster f' = f_first_cluster f" "f_is_open f' = f_is_open f" "f_file_size f' = f_file_size f"
      "f_dir_cluster f' = f_dir_cluster f" "f_dir_entry_offset f' = f_dir_entry_offset f"
      using arg_cong[OF f', of f_first_cluster] arg_cong[OF f', of f_is_open] arg_cong[OF f', of f_file_size]
        arg_cong[OF f', of f_dir_cluster] arg_cong[OF f', of f_dir_entry_offset] by simp_all
    show ?thesis unfolding fat_holds_def
      using block_device.io_to_ready[OF dev io rdy] io'(1,3) ch hd op fit c e dc by (intro exI[of _ cs]) simp
  qed
  ultimately show "\<exists>f' fs'. fat32_read D (snd (fat32_seek f pos 0)) (Some buf) sz fs =
      Some (sint sz, f', Some (take (unat sz) (drop (unat pos) content)), fs') \<and> fat_holds sectors online cap content f' fs'"
    by blast
next
  fix f fs
  assume "fat_holds sectors online cap content f fs"
  then have rdy: "fat_ready online cap fs" and op: "f_is_open f \<noteq> 0" and dc: "valid_cluster (g_fs fs) (f_dir_cluster f)"
    and off: "unat (f_dir_entry_offset f) + 32 \<le> CLUSTER_BUFFER_SIZE" by (auto simp: fat_holds_def)
  obtain s1 where s1: "fat32_read_cluster D (f_dir_cluster f) fs = Some (0, s1)"
    and io: "block_device.io_to sectors online fs (sectors (disk fs)) (put_at (cluster_buffer fs) 0 (cluster_data (sectors (disk fs)) (g_fs fs) (f_dir_cluster f))) s1"
    by (rule block_device.read_cluster_ok[OF dev rdy dc])
  have r1: "fat_ready online cap s1" by (rule block_device.io_to_ready[OF dev io rdy])
  then have l1: "length (cluster_buffer s1) = CLUSTER_BUFFER_SIZE" by (simp add: fat_ready_def buffers_ok_def)
  let ?o = "unat (f_dir_entry_offset f)"
  have st: "\<exists>b'. store b (?o + k) x = Some b' \<and> length b' = CLUSTER_BUFFER_SIZE"
    if "k + length x \<le> 32" "length b = CLUSTER_BUFFER_SIZE" for b x k
    using that off by (simp add: store_defined)
  obtain b1 where b1: "store (cluster_buffer s1) (?o + 28) (le32 (f_file_size f)) = Some b1" "length b1 = CLUSTER_BUFFER_SIZE"
    using st[of 28 "le32 (f_file_size f)"] l1 by auto
  obtain b2 where b2: "store b1 (?o + 26) (le16 (ucast (f_first_cluster f AND 0xFFFF))) = Some b2" "length b2 = CLUSTER_BUFFER_SIZE"
    using st[of 26 "le16 (ucast (f_first_cluster f AND 0xFFFF))"] b1(2) by auto
  obtain b3 where b3: "store b2 (?o + 20) (le16 (ucast (drop_bit 16 (f_first_cluster f) AND 0xFFFF))) = Some b3" "length b3 = CLUSTER_BUFFER_SIZE"
    using st[of 20 "le16 (ucast (drop_bit 16 (f_first_cluster f) AND 0xFFFF))"] b2(2) by auto
  let ?s2 = "s1\<lparr>cluster_buffer := b3\<rparr>"
  have r2: "fat_ready online cap ?s2" using r1 b3(2) by (simp add: fat_ready_def buffers_ok_def)
  have "valid_cluster (g_fs ?s2) (f_dir_cluster f)" using dc block_device.io_toD(3)[OF dev io] by simp
  then obtain s3 where "fat32_write_cluster D (f_dir_cluster f) ?s2 = Some (0, s3)"
    by (rule block_device.write_cluster_ok[OF dev r2])
  then show "\<exists>r f' fs'. fat32_close D f fs = Some (r, f', fs')"
    using op s1 b1(1) b2(1) b3(1) by (simp add: fat32_close_def Let_def)
qed

interpretation elf_file: readable_file "ata_disk pio_drive" "fat_holds pio.hw_sectors pio.hw_online 0x10000000 content" content
  for content
  by (rule readable_fat[OF pio.blk.block_device_axioms])

section \<open>What a loaded segment is\<close>

definition seg_pages :: "elf_program_header \<Rightarrow> nat" where
  "seg_pages ph = (unat (ph_memsz ph) + 0xFFF) div 0x1000"

text \<open>A segment fits if its bytes, from their offset in the first page on, fill no more pages than the loader
  reserves, do not run over the end of the address space, and lie in the file.\<close>

definition seg_fits :: "bytes \<Rightarrow> elf_program_header \<Rightarrow> bool" where
  "seg_fits content ph \<longleftrightarrow> unat (ph_memsz ph) + 0xFFF < 2 ^ 32 \<and> ph_filesz ph \<le> ph_memsz ph \<and>
     unat (ph_vaddr ph) mod 0x1000 + unat (ph_memsz ph) \<le> 0x1000 * seg_pages ph \<and>
     unat (ph_vaddr ph) div 0x1000 + seg_pages ph \<le> 2 ^ 20 \<and>
     unat (ph_offset ph) + unat (ph_filesz ph) \<le> length content"

definition seg_range :: "elf_program_header \<Rightarrow> nat set" where
  "seg_range ph = {unat (ph_vaddr ph) div 0x1000 ..< unat (ph_vaddr ph) div 0x1000 + seg_pages ph}"

text \<open>Byte \<open>k\<close> of the segment is where the tables of the context send its address, writable in user mode, in
  memory that belongs to nobody else.\<close>

definition byte_of :: "bytes \<Rightarrow> elf_program_header \<Rightarrow> nat \<Rightarrow> u8" where
  "byte_of content ph k = (if k < unat (ph_filesz ph) then content ! (unat (ph_offset ph) + k) else 0)"

definition seg_loaded :: "u32 \<Rightarrow> bytes \<Rightarrow> elf_program_header \<Rightarrow> paging_state \<Rightarrow> bool" where
  "seg_loaded ctx content ph v \<longleftrightarrow>
     (\<forall>k < unat (ph_memsz ph). \<exists>pa. walk ctx v (ph_vaddr ph + of_nat k) = Some (pa, 6) \<and>
        m_ram (mem v) pa = byte_of content ph k \<and> unat pa < brk_of v \<and> \<not> ctx_area ctx v pa)"

lemma map_segment_pages: "map_segment ctx n vaddr phys v = kpages.map_pages ctx n vaddr phys 7 v"
  by (induction n arbitrary: vaddr phys v) (simp_all add: PAGE_PRESENT_def PAGE_WRITE_def PAGE_USER_def)

lemma ctx_area_below:
  assumes "ctx_wf ctx v" and "ctx_area ctx v x"
  shows "unat x < brk_of v"
  using assms(2) ctx_wf_frame[OF assms(1)] ctx_wf_table(1)[OF assms(1)]
  by (auto simp: ctx_area_def within_def frame_ok_def table_ok_def) fastforce+

section \<open>Memory beside the tables\<close>

lemma peek_same:
  assumes "\<And>k. k < 4 \<Longrightarrow> m_ram (mem s') (a + of_nat k) = m_ram (mem s) (a + of_nat k)"
  shows "peek a s' = peek a s"
proof -
  have "ram_get a 4 (m_ram (mem s')) = ram_get a 4 (m_ram (mem s))" using assms by (simp add: ram_get_def)
  then show ?thesis by (simp add: peek_def rd32_def)
qed

lemma peek_within:
  assumes r: "\<And>x. within b n x \<Longrightarrow> m_ram (mem s') x = m_ram (mem s) x"
    and a: "unat b \<le> unat a" "unat a + 4 \<le> unat b + n" "unat b + n \<le> 2 ^ 32"
  shows "peek a s' = peek a s"
proof (rule peek_same)
  fix k :: nat assume k: "k < 4"
  have "unat (of_nat k :: u32) = k" using k by (simp add: unat_of_nat_u32)
  then have "unat (a + of_nat k) = unat a + k" using k a(2,3) by (simp add: unat_add_no_wrap)
  then show "m_ram (mem s') (a + of_nat k) = m_ram (mem s) (a + of_nat k)" using k a by (intro r) (simp add: within_def)
qed

text \<open>Writing outside of what a context occupies changes nothing of it.\<close>

lemma ctx_outside:
  assumes wf: "ctx_wf p s" and same: "\<And>x. ctx_area p s x \<Longrightarrow> m_ram (mem s') x = m_ram (mem s) x"
    and brk: "brk_of s \<le> brk_of s'"
  shows "ctx_wf p s'" and "walk p s' w = walk p s w" and "ctx_area p s' x = ctx_area p s x"
    and "physical_addr p s' = physical_addr p s"
proof -
  note rm = ctx_wf_room[OF wf]
  have p: "unat (p + 4) = unat p + 4" "unat (p + 8) = unat p + 8" using rm(3) by (simp_all add: unat_add_no_wrap)
  have s1: "\<And>x. within p 12 x \<Longrightarrow> m_ram (mem s') x = m_ram (mem s) x"
    and s2: "\<And>x. within (tables p s) 4096 x \<Longrightarrow> m_ram (mem s') x = m_ram (mem s) x"
    and s3: "\<And>x. within (directory p s) 4096 x \<Longrightarrow> m_ram (mem s') x = m_ram (mem s) x"
    and s4: "\<And>x i. i < 1024 \<Longrightarrow> tab p s i \<noteq> 0 \<Longrightarrow> within (tab p s i) 4096 x \<Longrightarrow> m_ram (mem s') x = m_ram (mem s) x"
    by (rule same, auto simp: ctx_area_def)+
  have f: "directory p s' = directory p s" "tables p s' = tables p s" "physical_addr p s' = physical_addr p s"
    unfolding directory_def tables_def physical_addr_def
    by (rule peek_within[where b = p and n = 12]; use s1 rm(3) p in simp)+
  have e: "peek (entry b i) s' = peek (entry b i) s"
    if "\<And>x. within b 4096 x \<Longrightarrow> m_ram (mem s') x = m_ram (mem s) x" "unat b + 4096 \<le> 2 ^ 32" "i < 1024" for b i
    using that unat_entry[OF that(2,3)] by (intro peek_within[where b = b and n = 4096]) (simp_all add: word_less_nat_alt)
  have t: "tab p s' i = tab p s i" if "i < 1024" for i unfolding tab_def f by (rule e[OF s2 rm(1) that])
  have d: "pde p s' i = pde p s i" if "i < 1024" for i unfolding pde_def f by (rule e[OF s3 rm(2) that])
  have g: "pte p s' i j = pte p s i j" if "i < 1024" "j < 1024" "tab p s i \<noteq> 0" for i j
    unfolding pte_def t[OF that(1)] by (rule e[OF s4[OF that(1,3)] rm(4)[OF that(1,3)] that(2)])
  show "ctx_wf p s'" by (rule ctx_wf_cong[OF wf f brk]) (simp_all add: t d)
  show "walk p s' w = walk p s w" using t[OF pd_index_less] g[OF pd_index_less pt_index_less] by (simp add: walk_def Let_def)
  show "ctx_area p s' x = ctx_area p s x" using t by (auto simp: ctx_area_def f)
  show "physical_addr p s' = physical_addr p s" by (rule f(3))
qed

lemma vm_ok_outside:
  assumes ok: "vm_ok v" and same: "\<And>x. ctx_area (current_context v) v x \<Longrightarrow> m_ram (mem v') x = m_ram (mem v) x"
    and brk: "brk_of v \<le> brk_of v'" and e: "current_context v' = current_context v" "cr3 v' = cr3 v" "tlb v' = tlb v"
  shows "vm_ok v'"
proof -
  have wf: "ctx_wf (current_context v) v" using ok by (simp add: vm_ok_def)
  have "ctx_wf (current_context v) v'" by (rule ctx_outside(1)[OF wf _ brk]) (rule same)
  moreover have "walk (current_context v) v' w = walk (current_context v) v w" for w
    by (rule ctx_outside(2)[OF wf _ brk]) (rule same)
  moreover have "physical_addr (current_context v) v' = physical_addr (current_context v) v"
    by (rule ctx_outside(4)[OF wf _ brk]) (rule same)
  ultimately show ?thesis using ok by (simp add: vm_ok_def e)
qed

lemma pg_kmalloc_aligned_pages:
  assumes "brk_of v + 4096 * n + 4096 < 2 ^ 32" and "0 < brk_of v" and "unat sz = 4096 * n"
    and "pg_kmalloc_aligned sz 0x1000 v = (a, v1)"
  shows "brk_of v \<le> unat a" and "unat a + 4096 * n \<le> brk_of v1" and "brk_of v1 = brk_of v + 4096 * n + 4096"
    and "4096 dvd unat a" and "m_ram (mem v1) = m_ram (mem v)" and "v1 = v\<lparr>mem := mem v1\<rparr>"
proof -
  obtain m where m: "kmalloc_aligned sz (2 ^ 12) (mem v) = (a, m)" and v1: "v1 = v\<lparr>mem := m\<rparr>"
    using assms(4) by (auto simp: pg_kmalloc_aligned_def split: prod.splits)
  have h: "brk_of v + unat sz + 2 ^ 12 < 2 ^ 32" "heap_ptr (mem v) \<noteq> 0" using assms(1-3) by auto
  note b = kmalloc_aligned_block[OF h(1) _ h(2) m]
  show "brk_of v \<le> unat a" "unat a + 4096 * n \<le> brk_of v1" "brk_of v1 = brk_of v + 4096 * n + 4096" "4096 dvd unat a"
    "m_ram (mem v1) = m_ram (mem v)" "v1 = v\<lparr>mem := mem v1\<rparr>"
    using b v1 assms(3) by simp_all
qed

lemma ram_zero_inside:
  assumes "unat a + n \<le> 2 ^ 32" and "unat a \<le> unat x" and "unat x < unat a + n"
  shows "m_ram (mem (zero_bytes a n v)) x = 0"
proof -
  have "unat (x - a) = unat x - unat a" using assms(2) by (simp add: unat_sub word_le_nat_alt)
  moreover have "unat x - unat a < n" using assms(2,3) by linarith
  ultimately show ?thesis by (simp add: zero_bytes_def ram_put_def)
qed

lemma ram_put_inside:
  assumes "unat a + length bs \<le> 2 ^ 32" and "unat a \<le> unat x" and "unat x < unat a + length bs"
  shows "ram_put a bs m x = bs ! (unat x - unat a)"
proof -
  have "unat (x - a) = unat x - unat a" using assms(2) by (simp add: unat_sub word_le_nat_alt)
  moreover have "unat x - unat a < length bs" using assms(2,3) by linarith
  ultimately show ?thesis by (simp add: ram_put_def)
qed

text \<open>New frames, cleared and partly filled.\<close>

definition fill :: "u32 \<Rightarrow> bytes \<Rightarrow> paging_state \<Rightarrow> paging_state" where
  "fill a bs v = v\<lparr>mem := (mem v)\<lparr>m_ram := ram_put a bs (m_ram (mem v))\<rparr>\<rparr>"

lemma fill_frames:
  assumes wf: "ctx_wf ctx v" and room: "brk_of v + 4096 * n + 4096 < 2 ^ 32" and sz: "unat sz = 4096 * n"
    and al: "pg_kmalloc_aligned sz 0x1000 v = (a, v1)" and fit: "unat off + length bs \<le> 4096 * n"
  defines "v' \<equiv> fill (a + off) bs (zero_bytes a (4096 * n) v1)"
  shows "a \<noteq> 0" and "4096 dvd unat a" and "brk_of v' = brk_of v + 4096 * n + 4096" and "ctx_wf ctx v'"
    and "walk ctx v' w = walk ctx v w" and "ctx_area ctx v' x = ctx_area ctx v x"
    and "unat x < brk_of v \<Longrightarrow> m_ram (mem v') x = m_ram (mem v) x"
    and "k < 4096 * n \<Longrightarrow> unat (a + of_nat k) < brk_of v' \<and> \<not> ctx_area ctx v' (a + of_nat k) \<and>
      m_ram (mem v') (a + of_nat k) = (if unat off \<le> k \<and> k < unat off + length bs then bs ! (k - unat off) else 0)"
    and "kernel_page_context v' = kernel_page_context v" and "current_context v' = current_context v"
    and "vm_ok v \<Longrightarrow> current_context v = ctx \<Longrightarrow> vm_ok v'"
proof -
  have pos: "0 < brk_of v" using ctx_wf_frame[OF wf] by (simp add: frame_ok_def)
  note b = pg_kmalloc_aligned_pages[OF room pos sz al]
  show "a \<noteq> 0" "4096 dvd unat a" using b(1,4) pos by auto
  show brk: "brk_of v' = brk_of v + 4096 * n + 4096" using b(3) by (simp add: v'_def fill_def)
  have r: "unat a + 4096 * n \<le> 2 ^ 32" using b(2) brk_less[of v1] by simp
  have uo: "bs \<noteq> [] \<Longrightarrow> unat (a + off) = unat a + unat off"
  proof -
    assume "bs \<noteq> []"
    then have "unat off < 4096 * n" using fit by (cases bs) auto
    then show ?thesis using r by (simp add: unat_add_no_wrap)
  qed
  have far: "m_ram (mem v') x = m_ram (mem v) x" if x: "unat x < brk_of v" for x
  proof -
    have "ram_put (a + off) bs m x = m x" for m
    proof (cases "bs = []")
      case False
      then show ?thesis using uo r fit b(1) x by (intro ram_put_beside) auto
    qed (simp add: ram_put_def)
    moreover have "m_ram (mem (zero_bytes a (4096 * n) v1)) x = m_ram (mem v1) x"
      using b(1) x by (intro ram_zero_bytes[OF r]) (simp add: within_def)
    ultimately show ?thesis by (simp add: v'_def fill_def b(5))
  qed
  show "unat x < brk_of v \<Longrightarrow> m_ram (mem v') x = m_ram (mem v) x" by (rule far)
  note out = ctx_outside[OF wf, of v', OF far[OF ctx_area_below[OF wf]]]
  show wf': "ctx_wf ctx v'" "walk ctx v' w = walk ctx v w" and area: "ctx_area ctx v' x = ctx_area ctx v x" for x
    using out brk by simp_all
  show "unat (a + of_nat k) < brk_of v' \<and> \<not> ctx_area ctx v' (a + of_nat k) \<and>
      m_ram (mem v') (a + of_nat k) = (if unat off \<le> k \<and> k < unat off + length bs then bs ! (k - unat off) else 0)"
    if k: "k < 4096 * n"
  proof -
    have "unat (of_nat k :: u32) = k" using k r by (intro unat_of_nat_u32) simp
    then have uk: "unat (a + of_nat k) = unat a + k" using k r by (simp add: unat_add_no_wrap)
    have "\<not> ctx_area ctx v (a + of_nat k)" using ctx_area_below[OF wf, of "a + of_nat k"] uk b(1) by auto
    moreover have "m_ram (mem v') (a + of_nat k) = (if unat off \<le> k \<and> k < unat off + length bs then bs ! (k - unat off) else 0)"
    proof (cases "unat off \<le> k \<and> k < unat off + length bs")
      case True
      then have "bs \<noteq> []" by auto
      then have "ram_put (a + off) bs m (a + of_nat k) = bs ! (unat (a + of_nat k) - unat (a + off))" for m
        using True uo uk r fit by (intro ram_put_inside) auto
      then show ?thesis using True uo[OF \<open>bs \<noteq> []\<close>] uk by (simp add: v'_def fill_def)
    next
      case False
      have "ram_put (a + off) bs m (a + of_nat k) = m (a + of_nat k)" for m
      proof (cases "bs = []")
        case ne: False
        then show ?thesis using False uo uk r fit by (intro ram_put_beside) auto
      qed (simp add: ram_put_def)
      moreover have "m_ram (mem (zero_bytes a (4096 * n) v1)) (a + of_nat k) = 0"
        using uk k by (intro ram_zero_inside[OF r]) simp_all
      ultimately show ?thesis using False by (auto simp: v'_def fill_def)
    qed
    ultimately show ?thesis using uk k b(2,3) brk area by simp
  qed
  show e: "kernel_page_context v' = kernel_page_context v" "current_context v' = current_context v"
    using arg_cong[OF b(6), of kernel_page_context] arg_cong[OF b(6), of current_context] by (simp_all add: v'_def fill_def)
  have "cr3 v' = cr3 v" "tlb v' = tlb v"
    using arg_cong[OF b(6), of cr3] arg_cong[OF b(6), of tlb] by (simp_all add: v'_def fill_def)
  moreover assume "vm_ok v" "current_context v = ctx"
  ultimately show "vm_ok v'" using e(2) brk far[OF ctx_area_below[OF wf]] by (intro vm_ok_outside[of v v']) simp_all
qed

text \<open>Pages in a row have different numbers.\<close>

lemma page_number: "unat ((w :: u32) AND 0xFFFFF000) = unat w div 4096 * 4096"
  unfolding page_mask and_not_mask_unat by simp

lemma same_page_number: "w AND 0xFFFFF000 = u AND 0xFFFFF000 \<longleftrightarrow> unat w div 4096 = unat (u :: u32) div 4096"
  unfolding word_unat_eq_iff[of "w AND 0xFFFFF000"] page_number by simp

lemma page_offset_number: "unat ((w :: u32) AND 0xFFF) = unat w mod 4096"
proof -
  have "w AND 0xFFF = take_bit 12 w" unfolding take_bit_eq_mask by (simp add: mask_eq_exp_minus_1)
  then have "unat (w AND 0xFFF) = take_bit 12 (unat w)" by (simp only: unsigned_take_bit_eq)
  then show ?thesis by (simp add: take_bit_eq_mod)
qed

lemma page_in_row:
  fixes v :: u32
  assumes "k < n" and "unat v div 4096 + n \<le> 2 ^ 20" and "4096 dvd unat v"
  shows "unat (v + 4096 * of_nat k) = unat v + 4096 * k"
proof -
  have "unat v + 4096 * k + 4096 \<le> 2 ^ 32" using assms(1,2) assms(3) by (auto simp: dvd_def)
  moreover have "unat (4096 * of_nat k :: u32) = 4096 * k"
    using unat_of_nat_u32[of "4096 * k"] calculation by (simp only: of_nat_mult of_nat_numeral)
  ultimately show ?thesis using unat_add_no_wrap[of v "4096 * of_nat k"] by simp
qed

lemma map_segment_walk:
  assumes room: "map_room ctx (n + m) v" and al: "4096 dvd unat vaddr" "4096 dvd unat phys" "unat vaddr div 4096 + n \<le> 2 ^ 20"
    and pr: "unat phys + 4096 * n \<le> 2 ^ 32"
  shows "map_room ctx m (map_segment ctx n vaddr phys v)"
    and "k < 4096 * n \<Longrightarrow> walk ctx (map_segment ctx n vaddr phys v) (vaddr + of_nat k) = Some (phys + of_nat k, 6)"
    and "unat w div 4096 < unat vaddr div 4096 \<or> unat vaddr div 4096 + n \<le> unat w div 4096 \<Longrightarrow>
      walk ctx (map_segment ctx n vaddr phys v) w = walk ctx v w"
    and "unat x < brk_of v \<Longrightarrow> \<not> ctx_area ctx v x \<Longrightarrow>
      unat x < brk_of (map_segment ctx n vaddr phys v) \<and> \<not> ctx_area ctx (map_segment ctx n vaddr phys v) x \<and>
      m_ram (mem (map_segment ctx n vaddr phys v)) x = m_ram (mem v) x"
proof -
  have f: "unat (7 :: u32) < 4096" "(7 :: u32) AND 1 = 1" by simp_all
  note mp = map_segment_pages
  show "map_room ctx m (map_segment ctx n vaddr phys v)" unfolding mp by (rule kpages.map_pages_ok[OF room f(1)])
  have row: "unat (vaddr + 4096 * of_nat i) div 4096 = unat vaddr div 4096 + i" if "i < n" for i
    using page_in_row[OF that al(3,1)] by simp
  show "walk ctx (map_segment ctx n vaddr phys v) w = walk ctx v w"
    if "unat w div 4096 < unat vaddr div 4096 \<or> unat vaddr div 4096 + n \<le> unat w div 4096"
    unfolding mp by (rule kpages.map_pages_other[OF room f]) (use that row same_page_number in auto)
  show "walk ctx (map_segment ctx n vaddr phys v) (vaddr + of_nat k) = Some (phys + of_nat k, 6)" if k: "k < 4096 * n"
  proof -
    let ?i = "k div 4096"
    have i: "?i < n" using k by (simp add: less_mult_imp_div_less mult.commute)
    have uk: "unat (of_nat k :: u32) = k" using k pr by (intro unat_of_nat_u32) simp
    have vr: "unat vaddr + 4096 * n \<le> 2 ^ 32" using al(1,3) by (auto simp: dvd_def)
    have uv: "unat (vaddr + of_nat k) = unat vaddr + k" "unat (phys + of_nat k) = unat phys + k"
      using k uk vr pr by (simp_all add: unat_add_no_wrap)
    have pg: "unat (vaddr + of_nat k) div 4096 = unat (vaddr + 4096 * of_nat ?i) div 4096"
      using row[OF i] uv(1) al(1) by (auto simp: dvd_def)
    have "walk ctx (map_segment ctx n vaddr phys v) (vaddr + of_nat k) =
        Some (((phys + 4096 * of_nat ?i) AND 0xFFFFF000) OR ((vaddr + of_nat k) AND 0xFFF), 7 AND 6)"
      unfolding mp using row pg same_page_number i by (intro kpages.map_pages_hit[OF room f i]) auto
    moreover have "(phys + 4096 * of_nat ?i) AND 0xFFFFF000 = (phys + of_nat k) AND 0xFFFFF000"
    proof -
      obtain q where q: "unat phys = 4096 * q" using al(2) by (auto simp: dvd_def)
      then have "unat phys div 4096 + n \<le> 2 ^ 20" using pr by simp
      from page_in_row[OF i this al(2)] show ?thesis unfolding same_page_number using uv(2) q by simp
    qed
    moreover have "(vaddr + of_nat k) AND 0xFFF = (phys + of_nat k) AND 0xFFF"
    proof -
      have "unat ((vaddr + of_nat k) AND 0xFFF) = unat ((phys + of_nat k) AND 0xFFF)"
        unfolding page_offset_number uv using al(1,2) by (auto simp: dvd_def)
      then show ?thesis unfolding word_unat_eq_iff .
    qed
    ultimately show ?thesis using page_offset[of "phys + of_nat k"] by simp
  qed
  show "unat x < brk_of (map_segment ctx n vaddr phys v) \<and> \<not> ctx_area ctx (map_segment ctx n vaddr phys v) x \<and>
      m_ram (mem (map_segment ctx n vaddr phys v)) x = m_ram (mem v) x"
    if "unat x < brk_of v" "\<not> ctx_area ctx v x"
    using kpages.map_pages_keeps[OF room f(1), of x vaddr phys] that unfolding mp by simp
qed

lemma other_fields_map_segment [simp]:
  "kernel_page_context (map_segment ctx n vaddr phys v) = kernel_page_context v"
  "current_context (map_segment ctx n vaddr phys v) = current_context v"
proof -
  have k: "kernel_page_context (paging_map_page ctx va pa f v) = kernel_page_context v" for va pa f v
    by (simp add: map_page_with_table with_table_def new_table_def pg_kmalloc_aligned_def invlpg_def Let_def split: prod.splits)
  show "kernel_page_context (map_segment ctx n vaddr phys v) = kernel_page_context v"
    by (induction n arbitrary: vaddr phys v) (simp_all add: k)
  show "current_context (map_segment ctx n vaddr phys v) = current_context v"
    by (induction n arbitrary: vaddr phys v) simp_all
qed

lemma map_segment_brk:
  "ctx_wf ctx v \<Longrightarrow> brk_of v + 8192 * n < 2 ^ 32 \<Longrightarrow>
   brk_of v \<le> brk_of (map_segment ctx n vaddr phys v) \<and> brk_of (map_segment ctx n vaddr phys v) \<le> brk_of v + 8192 * n"
proof (induction n arbitrary: vaddr phys v)
  case (Suc n)
  let ?f = "PAGE_PRESENT OR PAGE_WRITE OR PAGE_USER"
  have r: "brk_of v + 8192 < 2 ^ 32" and f: "unat ?f < 4096" using Suc.prems(2)
    by (simp_all add: PAGE_PRESENT_def PAGE_WRITE_def PAGE_USER_def)
  note m = map_page_correct(1,3,4)[OF Suc.prems(1) r f, of vaddr phys]
  have "brk_of (paging_map_page ctx vaddr phys ?f v) + 8192 * n < 2 ^ 32" using m(3) Suc.prems(2) by simp
  from Suc.IH[OF m(1) this, of "vaddr + 0x1000" "phys + 0x1000"] show ?case using m(2,3) by simp
qed simp

lemma vm_ok_map_segment:
  "vm_ok v \<Longrightarrow> current_context v = ctx \<Longrightarrow> brk_of v + 8192 * n < 2 ^ 32 \<Longrightarrow> vm_ok (map_segment ctx n vaddr phys v)"
proof (induction n arbitrary: vaddr phys v)
  case (Suc n)
  let ?f = "PAGE_PRESENT OR PAGE_WRITE OR PAGE_USER"
  have r: "brk_of v + 8192 < 2 ^ 32" and f: "unat ?f < 4096" using Suc.prems(3)
    by (simp_all add: PAGE_PRESENT_def PAGE_WRITE_def PAGE_USER_def)
  have wf: "ctx_wf ctx v" using Suc.prems(1,2) by (auto simp: vm_ok_def)
  note m = map_page_correct(4)[OF wf r f, of vaddr phys]
  have "vm_ok (paging_map_page ctx vaddr phys ?f v)" using vm_ok_map[OF Suc.prems(1) r f] Suc.prems(2) by simp
  then show ?case using Suc.IH[of "paging_map_page ctx vaddr phys ?f v"] m Suc.prems(2,3) by simp
qed simp

text \<open>What one segment does to memory and tables.\<close>

lemma seg_loaded_fill:
  assumes wf: "ctx_wf ctx v" and fits: "seg_fits content ph"
    and room: "brk_of v + 12288 * seg_pages ph + 4096 < 2 ^ 32"
    and sz: "unat sz = 4096 * seg_pages ph" and al: "pg_kmalloc_aligned sz 0x1000 v = (a, v1)"
    and bs: "bs = take (unat (ph_filesz ph)) (drop (unat (ph_offset ph)) content)"
  defines "v2 \<equiv> fill (a + (ph_vaddr ph AND 0xFFF)) bs (zero_bytes a (4096 * seg_pages ph) v1)"
  defines "v' \<equiv> map_segment ctx (seg_pages ph) (ph_vaddr ph AND 0xFFFFF000) a v2"
  shows "a \<noteq> 0" and "ctx_wf ctx v'" and "brk_of v \<le> brk_of v'" and "brk_of v' \<le> brk_of v + 12288 * seg_pages ph + 4096"
    and "seg_loaded ctx content ph v'"
    and "unat w div 4096 \<notin> seg_range ph \<Longrightarrow> walk ctx v' w = walk ctx v w"
    and "unat x < brk_of v \<Longrightarrow> \<not> ctx_area ctx v x \<Longrightarrow>
      unat x < brk_of v' \<and> \<not> ctx_area ctx v' x \<and> m_ram (mem v') x = m_ram (mem v) x"
    and "kernel_page_context v' = kernel_page_context v" and "current_context v' = current_context v"
    and "vm_ok v \<Longrightarrow> current_context v = ctx \<Longrightarrow> vm_ok v'"
proof -
  let ?n = "seg_pages ph" and ?va = "ph_vaddr ph"
  let ?off = "?va AND 0xFFF" and ?base = "?va AND 0xFFFFF000"
  have off: "unat ?off = unat ?va mod 4096" by (rule page_offset_number)
  have base: "unat ?base = unat ?va div 4096 * 4096" by (rule page_number)
  have "unat (ph_offset ph) + unat (ph_filesz ph) \<le> length content" using fits by (simp add: seg_fits_def)
  then have lb: "length bs = unat (ph_filesz ph)" by (simp add: bs)
  have fm: "unat (ph_filesz ph) \<le> unat (ph_memsz ph)" "unat ?va mod 4096 + unat (ph_memsz ph) \<le> 4096 * ?n"
    "unat ?va div 4096 + ?n \<le> 2 ^ 20"
    using fits by (simp_all add: seg_fits_def word_le_nat_alt)
  have fit: "unat ?off + length bs \<le> 4096 * ?n" using fm lb off by simp
  have room1: "brk_of v + 4096 * ?n + 4096 < 2 ^ 32" using room by simp
  note f = fill_frames[OF wf room1 sz al fit, folded v2_def]
  have pos: "0 < brk_of v" using ctx_wf_frame[OF wf] by (simp add: frame_ok_def)
  note ap = pg_kmalloc_aligned_pages[OF room1 pos sz al]
  show "a \<noteq> 0" by (rule f(1))
  have pr: "unat a + 4096 * ?n \<le> 2 ^ 32" using ap(2,3) room1 by simp
  have mr: "map_room ctx (?n + 0) v2" using f(3,4) room by (simp add: map_room_def)
  have vb: "4096 dvd unat ?base" "unat ?base div 4096 + ?n \<le> 2 ^ 20" unfolding base using fm(3) by simp_all
  note m = map_segment_walk[OF mr vb(1) f(2) vb(2) pr, folded v'_def]
  show "ctx_wf ctx v'" using m(1) by (simp add: map_room_def)
  have keep: "unat x < brk_of v' \<and> \<not> ctx_area ctx v' x \<and> m_ram (mem v') x = m_ram (mem v2) x"
    if "unat x < brk_of v2" "\<not> ctx_area ctx v2 x" for x by (rule m(4)[OF that])
  show "brk_of v' \<le> brk_of v + 12288 * ?n + 4096" "brk_of v \<le> brk_of v'"
    using map_segment_brk[where ctx = ctx and v = v2 and n = ?n and vaddr = ?base and phys = a, folded v'_def] f(3,4) room by simp_all
  show "unat x < brk_of v' \<and> \<not> ctx_area ctx v' x \<and> m_ram (mem v') x = m_ram (mem v) x"
    if "unat x < brk_of v" "\<not> ctx_area ctx v x" using keep[of x] that f(3) f(6,7)[of x] by simp
  show "walk ctx v' w = walk ctx v w" if "unat w div 4096 \<notin> seg_range ph"
  proof -
    have "unat w div 4096 < unat ?base div 4096 \<or> unat ?base div 4096 + ?n \<le> unat w div 4096"
      using that base by (simp add: seg_range_def) linarith
    then show ?thesis using m(3) f(5) by simp
  qed
  show "seg_loaded ctx content ph v'" unfolding seg_loaded_def
  proof (intro allI impI)
    fix k assume k: "k < unat (ph_memsz ph)"
    let ?k = "unat ?off + k"
    have k': "?k < 4096 * ?n" using k fm off by simp
    have sum: "unat ?base + unat ?off = unat ?va" unfolding base off by simp
    have "unat (?base + ?off) = unat ?va" using unat_add_no_wrap[of ?base ?off] sum unat_u32[of ?va] by simp
    then have "?va = ?base + ?off" unfolding word_unat_eq_iff by simp
    then have va: "?va + of_nat k = ?base + of_nat ?k" by simp
    have w: "walk ctx v' (?va + of_nat k) = Some (a + of_nat ?k, 6)" unfolding va by (rule m(2)[OF k'])
    have "m_ram (mem v2) (a + of_nat ?k) = byte_of content ph k"
      using f(8)[OF k'] lb fits by (auto simp: byte_of_def bs seg_fits_def add.commute)
    then show "\<exists>pa. walk ctx v' (?va + of_nat k) = Some (pa, 6) \<and> m_ram (mem v') pa = byte_of content ph k \<and>
        unat pa < brk_of v' \<and> \<not> ctx_area ctx v' pa"
      using w keep[of "a + of_nat ?k"] f(8)[OF k'] by auto
  qed
  show "kernel_page_context v' = kernel_page_context v" "current_context v' = current_context v"
    using f(9,10) by (simp_all add: v'_def)
  show "vm_ok v'" if "vm_ok v" "current_context v = ctx"
    unfolding v'_def using f(3,10,11) that room by (intro vm_ok_map_segment) simp_all
qed

lemma seg_page_count:
  assumes "seg_fits content ph"
  shows "unat ((ph_memsz ph + 0xFFF) div 0x1000) = seg_pages ph"
    and "unat ((ph_memsz ph + 0xFFF) div 0x1000 * 0x1000) = 4096 * seg_pages ph"
proof -
  have "unat (ph_memsz ph) + 0xFFF < 2 ^ 32" using assms by (simp add: seg_fits_def)
  then have "unat (ph_memsz ph + 0xFFF) = unat (ph_memsz ph) + 0xFFF" using unat_add_no_wrap[of "ph_memsz ph" "0xFFF"] by simp
  then show c: "unat ((ph_memsz ph + 0xFFF) div 0x1000) = seg_pages ph" by (simp add: unat_div seg_pages_def)
  have "4096 * seg_pages ph \<le> unat (ph_memsz ph) + 0xFFF" unfolding seg_pages_def by simp
  then have "unat ((ph_memsz ph + 0xFFF) div 0x1000 * 0x1000) = unat ((ph_memsz ph + 0xFFF) div 0x1000) * unat (0x1000 :: u32)"
    using c \<open>unat (ph_memsz ph) + 0xFFF < 2 ^ 32\<close> by (subst unat_mult_lem[THEN iffD1]) simp_all
  then show "unat ((ph_memsz ph + 0xFFF) div 0x1000 * 0x1000) = 4096 * seg_pages ph" using c by simp
qed

lemma fill_nil [simp]: "fill a [] v = v"
proof -
  have "ram_put a [] m = m" for m by (rule ext) (simp add: ram_put_def)
  then show ?thesis by (simp add: fill_def)
qed

lemma set_vm_vm [simp]: "k_vm (set_vm v s) = v" "k_fat (set_vm v s) = k_fat s" "set_vm v (set_vm u s) = set_vm v s"
  by (simp_all add: set_vm_def)

text \<open>What one segment does to everything else: a relation between the states before and after.\<close>

definition seg_done :: "u32 \<Rightarrow> nat \<Rightarrow> nat set \<Rightarrow> 'd kernel \<Rightarrow> 'd kernel \<Rightarrow> bool" where
  "seg_done ctx need pages s s' \<longleftrightarrow>
     ctx_wf ctx (k_vm s') \<and> brk_of (k_vm s) \<le> brk_of (k_vm s') \<and> brk_of (k_vm s') \<le> brk_of (k_vm s) + need \<and>
     (\<forall>w. unat w div 4096 \<notin> pages \<longrightarrow> walk ctx (k_vm s') w = walk ctx (k_vm s) w) \<and>
     (\<forall>x. unat x < brk_of (k_vm s) \<longrightarrow> \<not> ctx_area ctx (k_vm s) x \<longrightarrow>
       unat x < brk_of (k_vm s') \<and> \<not> ctx_area ctx (k_vm s') x \<and> m_ram (mem (k_vm s')) x = m_ram (mem (k_vm s)) x) \<and>
     k_tasks s' = (k_tasks s)\<lparr>vm := k_vm s'\<rparr> \<and>
     kernel_page_context (k_vm s') = kernel_page_context (k_vm s) \<and> current_context (k_vm s') = current_context (k_vm s) \<and>
     (vm_ok (k_vm s) \<longrightarrow> current_context (k_vm s) = ctx \<longrightarrow> vm_ok (k_vm s'))"

lemma seg_done_refl: "ctx_wf ctx (k_vm s) \<Longrightarrow> k_tasks s' = k_tasks s \<Longrightarrow> seg_done ctx 0 {} s s'"
  by (simp add: seg_done_def)

lemma seg_done_trans:
  assumes "seg_done ctx n P s s'" and "seg_done ctx m Q s' s''"
  shows "seg_done ctx (n + m) (P \<union> Q) s s''"
proof -
  have e: "k_tasks s'' = (k_tasks s')\<lparr>vm := k_vm s''\<rparr>" "k_tasks s' = (k_tasks s)\<lparr>vm := k_vm s'\<rparr>"
    using assms unfolding seg_done_def by blast+
  have "(k_tasks s')\<lparr>vm := v\<rparr> = (k_tasks s)\<lparr>vm := v\<rparr>" for v using arg_cong[OF e(2), of "\<lambda>t. t\<lparr>vm := v\<rparr>"] by simp
  then have t: "k_tasks s'' = (k_tasks s)\<lparr>vm := k_vm s''\<rparr>" using e(1) by (rule trans[rotated])
  have b: "brk_of (k_vm s) \<le> brk_of (k_vm s')" using assms(1) by (simp add: seg_done_def)
  show ?thesis unfolding seg_done_def
  proof (intro conjI allI impI)
    show "k_tasks s'' = (k_tasks s)\<lparr>vm := k_vm s''\<rparr>" by (rule t)
  qed (use assms b in \<open>auto simp: seg_done_def\<close>)
qed

lemma seg_loaded_keep:
  assumes ld: "seg_loaded ctx content ph (k_vm s)" and dn: "seg_done ctx n P s s'" and dj: "seg_range ph \<inter> P = {}"
    and fits: "seg_fits content ph"
  shows "seg_loaded ctx content ph (k_vm s')"
  unfolding seg_loaded_def
proof (intro allI impI)
  fix k assume k: "k < unat (ph_memsz ph)"
  let ?w = "ph_vaddr ph + of_nat k"
  from ld k obtain pa where pa: "walk ctx (k_vm s) ?w = Some (pa, 6)" "m_ram (mem (k_vm s)) pa = byte_of content ph k"
    "unat pa < brk_of (k_vm s)" "\<not> ctx_area ctx (k_vm s) pa" by (auto simp: seg_loaded_def)
  have fm: "unat (ph_vaddr ph) mod 4096 + unat (ph_memsz ph) \<le> 4096 * seg_pages ph"
    "unat (ph_vaddr ph) div 4096 + seg_pages ph \<le> 2 ^ 20" using fits by (simp_all add: seg_fits_def)
  have e: "unat (ph_vaddr ph) = 4096 * (unat (ph_vaddr ph) div 4096) + unat (ph_vaddr ph) mod 4096" by simp
  have "4096 * (unat (ph_vaddr ph) div 4096) + 4096 * seg_pages ph \<le> 2 ^ 32" using fm(2) by simp
  then have lim: "unat (ph_vaddr ph) + k < 2 ^ 32" using k fm(1) e by linarith
  have "unat (of_nat k :: u32) = k" using lim by (intro unat_of_nat_u32) simp
  then have uw: "unat ?w = unat (ph_vaddr ph) + k" using lim by (simp add: unat_add_no_wrap)
  have "unat ?w div 4096 \<in> seg_range ph"
  proof -
    have "4096 * (unat (ph_vaddr ph) div 4096) \<le> unat ?w" using uw e by linarith
    moreover have "unat ?w < 4096 * (unat (ph_vaddr ph) div 4096 + seg_pages ph)"
      using uw e k fm(1) by (simp only: add_mult_distrib2)
    ultimately show ?thesis by (auto simp: seg_range_def less_eq_div_iff_mult_less_eq less_mult_imp_div_less mult.commute)
  qed
  then have "walk ctx (k_vm s') ?w = Some (pa, 6)" using dn dj pa(1) by (auto simp: seg_done_def)
  then show "\<exists>pa. walk ctx (k_vm s') ?w = Some (pa, 6) \<and> m_ram (mem (k_vm s')) pa = byte_of content ph k \<and>
      unat pa < brk_of (k_vm s') \<and> \<not> ctx_area ctx (k_vm s') pa"
    using dn pa by (auto simp: seg_done_def)
qed

definition seg_need :: "elf_program_header \<Rightarrow> nat" where
  "seg_need ph = 12288 * seg_pages ph + 4096"

context readable_file
begin

lemma load_segment_ok:
  assumes wf: "ctx_wf ctx (k_vm s)" and h: "holds file (k_fat s)" and fits: "seg_fits content ph"
    and room: "brk_of (k_vm s) + seg_need ph < 2 ^ 32"
  shows "\<exists>file' s'. load_segment D ctx ph file s = Some (Some file', s') \<and> holds file' (k_fat s') \<and>
    seg_done ctx (seg_need ph) (seg_range ph) s s' \<and> seg_loaded ctx content ph (k_vm s')"
proof -
  let ?pc = "(ph_memsz ph + 0xFFF) div 0x1000" and ?off = "ph_vaddr ph AND 0xFFF"
  note pc = seg_page_count[OF fits]
  obtain a v1 where al: "pg_kmalloc_aligned (?pc * 0x1000) 0x1000 (k_vm s) = (a, v1)" by fastforce
  define bs where "bs = take (unat (ph_filesz ph)) (drop (unat (ph_offset ph)) content)"
  note f = seg_loaded_fill[OF wf fits room[unfolded seg_need_def add.assoc[symmetric]] pc(2) al bs_def]
  let ?z = "zero_bytes a (4096 * seg_pages ph) v1"
  let ?v = "map_segment ctx (seg_pages ph) (ph_vaddr ph AND 0xFFFFF000) a (fill (a + ?off) bs ?z)"
  have rd: "\<exists>file' fs'. (if ph_filesz ph > 0 then do {
        let (_, file) = fat32_seek file (ph_offset ph) 0;
        let phys_offset = ?off;
        (_, file, s) \<leftarrow> read_to D file (a + phys_offset) (ph_filesz ph) (set_vm ?z s);
        Some (file, s)
      } else Some (file, set_vm ?z s)) = Some (file', set_vm (fill (a + ?off) bs ?z) (s\<lparr>k_fat := fs'\<rparr>)) \<and> holds file' fs'"
  proof (cases "ph_filesz ph > 0")
    case True
    have "unat (ph_offset ph) + unat (ph_filesz ph) \<le> length content" using fits by (simp add: seg_fits_def)
    from read_at[OF h this, of "ram_get (a + ?off) (unat (ph_filesz ph)) (m_ram (mem ?z))"] obtain file' fs' where
      "fat32_read D (snd (fat32_seek file (ph_offset ph) 0)) (Some (ram_get (a + ?off) (unat (ph_filesz ph)) (m_ram (mem ?z)))) (ph_filesz ph) (k_fat s) =
        Some (sint (ph_filesz ph), file', Some bs, fs')" "holds file' fs'" by (auto simp: bs_def)
    then show ?thesis using True
      by (auto simp: read_to_def fill_def set_vm_def Let_def split_beta)
  next
    case False
    then have "ph_filesz ph = 0" by (metis word_gt_0)
    then have "bs = []" by (simp add: bs_def)
    then show ?thesis using False h by (intro exI[of _ "file"] exI[of _ "k_fat s"]) (simp add: set_vm_def)
  qed
  then obtain file' fs' where rd: "(if ph_filesz ph > 0 then do {
        let (_, file) = fat32_seek file (ph_offset ph) 0;
        let phys_offset = ?off;
        (_, file, s) \<leftarrow> read_to D file (a + phys_offset) (ph_filesz ph) (set_vm ?z s);
        Some (file, s)
      } else Some (file, set_vm ?z s)) = Some (file', set_vm (fill (a + ?off) bs ?z) (s\<lparr>k_fat := fs'\<rparr>))" "holds file' fs'"
    by blast
  have "load_segment D ctx ph file s = Some (Some file', set_vm ?v (s\<lparr>k_fat := fs'\<rparr>))"
    using f(1) rd(1) by (simp add: load_segment_def al pc Let_def)
  moreover have "seg_done ctx (seg_need ph) (seg_range ph) s (set_vm ?v (s\<lparr>k_fat := fs'\<rparr>))"
    using f(2-4,6-10) by (simp add: seg_done_def seg_need_def) (simp add: set_vm_def)
  ultimately show ?thesis using f(5) rd(2) by auto
qed

end

section \<open>The whole program\<close>

definition header_pos :: "elf_header \<Rightarrow> nat \<Rightarrow> u32" where
  "header_pos h i = eh_phoff h + of_nat (i * unat (eh_phentsize h))"

definition header_at :: "bytes \<Rightarrow> elf_header \<Rightarrow> nat \<Rightarrow> elf_program_header" where
  "header_at content h i = ph_of_bytes (take 32 (drop (unat (header_pos h i)) content))"

abbreviation loads :: "bytes \<Rightarrow> elf_header \<Rightarrow> nat \<Rightarrow> bool" where
  "loads content h i \<equiv> ph_type (header_at content h i) = PT_LOAD"

text \<open>The program headers lie in the file, every segment fits, and no two share a page.\<close>

definition elf_ok :: "bytes \<Rightarrow> elf_header \<Rightarrow> nat \<Rightarrow> nat \<Rightarrow> bool" where
  "elf_ok content h i n \<longleftrightarrow>
     (\<forall>j. i \<le> j \<and> j < i + n \<longrightarrow> int (j * unat (eh_phentsize h)) \<le> INT_MAX \<and> unat (header_pos h j) + 32 \<le> length content \<and>
       (loads content h j \<longrightarrow> seg_fits content (header_at content h j))) \<and>
     (\<forall>j k. i \<le> j \<and> j < k \<and> k < i + n \<and> loads content h j \<and> loads content h k \<longrightarrow>
       seg_range (header_at content h j) \<inter> seg_range (header_at content h k) = {})"

fun elf_need :: "bytes \<Rightarrow> elf_header \<Rightarrow> nat \<Rightarrow> nat \<Rightarrow> nat" where
  "elf_need content h i 0 = 0"
| "elf_need content h i (Suc n) = (if loads content h i then seg_need (header_at content h i) else 0) + elf_need content h (Suc i) n"

definition elf_pages :: "bytes \<Rightarrow> elf_header \<Rightarrow> nat \<Rightarrow> nat \<Rightarrow> nat set" where
  "elf_pages content h i n = (\<Union>j \<in> {j. i \<le> j \<and> j < i + n \<and> loads content h j}. seg_range (header_at content h j))"

lemma elf_ok_Suc:
  assumes "elf_ok content h i (Suc n)"
  shows "elf_ok content h (Suc i) n" and "int (i * unat (eh_phentsize h)) \<le> INT_MAX"
    and "unat (header_pos h i) + 32 \<le> length content" and "loads content h i \<Longrightarrow> seg_fits content (header_at content h i)"
    and "loads content h i \<Longrightarrow> seg_range (header_at content h i) \<inter> elf_pages content h (Suc i) n = {}"
proof -
  have e: "(Suc i \<le> j \<and> j < Suc i + n) \<longrightarrow> (i \<le> j \<and> j < i + Suc n)" for j by simp
  show "elf_ok content h (Suc i) n" using assms unfolding elf_ok_def by auto
  show "int (i * unat (eh_phentsize h)) \<le> INT_MAX" "unat (header_pos h i) + 32 \<le> length content"
    "loads content h i \<Longrightarrow> seg_fits content (header_at content h i)" using assms unfolding elf_ok_def by auto
  show "seg_range (header_at content h i) \<inter> elf_pages content h (Suc i) n = {}" if "loads content h i"
  proof -
    have "seg_range (header_at content h i) \<inter> seg_range (header_at content h j) = {}"
      if "Suc i \<le> j" "j < Suc i + n" "loads content h j" for j
      using assms \<open>loads content h i\<close> that unfolding elf_ok_def by auto
    then show ?thesis by (auto simp: elf_pages_def)
  qed
qed

lemma elf_pages_Suc:
  "elf_pages content h i (Suc n) = (if loads content h i then seg_range (header_at content h i) else {}) \<union> elf_pages content h (Suc i) n"
proof -
  have "{j. i \<le> j \<and> j < i + Suc n \<and> loads content h j} =
      (if loads content h i then {i} else {}) \<union> {j. Suc i \<le> j \<and> j < Suc i + n \<and> loads content h j}"
    by (auto simp: le_Suc_eq order.order_iff_strict)
  then show ?thesis by (auto simp: elf_pages_def)
qed

lemma elf_pages_0 [simp]: "elf_pages content h i 0 = {}"
  by (auto simp: elf_pages_def)

context readable_file
begin

lemma load_segments_ok:
  "ctx_wf ctx (k_vm s) \<Longrightarrow> holds f (k_fat s) \<Longrightarrow> elf_ok content h i n \<Longrightarrow>
   brk_of (k_vm s) + elf_need content h i n < 2 ^ 32 \<Longrightarrow>
   \<exists>f' s'. load_segments D h ctx n i f s = Some (0, f', s') \<and> holds f' (k_fat s') \<and>
     seg_done ctx (elf_need content h i n) (elf_pages content h i n) s s' \<and>
     (\<forall>j. i \<le> j \<and> j < i + n \<and> loads content h j \<longrightarrow> seg_loaded ctx content (header_at content h j) (k_vm s'))"
proof (induction n arbitrary: i f s)
  case 0
  then show ?case using seg_done_refl[of ctx s s] by auto
next
  case (Suc n)
  note ok = elf_ok_Suc[OF Suc.prems(3)]
  have "unat (header_pos h i) + unat (32 :: u32) \<le> length content" using ok(3) by simp
  from read_at[OF Suc.prems(2) this, of "replicate 32 0"] obtain f1 fs1 where
    rd: "fat32_read D (snd (fat32_seek f (header_pos h i) 0)) (Some (replicate 32 0)) 32 (k_fat s) =
      Some (32, f1, Some (take 32 (drop (unat (header_pos h i)) content)), fs1)" and h1: "holds f1 fs1" by auto
  let ?ph = "header_at content h i" and ?s1 = "s\<lparr>k_fat := fs1\<rparr>"
  have step: "load_segments D h ctx (Suc n) i f s =
      (if \<not> loads content h i then load_segments D h ctx n (Suc i) f1 ?s1
       else do {
         (r, s) \<leftarrow> load_segment D ctx ?ph f1 ?s1;
         case r of
           None \<Rightarrow> Some (-1, f1, k_puts (ascii ''exec: failed to allocate memory'' @ [0x0A]) s)
         | Some file \<Rightarrow> load_segments D h ctx n (Suc i) file s
       })"
    using ok(2) rd by (simp add: split_beta Let_def header_at_def del: of_nat_mult flip: header_pos_def cong: option.case_cong)
  have split: "j = i \<or> (Suc i \<le> j \<and> j < Suc i + n)" if "i \<le> j \<and> j < i + Suc n" for j using that by arith
  have d0: "seg_done ctx 0 {} s ?s1" using Suc.prems(1) by (intro seg_done_refl) simp_all
  show ?case
  proof (cases "loads content h i")
    case False
    have "ctx_wf ctx (k_vm ?s1)" "holds f1 (k_fat ?s1)" "brk_of (k_vm ?s1) + elf_need content h (Suc i) n < 2 ^ 32"
      using Suc.prems(1,4) h1 False by simp_all
    from Suc.IH[OF this(1,2) ok(1) this(3)] obtain f' s' where
      r: "load_segments D h ctx n (Suc i) f1 ?s1 = Some (0, f', s')" "holds f' (k_fat s')"
      and d: "seg_done ctx (elf_need content h (Suc i) n) (elf_pages content h (Suc i) n) ?s1 s'"
      and l: "\<forall>j. Suc i \<le> j \<and> j < Suc i + n \<and> loads content h j \<longrightarrow> seg_loaded ctx content (header_at content h j) (k_vm s')"
      by blast
    have "\<forall>j. i \<le> j \<and> j < i + Suc n \<and> loads content h j \<longrightarrow> seg_loaded ctx content (header_at content h j) (k_vm s')"
      using l False split by blast
    then show ?thesis
      using step False r seg_done_trans[OF d0 d] by (simp add: elf_pages_Suc)
  next
    case True
    note fits = ok(4)[OF True]
    have wf1: "ctx_wf ctx (k_vm ?s1)" "holds f1 (k_fat ?s1)" "brk_of (k_vm ?s1) + seg_need ?ph < 2 ^ 32"
      using Suc.prems(1,4) h1 True by simp_all
    from load_segment_ok[OF wf1(1,2) fits wf1(3)] obtain f2 s2 where
      s2: "load_segment D ctx ?ph f1 ?s1 = Some (Some f2, s2)" "holds f2 (k_fat s2)"
      and d2: "seg_done ctx (seg_need ?ph) (seg_range ?ph) ?s1 s2" and l2: "seg_loaded ctx content ?ph (k_vm s2)" by blast
    have wf2: "ctx_wf ctx (k_vm s2)" "brk_of (k_vm s2) + elf_need content h (Suc i) n < 2 ^ 32"
      using d2 Suc.prems(4) True by (auto simp: seg_done_def)
    from Suc.IH[OF wf2(1) s2(2) ok(1) wf2(2)] obtain f' s' where
      r: "load_segments D h ctx n (Suc i) f2 s2 = Some (0, f', s')" "holds f' (k_fat s')"
      and d: "seg_done ctx (elf_need content h (Suc i) n) (elf_pages content h (Suc i) n) s2 s'"
      and l: "\<forall>j. Suc i \<le> j \<and> j < Suc i + n \<and> loads content h j \<longrightarrow> seg_loaded ctx content (header_at content h j) (k_vm s')"
      by blast
    have "seg_loaded ctx content ?ph (k_vm s')" by (rule seg_loaded_keep[OF l2 d ok(5)[OF True] fits])
    then have "\<forall>j. i \<le> j \<and> j < i + Suc n \<and> loads content h j \<longrightarrow> seg_loaded ctx content (header_at content h j) (k_vm s')"
      using l split by blast
    then show ?thesis
      using step True s2(1) r seg_done_trans[OF d0 seg_done_trans[OF d2 d]] by (simp add: elf_pages_Suc)
  qed
qed

end


section \<open>Opening and starting\<close>

lemma lookup_chain_hit:
  "lookup_chain S fs sn cs = Some (d, c, off) \<Longrightarrow>
   c \<in> set cs \<and> (\<exists>i < length (slots (cluster_data S fs c)). off = of_nat (i * 32))"
proof (induction cs)
  case (Cons x cs)
  show ?case
  proof (cases "scan_slots sn 0 (slots (cluster_data S fs x))")
    case (ScanHit i)
    then have "i < length (slots (cluster_data S fs x))" using scan_slots_get[of sn "slots (cluster_data S fs x)" 0] by simp
    then show ?thesis using ScanHit Cons.prems by auto
  qed (use Cons in auto)
qed simp

text \<open>The file \<open>path\<close> of the current directory: its entry, and a chain with its bytes.\<close>

definition file_here :: "('d \<Rightarrow> u32 \<Rightarrow> bytes) \<Rightarrow> 'd fat_state \<Rightarrow> bytes \<Rightarrow> bytes \<Rightarrow> bool" where
  "file_here sectors s path content \<longleftrightarrow>
     (\<exists>sn ds e cs. fat32_to_short_name path = Some sn \<and> length sn = 11 \<and>
        is_chain (fat_entry (sectors (disk s)) (g_fs s)) (g_fs s) ds \<and> hd ds = g_current_dir_cluster s \<and>
        slot_get sn (dir_slots (sectors (disk s)) (g_fs s) ds) = Some e \<and>
        is_chain (fat_entry (sectors (disk s)) (g_fs s)) (g_fs s) cs \<and> hd cs = dirent_cluster (dirent_of_bytes e) \<and>
        unat (de_file_size (dirent_of_bytes e)) \<le> length cs * unat (bytes_per_cluster (g_fs s)) \<and>
        content = take (unat (de_file_size (dirent_of_bytes e))) (file_data (sectors (disk s)) (g_fs s) cs))"

lemma fat32_open_existing:
  assumes dev: "block_device D sectors online cap" and r: "fat_ready online cap s" and here: "file_here sectors s path content"
  shows "\<exists>f s'. fat32_open D path 0 s = Some (0, f, s') \<and> fat_holds sectors online cap content f s' \<and> f_position f = 0"
proof -
  from here obtain sn ds e cs where sn: "fat32_to_short_name path = Some sn" "length sn = 11"
    and ds: "is_chain (fat_entry (sectors (disk s)) (g_fs s)) (g_fs s) ds" "hd ds = g_current_dir_cluster s"
    and e: "slot_get sn (dir_slots (sectors (disk s)) (g_fs s) ds) = Some e"
    and cs: "is_chain (fat_entry (sectors (disk s)) (g_fs s)) (g_fs s) cs" "hd cs = dirent_cluster (dirent_of_bytes e)"
    and fit: "unat (de_file_size (dirent_of_bytes e)) \<le> length cs * unat (bytes_per_cluster (g_fs s))"
    and c: "content = take (unat (de_file_size (dirent_of_bytes e))) (file_data (sectors (disk s)) (g_fs s) cs)"
    unfolding file_here_def by blast
  from block_device.find_entry_ok[OF dev r ds(1) sn] obtain s1 where
    s1: "fat32_find_entry D (hd ds) path s = Some (lookup_chain (sectors (disk s)) (g_fs s) sn ds, s1)"
    "block_device.io_to sectors online s (sectors (disk s)) (cluster_buffer s1) s1" by blast
  note io = block_device.io_toD[OF dev s1(2)]
  have "map_option fst (lookup_chain (sectors (disk s)) (g_fs s) sn ds) = Some (dirent_of_bytes e)"
    using block_device.lookup_chain_get[OF dev r, of sn ds] e by simp
  then obtain d off where l: "lookup_chain (sectors (disk s)) (g_fs s) sn ds = Some (dirent_of_bytes e, d, off)" by auto
  note hit = lookup_chain_hit[OF l]
  have d: "valid_cluster (g_fs s) d" using hit is_chain_valid[OF ds(1)] by blast
  have off: "unat off + 32 \<le> CLUSTER_BUFFER_SIZE"
  proof -
    let ?n = "unat (bytes_per_cluster (g_fs s) div 32)"
    note b = block_device.buffer_slots[where c = d, OF dev r refl refl]
    have "length (slots (cluster_data (sectors (disk s)) (g_fs s) d)) = ?n" unfolding b(1)[symmetric] by simp
    then obtain i where i: "i < ?n" "off = of_nat (i * 32)" using hit by auto
    moreover have "length (put_at (cluster_buffer s) 0 (cluster_data (sectors (disk s)) (g_fs s) d)) = CLUSTER_BUFFER_SIZE"
      using r block_device.bpc_facts(2)[OF dev r] block_device.length_cluster_ready[OF dev r, of d]
      by (simp add: length_put_at fat_ready_def buffers_ok_def)
    ultimately have "i * 32 + 32 \<le> CLUSTER_BUFFER_SIZE" using b(2) by linarith
    moreover have "unat off = i * 32" unfolding i(2) using i(1) b(5) by (intro unat_of_nat_u32) simp
    ultimately show ?thesis by simp
  qed
  define f where "f = finish_open 0 (blank_file\<lparr>f_dir_cluster := d, f_dir_entry_offset := off,
     f_first_cluster := dirent_cluster (dirent_of_bytes e), f_current_cluster := dirent_cluster (dirent_of_bytes e),
     f_file_size := de_file_size (dirent_of_bytes e), f_attr := de_attr (dirent_of_bytes e)\<rparr>)"
  have "fat32_open D path 0 s = Some (0, f, s1)"
    using s1(1) ds(2) by (simp add: fat32_open_def l open_existing_def f_def)
  moreover have "fat_holds sectors online cap content f s1"
    using block_device.io_to_ready[OF dev s1(2) r] cs fit c d off io(1,3)
    unfolding fat_holds_def by (intro exI[of _ cs]) (simp add: f_def finish_open_def blank_file_def)
  moreover have "f_position f = 0" by (simp add: f_def finish_open_def)
  ultimately show ?thesis by blast
qed


lemma puts_here [simp]:
  "fat_ready online cap (fat_puts x s) = fat_ready online cap s" "file_here sectors (fat_puts x s) path content = file_here sectors s path content"
  by (simp_all add: fat_ready_def buffers_ok_def fat_puts_def file_here_def)

lemma k_puts_simps [simp]: "k_fat (k_puts x s) = fat_puts x (k_fat s)" "k_tasks (k_puts x s) = k_tasks s"
  by (simp_all add: k_puts_def)

text \<open>The headers of a program the loader takes, in a file long enough.\<close>

definition program_ok :: "bytes \<Rightarrow> bool" where
  "program_ok content \<longleftrightarrow> (let h = elf_of_bytes (take 52 content) in 52 \<le> length content \<and> eh_magic h = ELF_MAGIC \<and>
     eh_class h = 1 \<and> eh_machine h = 3 \<and> eh_entry h < 0x80000000 \<and> elf_ok content h 0 (unat (eh_phnum h)))"

context readable_file
begin

lemma load_elf_ok:
  assumes op: "fat32_open D path 0 (k_fat s) = Some (0, f, fs)" and h: "holds f fs" and sk: "snd (fat32_seek f 0 0) = f"
    and ok: "program_ok content" and hd: "h = elf_of_bytes (take 52 content)" and wf: "ctx_wf ctx (k_vm s)"
    and room: "brk_of (k_vm s) + elf_need content h 0 (unat (eh_phnum h)) < 2 ^ 32"
  shows "\<exists>s'. load_elf D path ctx s = Some (0, Some (eh_entry h), s') \<and>
    seg_done ctx (elf_need content h 0 (unat (eh_phnum h))) (elf_pages content h 0 (unat (eh_phnum h))) s s' \<and>
    (\<forall>j < unat (eh_phnum h). loads content h j \<longrightarrow> seg_loaded ctx content (header_at content h j) (k_vm s'))"
proof -
  let ?n = "unat (eh_phnum h)"
  have ok': "52 \<le> length content" "eh_magic h = ELF_MAGIC" "eh_class h = 1" "eh_machine h = 3" "elf_ok content h 0 ?n"
    using ok by (simp_all add: program_ok_def Let_def hd)
  have "unat (0 :: u32) + unat (52 :: u32) \<le> length content" using ok'(1) by simp
  from read_at[OF h this, of "replicate 52 0"] obtain f1 fs1 where
    rd: "fat32_read D f (Some (replicate 52 0)) 52 fs = Some (52, f1, Some (take 52 content), fs1)" and h1: "holds f1 fs1"
    by (auto simp: sk)
  let ?s1 = "s\<lparr>k_fat := fs1\<rparr>"
  have p: "ctx_wf ctx (k_vm ?s1)" "holds f1 (k_fat ?s1)" "brk_of (k_vm ?s1) + elf_need content h 0 ?n < 2 ^ 32"
    using wf h1 room by simp_all
  from load_segments_ok[OF p(1,2) ok'(5) p(3)] obtain f2 s2 where
    ld: "load_segments D h ctx ?n 0 f1 ?s1 = Some (0, f2, s2)" "holds f2 (k_fat s2)"
    and d: "seg_done ctx (elf_need content h 0 ?n) (elf_pages content h 0 ?n) ?s1 s2"
    and l: "\<forall>j. 0 \<le> j \<and> j < 0 + ?n \<and> loads content h j \<longrightarrow> seg_loaded ctx content (header_at content h j) (k_vm s2)" by blast
  obtain r f3 fs3 where cl: "fat32_close D f2 (k_fat s2) = Some (r, f3, fs3)" using close_ok[OF ld(2)] by blast
  have "load_elf D path ctx s = Some (0, Some (eh_entry h), s2\<lparr>k_fat := fs3\<rparr>)"
    using op rd ok'(2-4) ld(1) cl by (simp add: load_elf_def k_close_def flip: hd)
  moreover have "seg_done ctx (elf_need content h 0 ?n) (elf_pages content h 0 ?n) s (s2\<lparr>k_fat := fs3\<rparr>)"
    using d by (simp add: seg_done_def)
  ultimately show ?thesis using l by auto
qed

end

text \<open>The stack is a segment of four pages of zeros.\<close>

definition stack_ph :: elf_program_header where
  "stack_ph = \<lparr>ph_type = PT_LOAD, ph_offset = 0, ph_vaddr = USER_STACK_TOP - USER_STACK_SIZE, ph_paddr = 0, ph_filesz = 0,
     ph_memsz = USER_STACK_SIZE, ph_flags = 0, ph_align = 0\<rparr>"

lemma stack_fits: "seg_fits content stack_ph" and stack_pages: "seg_pages stack_ph = 4"
  and stack_range: "seg_range stack_ph = {0xBFFFC ..< 0xC0000}"
  by (simp_all add: seg_fits_def seg_pages_def seg_range_def stack_ph_def USER_STACK_TOP_def USER_STACK_SIZE_def)

lemma exec_stack_ok:
  assumes wf: "ctx_wf ctx (k_vm s)" and room: "brk_of (k_vm s) + seg_need stack_ph < 2 ^ 32"
  shows "\<exists>a s'. exec_stack ctx s = (a, s') \<and> a \<noteq> 0 \<and> seg_done ctx (seg_need stack_ph) (seg_range stack_ph) s s' \<and>
    seg_loaded ctx content stack_ph (k_vm s') \<and> k_fat s' = k_fat s"
proof -
  obtain a v1 where al: "pg_kmalloc_aligned USER_STACK_SIZE 0x1000 (k_vm s) = (a, v1)" by fastforce
  have sz: "unat USER_STACK_SIZE = 4096 * seg_pages stack_ph" by (simp add: stack_pages USER_STACK_SIZE_def)
  have bs: "[] = take (unat (ph_filesz stack_ph)) (drop (unat (ph_offset stack_ph)) content)" by (simp add: stack_ph_def)
  note f = seg_loaded_fill[OF wf stack_fits room[unfolded seg_need_def add.assoc[symmetric]] sz al bs]
  let ?v = "map_segment ctx 4 (USER_STACK_TOP - USER_STACK_SIZE) a (zero_bytes a (unat USER_STACK_SIZE) v1)"
  have v: "map_segment ctx (seg_pages stack_ph) (ph_vaddr stack_ph AND 0xFFFFF000) a
      (fill (a + (ph_vaddr stack_ph AND 0xFFF)) [] (zero_bytes a (4096 * seg_pages stack_ph) v1)) = ?v"
    unfolding stack_pages by (simp add: stack_ph_def USER_STACK_TOP_def USER_STACK_SIZE_def)
  have "exec_stack ctx s = (a, set_vm ?v s)" using f(1) al by (simp add: exec_stack_def)
  moreover have "seg_done ctx (seg_need stack_ph) (seg_range stack_ph) s (set_vm ?v s)"
    using f(2-4,6-10)[unfolded v] by (simp add: seg_done_def seg_need_def) (simp add: set_vm_def)
  ultimately show ?thesis using f(1) f(5)[unfolded v] by auto
qed


lemma seg_done_vm: "seg_done ctx n P s s' \<Longrightarrow> k_tasks s' = (k_tasks s)\<lparr>vm := k_vm s'\<rparr>"
  by (simp only: seg_done_def)

lemma exec_ok:
  assumes dev: "block_device D sectors online cap" and rdy: "fat_ready online cap (k_fat s)"
    and here: "file_here sectors (k_fat s) path content" and ok: "program_ok content" and hd: "h = elf_of_bytes (take 52 content)"
    and wf: "ctx_wf ctx (k_vm s)" and c: "kernel_page_context (k_vm s) = ctx" "current_context (k_vm s) = ctx" "ctx \<noteq> 0"
    and t: "tasks (k_tasks s) (t_current (k_tasks s)) = Some tk"
    and st: "elf_pages content h 0 (unat (eh_phnum h)) \<inter> seg_range stack_ph = {}"
    and room: "brk_of (k_vm s) + (elf_need content h 0 (unat (eh_phnum h)) + seg_need stack_ph) < 2 ^ 32"
  shows "\<exists>s'. exec D path s = Some (Enter_User (eh_entry h) (USER_STACK_TOP - 4), s') \<and>
    (\<exists>s2. seg_done ctx (elf_need content h 0 (unat (eh_phnum h)) + seg_need stack_ph)
       (elf_pages content h 0 (unat (eh_phnum h)) \<union> seg_range stack_ph) s s2 \<and> k_vm s' = k_vm s2) \<and>
    (\<forall>j < unat (eh_phnum h). loads content h j \<longrightarrow> seg_loaded ctx content (header_at content h j) (k_vm s')) \<and>
    seg_loaded ctx content stack_ph (k_vm s')"
proof -
  let ?n = "unat (eh_phnum h)"
  let ?s0 = "k_puts (ascii ''exec: loading '' @ cstr path @ [0x0A]) s"
  have rf: "readable_file D (fat_holds sectors online cap content) content" by (rule readable_fat[OF dev])
  have "fat_ready online cap (k_fat ?s0)" "file_here sectors (k_fat ?s0) path content" using rdy here by simp_all
  from fat32_open_existing[OF dev this] obtain f fs where op: "fat32_open D path 0 (k_fat ?s0) = Some (0, f, fs)"
    and h: "fat_holds sectors online cap content f fs" and p: "f_position f = 0" by blast
  have "f_is_open f \<noteq> 0" using h by (auto simp: fat_holds_def)
  then have sk: "snd (fat32_seek f 0 0) = f" using p by (simp add: fat32_seek_def)
  have wf0: "ctx_wf ctx (k_vm ?s0)" "brk_of (k_vm ?s0) + elf_need content h 0 ?n < 2 ^ 32" using wf room by simp_all
  from readable_file.load_elf_ok[OF rf op h sk ok hd wf0] obtain s1 where
    s1: "load_elf D path ctx ?s0 = Some (0, Some (eh_entry h), s1)"
    and d1: "seg_done ctx (elf_need content h 0 ?n) (elf_pages content h 0 ?n) ?s0 s1"
    and l1: "\<forall>j < ?n. loads content h j \<longrightarrow> seg_loaded ctx content (header_at content h j) (k_vm s1)" by blast
  have b: "brk_of (k_vm s1) \<le> brk_of (k_vm s) + elf_need content h 0 ?n" using d1 by (simp add: seg_done_def)
  have wf1: "ctx_wf ctx (k_vm s1)" "brk_of (k_vm s1) + seg_need stack_ph < 2 ^ 32"
    using d1 room b by (simp_all add: seg_done_def)
  from exec_stack_ok[OF wf1, of content] obtain a s2 where s2: "exec_stack ctx s1 = (a, s2)" "a \<noteq> 0"
    and d2: "seg_done ctx (seg_need stack_ph) (seg_range stack_ph) s1 s2" and ls: "seg_loaded ctx content stack_ph (k_vm s2)"
    by blast
  have d: "seg_done ctx (elf_need content h 0 ?n + seg_need stack_ph) (elf_pages content h 0 ?n \<union> seg_range stack_ph) s s2"
    using seg_done_trans[OF d1 d2] by (simp add: seg_done_def)
  have cur: "current_context (k_vm s2) = ctx" using d c(2) by (simp add: seg_done_def)
  have tk: "tasks (k_tasks s2) = tasks (k_tasks s)" "t_current (k_tasks s2) = t_current (k_tasks s)"
    using arg_cong[OF seg_done_vm[OF d], of tasks] arg_cong[OF seg_done_vm[OF d], of t_current] by simp_all
  have okn: "elf_ok content h 0 ?n" and en: "eh_entry h < 0x80000000" using ok by (simp_all add: program_ok_def Let_def hd)
  obtain buf where buf: "itoa (eh_entry h) (replicate 16 0) 16 = Some buf"
    using itoa_printable[of "eh_entry h" 16] en by (auto simp: printable_def)
  have sw: "paging_switch_context ctx (k_vm s2) = k_vm s2" using cur by (simp add: paging_switch_context_def)
  obtain s3 where s3: "exec D path s = Some (Enter_User (eh_entry h) (USER_STACK_TOP - 4), s3)" "k_vm s3 = k_vm s2"
    using c s1 s2 t tk buf sw by (simp add: exec_def paging_create_context_def task_current_def Let_def)
  have keep: "seg_loaded ctx content (header_at content h j) (k_vm s2)" if j: "j < ?n" "loads content h j" for j
  proof (rule seg_loaded_keep[OF _ d2])
    show "seg_loaded ctx content (header_at content h j) (k_vm s1)" using l1 j by blast
    show "seg_range (header_at content h j) \<inter> seg_range stack_ph = {}" using st j by (auto simp: elf_pages_def)
    show "seg_fits content (header_at content h j)" using okn j by (auto simp: elf_ok_def)
  qed
  show ?thesis using s3 d keep ls by (intro exI[of _ s3]) auto
qed

section \<open>Properties of the loader\<close>



text \<open>A volume with a small program: one segment of eight bytes at 0x400000, four of them in the file.\<close>

definition small_program :: bytes where
  "small_program = [0x7F, 0x45, 0x4C, 0x46, 1, 1, 1, 0, 0, 0, 0, 0, 0, 0, 0, 0,
     2, 0, 3, 0, 1, 0, 0, 0, 0, 0, 0x40, 0, 52, 0, 0, 0, 0, 0, 0, 0, 0, 0, 0, 0, 52, 0, 32, 0, 1, 0, 0, 0, 0, 0, 0, 0,
     1, 0, 0, 0, 84, 0, 0, 0, 0, 0, 0x40, 0, 0, 0, 0x40, 0, 4, 0, 0, 0, 8, 0, 0, 0, 5, 0, 0, 0, 0, 16, 0, 0,
     0xCD, 0x80, 0xEB, 0xFE]"

definition program_dirent :: bytes where
  "program_dirent = ascii ''INIT       '' @ [FAT32_ATTR_ARCHIVE] @
     [0, 0, 0, 0, 0, 0, 0, 0, 0, 0, 0, 0, 0, 0, 3, 0, 88, 0, 0, 0]"

definition program_volume :: "ata_dev fat_state" where
  "program_volume = small_volume\<lparr>disk := blank_drive\<lparr>a_disk :=
     (\<lambda>l. if l = 32 \<or> l = 33 then [0, 0, 0, 0, 0, 0, 0, 0] @ le32 FAT32_EOC_MAX @ le32 FAT32_EOC_MAX @ replicate 496 0
          else if l = 34 then program_dirent @ replicate 480 0
          else if l = 35 then small_program @ replicate 424 0 else replicate 512 0)\<rparr>\<rparr>"

lemma program_volume_ready: "fat_ready pio.hw_online 0x10000000 program_volume"
  using small_volume_ready
  by (auto simp: fat_ready_def program_volume_def pio.hw_online_def ata_ready_def blank_drive_def
      buffers_ok_def program_dirent_def small_program_def ascii_def le32_def)

lemma program_volume_chain: "c = 2 \<or> c = 3 \<Longrightarrow> is_chain (fat_entry (pio.hw_sectors (disk program_volume)) small_fs) small_fs [c]"
  by (auto simp: valid_cluster_def small_fs_def fat_copy_def fat_lba_def program_volume_def pio.hw_sectors_def get32_def le32_def)

lemma program_file: "file_here pio.hw_sectors program_volume (ascii ''init'' @ [0]) small_program"
proof -
  let ?S = "pio.hw_sectors (disk program_volume)"
  have fs: "g_fs program_volume = small_fs" "g_current_dir_cluster program_volume = 2"
    by (simp_all add: program_volume_def small_volume_def)
  have sn: "fat32_to_short_name (ascii ''init'' @ [0]) = Some (ascii ''INIT       '')" by code_simp
  have d: "cluster_data ?S small_fs 2 = program_dirent @ replicate 480 0" "cluster_data ?S small_fs 3 = small_program @ replicate 424 0"
    by (simp_all add: cluster_data_def small_fs_def cluster_lba_def program_volume_def pio.hw_sectors_def)
  have len: "length program_dirent = 32" by (simp add: program_dirent_def ascii_def)
  have "slots (program_dirent @ replicate 480 0) = program_dirent # slots (replicate 480 0)"
    using slots_append[of program_dirent 1 "replicate 480 0"] len by (simp add: slots_def)
  moreover have "live program_dirent" "take 11 program_dirent = ascii ''INIT       ''" "program_dirent ! 0 \<noteq> 0"
    by (simp_all add: program_dirent_def ascii_def live_def)
  ultimately have g: "slot_get (ascii ''INIT       '') (dir_slots ?S small_fs [2]) = Some program_dirent"
    by (simp add: dir_slots_def file_data_def d)
  have e: "dirent_cluster (dirent_of_bytes program_dirent) = 3" "de_file_size (dirent_of_bytes program_dirent) = 88"
    by (simp_all add: dirent_cluster_def dirent_of_bytes_def program_dirent_def ascii_def get16_def get32_def)
  have "small_program = take 88 (file_data ?S small_fs [3])" "length (ascii ''INIT       '') = 11"
    by (simp_all add: file_data_def d small_program_def ascii_def)
  moreover have "88 \<le> length [3 :: u32] * unat (bytes_per_cluster small_fs)" by (simp add: small_fs_def)
  ultimately show ?thesis unfolding file_here_def fs
    using sn g program_volume_chain[of 2] program_volume_chain[of 3] e
    by (intro exI[of _ "ascii ''INIT       ''"] exI[of _ "[2]"] exI[of _ program_dirent] exI[of _ "[3]"] conjI) simp_all
qed

lemma small_program_header: "elf_of_bytes (take 52 small_program) = \<lparr>eh_magic = ELF_MAGIC, eh_class = 1, eh_data = 1, eh_version = 1,
    eh_pad = [0, 0, 0, 0, 0, 0, 0, 0, 0], eh_type = 2, eh_machine = 3, eh_version2 = 1, eh_entry = 0x400000, eh_phoff = 52, eh_shoff = 0,
    eh_flags = 0, eh_ehsize = 52, eh_phentsize = 32, eh_phnum = 1, eh_shentsize = 0, eh_shnum = 0, eh_shstrndx = 0\<rparr>"
  by (simp add: elf_of_bytes_def small_program_def get8_def get16_def get32_def ELF_MAGIC_def)

lemma small_program_segment:
  "eh_phoff h = 52 \<Longrightarrow> header_at small_program h 0 = \<lparr>ph_type = PT_LOAD, ph_offset = 84, ph_vaddr = 0x400000, ph_paddr = 0x400000,
    ph_filesz = 4, ph_memsz = 8, ph_flags = 5, ph_align = 0x1000\<rparr>"
  by (simp add: header_at_def header_pos_def ph_of_bytes_def small_program_def get32_def PT_LOAD_def)



end
