(* ===== verification/Terminal.thy ===== *)
theory Terminal
  imports Kernel_Libc
begin

text \<open>
  The terminal on the linear frame buffer: \<open>src/drivers/fb_terminal.c\<close> and \<open>src/drivers/font.c\<close>.  Video
  memory is part of a memory of bytes; text is drawn glyph by glyph, the mouse pointer over a saved background.
  Coordinates are 32 bit integers, those of the mouse signed ones.
\<close>

section \<open>The font\<close>

definition font8x8_basic :: "bytes list" where
  "font8x8_basic = [
     [0, 0, 0, 0, 0, 0, 0, 0], [0, 0, 0, 0, 0, 0, 0, 0], [0, 0, 0, 0, 0, 0, 0, 0],
     [0, 0, 0, 0, 0, 0, 0, 0], [0, 0, 0, 0, 0, 0, 0, 0], [0, 0, 0, 0, 0, 0, 0, 0],
     [0, 0, 0, 0, 0, 0, 0, 0], [0, 0, 0, 0, 0, 0, 0, 0], [0, 0, 0, 0, 0, 0, 0, 0],
     [0, 0, 0, 0, 0, 0, 0, 0], [0, 0, 0, 0, 0, 0, 0, 0], [0, 0, 0, 0, 0, 0, 0, 0],
     [0, 0, 0, 0, 0, 0, 0, 0], [0, 0, 0, 0, 0, 0, 0, 0], [0, 0, 0, 0, 0, 0, 0, 0],
     [0, 0, 0, 0, 0, 0, 0, 0], [0, 0, 0, 0, 0, 0, 0, 0], [0, 0, 0, 0, 0, 0, 0, 0],
     [0, 0, 0, 0, 0, 0, 0, 0], [0, 0, 0, 0, 0, 0, 0, 0], [0, 0, 0, 0, 0, 0, 0, 0],
     [0, 0, 0, 0, 0, 0, 0, 0], [0, 0, 0, 0, 0, 0, 0, 0], [0, 0, 0, 0, 0, 0, 0, 0],
     [0, 0, 0, 0, 0, 0, 0, 0], [0, 0, 0, 0, 0, 0, 0, 0], [0, 0, 0, 0, 0, 0, 0, 0],
     [0, 0, 0, 0, 0, 0, 0, 0], [0, 0, 0, 0, 0, 0, 0, 0], [0, 0, 0, 0, 0, 0, 0, 0],
     [0, 0, 0, 0, 0, 0, 0, 0], [0, 0, 0, 0, 0, 0, 0, 0], [0, 0, 0, 0, 0, 0, 0, 0],
     [0x10, 0x38, 0x38, 0x10, 0x10, 0, 0x10, 0], [0x24, 0x24, 0x24, 0, 0, 0, 0, 0], [0x24, 0x24, 0x7E, 0x24, 0x7E, 0x24, 0x24, 0],
     [0x18, 0x3E, 0x40, 0x3C, 0x02, 0x7C, 0x18, 0], [0, 0x62, 0x64, 0x08, 0x10, 0x26, 0x46, 0], [0x30, 0x48, 0x30, 0x56, 0x88, 0x88, 0x76, 0],
     [0x10, 0x10, 0x20, 0, 0, 0, 0, 0], [0x10, 0x20, 0x40, 0x40, 0x40, 0x20, 0x10, 0], [0x20, 0x10, 0x08, 0x08, 0x08, 0x10, 0x20, 0],
     [0, 0x44, 0x38, 0xFE, 0x38, 0x44, 0, 0], [0, 0x10, 0x10, 0x7C, 0x10, 0x10, 0, 0], [0, 0, 0, 0, 0, 0x10, 0x10, 0x20],
     [0, 0, 0, 0x7E, 0, 0, 0, 0], [0, 0, 0, 0, 0, 0x10, 0x10, 0], [0, 0x02, 0x04, 0x08, 0x10, 0x20, 0x40, 0],
     [0x3C, 0x42, 0x46, 0x4A, 0x52, 0x62, 0x3C, 0], [0x10, 0x30, 0x50, 0x10, 0x10, 0x10, 0x7C, 0], [0x3C, 0x42, 0x02, 0x0C, 0x30, 0x42, 0x7E, 0],
     [0x3C, 0x42, 0x02, 0x1C, 0x02, 0x42, 0x3C, 0], [0x08, 0x18, 0x28, 0x48, 0xFE, 0x08, 0x1C, 0], [0x7E, 0x40, 0x7C, 0x02, 0x02, 0x42, 0x3C, 0],
     [0x1C, 0x20, 0x40, 0x7C, 0x42, 0x42, 0x3C, 0], [0x7E, 0x42, 0x04, 0x08, 0x10, 0x10, 0x10, 0], [0x3C, 0x42, 0x42, 0x3C, 0x42, 0x42, 0x3C, 0],
     [0x3C, 0x42, 0x42, 0x3E, 0x02, 0x04, 0x38, 0], [0, 0x10, 0x10, 0, 0, 0x10, 0x10, 0], [0, 0x10, 0x10, 0, 0, 0x10, 0x10, 0x20],
     [0x08, 0x10, 0x20, 0x40, 0x20, 0x10, 0x08, 0], [0, 0, 0x7E, 0, 0, 0x7E, 0, 0], [0x10, 0x08, 0x04, 0x02, 0x04, 0x08, 0x10, 0],
     [0x3C, 0x42, 0x02, 0x04, 0x08, 0, 0x08, 0], [0x3C, 0x42, 0x5E, 0x52, 0x5E, 0x40, 0x3C, 0], [0x18, 0x24, 0x42, 0x42, 0x7E, 0x42, 0x42, 0],
     [0x7C, 0x22, 0x22, 0x3C, 0x22, 0x22, 0x7C, 0], [0x1C, 0x22, 0x40, 0x40, 0x40, 0x22, 0x1C, 0], [0x78, 0x24, 0x22, 0x22, 0x22, 0x24, 0x78, 0],
     [0x7E, 0x22, 0x28, 0x38, 0x28, 0x22, 0x7E, 0], [0x7E, 0x22, 0x28, 0x38, 0x28, 0x20, 0x70, 0], [0x1C, 0x22, 0x40, 0x40, 0x4E, 0x22, 0x1E, 0],
     [0x42, 0x42, 0x42, 0x7E, 0x42, 0x42, 0x42, 0], [0x38, 0x10, 0x10, 0x10, 0x10, 0x10, 0x38, 0], [0x0E, 0x04, 0x04, 0x04, 0x44, 0x44, 0x38, 0],
     [0x62, 0x24, 0x28, 0x30, 0x28, 0x24, 0x63, 0], [0x70, 0x20, 0x20, 0x20, 0x20, 0x22, 0x7E, 0], [0x63, 0x55, 0x49, 0x41, 0x41, 0x41, 0x41, 0],
     [0x62, 0x52, 0x4A, 0x46, 0x42, 0x42, 0x42, 0], [0x18, 0x24, 0x42, 0x42, 0x42, 0x24, 0x18, 0], [0x7C, 0x22, 0x22, 0x3C, 0x20, 0x20, 0x70, 0],
     [0x3C, 0x42, 0x42, 0x42, 0x4A, 0x3C, 0x03, 0], [0x7C, 0x22, 0x22, 0x3C, 0x28, 0x24, 0x72, 0], [0x3C, 0x42, 0x40, 0x3C, 0x02, 0x42, 0x3C, 0],
     [0x7F, 0x49, 0x08, 0x08, 0x08, 0x08, 0x1C, 0], [0x42, 0x42, 0x42, 0x42, 0x42, 0x42, 0x3C, 0], [0x41, 0x41, 0x41, 0x41, 0x22, 0x14, 0x08, 0],
     [0x41, 0x41, 0x41, 0x49, 0x49, 0x49, 0x36, 0], [0x41, 0x22, 0x14, 0x08, 0x14, 0x22, 0x41, 0], [0x41, 0x22, 0x14, 0x08, 0x08, 0x08, 0x1C, 0],
     [0x7F, 0x42, 0x04, 0x08, 0x10, 0x21, 0x7F, 0], [0x78, 0x40, 0x40, 0x40, 0x40, 0x40, 0x78, 0], [0x80, 0x40, 0x20, 0x10, 0x08, 0x04, 0x02, 0],
     [0x78, 0x08, 0x08, 0x08, 0x08, 0x08, 0x78, 0], [0x10, 0x28, 0x44, 0x82, 0, 0, 0, 0], [0, 0, 0, 0, 0, 0, 0, 0xFF],
     [0x10, 0x10, 0x08, 0, 0, 0, 0, 0], [0, 0, 0x3C, 0x02, 0x3E, 0x42, 0x3F, 0], [0x60, 0x20, 0x20, 0x2E, 0x31, 0x31, 0x2E, 0],
     [0, 0, 0x3C, 0x42, 0x40, 0x42, 0x3C, 0], [0x06, 0x02, 0x02, 0x3A, 0x46, 0x46, 0x3B, 0], [0, 0, 0x3C, 0x42, 0x7E, 0x40, 0x3C, 0],
     [0x0C, 0x12, 0x10, 0x38, 0x10, 0x10, 0x38, 0], [0, 0, 0x3D, 0x42, 0x42, 0x3E, 0x02, 0x7C], [0x60, 0x20, 0x2C, 0x32, 0x22, 0x22, 0x62, 0],
     [0x10, 0, 0x30, 0x10, 0x10, 0x10, 0x38, 0], [0x02, 0, 0x06, 0x02, 0x02, 0x42, 0x42, 0x3C], [0x60, 0x20, 0x24, 0x28, 0x30, 0x28, 0x26, 0],
     [0x30, 0x10, 0x10, 0x10, 0x10, 0x10, 0x38, 0], [0, 0, 0x76, 0x49, 0x49, 0x49, 0x49, 0], [0, 0, 0x5C, 0x62, 0x42, 0x42, 0x42, 0],
     [0, 0, 0x3C, 0x42, 0x42, 0x42, 0x3C, 0], [0, 0, 0x6C, 0x32, 0x32, 0x2C, 0x20, 0x70], [0, 0, 0x36, 0x4C, 0x4C, 0x34, 0x04, 0x0E],
     [0, 0, 0x6C, 0x32, 0x22, 0x20, 0x70, 0], [0, 0, 0x3E, 0x40, 0x3C, 0x02, 0x7C, 0], [0x10, 0x10, 0x7C, 0x10, 0x10, 0x12, 0x0C, 0],
     [0, 0, 0x42, 0x42, 0x42, 0x46, 0x3A, 0], [0, 0, 0x41, 0x41, 0x22, 0x14, 0x08, 0], [0, 0, 0x41, 0x49, 0x49, 0x49, 0x36, 0],
     [0, 0, 0x44, 0x28, 0x10, 0x28, 0x44, 0], [0, 0, 0x42, 0x42, 0x42, 0x3E, 0x02, 0x7C], [0, 0, 0x7C, 0x08, 0x10, 0x20, 0x7C, 0],
     [0x0C, 0x10, 0x10, 0x60, 0x10, 0x10, 0x0C, 0], [0x10, 0x10, 0x10, 0, 0x10, 0x10, 0x10, 0], [0x30, 0x08, 0x08, 0x06, 0x08, 0x08, 0x30, 0],
     [0x32, 0x4C, 0, 0, 0, 0, 0, 0], [0, 0x08, 0x14, 0x22, 0x41, 0x41, 0x7F, 0]]"

definition FONT_WIDTH :: u32 where "FONT_WIDTH = 8"
definition FONT_HEIGHT :: u32 where "FONT_HEIGHT = 8"
definition FONT_SCALE :: u32 where "FONT_SCALE = 2"
definition SCALED_FONT_WIDTH :: u32 where "SCALED_FONT_WIDTH = FONT_WIDTH * FONT_SCALE"
definition SCALED_FONT_HEIGHT :: u32 where "SCALED_FONT_HEIGHT = FONT_HEIGHT * FONT_SCALE"
definition SCALED_FONT_Y_STEP :: u32 where "SCALED_FONT_Y_STEP = FONT_HEIGHT * FONT_SCALE"

definition TERM_COLOR_BG :: u32 where "TERM_COLOR_BG = 0x000B001F"
definition TERM_COLOR_FG :: u32 where "TERM_COLOR_FG = 0x00FFD9E0"
definition TERM_COLOR_OK :: u32 where "TERM_COLOR_OK = 0x0032FF6A"
definition TERM_COLOR_FAIL :: u32 where "TERM_COLOR_FAIL = 0x00FF3278"

abbreviation (input) CURSOR_SIZE :: nat where "CURSOR_SIZE \<equiv> 11"

section \<open>State and pixels\<close>

record fb_term =
  vram :: "u32 \<Rightarrow> u8"
  fb :: u32
  fb_width :: u32
  fb_height :: u32
  fb_pitch :: u32
  fb_bpp :: u32
  cursor_x :: u32
  cursor_y :: u32
  term_fg :: u32
  term_bg :: u32
  cursor_saved :: "u32 list"
  last_mouse_x :: int
  last_mouse_y :: int

definition term_boot :: "(u32 \<Rightarrow> u8) \<Rightarrow> fb_term" where
  "term_boot m = \<lparr>vram = m, fb = 0, fb_width = 0, fb_height = 0, fb_pitch = 0, fb_bpp = 0, cursor_x = 0, cursor_y = 0,
     term_fg = TERM_COLOR_FG, term_bg = TERM_COLOR_BG, cursor_saved = replicate (CURSOR_SIZE * CURSOR_SIZE) 0,
     last_mouse_x = -1, last_mouse_y = -1\<rparr>"

definition pixel_address :: "u32 \<Rightarrow> u32 \<Rightarrow> fb_term \<Rightarrow> u32" where
  "pixel_address x y t = fb t + (y * fb_pitch t + x * (fb_bpp t div 8))"

definition putpixel :: "u32 \<Rightarrow> u32 \<Rightarrow> u32 \<Rightarrow> fb_term \<Rightarrow> fb_term" where
  "putpixel x y color t =
     (if x \<ge> fb_width t \<or> y \<ge> fb_height t then t
      else (let p = pixel_address x y t in
        if fb_bpp t = 32 then
          t\<lparr>vram := (vram t)(p := ucast (drop_bit 16 color AND 0xFF), p + 1 := ucast (drop_bit 8 color AND 0xFF),
             p + 2 := ucast (color AND 0xFF), p + 3 := ucast (drop_bit 24 color AND 0xFF))\<rparr>
        else if fb_bpp t = 24 then
          t\<lparr>vram := (vram t)(p := ucast (drop_bit 16 color AND 0xFF), p + 1 := ucast (drop_bit 8 color AND 0xFF),
             p + 2 := ucast (color AND 0xFF))\<rparr>
        else t))"

definition getpixel :: "u32 \<Rightarrow> u32 \<Rightarrow> fb_term \<Rightarrow> u32" where
  "getpixel x y t =
     (if x \<ge> fb_width t \<or> y \<ge> fb_height t then 0
      else (let p = pixel_address x y t; b = (\<lambda>k. ucast (vram t (p + k)) :: u32) in
        if fb_bpp t = 32 then push_bit 24 (b 3) OR push_bit 16 (b 0) OR push_bit 8 (b 1) OR b 2
        else if fb_bpp t = 24 then push_bit 16 (b 0) OR push_bit 8 (b 1) OR b 2
        else 0))"

section \<open>Text\<close>

text \<open>A set bit of a glyph becomes a square of \<open>FONT_SCALE\<close> by \<open>FONT_SCALE\<close> pixels.  The font has 128
  glyphs: a character from 128 on indexes past its end.\<close>

definition draw_square :: "u32 \<Rightarrow> u32 \<Rightarrow> u32 \<Rightarrow> fb_term \<Rightarrow> fb_term" where
  "draw_square x y color =
     fold (\<lambda>sy. fold (\<lambda>sx. putpixel (x + of_nat sx) (y + of_nat sy) color) [0..<unat FONT_SCALE]) [0..<unat FONT_SCALE]"

definition draw_char :: "u8 \<Rightarrow> u32 \<Rightarrow> u32 \<Rightarrow> fb_term \<Rightarrow> fb_term option" where
  "draw_char ch x y t =
     (if unat ch < length font8x8_basic then
        (let glyph = font8x8_basic ! unat ch in
         Some (fold (\<lambda>row. let line = glyph ! row in
           fold (\<lambda>col. let color = (if bit line (7 - col) then term_fg t else term_bg t) in
             draw_square (x + of_nat col * FONT_SCALE) (y + of_nat row * FONT_SCALE) color)
             [0..<unat FONT_WIDTH]) [0..<unat FONT_HEIGHT] t))
      else None)"

definition term_putc :: "u8 \<Rightarrow> fb_term \<Rightarrow> fb_term option" where
  "term_putc c t =
     (if c = 10 then
        (let t = t\<lparr>cursor_x := 0, cursor_y := cursor_y t + SCALED_FONT_Y_STEP\<rparr> in
         Some (if cursor_y t + SCALED_FONT_HEIGHT > fb_height t then t\<lparr>cursor_y := 0\<rparr> else t))
      else if c = 13 then Some (t\<lparr>cursor_x := 0\<rparr>)
      else if c = 8 \<or> c = 127 then
        (if cursor_x t \<ge> SCALED_FONT_WIDTH then
           (let t = t\<lparr>cursor_x := cursor_x t - SCALED_FONT_WIDTH\<rparr> in draw_char 32 (cursor_x t) (cursor_y t) t)
         else if cursor_y t \<ge> SCALED_FONT_Y_STEP then
           (let t = t\<lparr>cursor_y := cursor_y t - SCALED_FONT_Y_STEP, cursor_x := fb_width t - SCALED_FONT_WIDTH\<rparr>
            in draw_char 32 (cursor_x t) (cursor_y t) t)
         else Some t)
      else if c < 32 then Some t
      else (let t = (if cursor_x t + SCALED_FONT_WIDTH > fb_width t
                     then t\<lparr>cursor_x := 0, cursor_y := cursor_y t + SCALED_FONT_Y_STEP\<rparr> else t);
                t = (if cursor_y t + SCALED_FONT_HEIGHT > fb_height t then t\<lparr>cursor_y := 0\<rparr> else t)
            in map_option (\<lambda>t. t\<lparr>cursor_x := cursor_x t + SCALED_FONT_WIDTH\<rparr>) (draw_char c (cursor_x t) (cursor_y t) t)))"

fun term_puts :: "bytes \<Rightarrow> fb_term \<Rightarrow> fb_term option" where
  "term_puts [] t = None"
| "term_puts (c # cs) t = (if c = 0 then Some t else Option.bind (term_putc c t) (term_puts cs))"

definition term_clear :: "fb_term \<Rightarrow> fb_term" where
  "term_clear t =
     (let t = fold (\<lambda>y. fold (\<lambda>x. putpixel (of_nat x) (of_nat y) TERM_COLOR_BG) [0..<unat (fb_width t)]) [0..<unat (fb_height t)] t
      in t\<lparr>cursor_x := 0, cursor_y := 0, last_mouse_x := -1, last_mouse_y := -1\<rparr>)"

definition term_init_fb :: "u32 \<Rightarrow> u32 \<Rightarrow> u32 \<Rightarrow> u32 \<Rightarrow> u32 \<Rightarrow> fb_term \<Rightarrow> fb_term" where
  "term_init_fb addr w h pitch bpp t =
     term_clear (t\<lparr>fb := addr, fb_width := w, fb_height := h, fb_pitch := pitch, fb_bpp := bpp\<rparr>)"

definition term_init :: "fb_term \<Rightarrow> fb_term" where
  "term_init t = term_clear t"

definition term_set_color :: "u32 \<Rightarrow> fb_term \<Rightarrow> fb_term" where
  "term_set_color c t = t\<lparr>term_fg := c\<rparr>"

definition term_reset_color :: "fb_term \<Rightarrow> fb_term" where
  "term_reset_color t = t\<lparr>term_fg := TERM_COLOR_FG\<rparr>"

section \<open>The mouse pointer\<close>

definition save_cursor_background :: "int \<Rightarrow> int \<Rightarrow> fb_term \<Rightarrow> fb_term" where
  "save_cursor_background x y t =
     t\<lparr>cursor_saved := concat (map (\<lambda>dy. map (\<lambda>dx. getpixel (word_of_int (x + int dx)) (word_of_int (y + int dy)) t)
        [0..<CURSOR_SIZE]) [0..<CURSOR_SIZE])\<rparr>"

definition restore_cursor_background :: "int \<Rightarrow> int \<Rightarrow> fb_term \<Rightarrow> fb_term" where
  "restore_cursor_background x y t =
     (if x < 0 \<or> y < 0 then t
      else fold (\<lambda>dy. fold (\<lambda>dx. putpixel (word_of_int (x + int dx)) (word_of_int (y + int dy))
             (cursor_saved t ! (dy * CURSOR_SIZE + dx))) [0..<CURSOR_SIZE]) [0..<CURSOR_SIZE] t)"

definition cursor_pattern :: "nat list list" where
  "cursor_pattern = [
     [0,0,0,0,0,0,0,0,0,0,0],
     [0,1,0,0,0,0,0,0,0,0,0],
     [0,1,2,0,0,0,0,0,0,0,0],
     [0,1,2,2,0,0,0,0,0,0,0],
     [0,1,2,2,2,0,0,0,0,0,0],
     [0,1,2,2,2,2,0,0,0,0,0],
     [0,1,2,2,2,2,2,0,0,0,0],
     [0,1,2,2,2,2,2,2,0,0,0],
     [0,1,2,2,2,2,2,2,2,0,0],
     [0,1,2,2,2,1,1,1,1,1,0],
     [0,1,2,0,1,2,1,0,0,0,0]]"

definition draw_cursor_shape :: "int \<Rightarrow> int \<Rightarrow> fb_term \<Rightarrow> fb_term" where
  "draw_cursor_shape x y =
     fold (\<lambda>dy. fold (\<lambda>dx.
       if cursor_pattern ! dy ! dx = 1 then putpixel (word_of_int (x + int dx)) (word_of_int (y + int dy)) 0x000000
       else if cursor_pattern ! dy ! dx = 2 then putpixel (word_of_int (x + int dx)) (word_of_int (y + int dy)) 0xFF44FF
       else id) [0..<CURSOR_SIZE]) [0..<CURSOR_SIZE]"

text \<open>The position of the mouse is passed in.\<close>

definition draw_mouse :: "int \<Rightarrow> int \<Rightarrow> fb_term \<Rightarrow> fb_term" where
  "draw_mouse mouse_x mouse_y t =
     (let t = (if last_mouse_x t \<ge> 0 \<and> last_mouse_y t \<ge> 0
               then restore_cursor_background (last_mouse_x t) (last_mouse_y t) t else t);
          t = draw_cursor_shape mouse_x mouse_y (save_cursor_background mouse_x mouse_y t)
      in t\<lparr>last_mouse_x := mouse_x, last_mouse_y := mouse_y\<rparr>)"


section \<open>A grid of pixels\<close>

text \<open>What drawing needs of the pixels: reading gives the colour last written, as far as the mode shows it.\<close>

locale pixel_grid =
  fixes put :: "u32 \<Rightarrow> u32 \<Rightarrow> u32 \<Rightarrow> 's \<Rightarrow> 's" and get :: "u32 \<Rightarrow> u32 \<Rightarrow> 's \<Rightarrow> u32"
    and inside :: "u32 \<Rightarrow> u32 \<Rightarrow> 's \<Rightarrow> bool" and ok :: "'s \<Rightarrow> bool" and shown :: "'s \<Rightarrow> u32 \<Rightarrow> u32"
  assumes put_ok: "ok s \<Longrightarrow> ok (put x y c s)"
    and put_inside: "inside x' y' (put x y c s) = inside x' y' s"
    and put_shown: "shown (put x y c s) = shown s"
    and get_put: "ok s \<Longrightarrow> get x' y' (put x y c s) = (if x' = x \<and> y' = y \<and> inside x y s then shown s c else get x' y' s)"
begin

definition plot :: "((u32 \<times> u32) \<times> u32) list \<Rightarrow> 's \<Rightarrow> 's" where
  "plot ps = fold (\<lambda>((x, y), c). put x y c) ps"

lemma plot_keeps: "(ok s \<longrightarrow> ok (plot ps s)) \<and> inside x y (plot ps s) = inside x y s \<and> shown (plot ps s) = shown s"
proof (induction ps arbitrary: s)
  case (Cons p ps)
  obtain a b c where p: "p = ((a, b), c)" by (metis prod.exhaust)
  then have "plot (p # ps) s = plot ps (put a b c s)" by (simp add: plot_def)
  then show ?case using Cons[of "put a b c s"] put_ok by (simp add: put_inside put_shown)
qed (simp add: plot_def)

text \<open>A drawing shows at every pixel what it puts there last.\<close>

lemma get_plot:
  "ok s \<Longrightarrow> get x y (plot ps s) =
    (if inside x y s then (case map_of (rev ps) (x, y) of Some c \<Rightarrow> shown s c | None \<Rightarrow> get x y s) else get x y s)"
proof (induction ps arbitrary: s)
  case (Cons p ps)
  obtain a b c where p: "p = ((a, b), c)" by (metis prod.exhaust)
  have "get x y (plot (p # ps) s) = get x y (plot ps (put a b c s))" by (simp add: plot_def p)
  then show ?case
    using Cons.IH[OF put_ok[OF Cons.prems, of a b c]]
    by (auto simp: put_inside put_shown get_put[OF Cons.prems] p map_add_def split: option.splits)
qed (simp add: plot_def)

text \<open>If the colours of a drawing are those of a picture \<open>f\<close>, it shows \<open>f\<close> wherever it draws.\<close>

lemma get_plot_picture:
  assumes "ok s" and "\<And>a b c. ((a, b), c) \<in> set ps \<Longrightarrow> c = f a b"
  shows "get x y (plot ps s) = (if inside x y s \<and> (x, y) \<in> fst ` set ps then shown s (f x y) else get x y s)"
proof (cases "map_of (rev ps) (x, y)")
  case None
  then have "(x, y) \<notin> fst ` set ps" by (simp add: map_of_eq_None_iff)
  then show ?thesis using None get_plot[OF assms(1)] by simp
next
  case (Some c)
  then have m: "((x, y), c) \<in> set ps" using map_of_SomeD by fastforce
  then have "(x, y) \<in> fst ` set ps" by force
  then show ?thesis using Some assms(2)[OF m] get_plot[OF assms(1)] by simp
qed

lemma plot_append: "plot (ps @ qs) s = plot qs (plot ps s)"
  by (simp add: plot_def)

lemma plot_concat: "plot (concat pss) = fold plot pss"
  by (induction pss) (simp_all add: plot_def fun_eq_iff)

end

definition term_ok :: "fb_term \<Rightarrow> bool" where
  "term_ok t \<longleftrightarrow> (fb_bpp t = 32 \<or> fb_bpp t = 24) \<and>
     unat (fb_width t) * unat (fb_bpp t div 8) \<le> unat (fb_pitch t) \<and>
     unat (fb t) + unat (fb_height t) * unat (fb_pitch t) \<le> 2 ^ 32"

definition on_screen :: "u32 \<Rightarrow> u32 \<Rightarrow> fb_term \<Rightarrow> bool" where
  "on_screen x y t \<longleftrightarrow> x < fb_width t \<and> y < fb_height t"

definition color_shown :: "fb_term \<Rightarrow> u32 \<Rightarrow> u32" where
  "color_shown t c = (if fb_bpp t = 32 then c else c AND 0xFFFFFF)"

lemma putpixel_fields [simp]:
  "fb (putpixel x y c t) = fb t" "fb_width (putpixel x y c t) = fb_width t" "fb_height (putpixel x y c t) = fb_height t"
  "fb_pitch (putpixel x y c t) = fb_pitch t" "fb_bpp (putpixel x y c t) = fb_bpp t" "cursor_x (putpixel x y c t) = cursor_x t"
  "cursor_y (putpixel x y c t) = cursor_y t" "term_fg (putpixel x y c t) = term_fg t" "term_bg (putpixel x y c t) = term_bg t"
  "cursor_saved (putpixel x y c t) = cursor_saved t" "last_mouse_x (putpixel x y c t) = last_mouse_x t"
  "last_mouse_y (putpixel x y c t) = last_mouse_y t"
  by (simp_all add: putpixel_def Let_def)

text \<open>Where the bytes of a pixel lie.\<close>

abbreviation pixel_bytes :: "fb_term \<Rightarrow> nat" where "pixel_bytes t \<equiv> unat (fb_bpp t div 8)"

lemma pixel_bytes_ok: "term_ok t \<Longrightarrow> (fb_bpp t = 32 \<and> pixel_bytes t = 4) \<or> (fb_bpp t = 24 \<and> pixel_bytes t = 3)"
  by (auto simp: term_ok_def)

lemma pixel_place:
  assumes "term_ok t" and "on_screen x y t"
  defines "d \<equiv> unat y * unat (fb_pitch t) + unat x * pixel_bytes t"
  shows "unat (pixel_address x y t) = unat (fb t) + d"
    and "unat x * pixel_bytes t + pixel_bytes t \<le> unat (fb_pitch t)"
    and "d + pixel_bytes t \<le> unat (fb_height t) * unat (fb_pitch t)"
    and "k < pixel_bytes t \<Longrightarrow> unat (pixel_address x y t + of_nat k) = unat (fb t) + d + k"
proof -
  have x: "unat x + 1 \<le> unat (fb_width t)" and y: "unat y + 1 \<le> unat (fb_height t)"
    using assms(2) by (simp_all add: on_screen_def word_less_nat_alt)
  have w: "unat (fb_width t) * pixel_bytes t \<le> unat (fb_pitch t)"
    and lim: "unat (fb t) + unat (fb_height t) * unat (fb_pitch t) \<le> 2 ^ 32" using assms(1) by (simp_all add: term_ok_def)
  have "(unat x + 1) * pixel_bytes t \<le> unat (fb_width t) * pixel_bytes t" using x by (rule mult_le_mono1)
  then show row: "unat x * pixel_bytes t + pixel_bytes t \<le> unat (fb_pitch t)" using w by simp
  have "(unat y + 1) * unat (fb_pitch t) \<le> unat (fb_height t) * unat (fb_pitch t)" using y by (rule mult_le_mono1)
  then show all: "d + pixel_bytes t \<le> unat (fb_height t) * unat (fb_pitch t)" using row by (simp add: d_def)
  have pos: "0 < pixel_bytes t" using pixel_bytes_ok[OF assms(1)] by auto
  have d32: "unat (fb t) + d + pixel_bytes t \<le> 2 ^ 32" using all lim by simp
  have "unat (y * fb_pitch t) = unat y * unat (fb_pitch t)" "unat (x * (fb_bpp t div 8)) = unat x * pixel_bytes t"
    using d32 pos by (auto simp: d_def intro!: unat_mult_lem[THEN iffD1])
  then have "unat (y * fb_pitch t + x * (fb_bpp t div 8)) = d"
    using d32 pos unat_add_lem[of "y * fb_pitch t" "x * (fb_bpp t div 8)"] by (simp add: d_def)
  then show a: "unat (pixel_address x y t) = unat (fb t) + d"
    using d32 pos unat_add_lem[of "fb t" "y * fb_pitch t + x * (fb_bpp t div 8)"] by (simp add: pixel_address_def)
  show "unat (pixel_address x y t + of_nat k) = unat (fb t) + d + k" if "k < pixel_bytes t"
  proof -
    have "unat (of_nat k :: u32) = k" using that d32 by (intro unat_of_nat_u32) simp
    then show ?thesis using a that d32 unat_add_lem[of "pixel_address x y t" "of_nat k"] by simp
  qed
qed


lemma place_unique:
  fixes x x' y y' P B i k :: nat
  assumes "y' * P + x' * B + i = y * P + x * B + k" and "x * B + B \<le> P" and "x' * B + B \<le> P" and "i < B" and "k < B"
  shows "x' = x \<and> y' = y \<and> i = k"
proof -
  have "(y * P + (x * B + k)) div P = y" "(y' * P + (x' * B + i)) div P = y'" using assms(2-5) by simp_all
  then have y: "y' = y" using assms(1) by (simp add: add.assoc)
  then have e: "x' * B + i = x * B + k" using assms(1) by simp
  have "(x * B + k) div B = x" "(x' * B + i) div B = x'" using assms(4,5) by simp_all
  then have "x' = x" using e by simp
  then show ?thesis using y e by simp
qed

lemma pixel_disjoint:
  assumes "term_ok t" and "on_screen x y t" and "on_screen x' y' t" and "i < pixel_bytes t" and "k < pixel_bytes t"
  shows "pixel_address x' y' t + of_nat i = pixel_address x y t + of_nat k \<longleftrightarrow> x' = x \<and> y' = y \<and> i = k"
proof
  assume "pixel_address x' y' t + of_nat i = pixel_address x y t + of_nat k"
  then have "unat (pixel_address x' y' t + of_nat i) = unat (pixel_address x y t + of_nat k)" by simp
  then have "unat y' * unat (fb_pitch t) + unat x' * pixel_bytes t + i = unat y * unat (fb_pitch t) + unat x * pixel_bytes t + k"
    using pixel_place(4)[OF assms(1,3,4)] pixel_place(4)[OF assms(1,2,5)] by simp
  from place_unique[OF this pixel_place(2)[OF assms(1,2)] pixel_place(2)[OF assms(1,3)] assms(4,5)]
  show "x' = x \<and> y' = y \<and> i = k" by (simp add: word_unat_eq_iff)
qed simp

text \<open>The three or four bytes of a pixel hold its colour.\<close>

definition pixel_at :: "u32 \<Rightarrow> nat \<Rightarrow> (u32 \<Rightarrow> u8) \<Rightarrow> u8 list" where
  "pixel_at p n m = map (\<lambda>k. m (p + of_nat k)) [0..<n]"

definition color_bytes :: "u32 \<Rightarrow> u8 list" where
  "color_bytes c = [ucast (drop_bit 16 c AND 0xFF), ucast (drop_bit 8 c AND 0xFF), ucast (c AND 0xFF), ucast (drop_bit 24 c AND 0xFF)]"

definition color_of :: "u8 list \<Rightarrow> u32" where
  "color_of b = push_bit 24 (if length b = 4 then ucast (b ! 3) else 0) OR push_bit 16 (ucast (b ! 0)) OR push_bit 8 (ucast (b ! 1)) OR ucast (b ! 2)"

lemma byte_mask: "ucast ((w :: u32) AND 0xFF) = (ucast w :: u8)"
proof -
  have "w AND 0xFF = take_bit 8 w" by (simp add: take_bit_eq_mask mask_eq_exp_minus_1)
  moreover have "ucast (take_bit 8 w) = (ucast w :: u8)" by (rule bit_word_eqI) (auto simp: bit_simps)
  ultimately show ?thesis by simp
qed

lemma count_up: "[0..<3] = [0, 1, 2]" "[0..<4] = [0, 1, 2, 3]"
  by (simp_all add: upt_rec)

lemma color_of_bytes4: "color_of (color_bytes c) = c"
proof -
  have "color_of (color_bytes c) = ucast (ucast c :: u8) OR push_bit 8 (ucast (ucast (drop_bit 8 c) :: u8))
     OR push_bit 16 (ucast (ucast (drop_bit 16 c) :: u8)) OR push_bit 24 (ucast (ucast (drop_bit 24 c) :: u8))"
    by (simp add: color_of_def color_bytes_def byte_mask or.assoc or.commute or.left_commute)
  then show ?thesis by (simp only: word32_of_bytes)
qed

lemma color_of_bytes3: "color_of (take 3 (color_bytes c)) = c AND 0xFFFFFF"
proof -
  have "color_of (take 3 (color_bytes c)) = push_bit 16 (ucast (ucast (drop_bit 16 c) :: u8)) OR
      push_bit 8 (ucast (ucast (drop_bit 8 c) :: u8)) OR ucast (ucast c :: u8)"
    by (simp add: color_of_def color_bytes_def byte_mask)
  moreover have mask: "c AND 0xFFFFFF = take_bit 24 c" by (simp add: take_bit_eq_mask mask_eq_exp_minus_1)
  moreover have "push_bit 16 (ucast (ucast (drop_bit 16 c) :: u8)) OR push_bit 8 (ucast (ucast (drop_bit 8 c) :: u8)) OR
      ucast (ucast c :: u8) = (take_bit 24 c :: u32)"
  proof (rule bit_word_eqI)
    fix n assume "n < LENGTH(32)"
    then consider "n < 8" | "8 \<le> n" "n < 16" | "16 \<le> n" "n < 24" | "24 \<le> n" by fastforce
    then show "bit (push_bit 16 (ucast (ucast (drop_bit 16 c) :: u8)) OR push_bit 8 (ucast (ucast (drop_bit 8 c) :: u8)) OR
      ucast (ucast c :: u8) :: u32) n = bit (take_bit 24 c) n" by cases (auto simp: bit_simps)
  qed
  ultimately show ?thesis by simp
qed

lemma getpixel_color:
  assumes "term_ok t"
  shows "getpixel x y t = (if on_screen x y t then color_of (pixel_at (pixel_address x y t) (pixel_bytes t) (vram t)) else 0)"
  using pixel_bytes_ok[OF assms]
proof
  assume "fb_bpp t = 32 \<and> pixel_bytes t = 4"
  then show ?thesis
    by (simp add: getpixel_def on_screen_def color_of_def pixel_at_def count_up Let_def linorder_not_le[symmetric] del: push_bit_numeral)
next
  assume "fb_bpp t = 24 \<and> pixel_bytes t = 3"
  then show ?thesis
    by (simp add: getpixel_def on_screen_def color_of_def pixel_at_def count_up Let_def linorder_not_le[symmetric] del: push_bit_numeral)
qed

lemma putpixel_vram:
  assumes "term_ok t" and "on_screen x y t"
  shows "k < pixel_bytes t \<Longrightarrow> vram (putpixel x y c t) (pixel_address x y t + of_nat k) = color_bytes c ! k"
    and "(\<And>k. k < pixel_bytes t \<Longrightarrow> a \<noteq> pixel_address x y t + of_nat k) \<Longrightarrow> vram (putpixel x y c t) a = vram t a"
proof -
  have os: "\<not> (x \<ge> fb_width t \<or> y \<ge> fb_height t)" using assms(2) by (simp add: on_screen_def not_le)
  show "vram (putpixel x y c t) (pixel_address x y t + of_nat k) = color_bytes c ! k" if k: "k < pixel_bytes t"
    using pixel_bytes_ok[OF assms(1)]
  proof
    assume b: "fb_bpp t = 32 \<and> pixel_bytes t = 4"
    then have "k = 0 \<or> k = 1 \<or> k = 2 \<or> k = 3" using k by arith
    then show ?thesis using b os by (elim disjE) (simp_all add: putpixel_def color_bytes_def Let_def)
  next
    assume b: "fb_bpp t = 24 \<and> pixel_bytes t = 3"
    then have "k = 0 \<or> k = 1 \<or> k = 2" using k by arith
    then show ?thesis using b os by (elim disjE) (simp_all add: putpixel_def color_bytes_def Let_def)
  qed
  show "vram (putpixel x y c t) a = vram t a" if p: "\<And>k. k < pixel_bytes t \<Longrightarrow> a \<noteq> pixel_address x y t + of_nat k"
    using pixel_bytes_ok[OF assms(1)] p[of 0] p[of 1] p[of 2] p[of 3] os
    by (elim disjE) (simp_all add: putpixel_def Let_def)
qed

interpretation screen: pixel_grid putpixel getpixel on_screen term_ok color_shown
proof
  fix s :: fb_term and x y c x' y' :: u32
  show "term_ok s \<Longrightarrow> term_ok (putpixel x y c s)" by (simp add: term_ok_def)
  show "on_screen x' y' (putpixel x y c s) = on_screen x' y' s" by (simp add: on_screen_def)
  show "color_shown (putpixel x y c s) = color_shown s" by (simp add: color_shown_def fun_eq_iff)
  show "getpixel x' y' (putpixel x y c s) = (if x' = x \<and> y' = y \<and> on_screen x y s then color_shown s c else getpixel x' y' s)"
    if ok: "term_ok s"
  proof -
    let ?t = "putpixel x y c s"
    have pa: "pixel_address a b ?t = pixel_address a b s" for a b by (simp add: pixel_address_def)
    have ok': "term_ok ?t" and os: "on_screen x' y' ?t = on_screen x' y' s" using ok by (simp_all add: term_ok_def on_screen_def)
    show ?thesis
    proof (cases "on_screen x y s \<and> on_screen x' y' s")
      case False
      have "putpixel x y c s = s" if "\<not> on_screen x y s" using that by (auto simp: putpixel_def on_screen_def)
      moreover have "getpixel x' y' ?t = 0" "getpixel x' y' s = 0" if "\<not> on_screen x' y' s"
        using that ok ok' os by (simp_all add: getpixel_color)
      ultimately show ?thesis using False by (cases "on_screen x y s") auto
    next
      case True
      show ?thesis
      proof (cases "x' = x \<and> y' = y")
        case same: True
        have "vram ?t (pixel_address x y s + of_nat k) = color_bytes c ! k" if "k < pixel_bytes s" for k
          using putpixel_vram(1)[OF ok] True that by simp
        moreover have "pixel_bytes s \<le> 4" "length (color_bytes c) = 4" using pixel_bytes_ok[OF ok] by (auto simp: color_bytes_def)
        ultimately have "pixel_at (pixel_address x y s) (pixel_bytes s) (vram ?t) = take (pixel_bytes s) (color_bytes c)"
          by (intro nth_equalityI) (simp_all add: pixel_at_def)
        then have "getpixel x y ?t = color_of (take (pixel_bytes s) (color_bytes c))"
          using True by (simp add: getpixel_color[OF ok'] pa on_screen_def)
        moreover have "take 4 (color_bytes c) = color_bytes c" by (simp add: color_bytes_def)
        ultimately show ?thesis
          using True same pixel_bytes_ok[OF ok] color_of_bytes4[of c] color_of_bytes3[of c]
          by (elim disjE) (simp_all add: color_shown_def)
      next
        case other: False
        have "vram ?t (pixel_address x' y' s + of_nat k) = vram s (pixel_address x' y' s + of_nat k)" if "k < pixel_bytes s" for k
          using True other that by (intro putpixel_vram(2)[OF ok]) (auto simp: pixel_disjoint[OF ok])
        then have "pixel_at (pixel_address x' y' s) (pixel_bytes s) (vram ?t) = pixel_at (pixel_address x' y' s) (pixel_bytes s) (vram s)"
          by (simp add: pixel_at_def)
        moreover have "getpixel x' y' ?t = color_of (pixel_at (pixel_address x' y' s) (pixel_bytes s) (vram ?t))"
          using True by (simp add: getpixel_color[OF ok'] os pa)
        moreover have "getpixel x' y' s = color_of (pixel_at (pixel_address x' y' s) (pixel_bytes s) (vram s))"
          using True by (simp add: getpixel_color[OF ok])
        ultimately show ?thesis using other by auto
      qed
    qed
  qed
qed


lemma getpixel_shown: "term_ok t \<Longrightarrow> color_shown t (getpixel x y t) = getpixel x y t"
proof -
  assume ok: "term_ok t"
  have "w AND 0xFFFFFF = take_bit 24 w" for w :: u32 by (simp add: take_bit_eq_mask mask_eq_exp_minus_1)
  moreover have "take_bit 24 (color_of b) = color_of b" if "length b \<noteq> 4" for b :: "u8 list"
    using that by (intro bit_word_eqI) (auto simp: color_of_def bit_simps)
  ultimately have "color_of b AND 0xFFFFFF = color_of b" if "length b \<noteq> 4" for b using that by metis
  then show ?thesis using pixel_bytes_ok[OF ok]
    by (auto simp: getpixel_color[OF ok] color_shown_def pixel_at_def)
qed

lemma fold_concat: "fold f (concat xss) = fold (fold f) xss"
  by (induction xss) (simp_all add: fun_eq_iff)

lemma fold_map_plot: "fold (\<lambda>i. screen.plot (g i)) is = screen.plot (concat (map g is))"
  by (simp add: screen.plot_concat fold_map comp_def)

section \<open>Glyphs\<close>

definition square_points :: "u32 \<Rightarrow> u32 \<Rightarrow> u32 \<Rightarrow> ((u32 \<times> u32) \<times> u32) list" where
  "square_points x y c = concat (map (\<lambda>sy. map (\<lambda>sx. ((x + of_nat sx, y + of_nat sy), c)) [0..<2]) [0..<2])"

lemma draw_square_plot: "draw_square x y c = screen.plot (square_points x y c)"
proof -
  have "fold (\<lambda>sx. putpixel (x + of_nat sx) (y + of_nat sy) c) ns = screen.plot (map (\<lambda>sx. ((x + of_nat sx, y + of_nat sy), c)) ns)"
    for sy ns by (simp add: screen.plot_def fold_map comp_def)
  then show ?thesis by (simp add: draw_square_def square_points_def FONT_SCALE_def fold_map_plot)
qed

definition glyph_color :: "u8 \<Rightarrow> nat \<Rightarrow> nat \<Rightarrow> fb_term \<Rightarrow> u32" where
  "glyph_color ch col row t = (if bit (font8x8_basic ! unat ch ! row) (7 - col) then term_fg t else term_bg t)"

definition glyph_points :: "u8 \<Rightarrow> u32 \<Rightarrow> u32 \<Rightarrow> fb_term \<Rightarrow> ((u32 \<times> u32) \<times> u32) list" where
  "glyph_points ch x y t = concat (map (\<lambda>row. concat (map (\<lambda>col.
     square_points (x + of_nat col * 2) (y + of_nat row * 2) (glyph_color ch col row t)) [0..<8])) [0..<8])"

lemma length_font: "length font8x8_basic = 128"
  by (simp add: font8x8_basic_def)

lemma draw_char_plot: "unat ch < 128 \<Longrightarrow> draw_char ch x y t = Some (screen.plot (glyph_points ch x y t) t)"
  by (simp add: draw_char_def length_font glyph_points_def glyph_color_def FONT_WIDTH_def FONT_HEIGHT_def FONT_SCALE_def
      draw_square_plot fold_map_plot Let_def)

lemma square_points_iff:
  "((a, b), c) \<in> set (square_points x y d) \<longleftrightarrow> (\<exists>sx<2. \<exists>sy<2. a = x + of_nat sx \<and> b = y + of_nat sy) \<and> c = d"
proof -
  have "((a, b), c) \<in> set (square_points x y d) \<longleftrightarrow>
      (\<exists>sy\<in>{0..<2}. \<exists>sx\<in>{0..<2}. ((a, b), c) = ((x + of_nat sx, y + of_nat sy), d))"
    unfolding square_points_def set_concat by (simp only: set_map set_upt UN_iff bex_simps(7) image_iff)
  then show ?thesis by (simp add: Bex_def) blast
qed

lemma glyph_points_iff:
  "((a, b), c) \<in> set (glyph_points ch x y t) \<longleftrightarrow>
   (\<exists>row<8. \<exists>col<8. \<exists>sx<2. \<exists>sy<2. a = x + of_nat (2 * col + sx) \<and> b = y + of_nat (2 * row + sy) \<and> c = glyph_color ch col row t)"
proof -
  have "((a, b), c) \<in> set (glyph_points ch x y t) \<longleftrightarrow> (\<exists>row<8. \<exists>col<8.
      ((a, b), c) \<in> set (square_points (x + of_nat col * 2) (y + of_nat row * 2) (glyph_color ch col row t)))"
    by (simp add: glyph_points_def Bex_def)
  moreover have "z + of_nat k * 2 + of_nat j = z + (of_nat (2 * k + j) :: u32)" for z k j by simp
  ultimately show ?thesis unfolding square_points_iff by (simp only:) blast
qed

text \<open>The pixels of the sixteen by sixteen cell at \<open>(x, y)\<close> are the ones of the glyph, each bit twice in both
  directions.\<close>

lemma glyph_picture:
  assumes "((a, b), c) \<in> set (glyph_points ch x y t)"
  shows "c = glyph_color ch (unat (a - x) div 2) (unat (b - y) div 2) t"
proof -
  obtain row col sx sy :: nat where h: "row < 8" "col < 8" "sx < 2" "sy < 2" "a = x + of_nat (2 * col + sx)"
    "b = y + of_nat (2 * row + sy)" "c = glyph_color ch col row t" using assms by (auto simp: glyph_points_iff)
  have "unat (of_nat (2 * col + sx) :: u32) = 2 * col + sx" "unat (of_nat (2 * row + sy) :: u32) = 2 * row + sy"
    using h(1-4) by (intro unat_of_nat_u32; simp)+
  then show ?thesis using h by simp
qed

lemma glyph_domain:
  "(a, b) \<in> fst ` set (glyph_points ch x y t) \<longleftrightarrow> unat (a - x) < 16 \<and> unat (b - y) < 16"
proof
  assume "(a, b) \<in> fst ` set (glyph_points ch x y t)"
  then obtain c where "((a, b), c) \<in> set (glyph_points ch x y t)" by force
  then obtain row col sx sy :: nat where h: "row < 8" "col < 8" "sx < 2" "sy < 2" "a = x + of_nat (2 * col + sx)"
    "b = y + of_nat (2 * row + sy)" by (auto simp: glyph_points_iff)
  have "unat (of_nat (2 * col + sx) :: u32) = 2 * col + sx" "unat (of_nat (2 * row + sy) :: u32) = 2 * row + sy"
    using h(1-4) by (intro unat_of_nat_u32; simp)+
  then show "unat (a - x) < 16 \<and> unat (b - y) < 16" using h by simp
next
  assume h: "unat (a - x) < 16 \<and> unat (b - y) < 16"
  have e: "x + of_nat (2 * (unat (a - x) div 2) + unat (a - x) mod 2) = a" "y + of_nat (2 * (unat (b - y) div 2) + unat (b - y) mod 2) = b"
    by (simp_all only: mult_div_mod_eq) simp_all
  have "((a, b), glyph_color ch (unat (a - x) div 2) (unat (b - y) div 2) t) \<in> set (glyph_points ch x y t)"
    unfolding glyph_points_iff using h e[symmetric]
    by (intro exI[of _ "unat (b - y) div 2"] exI[of _ "unat (a - x) div 2"] exI[of _ "unat (a - x) mod 2"] exI[of _ "unat (b - y) mod 2"] conjI)
      auto
  then show "(a, b) \<in> fst ` set (glyph_points ch x y t)" by force
qed


section \<open>Writing stays in the frame buffer\<close>

text \<open>\<open>drawn t t'\<close>: the mode is the same and only bytes of the frame buffer may have changed.\<close>

definition drawn :: "fb_term \<Rightarrow> fb_term \<Rightarrow> bool" where
  "drawn t t' \<longleftrightarrow> fb t' = fb t \<and> fb_width t' = fb_width t \<and> fb_height t' = fb_height t \<and> fb_pitch t' = fb_pitch t \<and>
     fb_bpp t' = fb_bpp t \<and>
     (\<forall>a. vram t' a \<noteq> vram t a \<longrightarrow> unat (fb t) \<le> unat a \<and> unat a < unat (fb t) + unat (fb_height t) * unat (fb_pitch t))"

lemma drawn_refl: "vram t' = vram t \<Longrightarrow> fb t' = fb t \<Longrightarrow> fb_width t' = fb_width t \<Longrightarrow> fb_height t' = fb_height t \<Longrightarrow>
    fb_pitch t' = fb_pitch t \<Longrightarrow> fb_bpp t' = fb_bpp t \<Longrightarrow> drawn t t'"
  by (simp add: drawn_def)

lemma drawn_same [simp]: "drawn t t"
  by (simp add: drawn_def)

lemma drawn_trans: "drawn t t' \<Longrightarrow> drawn t' t'' \<Longrightarrow> drawn t t''"
  unfolding drawn_def by metis

lemma drawn_ok: "drawn t t' \<Longrightarrow> term_ok t \<Longrightarrow> term_ok t'"
  by (simp add: drawn_def term_ok_def)

lemma drawn_putpixel: "term_ok t \<Longrightarrow> drawn t (putpixel x y c t)"
proof (cases "on_screen x y t")
  case True
  assume ok: "term_ok t"
  have "unat (fb t) \<le> unat a \<and> unat a < unat (fb t) + unat (fb_height t) * unat (fb_pitch t)"
    if ch: "vram (putpixel x y c t) a \<noteq> vram t a" for a
  proof -
    obtain k where k: "k < pixel_bytes t" "a = pixel_address x y t + of_nat k"
      using putpixel_vram(2)[OF ok True, of a c] ch by blast
    then have "unat a = unat (fb t) + (unat y * unat (fb_pitch t) + unat x * pixel_bytes t) + k"
      using pixel_place(4)[OF ok True k(1)] by simp
    then show ?thesis using pixel_place(3)[OF ok True] k(1) by linarith
  qed
  then show ?thesis by (simp add: drawn_def)
next
  case False
  then have "putpixel x y c t = t" by (auto simp: putpixel_def on_screen_def)
  then show ?thesis by (simp add: drawn_def)
qed

lemma drawn_fold:
  assumes "\<And>i t. i \<in> set is \<Longrightarrow> term_ok t \<Longrightarrow> drawn t (f i t)" and "term_ok t"
  shows "drawn t (fold f is t)"
  using assms
proof (induction "is" arbitrary: t)
  case (Cons i "is")
  have d: "drawn t (f i t)" using Cons.prems by simp
  then show ?case using Cons.IH[of "f i t"] Cons.prems(1) drawn_ok[OF d Cons.prems(2)] drawn_trans[OF d] by simp
qed (simp add: drawn_def)

lemma drawn_update:
  "drawn t (t'\<lparr>cursor_x := a\<rparr>) = drawn t t'" "drawn t (t'\<lparr>cursor_y := a\<rparr>) = drawn t t'"
  "drawn t (t'\<lparr>term_fg := a\<rparr>) = drawn t t'" "drawn t (t'\<lparr>cursor_saved := b\<rparr>) = drawn t t'"
  "drawn t (t'\<lparr>last_mouse_x := d\<rparr>) = drawn t t'" "drawn t (t'\<lparr>last_mouse_y := d\<rparr>) = drawn t t'"
  "drawn (t\<lparr>cursor_x := a\<rparr>) t' = drawn t t'" "drawn (t\<lparr>cursor_y := a\<rparr>) t' = drawn t t'"
  "term_ok (t\<lparr>cursor_x := a\<rparr>) = term_ok t" "term_ok (t\<lparr>cursor_y := a\<rparr>) = term_ok t"
  "term_ok (t\<lparr>term_fg := a\<rparr>) = term_ok t" "term_ok (t\<lparr>cursor_saved := b\<rparr>) = term_ok t"
  by (simp_all add: drawn_def term_ok_def)

lemma drawn_char: "term_ok t \<Longrightarrow> draw_char ch x y t = Some t' \<Longrightarrow> drawn t t'"
  by (auto simp: draw_char_def draw_square_def Let_def split: if_splits intro!: drawn_fold drawn_putpixel)

lemma drawn_putc: "term_ok t \<Longrightarrow> term_putc c t = Some t' \<Longrightarrow> drawn t t'"
  unfolding term_putc_def Let_def
  by (auto simp: drawn_update split: if_splits dest!: drawn_char[rotated] intro: drawn_refl)

lemma drawn_puts: "term_ok t \<Longrightarrow> term_puts s t = Some t' \<Longrightarrow> drawn t t'"
proof (induction s t arbitrary: t' rule: term_puts.induct)
  case (2 c cs t)
  show ?case
  proof (cases "c = 0")
    case False
    then obtain t1 where t1: "term_putc c t = Some t1" "term_puts cs t1 = Some t'" using "2.prems"(2) by (auto simp: bind_eq_Some_conv)
    note d = drawn_putc[OF "2.prems"(1) t1(1)]
    show ?thesis using "2.IH"[OF False t1(1) drawn_ok[OF d "2.prems"(1)] t1(2)] drawn_trans[OF d] by simp
  qed (use "2.prems" in \<open>simp add: drawn_def\<close>)
qed simp

lemma drawn_clear: "term_ok t \<Longrightarrow> drawn t (term_clear t)"
  by (auto simp: term_clear_def Let_def drawn_update intro!: drawn_fold drawn_putpixel)

lemma drawn_restore: "term_ok t \<Longrightarrow> drawn t (restore_cursor_background x y t)"
  by (auto simp: restore_cursor_background_def intro!: drawn_fold drawn_putpixel drawn_refl)

lemma drawn_mouse: "term_ok t \<Longrightarrow> drawn t (draw_mouse mx my t)"
proof -
  assume ok: "term_ok t"
  define t1 where "t1 = (if last_mouse_x t \<ge> 0 \<and> last_mouse_y t \<ge> 0
    then restore_cursor_background (last_mouse_x t) (last_mouse_y t) t else t)"
  have d: "drawn t t1" using drawn_restore[OF ok] by (simp add: t1_def drawn_refl)
  have "term_ok (save_cursor_background mx my t1)" using drawn_ok[OF d ok] by (simp add: save_cursor_background_def drawn_update)
  then have "drawn (save_cursor_background mx my t1) (draw_cursor_shape mx my (save_cursor_background mx my t1))"
    unfolding draw_cursor_shape_def by (auto simp: drawn_putpixel intro!: drawn_fold)
  then have "drawn t1 (draw_cursor_shape mx my (save_cursor_background mx my t1))"
    by (simp add: drawn_def save_cursor_background_def)
  then show ?thesis using drawn_trans[OF d] by (simp add: draw_mouse_def Let_def t1_def drawn_update)
qed

text \<open>What the rest of the kernel does with the terminal.\<close>

inductive term_step :: "fb_term \<Rightarrow> fb_term \<Rightarrow> bool" where
  Putc: "term_putc c t = Some t' \<Longrightarrow> term_step t t'"
| Puts: "term_puts s t = Some t' \<Longrightarrow> term_step t t'"
| Clear: "term_step t (term_clear t)"
| Mouse: "term_step t (draw_mouse mx my t)"
| Color: "term_step t (term_set_color c t)"
| Reset: "term_step t (term_reset_color t)"

lemma term_step_drawn: "term_step t t' \<Longrightarrow> term_ok t \<Longrightarrow> drawn t t'"
  by (induction rule: term_step.induct)
    (auto simp: term_set_color_def term_reset_color_def drawn_update
      intro: drawn_putc drawn_puts drawn_clear drawn_mouse drawn_refl)

text \<open>C34. Whatever is printed, cleared or pointed at, and in any order, the terminal writes no byte outside the
  frame buffer.\<close>

theorem terminal_stays_in_frame_buffer:
  assumes "term_step\<^sup>*\<^sup>* t t'" and "term_ok t" and "vram t' a \<noteq> vram t a"
  shows "unat (fb t) \<le> unat a \<and> unat a < unat (fb t) + unat (fb_height t) * unat (fb_pitch t)"
proof -
  have "drawn t t'" using assms(1)
  proof (induction rule: rtranclp_induct)
    case (step u v)
    then show ?case using drawn_trans[OF step.IH term_step_drawn[OF step.hyps(2) drawn_ok[OF step.IH assms(2)]]] by simp
  qed (simp add: drawn_def)
  then show ?thesis using assms(3) by (simp add: drawn_def)
qed


definition small_screen :: fb_term where
  "small_screen = (term_boot (\<lambda>_. 0))\<lparr>fb := 0xFD000000, fb_width := 1024, fb_height := 768, fb_pitch := 4096, fb_bpp := 32\<rparr>"

lemma small_screen_ok: "term_ok small_screen"
  by (simp add: term_ok_def small_screen_def)

theorem terminal_stays_in_frame_buffer_witness:
  "\<exists>t'. term_step\<^sup>*\<^sup>* small_screen t' \<and> t' = draw_mouse 100 100 (term_clear small_screen) \<and>
    (\<forall>a. unat a < 0xFD000000 \<longrightarrow> vram t' a = 0)"
proof -
  let ?t = "draw_mouse 100 100 (term_clear small_screen)"
  have s: "term_step\<^sup>*\<^sup>* small_screen ?t"
    by (rule rtranclp.rtrancl_into_rtrancl[OF r_into_rtranclp[where r = term_step, OF term_step.Clear] term_step.Mouse])
  have "vram ?t a = 0" if "unat a < 0xFD000000" for a
    using terminal_stays_in_frame_buffer[OF s small_screen_ok, of a] that by (auto simp: small_screen_def term_boot_def)
  then show ?thesis using s by blast
qed

section \<open>What a character looks like\<close>

text \<open>Where the next character goes: the line is broken when no cell is left in it, and the last line is followed by
  the first.\<close>

definition pen :: "fb_term \<Rightarrow> u32 \<times> u32" where
  "pen t = (let (x, y) = (if cursor_x t + 16 > fb_width t then (0, cursor_y t + 16) else (cursor_x t, cursor_y t))
            in (x, if y + 16 > fb_height t then 0 else y))"

lemma term_putc_pen:
  assumes "32 \<le> c" and "c < 127"
  shows "\<exists>t1 t'. term_putc c t = Some t' \<and> vram t' = vram (screen.plot (glyph_points c (fst (pen t)) (snd (pen t)) t) t1) \<and>
    drawn t1 t \<and> vram t1 = vram t \<and> drawn (screen.plot (glyph_points c (fst (pen t)) (snd (pen t)) t) t1) t' \<and>
    cursor_x t' = fst (pen t) + 16 \<and> cursor_y t' = snd (pen t)"
proof -
  have c: "c \<noteq> 10" "c \<noteq> 13" "c \<noteq> 8" "c \<noteq> 127" "\<not> c < 32" "unat c < 128"
    using assms by (auto simp: word_less_nat_alt word_le_nat_alt)
  have g: "glyph_points c x y (t\<lparr>cursor_x := a, cursor_y := b\<rparr>) = glyph_points c x y t" for x y a b
    by (simp add: glyph_points_def glyph_color_def cong: if_cong)
  have pl: "cursor_x (screen.plot ps u) = cursor_x u \<and> cursor_y (screen.plot ps u) = cursor_y u" for ps u
    by (induction ps arbitrary: u) (auto simp: screen.plot_def split: prod.splits)
  define t1 where "t1 = t\<lparr>cursor_x := fst (pen t), cursor_y := snd (pen t)\<rparr>"
  define t2 where "t2 = screen.plot (glyph_points c (fst (pen t)) (snd (pen t)) t) t1"
  have "term_putc c t = map_option (\<lambda>t. t\<lparr>cursor_x := cursor_x t + SCALED_FONT_WIDTH\<rparr>) (draw_char c (cursor_x t1) (cursor_y t1) t1)"
    using c by (simp add: term_putc_def t1_def pen_def Let_def SCALED_FONT_WIDTH_def SCALED_FONT_HEIGHT_def SCALED_FONT_Y_STEP_def
      FONT_WIDTH_def FONT_HEIGHT_def FONT_SCALE_def)
  then have "term_putc c t = Some (t2\<lparr>cursor_x := fst (pen t) + 16\<rparr>)"
    using draw_char_plot[OF c(6), of "fst (pen t)" "snd (pen t)" t1] pl[of _ t1]
    by (simp add: t1_def t2_def g SCALED_FONT_WIDTH_def FONT_WIDTH_def FONT_SCALE_def)
  then show ?thesis
    using pl[of _ t1] by (intro exI[of _ t1] exI[of _ "t2\<lparr>cursor_x := fst (pen t) + 16\<rparr>"])
      (simp add: t2_def drawn_update, simp add: t1_def drawn_def)
qed

lemma getpixel_same: "vram t' = vram t \<Longrightarrow> drawn t t' \<Longrightarrow> getpixel x y t' = getpixel x y t"
  by (simp add: getpixel_def drawn_def pixel_address_def Let_def)

text \<open>C35. A printable character appears at the place of the cursor (after the line break or the jump to the top that
  is due) as its glyph, every bit a square of two by two pixels in the current colours; no other pixel changes, and the
  cursor moves on by one cell.\<close>

theorem term_putc_draws_glyph:
  assumes "term_ok t" and "32 \<le> c" and "c < 127" and "(x, y) = pen t"
  shows "\<exists>t'. term_putc c t = Some t' \<and> cursor_x t' = x + 16 \<and> cursor_y t' = y \<and> term_ok t' \<and>
    (\<forall>a b. getpixel a b t' =
      (if on_screen a b t \<and> unat (a - x) < 16 \<and> unat (b - y) < 16
       then color_shown t (if bit (font8x8_basic ! unat c ! (unat (b - y) div 2)) (7 - unat (a - x) div 2) then term_fg t else term_bg t)
       else getpixel a b t))"
proof -
  have p: "fst (pen t) = x" "snd (pen t) = y" by (simp_all add: assms(4)[symmetric])
  let ?ps = "glyph_points c x y t"
  obtain t1 t' where t': "term_putc c t = Some t'" "vram t' = vram (screen.plot ?ps t1)" "drawn t1 t" "vram t1 = vram t"
    "drawn (screen.plot ?ps t1) t'" "cursor_x t' = x + 16" "cursor_y t' = y"
    using term_putc_pen[OF assms(2,3), of t] unfolding p by blast
  have f: "on_screen a b t1 = on_screen a b t" "color_shown t1 = color_shown t" for a b
    using t'(3) by (simp_all add: drawn_def on_screen_def color_shown_def fun_eq_iff)
  have ok1: "term_ok t1" using t'(3) assms(1) by (simp add: drawn_def term_ok_def)
  have "getpixel a b t' = (if on_screen a b t \<and> unat (a - x) < 16 \<and> unat (b - y) < 16
      then color_shown t (glyph_color c (unat (a - x) div 2) (unat (b - y) div 2) t) else getpixel a b t)" for a b
  proof -
    have "getpixel a b t' = getpixel a b (screen.plot ?ps t1)" by (rule getpixel_same[OF t'(2,5)])
    also have "\<dots> = (if on_screen a b t1 \<and> (a, b) \<in> fst ` set ?ps
        then color_shown t1 (glyph_color c (unat (a - x) div 2) (unat (b - y) div 2) t) else getpixel a b t1)"
      by (rule screen.get_plot_picture[OF ok1]) (rule glyph_picture)
    finally show ?thesis using getpixel_same[OF t'(4)[symmetric] t'(3), of a b] by (simp add: f glyph_domain)
  qed
  then show ?thesis
    using t'(1,6,7) drawn_ok[OF drawn_putc[OF assms(1) t'(1)] assms(1)] by (auto simp: glyph_color_def)
qed

theorem term_putc_draws_glyph_witness:
  "\<exists>t'. term_putc 65 small_screen = Some t' \<and> cursor_x t' = 16 \<and> getpixel 4 1 t' = TERM_COLOR_BG \<and>
    getpixel 6 1 t' = TERM_COLOR_FG \<and> getpixel 40 40 t' = 0"
proof -
  have p: "(0, 0) = pen small_screen" by (simp add: pen_def small_screen_def term_boot_def)
  from term_putc_draws_glyph[OF small_screen_ok _ _ p, of 65] obtain t' where
    t': "term_putc 65 small_screen = Some t'" "cursor_x t' = 16" and
    g: "\<And>a b. getpixel a b t' = (if on_screen a b small_screen \<and> unat (a - 0) < 16 \<and> unat (b - 0) < 16
       then color_shown small_screen (if bit (font8x8_basic ! unat (65 :: u8) ! (unat (b - 0) div 2)) (7 - unat (a - 0) div 2)
         then term_fg small_screen else term_bg small_screen)
       else getpixel a b small_screen)" by auto
  have f: "font8x8_basic ! 65 ! 0 = 0x18" by (simp add: font8x8_basic_def)
  note d = on_screen_def small_screen_def term_boot_def color_shown_def
  have "getpixel 4 1 t' = TERM_COLOR_BG" unfolding g[of 4 1] by (simp add: f d)
  moreover have "getpixel 6 1 t' = TERM_COLOR_FG" unfolding g[of 6 1] by (simp add: f d)
  moreover have "getpixel 40 40 t' = 0" unfolding g[of 40 40] by (simp add: f d getpixel_def)
  ultimately show ?thesis using t' by blast
qed


section \<open>The pointer leaves no trace\<close>

lemma nth_concat_rows:
  "i < m \<Longrightarrow> j < n \<Longrightarrow> concat (map (\<lambda>i. map (F i) [0..<n]) [0..<m]) ! (i * n + j) = F i j"
proof (induction m)
  case (Suc m)
  have len: "length (concat (map (\<lambda>i. map (F i) [0..<n]) [0..<m])) = m * n"
    by (simp add: length_concat comp_def sum_list_triv)
  show ?case
  proof (cases "i = m")
    case True
    then show ?thesis using Suc.prems(2) len by (simp add: nth_append)
  next
    case False
    then have i: "i < m" using Suc.prems(1) by simp
    then have "Suc i * n \<le> m * n" by (intro mult_le_mono1) simp
    then have "i * n + j < m * n" using Suc.prems(2) by simp
    then show ?thesis using Suc.IH[OF i Suc.prems(2)] len by (simp add: nth_append)
  qed
qed simp

definition pointer_cell :: "int \<Rightarrow> int \<Rightarrow> nat \<Rightarrow> nat \<Rightarrow> u32 \<times> u32" where
  "pointer_cell x y dy dx = (word_of_int (x + int dx), word_of_int (y + int dy))"

definition shape_points :: "int \<Rightarrow> int \<Rightarrow> ((u32 \<times> u32) \<times> u32) list" where
  "shape_points x y = concat (map (\<lambda>dy. concat (map (\<lambda>dx.
     if cursor_pattern ! dy ! dx = 1 then [(pointer_cell x y dy dx, 0x000000)]
     else if cursor_pattern ! dy ! dx = 2 then [(pointer_cell x y dy dx, 0xFF44FF)] else []) [0..<11])) [0..<11])"

definition restore_points :: "int \<Rightarrow> int \<Rightarrow> u32 list \<Rightarrow> ((u32 \<times> u32) \<times> u32) list" where
  "restore_points x y saved = concat (map (\<lambda>dy. concat (map (\<lambda>dx. [(pointer_cell x y dy dx, saved ! (dy * 11 + dx))]) [0..<11])) [0..<11])"

lemma putpixel_plot: "putpixel (word_of_int (x + int dx)) (word_of_int (y + int dy)) c = screen.plot [(pointer_cell x y dy dx, c)]"
  by (simp add: screen.plot_def pointer_cell_def)

lemma plot_Nil: "id = screen.plot []"
  by (simp add: screen.plot_def fun_eq_iff)

lemma plot_if: "(if b then screen.plot xs else screen.plot ys) = screen.plot (if b then xs else ys)"
  by simp

lemma draw_cursor_shape_plot: "draw_cursor_shape x y = screen.plot (shape_points x y)"
  unfolding draw_cursor_shape_def shape_points_def putpixel_plot plot_Nil plot_if fold_map_plot ..

lemma restore_plot: "0 \<le> x \<Longrightarrow> 0 \<le> y \<Longrightarrow> restore_cursor_background x y t = screen.plot (restore_points x y (cursor_saved t)) t"
  unfolding restore_cursor_background_def restore_points_def putpixel_plot fold_map_plot by simp

lemma saved_background:
  "dy < 11 \<Longrightarrow> dx < 11 \<Longrightarrow> cursor_saved (save_cursor_background x y t) ! (dy * 11 + dx) =
    getpixel (fst (pointer_cell x y dy dx)) (snd (pointer_cell x y dy dx)) t"
  unfolding save_cursor_background_def pointer_cell_def
  using nth_concat_rows[of dy 11 dx 11 "\<lambda>dy dx. getpixel (word_of_int (x + int dx)) (word_of_int (y + int dy)) t"] by simp

lemma shape_in_pointer: "p \<in> fst ` set (shape_points x y) \<Longrightarrow> p \<in> fst ` set (restore_points x y saved)"
  by (auto simp: shape_points_def restore_points_def split: if_splits) (force simp: image_iff)+

lemma plot_saved: "cursor_saved (screen.plot ps t) = cursor_saved t"
  by (induction ps arbitrary: t) (auto simp: screen.plot_def split: prod.splits)

lemma pointer_erased:
  assumes ok: "term_ok t" and xy: "0 \<le> x" "0 \<le> y"
  shows "getpixel a b (restore_cursor_background x y (draw_cursor_shape x y (save_cursor_background x y t))) = getpixel a b t"
proof -
  let ?s = "save_cursor_background x y t" and ?t1 = "draw_cursor_shape x y (save_cursor_background x y t)"
  let ?ps = "restore_points x y (cursor_saved ?s)"
  have sv: "term_ok ?s" "getpixel a b ?s = getpixel a b t" "color_shown ?s = color_shown t" "on_screen a b ?s = on_screen a b t" for a b
    using ok by (simp_all add: save_cursor_background_def drawn_update getpixel_def pixel_address_def Let_def color_shown_def
        fun_eq_iff on_screen_def)
  note k = screen.plot_keeps[of ?s "shape_points x y", folded draw_cursor_shape_plot]
  have pic: "c = getpixel a b t" if "((a, b), c) \<in> set ?ps" for a b c
    using that saved_background by (auto simp: restore_points_def) (metis fst_conv snd_conv)
  have "getpixel a b (screen.plot ?ps ?t1) =
      (if on_screen a b ?t1 \<and> (a, b) \<in> fst ` set ?ps then color_shown ?t1 (getpixel a b t) else getpixel a b ?t1)"
    by (rule screen.get_plot_picture) (use k sv(1) pic in auto)
  moreover have "getpixel a b ?t1 = getpixel a b t" if "\<not> (on_screen a b ?t1 \<and> (a, b) \<in> fst ` set ?ps)"
  proof -
    have "\<not> on_screen a b ?s \<or> map_of (rev (shape_points x y)) (a, b) = None"
      using that k shape_in_pointer[of "(a, b)" x y] by (auto simp: map_of_eq_None_iff)
    then show ?thesis
      unfolding draw_cursor_shape_plot using screen.get_plot[OF sv(1), of a b "shape_points x y"] sv(2) by auto
  qed
  moreover have "color_shown ?t1 (getpixel a b t) = getpixel a b t" using k sv(3) getpixel_shown[OF ok] by simp
  ultimately show ?thesis using xy by (auto simp: restore_plot draw_cursor_shape_plot plot_saved)
qed

text \<open>Moving the pointer leaves no trace: if nothing is printed in between, drawing the pointer at one place and
  then at another shows the same picture as drawing it at the second place only.\<close>

theorem draw_mouse_no_trace:
  assumes "term_ok t" and "last_mouse_x t < 0" and "0 \<le> x" and "0 \<le> y"
  shows "getpixel a b (draw_mouse x' y' (draw_mouse x y t)) = getpixel a b (draw_mouse x' y' t)"
proof -
  let ?t1 = "draw_cursor_shape x y (save_cursor_background x y t)"
  let ?t2 = "restore_cursor_background x y ?t1"
  have d1: "draw_mouse x y t = ?t1\<lparr>last_mouse_x := x, last_mouse_y := y\<rparr>" using assms(2) by (simp add: draw_mouse_def)
  have pp: "putpixel x y c (u\<lparr>last_mouse_x := i, last_mouse_y := j\<rparr>) = (putpixel x y c u)\<lparr>last_mouse_x := i, last_mouse_y := j\<rparr>"
    for x y c u i j by (simp add: putpixel_def Let_def pixel_address_def)
  have up: "fold (\<lambda>((x, y), c). putpixel x y c) ps (u\<lparr>last_mouse_x := i, last_mouse_y := j\<rparr>) =
      (fold (\<lambda>((x, y), c). putpixel x y c) ps u)\<lparr>last_mouse_x := i, last_mouse_y := j\<rparr>" for ps u i j
    by (induction ps arbitrary: u) (auto simp: pp)
  have gp: "getpixel a b (u\<lparr>last_mouse_x := i, last_mouse_y := j\<rparr>) = getpixel a b u" for u i j
    by (simp add: getpixel_def pixel_address_def Let_def)
  have d2: "draw_mouse x' y' (draw_mouse x y t) =
      (draw_cursor_shape x' y' (save_cursor_background x' y' (?t2\<lparr>last_mouse_x := x, last_mouse_y := y\<rparr>)))
        \<lparr>last_mouse_x := x', last_mouse_y := y'\<rparr>"
    unfolding d1 using assms(3,4) up by (simp add: draw_mouse_def restore_plot screen.plot_def)
  have d3: "draw_mouse x' y' t = (draw_cursor_shape x' y' (save_cursor_background x' y' t))\<lparr>last_mouse_x := x', last_mouse_y := y'\<rparr>"
    using assms(2) by (simp add: draw_mouse_def)
  have sv: "term_ok (save_cursor_background x' y' u) = term_ok u" "getpixel a b (save_cursor_background x' y' u) = getpixel a b u"
    "on_screen a b (save_cursor_background x' y' u) = on_screen a b u" "color_shown (save_cursor_background x' y' u) = color_shown u" for u
    by (simp_all add: save_cursor_background_def drawn_update getpixel_def pixel_address_def Let_def color_shown_def
        fun_eq_iff on_screen_def)
  have dr: "drawn t ?t2"
  proof -
    have "drawn (save_cursor_background x y t) ?t1"
      using assms(1) unfolding draw_cursor_shape_def by (auto simp: drawn_putpixel save_cursor_background_def drawn_update intro!: drawn_fold)
    then have "drawn t ?t1" by (simp add: drawn_def save_cursor_background_def)
    then show ?thesis using drawn_trans drawn_restore drawn_ok assms(1) by blast
  qed
  let ?u2 = "?t2\<lparr>last_mouse_x := x, last_mouse_y := y\<rparr>"
  have u2: "term_ok ?u2" "on_screen a b ?u2 = on_screen a b t" "color_shown ?u2 = color_shown t" "getpixel a b ?u2 = getpixel a b t"
    using drawn_ok[OF dr assms(1)] dr pointer_erased[OF assms(1,3,4)]
    by (simp_all add: term_ok_def drawn_def on_screen_def color_shown_def gp fun_eq_iff)
  show ?thesis
    unfolding d2 d3 gp draw_cursor_shape_plot[of x' y']
    using screen.get_plot[of "save_cursor_background x' y' ?u2" a b "shape_points x' y'"]
      screen.get_plot[of "save_cursor_background x' y' t" a b "shape_points x' y'"] u2 assms(1)
    by (simp add: sv cong: if_cong option.case_cong)
qed

theorem draw_mouse_no_trace_witness:
  "getpixel 100 100 (draw_mouse 300 200 (draw_mouse 100 100 small_screen)) = getpixel 100 100 (draw_mouse 300 200 small_screen)"
  by (rule draw_mouse_no_trace[OF small_screen_ok]) (simp_all add: small_screen_def term_boot_def)

end
