(* ===== verification/Interrupts.thy ===== *)
theory Interrupts
  imports Kernel_Libc Ata
begin

text \<open>
  Descriptor tables and the interrupt controller: \<open>src/cpu/gdt.c\<close>, \<open>src/cpu/tss.c\<close>, \<open>src/cpu/idt.c\<close> and
  \<open>src/drivers/pic.c\<close>.  The tables are records and lists as the code fills them; how the processor reads a
  descriptor, a gate and the task state segment is stated beside them.  The addresses of assembly routines and of
  linker symbols are parameters.
\<close>

section \<open>The global descriptor table\<close>

record gdt_entry =
  limit_low :: u16
  base_low :: u16
  base_mid :: u8
  access :: u8
  gran :: u8
  base_high :: u8

definition zero_descriptor :: gdt_entry where
  "zero_descriptor = \<lparr>limit_low = 0, base_low = 0, base_mid = 0, access = 0, gran = 0, base_high = 0\<rparr>"

text \<open>Writes past the six entries leave the table.\<close>

definition gdt_set :: "nat \<Rightarrow> u32 \<Rightarrow> u32 \<Rightarrow> u8 \<Rightarrow> u8 \<Rightarrow> gdt_entry list \<Rightarrow> gdt_entry list option" where
  "gdt_set i base limit acc gr gdt =
     (if i < length gdt then
        Some (gdt[i := \<lparr>limit_low = ucast (limit AND 0xFFFF), base_low = ucast (base AND 0xFFFF),
          base_mid = ucast (drop_bit 16 base AND 0xFF), access = acc,
          gran = ucast (drop_bit 16 limit AND 0x0F) OR (gr AND 0xF0), base_high = ucast (drop_bit 24 base AND 0xFF)\<rparr>])
      else None)"

definition gdt_set_tss :: "nat \<Rightarrow> u32 \<Rightarrow> u32 \<Rightarrow> gdt_entry list \<Rightarrow> gdt_entry list option" where
  "gdt_set_tss i base limit gdt =
     (if i < length gdt then
        Some (gdt[i := \<lparr>limit_low = ucast (limit AND 0xFFFF), base_low = ucast (base AND 0xFFFF),
          base_mid = ucast (drop_bit 16 base AND 0xFF), access = 0x89,
          gran = ucast (drop_bit 16 limit AND 0x0F) OR 0x40, base_high = ucast (drop_bit 24 base AND 0xFF)\<rparr>])
      else None)"

definition gdt_init :: "gdt_entry list \<Rightarrow> gdt_entry list option" where
  "gdt_init gdt = do {
     gdt \<leftarrow> gdt_set 0 0 0 0 0 gdt;
     gdt \<leftarrow> gdt_set 1 0 0xFFFFFFFF 0x9A 0xCF gdt;
     gdt \<leftarrow> gdt_set 2 0 0xFFFFFFFF 0x92 0xCF gdt;
     gdt \<leftarrow> gdt_set 3 0 0xFFFFFFFF 0xFA 0xCF gdt;
     gdt_set 4 0 0xFFFFFFFF 0xF2 0xCF gdt
   }"

section \<open>The task state segment\<close>

record tss_entry =
  prev_tss :: u32
  tss_esp0 :: u32
  tss_ss0 :: u32
  tss_esp1 :: u32
  tss_ss1 :: u32
  tss_esp2 :: u32
  tss_ss2 :: u32
  tss_cr3 :: u32
  tss_eip :: u32
  tss_eflags :: u32
  tss_eax :: u32
  tss_ecx :: u32
  tss_edx :: u32
  tss_ebx :: u32
  tss_esp :: u32
  tss_ebp :: u32
  tss_esi :: u32
  tss_edi :: u32
  tss_es :: u32
  tss_cs :: u32
  tss_ss :: u32
  tss_ds :: u32
  tss_fs :: u32
  tss_gs :: u32
  tss_ldt :: u32
  tss_trap :: u16
  tss_iomap_base :: u16

definition zero_tss :: tss_entry where
  "zero_tss = \<lparr>prev_tss = 0, tss_esp0 = 0, tss_ss0 = 0, tss_esp1 = 0, tss_ss1 = 0, tss_esp2 = 0, tss_ss2 = 0, tss_cr3 = 0,
     tss_eip = 0, tss_eflags = 0, tss_eax = 0, tss_ecx = 0, tss_edx = 0, tss_ebx = 0, tss_esp = 0, tss_ebp = 0, tss_esi = 0,
     tss_edi = 0, tss_es = 0, tss_cs = 0, tss_ss = 0, tss_ds = 0, tss_fs = 0, tss_gs = 0, tss_ldt = 0, tss_trap = 0,
     tss_iomap_base = 0\<rparr>"

definition tss_to_bytes :: "tss_entry \<Rightarrow> bytes" where
  "tss_to_bytes t = concat (map le32 [prev_tss t, tss_esp0 t, tss_ss0 t, tss_esp1 t, tss_ss1 t, tss_esp2 t, tss_ss2 t, tss_cr3 t,
     tss_eip t, tss_eflags t, tss_eax t, tss_ecx t, tss_edx t, tss_ebx t, tss_esp t, tss_ebp t, tss_esi t, tss_edi t,
     tss_es t, tss_cs t, tss_ss t, tss_ds t, tss_fs t, tss_gs t, tss_ldt t]) @ le16 (tss_trap t) @ le16 (tss_iomap_base t)"

definition tss_init :: "u32 \<Rightarrow> u32 \<Rightarrow> gdt_entry list \<Rightarrow> (tss_entry \<times> gdt_entry list) option" where
  "tss_init tss_address stack_top gdt =
     (let tss = zero_tss\<lparr>tss_ss0 := 0x10, tss_esp0 := stack_top, tss_cs := 0x0B, tss_ss := 0x13, tss_ds := 0x13,
            tss_es := 0x13, tss_fs := 0x13, tss_gs := 0x13\<rparr> in do {
       gdt \<leftarrow> gdt_set_tss 5 tss_address (of_nat (length (tss_to_bytes tss)) - 1) gdt;
       Some (tss, gdt)
     })"

section \<open>The interrupt descriptor table\<close>

record idt_entry =
  offset_low :: u16
  selector :: u16
  zero_byte :: u8
  type_attr :: u8
  offset_high :: u16

definition idt_set_gate :: "u8 \<Rightarrow> u32 \<Rightarrow> u16 \<Rightarrow> u8 \<Rightarrow> idt_entry list \<Rightarrow> idt_entry list" where
  "idt_set_gate num handler sel ty idt =
     idt[unat num := \<lparr>offset_low = ucast (handler AND 0xFFFF), selector = sel, zero_byte = 0, type_attr = ty,
       offset_high = ucast (drop_bit 16 handler AND 0xFFFF)\<rparr>]"

abbreviation (input) IDT_SIZE :: nat where "IDT_SIZE \<equiv> 256"

text \<open>The handlers are assembly routines: \<open>isr n\<close> for exceptions, \<open>irq n\<close> for the interrupt lines.\<close>

definition idt_init :: "(nat \<Rightarrow> u32) \<Rightarrow> (nat \<Rightarrow> u32) \<Rightarrow> idt_entry list \<Rightarrow> idt_entry list" where
  "idt_init isr irq idt =
     (let idt = fold (\<lambda>i. idt_set_gate (of_nat i) 0 0 0) [0..<IDT_SIZE] idt;
          idt = fold (\<lambda>i. idt_set_gate (of_nat i) (isr i) 0x08 0x8E) [0..<32] idt
      in fold (\<lambda>i. idt_set_gate (of_nat (32 + i)) (irq i) 0x08 0x8E) [0..<16] idt)"

text \<open>\<open>isr_handler\<close> prints and stops the processor; \<open>cr2\<close> is the address of a page fault.\<close>

definition isr_handler :: "u32 \<Rightarrow> u32 \<Rightarrow> u32 \<Rightarrow> u32 \<Rightarrow> bytes option" where
  "isr_handler cr2 int_no err_code eip = do {
     n \<leftarrow> itoa int_no (replicate 16 0) 10;
     fault \<leftarrow> (if int_no = 14 then do {
         a \<leftarrow> itoa cr2 (replicate 16 0) 16;
         Some (ascii ''Page Fault at: 0x'' @ cstr a @ [10])
       } else Some []);
     e \<leftarrow> itoa eip (replicate 16 0) 16;
     c \<leftarrow> itoa err_code (replicate 16 0) 16;
     Some ([10] @ ascii ''!!! EXCEPTION '' @ cstr n @ ascii '' !!!'' @ [10] @ fault @
       ascii ''EIP: 0x'' @ cstr e @ ascii '' Error: 0x'' @ cstr c @ [10])
   }"

section \<open>The interrupt controller\<close>

definition PIC1_COMMAND :: u16 where "PIC1_COMMAND = 0x20"
definition PIC1_DATA :: u16 where "PIC1_DATA = 0x21"
definition PIC2_COMMAND :: u16 where "PIC2_COMMAND = 0xA0"
definition PIC2_DATA :: u16 where "PIC2_DATA = 0xA1"
definition ICW1_INIT :: u8 where "ICW1_INIT = 0x10"
definition ICW1_ICW4 :: u8 where "ICW1_ICW4 = 0x01"
definition ICW4_8086 :: u8 where "ICW4_8086 = 0x01"

definition pic_remap :: "'c port_ops \<Rightarrow> 'c \<Rightarrow> 'c" where
  "pic_remap P d =
     (let d = outb P PIC1_COMMAND (ICW1_INIT OR ICW1_ICW4) d;
          d = outb P PIC2_COMMAND (ICW1_INIT OR ICW1_ICW4) d;
          d = outb P PIC1_DATA 0x20 d;
          d = outb P PIC2_DATA 0x28 d;
          d = outb P PIC1_DATA 4 d;
          d = outb P PIC2_DATA 2 d;
          d = outb P PIC1_DATA ICW4_8086 d;
          d = outb P PIC2_DATA ICW4_8086 d;
          d = outb P PIC1_DATA 0x00 d
      in outb P PIC2_DATA 0xFB d)"

text \<open>The port and the line of an interrupt; a shift by 32 or more has no defined value.\<close>

definition pic_line :: "u8 \<Rightarrow> (u16 \<times> nat) option" where
  "pic_line irq = (let (port, irq) = (if irq < 8 then (PIC1_DATA, irq) else (PIC2_DATA, irq - 8))
     in if unat irq < 32 then Some (port, unat irq) else None)"

definition pic_enable_irq :: "'c port_ops \<Rightarrow> u8 \<Rightarrow> 'c \<Rightarrow> 'c option" where
  "pic_enable_irq P irq d = do {
     (port, n) \<leftarrow> pic_line irq;
     let (v, d) = inb P port d;
     Some (outb P port (ucast ((ucast v :: u32) AND NOT (push_bit n 1))) d)
   }"

definition pic_disable_irq :: "'c port_ops \<Rightarrow> u8 \<Rightarrow> 'c \<Rightarrow> 'c option" where
  "pic_disable_irq P irq d = do {
     (port, n) \<leftarrow> pic_line irq;
     let (v, d) = inb P port d;
     Some (outb P port (ucast ((ucast v :: u32) OR push_bit n 1)) d)
   }"

section \<open>What the processor reads\<close>

definition segment_base :: "gdt_entry \<Rightarrow> u32" where
  "segment_base e = ucast (base_low e) OR push_bit 16 (ucast (base_mid e)) OR push_bit 24 (ucast (base_high e))"

text \<open>The last offset of the segment, in units of one byte or of 4 kB.\<close>

definition segment_limit :: "gdt_entry \<Rightarrow> u32" where
  "segment_limit e = (let l = ucast (limit_low e) OR push_bit 16 (ucast (gran e AND 0x0F)) in
     if bit (gran e) 7 then push_bit 12 l OR 0xFFF else l)"

definition segment_dpl :: "gdt_entry \<Rightarrow> u8" where "segment_dpl e = drop_bit 5 (access e) AND 3"
definition segment_present :: "gdt_entry \<Rightarrow> bool" where "segment_present e = bit (access e) 7"
definition segment_is_code :: "gdt_entry \<Rightarrow> bool" where "segment_is_code e = (bit (access e) 4 \<and> bit (access e) 3)"

definition flat_segment :: "gdt_entry \<Rightarrow> u8 \<Rightarrow> bool \<Rightarrow> bool" where
  "flat_segment e dpl code \<longleftrightarrow> segment_present e \<and> segment_base e = 0 \<and> segment_limit e = 0xFFFFFFFF \<and> segment_dpl e = dpl \<and>
     segment_is_code e = code"

definition gate_handler :: "idt_entry \<Rightarrow> u32" where
  "gate_handler e = ucast (offset_low e) OR push_bit 16 (ucast (offset_high e))"

definition gate_present :: "idt_entry \<Rightarrow> bool" where "gate_present e = bit (type_attr e) 7"
definition gate_dpl :: "idt_entry \<Rightarrow> u8" where "gate_dpl e = drop_bit 5 (type_attr e) AND 3"

text \<open>An \<open>int n\<close> in user mode goes through a present gate of level 3 only.\<close>

definition user_may_call :: "idt_entry list \<Rightarrow> nat \<Rightarrow> bool" where
  "user_may_call idt n \<longleftrightarrow> n < length idt \<and> gate_present (idt ! n) \<and> gate_dpl (idt ! n) = 3"

text \<open>With the I/O privilege level 0, an access to \<open>n\<close> ports from \<open>p\<close> on in user mode is checked against the bit map
  of the task state segment: both bytes of the map lie inside the segment and all the bits are clear.\<close>

definition user_may_access :: "bytes \<Rightarrow> u16 \<Rightarrow> u32 \<Rightarrow> nat \<Rightarrow> nat \<Rightarrow> bool" where
  "user_may_access tss iomap limit p n \<longleftrightarrow> unat iomap + p div 8 + 1 \<le> unat limit \<and>
     (\<forall>k<n. \<not> bit (tss ! (unat iomap + (p + k) div 8)) ((p + k) mod 8))"


section \<open>Lemmas\<close>

lemma word_halves: "ucast (ucast (w AND 0xFFFF) :: u16) OR push_bit 16 (ucast (ucast (drop_bit 16 w AND 0xFFFF) :: u16)) = (w :: u32)"
proof -
  have m: "(0xFFFF :: u32) = mask 16" by (simp add: mask_eq_exp_minus_1)
  show ?thesis
  proof (rule bit_word_eqI)
    fix n assume "n < LENGTH(32)"
    then consider "n < 16" | "16 \<le> n" "n < 32" by fastforce
    then show "bit (ucast (ucast (w AND 0xFFFF) :: u16) OR push_bit 16 (ucast (ucast (drop_bit 16 w AND 0xFFFF) :: u16)) :: u32) n = bit w n"
      unfolding m by cases (auto simp: bit_simps)
  qed
qed

lemma base_parts: "ucast (ucast (w AND 0xFFFF) :: u16) OR push_bit 16 (ucast (ucast (drop_bit 16 w AND 0xFF) :: u8)) OR
    push_bit 24 (ucast (ucast (drop_bit 24 w AND 0xFF) :: u8)) = (w :: u32)"
proof -
  have m: "(0xFFFF :: u32) = mask 16" "(0xFF :: u32) = mask 8" by (simp_all add: mask_eq_exp_minus_1)
  show ?thesis
  proof (rule bit_word_eqI)
    fix n assume "n < LENGTH(32)"
    then consider "n < 16" | "16 \<le> n" "n < 24" | "24 \<le> n" "n < 32" by fastforce
    then show "bit (ucast (ucast (w AND 0xFFFF) :: u16) OR push_bit 16 (ucast (ucast (drop_bit 16 w AND 0xFF) :: u8)) OR
        push_bit 24 (ucast (ucast (drop_bit 24 w AND 0xFF) :: u8)) :: u32) n = bit w n"
      unfolding m by cases (auto simp: bit_simps)
  qed
qed

lemma length_idt_set_gate [simp]: "length (idt_set_gate n h s t idt) = length idt"
  by (simp add: idt_set_gate_def)

lemma length_gates [simp]: "length (fold (\<lambda>i. idt_set_gate (f i) (h i) s t) is idt) = length idt"
  by (induction "is" arbitrary: idt) simp_all

definition gate :: "u32 \<Rightarrow> u16 \<Rightarrow> u8 \<Rightarrow> idt_entry" where
  "gate handler sel ty = \<lparr>offset_low = ucast (handler AND 0xFFFF), selector = sel, zero_byte = 0, type_attr = ty,
     offset_high = ucast (drop_bit 16 handler AND 0xFFFF)\<rparr>"

lemma gate_views [simp]: "gate_handler (gate h s t) = h" "gate_present (gate h s t) = bit t 7" "gate_dpl (gate h s t) = drop_bit 5 t AND 3"
  using word_halves[of h] by (simp_all add: gate_def gate_handler_def gate_present_def gate_dpl_def)

text \<open>A run of gates from vector \<open>b\<close> on.\<close>

lemma gates_nth:
  "b + m \<le> 256 \<Longrightarrow> length idt = 256 \<Longrightarrow> n < 256 \<Longrightarrow>
   fold (\<lambda>i. idt_set_gate (of_nat (b + i)) (h i) s t) [0..<m] idt ! n =
     (if b \<le> n \<and> n < b + m then gate (h (n - b)) s t else idt ! n)"
proof (induction m)
  case (Suc m)
  have "unat (of_nat (b + m) :: u8) = b + m" using Suc.prems(1) by (subst unat_of_nat) (simp add: take_bit_nat_eq_self)
  then have "idt_set_gate (of_nat (b + m)) (h m) s t l = l[b + m := gate (h m) s t]" for l
    by (simp add: idt_set_gate_def gate_def)
  moreover have "b + m \<le> 256" "b + m < 256" using Suc.prems(1) by simp_all
  ultimately show ?case using Suc.IH[OF _ Suc.prems(2,3)] Suc.prems(2,3) by (auto simp: nth_list_update)
qed auto

lemma idt_init_nth:
  assumes "length idt = 256" and "n < 256"
  shows "idt_init isr irq idt ! n =
    (if n < 32 then gate (isr n) 0x08 0x8E else if n < 48 then gate (irq (n - 32)) 0x08 0x8E else gate 0 0 0)"
proof -
  have a: "fold (\<lambda>i. idt_set_gate (of_nat i) (h i) s t) [0..<m] l ! n = (if n < m then gate (h n) s t else l ! n)"
    if "m \<le> 256" "length l = 256" for h s t m l
    using gates_nth[of 0 m l n h s t] that assms(2) by simp
  show ?thesis
    using gates_nth[of 32 16 _ n irq "0x08" "0x8E"] assms by (simp add: idt_init_def Let_def a)
qed

section \<open>Properties\<close>

text \<open>The segments the processor runs on: after \<open>gdt_init\<close> and \<open>tss_init\<close> the table describes flat code and data
  segments of 4 GB for the kernel (level 0) and for user programs (level 3), and the task state segment at its place
  with its size, whose stack for level 0 is the kernel stack.\<close>

theorem gdt_segments:
  "\<exists>gdt tss gdt'. gdt_init (replicate 6 zero_descriptor) = Some gdt \<and> tss_init tss_address stack_top gdt = Some (tss, gdt') \<and>
    flat_segment (gdt' ! 1) 0 True \<and> flat_segment (gdt' ! 2) 0 False \<and> flat_segment (gdt' ! 3) 3 True \<and> flat_segment (gdt' ! 4) 3 False \<and>
    \<not> segment_present (gdt' ! 0) \<and> segment_present (gdt' ! 5) \<and> segment_base (gdt' ! 5) = tss_address \<and>
    segment_limit (gdt' ! 5) = 103 \<and> length (tss_to_bytes tss) = 104 \<and> tss_esp0 tss = stack_top \<and> tss_ss0 tss = 0x10"
  using base_parts[of tss_address]
  by (simp add: gdt_init_def gdt_set_def tss_init_def gdt_set_tss_def zero_descriptor_def numeral_2_eq_2[symmetric] flat_segment_def
      segment_present_def segment_base_def segment_limit_def segment_dpl_def segment_is_code_def tss_to_bytes_def bit_numeral_rec Let_def
      nth_list_update)

text \<open>User programs can enter the kernel through the system call gate only: of the 256 gates set up at boot,
  vector 0x80 is the only one that is present and open to level 3; exceptions and interrupt lines lead to their own
  handlers.\<close>

theorem idt_single_user_gate:
  assumes "length idt0 = 256" and "idt = idt_set_gate 0x80 syscall_handler 0x08 0xEE (idt_init isr irq idt0)"
  shows "(user_may_call idt n \<longleftrightarrow> n = 0x80) \<and> gate_handler (idt ! 0x80) = syscall_handler \<and>
    (n < 32 \<longrightarrow> gate_present (idt ! n) \<and> gate_handler (idt ! n) = isr n) \<and>
    (32 \<le> n \<and> n < 48 \<longrightarrow> gate_present (idt ! n) \<and> gate_handler (idt ! n) = irq (n - 32))"
proof -
  have len: "length idt = 256" using assms by (simp add: idt_init_def Let_def)
  have nth: "idt ! k = (if k = 0x80 then gate syscall_handler 0x08 0xEE
      else if k < 32 then gate (isr k) 0x08 0x8E else if k < 48 then gate (irq (k - 32)) 0x08 0x8E else gate 0 0 0)" if "k < 256" for k
  proof -
    have "idt = (idt_init isr irq idt0)[0x80 := gate syscall_handler 0x08 0xEE]" by (simp add: assms(2) idt_set_gate_def gate_def)
    moreover have "length (idt_init isr irq idt0) = 256" using assms(1) by (simp add: idt_init_def Let_def)
    ultimately show ?thesis using idt_init_nth[OF assms(1) that, of isr irq] by (simp add: nth_list_update)
  qed
  have b: "bit (0x8E :: u8) 7" "bit (0xEE :: u8) 7" "\<not> bit (0 :: u8) 7" by (simp_all add: bit_numeral_rec)
  show ?thesis
    using nth[of n] nth[of "0x80"] by (cases "n < 256") (auto simp: user_may_call_def len b)
qed

theorem idt_single_user_gate_witness:
  "user_may_call (idt_set_gate 0x80 0x101000 0x08 0xEE (idt_init (\<lambda>n. 0x100000) (\<lambda>n. 0x100800) (replicate 256 (gate 0 0 0)))) 0x80"
  using idt_single_user_gate[OF _ refl, of "replicate 256 (gate 0 0 0)" "0x101000" "\<lambda>n. 0x100000" "\<lambda>n. 0x100800" "0x80"] by simp

text \<open>The task state segment leaves the I/O map at offset 0, over the segment's own zero bytes: the processor lets
  user programs access the keyboard and mouse controller, the clock, and all ports of the disk controller directly.\<close>

theorem tss_opens_ports:
  assumes "tss_init tss_address stack_top gdt = Some (tss, gdt')" and "p = 0x60 \<or> p = 0x64 \<or> p = 0x70 \<or> p = 0x71 \<or> 0x1F0 \<le> p \<and> p \<le> 0x1F7"
  shows "user_may_access (tss_to_bytes tss) (tss_iomap_base tss) (segment_limit (gdt' ! 5)) p 1"
proof -
  have tss: "tss = zero_tss\<lparr>tss_ss0 := 0x10, tss_esp0 := stack_top, tss_cs := 0x0B, tss_ss := 0x13, tss_ds := 0x13,
      tss_es := 0x13, tss_fs := 0x13, tss_gs := 0x13\<rparr>"
    and g: "gdt_set_tss 5 tss_address 103 gdt = Some gdt'"
    using assms(1) by (auto simp: tss_init_def tss_to_bytes_def Let_def bind_eq_Some_conv)
  have l: "segment_limit (gdt' ! 5) = 103"
    using g by (auto simp: gdt_set_tss_def segment_limit_def Let_def split: if_splits)
  have z: "tss_to_bytes tss ! k = 0" if "k = 12 \<or> k = 14 \<or> k = 62" for k
    using that by (elim disjE) (simp_all add: tss tss_to_bytes_def zero_tss_def le32_def le16_def)
  have "p div 8 = 12 \<or> p div 8 = 14 \<or> p div 8 = 62" using assms(2) by auto
  then show ?thesis using z[of "p div 8"] by (auto simp: user_may_access_def l tss zero_tss_def)
qed

theorem tss_opens_ports_witness:
  "\<exists>tss gdt'. tss_init 0x300000 0x310000 (replicate 6 zero_descriptor) = Some (tss, gdt') \<and>
    user_may_access (tss_to_bytes tss) (tss_iomap_base tss) (segment_limit (gdt' ! 5)) 0x1F7 1"
proof -
  have "tss_init 0x300000 0x310000 (replicate 6 zero_descriptor) \<noteq> None" by (simp add: tss_init_def gdt_set_tss_def Let_def)
  then obtain tss gdt' where t: "tss_init 0x300000 0x310000 (replicate 6 zero_descriptor) = Some (tss, gdt')" by auto
  from tss_opens_ports[OF t, of "0x1F7"] t show ?thesis by auto
qed

end
