(* ===== verification/Rtc.thy ===== *)
theory Rtc
  imports Fat32_File
begin

text \<open>
  The real-time clock, \<open>src/drivers/rtc.c\<close>: reading the CMOS registers through the ports 0x70 and 0x71, their
  binary coded decimals, the local time, and the time zone file.
\<close>

section \<open>The driver\<close>

definition RTC_PORT :: u16 where "RTC_PORT = 0x70"
definition RTC_DATA :: u16 where "RTC_DATA = 0x71"

record rtc_time_t =
  tm_sec :: u8
  tm_min :: u8
  tm_hour :: u8
  tm_day :: u8
  tm_month :: u8
  tm_year :: u16

definition rtc_read_reg :: "'c port_ops \<Rightarrow> u8 \<Rightarrow> 'c \<Rightarrow> u8 \<times> 'c" where
  "rtc_read_reg P reg d = inb P RTC_DATA (outb P RTC_PORT reg d)"

definition bcd_to_dec :: "u8 \<Rightarrow> u8" where
  "bcd_to_dec v = drop_bit 4 v * 10 + (v AND 0x0F)"

definition get_timezone_offset :: "int \<Rightarrow> int \<Rightarrow> int" where
  "get_timezone_offset month day =
     (if month > 3 \<and> month < 10 then 3
      else if month = 3 \<and> day \<ge> 25 then 3
      else if month = 10 \<and> day \<le> 31 then 3
      else 2)"

definition rtc_read :: "'c port_ops \<Rightarrow> 'c \<Rightarrow> rtc_time_t \<times> 'c" where
  "rtc_read P d =
     (let (sec, d) = rtc_read_reg P 0x00 d;
          (min, d) = rtc_read_reg P 0x02 d;
          (hour, d) = rtc_read_reg P 0x04 d;
          (day, d) = rtc_read_reg P 0x07 d;
          (month, d) = rtc_read_reg P 0x08 d;
          (year, d) = rtc_read_reg P 0x09 d
      in (\<lparr>tm_sec = bcd_to_dec sec, tm_min = bcd_to_dec min, tm_hour = bcd_to_dec hour, tm_day = bcd_to_dec day,
           tm_month = bcd_to_dec month, tm_year = ucast (bcd_to_dec year) + 2000\<rparr>, d))"

text \<open>The time zone file: at most 15 bytes of it.  The buffer is read up to its terminator only; a failed read would
  put the terminator before the buffer.\<close>

definition load_timezone :: "'d disk_ops \<Rightarrow> int \<Rightarrow> 'd fat_state \<Rightarrow> (int \<times> 'd fat_state) option" where
  "load_timezone D timezone_offset s = do {
     (r, file, s) \<leftarrow> fat32_open D (ascii ''tz.txt'' @ [0]) 0 s;
     if r \<noteq> 0 then Some (timezone_offset, s)
     else do {
       (n, file, buf, s) \<leftarrow> fat32_read D file (Some (replicate 15 0)) 15 s;
       if n < 0 then None
       else do {
         let buf = put_at ((case buf of Some b \<Rightarrow> b | None \<Rightarrow> []) @ [0]) (nat n) [0];
         offset \<leftarrow> (if buf ! 0 = 85 \<and> buf ! 1 = 84 \<and> buf ! 2 = 67 then katoi (drop 3 buf) else Some timezone_offset);
         (_, _, s) \<leftarrow> fat32_close D file s;
         Some (offset, s)
       }
     }
   }"

definition rtc_get_local_time :: "'c port_ops \<Rightarrow> 'c \<Rightarrow> rtc_time_t \<times> 'c" where
  "rtc_get_local_time P d =
     (let (t, d) = rtc_read P d;
          offset = get_timezone_offset (int (unat (tm_month t))) (int (unat (tm_day t)))
      in (t\<lparr>tm_hour := word_of_int ((int (unat (tm_hour t)) + offset) mod 24)\<rparr>, d))"

text \<open>The object as it lies in memory, eight bytes with one of padding.\<close>

definition rtc_time_to_bytes :: "u8 \<Rightarrow> rtc_time_t \<Rightarrow> bytes" where
  "rtc_time_to_bytes pad t = [tm_sec t, tm_min t, tm_hour t, tm_day t, tm_month t, pad] @ le16 (tm_year t)"

section \<open>The clock\<close>

text \<open>The chip answers at the data port with the register selected at the index port; reading changes no register.\<close>

locale cmos_clock =
  fixes P :: "'c port_ops" and regs :: "'c \<Rightarrow> u8 \<Rightarrow> u8"
  assumes read_reg: "fst (inb P RTC_DATA (outb P RTC_PORT r d)) = regs d r"
    and read_keeps: "regs (snd (inb P RTC_DATA (outb P RTC_PORT r d))) = regs d"
begin

lemma rtc_read_reg_value: "rtc_read_reg P r d = (regs d r, snd (rtc_read_reg P r d))"
  using read_reg[of r d] by (simp add: rtc_read_reg_def prod_eq_iff)

lemma rtc_read_reg_keeps: "regs (snd (rtc_read_reg P r d)) = regs d"
  using read_keeps[of r d] by (simp add: rtc_read_reg_def)

lemma rtc_read_value:
  "\<exists>d'. rtc_read P d = (\<lparr>tm_sec = bcd_to_dec (regs d 0), tm_min = bcd_to_dec (regs d 2), tm_hour = bcd_to_dec (regs d 4),
    tm_day = bcd_to_dec (regs d 7), tm_month = bcd_to_dec (regs d 8), tm_year = ucast (bcd_to_dec (regs d 9)) + 2000\<rparr>, d') \<and>
    regs d' = regs d"
  unfolding rtc_read_def
  by (subst rtc_read_reg_value, simp, subst rtc_read_reg_value, simp, subst rtc_read_reg_value, simp,
      subst rtc_read_reg_value, simp, subst rtc_read_reg_value, simp, subst rtc_read_reg_value, simp add: rtc_read_reg_keeps)

end

text \<open>The chip itself: an index register and the registers behind it.\<close>

record cmos_dev =
  c_index :: u8
  c_regs :: "u8 \<Rightarrow> u8"

definition cmos_ports :: "cmos_dev port_ops" where
  "cmos_ports = \<lparr>inb = (\<lambda>p d. (if p = RTC_DATA then c_regs d (c_index d) else 0xFF, d)),
     outb = (\<lambda>p v d. if p = RTC_PORT then d\<lparr>c_index := v\<rparr> else d),
     inw = (\<lambda>p d. (0, d)), outw = (\<lambda>p v d. d), inl = (\<lambda>p d. (0, d)), outl = (\<lambda>p v d. d)\<rparr>"

interpretation cmos: cmos_clock cmos_ports c_regs
  by unfold_locales (simp_all add: cmos_ports_def RTC_DATA_def RTC_PORT_def)

section \<open>Local time\<close>

definition bcd :: "nat \<Rightarrow> u8" where
  "bcd n = of_nat (n div 10 * 16 + n mod 10)"

lemma bcd_to_dec_bcd: "n < 100 \<Longrightarrow> bcd_to_dec (bcd n) = of_nat n"
proof -
  assume n: "n < 100"
  have l: "n div 10 * 16 + n mod 10 < 256" using n by (simp add: less_mult_imp_div_less)
  have u: "unat (bcd n) = n div 10 * 16 + n mod 10"
    using l by (simp only: bcd_def unat_of_nat) (simp add: take_bit_nat_eq_self)
  have m: "(0x0F :: u8) = mask 4" by (simp add: mask_eq_exp_minus_1)
  have hi: "unat (drop_bit 4 (bcd n)) = n div 10"
    by (simp only: unsigned_drop_bit_eq) (use l in \<open>simp add: drop_bit_eq_div u take_bit_nat_eq_self\<close>)
  have lo: "unat (bcd n AND 0x0F) = n mod 10"
    unfolding m by (simp only: take_bit_eq_mask[symmetric] unsigned_take_bit_eq) (simp add: take_bit_eq_mod u mod_mult_self3)
  have "bcd_to_dec (bcd n) = of_nat (unat (drop_bit 4 (bcd n))) * 10 + of_nat (unat (bcd n AND 0x0F))" by (simp add: bcd_to_dec_def)
  also have "\<dots> = of_nat (n div 10 * 10 + n mod 10)" unfolding hi lo by (simp only: of_nat_add of_nat_mult of_nat_numeral)
  finally show ?thesis by (simp only: div_mult_mod_eq)
qed

lemma unat_small: "n < 100 \<Longrightarrow> unat (of_nat n :: u8) = n"
  by (simp add: unat_of_nat take_bit_nat_eq_self)

lemma uint_small: "n < 100 \<Longrightarrow> uint (of_nat n :: u8) = int n"
  by (simp only: uint_nat unat_small)

text \<open>The local time of a clock that holds a time of day in binary coded decimals: seconds, minutes and date are those
  of the clock, the hour is two or three hours ahead, modulo 24.  The date does not follow when the hour wraps.\<close>

theorem rtc_local_time_correct:
  assumes "cmos_clock P regs"
    and "regs d 0 = bcd sec" and "regs d 2 = bcd mn" and "regs d 4 = bcd hour" and "regs d 7 = bcd day" and "regs d 8 = bcd month"
    and "regs d 9 = bcd year" and "sec < 60" and "mn < 60" and "hour < 24" and "day < 32" and "month < 13" and "year < 100"
  shows "\<exists>d' off. rtc_get_local_time P d = (\<lparr>tm_sec = of_nat sec, tm_min = of_nat mn, tm_hour = of_nat ((hour + off) mod 24),
      tm_day = of_nat day, tm_month = of_nat month, tm_year = of_nat (2000 + year)\<rparr>, d') \<and>
    int off = get_timezone_offset (int month) (int day) \<and> off \<in> {2, 3} \<and> regs d' = regs d"
proof -
  let ?off = "get_timezone_offset (int month) (int day)"
  have b: "bcd_to_dec (bcd sec) = of_nat sec" "bcd_to_dec (bcd mn) = of_nat mn" "bcd_to_dec (bcd hour) = of_nat hour"
    "bcd_to_dec (bcd day) = of_nat day" "bcd_to_dec (bcd month) = of_nat month" "bcd_to_dec (bcd year) = of_nat year"
    using assms(8-13) by (simp_all add: bcd_to_dec_bcd)
  obtain d' where d': "rtc_read P d = (\<lparr>tm_sec = of_nat sec, tm_min = of_nat mn, tm_hour = of_nat hour, tm_day = of_nat day,
      tm_month = of_nat month, tm_year = ucast (of_nat year :: u8) + 2000\<rparr>, d')" "regs d' = regs d"
    using cmos_clock.rtc_read_value[OF assms(1), of d] assms(2-7) b by auto
  have y: "(ucast (of_nat year :: u8) + 2000 :: u16) = of_nat (2000 + year)"
  proof -
    have "(ucast (of_nat year :: u8) :: u16) = of_nat (unat (of_nat year :: u8))" by simp
    then show ?thesis using unat_small[OF assms(13)] by simp
  qed
  have off: "?off = 2 \<or> ?off = 3" by (simp add: get_timezone_offset_def)
  then obtain k where k: "?off = int k" "k \<in> {2, 3}" by (metis insert_iff of_nat_numeral)
  have "(int hour + ?off) mod 24 = int ((hour + k) mod 24)" unfolding k(1) by (simp add: zmod_int)
  then have h: "(word_of_int ((int hour + ?off) mod 24) :: u8) = of_nat ((hour + k) mod 24)" by simp
  have "rtc_get_local_time P d = (\<lparr>tm_sec = of_nat sec, tm_min = of_nat mn, tm_hour = of_nat ((hour + k) mod 24),
      tm_day = of_nat day, tm_month = of_nat month, tm_year = of_nat (2000 + year)\<rparr>, d')"
    using assms(10-12) h by (simp add: rtc_get_local_time_def d'(1) y uint_small)
  then show ?thesis using k(2) d'(2) by (intro exI[of _ d'] exI[of _ k]) (simp add: k)
qed

theorem rtc_local_time_correct_witness:
  "\<exists>d'. rtc_get_local_time cmos_ports \<lparr>c_index = 0, c_regs = (\<lambda>_. 0)(4 := 0x23, 7 := 0x15, 8 := 0x06, 9 := 0x25)\<rparr> =
    (\<lparr>tm_sec = 0, tm_min = 0, tm_hour = 2, tm_day = 15, tm_month = 6, tm_year = 2025\<rparr>, d')"
  using rtc_local_time_correct[OF cmos.cmos_clock_axioms,
      of "\<lparr>c_index = 0, c_regs = (\<lambda>_. 0)(4 := 0x23, 7 := 0x15, 8 := 0x06, 9 := 0x25)\<rparr>" 0 0 23 15 6 25]
  by (auto simp: bcd_def get_timezone_offset_def)

end
