(* ===== verification/Mouse_Timer.thy ===== *)
theory Mouse_Timer
  imports Terminal Interrupts
begin

text \<open>
  The PS/2 mouse and the timer: \<open>src/drivers/mouse.c\<close> and \<open>src/drivers/timer.c\<close>.  The mouse interrupt assembles
  packets of three bytes and moves the pointer; the timer interrupt counts ticks and draws the pointer.  The polling
  loops of the mouse set-up are \<open>partial_function\<close>s: a controller that never becomes ready keeps the kernel waiting.
\<close>

section \<open>The mouse\<close>

definition PS2_DATA :: u16 where "PS2_DATA = 0x60"
definition PS2_STATUS :: u16 where "PS2_STATUS = 0x64"
definition PS2_CMD :: u16 where "PS2_CMD = 0x64"

record mouse_state =
  mouse_x :: int
  mouse_y :: int
  mouse_buttons :: int
  mouse_cycle :: u8
  mouse_packet :: "u8 list"

definition mouse_boot :: mouse_state where
  "mouse_boot = \<lparr>mouse_x = 100, mouse_y = 100, mouse_buttons = 0, mouse_cycle = 0, mouse_packet = [0, 0, 0]\<rparr>"

partial_function (option) ps2_wait_read :: "'c port_ops \<Rightarrow> 'c \<Rightarrow> 'c option" where
  "ps2_wait_read P d = (let (s, d) = inb P PS2_STATUS d in if s AND 1 \<noteq> 0 then Some d else ps2_wait_read P d)"

partial_function (option) ps2_wait_write :: "'c port_ops \<Rightarrow> 'c \<Rightarrow> 'c option" where
  "ps2_wait_write P d = (let (s, d) = inb P PS2_STATUS d in if s AND 2 \<noteq> 0 then ps2_wait_write P d else Some d)"

definition ps2_write :: "'c port_ops \<Rightarrow> u8 \<Rightarrow> 'c \<Rightarrow> 'c option" where
  "ps2_write P v d = do { d \<leftarrow> ps2_wait_write P d; Some (outb P PS2_DATA v d) }"

definition ps2_read :: "'c port_ops \<Rightarrow> 'c \<Rightarrow> (u8 \<times> 'c) option" where
  "ps2_read P d = do { d \<leftarrow> ps2_wait_read P d; Some (inb P PS2_DATA d) }"

definition mouse_init :: "'c port_ops \<Rightarrow> 'c \<Rightarrow> 'c option" where
  "mouse_init P d = do {
     let d = outb P PS2_CMD 0xA8 d;
     d \<leftarrow> ps2_wait_write P d;
     let d = outb P PS2_CMD 0x20 d;
     (status, d) \<leftarrow> ps2_read P d;
     let status = status OR 0x02;
     d \<leftarrow> ps2_wait_write P d;
     let d = outb P PS2_CMD 0x60 d;
     d \<leftarrow> ps2_write P status d;
     d \<leftarrow> ps2_wait_write P d;
     let d = outb P PS2_CMD 0xD4 d;
     d \<leftarrow> ps2_write P 0xF4 d;
     (_, d) \<leftarrow> ps2_read P d;
     pic_enable_irq P 12 d
   }"

text \<open>The packet bytes are signed.  The sums do not overflow since the pointer is on the screen (\<open>pointer_on_screen_irq\<close>).\<close>

definition mouse_irq :: "'c port_ops \<Rightarrow> 'c \<times> mouse_state \<Rightarrow> 'c \<times> mouse_state" where
  "mouse_irq P = (\<lambda>(d, m).
     let (data, d) = inb P PS2_DATA d in
     if mouse_cycle m = 0 then
       (if data AND 0x08 = 0 then (d, m)
        else (d, m\<lparr>mouse_packet := (mouse_packet m)[0 := data], mouse_cycle := 1\<rparr>))
     else if mouse_cycle m = 1 then (d, m\<lparr>mouse_packet := (mouse_packet m)[1 := data], mouse_cycle := 2\<rparr>)
     else
       let m = m\<lparr>mouse_packet := (mouse_packet m)[2 := data], mouse_cycle := 0\<rparr>;
           m = m\<lparr>mouse_buttons := uint (mouse_packet m ! 0 AND 7)\<rparr>;
           m = m\<lparr>mouse_x := mouse_x m + sint (mouse_packet m ! 1)\<rparr>;
           m = m\<lparr>mouse_y := mouse_y m - sint (mouse_packet m ! 2)\<rparr>;
           m = (if mouse_x m < 0 then m\<lparr>mouse_x := 0\<rparr> else m);
           m = (if mouse_y m < 0 then m\<lparr>mouse_y := 0\<rparr> else m);
           m = (if mouse_x m > 1919 then m\<lparr>mouse_x := 1919\<rparr> else m);
           m = (if mouse_y m > 1079 then m\<lparr>mouse_y := 1079\<rparr> else m)
       in (d, m))"

section \<open>The timer\<close>

definition PIT_CHANNEL0 :: u16 where "PIT_CHANNEL0 = 0x40"
definition PIT_COMMAND :: u16 where "PIT_COMMAND = 0x43"
definition PIT_FREQUENCY :: u32 where "PIT_FREQUENCY = 1193182"

record timer_sys =
  ticks :: u32
  timer_frequency :: u32
  t_mouse :: mouse_state
  t_screen :: fb_term

definition timer_callback :: "timer_sys \<Rightarrow> timer_sys" where
  "timer_callback s = (let s = s\<lparr>ticks := ticks s + 1\<rparr>
     in s\<lparr>t_screen := draw_mouse (mouse_x (t_mouse s)) (mouse_y (t_mouse s)) (t_screen s)\<rparr>)"

text \<open>Dividing by a frequency of 0 is a processor exception.\<close>

definition timer_init :: "'c port_ops \<Rightarrow> u32 \<Rightarrow> 'c \<times> timer_sys \<Rightarrow> ('c \<times> timer_sys) option" where
  "timer_init P frequency = (\<lambda>(d, s).
     let s = s\<lparr>timer_frequency := frequency\<rparr> in
     if frequency = 0 then None else
     let divisor = PIT_FREQUENCY div frequency;
         d = outb P PIT_COMMAND 0x36 d;
         d = outb P PIT_CHANNEL0 (ucast (divisor AND 0xFF)) d;
         d = outb P PIT_CHANNEL0 (ucast (drop_bit 8 divisor AND 0xFF)) d
     in Some (d, s))"

text \<open>The processor halts in the loop and continues after each interrupt; \<open>intr\<close> is what the interrupt does.\<close>

partial_function (option) sleep_loop :: "(timer_sys \<Rightarrow> timer_sys) \<Rightarrow> u32 \<Rightarrow> timer_sys \<Rightarrow> timer_sys option" where
  "sleep_loop intr target s = (if ticks s < target then sleep_loop intr target (intr s) else Some s)"

definition sleep :: "(timer_sys \<Rightarrow> timer_sys) \<Rightarrow> u32 \<Rightarrow> timer_sys \<Rightarrow> timer_sys option" where
  "sleep intr ms s =
     (if timer_frequency s = 0 then Some s
      else
        let ticks_needed = (ms * timer_frequency s) div 1000;
            ticks_needed = (if ticks_needed = 0 then 1 else ticks_needed);
            start = ticks s;
            target = start + ticks_needed
        in sleep_loop intr target s)"

section \<open>Packets\<close>

text \<open>What the bytes of the mouse mean: bytes are skipped up to one with bit 3 set, which starts a packet.\<close>

fun packets :: "u8 list \<Rightarrow> (u8 \<times> u8 \<times> u8) list" where
  "packets (a # b # c # bs) = (if bit a 3 then (a, b, c) # packets bs else packets (b # c # bs))"
| "packets [] = []"
| "packets [a] = []"
| "packets [a, b] = []"

definition clamp :: "int \<Rightarrow> int \<Rightarrow> int" where
  "clamp hi v = max 0 (min hi v)"

fun move :: "u8 \<times> u8 \<times> u8 \<Rightarrow> int \<times> int \<times> int \<Rightarrow> int \<times> int \<times> int" where
  "move (a, b, c) (x, y, k) = (clamp 1919 (x + sint b), clamp 1079 (y - sint c), uint (a AND 7))"

definition pointer :: "mouse_state \<Rightarrow> int \<times> int \<times> int" where
  "pointer m = (mouse_x m, mouse_y m, mouse_buttons m)"

definition pointer_on_screen :: "mouse_state \<Rightarrow> bool" where
  "pointer_on_screen m \<longleftrightarrow> mouse_x m \<in> {0..1919} \<and> mouse_y m \<in> {0..1079} \<and> length (mouse_packet m) = 3"

lemma pointer_on_screen_boot: "pointer_on_screen mouse_boot"
  by (simp add: pointer_on_screen_def mouse_boot_def)

text \<open>The data port hands out the bytes the mouse has sent, in order.\<close>

locale ps2_bytes =
  fixes P :: "'c port_ops" and pending :: "'c \<Rightarrow> u8 list"
  assumes data_port: "pending d = b # bs \<Longrightarrow> fst (inb P PS2_DATA d) = b \<and> pending (snd (inb P PS2_DATA d)) = bs"
begin

lemma irq_byte:
  assumes "pending d = b # bs"
  obtains d' where "inb P PS2_DATA d = (b, d')" "pending d' = bs"
  using data_port[OF assms] by (metis prod.collapse)

end

lemma bit3: "(a AND 0x08 = 0) \<longleftrightarrow> \<not> bit (a :: u8) 3"
proof -
  have "(0x08 :: u8) = push_bit 3 1" by simp
  then show ?thesis by (metis and.commute and_exp_eq_0_iff_not_bit mult_1 push_bit_eq_mult)
qed

lemma pointer_on_screen_irq: "pointer_on_screen m \<Longrightarrow> pointer_on_screen (snd (mouse_irq P (d, m)))"
  by (simp add: mouse_irq_def pointer_on_screen_def Let_def split: prod.split)


context ps2_bytes
begin

lemma irq_skip:
  assumes "pending d = a # bs" "\<not> bit a 3" "mouse_cycle m = 0"
  obtains d' where "mouse_irq P (d, m) = (d', m)" "pending d' = bs"
proof -
  obtain d' where "inb P PS2_DATA d = (a, d')" "pending d' = bs" using irq_byte[OF assms(1)] .
  then show ?thesis using that assms(2,3) by (simp add: mouse_irq_def bit3)
qed

lemma irq_first:
  assumes "pending d = a # bs" "bit a 3" "mouse_cycle m = 0"
  obtains d' where "mouse_irq P (d, m) = (d', m\<lparr>mouse_packet := (mouse_packet m)[0 := a], mouse_cycle := 1\<rparr>)" "pending d' = bs"
proof -
  obtain d' where "inb P PS2_DATA d = (a, d')" "pending d' = bs" using irq_byte[OF assms(1)] .
  then show ?thesis using that assms(2,3) by (simp add: mouse_irq_def bit3)
qed

lemma irq_second:
  assumes "pending d = b # bs" "mouse_cycle m = 1"
  obtains d' where "mouse_irq P (d, m) = (d', m\<lparr>mouse_packet := (mouse_packet m)[1 := b], mouse_cycle := 2\<rparr>)" "pending d' = bs"
proof -
  obtain d' where "inb P PS2_DATA d = (b, d')" "pending d' = bs" using irq_byte[OF assms(1)] .
  then show ?thesis using that assms(2) by (simp add: mouse_irq_def)
qed

lemma irq_third:
  assumes "pending d = c # bs" "mouse_cycle m = 2" "length (mouse_packet m) = 3"
  obtains d' m' where "mouse_irq P (d, m) = (d', m')" "pending d' = bs" "mouse_cycle m' = 0" "pointer_on_screen m'"
    "pointer m' = move (mouse_packet m ! 0, mouse_packet m ! 1, c) (pointer m)"
proof -
  obtain d' where d: "inb P PS2_DATA d = (c, d')" "pending d' = bs" using irq_byte[OF assms(1)] .
  obtain m' where m: "mouse_irq P (d, m) = (d', m')" using assms(2) by (simp add: mouse_irq_def d(1) Let_def)
  then have "mouse_cycle m' = 0 \<and> pointer_on_screen m' \<and> pointer m' = move (mouse_packet m ! 0, mouse_packet m ! 1, c) (pointer m)"
    using assms(2,3) by (auto simp: mouse_irq_def d(1) Let_def pointer_on_screen_def pointer_def clamp_def max_def min_def split: if_splits)
  then show ?thesis using that m d(2) by blast
qed

lemma irq_packet:
  assumes "pending d = a # b # c # bs" "bit a 3" "mouse_cycle m = 0" "length (mouse_packet m) = 3"
  obtains d' m' where "(mouse_irq P ^^ 3) (d, m) = (d', m')" "pending d' = bs" "mouse_cycle m' = 0" "pointer_on_screen m'"
    "pointer m' = move (a, b, c) (pointer m)"
proof -
  let ?m1 = "m\<lparr>mouse_packet := (mouse_packet m)[0 := a], mouse_cycle := 1\<rparr>"
  let ?m2 = "?m1\<lparr>mouse_packet := (mouse_packet ?m1)[1 := b], mouse_cycle := 2\<rparr>"
  obtain d1 where 1: "mouse_irq P (d, m) = (d1, ?m1)" "pending d1 = b # c # bs" using irq_first[OF assms(1-3)] .
  obtain d2 where 2: "mouse_irq P (d1, ?m1) = (d2, ?m2)" "pending d2 = c # bs" using irq_second[OF 1(2), of ?m1] by auto
  obtain d3 m3 where 3: "mouse_irq P (d2, ?m2) = (d3, m3)" "pending d3 = bs" "mouse_cycle m3 = 0" "pointer_on_screen m3"
    "pointer m3 = move (mouse_packet ?m2 ! 0, mouse_packet ?m2 ! 1, c) (pointer ?m2)"
    using irq_third[OF 2(2), of ?m2] assms(4) by auto
  have p: "pointer ?m2 = pointer m" "mouse_packet ?m2 ! 0 = a" "mouse_packet ?m2 ! 1 = b"
    using assms(4) by (simp_all add: pointer_def)
  have "(mouse_irq P ^^ 3) (d, m) = (d3, m3)" by (simp only: numeral_3_eq_3 funpow.simps o_apply id_apply 1(1) 2(1) 3(1))
  moreover have "pointer m3 = move (a, b, c) (pointer m)" using 3(5) by (simp only: p)
  ultimately show ?thesis using that 3(2-4) by blast
qed

end

lemma funpow_add_apply: "(f ^^ (m + n)) x = (f ^^ m) ((f ^^ n) x)"
  by (simp add: funpow_add)

context ps2_bytes
begin

lemma irq_run:
  "pending d = bytes @ rest \<Longrightarrow> pointer_on_screen m \<Longrightarrow> mouse_cycle m = 0 \<Longrightarrow>
    \<exists>d' m'. (mouse_irq P ^^ length bytes) (d, m) = (d', m') \<and> pending d' = rest \<and> pointer_on_screen m' \<and>
      pointer m' = fold move (packets bytes) (pointer m)"
proof (induction bytes arbitrary: d m rule: packets.induct)
  case (1 a b c bs)
  show ?case
  proof (cases "bit a 3")
    case True
    obtain d1 m1 where s: "(mouse_irq P ^^ 3) (d, m) = (d1, m1)" "pending d1 = bs @ rest" "mouse_cycle m1 = 0" "pointer_on_screen m1"
      "pointer m1 = move (a, b, c) (pointer m)"
      using irq_packet[of d a b c "bs @ rest" m] True "1.prems" by (auto simp: pointer_on_screen_def)
    have l: "length (a # b # c # bs) = length bs + 3" by simp
    show ?thesis using "1.IH"(1)[OF True s(2,4,3)] True s(5) unfolding l funpow_add_apply s(1) by simp
  next
    case False
    obtain d1 where s: "mouse_irq P (d, m) = (d1, m)" "pending d1 = (b # c # bs) @ rest"
      using irq_skip[of d a "b # c # bs @ rest" m] False "1.prems" by auto
    have l: "length (a # b # c # bs) = length (b # c # bs) + 1" by simp
    show ?thesis using "1.IH"(2)[OF False s(2) "1.prems"(2,3)] False unfolding l funpow_add_apply by (simp add: s(1))
  qed
next
  case 2
  then show ?case by simp
next
  case (3 a)
  then have a: "pending d = a # rest" by simp
  show ?case
  proof (cases "bit a 3")
    case True
    obtain d1 where "mouse_irq P (d, m) = (d1, m\<lparr>mouse_packet := (mouse_packet m)[0 := a], mouse_cycle := 1\<rparr>)" "pending d1 = rest"
      using irq_first[OF a True "3.prems"(3)] .
    then show ?thesis using "3.prems"(2) by (simp add: pointer_on_screen_def pointer_def)
  next
    case False
    obtain d1 where "mouse_irq P (d, m) = (d1, m)" "pending d1 = rest" using irq_skip[OF a False "3.prems"(3)] .
    then show ?thesis using "3.prems"(2) by simp
  qed
next
  case (4 a b)
  then have a: "pending d = a # b # rest" by simp
  show ?case
  proof (cases "bit a 3")
    case True
    let ?m1 = "m\<lparr>mouse_packet := (mouse_packet m)[0 := a], mouse_cycle := 1\<rparr>"
    obtain d1 where 1: "mouse_irq P (d, m) = (d1, ?m1)" "pending d1 = b # rest" using irq_first[OF a True "4.prems"(3)] .
    obtain d2 where 2: "mouse_irq P (d1, ?m1) = (d2, ?m1\<lparr>mouse_packet := (mouse_packet ?m1)[1 := b], mouse_cycle := 2\<rparr>)" "pending d2 = rest"
      using irq_second[OF 1(2), of ?m1] by auto
    show ?thesis using "4.prems"(2) 1(1) 2 by (simp add: pointer_on_screen_def pointer_def)
  next
    case False
    obtain d1 where 1: "mouse_irq P (d, m) = (d1, m)" "pending d1 = b # rest" using irq_skip[OF a False "4.prems"(3)] .
    show ?thesis
    proof (cases "bit b 3")
      case True
      obtain d2 where "mouse_irq P (d1, m) = (d2, m\<lparr>mouse_packet := (mouse_packet m)[0 := b], mouse_cycle := 1\<rparr>)" "pending d2 = rest"
        using irq_first[OF 1(2) True "4.prems"(3)] .
      then show ?thesis using "4.prems"(2) 1(1) by (simp add: pointer_on_screen_def pointer_def)
    next
      case f: False
      obtain d2 where "mouse_irq P (d1, m) = (d2, m)" "pending d2 = rest" using irq_skip[OF 1(2) f "4.prems"(3)] .
      then show ?thesis using "4.prems"(2) 1(1) by simp
    qed
  qed
qed

end


text \<open>A mouse that has sent a list of bytes.\<close>

definition mouse_ports :: "u8 list port_ops" where
  "mouse_ports = \<lparr>inb = (\<lambda>p d. if p = PS2_DATA then (case d of [] \<Rightarrow> (0, []) | b # bs \<Rightarrow> (b, bs)) else (if d = [] then 0 else 1, d)),
     outb = (\<lambda>p v d. d), inw = (\<lambda>p d. (0, d)), outw = (\<lambda>p v d. d), inl = (\<lambda>p d. (0, d)), outl = (\<lambda>p v d. d)\<rparr>"

interpretation mouse_bytes: ps2_bytes mouse_ports "\<lambda>d. d"
  by unfold_locales (simp add: mouse_ports_def)

section \<open>Halting for a time\<close>

lemma sleep_loop_run:
  "sleep_loop timer_callback target s = Some ((timer_callback ^^ (unat target - unat (ticks s))) s)"
proof (induction "unat target - unat (ticks s)" arbitrary: s)
  case 0
  then have "\<not> ticks s < target" by (simp add: word_less_nat_alt)
  then show ?case using 0 by (subst sleep_loop.simps) simp
next
  case (Suc n)
  then have l: "ticks s < target" by (simp add: word_less_nat_alt)
  have t: "ticks (timer_callback s) = ticks s + 1" by (simp add: timer_callback_def Let_def)
  have u: "unat (ticks s + 1) = unat (ticks s) + 1" 
  proof -
    have "unat (ticks s) + 1 < 2 ^ 32" using Suc(2) unat_u32[of target] by simp
    then show ?thesis by (simp add: unat_word_ariths)
  qed
  have n: "n = unat target - unat (ticks (timer_callback s))" using Suc(2) by (simp add: t u)
  have e: "unat target - unat (ticks s) = Suc n" using Suc(2) by simp
  show ?case unfolding e
    by (subst sleep_loop.simps) (simp only: l if_True Suc(1)[OF n] n[symmetric] funpow_Suc_right o_apply)
qed

section \<open>Properties\<close>



text \<open>Sleeping ends after exactly the ticks it is to wait for, at least one, and the interrupts of that time have
  drawn the pointer; the tick count wrapping around on the way ends it at once.\<close>

theorem sleep_waits:
  "sleep timer_callback ms s =
     (let target = ticks s + max 1 (ms * timer_frequency s div 1000)
      in Some ((timer_callback ^^ (if timer_frequency s = 0 then 0 else unat target - unat (ticks s))) s))"
proof -
  have "(if x = 0 then 1 else x) = max 1 x" for x :: u32 by (simp add: max_def word_le_nat_alt) (metis One_nat_def Suc_leI unat_gt_0)
  then show ?thesis by (simp add: sleep_def sleep_loop_run Let_def)
qed

end
