(* ===== verification/Kernel_Power.thy ===== *)
theory Kernel_Power
  imports Kernel_Libc Ata
begin

text \<open>
  Power management: \<open>src/drivers/power.c\<close>.  \<open>rd\<close> reads a byte of memory; \<open>None\<close> is an address that is not mapped.
  The ACPI tables are read where the pointers in them lead, at the offsets of the packed structs.  Switching off and
  restarting do not return: their result is the text printed and the hardware at the moment the processor stops.
\<close>

type_synonym reader = "u32 \<Rightarrow> u8 option"

definition read32 :: "reader \<Rightarrow> u32 \<Rightarrow> u32 option" where
  "read32 rd p = do { a \<leftarrow> rd p; b \<leftarrow> rd (p + 1); c \<leftarrow> rd (p + 2); d \<leftarrow> rd (p + 3); Some (get32 [a, b, c, d] 0) }"

text \<open>Comparing bytes of memory with constants in a conjunction stops at the first difference.\<close>

fun bytes_at :: "reader \<Rightarrow> u32 \<Rightarrow> bytes \<Rightarrow> bool option" where
  "bytes_at rd p [] = Some True"
| "bytes_at rd p (b # bs) = do { x \<leftarrow> rd p; if x = b then bytes_at rd (p + 1) bs else Some False }"

section \<open>ACPI tables\<close>

record power_state =
  pm1a_cnt :: u16
  pm1b_cnt :: u16
  slp_typa :: u16
  slp_typb :: u16
  acpi_ok :: int
  acpi_initialized :: int

definition power_boot :: power_state where
  "power_boot = \<lparr>pm1a_cnt = 0, pm1b_cnt = 0, slp_typa = 0, slp_typb = 0, acpi_ok = 0, acpi_initialized = 0\<rparr>"

fun power_checksum :: "reader \<Rightarrow> u32 \<Rightarrow> nat \<Rightarrow> u8 \<Rightarrow> u8 option" where
  "power_checksum rd p 0 acc = Some acc"
| "power_checksum rd p (Suc len) acc = do { x \<leftarrow> rd p; power_checksum rd (p + 1) len (acc + x) }"

text \<open>A candidate every 16 bytes between 0xE0000 and 0x100000: 8192 of them.\<close>

fun find_rsdp_loop :: "reader \<Rightarrow> nat \<Rightarrow> u32 \<Rightarrow> u32 option" where
  "find_rsdp_loop rd 0 p = Some 0"
| "find_rsdp_loop rd (Suc n) p = do {
     c \<leftarrow> power_checksum rd p 20 0;
     hit \<leftarrow> (if c = 0 then bytes_at rd p (ascii ''RSD PTR '') else Some False);
     if hit then Some p else find_rsdp_loop rd n (p + 16)
   }"

definition find_rsdp :: "reader \<Rightarrow> u32 option" where
  "find_rsdp rd = find_rsdp_loop rd 8192 0xE0000"

fun find_fadt_loop :: "reader \<Rightarrow> u32 \<Rightarrow> nat \<Rightarrow> nat \<Rightarrow> u32 option" where
  "find_fadt_loop rd rsdt 0 i = Some 0"
| "find_fadt_loop rd rsdt (Suc n) i = do {
     h \<leftarrow> read32 rd (rsdt + 8 + 4 * of_nat i);
     hit \<leftarrow> bytes_at rd h (ascii ''FACP'');
     if hit then Some h else find_fadt_loop rd rsdt n (i + 1)
   }"

text \<open>The count is unsigned until it is stored in an \<open>int\<close>; being below \<open>2 ^ 30\<close> it is not negative.\<close>

definition find_fadt :: "reader \<Rightarrow> u32 \<Rightarrow> u32 option" where
  "find_fadt rd rsdt = do {
     len \<leftarrow> read32 rd (rsdt + 4);
     let count = (len - 8) div 4;
     find_fadt_loop rd rsdt (unat count) 0
   }"

function parse_s5_loop :: "reader \<Rightarrow> u32 \<Rightarrow> u32 \<Rightarrow> power_state \<Rightarrow> (int \<times> power_state) option" where
  "parse_s5_loop rd p fin s =
     (if p + 4 < fin then do {
        hit \<leftarrow> bytes_at rd p (ascii ''_S5_'');
        if hit then do {
          let p = p + 6;
          x \<leftarrow> rd p;
          let p = p + 1;
          (p, s) \<leftarrow> (if x = 0x0A then do { v \<leftarrow> rd p; Some (p + 1, s\<lparr>slp_typa := ucast v\<rparr>) } else Some (p, s));
          y \<leftarrow> rd p;
          let p = p + 1;
          s \<leftarrow> (if y = 0x0A then do { v \<leftarrow> rd p; Some (s\<lparr>slp_typb := ucast v\<rparr>) } else Some s);
          Some (1, s)
        }
        else parse_s5_loop rd (p + 1) fin s
      }
      else Some (0, s))"
  by pat_completeness auto
termination
proof (relation "measure (\<lambda>(rd, p, fin, s). unat (fin - (p + 4)))")
  fix rd :: reader and p fin :: u32 and s :: power_state and hit :: bool
  assume "p + 4 < fin"
  define x where "x = fin - (p + 4)"
  have "x \<noteq> 0" using \<open>p + 4 < fin\<close> by (auto simp: x_def)
  then have "unat (x - 1) < unat x" by (simp add: unat_gt_0 unat_minus_one)
  moreover have e: "fin - (p + 1 + 4) = x - 1" by (simp add: x_def algebra_simps)
  ultimately show "((rd, p + 1, fin, s), rd, p, fin, s) \<in> measure (\<lambda>(rd, p, fin, s). unat (fin - (p + 4)))" by (simp only: in_measure prod.case e x_def[symmetric])
qed simp

definition parse_s5 :: "reader \<Rightarrow> u32 \<Rightarrow> power_state \<Rightarrow> (int \<times> power_state) option" where
  "parse_s5 rd dsdt s = do {
     len \<leftarrow> read32 rd (dsdt + 4);
     parse_s5_loop rd (dsdt + 8) (dsdt + len) s
   }"

definition acpi_init :: "reader \<Rightarrow> power_state \<Rightarrow> power_state option" where
  "acpi_init rd s = do {
     rsdp \<leftarrow> find_rsdp rd;
     if rsdp = 0 then Some s
     else do {
       rsdt \<leftarrow> read32 rd (rsdp + 16);
       fadt \<leftarrow> find_fadt rd rsdt;
       if fadt = 0 then Some s
       else do {
         a \<leftarrow> read32 rd (fadt + 36);
         b \<leftarrow> read32 rd (fadt + 40);
         let s = s\<lparr>pm1a_cnt := ucast a, pm1b_cnt := ucast b\<rparr>;
         if pm1a_cnt s = 0 then Some s
         else do {
           dsdt \<leftarrow> read32 rd (fadt + 12);
           (found, s) \<leftarrow> parse_s5 rd dsdt s;
           Some (if found \<noteq> 0 then s\<lparr>acpi_ok := 1\<rparr> else s)
         }
       }
     }
   }"

definition acpi_is_available :: "power_state \<Rightarrow> int" where
  "acpi_is_available s = acpi_ok s"

section \<open>Switching off\<close>

definition power_shutdown :: "'c port_ops \<Rightarrow> power_state \<Rightarrow> 'c \<Rightarrow> bytes \<times> 'c" where
  "power_shutdown P s d =
     (let t = ascii ''[power] shutdown requested'' @ [10];
          (t, d) = (if acpi_initialized s \<noteq> 0 \<and> pm1a_cnt s \<noteq> 0 \<and> slp_typa s \<noteq> 0 then
             let t = t @ ascii ''[power] trying ACPI S5'' @ [10];
                 slp_en = (push_bit 13 1 :: u16);
                 d = outw P (pm1a_cnt s) (push_bit 10 (slp_typa s) OR slp_en) d;
                 d = (if pm1b_cnt s \<noteq> 0 then outw P (pm1b_cnt s) (push_bit 10 (slp_typb s) OR slp_en) d else d)
             in (t, d)
           else (t, d));
          t = t @ ascii ''[power] trying QEMU/Bochs ports'' @ [10];
          d = outw P 0x604 0x2000 d;
          d = outw P 0xB004 0x2000 d;
          d = outw P 0x4004 0x3400 d
      in (t @ ascii ''[power] shutdown failed, halting CPU'' @ [10], d))"

text \<open>Restarting asks the keyboard controller for a reset, and if that does not come breaks the interrupt table and traps.\<close>

partial_function (option) reboot_wait :: "'c port_ops \<Rightarrow> 'c \<Rightarrow> 'c option" where
  "reboot_wait P d = (let (s, d) = inb P 0x64 d in if s AND 0x02 \<noteq> 0 then reboot_wait P d else Some d)"

definition power_reboot :: "'c port_ops \<Rightarrow> 'c \<Rightarrow> 'c option" where
  "power_reboot P d = do { d \<leftarrow> reboot_wait P d; Some (outb P 0x64 0xFE d) }"


section \<open>ACPI is never used\<close>

declare parse_s5_loop.simps [simp del]

lemma parse_s5_loop_initialized:
  "parse_s5_loop rd p fin s = Some (r, s') \<Longrightarrow> acpi_initialized s' = acpi_initialized s"
proof (induction rd p fin s rule: parse_s5_loop.induct)
  case (1 rd p fin s)
  show ?case using "1.prems" "1.IH"
    by (simp only: parse_s5_loop.simps[of rd p fin s]) (auto simp: bind_eq_Some_conv Let_def split: if_splits)
qed

lemma acpi_init_initialized: "acpi_init rd s = Some s' \<Longrightarrow> acpi_initialized s' = acpi_initialized s"
  by (auto simp: acpi_init_def parse_s5_def bind_eq_Some_conv Let_def split: if_splits dest!: parse_s5_loop_initialized)

text \<open>Memory with a pointer structure at 0xE0000 and the tables behind it, laid out as the structs of the program; the
  cells not listed are 0.\<close>

definition acpi_cells :: "(u32 \<times> u8) list" where
  "acpi_cells =
    [(0xE0000, 0x52), (0xE0001, 0x53), (0xE0002, 0x44), (0xE0003, 0x20), (0xE0004, 0x50), (0xE0005, 0x54), (0xE0006, 0x52), (0xE0007, 0x20),
     (0xE0008, 0x3B), (0xE0009, 0x51), (0xE000A, 0x45), (0xE000B, 0x4D), (0xE000C, 0x55), (0xE000D, 0x20), (0xE000E, 0x20), (0xE0010, 0x20),
     (0xE0012, 0x0E), (0xE0020, 0x52), (0xE0021, 0x53), (0xE0022, 0x44), (0xE0023, 0x54), (0xE0024, 0x0C), (0xE0028, 0x40), (0xE002A, 0x0E),
     (0xE0040, 0x46), (0xE0041, 0x41), (0xE0042, 0x43), (0xE0043, 0x50), (0xE0044, 0x2C), (0xE004C, 0x80), (0xE004E, 0x0E), (0xE0064, 0x04),
     (0xE0065, 0x06), (0xE0080, 0x44), (0xE0081, 0x53), (0xE0082, 0x44), (0xE0083, 0x54), (0xE0084, 0x20), (0xE0088, 0x5F), (0xE0089, 0x53),
     (0xE008A, 0x35), (0xE008B, 0x5F), (0xE008C, 0x12), (0xE008D, 0x06), (0xE008E, 0x0A), (0xE008F, 0x05), (0xE0090, 0x0A), (0xE0091, 0x05)]"

definition acpi_memory :: reader where
  "acpi_memory p = Some (case map_of acpi_cells p of None \<Rightarrow> 0 | Some b \<Rightarrow> b)"

text \<open>Whatever the ACPI tables say, even when they were found complete and \<open>acpi_is_available\<close> tells so,
  switching off writes to the ports of the emulators only: the flag that would enable the registers of the tables is
  never set.\<close>

theorem shutdown_never_uses_acpi:
  assumes "acpi_init rd power_boot = Some s"
  shows "power_shutdown P s d =
    (ascii ''[power] shutdown requested'' @ [10] @ ascii ''[power] trying QEMU/Bochs ports'' @ [10] @
       ascii ''[power] shutdown failed, halting CPU'' @ [10],
     outw P 0x4004 0x3400 (outw P 0xB004 0x2000 (outw P 0x604 0x2000 d)))"
  using acpi_init_initialized[OF assms] by (simp add: power_shutdown_def power_boot_def Let_def)

lemma acpi_memory_checksum: "power_checksum acpi_memory 0xE0000 20 0 = Some 0"
proof -
  have k: "(20::nat) = Suc (Suc (Suc (Suc (Suc (Suc (Suc (Suc (Suc (Suc (Suc (Suc (Suc (Suc (Suc (Suc (Suc (Suc (Suc (Suc (0))))))))))))))))))))" by simp
  show ?thesis unfolding k by (simp add: acpi_memory_def acpi_cells_def)
qed

lemma acpi_memory_rsdp: "find_rsdp acpi_memory = Some 0xE0000"
proof -
  have b: "bytes_at acpi_memory 0xE0000 (ascii ''RSD PTR '') = Some True"
    by (simp add: acpi_memory_def acpi_cells_def ascii_def)
  have "find_rsdp_loop acpi_memory (Suc 8191) 0xE0000 = Some 0xE0000"
    unfolding find_rsdp_loop.simps acpi_memory_checksum by (simp add: b)
  then show ?thesis by (simp add: find_rsdp_def)
qed

lemma acpi_memory_fadt: "find_fadt acpi_memory 0xE0020 = Some 0xE0040"
  by (simp add: find_fadt_def acpi_memory_def acpi_cells_def ascii_def read32_def get32_def)

lemma acpi_memory_s5: "parse_s5 acpi_memory 0xE0080 s = Some (1, s\<lparr>slp_typa := 5, slp_typb := 5\<rparr>)"
  by (simp add: parse_s5_def parse_s5_loop.simps acpi_memory_def acpi_cells_def ascii_def read32_def get32_def)

lemma acpi_memory_init:
  "acpi_init acpi_memory power_boot =
    Some \<lparr>pm1a_cnt = 0x604, pm1b_cnt = 0, slp_typa = 5, slp_typb = 5, acpi_ok = 1, acpi_initialized = 0\<rparr>"
proof -
  have "read32 acpi_memory 0xE0010 = Some 0xE0020" "read32 acpi_memory 0xE0064 = Some 0x604" "read32 acpi_memory 0xE0068 = Some 0"
    "read32 acpi_memory 0xE004C = Some 0xE0080"
    by (simp_all add: acpi_memory_def acpi_cells_def read32_def get32_def)
  then show ?thesis by (simp add: acpi_init_def acpi_memory_rsdp acpi_memory_fadt acpi_memory_s5 power_boot_def)
qed

text \<open>Hardware that records what is written to it.\<close>

definition log_ports :: "(u16 \<times> u16) list port_ops" where
  "log_ports = \<lparr>inb = (\<lambda>p d. (0, d)), outb = (\<lambda>p v d. d @ [(p, ucast v)]), inw = (\<lambda>p d. (0, d)), outw = (\<lambda>p v d. d @ [(p, v)]),
     inl = (\<lambda>p d. (0, d)), outl = (\<lambda>p v d. d)\<rparr>"

theorem shutdown_never_uses_acpi_witness:
  "\<exists>s. acpi_init acpi_memory power_boot = Some s \<and> acpi_is_available s = 1 \<and> pm1a_cnt s = 0x604 \<and> slp_typa s = 5 \<and>
     snd (power_shutdown log_ports s []) = [(0x604, 0x2000), (0xB004, 0x2000), (0x4004, 0x3400)]"
  using shutdown_never_uses_acpi[OF acpi_memory_init, of log_ports "[]"]
  by (simp add: acpi_memory_init acpi_is_available_def log_ports_def)

end
