(* ===== verification/User_Memory.thy ===== *)
theory User_Memory
  imports Paging
begin

text \<open>
  How the kernel follows the pointers a program passes to it: through the page tables of the current context, with
  the rights of level 0, which may write every present page.  Objects that the model keeps outside memory (static
  variables, task records) occupy physical addresses for which \<open>owned\<close> holds; an access to them by a pointer of a
  program has no defined outcome here, like an access to a page that is not present.
\<close>

section \<open>Accesses\<close>

definition kernel_address :: "paging_state \<Rightarrow> u32 \<Rightarrow> u32 option" where
  "kernel_address v a =
     (if \<not> paging_on v then Some a
      else case tlb v (a AND 0xFFFFF000) of
        Some (p, _) \<Rightarrow> Some (p OR (a AND 0xFFF))
      | None \<Rightarrow> map_option fst (mmu (cr3 v) (m_ram (mem v)) a))"

definition vget :: "(u32 \<Rightarrow> bool) \<Rightarrow> paging_state \<Rightarrow> u32 \<Rightarrow> u8 option" where
  "vget owned v a = do { p \<leftarrow> kernel_address v a; if owned p then None else Some (m_ram (mem v) p) }"

definition vput :: "(u32 \<Rightarrow> bool) \<Rightarrow> u32 \<Rightarrow> u8 \<Rightarrow> paging_state \<Rightarrow> paging_state option" where
  "vput owned a b v = do {
     p \<leftarrow> kernel_address v a;
     if owned p then None else Some (v\<lparr>mem := (mem v)\<lparr>m_ram := (m_ram (mem v))(p := b)\<rparr>\<rparr>)
   }"

fun vread :: "(u32 \<Rightarrow> bool) \<Rightarrow> nat \<Rightarrow> u32 \<Rightarrow> paging_state \<Rightarrow> bytes option" where
  "vread owned 0 a v = Some []"
| "vread owned (Suc n) a v = do { b \<leftarrow> vget owned v a; bs \<leftarrow> vread owned n (a + 1) v; Some (b # bs) }"

fun vwrite :: "(u32 \<Rightarrow> bool) \<Rightarrow> u32 \<Rightarrow> bytes \<Rightarrow> paging_state \<Rightarrow> paging_state option" where
  "vwrite owned a [] v = Some v"
| "vwrite owned a (b # bs) v = do { v \<leftarrow> vput owned a b v; vwrite owned (a + 1) bs v }"

text \<open>The bytes up to the first that cannot be read, at most \<open>n\<close>.\<close>

fun vprefix :: "(u32 \<Rightarrow> bool) \<Rightarrow> nat \<Rightarrow> u32 \<Rightarrow> paging_state \<Rightarrow> bytes" where
  "vprefix owned 0 a v = []"
| "vprefix owned (Suc n) a v = (case vget owned v a of None \<Rightarrow> [] | Some b \<Rightarrow> b # vprefix owned n (a + 1) v)"

text \<open>A string with its terminator.\<close>

partial_function (option) vstr :: "(u32 \<Rightarrow> bool) \<Rightarrow> u32 \<Rightarrow> paging_state \<Rightarrow> bytes option" where
  "vstr owned a v = do {
     b \<leftarrow> vget owned v a;
     if b = 0 then Some [0] else do { bs \<leftarrow> vstr owned (a + 1) v; Some (b # bs) }
   }"

section \<open>Buffers\<close>

text \<open>A buffer of a program: its pages are present and lead to distinct bytes of memory that are neither owned by the
  kernel nor part of the page tables in use.\<close>

definition table_bytes :: "paging_state \<Rightarrow> u32 set" where
  "table_bytes v = {p. paging_on v \<and> (\<exists>a k. k < 4 \<and> (p = entry (cr3 v AND 0xFFFFF000) (drop_bit 22 a) + k \<or>
     p = entry (rd32 (m_ram (mem v)) (entry (cr3 v AND 0xFFFFF000) (drop_bit 22 a)) AND 0xFFFFF000) (drop_bit 12 a AND 0x3FF) + k))}"

definition user_buffer :: "(u32 \<Rightarrow> bool) \<Rightarrow> paging_state \<Rightarrow> u32 \<Rightarrow> nat \<Rightarrow> bool" where
  "user_buffer owned v a n \<longleftrightarrow> n \<le> 2 ^ 32 \<and>
     (\<forall>i<n. \<exists>p. kernel_address v (a + of_nat i) = Some p \<and> \<not> owned p \<and> p \<notin> table_bytes v) \<and>
     inj_on (\<lambda>i. kernel_address v (a + of_nat i)) {..<n}"

definition user_cells :: "paging_state \<Rightarrow> u32 \<Rightarrow> nat \<Rightarrow> u32 set" where
  "user_cells v a n = (\<lambda>i. the (kernel_address v (a + of_nat i))) ` {..<n}"

lemma rd32_cong: "(\<And>k. k < 4 \<Longrightarrow> m (a + k) = m' (a + k)) \<Longrightarrow> rd32 m a = rd32 m' a"
proof -
  assume e: "\<And>k. k < 4 \<Longrightarrow> m (a + k) = m' (a + k)"
  have "ram_get a 4 m = ram_get a 4 m'" using e[of 0] e[of 1] e[of 2] e[of 3] by (simp add: ram_get_def upt_rec)
  then show ?thesis by (simp add: rd32_def)
qed

section \<open>Writing outside the page tables\<close>

definition set_cell :: "u32 \<Rightarrow> u8 \<Rightarrow> paging_state \<Rightarrow> paging_state" where
  "set_cell p b v = v\<lparr>mem := (mem v)\<lparr>m_ram := (m_ram (mem v))(p := b)\<rparr>\<rparr>"

lemma set_cell_simps [simp]:
  "cr3 (set_cell p b v) = cr3 v" "tlb (set_cell p b v) = tlb v" "paging_on (set_cell p b v) = paging_on v"
  "m_ram (mem (set_cell p b v)) = (m_ram (mem v))(p := b)"
  by (simp_all add: set_cell_def)

lemma table_bytesI:
  "paging_on v \<Longrightarrow> k < 4 \<Longrightarrow> entry (cr3 v AND 0xFFFFF000) (drop_bit 22 a) + k \<in> table_bytes v"
  "paging_on v \<Longrightarrow> k < 4 \<Longrightarrow> entry (rd32 (m_ram (mem v)) (entry (cr3 v AND 0xFFFFF000) (drop_bit 22 a)) AND 0xFFFFF000) (drop_bit 12 a AND 0x3FF) + k
     \<in> table_bytes v"
  unfolding table_bytes_def by blast+

lemma set_cell_tables:
  assumes "p \<notin> table_bytes v"
  shows "kernel_address (set_cell p b v) = kernel_address v" and "table_bytes (set_cell p b v) = table_bytes v"
proof -
  have on: "kernel_address (set_cell p b v) = kernel_address v \<and> table_bytes (set_cell p b v) = table_bytes v" if on: "paging_on v"
  proof -
    have d: "rd32 ((m_ram (mem v))(p := b)) (entry (cr3 v AND 0xFFFFF000) (drop_bit 22 a)) =
        rd32 (m_ram (mem v)) (entry (cr3 v AND 0xFFFFF000) (drop_bit 22 a))" for a
      by (rule rd32_cong) (use assms table_bytesI(1)[OF on] in auto)
    have t: "rd32 ((m_ram (mem v))(p := b)) (entry (rd32 (m_ram (mem v)) (entry (cr3 v AND 0xFFFFF000) (drop_bit 22 a)) AND 0xFFFFF000) (drop_bit 12 a AND 0x3FF)) =
        rd32 (m_ram (mem v)) (entry (rd32 (m_ram (mem v)) (entry (cr3 v AND 0xFFFFF000) (drop_bit 22 a)) AND 0xFFFFF000) (drop_bit 12 a AND 0x3FF))" for a
      by (rule rd32_cong) (use assms table_bytesI(2)[OF on] in auto)
    have e: "mmu (cr3 v) ((m_ram (mem v))(p := b)) a = mmu (cr3 v) (m_ram (mem v)) a" for a
      by (simp only: mmu_def Let_def d t)
    have "kernel_address (set_cell p b v) = kernel_address v"
      by (intro ext) (simp only: kernel_address_def set_cell_simps e)
    moreover have "table_bytes (set_cell p b v) = table_bytes v" by (simp add: table_bytes_def d)
    ultimately show ?thesis ..
  qed
  have off: "kernel_address (set_cell p b v) = kernel_address v \<and> table_bytes (set_cell p b v) = table_bytes v" if "\<not> paging_on v"
    using that by (auto simp: kernel_address_def table_bytes_def fun_eq_iff)
  from on off show "kernel_address (set_cell p b v) = kernel_address v" "table_bytes (set_cell p b v) = table_bytes v" by blast+
qed

lemma user_buffer_tail:
  assumes "user_buffer owned v a (Suc n)" shows "user_buffer owned v (a + 1) n"
proof -
  have s: "a + 1 + of_nat i = a + of_nat (Suc i)" for i by (simp add: algebra_simps)
  have "inj_on (\<lambda>i. kernel_address v (a + of_nat (Suc i))) {..<n}"
    using assms by (auto simp: user_buffer_def inj_on_def simp del: of_nat_Suc)
  moreover have "\<forall>i<n. \<exists>p. kernel_address v (a + of_nat (Suc i)) = Some p \<and> \<not> owned p \<and> p \<notin> table_bytes v"
    using assms by (auto simp: user_buffer_def simp del: of_nat_Suc)
  ultimately show ?thesis using assms by (simp add: user_buffer_def s del: of_nat_Suc)
qed

lemma user_buffer_head:
  assumes "user_buffer owned v a (Suc n)"
  obtains p where "kernel_address v a = Some p" "\<not> owned p" "p \<notin> table_bytes v" "p \<notin> user_cells v (a + 1) n"
proof -
  from assms obtain p where p: "kernel_address v a = Some p" "\<not> owned p" "p \<notin> table_bytes v" by (auto simp: user_buffer_def)
  have "p \<notin> user_cells v (a + 1) n"
  proof
    assume "p \<in> user_cells v (a + 1) n"
    then obtain i where i: "i < n" "p = the (kernel_address v (a + 1 + of_nat i))" by (auto simp: user_cells_def)
    have s: "a + 1 + of_nat i = a + of_nat (Suc i)" by (simp add: algebra_simps)
    obtain q where q: "kernel_address v (a + of_nat (Suc i)) = Some q" using assms i(1) by (auto simp: user_buffer_def simp del: of_nat_Suc)
    then have "kernel_address v (a + of_nat (Suc i)) = kernel_address v (a + of_nat 0)" using i(2) p(1) by (simp add: s del: of_nat_Suc)
    moreover have "inj_on (\<lambda>i. kernel_address v (a + of_nat i)) {..<Suc n}" using assms by (simp add: user_buffer_def)
    ultimately have "Suc i = 0" using i(1) by (elim inj_onD) (simp_all del: of_nat_Suc)
    then show False by simp
  qed
  then show ?thesis using that p by blast
qed

lemma user_buffer_cong:
  "kernel_address v' = kernel_address v \<Longrightarrow> table_bytes v' = table_bytes v \<Longrightarrow> user_buffer owned v' a n = user_buffer owned v a n"
  by (simp add: user_buffer_def)

text \<open>What writing a buffer changes: the bytes of the buffer only.\<close>

definition written_cells :: "paging_state \<Rightarrow> paging_state \<Rightarrow> u32 set \<Rightarrow> bool" where
  "written_cells v v' C \<longleftrightarrow> (\<exists>m. v' = v\<lparr>mem := (mem v)\<lparr>m_ram := m\<rparr>\<rparr> \<and> (\<forall>p. p \<notin> C \<longrightarrow> m p = m_ram (mem v) p)) \<and>
     kernel_address v' = kernel_address v \<and> table_bytes v' = table_bytes v"

lemma vread_cong:
  "kernel_address v' = kernel_address v \<Longrightarrow> (\<And>p. p \<in> user_cells v a n \<Longrightarrow> m_ram (mem v') p = m_ram (mem v) p) \<Longrightarrow>
    vread owned n a v' = vread owned n a v"
proof (induction n arbitrary: a)
  case (Suc n)
  have s: "a + 1 + of_nat i = a + of_nat (Suc i)" for i by (simp add: algebra_simps)
  have "user_cells v (a + 1) n \<subseteq> user_cells v a (Suc n)" by (auto simp: user_cells_def s simp del: of_nat_Suc)
  then have t: "vread owned n (a + 1) v' = vread owned n (a + 1) v" using Suc by auto
  have "the (kernel_address v a) \<in> user_cells v a (Suc n)"
    unfolding user_cells_def by (rule image_eqI[where x = 0]) simp_all
  then have "vget owned v' a = vget owned v a"
    using Suc.prems by (cases "kernel_address v a") (auto simp: vget_def)
  then show ?case by (simp add: t)
qed simp

lemma vwrite_user:
  "user_buffer owned v a (length bs) \<Longrightarrow>
    \<exists>v'. vwrite owned a bs v = Some v' \<and> vread owned (length bs) a v' = Some bs \<and> written_cells v v' (user_cells v a (length bs))"
proof (induction bs arbitrary: a v)
  case Nil
  have "v = v\<lparr>mem := (mem v)\<lparr>m_ram := m_ram (mem v)\<rparr>\<rparr>" by simp
  then have "written_cells v v {}" unfolding written_cells_def by (intro conjI exI[of _ "m_ram (mem v)"]) auto
  then show ?case by (simp add: user_cells_def)
next
  case (Cons b bs)
  then have ub: "user_buffer owned v a (Suc (length bs))" by simp
  obtain p where p: "kernel_address v a = Some p" "\<not> owned p" "p \<notin> table_bytes v" "p \<notin> user_cells v (a + 1) (length bs)"
    using user_buffer_head[OF ub] .
  let ?v = "set_cell p b v"
  note k = set_cell_tables[OF p(3), of b]
  have put: "vput owned a b v = Some ?v" by (simp add: vput_def p set_cell_def)
  have "user_buffer owned ?v (a + 1) (length bs)" using user_buffer_tail[OF ub] user_buffer_cong[OF k] by simp
  from Cons.IH[OF this] obtain v' where v': "vwrite owned (a + 1) bs ?v = Some v'" "vread owned (length bs) (a + 1) v' = Some bs"
    "written_cells ?v v' (user_cells ?v (a + 1) (length bs))" by blast
  have c: "user_cells ?v (a + 1) (length bs) = user_cells v (a + 1) (length bs)" by (simp add: user_cells_def k)
  have s: "a + 1 + of_nat i = a + of_nat (Suc i)" for i by (simp add: algebra_simps)
  have sub: "user_cells v (a + 1) (length bs) \<subseteq> user_cells v a (length (b # bs))" by (auto simp: user_cells_def s simp del: of_nat_Suc)
  have pin: "p \<in> user_cells v a (length (b # bs))" unfolding user_cells_def by (rule image_eqI[where x = 0]) (simp_all add: p)
  have w: "written_cells v v' (user_cells v a (length (b # bs)))"
  proof -
    from v'(3) obtain m where m: "v' = ?v\<lparr>mem := (mem ?v)\<lparr>m_ram := m\<rparr>\<rparr>"
        "\<And>q. q \<notin> user_cells v (a + 1) (length bs) \<Longrightarrow> m q = m_ram (mem ?v) q"
      and e: "kernel_address v' = kernel_address v" "table_bytes v' = table_bytes v"
      unfolding written_cells_def c k by blast
    have "m q = m_ram (mem v) q" if "q \<notin> user_cells v a (length (b # bs))" for q
    proof -
      have "q \<noteq> p" "q \<notin> user_cells v (a + 1) (length bs)" using that sub pin by blast+
      then show ?thesis using m(2)[of q] by simp
    qed
    moreover have "v' = v\<lparr>mem := (mem v)\<lparr>m_ram := m\<rparr>\<rparr>" using m(1) by (simp add: set_cell_def)
    ultimately show ?thesis unfolding written_cells_def using e by blast
  qed
  have "m_ram (mem v') p = b" using v'(3) p(4) by (auto simp: written_cells_def c)
  then have "vget owned v' a = Some b" using w p by (simp add: vget_def written_cells_def)
  then show ?case using put v' w by simp
qed

end
