(* ===== verification/Syscalls.thy ===== *)
theory Syscalls
  imports Exec Keyboard Ip Rtc Terminal User_Memory Kernel_Power
begin

text \<open>
  The system calls, \<open>src/user/syscall.c\<close>: one definition per case of \<open>syscall_dispatch\<close> over the state of the whole
  kernel.  The interrupt gate clears the interrupt flag, so a system call runs to its end without interruption.
  A case yields how it ends, the saved registers and the machine; text printed by the components is drawn on the
  screen at the end of the call.
\<close>

section \<open>The machine\<close>

record regs_t =
  r_edi :: u32
  r_esi :: u32
  r_ebp :: u32
  r_esp :: u32
  r_ebx :: u32
  r_edx :: u32
  r_ecx :: u32
  r_eax :: u32
  r_gs :: u32
  r_fs :: u32
  r_es :: u32
  r_ds :: u32

abbreviation (input) MAX_FILES :: nat where "MAX_FILES \<equiv> 16"

text \<open>The hardware below: disk, network card with its memory, the other ports, and the addresses of the kernel's own
  objects.\<close>

record ('d, 'n, 'c) hardware =
  hw_disk :: "'d disk_ops"
  hw_net :: "'n port_ops"
  hw_dma :: "'n dma_ops"
  hw_io :: "'c port_ops"
  hw_owned :: "u32 \<Rightarrow> bool"

record ('d, 'n, 'c) machine =
  m_kernel :: "'d kernel"
  m_net :: "'n net_state"
  m_kbd :: kbd_state
  m_screen :: fb_term
  m_io :: 'c
  m_power :: power_state
  m_timezone :: int
  file_table :: "fat32_file list"
  file_used :: "int list"
  net_ip :: u32
  net_gateway :: u32
  net_netmask :: u32
  net_initialized :: int

text \<open>How a call ends: it returns to the program; another task continues (the registers are those the call returns
  with when its task is continued); a new program is entered; the processor stops, or is reset.\<close>

datatype sys_outcome = Sys_Returns | Sys_Switch u32 u32 | Sys_Enter_User u32 u32 | Sys_Stopped | Sys_Reset

type_synonym ('d, 'n, 'c) sys_result = "(sys_outcome \<times> regs_t \<times> ('d, 'n, 'c) machine) option"

abbreviation m_vm :: "('d, 'n, 'c) machine \<Rightarrow> paging_state" where "m_vm m \<equiv> k_vm (m_kernel m)"
abbreviation m_fat :: "('d, 'n, 'c) machine \<Rightarrow> 'd fat_state" where "m_fat m \<equiv> k_fat (m_kernel m)"

definition set_kernel :: "'d kernel \<Rightarrow> ('d, 'n, 'c) machine \<Rightarrow> ('d, 'n, 'c) machine" where
  "set_kernel k m = m\<lparr>m_kernel := k\<rparr>"

definition set_fat :: "'d fat_state \<Rightarrow> ('d, 'n, 'c) machine \<Rightarrow> ('d, 'n, 'c) machine" where
  "set_fat fs m = m\<lparr>m_kernel := (m_kernel m)\<lparr>k_fat := fs\<rparr>\<rparr>"

definition set_tasks :: "task_sys \<Rightarrow> ('d, 'n, 'c) machine \<Rightarrow> ('d, 'n, 'c) machine" where
  "set_tasks t m = m\<lparr>m_kernel := (m_kernel m)\<lparr>k_tasks := t\<rparr>\<rparr>"

definition m_puts :: "bytes \<Rightarrow> ('d, 'n, 'c) machine \<Rightarrow> ('d, 'n, 'c) machine" where
  "m_puts txt m = m\<lparr>m_kernel := k_puts txt (m_kernel m)\<rparr>"

text \<open>Memory of the program.\<close>

definition u_read :: "('d, 'n, 'c) hardware \<Rightarrow> nat \<Rightarrow> u32 \<Rightarrow> ('d, 'n, 'c) machine \<Rightarrow> bytes option" where
  "u_read H n a m = vread (hw_owned H) n a (m_vm m)"

definition u_write :: "('d, 'n, 'c) hardware \<Rightarrow> u32 \<Rightarrow> bytes \<Rightarrow> ('d, 'n, 'c) machine \<Rightarrow> ('d, 'n, 'c) machine option" where
  "u_write H a bs m = map_option (\<lambda>v. set_kernel (set_vm v (m_kernel m)) m) (vwrite (hw_owned H) a bs (m_vm m))"

definition u_str :: "('d, 'n, 'c) hardware \<Rightarrow> u32 \<Rightarrow> ('d, 'n, 'c) machine \<Rightarrow> bytes option" where
  "u_str H a m = vstr (hw_owned H) a (m_vm m)"

text \<open>What was printed appears on the screen.\<close>

fun draw_text :: "bytes \<Rightarrow> fb_term \<Rightarrow> fb_term option" where
  "draw_text [] t = Some t"
| "draw_text (c # cs) t = Option.bind (term_putc c t) (draw_text cs)"

definition draw_console :: "('d, 'n, 'c) machine \<Rightarrow> ('d, 'n, 'c) machine option" where
  "draw_console m = do {
     t \<leftarrow> draw_text (console (m_fat m)) (m_screen m);
     Some (set_fat ((m_fat m)\<lparr>console := []\<rparr>) (m\<lparr>m_screen := t\<rparr>))
   }"

text \<open>Operations of the network stack, which has the tick count and the terminal in common with the rest.\<close>

definition on_net :: "('n net_state \<Rightarrow> ('r \<times> 'n net_state) option) \<Rightarrow> ('d, 'n, 'c) machine \<Rightarrow> ('r \<times> ('d, 'n, 'c) machine) option" where
  "on_net f m = do {
     (r, n) \<leftarrow> f ((m_net m)\<lparr>n_ticks := tick_count (k_tasks (m_kernel m)), n_console := []\<rparr>);
     Some (r, m_puts (n_console n) (m\<lparr>m_net := n\<rparr>))
   }"

definition on_net_unit :: "('n net_state \<Rightarrow> 'n net_state option) \<Rightarrow> ('d, 'n, 'c) machine \<Rightarrow> ('d, 'n, 'c) machine option" where
  "on_net_unit f m = map_option snd (on_net (\<lambda>n. map_option (Pair ()) (f n)) m)"

definition ret :: "u32 \<Rightarrow> regs_t \<Rightarrow> ('d, 'n, 'c) machine \<Rightarrow> ('d, 'n, 'c) sys_result" where
  "ret v r m = Some (Sys_Returns, r\<lparr>r_eax := v\<rparr>, m)"

abbreviation (input) ret_int :: "int \<Rightarrow> regs_t \<Rightarrow> ('d, 'n, 'c) machine \<Rightarrow> ('d, 'n, 'c) sys_result" where
  "ret_int v \<equiv> ret (word_of_int v)"

fun ends :: "outcome \<Rightarrow> sys_outcome" where
  "ends Returns = Sys_Returns"
| "ends (Switch prev next) = Sys_Switch prev next"

section \<open>Descriptors\<close>

definition alloc_fd :: "('d, 'n, 'c) machine \<Rightarrow> int \<times> ('d, 'n, 'c) machine" where
  "alloc_fd m = (case first_index (\<lambda>u. u = 0) (file_used m) of
     Some i \<Rightarrow> (int i, m\<lparr>file_used := (file_used m)[i := 1]\<rparr>)
   | None \<Rightarrow> (- 1, m))"

definition free_fd :: "int \<Rightarrow> ('d, 'n, 'c) machine \<Rightarrow> ('d, 'n, 'c) machine" where
  "free_fd fd m = (if fd \<ge> 0 \<and> fd < int MAX_FILES then m\<lparr>file_used := (file_used m)[nat fd := 0]\<rparr> else m)"

definition bad_fd :: "int \<Rightarrow> ('d, 'n, 'c) machine \<Rightarrow> bool" where
  "bad_fd fd m \<longleftrightarrow> fd < 0 \<or> fd \<ge> int MAX_FILES \<or> file_used m ! nat fd = 0"

definition set_file :: "int \<Rightarrow> fat32_file \<Rightarrow> ('d, 'n, 'c) machine \<Rightarrow> ('d, 'n, 'c) machine" where
  "set_file fd f m = m\<lparr>file_table := (file_table m)[nat fd := f]\<rparr>"


section \<open>Terminal, keyboard, processes\<close>

definition sys_write :: "('d, 'n, 'c) hardware \<Rightarrow> regs_t \<Rightarrow> ('d, 'n, 'c) machine \<Rightarrow> ('d, 'n, 'c) sys_result" where
  "sys_write H r m = do {
     m \<leftarrow> (if r_ebx r = 1 then do {
              s \<leftarrow> u_read H (unat (r_edx r)) (r_ecx r) m;
              Some (m_puts s m)
            }
            else Some m);
     ret (r_edx r) r m
   }"

text \<open>Characters from 128 on come out of \<open>kbd_pop\<close> negative and end the loop.\<close>

fun sys_read_loop :: "('d, 'n, 'c) hardware \<Rightarrow> u32 \<Rightarrow> nat \<Rightarrow> u32 \<Rightarrow> ('d, 'n, 'c) machine \<Rightarrow> (u32 \<times> ('d, 'n, 'c) machine) option" where
  "sys_read_loop H buf 0 i m = Some (i, m)"
| "sys_read_loop H buf (Suc n) i m =
     (let (c, k) = kbd_pop (m_kbd m); m = m\<lparr>m_kbd := k\<rparr> in
      if c < 0 then Some (i, m)
      else do {
        m \<leftarrow> u_write H (buf + i) [word_of_int c] m;
        sys_read_loop H buf n (i + 1) m
      })"

definition sys_read :: "('d, 'n, 'c) hardware \<Rightarrow> regs_t \<Rightarrow> ('d, 'n, 'c) machine \<Rightarrow> ('d, 'n, 'c) sys_result" where
  "sys_read H r m = do {
     (i, m) \<leftarrow> sys_read_loop H (r_ebx r) (unat (r_ecx r)) 0 m;
     ret i r m
   }"

definition sys_exec :: "('d, 'n, 'c) hardware \<Rightarrow> regs_t \<Rightarrow> ('d, 'n, 'c) machine \<Rightarrow> ('d, 'n, 'c) sys_result" where
  "sys_exec H r m = do {
     path \<leftarrow> u_str H (r_ebx r) m;
     (e, k) \<leftarrow> exec (hw_disk H) path (m_kernel m);
     let m = set_kernel k m;
     case e of
       Exec_Returns v \<Rightarrow> ret_int v r m
     | Enter_User start stack \<Rightarrow> Some (Sys_Enter_User start stack, r, m)
   }"

text \<open>What \<open>fat32_get_current_path\<close> stores is the beginning of the buffer up to its terminator, or nothing: filled
  with 1 beforehand, the buffer has a terminator only if one was stored.\<close>

definition stored_string :: "bytes \<Rightarrow> bytes" where
  "stored_string b = (if 0 \<in> set b then cstr b @ [0] else [])"

definition sys_getcwd :: "('d, 'n, 'c) hardware \<Rightarrow> regs_t \<Rightarrow> ('d, 'n, 'c) machine \<Rightarrow> ('d, 'n, 'c) sys_result" where
  "sys_getcwd H r m =
     (let buffer = r_ebx r; sz = sint (r_ecx r) in
      if buffer = 0 \<or> sz \<le> 0 then ret_int (- 1) r m
      else do {
        (result, b) \<leftarrow> fat32_get_current_path (Some (replicate (nat sz) 1)) sz (m_fat m);
        m \<leftarrow> u_write H buffer (case b of Some b \<Rightarrow> stored_string b | None \<Rightarrow> []) m;
        ret_int result r m
      })"

definition sys_yield :: "regs_t \<Rightarrow> ('d, 'n, 'c) machine \<Rightarrow> ('d, 'n, 'c) sys_result" where
  "sys_yield r m = do {
     (e, t) \<leftarrow> task_schedule (k_tasks (m_kernel m));
     Some (ends e, r\<lparr>r_eax := 0\<rparr>, set_tasks t m)
   }"

definition ps_state :: "task_state \<Rightarrow> bytes" where
  "ps_state s = (case s of TASK_RUNNING \<Rightarrow> ascii ''RUN      '' | TASK_SLEEPING \<Rightarrow> ascii ''SLEEP    '' | TASK_ZOMBIE \<Rightarrow> ascii ''ZOMB     '')"

partial_function (option) ps_loop :: "task_store \<Rightarrow> u32 \<Rightarrow> u32 \<Rightarrow> bytes \<Rightarrow> bytes option" where
  "ps_loop h start t txt = do {
     k \<leftarrow> h t;
     n \<leftarrow> itoa (word_of_int (t_pid k)) (replicate 32 0) 10;
     let txt = txt @ cstr n @ ascii ''   '' @ ps_state (t_state k) @ cstr (t_name k) @ [10];
     if t_next k \<noteq> start then ps_loop h start (t_next k) txt else Some txt
   }"

definition sys_ps :: "regs_t \<Rightarrow> ('d, 'n, 'c) machine \<Rightarrow> ('d, 'n, 'c) sys_result" where
  "sys_ps r m =
     (let t = k_tasks (m_kernel m); start = task_get_list t in do {
        txt \<leftarrow> ps_loop (tasks t) start start (ascii ''PID   STATE     NAME'' @ [10]);
        ret 0 r (m_puts txt m)
      })"

text \<open>A task that ends itself does not come back to the assignment to \<open>eax\<close>.\<close>

definition sys_kill :: "regs_t \<Rightarrow> ('d, 'n, 'c) machine \<Rightarrow> ('d, 'n, 'c) sys_result" where
  "sys_kill r m = do {
     (v, e, t) \<leftarrow> task_kill (sint (r_ebx r)) (k_tasks (m_kernel m));
     Some (ends e, (case e of Returns \<Rightarrow> r\<lparr>r_eax := word_of_int v\<rparr> | Switch _ _ \<Rightarrow> r), set_tasks t m)
   }"

definition sys_exit :: "regs_t \<Rightarrow> ('d, 'n, 'c) machine \<Rightarrow> ('d, 'n, 'c) sys_result" where
  "sys_exit r m = do {
     (e, t) \<leftarrow> task_exit (k_tasks (m_kernel m));
     Some (ends e, r, set_tasks t m)
   }"

definition sys_sleep :: "regs_t \<Rightarrow> ('d, 'n, 'c) machine \<Rightarrow> ('d, 'n, 'c) sys_result" where
  "sys_sleep r m = do {
     (e, t) \<leftarrow> task_sleep (r_ebx r) (k_tasks (m_kernel m));
     Some (ends e, r\<lparr>r_eax := 0\<rparr>, set_tasks t m)
   }"

definition sys_clear :: "regs_t \<Rightarrow> ('d, 'n, 'c) machine \<Rightarrow> ('d, 'n, 'c) sys_result" where
  "sys_clear r m = do { m \<leftarrow> draw_console m; ret 0 r (m\<lparr>m_screen := term_clear (m_screen m)\<rparr>) }"

section \<open>Disk and files\<close>

definition sys_disk_read :: "('d, 'n, 'c) hardware \<Rightarrow> regs_t \<Rightarrow> ('d, 'n, 'c) machine \<Rightarrow> ('d, 'n, 'c) sys_result" where
  "sys_disk_read H r m =
     (let lba = r_ebx r; buffer = r_ecx r in
      if buffer = 0 then ret_int (- 1) r m
      else do {
        let (result, bs, d) = dk_read (hw_disk H) lba (disk (m_fat m));
        m \<leftarrow> u_write H buffer bs (set_fat ((m_fat m)\<lparr>disk := d\<rparr>) m);
        ret_int (ata_error_code result) r m
      })"

definition sys_disk_write :: "('d, 'n, 'c) hardware \<Rightarrow> regs_t \<Rightarrow> ('d, 'n, 'c) machine \<Rightarrow> ('d, 'n, 'c) sys_result" where
  "sys_disk_write H r m =
     (let lba = r_ebx r; buffer = r_ecx r in
      if buffer = 0 then ret_int (- 1) r m
      else do {
        bs \<leftarrow> u_read H 512 buffer m;
        let (result, d) = dk_write (hw_disk H) lba bs (disk (m_fat m));
        ret_int (ata_error_code result) r (set_fat ((m_fat m)\<lparr>disk := d\<rparr>) m)
      })"

definition sys_close :: "('d, 'n, 'c) hardware \<Rightarrow> regs_t \<Rightarrow> ('d, 'n, 'c) machine \<Rightarrow> ('d, 'n, 'c) sys_result" where
  "sys_close H r m =
     (let fd = sint (r_ebx r) in
      if bad_fd fd m then ret_int (- 1) r m
      else do {
        (result, f, fs) \<leftarrow> fat32_close (hw_disk H) (file_table m ! nat fd) (m_fat m);
        ret_int result r (free_fd fd (set_file fd f (set_fat fs m)))
      })"

text \<open>The bytes that \<open>fat32_read\<close> stored are the first ones of the buffer, as many as it counts.\<close>

definition sys_file_read :: "('d, 'n, 'c) hardware \<Rightarrow> regs_t \<Rightarrow> ('d, 'n, 'c) machine \<Rightarrow> ('d, 'n, 'c) sys_result" where
  "sys_file_read H r m =
     (let fd = sint (r_ebx r); buffer = r_ecx r; sz = r_edx r in
      if bad_fd fd m then ret_int (- 1) r m
      else do {
        (result, f, b, fs) \<leftarrow> fat32_read (hw_disk H) (file_table m ! nat fd)
          (if buffer = 0 then None else Some (replicate (unat sz) 0)) sz (m_fat m);
        let n = (if result = - 1 then 0 else unat (word_of_int result :: u32));
        m \<leftarrow> u_write H buffer (case b of Some b \<Rightarrow> take n b | None \<Rightarrow> []) (set_file fd f (set_fat fs m));
        ret_int result r m
      })"

text \<open>\<open>fat32_write\<close> reads the buffer as it goes, so the part of it that can be read is passed.\<close>

definition sys_file_write :: "('d, 'n, 'c) hardware \<Rightarrow> regs_t \<Rightarrow> ('d, 'n, 'c) machine \<Rightarrow> ('d, 'n, 'c) sys_result" where
  "sys_file_write H r m =
     (let fd = sint (r_ebx r); buffer = r_ecx r; sz = r_edx r in
      if bad_fd fd m then ret_int (- 1) r m
      else do {
        (result, f, fs) \<leftarrow> fat32_write (hw_disk H) (file_table m ! nat fd)
          (if buffer = 0 then None else Some (vprefix (hw_owned H) (unat sz) buffer (m_vm m))) sz (m_fat m);
        ret_int result r (set_file fd f (set_fat fs m))
      })"

definition sys_seek :: "regs_t \<Rightarrow> ('d, 'n, 'c) machine \<Rightarrow> ('d, 'n, 'c) sys_result" where
  "sys_seek r m =
     (let fd = sint (r_ebx r); offset = r_ecx r; whence = r_edx r in
      if bad_fd fd m then ret_int (- 1) r m
      else
        (let (result, f) = fat32_seek (file_table m ! nat fd) offset (ucast whence)
         in ret_int result r (set_file fd f m)))"

definition sys_unlink :: "('d, 'n, 'c) hardware \<Rightarrow> regs_t \<Rightarrow> ('d, 'n, 'c) machine \<Rightarrow> ('d, 'n, 'c) sys_result" where
  "sys_unlink H r m = do {
     path \<leftarrow> u_str H (r_ebx r) m;
     (result, fs) \<leftarrow> fat32_unlink (hw_disk H) path (m_fat m);
     ret_int result r (set_fat fs m)
   }"

definition sys_mkdir :: "('d, 'n, 'c) hardware \<Rightarrow> regs_t \<Rightarrow> ('d, 'n, 'c) machine \<Rightarrow> ('d, 'n, 'c) sys_result" where
  "sys_mkdir H r m = do {
     path \<leftarrow> u_str H (r_ebx r) m;
     (result, fs) \<leftarrow> fat32_mkdir (hw_disk H) path (m_fat m);
     ret_int result r (set_fat fs m)
   }"

text \<open>An entry that is found fills name, size, attributes and cluster of the caller's structure, at their offsets;
  then the index in memory is increased.\<close>

definition sys_readdir :: "('d, 'n, 'c) hardware \<Rightarrow> regs_t \<Rightarrow> ('d, 'n, 'c) machine \<Rightarrow> ('d, 'n, 'c) sys_result" where
  "sys_readdir H r m =
     (let cluster = r_ebx r; index = r_ecx r; info = r_edx r in
      if index = 0 \<or> info = 0 then ret_int (- 1) r m
      else do {
        i \<leftarrow> u_read H 4 index m;
        (result, _, found, fs) \<leftarrow> fat32_readdir (hw_disk H) cluster (get32 i 0) blank_info (m_fat m);
        let m = set_fat fs m;
        m \<leftarrow> (if result = 0 then do {
                 m \<leftarrow> u_write H info (info_name found @ le32 (info_size found) @ [info_attr found]) m;
                 m \<leftarrow> u_write H (info + 264) (le32 (info_first_cluster found)) m;
                 i \<leftarrow> u_read H 4 index m;
                 u_write H index (le32 (get32 i 0 + 1)) m
               }
               else Some m);
        ret_int result r m
      })"

definition sys_chdir :: "('d, 'n, 'c) hardware \<Rightarrow> regs_t \<Rightarrow> ('d, 'n, 'c) machine \<Rightarrow> ('d, 'n, 'c) sys_result" where
  "sys_chdir H r m = do {
     path \<leftarrow> u_str H (r_ebx r) m;
     (result, fs) \<leftarrow> fat32_chdir (hw_disk H) path (m_fat m);
     ret_int result r (set_fat fs m)
   }"

definition sys_get_cwd_cluster :: "regs_t \<Rightarrow> ('d, 'n, 'c) machine \<Rightarrow> ('d, 'n, 'c) sys_result" where
  "sys_get_cwd_cluster r m = ret (g_current_dir_cluster (m_fat m)) r m"

definition sys_open :: "('d, 'n, 'c) hardware \<Rightarrow> regs_t \<Rightarrow> ('d, 'n, 'c) machine \<Rightarrow> ('d, 'n, 'c) sys_result" where
  "sys_open H r m =
     (let flags = r_ecx r; (fd, m) = alloc_fd m in
      if fd < 0 then ret_int (- 1) r m
      else do {
        path \<leftarrow> u_str H (r_ebx r) m;
        (result, f, fs) \<leftarrow> fat32_open (hw_disk H) path (ucast flags) (m_fat m);
        let m = set_file fd f (set_fat fs m);
        if result \<noteq> 0 then ret_int (- 1) r (free_fd fd m) else ret_int fd r m
      })"

section \<open>Clock\<close>

text \<open>The byte of padding of the structure keeps its value.\<close>

definition sys_rtc_time :: "('d, 'n, 'c) hardware \<Rightarrow> regs_t \<Rightarrow> ('d, 'n, 'c) machine \<Rightarrow> ('d, 'n, 'c) sys_result" where
  "sys_rtc_time H r m =
     (let out = r_ebx r in
      if out = 0 then ret 0 r m
      else do {
        let (t, io) = rtc_get_local_time (hw_io H) (m_io m);
        pad \<leftarrow> u_read H 1 (out + 5) m;
        m \<leftarrow> u_write H out (rtc_time_to_bytes (hd pad) t) (m\<lparr>m_io := io\<rparr>);
        ret 0 r m
      })"

definition sys_timezone :: "('d, 'n, 'c) hardware \<Rightarrow> regs_t \<Rightarrow> ('d, 'n, 'c) machine \<Rightarrow> ('d, 'n, 'c) sys_result" where
  "sys_timezone H r m =
     (let out = r_ebx r in
      if out = 0 then ret 0 r m
      else do {
        m \<leftarrow> u_write H out (le32 (word_of_int (m_timezone m))) m;
        ret 0 r m
      })"

section \<open>Network\<close>

definition sys_net_init :: "regs_t \<Rightarrow> ('d, 'n, 'c) machine \<Rightarrow> ('d, 'n, 'c) sys_result" where
  "sys_net_init r m =
     (let m = m\<lparr>net_ip := r_ebx r, net_gateway := r_ecx r, net_netmask := r_edx r\<rparr> in do {
        m \<leftarrow> on_net_unit (\<lambda>n. Some (ip_init (net_ip m) n)) m;
        m \<leftarrow> on_net_unit (arp_init (net_ip m)) m;
        ret 0 r (m\<lparr>net_initialized := 1\<rparr>)
      })"

definition sys_ping :: "('d, 'n, 'c) hardware \<Rightarrow> regs_t \<Rightarrow> ('d, 'n, 'c) machine \<Rightarrow> ('d, 'n, 'c) sys_result" where
  "sys_ping H r m = do {
     m \<leftarrow> on_net_unit (icmp_ping (hw_net H) (hw_dma H) (r_ebx r)) m;
     ret 0 r m
   }"

definition sys_ping_status :: "regs_t \<Rightarrow> ('d, 'n, 'c) machine \<Rightarrow> ('d, 'n, 'c) sys_result" where
  "sys_ping_status r m = ret_int (icmp_get_status (m_net m)) r m"

definition sys_ping_reset :: "regs_t \<Rightarrow> ('d, 'n, 'c) machine \<Rightarrow> ('d, 'n, 'c) sys_result" where
  "sys_ping_reset r m = ret 0 r (m\<lparr>m_net := icmp_reset_status (m_net m)\<rparr>)"

definition sys_arp_request :: "('d, 'n, 'c) hardware \<Rightarrow> regs_t \<Rightarrow> ('d, 'n, 'c) machine \<Rightarrow> ('d, 'n, 'c) sys_result" where
  "sys_arp_request H r m = do {
     m \<leftarrow> on_net_unit (arp_request (hw_net H) (hw_dma H) (r_ebx r)) m;
     ret 0 r m
   }"

definition sys_arp_lookup :: "('d, 'n, 'c) hardware \<Rightarrow> regs_t \<Rightarrow> ('d, 'n, 'c) machine \<Rightarrow> ('d, 'n, 'c) sys_result" where
  "sys_arp_lookup H r m =
     (let mac = r_ecx r in
      if mac = 0 then ret_int (- 1) r m
      else do {
        (found, m) \<leftarrow> on_net (arp_lookup (r_ebx r)) m;
        case found of
          None \<Rightarrow> ret 0 r m
        | Some a \<Rightarrow> do { m \<leftarrow> u_write H mac (take 6 a) m; ret 1 r m }
      })"

definition sys_arp_print :: "regs_t \<Rightarrow> ('d, 'n, 'c) machine \<Rightarrow> ('d, 'n, 'c) sys_result" where
  "sys_arp_print r m = do { m \<leftarrow> on_net_unit arp_print_table m; ret 0 r m }"

definition sys_arp_add :: "('d, 'n, 'c) hardware \<Rightarrow> regs_t \<Rightarrow> ('d, 'n, 'c) machine \<Rightarrow> ('d, 'n, 'c) sys_result" where
  "sys_arp_add H r m =
     (let mac = r_ecx r in
      if mac = 0 then ret_int (- 1) r m
      else do {
        a \<leftarrow> u_read H 6 mac m;
        m \<leftarrow> on_net_unit (arp_add_entry (hw_net H) (hw_dma H) (r_ebx r) a) m;
        ret 0 r m
      })"

text \<open>The fields of the caller's structure: address, hardware address, and the flag after two bytes of padding.\<close>

definition sys_arp_get_entry :: "('d, 'n, 'c) hardware \<Rightarrow> regs_t \<Rightarrow> ('d, 'n, 'c) machine \<Rightarrow> ('d, 'n, 'c) sys_result" where
  "sys_arp_get_entry H r m =
     (let index = sint (r_ebx r); out = r_ecx r in
      if out = 0 \<or> index < 0 \<or> index \<ge> 16 then ret_int (- 1) r m
      else (case arp_get_entry_by_index index (m_net m) of
              None \<Rightarrow> ret_int (- 1) r m
            | Some (ip, mac, valid) \<Rightarrow> do {
                m \<leftarrow> u_write H out (le32 ip @ take 6 mac) m;
                m \<leftarrow> u_write H (out + 12) (le32 (if valid then 1 else 0)) m;
                ret 0 r m
              }))"

definition sys_net_status :: "('d, 'n, 'c) hardware \<Rightarrow> regs_t \<Rightarrow> ('d, 'n, 'c) machine \<Rightarrow> ('d, 'n, 'c) sys_result" where
  "sys_net_status H r m =
     (let status = r_ebx r in
      if status = 0 then ret_int (- 1) r m
      else if net_initialized m = 0 then ret_int (- 1) r m
      else do {
        m \<leftarrow> u_write H status (le32 (net_ip m) @ le32 (net_gateway m) @ le32 (net_netmask m) @ take 6 (eth_mac (m_net m))) m;
        m \<leftarrow> u_write H (status + 20) (le32 1 @ le32 0 @ le32 0 @ le32 0 @ le32 0) m;
        ret 0 r m
      })"

section \<open>Power\<close>

definition sys_reboot :: "('d, 'n, 'c) hardware \<Rightarrow> regs_t \<Rightarrow> ('d, 'n, 'c) machine \<Rightarrow> ('d, 'n, 'c) sys_result" where
  "sys_reboot H r m =
     (let m = m_puts ([10] @ ascii ''Rebooting system...'' @ [10]) m in do {
        io \<leftarrow> power_reboot (hw_io H) (m_io m);
        Some (Sys_Reset, r, m\<lparr>m_io := io\<rparr>)
      })"

definition sys_shutdown :: "('d, 'n, 'c) hardware \<Rightarrow> regs_t \<Rightarrow> ('d, 'n, 'c) machine \<Rightarrow> ('d, 'n, 'c) sys_result" where
  "sys_shutdown H r m =
     (let m = m_puts ([10] @ ascii ''Shutting down...'' @ [10]) m;
          (txt, io) = power_shutdown (hw_io H) (m_power m) (m_io m)
      in Some (Sys_Stopped, r, m_puts txt (m\<lparr>m_io := io\<rparr>)))"

definition sys_halt :: "regs_t \<Rightarrow> ('d, 'n, 'c) machine \<Rightarrow> ('d, 'n, 'c) sys_result" where
  "sys_halt r m = Some (Sys_Stopped, r, m_puts ([10] @ ascii ''System halted.'' @ [10]) m)"

section \<open>The dispatcher\<close>

definition SYS_WRITE :: u32 where "SYS_WRITE = 1"
definition SYS_READ :: u32 where "SYS_READ = 2"
definition SYS_EXIT :: u32 where "SYS_EXIT = 3"
definition SYS_CLEAR :: u32 where "SYS_CLEAR = 4"
definition SYS_DISK_READ :: u32 where "SYS_DISK_READ = 5"
definition SYS_DISK_WRITE :: u32 where "SYS_DISK_WRITE = 6"
definition SYS_SLEEP :: u32 where "SYS_SLEEP = 7"
definition SYS_OPEN :: u32 where "SYS_OPEN = 8"
definition SYS_CLOSE :: u32 where "SYS_CLOSE = 9"
definition SYS_FILE_READ :: u32 where "SYS_FILE_READ = 10"
definition SYS_FILE_WRITE :: u32 where "SYS_FILE_WRITE = 11"
definition SYS_SEEK :: u32 where "SYS_SEEK = 12"
definition SYS_UNLINK :: u32 where "SYS_UNLINK = 13"
definition SYS_MKDIR :: u32 where "SYS_MKDIR = 14"
definition SYS_READDIR :: u32 where "SYS_READDIR = 15"
definition SYS_RTC_TIME :: u32 where "SYS_RTC_TIME = 16"
definition SYS_TIMEZONE :: u32 where "SYS_TIMEZONE = 17"
definition SYS_CHDIR :: u32 where "SYS_CHDIR = 18"
definition SYS_GETCWD :: u32 where "SYS_GETCWD = 19"
definition SYS_GET_CWD_CLUSTER :: u32 where "SYS_GET_CWD_CLUSTER = 20"
definition SYS_NET_INIT :: u32 where "SYS_NET_INIT = 21"
definition SYS_PING :: u32 where "SYS_PING = 22"
definition SYS_PING_STATUS :: u32 where "SYS_PING_STATUS = 23"
definition SYS_PING_RESET :: u32 where "SYS_PING_RESET = 24"
definition SYS_ARP_REQUEST :: u32 where "SYS_ARP_REQUEST = 25"
definition SYS_ARP_LOOKUP :: u32 where "SYS_ARP_LOOKUP = 26"
definition SYS_ARP_PRINT :: u32 where "SYS_ARP_PRINT = 27"
definition SYS_NET_STATUS :: u32 where "SYS_NET_STATUS = 28"
definition SYS_ARP_ADD :: u32 where "SYS_ARP_ADD = 29"
definition SYS_ARP_GET_ENTRY :: u32 where "SYS_ARP_GET_ENTRY = 30"
definition SYS_REBOOT :: u32 where "SYS_REBOOT = 31"
definition SYS_SHUTDOWN :: u32 where "SYS_SHUTDOWN = 32"
definition SYS_HALT :: u32 where "SYS_HALT = 33"
definition SYS_YIELD :: u32 where "SYS_YIELD = 34"
definition SYS_PS :: u32 where "SYS_PS = 35"
definition SYS_KILL :: u32 where "SYS_KILL = 36"
definition SYS_EXEC :: u32 where "SYS_EXEC = 37"

lemmas syscall_numbers =
  SYS_WRITE_def SYS_READ_def SYS_EXIT_def SYS_CLEAR_def SYS_DISK_READ_def SYS_DISK_WRITE_def
  SYS_SLEEP_def SYS_OPEN_def SYS_CLOSE_def SYS_FILE_READ_def SYS_FILE_WRITE_def SYS_SEEK_def
  SYS_UNLINK_def SYS_MKDIR_def SYS_READDIR_def SYS_RTC_TIME_def SYS_TIMEZONE_def SYS_CHDIR_def
  SYS_GETCWD_def SYS_GET_CWD_CLUSTER_def SYS_NET_INIT_def SYS_PING_def SYS_PING_STATUS_def SYS_PING_RESET_def
  SYS_ARP_REQUEST_def SYS_ARP_LOOKUP_def SYS_ARP_PRINT_def SYS_NET_STATUS_def SYS_ARP_ADD_def SYS_ARP_GET_ENTRY_def
  SYS_REBOOT_def SYS_SHUTDOWN_def SYS_HALT_def SYS_YIELD_def SYS_PS_def SYS_KILL_def
  SYS_EXEC_def

definition sys_case :: "('d, 'n, 'c) hardware \<Rightarrow> regs_t \<Rightarrow> ('d, 'n, 'c) machine \<Rightarrow> ('d, 'n, 'c) sys_result" where
  "sys_case H r m =
     (let n = r_eax r in
      if n = SYS_WRITE then sys_write H r m
      else if n = SYS_READ then sys_read H r m
      else if n = SYS_EXEC then sys_exec H r m
      else if n = SYS_GETCWD then sys_getcwd H r m
      else if n = SYS_YIELD then sys_yield r m
      else if n = SYS_PS then sys_ps r m
      else if n = SYS_KILL then sys_kill r m
      else if n = SYS_EXIT then sys_exit r m
      else if n = SYS_CLEAR then sys_clear r m
      else if n = SYS_DISK_READ then sys_disk_read H r m
      else if n = SYS_DISK_WRITE then sys_disk_write H r m
      else if n = SYS_SLEEP then sys_sleep r m
      else if n = SYS_CLOSE then sys_close H r m
      else if n = SYS_FILE_READ then sys_file_read H r m
      else if n = SYS_FILE_WRITE then sys_file_write H r m
      else if n = SYS_SEEK then sys_seek r m
      else if n = SYS_UNLINK then sys_unlink H r m
      else if n = SYS_MKDIR then sys_mkdir H r m
      else if n = SYS_READDIR then sys_readdir H r m
      else if n = SYS_CHDIR then sys_chdir H r m
      else if n = SYS_GET_CWD_CLUSTER then sys_get_cwd_cluster r m
      else if n = SYS_RTC_TIME then sys_rtc_time H r m
      else if n = SYS_TIMEZONE then sys_timezone H r m
      else if n = SYS_NET_INIT then sys_net_init r m
      else if n = SYS_PING then sys_ping H r m
      else if n = SYS_PING_STATUS then sys_ping_status r m
      else if n = SYS_PING_RESET then sys_ping_reset r m
      else if n = SYS_ARP_REQUEST then sys_arp_request H r m
      else if n = SYS_ARP_LOOKUP then sys_arp_lookup H r m
      else if n = SYS_ARP_PRINT then sys_arp_print r m
      else if n = SYS_ARP_ADD then sys_arp_add H r m
      else if n = SYS_ARP_GET_ENTRY then sys_arp_get_entry H r m
      else if n = SYS_NET_STATUS then sys_net_status H r m
      else if n = SYS_OPEN then sys_open H r m
      else if n = SYS_REBOOT then sys_reboot H r m
      else if n = SYS_SHUTDOWN then sys_shutdown H r m
      else if n = SYS_HALT then sys_halt r m
      else ret_int (- 1) r (m_puts (ascii ''[unknown syscall]'' @ [10]) m))"

definition syscall_dispatch :: "('d, 'n, 'c) hardware \<Rightarrow> regs_t \<Rightarrow> ('d, 'n, 'c) machine \<Rightarrow> ('d, 'n, 'c) sys_result" where
  "syscall_dispatch H r m = do {
     (e, r, m) \<leftarrow> sys_case H r m;
     m \<leftarrow> draw_console m;
     Some (e, r, m)
   }"

end
