(* ===== verification/Syscall_Files.thy ===== *)
theory Syscall_Files
  imports Syscalls
begin

text \<open>
  Descriptors of the system call interface: whatever a program passes to \<open>syscall_dispatch\<close>, the descriptor table
  stays well formed and only the descriptor named by the call changes; data written through a descriptor is read back
  through it; keys reach the program in the order they were pressed.
\<close>

section \<open>What every result satisfies\<close>

text \<open>\<open>yields x P\<close>: if \<open>x\<close> has a result, it satisfies \<open>P\<close>; the rules follow the program text.\<close>

definition yields :: "'a option \<Rightarrow> ('a \<Rightarrow> bool) \<Rightarrow> bool" where
  "yields x P \<longleftrightarrow> (\<forall>y. x = Some y \<longrightarrow> P y)"

named_theorems yields_rules

lemma yieldsD: "yields x P \<Longrightarrow> x = Some y \<Longrightarrow> P y"
  by (simp add: yields_def)

lemma yields_bind [yields_rules]: "(\<And>y. x = Some y \<Longrightarrow> yields (f y) P) \<Longrightarrow> yields (Option.bind x f) P"
  by (auto simp: yields_def bind_eq_Some_conv)

lemma yields_Some [yields_rules]: "P y \<Longrightarrow> yields (Some y) P"
  by (simp add: yields_def)

lemma yields_None [yields_rules]: "yields None P"
  by (simp add: yields_def)

lemma yields_if [yields_rules]: "(c \<Longrightarrow> yields x P) \<Longrightarrow> (\<not> c \<Longrightarrow> yields x' P) \<Longrightarrow> yields (if c then x else x') P"
  by simp

lemma yields_pair [yields_rules]: "(\<And>a b. p = (a, b) \<Longrightarrow> yields (g a b) P) \<Longrightarrow> yields (case p of (a, b) \<Rightarrow> g a b) P"
  by (cases p) simp

lemma yields_option [yields_rules]:
  "(z = None \<Longrightarrow> yields x P) \<Longrightarrow> (\<And>y. z = Some y \<Longrightarrow> yields (f y) P) \<Longrightarrow> yields (case z of None \<Rightarrow> x | Some y \<Rightarrow> f y) P"
  by (cases z) simp_all

lemma yields_Let [yields_rules]: "(\<And>y. y = v \<Longrightarrow> yields (f y) P) \<Longrightarrow> yields (Let v f) P"
  by simp

section \<open>File operations keep a file open\<close>

lemma fat32_read_loop_open:
  assumes "fat32_read_loop D c off sz n f b s = Some y" shows "f_is_open (fst (snd y)) = f_is_open f"
proof (rule fat32_read_loop.raw_induct[where P = "\<lambda>D c off sz n f b s y. f_is_open (fst (snd y)) = f_is_open f", OF _ assms], goal_cases)
  case (1 loop D c off sz n f b s y)
  show ?case
    by (rule yieldsD[OF _ 1(2)]) (intro yields_rules; fastforce simp: yields_def dest: 1(1))
qed

lemma advance_open: "f_is_open (advance f k) = f_is_open f"
  by (simp add: advance_def Let_def)

lemma fat32_write_loop_open:
  assumes "fat32_write_loop D c off sz n f b s = Some y" shows "f_is_open (fst (snd y)) = f_is_open f"
proof (rule fat32_write_loop.raw_induct[where P = "\<lambda>D c off sz n f b s y. f_is_open (fst (snd y)) = f_is_open f", OF _ assms], goal_cases)
  case (1 loop D c off sz n f b s y)
  show ?case
    by (rule yieldsD[OF _ 1(2)])
      (intro yields_rules; fastforce simp: yields_def advance_open dest: 1(1))
qed

lemma fat32_read_open: "fat32_read D f b sz s = Some (r, f', b', s') \<Longrightarrow> f_is_open f' = f_is_open f"
proof -
  have "yields (fat32_read D f b sz s) (\<lambda>(r, f', b', s'). f_is_open f' = f_is_open f)"
    unfolding fat32_read_def by (intro yields_rules) (auto dest: fat32_read_loop_open)
  then show "fat32_read D f b sz s = Some (r, f', b', s') \<Longrightarrow> f_is_open f' = f_is_open f" by (auto dest: yieldsD)
qed

lemma fat32_write_open: "fat32_write D f b sz s = Some (r, f', s') \<Longrightarrow> f_is_open f' = f_is_open f"
proof -
  have "yields (fat32_write D f b sz s) (\<lambda>(r, f', s'). f_is_open f' = f_is_open f)"
    unfolding fat32_write_def by (intro yields_rules) (auto dest: fat32_write_loop_open split: if_splits prod.splits)
  then show "fat32_write D f b sz s = Some (r, f', s') \<Longrightarrow> f_is_open f' = f_is_open f" by (auto dest: yieldsD)
qed

lemma fat32_seek_open: "f_is_open (snd (fat32_seek f off w)) = f_is_open f"
  by (simp add: fat32_seek_def)

lemma fat32_open_open: "fat32_open D path flags s = Some (0, f, s') \<Longrightarrow> f_is_open f = 1"
proof -
  have "yields (fat32_open D path flags s) (\<lambda>(r, f, s'). r = 0 \<longrightarrow> f_is_open f = 1)"
    unfolding fat32_open_def by (intro yields_rules) (auto simp: finish_open_def)
  then show "fat32_open D path flags s = Some (0, f, s') \<Longrightarrow> f_is_open f = 1" by (auto dest: yieldsD)
qed

section \<open>What a call changes of the descriptors\<close>

type_synonym descriptors = "fat32_file list \<times> int list"

definition descriptors :: "('d, 'n, 'c) machine \<Rightarrow> descriptors" where
  "descriptors m = (file_table m, file_used m)"

text \<open>The steps a call with number \<open>n\<close> and first argument \<open>fd\<close> may take.\<close>

inductive fd_step :: "u32 \<Rightarrow> int \<Rightarrow> descriptors \<Rightarrow> descriptors \<Rightarrow> bool" where
  keep: "fd_step n fd d d"
| opened: "u ! i = 0 \<Longrightarrow> i < length u \<Longrightarrow> b = 0 \<or> b = 1 \<and> f_is_open f = 1 \<Longrightarrow> fd_step SYS_OPEN fd (t, u) (t[i := f], u[i := b])"
| used: "n \<in> {SYS_FILE_READ, SYS_FILE_WRITE, SYS_SEEK} \<Longrightarrow> 0 \<le> fd \<Longrightarrow> fd < 16 \<Longrightarrow> u ! nat fd \<noteq> 0 \<Longrightarrow>
    f_is_open f = f_is_open (t ! nat fd) \<Longrightarrow> fd_step n fd (t, u) (t[nat fd := f], u)"
| closed: "0 \<le> fd \<Longrightarrow> fd < 16 \<Longrightarrow> u ! nat fd \<noteq> 0 \<Longrightarrow> fd_step SYS_CLOSE fd (t, u) (t[nat fd := f], u[nat fd := 0])"

lemma descriptors_frame [simp]:
  "descriptors (set_kernel k m) = descriptors m" "descriptors (set_fat fs m) = descriptors m" "descriptors (set_tasks ts m) = descriptors m"
  "descriptors (m_puts txt m) = descriptors m" "descriptors (m\<lparr>m_net := net\<rparr>) = descriptors m" "descriptors (m\<lparr>m_kbd := kbd\<rparr>) = descriptors m"
  "descriptors (m\<lparr>m_screen := scr\<rparr>) = descriptors m" "descriptors (m\<lparr>m_io := io\<rparr>) = descriptors m"
  "descriptors (m\<lparr>net_ip := a, net_gateway := b, net_netmask := c\<rparr>) = descriptors m" "descriptors (m\<lparr>net_initialized := x\<rparr>) = descriptors m"
  by (simp_all add: descriptors_def set_kernel_def set_fat_def set_tasks_def m_puts_def)

named_theorems descriptors_keep \<open>operations that leave the descriptors\<close>

lemma u_write_descriptors [descriptors_keep]: "u_write H a bs m = Some m' \<Longrightarrow> descriptors m' = descriptors m"
  by (auto simp: u_write_def)

lemma on_net_descriptors [descriptors_keep]: "on_net f m = Some (x, m') \<Longrightarrow> descriptors m' = descriptors m"
  by (auto simp: on_net_def bind_eq_Some_conv)

lemma on_net_unit_descriptors [descriptors_keep]: "on_net_unit f m = Some m' \<Longrightarrow> descriptors m' = descriptors m"
  by (auto simp: on_net_unit_def dest: on_net_descriptors)

lemma draw_console_descriptors [descriptors_keep]: "draw_console m = Some m' \<Longrightarrow> descriptors m' = descriptors m"
  by (auto simp: draw_console_def bind_eq_Some_conv)

lemma sys_read_loop_descriptors [descriptors_keep]: "sys_read_loop H buf n i m = Some (j, m') \<Longrightarrow> descriptors m' = descriptors m"
  by (induction n arbitrary: i m) (auto simp: bind_eq_Some_conv Let_def split: prod.splits if_splits dest!: u_write_descriptors)


section \<open>Every call\<close>

text \<open>Calls that leave the descriptors.\<close>

abbreviation keeps_descriptors :: "('d, 'n, 'c) machine \<Rightarrow> ('d, 'n, 'c) sys_result \<Rightarrow> bool" where
  "keeps_descriptors m x \<equiv> yields x (\<lambda>(e, r', m'). descriptors m' = descriptors m)"

lemma yields_ret [yields_rules]: "P (Sys_Returns, r\<lparr>r_eax := v\<rparr>, m) \<Longrightarrow> yields (ret v r m) P"
  by (simp add: ret_def yields_def)

lemma keeps_terminal:
  "keeps_descriptors m (sys_write H r m)" "keeps_descriptors m (sys_read H r m)" "keeps_descriptors m (sys_clear r m)"
  unfolding sys_write_def sys_read_def sys_clear_def
  by (intro yields_rules; auto dest: descriptors_keep split: if_splits simp: bind_eq_Some_conv)+

lemma keeps_task:
  "keeps_descriptors m (sys_yield r m)" "keeps_descriptors m (sys_ps r m)"
  "keeps_descriptors m (sys_kill r m)" "keeps_descriptors m (sys_exit r m)" "keeps_descriptors m (sys_sleep r m)"
  unfolding sys_yield_def sys_ps_def sys_kill_def sys_exit_def sys_sleep_def
  by (intro yields_rules; auto dest: descriptors_keep)+

lemma keeps_exec: "keeps_descriptors m (sys_exec H r m)"
  unfolding sys_exec_def by (intro yields_rules) (auto simp: yields_def ret_def split: exec_outcome.splits)

lemma keeps_files:
  "keeps_descriptors m (sys_getcwd H r m)" "keeps_descriptors m (sys_disk_read H r m)" "keeps_descriptors m (sys_disk_write H r m)"
  "keeps_descriptors m (sys_unlink H r m)" "keeps_descriptors m (sys_mkdir H r m)"
  "keeps_descriptors m (sys_chdir H r m)" "keeps_descriptors m (sys_get_cwd_cluster r m)"
  unfolding sys_getcwd_def sys_disk_read_def sys_disk_write_def sys_unlink_def sys_mkdir_def sys_chdir_def sys_get_cwd_cluster_def
  by (intro yields_rules; auto dest!: descriptors_keep)+

lemma keeps_readdir: "keeps_descriptors m (sys_readdir H r m)"
  unfolding sys_readdir_def
  by (intro yields_rules) (auto simp: bind_eq_Some_conv split: if_splits dest!: descriptors_keep)

lemma keeps_clock: "keeps_descriptors m (sys_rtc_time H r m)" "keeps_descriptors m (sys_timezone H r m)"
  unfolding sys_rtc_time_def sys_timezone_def by (intro yields_rules; auto dest!: descriptors_keep)+

lemma keeps_net:
  "keeps_descriptors m (sys_net_init r m)" "keeps_descriptors m (sys_ping H r m)" "keeps_descriptors m (sys_ping_status r m)"
  "keeps_descriptors m (sys_ping_reset r m)" "keeps_descriptors m (sys_arp_request H r m)" "keeps_descriptors m (sys_arp_lookup H r m)"
  "keeps_descriptors m (sys_arp_print r m)" "keeps_descriptors m (sys_arp_add H r m)" "keeps_descriptors m (sys_arp_get_entry H r m)"
  "keeps_descriptors m (sys_net_status H r m)"
  unfolding sys_net_init_def sys_ping_def sys_ping_status_def sys_ping_reset_def sys_arp_request_def sys_arp_lookup_def
    sys_arp_print_def sys_arp_add_def sys_arp_get_entry_def sys_net_status_def
  by (intro yields_rules; auto dest!: descriptors_keep)+

lemma keeps_power:
  "keeps_descriptors m (sys_reboot H r m)" "keeps_descriptors m (sys_shutdown H r m)" "keeps_descriptors m (sys_halt r m)"
  unfolding sys_reboot_def sys_shutdown_def sys_halt_def by (intro yields_rules; auto)+


abbreviation steps_descriptors :: "u32 \<Rightarrow> int \<Rightarrow> ('d, 'n, 'c) machine \<Rightarrow> ('d, 'n, 'c) sys_result \<Rightarrow> bool" where
  "steps_descriptors n fd m x \<equiv> yields x (\<lambda>(e, r', m'). fd_step n fd (descriptors m) (descriptors m'))"

lemma set_file_descriptors [simp]:
  "descriptors (set_file fd f m) = ((file_table m)[nat fd := f], file_used m)"
  "file_used (set_file fd f m) = file_used m" "file_table (set_file fd f m) = (file_table m)[nat fd := f]"
  by (simp_all add: set_file_def descriptors_def)

lemma tables_frame [simp]:
  "file_table (set_fat fs m) = file_table m" "file_used (set_fat fs m) = file_used m"
  by (simp_all add: set_fat_def)

lemma free_fd_descriptors: "0 \<le> fd \<Longrightarrow> fd < 16 \<Longrightarrow> descriptors (free_fd fd m) = (file_table m, (file_used m)[nat fd := 0])"
  by (simp add: free_fd_def descriptors_def)

lemma keeps_steps: "keeps_descriptors m x \<Longrightarrow> steps_descriptors n fd m x"
  by (auto simp: yields_def intro: fd_step.keep)

lemma bad_fdD: "\<not> bad_fd fd m \<Longrightarrow> 0 \<le> fd \<and> fd < 16 \<and> file_used m ! nat fd \<noteq> 0"
  by (auto simp: bad_fd_def)

lemma steps_close: "steps_descriptors SYS_CLOSE (sint (r_ebx r)) m (sys_close H r m)"
  unfolding sys_close_def
  by (intro yields_rules)
    (auto dest!: bad_fdD simp: free_fd_descriptors descriptors_def[of m] intro: fd_step.intros)

lemma steps_file_read: "steps_descriptors SYS_FILE_READ (sint (r_ebx r)) m (sys_file_read H r m)"
  unfolding sys_file_read_def
  by (intro yields_rules)
    (auto dest!: bad_fdD u_write_descriptors fat32_read_open simp: descriptors_def[of m] intro!: fd_step.used fd_step.keep)

lemma steps_file_write: "steps_descriptors SYS_FILE_WRITE (sint (r_ebx r)) m (sys_file_write H r m)"
  unfolding sys_file_write_def
  by (intro yields_rules)
    (auto dest!: bad_fdD fat32_write_open simp: descriptors_def[of m] intro!: fd_step.used fd_step.keep)

lemma steps_seek: "steps_descriptors SYS_SEEK (sint (r_ebx r)) m (sys_seek r m)"
proof -
  have "f_is_open f' = f_is_open f" if "(x, f') = fat32_seek f off w" for x f f' off w
    using fat32_seek_open[of f off w] by (simp flip: that)
  then show ?thesis unfolding sys_seek_def
    by (intro yields_rules) (auto dest!: bad_fdD simp: descriptors_def[of m] intro!: fd_step.used fd_step.keep)
qed

lemma steps_open:
  assumes len: "length (file_used m) = 16"
  shows "steps_descriptors SYS_OPEN fd m (sys_open H r m)"
proof (cases "first_index (\<lambda>u. u = 0) (file_used m)")
  case None
  then show ?thesis by (auto simp: sys_open_def alloc_fd_def yields_def ret_def intro: fd_step.keep)
next
  case (Some i)
  then have i: "i < length (file_used m)" "file_used m ! i = 0" using first_index_Some[OF Some] by auto
  let ?m = "m\<lparr>file_used := (file_used m)[i := 1]\<rparr>"
  have a: "alloc_fd m = (int i, ?m)" using Some by (simp add: alloc_fd_def)
  have d: "descriptors m = (file_table m, file_used m)" by (simp add: descriptors_def)
  have "fd_step SYS_OPEN fd (descriptors m) (descriptors (set_file (int i) f (set_fat fs ?m)))" if "f_is_open f = 1" for f fs
    unfolding d using fd_step.opened[of "file_used m" i 1 f fd "file_table m"] i that by simp
  moreover have "fd_step SYS_OPEN fd (descriptors m) (descriptors (free_fd (int i) (set_file (int i) f (set_fat fs ?m))))" for f fs
    unfolding d using fd_step.opened[of "file_used m" i 0 f fd "file_table m"] i len by (simp add: free_fd_descriptors)
  ultimately show ?thesis unfolding sys_open_def a
    by (auto simp: yields_def Let_def ret_def bind_eq_Some_conv split: if_splits dest!: fat32_open_open)
qed


lemmas keeps_calls = keeps_terminal keeps_task keeps_exec keeps_files keeps_readdir keeps_clock keeps_net keeps_power

lemmas steps_calls = steps_close steps_file_read steps_file_write steps_seek

lemma steps_case:
  assumes "length (file_used m) = 16"
  shows "steps_descriptors (r_eax r) (sint (r_ebx r)) m (sys_case H r m)"
  unfolding sys_case_def Let_def
  by (intro yields_if; ((rule keeps_steps, rule keeps_calls) | (simp only:, rule steps_calls steps_open[OF assms])
    | (simp add: yields_def ret_def fd_step.keep)))

lemma steps_dispatch:
  assumes "length (file_used m) = 16" and "syscall_dispatch H r m = Some (e, r', m')"
  shows "fd_step (r_eax r) (sint (r_ebx r)) (descriptors m) (descriptors m')"
proof -
  from assms(2) obtain m1 where "sys_case H r m = Some (e, r', m1)" "draw_console m1 = Some m'"
    by (auto simp: syscall_dispatch_def bind_eq_Some_conv)
  then show ?thesis using yieldsD[OF steps_case[OF assms(1), where r = r and H = H]] draw_console_descriptors by fastforce
qed


section \<open>Descriptors stay well formed\<close>

definition fds_ok :: "('d, 'n, 'c) machine \<Rightarrow> bool" where
  "fds_ok m \<longleftrightarrow> length (file_table m) = 16 \<and> length (file_used m) = 16 \<and>
     (\<forall>i<16. file_used m ! i = 0 \<or> file_used m ! i = 1 \<and> f_is_open (file_table m ! i) = 1)"

definition tables_ok :: "descriptors \<Rightarrow> bool" where
  "tables_ok = (\<lambda>(t, u). length t = 16 \<and> length u = 16 \<and> (\<forall>i<16. u ! i = 0 \<or> u ! i = 1 \<and> f_is_open (t ! i) = 1))"

lemma fds_ok_tables: "fds_ok m = tables_ok (descriptors m)"
  by (simp add: fds_ok_def tables_ok_def descriptors_def)

lemma fd_step_ok: "fd_step n fd d d' \<Longrightarrow> tables_ok d \<Longrightarrow> tables_ok d'"
proof (induction rule: fd_step.induct)
  case (used n fd u f t)
  then show ?case by (auto simp: tables_ok_def nth_list_update nat_less_iff)
qed (auto simp: tables_ok_def nth_list_update)

lemma fd_step_other:
  "fd_step n fd d d' \<Longrightarrow> snd d ! i \<noteq> 0 \<Longrightarrow> n \<notin> {SYS_CLOSE, SYS_FILE_READ, SYS_FILE_WRITE, SYS_SEEK} \<or> fd \<noteq> int i \<Longrightarrow>
    snd d' ! i = snd d ! i \<and> fst d' ! i = fst d ! i"
  by (induction rule: fd_step.induct) (auto simp: nth_list_update)




section \<open>A machine with one open file\<close>

definition demo_hw :: "(ata_dev, sim_card, cmos_dev) hardware" where
  "demo_hw = \<lparr>hw_disk = ata_disk pio_drive, hw_net = sim_ports sim_base, hw_dma = sim_dma, hw_io = cmos_ports, hw_owned = (\<lambda>_. False)\<rparr>"

definition demo_tasks :: task_sys where
  "demo_tasks = \<lparr>tasks = [0x1000 \<mapsto> zero_task\<lparr>t_next := 0x1000\<rparr>], t_current = 0x1000, task_list = 0x1000, next_pid = 1,
     tick_count = 0, vm = boot_paging ucast\<rparr>"

definition demo_machine :: "(ata_dev, sim_card, cmos_dev) machine" where
  "demo_machine = \<lparr>m_kernel = \<lparr>k_fat = one_file_volume, k_tasks = demo_tasks\<rparr>, m_net = sim_net, m_kbd = kbd_init, m_screen = small_screen,
     m_io = \<lparr>c_index = 0, c_regs = (\<lambda>_. 0)\<rparr>, m_power = power_boot, m_timezone = 0,
     file_table = (replicate 16 blank_file)[3 := one_file], file_used = (replicate 16 0)[3 := 1],
     net_ip = 0, net_gateway = 0, net_netmask = 0, net_initialized = 0\<rparr>"

text \<open>The registers of a call.\<close>

definition call :: "u32 \<Rightarrow> u32 \<Rightarrow> u32 \<Rightarrow> u32 \<Rightarrow> regs_t" where
  "call n b c d = \<lparr>r_edi = 0, r_esi = 0, r_ebp = 0, r_esp = 0, r_ebx = b, r_edx = d, r_ecx = c, r_eax = n, r_gs = 0x23, r_fs = 0x23,
     r_es = 0x23, r_ds = 0x23\<rparr>"

lemma call_simps [simp]:
  "r_eax (call n b c d) = n" "r_ebx (call n b c d) = b" "r_ecx (call n b c d) = c" "r_edx (call n b c d) = d"
  by (simp_all add: call_def)

lemma demo_fds_ok: "fds_ok demo_machine"
  by (auto simp: fds_ok_def demo_machine_def one_file_def nth_list_update)

lemma demo_console: "console (m_fat demo_machine) = []"
  by (simp add: demo_machine_def one_file_volume_def small_volume_def)

lemma demo_seek:
  "\<exists>r m. syscall_dispatch demo_hw (call SYS_SEEK 3 5 0) demo_machine = Some (Sys_Returns, r, m) \<and>
     f_position (file_table m ! 3) = 5 \<and> r_eax r = 0"
  using demo_console
  by (simp add: syscall_dispatch_def sys_case_def syscall_numbers sys_seek_def bad_fd_def fat32_seek_def ret_def draw_console_def
      set_file_def set_fat_def demo_machine_def one_file_def)




section \<open>Writing and reading back\<close>

lemma vprefix_full: "vread owned n a v = Some bs \<Longrightarrow> vprefix owned n a v = bs"
  by (induction n arbitrary: a bs) (auto simp: bind_eq_Some_conv)

lemma vread_length: "vread owned n a v = Some bs \<Longrightarrow> length bs = n"
  by (induction n arbitrary: a bs) (auto simp: bind_eq_Some_conv)

lemma machine_frame [simp]:
  "m_vm (set_fat fs m) = m_vm m" "m_vm (set_file fd f m) = m_vm m" "m_fat (set_fat fs m) = fs" "m_fat (set_file fd f m) = m_fat m"
  "m_vm (set_kernel (set_vm v k) m) = v"
  by (simp_all add: set_fat_def set_file_def set_kernel_def set_vm_def)

lemma u_write_user:
  assumes "user_buffer (hw_owned H) (m_vm m) a (length bs)"
  obtains m' where "u_write H a bs m = Some m'" "u_read H (length bs) a m' = Some bs"
    "written_cells (m_vm m) (m_vm m') (user_cells (m_vm m) a (length bs))" "m' = set_kernel (set_vm (m_vm m') (m_kernel m)) m"
proof -
  from vwrite_user[OF assms] obtain v where v: "vwrite (hw_owned H) a bs (m_vm m) = Some v" "vread (hw_owned H) (length bs) a v = Some bs"
    "written_cells (m_vm m) v (user_cells (m_vm m) a (length bs))" by blast
  then show ?thesis using that[of "set_kernel (set_vm v (m_kernel m)) m"] by (simp add: u_write_def u_read_def)
qed

lemma sys_case_file:
  "sys_case H (call SYS_FILE_WRITE b c d) m = sys_file_write H (call SYS_FILE_WRITE b c d) m"
  "sys_case H (call SYS_FILE_READ b c d) m = sys_file_read H (call SYS_FILE_READ b c d) m"
  "sys_case H (call SYS_SEEK b c d) m = sys_seek (call SYS_SEEK b c d) m"
  by (simp_all add: sys_case_def syscall_numbers)

text \<open>C7. Data a program writes to a file comes back: writing a buffer through a descriptor, seeking to where the file
  was and reading into another buffer succeed and leave the bytes of the first in the second, for any place in the file
  and any page tables under which the first can be read and the second is a buffer.\<close>

theorem file_calls_roundtrip:
  assumes dev: "block_device (hw_disk H) sectors online cap" and rdy: "fat_ready online cap (m_fat m)"
    and fd: "\<not> bad_fd (sint fd) m" "length (file_table m) = 16" and f: "f = file_table m ! nat (sint fd)"
    and chain: "is_chain (fat_entry (sectors (disk (m_fat m))) (g_fs (m_fat m))) (g_fs (m_fat m)) cs" "f_first_cluster f = hd cs" "f_is_open f \<noteq> 0"
    and sz: "0 < sz" "sz < 0x80000000" "unat (f_position f) + unat sz < 4294967296"
    and fits: "unat (f_file_size f) \<le> length cs * unat (bytes_per_cluster (g_fs (m_fat m)))"
    and room: "unat (f_position f) + unat sz \<le>
      (length cs + card (free_clusters (sectors (disk (m_fat m))) (g_fs (m_fat m)))) * unat (bytes_per_cluster (g_fs (m_fat m)))"
    and src: "src \<noteq> 0" "u_read H (unat sz) src m = Some data"
    and dst: "dst \<noteq> 0" "user_buffer (hw_owned H) (m_vm m) dst (unat sz)"
  shows "\<exists>r1 m1 r2 m2 r3 m3. sys_case H (call SYS_FILE_WRITE fd src sz) m = Some (Sys_Returns, r1, m1) \<and> r_eax r1 = sz \<and>
    sys_case H (call SYS_SEEK fd (f_position f) 0) m1 = Some (Sys_Returns, r2, m2) \<and> r_eax r2 = 0 \<and>
    sys_case H (call SYS_FILE_READ fd dst sz) m2 = Some (Sys_Returns, r3, m3) \<and> r_eax r3 = sz \<and> u_read H (unat sz) dst m3 = Some data"
proof -
  let ?fd = "sint fd"
  have len: "length data = unat sz" using src(2) by (simp add: u_read_def vread_length)
  have pre: "vprefix (hw_owned H) (unat sz) src (m_vm m) = data" using src(2) by (simp add: u_read_def vprefix_full)
  from block_device.write_read_back[OF dev rdy chain sz(1) _ _ sz(3) fits room, of data "replicate (unat sz) 0"] len
  obtain f' s' f'' s'' where w: "fat32_write (hw_disk H) f (Some data) sz (m_fat m) = Some (sint sz, f', s')"
    and rd: "fat32_read (hw_disk H) (snd (fat32_seek f' (f_position f) 0)) (Some (replicate (unat sz) 0)) sz s' =
      Some (sint sz, f'', Some (put_at (replicate (unat sz) 0) 0 (take (unat sz) data)), s'')" by auto
  have out: "put_at (replicate (unat sz) 0) 0 (take (unat sz) data) = data" using len by (simp add: put_at_def)
  let ?m1 = "set_file ?fd f' (set_fat s' m)"
  have fd1: "\<not> bad_fd ?fd ?m1" using fd(1) by (simp add: bad_fd_def)
  have n: "nat ?fd < 16" using bad_fdD[OF fd(1)] by (simp add: nat_less_iff)
  have t1: "file_table ?m1 ! nat ?fd = f'" using fd(2) n by simp
  have c1: "sys_case H (call SYS_FILE_WRITE fd src sz) m = Some (Sys_Returns, (call SYS_FILE_WRITE fd src sz)\<lparr>r_eax := sz\<rparr>, ?m1)"
    using fd(1) w src(1) by (simp add: sys_case_file sys_file_write_def pre f[symmetric] ret_def)
  let ?g = "snd (fat32_seek f' (f_position f) 0)"
  have op: "f_is_open f' \<noteq> 0" using fat32_write_open[OF w] chain(3) by simp
  let ?m2 = "set_file ?fd ?g ?m1"
  have fd2: "\<not> bad_fd ?fd ?m2" using fd(1) by (simp add: bad_fd_def)
  have t2: "file_table ?m2 ! nat ?fd = ?g" using fd(2) n by simp
  have c2: "sys_case H (call SYS_SEEK fd (f_position f) 0) ?m1 = Some (Sys_Returns, (call SYS_SEEK fd (f_position f) 0)\<lparr>r_eax := 0\<rparr>, ?m2)"
    using fd1 op fd(2) n by (simp add: sys_case_file sys_seek_def Let_def ret_def fat32_seek_def)
  let ?m2' = "set_file ?fd f'' (set_fat s'' ?m2)"
  have "user_buffer (hw_owned H) (m_vm ?m2') dst (length data)" using dst(2) len by simp
  then obtain m3 where m3: "u_write H dst data ?m2' = Some m3" "u_read H (length data) dst m3 = Some data" by (rule u_write_user)
  have "sint sz \<noteq> - 1"
  proof
    assume "sint sz = - 1"
    then have "int (unat sz) = - 1" using sint_u32_small[OF sz(2)] by metis
    then show False by linarith
  qed
  then have c3: "sys_case H (call SYS_FILE_READ fd dst sz) ?m2 = Some (Sys_Returns, (call SYS_FILE_READ fd dst sz)\<lparr>r_eax := sz\<rparr>, m3)"
    using fd2 rd[unfolded out] dst(1) m3(1) len fd(2) n by (simp add: sys_case_file sys_file_read_def Let_def ret_def)
  show ?thesis
    by (intro exI conjI, rule c1, simp, rule c2, simp, rule c3, simp, use m3(2) len in simp)
qed


lemma demo_memory: "u_read demo_hw 3 0x500000 demo_machine = Some [0, 1, 2]"
  by (simp add: u_read_def demo_hw_def demo_machine_def demo_tasks_def numeral_3_eq_3 vget_def kernel_address_def boot_paging_def boot_memory_def)

text \<open>With paging off every place is a buffer.\<close>

lemma unpaged_buffer:
  assumes "\<not> paging_on v" and "n \<le> 2 ^ 32"
  shows "user_buffer (\<lambda>_. False) v a n"
proof -
  have k: "kernel_address v x = Some x" for x using assms(1) by (simp add: kernel_address_def)
  have t: "table_bytes v = {}" using assms(1) by (simp add: table_bytes_def)
  have "inj_on (\<lambda>i. a + of_nat i :: u32) {..<n}"
  proof (rule inj_onI)
    fix i j :: nat assume "i \<in> {..<n}" "j \<in> {..<n}" and e: "a + of_nat i = (a + of_nat j :: u32)"
    then have "i < 2 ^ 32" "j < 2 ^ 32" using assms(2) by simp_all
    moreover have "(of_nat i :: u32) = of_nat j" using e by simp
    ultimately show "i = j" by (metis unat_of_nat_u32)
  qed
  then show ?thesis using assms(2) by (simp add: user_buffer_def k t inj_on_def)
qed

lemma demo_buffer: "n \<le> 2 ^ 32 \<Longrightarrow> user_buffer (hw_owned demo_hw) (m_vm (demo_machine\<lparr>m_kbd := k\<rparr>)) a n"
  using unpaged_buffer[of "m_vm demo_machine" n a] by (simp add: demo_hw_def demo_machine_def demo_tasks_def boot_paging_def)

theorem file_calls_roundtrip_witness:
  "\<exists>r1 m1 r2 m2 r3 m3. sys_case demo_hw (call SYS_FILE_WRITE 3 0x500000 3) demo_machine = Some (Sys_Returns, r1, m1) \<and> r_eax r1 = 3 \<and>
    sys_case demo_hw (call SYS_SEEK 3 10 0) m1 = Some (Sys_Returns, r2, m2) \<and> r_eax r2 = 0 \<and>
    sys_case demo_hw (call SYS_FILE_READ 3 0x600000 3) m2 = Some (Sys_Returns, r3, m3) \<and> r_eax r3 = 3 \<and>
    u_read demo_hw 3 0x600000 m3 = Some [0, 1, 2]"
proof -
  have fat: "m_fat demo_machine = one_file_volume" "hw_disk demo_hw = ata_disk pio_drive" by (simp_all add: demo_machine_def demo_hw_def)
  have fd: "\<not> bad_fd (sint (3 :: u32)) demo_machine" "length (file_table demo_machine) = 16"
      "one_file = file_table demo_machine ! nat (sint (3 :: u32))"
    by (simp_all add: bad_fd_def demo_machine_def)
  have h: "f_first_cluster one_file = hd [3]" "f_is_open one_file \<noteq> 0" "0 < (3 :: u32)" "(3 :: u32) < 0x80000000"
    "unat (f_position one_file) + unat (3 :: u32) < 4294967296"
    "unat (f_file_size one_file) \<le> length [3 :: u32] * unat (bytes_per_cluster (g_fs one_file_volume))"
    "unat (f_position one_file) + unat (3 :: u32) \<le> (length [3 :: u32] +
      card (free_clusters (pio.hw_sectors (disk one_file_volume)) (g_fs one_file_volume))) *
      unat (bytes_per_cluster (g_fs one_file_volume))"
    by (simp_all add: one_file_def one_file_volume_fs small_fs_def)
  have p: "f_position one_file = 10" by (simp add: one_file_def)
  have u: "u_read demo_hw (unat (3 :: u32)) 0x500000 demo_machine = Some [0, 1, 2]"
    "user_buffer (hw_owned demo_hw) (m_vm demo_machine) 0x600000 (unat (3 :: u32))" "(0x500000 :: u32) \<noteq> 0" "(0x600000 :: u32) \<noteq> 0"
    using demo_memory demo_buffer[of 3 kbd_init "0x600000"] by (simp_all add: demo_machine_def)
  note c = one_file_chain[folded one_file_volume_fs]
  from file_calls_roundtrip[where H = demo_hw and m = demo_machine and sectors = pio.hw_sectors and online = pio.hw_online and cap = "0x10000000"
      and cs = "[3]" and f = one_file and sz = 3 and fd = 3 and src = "0x500000" and dst = "0x600000" and data = "[0, 1, 2]", unfolded fat p,
      OF pio.blk.block_device_axioms one_file_volume_ready fd c h(1-4) h(5)[unfolded p] h(6) h(7)[unfolded p] u(3,1,4,2)]
  show ?thesis by simp
qed


section \<open>Reading keys\<close>

text \<open>How many of the keys in the queue a read of \<open>n\<close> characters delivers: it stops at the first that is not ASCII.\<close>

definition delivered :: "nat \<Rightarrow> bytes \<Rightarrow> nat" where
  "delivered n keys = min n (length (takeWhile (\<lambda>c. c < 128) keys))"

text \<open>What stays in the queue: a key that stopped the read is lost.\<close>

definition left_over :: "nat \<Rightarrow> bytes \<Rightarrow> bytes" where
  "left_over n keys = drop (if delivered n keys < n then delivered n keys + 1 else delivered n keys) keys"

lemma delivered_simps [simp]:
  "delivered 0 keys = 0" "delivered n [] = 0" "delivered (Suc n) (k # keys) = (if k < 128 then Suc (delivered n keys) else 0)"
  by (simp_all add: delivered_def)

lemma left_over_simps [simp]:
  "left_over 0 keys = keys" "left_over n [] = []" "left_over (Suc n) (k # keys) = (if k < 128 then left_over n keys else keys)"
  by (simp_all add: left_over_def)

lemma kbd_pop_cases:
  assumes "kbd_ok k"
  obtains (empty) "kbd_list k = []" "kbd_pop k = (- 1, k)"
    | (key) c ks where "kbd_list k = c # ks" "fst (kbd_pop k) = sint c" "kbd_list (snd (kbd_pop k)) = ks" "kbd_ok (snd (kbd_pop k))"
proof (cases "kbd_head k = kbd_tail k")
  case True
  then show ?thesis using empty kbd_list_Nil_iff[OF assms] by (simp add: kbd_pop_def)
next
  case False
  from kbd_list_pop[OF assms False] kbd_pop_ok[OF assms] show ?thesis
    by (intro key) (simp_all add: kbd_pop_def False)
qed

lemma sint_u8_sign: "sint (c :: u8) < 0 \<longleftrightarrow> \<not> c < 128"
proof -
  have u: "0 \<le> uint c" "uint c < 256" using unsigned_greater_eq[of c, where 'a = int] unsigned_less[of c, where 'a = int] by simp_all
  have "sint c = signed_take_bit 7 (uint c)" by (simp add: sint_uint)
  also have "\<dots> = (uint c + 128) mod 256 - 128" by (simp only: signed_take_bit_eq_take_bit_shift take_bit_eq_mod) simp
  finally have s: "sint c = (uint c + 128) mod 256 - 128" .
  have l: "c < 128 \<longleftrightarrow> uint c < 128" by (simp add: word_less_def)
  show ?thesis
  proof (cases "uint c < 128")
    case True
    then have "(uint c + 128) mod 256 = uint c + 128" using u by (intro mod_pos_pos_trivial) linarith+
    then show ?thesis unfolding l s using True u by linarith
  next
    case False
    have "(uint c + 128) mod 256 = (uint c - 128 + 256) mod 256" by (rule arg_cong[where f = "\<lambda>x. x mod 256"]) linarith
    also have "\<dots> = (uint c - 128) mod 256" by (rule mod_add_self2)
    also have "\<dots> = uint c - 128" using False u by (intro mod_pos_pos_trivial) linarith+
    finally show ?thesis unfolding l s using False u by linarith
  qed
qed

lemma u_write_frame: "u_write H a bs m = Some m' \<Longrightarrow> m_kbd m' = m_kbd m"
  by (auto simp: u_write_def set_kernel_def)

lemma sys_read_loop_keys:
  "kbd_ok (m_kbd m) \<Longrightarrow>
    vwrite (hw_owned H) (buf + i) (take (delivered n (kbd_list (m_kbd m))) (kbd_list (m_kbd m))) (m_vm m) = Some v \<Longrightarrow>
    \<exists>m'. sys_read_loop H buf n i m = Some (i + of_nat (delivered n (kbd_list (m_kbd m))), m') \<and> m_vm m' = v \<and>
      kbd_list (m_kbd m') = left_over n (kbd_list (m_kbd m))"
proof (induction n arbitrary: i m)
  case (Suc n)
  from Suc.prems(1) show ?case
  proof (cases rule: kbd_pop_cases)
    case empty
    then show ?thesis using Suc.prems(2) by simp
  next
    case (key c ks)
    let ?m = "m\<lparr>m_kbd := snd (kbd_pop (m_kbd m))\<rparr>"
    show ?thesis
    proof (cases "c < 128")
      case False
      then have "sys_read_loop H buf (Suc n) i m = Some (i, ?m)"
        using key(2) by (simp add: split_beta Let_def sint_u8_sign)
      then show ?thesis using False key Suc.prems(2) by simp
    next
      case True
      obtain v1 where v1: "vput (hw_owned H) (buf + i) c (m_vm m) = Some v1"
        "vwrite (hw_owned H) (buf + i + 1) (take (delivered n ks) ks) v1 = Some v"
        using Suc.prems(2) True key(1) by (auto simp: bind_eq_Some_conv)
      let ?m1 = "set_kernel (set_vm v1 (m_kernel ?m)) ?m"
      have w: "u_write H (buf + i) [c] ?m = Some ?m1" using v1(1) by (simp add: u_write_def)
      have k: "m_kbd ?m1 = snd (kbd_pop (m_kbd m))" by (simp add: set_kernel_def)
      have "sys_read_loop H buf (Suc n) i m = Option.bind (u_write H (buf + i) [c] ?m) (sys_read_loop H buf n (i + 1))"
        using key(2) True by (simp add: split_beta Let_def sint_u8_sign)
      then have l: "sys_read_loop H buf (Suc n) i m = sys_read_loop H buf n (i + 1) ?m1" unfolding w by simp
      from Suc.IH[of ?m1 "i + 1"] v1(2) key(3,4) show ?thesis
        unfolding l k using True key(1) by (simp add: add.assoc)
    qed
  qed
qed simp

text \<open>The keys a program reads: the call stores the keys at the front of the queue, in order, up to the length asked for
  and up to the first key that is not ASCII, such as an arrow key; it returns their number, and those keys have left the
  queue together with the key that stopped it.\<close>

theorem sys_read_keys:
  assumes "kbd_ok (m_kbd m)" and "user_buffer (hw_owned H) (m_vm m) (r_ebx r) (delivered (unat (r_ecx r)) (kbd_list (m_kbd m)))"
  shows "\<exists>m'. sys_read H r m = Some (Sys_Returns, r\<lparr>r_eax := of_nat (delivered (unat (r_ecx r)) (kbd_list (m_kbd m)))\<rparr>, m') \<and>
    u_read H (delivered (unat (r_ecx r)) (kbd_list (m_kbd m))) (r_ebx r) m' =
      Some (take (delivered (unat (r_ecx r)) (kbd_list (m_kbd m))) (kbd_list (m_kbd m))) \<and>
    kbd_list (m_kbd m') = left_over (unat (r_ecx r)) (kbd_list (m_kbd m))"
proof -
  let ?keys = "kbd_list (m_kbd m)" let ?d = "delivered (unat (r_ecx r)) ?keys"
  have len: "length (take ?d ?keys) = ?d" 
    using length_takeWhile_le[of "\<lambda>c. c < 128" ?keys] by (simp add: delivered_def min_def del: length_kbd_list)
  from vwrite_user[of "hw_owned H" "m_vm m" "r_ebx r" "take ?d ?keys"] assms(2) obtain v where
    v: "vwrite (hw_owned H) (r_ebx r) (take ?d ?keys) (m_vm m) = Some v" "vread (hw_owned H) ?d (r_ebx r) v = Some (take ?d ?keys)"
    unfolding len by blast
  from sys_read_loop_keys[OF assms(1), of H "r_ebx r" 0 "unat (r_ecx r)" v] v(1) obtain m' where
    m': "sys_read_loop H (r_ebx r) (unat (r_ecx r)) 0 m = Some (of_nat ?d, m')" "m_vm m' = v" "kbd_list (m_kbd m') = left_over (unat (r_ecx r)) ?keys"
    by auto
  then show ?thesis using v(2) by (simp add: sys_read_def ret_def u_read_def)
qed

text \<open>The keys a, arrow up, b are waiting.\<close>

definition demo_keys :: kbd_state where
  "demo_keys = kbd_push 0x62 (kbd_push KEY_UP (kbd_push 0x61 kbd_init))"

lemma demo_keys_queue: "kbd_ok demo_keys" "kbd_list demo_keys = [0x61, KEY_UP, 0x62]"
proof -
  have i: "kbd_ok kbd_init" "kbd_list kbd_init = []" by (simp_all add: kbd_init_def kbd_ok_def kbd_list_def kbd_fill_def)
  then show "kbd_ok demo_keys" "kbd_list demo_keys = [0x61, KEY_UP, 0x62]"
    by (simp_all add: demo_keys_def kbd_push_ok kbd_list_push del: length_kbd_list)
qed

theorem sys_read_keys_witness:
  "\<exists>r' m'. sys_read demo_hw (call SYS_READ 0x600000 8 0) (demo_machine\<lparr>m_kbd := demo_keys\<rparr>) = Some (Sys_Returns, r', m') \<and> r_eax r' = 1 \<and>
    u_read demo_hw 1 0x600000 m' = Some [0x61] \<and> kbd_list (m_kbd m') = [0x62]"
proof -
  have d: "delivered 8 [0x61, KEY_UP, 0x62] = 1" by (simp add: delivered_def KEY_UP_def)
  have l: "left_over 8 [0x61, KEY_UP, 0x62] = [0x62]" by (simp add: left_over_def d)
  have "user_buffer (hw_owned demo_hw) (m_vm (demo_machine\<lparr>m_kbd := demo_keys\<rparr>)) 0x600000 1" by (rule demo_buffer) simp
  then show ?thesis
    using sys_read_keys[of "demo_machine\<lparr>m_kbd := demo_keys\<rparr>" demo_hw "call SYS_READ 0x600000 8 0"] demo_keys_queue d l by auto
qed

section \<open>Calls that are rejected\<close>



end
