(* ===== verification/Pci.thy ===== *)
theory Pci
  imports Ip Kernel_Memory Interrupts
begin

text \<open>
  The PCI bus and the set-up of the network card: \<open>src/drivers/pci/pci.c\<close> and \<open>rtl8139_init\<close> of
  \<open>src/drivers/rtl8139/rtl8139.c\<close>.  The two functions that enumerate call each other through bridges; the depth of
  that recursion is the fuel of \<open>pci_enumerate_bus\<close>, and \<open>pci_enumerate_terminates\<close> shows that the bound the code
  relies on, one level for each of the 256 places in the device table and one for the bus itself, is enough whatever
  the hardware answers.
\<close>

section \<open>State\<close>

definition PCI_CONFIG_ADDRESS :: u16 where "PCI_CONFIG_ADDRESS = 0xCF8"
definition PCI_CONFIG_DATA :: u16 where "PCI_CONFIG_DATA = 0xCFC"
definition MAX_PCI_DEVICES :: nat where "MAX_PCI_DEVICES = 256"

record pci_device_t =
  pd_bus :: u8
  pd_device :: u8
  pd_function :: u8
  pd_vendor_id :: u16
  pd_device_id :: u16
  pd_class_code :: u8
  pd_subclass :: u8
  pd_prog_if :: u8
  pd_interrupt_line :: u8
  pd_interrupt_pin :: u8
  pd_bar :: "u32 list"

text \<open>The entries of \<open>pci_devices\<close> in use; \<open>pci_device_count\<close> is their number.  The ports and the log are those of the
  network stack, which the driver set-up fills; memory and interrupt table are beside it.\<close>

record 'd pci_sys =
  pci_devices :: "pci_device_t list"
  p_net :: "'d net_state"
  p_mem :: mem_state
  p_idt :: "idt_entry list"

definition pci_device_count :: "'d pci_sys \<Rightarrow> nat" where
  "pci_device_count s = length (pci_devices s)"

definition p_out :: "('d \<Rightarrow> 'd) \<Rightarrow> 'd pci_sys \<Rightarrow> 'd pci_sys" where
  "p_out f s = s\<lparr>p_net := set_dev (f (n_dev (p_net s))) (p_net s)\<rparr>"

definition p_in :: "('d \<Rightarrow> 'v \<times> 'd) \<Rightarrow> 'd pci_sys \<Rightarrow> 'v \<times> 'd pci_sys" where
  "p_in f s = (let (v, d) = f (n_dev (p_net s)) in (v, s\<lparr>p_net := set_dev d (p_net s)\<rparr>))"

definition p_puts :: "bytes \<Rightarrow> 'd pci_sys \<Rightarrow> 'd pci_sys" where
  "p_puts txt s = s\<lparr>p_net := net_puts txt (p_net s)\<rparr>"

definition p_num :: "u32 \<Rightarrow> int \<Rightarrow> 'd pci_sys \<Rightarrow> 'd pci_sys option" where
  "p_num v base s = map_option (\<lambda>n. s\<lparr>p_net := n\<rparr>) (put_num v base (p_net s))"

section \<open>Configuration space\<close>

definition pci_make_address :: "u8 \<Rightarrow> u8 \<Rightarrow> u8 \<Rightarrow> u8 \<Rightarrow> u32" where
  "pci_make_address bus device func offset =
     0x80000000 OR push_bit 16 (ucast bus) OR push_bit 11 (ucast device) OR push_bit 8 (ucast func) OR (ucast offset AND 0xFC)"

definition pci_config_read_dword :: "'d port_ops \<Rightarrow> u8 \<Rightarrow> u8 \<Rightarrow> u8 \<Rightarrow> u8 \<Rightarrow> 'd pci_sys \<Rightarrow> u32 \<times> 'd pci_sys" where
  "pci_config_read_dword P bus device func offset s =
     p_in (inl P PCI_CONFIG_DATA) (p_out (outl P PCI_CONFIG_ADDRESS (pci_make_address bus device func offset)) s)"

definition pci_config_read_word :: "'d port_ops \<Rightarrow> u8 \<Rightarrow> u8 \<Rightarrow> u8 \<Rightarrow> u8 \<Rightarrow> 'd pci_sys \<Rightarrow> u16 \<times> 'd pci_sys" where
  "pci_config_read_word P bus device func offset s =
     (let (dword, s) = pci_config_read_dword P bus device func (offset AND NOT 3) s
      in (ucast (drop_bit (unat (offset AND 3) * 8) dword AND 0xFFFF), s))"

definition pci_config_read_byte :: "'d port_ops \<Rightarrow> u8 \<Rightarrow> u8 \<Rightarrow> u8 \<Rightarrow> u8 \<Rightarrow> 'd pci_sys \<Rightarrow> u8 \<times> 'd pci_sys" where
  "pci_config_read_byte P bus device func offset s =
     (let (dword, s) = pci_config_read_dword P bus device func (offset AND NOT 3) s
      in (ucast (drop_bit (unat (offset AND 3) * 8) dword AND 0xFF), s))"

definition pci_config_write_dword :: "'d port_ops \<Rightarrow> u8 \<Rightarrow> u8 \<Rightarrow> u8 \<Rightarrow> u8 \<Rightarrow> u32 \<Rightarrow> 'd pci_sys \<Rightarrow> 'd pci_sys" where
  "pci_config_write_dword P bus device func offset data s =
     p_out (outl P PCI_CONFIG_DATA data) (p_out (outl P PCI_CONFIG_ADDRESS (pci_make_address bus device func offset)) s)"

definition pci_config_write_word :: "'d port_ops \<Rightarrow> u8 \<Rightarrow> u8 \<Rightarrow> u8 \<Rightarrow> u8 \<Rightarrow> u16 \<Rightarrow> 'd pci_sys \<Rightarrow> 'd pci_sys" where
  "pci_config_write_word P bus device func offset data s =
     (let (dword, s) = pci_config_read_dword P bus device func (offset AND NOT 3) s;
          shift = unat (offset AND 3) * 8;
          dword = (dword AND NOT (push_bit shift 0xFFFF)) OR push_bit shift (ucast data AND 0xFFFF)
      in pci_config_write_dword P bus device func (offset AND NOT 3) dword s)"

definition pci_config_write_byte :: "'d port_ops \<Rightarrow> u8 \<Rightarrow> u8 \<Rightarrow> u8 \<Rightarrow> u8 \<Rightarrow> u8 \<Rightarrow> 'd pci_sys \<Rightarrow> 'd pci_sys" where
  "pci_config_write_byte P bus device func offset data s =
     (let (dword, s) = pci_config_read_dword P bus device func (offset AND NOT 3) s;
          shift = unat (offset AND 3) * 8;
          dword = (dword AND NOT (push_bit shift 0xFF)) OR push_bit shift (ucast data AND 0xFF)
      in pci_config_write_dword P bus device func (offset AND NOT 3) dword s)"

section \<open>Enumeration\<close>

fun read_bars :: "'d port_ops \<Rightarrow> u8 \<Rightarrow> u8 \<Rightarrow> u8 \<Rightarrow> nat list \<Rightarrow> 'd pci_sys \<Rightarrow> u32 list \<times> 'd pci_sys" where
  "read_bars P bus device func [] s = ([], s)"
| "read_bars P bus device func (i # is) s =
     (let (v, s) = pci_config_read_dword P bus device func (0x10 + of_nat i * 4) s;
          (vs, s) = read_bars P bus device func is s
      in (v # vs, s))"

text \<open>\<open>enum\<close> is \<open>pci_enumerate_bus\<close>, called for the bus behind a bridge.  The place in the table is taken before the
  bridge is followed.\<close>

definition pci_check_function ::
    "'d port_ops \<Rightarrow> (u8 \<Rightarrow> 'd pci_sys \<Rightarrow> 'd pci_sys option) \<Rightarrow> u8 \<Rightarrow> u8 \<Rightarrow> u8 \<Rightarrow> 'd pci_sys \<Rightarrow> 'd pci_sys option" where
  "pci_check_function P enum bus device func s =
     (let (vendor, s) = pci_config_read_word P bus device func 0 s in
      if vendor = 0xFFFF then Some s
      else if pci_device_count s \<ge> MAX_PCI_DEVICES then Some s
      else
        let (device_id, s) = pci_config_read_word P bus device func 2 s;
            (class_code, s) = pci_config_read_byte P bus device func 0xB s;
            (sub_class, s) = pci_config_read_byte P bus device func 0xA s;
            (prog_if, s) = pci_config_read_byte P bus device func 0x9 s;
            (line, s) = pci_config_read_byte P bus device func 0x3C s;
            (pin, s) = pci_config_read_byte P bus device func 0x3D s;
            (bars, s) = read_bars P bus device func [0..<6] s;
            dev = \<lparr>pd_bus = bus, pd_device = device, pd_function = func, pd_vendor_id = vendor, pd_device_id = device_id,
              pd_class_code = class_code, pd_subclass = sub_class, pd_prog_if = prog_if, pd_interrupt_line = line,
              pd_interrupt_pin = pin, pd_bar = bars\<rparr>;
            s = s\<lparr>pci_devices := pci_devices s @ [dev]\<rparr>
        in if class_code = 0x06 \<and> sub_class = 0x04 then
             let (secondary, s) = pci_config_read_byte P bus device func 0x19 s in enum secondary s
           else Some s)"

fun function_loop ::
    "'d port_ops \<Rightarrow> (u8 \<Rightarrow> 'd pci_sys \<Rightarrow> 'd pci_sys option) \<Rightarrow> u8 \<Rightarrow> u8 \<Rightarrow> nat list \<Rightarrow> 'd pci_sys \<Rightarrow> 'd pci_sys option" where
  "function_loop P enum bus device [] s = Some s"
| "function_loop P enum bus device (f # fs) s =
     (let (vendor, s) = pci_config_read_word P bus device (of_nat f) 0 s in do {
        s \<leftarrow> (if vendor \<noteq> 0xFFFF then pci_check_function P enum bus device (of_nat f) s else Some s);
        function_loop P enum bus device fs s
      })"

fun device_loop ::
    "'d port_ops \<Rightarrow> (u8 \<Rightarrow> 'd pci_sys \<Rightarrow> 'd pci_sys option) \<Rightarrow> u8 \<Rightarrow> nat list \<Rightarrow> 'd pci_sys \<Rightarrow> 'd pci_sys option" where
  "device_loop P enum bus [] s = Some s"
| "device_loop P enum bus (dev # devs) s =
     (let device = of_nat dev; (vendor, s) = pci_config_read_word P bus device 0 0 s in
      if vendor = 0xFFFF then device_loop P enum bus devs s
      else do {
        s \<leftarrow> pci_check_function P enum bus device 0 s;
        let (header, s) = pci_config_read_byte P bus device 0 0xE s;
        s \<leftarrow> (if header AND 0x80 \<noteq> 0 then function_loop P enum bus device [1..<8] s else Some s);
        device_loop P enum bus devs s
      })"

fun pci_enumerate_bus :: "'d port_ops \<Rightarrow> nat \<Rightarrow> u8 \<Rightarrow> 'd pci_sys \<Rightarrow> 'd pci_sys option" where
  "pci_enumerate_bus P 0 bus s = None"
| "pci_enumerate_bus P (Suc fuel) bus s = device_loop P (pci_enumerate_bus P fuel) bus [0..<32] s"

fun host_loop :: "'d port_ops \<Rightarrow> nat \<Rightarrow> nat list \<Rightarrow> 'd pci_sys \<Rightarrow> 'd pci_sys option" where
  "host_loop P fuel [] s = Some s"
| "host_loop P fuel (f # fs) s =
     (let (vendor, s) = pci_config_read_word P 0 0 (of_nat f) 0 s in do {
        s \<leftarrow> (if vendor \<noteq> 0xFFFF then pci_enumerate_bus P fuel (of_nat f) s else Some s);
        host_loop P fuel fs s
      })"

definition pci_enumerate :: "'d port_ops \<Rightarrow> nat \<Rightarrow> 'd pci_sys \<Rightarrow> 'd pci_sys option" where
  "pci_enumerate P fuel s =
     (let s = (p_puts (ascii ''[PCI] Enumerating devices...'' @ [10]) s)\<lparr>pci_devices := []\<rparr>;
          (header, s) = pci_config_read_byte P 0 0 0 0xE s
      in do {
        s \<leftarrow> (if header AND 0x80 \<noteq> 0 then host_loop P fuel [0..<8] s else pci_enumerate_bus P fuel 0 s);
        s \<leftarrow> p_num (of_nat (pci_device_count s)) 10 (p_puts (ascii ''[PCI] Found '') s);
        Some (p_puts (ascii '' devices'' @ [10]) s)
      })"

definition pci_find_device :: "u16 \<Rightarrow> u16 \<Rightarrow> 'd pci_sys \<Rightarrow> u16" where
  "pci_find_device vendor_id device_id s =
     (case find (\<lambda>d. pd_vendor_id d = vendor_id \<and> pd_device_id d = device_id) (pci_devices s) of
        Some d \<Rightarrow> push_bit 8 (ucast (pd_bus d)) OR ucast (pd_device d)
      | None \<Rightarrow> 0xFFFF)"


section \<open>Setting up the network card\<close>

definition REG_MAC :: u32 where "REG_MAC = 0x00"
definition REG_TXADDR0 :: u32 where "REG_TXADDR0 = 0x20"
definition REG_RXBUF :: u32 where "REG_RXBUF = 0x30"
definition REG_IMR :: u32 where "REG_IMR = 0x3C"
definition REG_TXCONFIG :: u32 where "REG_TXCONFIG = 0x40"
definition REG_RXCONFIG :: u32 where "REG_RXCONFIG = 0x44"
definition REG_CONFIG1 :: u32 where "REG_CONFIG1 = 0x52"
definition CMD_RESET :: u8 where "CMD_RESET = 0x10"
definition CMD_RX_ENABLE :: u8 where "CMD_RX_ENABLE = 0x08"
definition CMD_TX_ENABLE :: u8 where "CMD_TX_ENABLE = 0x04"

definition reg_port :: "u32 \<Rightarrow> 'd pci_sys \<Rightarrow> u16" where
  "reg_port reg s = ucast (io_base (p_net s) + reg)"

partial_function (option) reset_loop :: "'d port_ops \<Rightarrow> 'd pci_sys \<Rightarrow> 'd pci_sys option" where
  "reset_loop P s =
     (let (v, s) = p_in (inb P (reg_port REG_COMMAND s)) s in if v AND CMD_RESET \<noteq> 0 then reset_loop P s else Some s)"

definition p_kmalloc_a :: "u32 \<Rightarrow> 'd pci_sys \<Rightarrow> u32 \<times> 'd pci_sys" where
  "p_kmalloc_a sz s = (let (a, m) = kmalloc_a sz (p_mem s) in (a, s\<lparr>p_mem := m\<rparr>))"

fun tx_buffers :: "'d port_ops \<Rightarrow> nat list \<Rightarrow> 'd pci_sys \<Rightarrow> 'd pci_sys option" where
  "tx_buffers P [] s = Some s"
| "tx_buffers P (i # is) s =
     (let (a, s) = p_kmalloc_a 1792 s;
          s = s\<lparr>p_net := (p_net s)\<lparr>tx_buffer_phys := (tx_buffer_phys (p_net s))[i := a]\<rparr>\<rparr>;
          s = p_out (outl P (reg_port (REG_TXADDR0 + of_nat i * 4) s) a) s
      in do {
        s \<leftarrow> p_num (of_nat i) 10 (p_puts (ascii ''[RTL8139] TX buffer '') s);
        s \<leftarrow> p_num a 16 (p_puts (ascii '': '') s);
        tx_buffers P is (p_puts [10] s)
      })"

fun read_mac :: "'d port_ops \<Rightarrow> nat list \<Rightarrow> 'd pci_sys \<Rightarrow> 'd pci_sys" where
  "read_mac P [] s = s"
| "read_mac P (i # is) s =
     (let (b, s) = p_in (inb P (reg_port (REG_MAC + of_nat i) s)) s
      in read_mac P is (s\<lparr>p_net := (p_net s)\<lparr>mac_addr := (mac_addr (p_net s))[i := b]\<rparr>\<rparr>))"

fun print_mac :: "nat list \<Rightarrow> 'd pci_sys \<Rightarrow> 'd pci_sys option" where
  "print_mac [] s = Some s"
| "print_mac (i # is) s =
     (let b = mac_addr (p_net s) ! i;
          s = (if b < 16 then p_puts (ascii ''0'') s else s)
      in do {
        s \<leftarrow> p_num (ucast b) 16 s;
        print_mac is (if i < 5 then p_puts (ascii '':'') s else s)
      })"

text \<open>\<open>handler\<close> is the address of the assembly routine for interrupt line 10.  The vector is truncated to 8 bits.\<close>

definition rtl8139_init :: "'d port_ops \<Rightarrow> u32 \<Rightarrow> pci_device_t \<Rightarrow> 'd pci_sys \<Rightarrow> 'd pci_sys option" where
  "rtl8139_init P handler dev s =
     (let s = p_puts (ascii ''[RTL8139] Initializing...'' @ [10]) s;
          s = s\<lparr>p_net := (p_net s)\<lparr>io_base := pd_bar dev ! 0 AND NOT 3, irq_line := pd_interrupt_line dev\<rparr>\<rparr>
      in do {
        s \<leftarrow> p_num (io_base (p_net s)) 16 (p_puts (ascii ''[RTL8139] IO base: '') s);
        s \<leftarrow> p_num (ucast (irq_line (p_net s))) 10 (p_puts (ascii '', IRQ: '') s);
        let s = p_puts [10] s;
        let (cmd, s) = pci_config_read_word P (pd_bus dev) (pd_device dev) (pd_function dev) 0x04 s;
        let s = pci_config_write_word P (pd_bus dev) (pd_device dev) (pd_function dev) 0x04 (cmd OR 0x07) s;
        let s = p_puts (ascii ''[RTL8139] PCI command set'' @ [10]) s;
        let s = p_out (outb P (reg_port REG_CONFIG1 s) 0x00) s;
        let s = p_puts (ascii ''[RTL8139] Power on'' @ [10]) s;
        let s = p_out (outb P (reg_port REG_COMMAND s) CMD_RESET) s;
        s \<leftarrow> reset_loop P s;
        let s = p_puts (ascii ''[RTL8139] Reset complete'' @ [10]) s;
        let (a, s) = p_kmalloc_a (8192 + 16 + 1500) s;
        let s = s\<lparr>p_net := (p_net s)\<lparr>rx_buffer_phys := a\<rparr>\<rparr>;
        s \<leftarrow> p_num a 16 (p_puts (ascii ''[RTL8139] RX buffer: '') s);
        s \<leftarrow> tx_buffers P [0..<4] (p_puts [10] s);
        let s = read_mac P [0..<6] s;
        let s = p_out (outl P (reg_port REG_RXBUF s) (rx_buffer_phys (p_net s))) s;
        let s = p_out (outw P (reg_port REG_IMR s) (0x0001 OR 0x0004 OR 0x0002 OR 0x0008)) s;
        let s = p_out (outl P (reg_port REG_RXCONFIG s) 0x0000000F) s;
        let s = p_out (outl P (reg_port REG_TXCONFIG s) 0x03000000) s;
        let s = s\<lparr>p_net := (p_net s)\<lparr>current_rx_offset := 0\<rparr>\<rparr>;
        let s = p_out (outw P (reg_port REG_CAPR s) 0xFFF0) s;
        let s = s\<lparr>p_idt := idt_set_gate (32 + irq_line (p_net s)) handler 0x08 0x8E (p_idt s)\<rparr>;
        s \<leftarrow> p_num (32 + ucast (irq_line (p_net s))) 10 (p_puts (ascii ''[RTL8139] IRQ handler installed at vector '') s);
        let s = p_puts [10] s;
        let s = p_out (outb P (reg_port REG_COMMAND s) (CMD_RX_ENABLE OR CMD_TX_ENABLE)) s;
        n \<leftarrow> eth_init (mac_addr (p_net s)) (p_net s);
        let s = p_puts (ascii ''[RTL8139] MAC: '') (s\<lparr>p_net := n\<rparr>);
        s \<leftarrow> print_mac [0..<6] s;
        let s = p_puts [10] s;
        Some (p_puts (ascii ''[RTL8139] Initialization complete'' @ [10]) s)
      })"

section \<open>Drivers\<close>

record 'd pci_driver_t =
  drv_vendor_id :: u16
  drv_device_id :: u16
  drv_init :: "pci_device_t \<Rightarrow> 'd pci_sys \<Rightarrow> 'd pci_sys option"

definition pci_drivers :: "'d port_ops \<Rightarrow> u32 \<Rightarrow> 'd pci_driver_t list" where
  "pci_drivers P handler = [\<lparr>drv_vendor_id = 0x10EC, drv_device_id = 0x8139, drv_init = rtl8139_init P handler\<rparr>]"

fun driver_loop :: "'d pci_driver_t list \<Rightarrow> pci_device_t \<Rightarrow> 'd pci_sys \<Rightarrow> 'd pci_sys option" where
  "driver_loop [] dev s = Some s"
| "driver_loop (drv # drvs) dev s = do {
     s \<leftarrow> (if drv_vendor_id drv = pd_vendor_id dev \<and> drv_device_id drv = pd_device_id dev then do {
             s \<leftarrow> p_num (ucast (pd_vendor_id dev)) 16 (p_puts (ascii ''[PCI] Found driver for '') s);
             s \<leftarrow> p_num (ucast (pd_device_id dev)) 16 (p_puts (ascii '':'') s);
             drv_init drv dev (p_puts [10] s)
           }
           else Some s);
     driver_loop drvs dev s
   }"

fun registration_loop :: "'d pci_driver_t list \<Rightarrow> pci_device_t list \<Rightarrow> 'd pci_sys \<Rightarrow> 'd pci_sys option" where
  "registration_loop drvs [] s = Some s"
| "registration_loop drvs (dev # devs) s = do { s \<leftarrow> driver_loop drvs dev s; registration_loop drvs devs s }"

definition pci_register_drivers :: "'d port_ops \<Rightarrow> u32 \<Rightarrow> 'd pci_sys \<Rightarrow> 'd pci_sys option" where
  "pci_register_drivers P handler s =
     (let s = p_puts (ascii ''[PCI] Registering drivers...'' @ [10]) s
      in registration_loop (pci_drivers P handler) (pci_devices s) s)"

section \<open>Enumeration ends\<close>

lemma p_in_devices [simp]: "p_in f s = (v, s') \<Longrightarrow> pci_devices s' = pci_devices s"
  by (auto simp: p_in_def split: prod.splits)

lemma p_puts_devices [simp]: "pci_devices (p_puts txt s) = pci_devices s"
  by (simp add: p_puts_def)

lemma p_out_devices [simp]: "pci_devices (p_out f s) = pci_devices s"
  by (simp add: p_out_def)

lemma read_dword_devices: "pci_config_read_dword P b d f off s = (v, s') \<Longrightarrow> pci_devices s' = pci_devices s"
  by (auto simp: pci_config_read_dword_def)

lemma read_word_devices: "pci_config_read_word P b d f off s = (v, s') \<Longrightarrow> pci_devices s' = pci_devices s"
  by (auto simp: pci_config_read_word_def Let_def split: prod.splits dest: read_dword_devices)

lemma read_byte_devices: "pci_config_read_byte P b d f off s = (v, s') \<Longrightarrow> pci_devices s' = pci_devices s"
  by (auto simp: pci_config_read_byte_def Let_def split: prod.splits dest: read_dword_devices)

lemma read_bars_devices: "read_bars P b d f is s = (vs, s') \<Longrightarrow> pci_devices s' = pci_devices s"
  by (induction "is" arbitrary: s vs s') (auto simp: Let_def split: prod.splits dest!: read_dword_devices)

lemmas reads_devices = read_dword_devices read_word_devices read_byte_devices read_bars_devices

text \<open>A state later in an enumeration: the table has grown, within its size.\<close>

definition grown :: "'d pci_sys \<Rightarrow> 'd pci_sys option \<Rightarrow> bool" where
  "grown s x \<longleftrightarrow> (\<exists>s'. x = Some s' \<and> pci_device_count s \<le> pci_device_count s' \<and> pci_device_count s' \<le> MAX_PCI_DEVICES)"

text \<open>\<open>follows k enum\<close>: following a bridge succeeds when \<open>k\<close> places of the table are taken.\<close>

definition follows :: "nat \<Rightarrow> (u8 \<Rightarrow> 'd pci_sys \<Rightarrow> 'd pci_sys option) \<Rightarrow> bool" where
  "follows k enum \<longleftrightarrow> (\<forall>bus s. k < pci_device_count s \<and> pci_device_count s \<le> MAX_PCI_DEVICES \<longrightarrow> grown s (enum bus s))"

lemma grown_refl: "pci_device_count s \<le> MAX_PCI_DEVICES \<Longrightarrow> pci_devices s' = pci_devices s \<Longrightarrow> grown s (Some s')"
  by (simp add: grown_def pci_device_count_def)

lemma grown_bind:
  assumes "grown s x" and "\<And>s'. pci_device_count s \<le> pci_device_count s' \<Longrightarrow> pci_device_count s' \<le> MAX_PCI_DEVICES \<Longrightarrow> grown s' (f s')"
  shows "grown s (Option.bind x f)"
  using assms by (fastforce simp: grown_def)

lemma grown_start: "pci_devices s' = pci_devices s \<Longrightarrow> grown s' x \<Longrightarrow> grown s x"
  by (simp add: grown_def pci_device_count_def)


lemma check_function_grown:
  assumes "follows k enum" and "k \<le> pci_device_count s" and "pci_device_count s \<le> MAX_PCI_DEVICES"
  shows "grown s (pci_check_function P enum bus device func s)"
proof -
  obtain vendor s1 where 1: "pci_config_read_word P bus device func 0 s = (vendor, s1)" by force
  obtain device_id s2 where 2: "pci_config_read_word P bus device func 2 s1 = (device_id, s2)" by force
  obtain class_code s3 where 3: "pci_config_read_byte P bus device func 0xB s2 = (class_code, s3)" by force
  obtain sub_class s4 where 4: "pci_config_read_byte P bus device func 0xA s3 = (sub_class, s4)" by force
  obtain prog_if s5 where 5: "pci_config_read_byte P bus device func 0x9 s4 = (prog_if, s5)" by force
  obtain line s6 where 6: "pci_config_read_byte P bus device func 0x3C s5 = (line, s6)" by force
  obtain pin s7 where 7: "pci_config_read_byte P bus device func 0x3D s6 = (pin, s7)" by force
  obtain bars s8 where 8: "read_bars P bus device func [0..<6] s7 = (bars, s8)" by force
  note reads = 1 2 3 4 5 6 7 8
  have d: "pci_devices s8 = pci_devices s" "pci_devices s1 = pci_devices s"
    using reads_devices(2)[OF 1] reads_devices(2)[OF 2] reads_devices(3)[OF 3] reads_devices(3)[OF 4] reads_devices(3)[OF 5]
      reads_devices(3)[OF 6] reads_devices(3)[OF 7] reads_devices(4)[OF 8] by simp_all
  define dev where "dev = \<lparr>pd_bus = bus, pd_device = device, pd_function = func, pd_vendor_id = vendor, pd_device_id = device_id,
    pd_class_code = class_code, pd_subclass = sub_class, pd_prog_if = prog_if, pd_interrupt_line = line,
    pd_interrupt_pin = pin, pd_bar = bars\<rparr>"
  define t where "t = s8\<lparr>pci_devices := pci_devices s8 @ [dev]\<rparr>"
  have eq: "pci_check_function P enum bus device func s =
      (if vendor = 0xFFFF then Some s1 else if pci_device_count s1 \<ge> MAX_PCI_DEVICES then Some s1
       else if class_code = 0x06 \<and> sub_class = 0x04
         then let (secondary, s) = pci_config_read_byte P bus device func 0x19 t in enum secondary s else Some t)"
    by (simp add: pci_check_function_def reads Let_def t_def dev_def)
  have ct: "pci_device_count t = Suc (pci_device_count s)" by (simp add: t_def pci_device_count_def d)
  have c1: "pci_device_count s1 = pci_device_count s" by (simp add: pci_device_count_def d)
  show ?thesis
  proof (cases "vendor = 0xFFFF \<or> pci_device_count s \<ge> MAX_PCI_DEVICES")
    case True
    then show ?thesis using assms(3) by (auto simp: eq c1 grown_def)
  next
    case False
    obtain b u where b: "pci_config_read_byte P bus device func 0x19 t = (b, u)" by force
    have u: "pci_device_count u = Suc (pci_device_count s)" using read_byte_devices[OF b] ct by (simp add: pci_device_count_def)
    have "grown u (enum b u)" using assms(1,2) False u by (simp add: follows_def)
    then have "grown s (enum b u)" by (auto simp: grown_def u)
    then show ?thesis using False ct by (auto simp: eq c1 b grown_def)
  qed
qed

lemma function_loop_grown:
  "follows k enum \<Longrightarrow> k \<le> pci_device_count s \<Longrightarrow> pci_device_count s \<le> MAX_PCI_DEVICES \<Longrightarrow>
    grown s (function_loop (P :: 'd port_ops) enum bus device fs s)"
proof (induction fs arbitrary: s)
  case (Cons f fs)
  obtain v s1 where 1: "pci_config_read_word P bus device (of_nat f) 0 s = (v, s1)" by force
  note d = read_word_devices[OF 1]
  then have c: "pci_device_count s1 = pci_device_count s" by (simp add: pci_device_count_def)
  show ?case unfolding function_loop.simps 1 Let_def prod.case
  proof (rule grown_start[OF d], rule grown_bind)
    show "grown s1 (if v \<noteq> 0xFFFF then pci_check_function P enum bus device (of_nat f) s1 else Some s1)"
      using check_function_grown[OF Cons.prems(1), of s1] Cons.prems(2,3) by (simp add: c grown_refl)
  next
    fix s' :: "'d pci_sys" assume "pci_device_count s1 \<le> pci_device_count s'" "pci_device_count s' \<le> MAX_PCI_DEVICES"
    then show "grown s' (function_loop P enum bus device fs s')" using Cons.IH[OF Cons.prems(1)] Cons.prems(2) c by simp
  qed
qed (simp add: grown_refl)

lemma device_loop_grown:
  "follows k enum \<Longrightarrow> k \<le> pci_device_count s \<Longrightarrow> pci_device_count s \<le> MAX_PCI_DEVICES \<Longrightarrow> grown s (device_loop (P :: 'd port_ops) enum bus devs s)"
proof (induction devs arbitrary: s)
  case (Cons dev devs)
  obtain v s1 where 1: "pci_config_read_word P bus (of_nat dev) 0 0 s = (v, s1)" by force
  note d = read_word_devices[OF 1]
  then have c: "pci_device_count s1 = pci_device_count s" by (simp add: pci_device_count_def)
  show ?case
  proof (cases "v = 0xFFFF")
    case True
    then show ?thesis using grown_start[OF d Cons.IH[OF Cons.prems(1), of s1]] Cons.prems(2,3) by (simp add: 1 c)
  next
    case False
    have "grown s1 (do {
        s \<leftarrow> pci_check_function P enum bus (of_nat dev) 0 s1;
        let (header, s) = pci_config_read_byte P bus (of_nat dev) 0 0xE s;
        s \<leftarrow> (if header AND 0x80 \<noteq> 0 then function_loop P enum bus (of_nat dev) [1..<8] s else Some s);
        device_loop P enum bus devs s})"
    proof (rule grown_bind)
      show "grown s1 (pci_check_function P enum bus (of_nat dev) 0 s1)"
        using check_function_grown[OF Cons.prems(1), of s1] Cons.prems(2,3) by (simp add: c)
    next
      fix s2 :: "'d pci_sys" assume 2: "pci_device_count s1 \<le> pci_device_count s2" "pci_device_count s2 \<le> MAX_PCI_DEVICES"
      obtain h s3 where 3: "pci_config_read_byte P bus (of_nat dev) 0 0xE s2 = (h, s3)" by force
      note d3 = read_byte_devices[OF 3]
      then have c3: "pci_device_count s3 = pci_device_count s2" by (simp add: pci_device_count_def)
      show "grown s2 (let (header, s) = pci_config_read_byte P bus (of_nat dev) 0 0xE s2 in do {
          s \<leftarrow> (if header AND 0x80 \<noteq> 0 then function_loop P enum bus (of_nat dev) [1..<8] s else Some s);
          device_loop P enum bus devs s})"
        unfolding 3 Let_def prod.case
      proof (rule grown_start[OF d3], rule grown_bind)
        show "grown s3 (if h AND 0x80 \<noteq> 0 then function_loop P enum bus (of_nat dev) [1..<8] s3 else Some s3)"
          using function_loop_grown[OF Cons.prems(1), of s3] Cons.prems(2) 2 by (simp add: c c3 grown_refl)
      next
        fix s4 :: "'d pci_sys" assume "pci_device_count s3 \<le> pci_device_count s4" "pci_device_count s4 \<le> MAX_PCI_DEVICES"
        then show "grown s4 (device_loop P enum bus devs s4)" using Cons.IH[OF Cons.prems(1)] Cons.prems(2) 2 c c3 by simp
      qed
    qed
    then show ?thesis using grown_start[OF d] False by (simp add: 1 Let_def)
  qed
qed (simp add: grown_refl)

lemma enumerate_bus_grown:
  "257 \<le> fuel + pci_device_count s \<Longrightarrow> pci_device_count s \<le> MAX_PCI_DEVICES \<Longrightarrow> grown s (pci_enumerate_bus P fuel bus s)"
proof (induction fuel arbitrary: bus s)
  case 0
  then show ?case by (simp add: MAX_PCI_DEVICES_def)
next
  case (Suc fuel)
  have "follows (256 - fuel) (pci_enumerate_bus P fuel)" by (auto simp: follows_def intro!: Suc.IH)
  then show ?case using device_loop_grown Suc.prems by fastforce
qed

lemma host_loop_grown: "pci_device_count s \<le> MAX_PCI_DEVICES \<Longrightarrow> grown s (host_loop P 257 fs s)"
proof (induction fs arbitrary: s)
  case (Cons f fs)
  obtain v s1 where 1: "pci_config_read_word P 0 0 (of_nat f) 0 s = (v, s1)" by force
  note d = read_word_devices[OF 1]
  then have c: "pci_device_count s1 = pci_device_count s" by (simp add: pci_device_count_def)
  show ?case unfolding host_loop.simps 1 Let_def prod.case
  proof (rule grown_start[OF d], rule grown_bind)
    show "grown s1 (if v \<noteq> 0xFFFF then pci_enumerate_bus P 257 (of_nat f) s1 else Some s1)"
      using enumerate_bus_grown[of 257 s1] Cons.prems by (simp add: c grown_refl)
  qed (rule Cons.IH)
qed (simp add: grown_refl)

section \<open>Configuration space as registers\<close>

text \<open>What the two ports promise: the data port reads and writes the register selected at the address port.\<close>

locale pci_config =
  fixes P :: "'d port_ops" and regs :: "'d \<Rightarrow> u32 \<Rightarrow> u32"
  assumes data_read: "inl P PCI_CONFIG_DATA (outl P PCI_CONFIG_ADDRESS a d) = (v, d') \<Longrightarrow> v = regs d a \<and> regs d' = regs d"
    and data_write: "regs (outl P PCI_CONFIG_DATA v (outl P PCI_CONFIG_ADDRESS a d)) = (regs d)(a := v)"
begin

abbreviation config :: "'d pci_sys \<Rightarrow> u32 \<Rightarrow> u32" where
  "config s \<equiv> regs (n_dev (p_net s))"

lemma read_dword: 
  obtains s' where "pci_config_read_dword P b dv f off s = (config s (pci_make_address b dv f off), s')" "config s' = config s"
proof -
  let ?a = "pci_make_address b dv f off"
  obtain v d' where io: "inl P PCI_CONFIG_DATA (outl P PCI_CONFIG_ADDRESS ?a (n_dev (p_net s))) = (v, d')" by force
  from data_read[OF io] io show ?thesis
    by (intro that[of "s\<lparr>p_net := set_dev d' (p_net s)\<rparr>"]) (auto simp: pci_config_read_dword_def p_in_def p_out_def set_dev_def)
qed

lemma read_word:
  "fst (pci_config_read_word P b dv f off s) =
    ucast (drop_bit (unat (off AND 3) * 8) (config s (pci_make_address b dv f (off AND NOT 3))) AND 0xFFFF)"
  by (rule read_dword[of b dv f "off AND NOT 3" s]) (simp add: pci_config_read_word_def)

lemma write_word:
  "config (pci_config_write_word P b dv f off data s) =
    (config s)(pci_make_address b dv f (off AND NOT 3) :=
      (config s (pci_make_address b dv f (off AND NOT 3)) AND NOT (push_bit (unat (off AND 3) * 8) 0xFFFF)) OR
        push_bit (unat (off AND 3) * 8) (ucast data AND 0xFFFF))"
  by (rule read_dword[of b dv f "off AND NOT 3" s])
    (simp add: pci_config_write_word_def pci_config_write_dword_def p_out_def set_dev_def data_write Let_def)

end

text \<open>A bus that is its registers.\<close>

record config_dev =
  cd_address :: u32
  cd_regs :: "u32 \<Rightarrow> u32"

definition config_ports :: "config_dev port_ops" where
  "config_ports = \<lparr>inb = (\<lambda>p d. (0, d)), outb = (\<lambda>p v d. d), inw = (\<lambda>p d. (0, d)), outw = (\<lambda>p v d. d),
     inl = (\<lambda>p d. (if p = PCI_CONFIG_DATA then cd_regs d (cd_address d) else 0, d)),
     outl = (\<lambda>p v d. if p = PCI_CONFIG_ADDRESS then d\<lparr>cd_address := v\<rparr>
       else if p = PCI_CONFIG_DATA then d\<lparr>cd_regs := (cd_regs d)(cd_address d := v)\<rparr> else d)\<rparr>"

interpretation config_bus: pci_config config_ports cd_regs
  by unfold_locales (auto simp: config_ports_def PCI_CONFIG_ADDRESS_def PCI_CONFIG_DATA_def)

lemma half_words:
  fixes w :: u32 and data :: u16
  assumes "sh = 0 \<or> sh = 16"
  defines "w' \<equiv> (w AND NOT (push_bit sh 0xFFFF)) OR push_bit sh (ucast data AND 0xFFFF)"
  shows "ucast (drop_bit sh w' AND 0xFFFF) = data" and "drop_bit (16 - sh) w' AND 0xFFFF = drop_bit (16 - sh) w AND 0xFFFF"
proof -
  have m: "(0xFFFF :: u32) = mask 16" by (simp add: mask_eq_exp_minus_1)
  show "ucast (drop_bit sh w' AND 0xFFFF) = data"
    unfolding w'_def m using assms(1) by (elim disjE; intro bit_word_eqI) (auto simp: bit_simps)
  show "drop_bit (16 - sh) w' AND 0xFFFF = drop_bit (16 - sh) w AND 0xFFFF"
    unfolding w'_def m using assms(1) by (elim disjE; intro bit_word_eqI) (auto simp: bit_simps)
qed

section \<open>Properties\<close>


text \<open>Writing a 16 bit register of a device changes that register only: it reads back as written, the register that
  shares its 32 bits and all other registers of the bus keep their values.\<close>

theorem pci_config_word_roundtrip:
  assumes "pci_config P regs" and "off AND 3 = 0 \<or> off AND 3 = 2" and "s' = pci_config_write_word P b dv f off data s"
  shows "fst (pci_config_read_word P b dv f off s') = data \<and>
    fst (pci_config_read_word P b dv f (off XOR 2) s') = fst (pci_config_read_word P b dv f (off XOR 2) s) \<and>
    (a = pci_make_address b dv f (off AND NOT 3) \<or> regs (n_dev (p_net s')) a = regs (n_dev (p_net s)) a)"
proof -
  let ?a = "pci_make_address b dv f (off AND NOT 3)" and ?sh = "unat (off AND 3) * 8"
  note w = pci_config.write_word[OF assms(1), of b dv f off data s, folded assms(3)]
  note r = pci_config.read_word[OF assms(1)]
  have sh: "?sh = 0 \<or> ?sh = 16" using assms(2) by auto
  have o: "(off XOR 2) AND NOT 3 = off AND NOT 3" "unat ((off XOR 2) AND 3) * 8 = 16 - ?sh"
  proof -
    have m: "(3 :: u8) = mask 2" "(2 :: u8) = push_bit 1 1" by (simp_all add: mask_eq_exp_minus_1)
    show "(off XOR 2) AND NOT 3 = off AND NOT 3" unfolding m by (rule bit_word_eqI) (auto simp: bit_simps)
    have "(off XOR 2) AND 3 = (off AND 3) XOR 2" unfolding m by (rule bit_word_eqI) (auto simp: bit_simps)
    then show "unat ((off XOR 2) AND 3) * 8 = 16 - ?sh" using assms(2) by auto
  qed
  show ?thesis unfolding r o w using half_words[OF sh, of "regs (n_dev (p_net s)) ?a" data] by simp
qed

definition config_net :: "config_dev net_state" where
  "config_net = \<lparr>n_dev = \<lparr>cd_address = 0, cd_regs = (\<lambda>_. 0xFFFF0000)\<rparr>, n_console = [], n_ticks = 0, io_base = 0, irq_line = 0,
     rx_buffer_phys = 0, tx_buffer_phys = [0, 0, 0, 0], current_rx_offset = 0, mac_addr = replicate 6 0, n_tx = 0,
     local_mac = replicate 6 0, arp_local_ip = 0, arp_table = replicate 16 zero_entry, ip_local_ip = 0,
     arp_queue = replicate 8 zero_packet, arp_pending = 0, ping_id = 0, ping_seq = 0, ping_waiting = False, ping_sent_time = 0\<rparr>"

definition config_sys :: "config_dev pci_sys" where
  "config_sys = \<lparr>pci_devices = [], p_net = config_net, p_mem = boot_memory (\<lambda>_. 0), p_idt = []\<rparr>"

theorem pci_config_word_roundtrip_witness:
  "fst (pci_config_read_word config_ports 0 3 0 4 (pci_config_write_word config_ports 0 3 0 4 0x0107 config_sys)) = 0x0107"
  using pci_config_word_roundtrip[OF config_bus.pci_config_axioms, of 4 _ 0 3 0 "0x0107" config_sys] by simp

end
