(* ===== verification/User_Libc.thy ===== *)
theory User_Libc
  imports Kernel_Libc
begin

text \<open>
  The C library of user programs: \<open>userspace/libc/src/string.c\<close> and \<open>userspace/libc/src/stdio.c\<close>.  The routines are
  written with pointers where the kernel's are written with indices; the lemmas relate the two.  \<open>printf\<close> yields the
  blocks it passes to \<open>write\<close>, in order; a variable argument is a word, or the object a string pointer points to
  (\<open>None\<close> is the null pointer).
\<close>

section \<open>Memory blocks and strings\<close>

fun user_memset_loop :: "bytes \<Rightarrow> u8 \<Rightarrow> nat \<Rightarrow> bytes option" where
  "user_memset_loop p c 0 = Some p"
| "user_memset_loop p c (Suc n) = (case p of [] \<Rightarrow> None | _ # p' \<Rightarrow> map_option (Cons c) (user_memset_loop p' c n))"

definition user_memset :: "bytes \<Rightarrow> u32 \<Rightarrow> u32 \<Rightarrow> bytes option" where
  "user_memset dst c n = user_memset_loop dst (ucast c) (unat n)"

fun user_memcpy_loop :: "bytes \<Rightarrow> bytes \<Rightarrow> nat \<Rightarrow> bytes option" where
  "user_memcpy_loop d s 0 = Some d"
| "user_memcpy_loop d s (Suc n) =
     (case (d, s) of (_ # d', c # s') \<Rightarrow> map_option (Cons c) (user_memcpy_loop d' s' n) | _ \<Rightarrow> None)"

definition user_memcpy :: "bytes \<Rightarrow> bytes \<Rightarrow> u32 \<Rightarrow> bytes option" where
  "user_memcpy dst src n = user_memcpy_loop dst src (unat n)"

fun user_memcmp_loop :: "bytes \<Rightarrow> bytes \<Rightarrow> nat \<Rightarrow> int option" where
  "user_memcmp_loop p1 p2 0 = Some 0"
| "user_memcmp_loop p1 p2 (Suc n) =
     (case (p1, p2) of (a # p1', b # p2') \<Rightarrow> if a \<noteq> b then Some (uint a - uint b) else user_memcmp_loop p1' p2' n
      | _ \<Rightarrow> None)"

definition user_memcmp :: "bytes \<Rightarrow> bytes \<Rightarrow> u32 \<Rightarrow> int option" where
  "user_memcmp s1 s2 n = user_memcmp_loop s1 s2 (unat n)"

fun user_strlen_loop :: "nat \<Rightarrow> bytes \<Rightarrow> nat option" where
  "user_strlen_loop len [] = None"
| "user_strlen_loop len (c # s) = (if c \<noteq> 0 then user_strlen_loop (Suc len) s else Some len)"

definition user_strlen :: "bytes \<Rightarrow> nat option" where
  "user_strlen s = user_strlen_loop 0 s"

fun user_strcpy :: "bytes \<Rightarrow> bytes \<Rightarrow> bytes option" where
  "user_strcpy (_ # dst) (c # src) = map_option (Cons c) (if c \<noteq> 0 then user_strcpy dst src else Some dst)"
| "user_strcpy _ _ = None"

text \<open>The first loop of \<open>strncpy\<close> leaves \<open>n\<close> as it is when it has copied the terminator; the second one then writes
  \<open>n\<close> further zeros.\<close>

fun user_strncpy_loop :: "bytes \<Rightarrow> bytes \<Rightarrow> nat \<Rightarrow> bytes option" where
  "user_strncpy_loop dst src 0 = Some dst"
| "user_strncpy_loop (_ # dst) (c # src) (Suc n) =
     map_option (Cons c) (if c \<noteq> 0 then user_strncpy_loop dst src n else user_memset_loop dst 0 (Suc n))"
| "user_strncpy_loop _ _ (Suc n) = None"

definition user_strncpy :: "bytes \<Rightarrow> bytes \<Rightarrow> u32 \<Rightarrow> bytes option" where
  "user_strncpy dst src n = user_strncpy_loop dst src (unat n)"

fun user_strcmp :: "bytes \<Rightarrow> bytes \<Rightarrow> int option" where
  "user_strcmp (a # s1) (b # s2) =
     (if a \<noteq> 0 \<and> a = b then user_strcmp s1 s2 else Some (uint a - uint b))"
| "user_strcmp _ _ = None"

fun user_strncmp_loop :: "bytes \<Rightarrow> bytes \<Rightarrow> nat \<Rightarrow> int option" where
  "user_strncmp_loop s1 s2 0 = Some 0"
| "user_strncmp_loop (a # s1) (b # s2) (Suc n) =
     (if a \<noteq> 0 \<and> a = b then user_strncmp_loop s1 s2 n else Some (uint a - uint b))"
| "user_strncmp_loop _ _ (Suc n) = None"

definition user_strncmp :: "bytes \<Rightarrow> bytes \<Rightarrow> u32 \<Rightarrow> int option" where
  "user_strncmp s1 s2 n = user_strncmp_loop s1 s2 (unat n)"

text \<open>\<open>strchr\<close> yields the object from the character it found on, or the null pointer.\<close>

fun user_strchr_loop :: "bytes \<Rightarrow> u8 \<Rightarrow> bytes option option" where
  "user_strchr_loop [] c = None"
| "user_strchr_loop (a # s) c =
     (if a \<noteq> 0 then (if a = c then Some (Some (a # s)) else user_strchr_loop s c) else Some None)"

definition user_strchr :: "bytes \<Rightarrow> u32 \<Rightarrow> bytes option option" where
  "user_strchr s c = user_strchr_loop s (ucast c)"

fun user_strcat :: "bytes \<Rightarrow> bytes \<Rightarrow> bytes option" where
  "user_strcat [] src = None"
| "user_strcat (a # dst) src =
     (if a \<noteq> 0 then map_option (Cons a) (user_strcat dst src) else user_strcpy (a # dst) src)"

section \<open>The two libraries agree\<close>

lemma user_memset_loop_eq: "user_memset_loop p c n = memset_loop p c n"
  by (induction p c n rule: memset_loop.induct) auto

lemma user_memcpy_loop_eq: "user_memcpy_loop d s n = memcpy_loop d s n"
  by (induction d s n rule: memcpy_loop.induct) (auto split: list.splits)

lemma user_memcmp_loop_eq: "user_memcmp_loop a b n = memcmp_loop a b n"
  by (induction a b n rule: memcmp_loop.induct) (auto split: list.splits)

lemma user_strlen_loop_eq: "user_strlen_loop len s = map_option ((+) len) (strlen s)"
  by (induction len s rule: user_strlen_loop.induct) (auto simp: option.map_comp comp_def)

lemma user_strlen_eq: "user_strlen s = strlen s"
  by (simp add: user_strlen_def user_strlen_loop_eq option.map_ident_strong)

lemma user_strcpy_eq: "user_strcpy d s = strcpy d s"
  by (induction d s rule: user_strcpy.induct) auto

lemma user_strcmp_eq: "user_strcmp a b = strcmp a b"
  by (induction a b rule: user_strcmp.induct) auto

lemma user_strncmp_loop_eq: "user_strncmp_loop a b n = strncmp_loop a b n"
  by (induction a b n rule: user_strncmp_loop.induct) auto

lemma user_strcat_eq: "user_strcat d s = strcat d s"
  by (induction d s rule: user_strcat.induct) (auto simp: user_strcpy_eq)

text \<open>The string routines of user programs compute what the kernel's compute, for all arguments: the same bytes, the
  same sign and value of a comparison, and no defined result for the same arguments.\<close>

theorem user_strings_are_kernel_strings:
  "user_memset p c n = memset p c n \<and> user_memcpy d s n = memcpy d s n \<and> user_memcmp a b n = memcmp a b n \<and>
   user_strlen s = strlen s \<and> user_strcpy d s = strcpy d s \<and> user_strcmp a b = strcmp a b \<and>
   user_strncmp a b n = strncmp a b (uint n) \<and> user_strcat d s = strcat d s"
  by (simp add: user_memset_def memset_def user_memset_loop_eq user_memcpy_def memcpy_def user_memcpy_loop_eq
      user_memcmp_def memcmp_def user_memcmp_loop_eq user_strlen_eq user_strcpy_eq user_strcmp_eq user_strncmp_def
      strncmp_def user_strncmp_loop_eq user_strcat_eq nat_uint_eq)

lemma user_strncpy_loop_long:
  "is_cstr s \<Longrightarrow> n \<le> length (cstr s) \<Longrightarrow> n \<le> length d \<Longrightarrow> user_strncpy_loop d s n = Some (take n (cstr s) @ drop n d)"
  unfolding is_cstr_def cstr_def
  by (induction d s n rule: user_strncpy_loop.induct) (auto split: if_splits)

lemma replicate_minus: "k < n \<Longrightarrow> replicate (n - k) x = x # replicate (n - Suc k) x"
  by (cases "n - k") auto

lemma user_strncpy_loop_short:
  "is_cstr s \<Longrightarrow> length (cstr s) < n \<Longrightarrow>
   user_strncpy_loop d s n =
     (if n < length d then Some (cstr s @ 0 # replicate (n - length (cstr s)) 0 @ drop (Suc n) d) else None)"
  unfolding is_cstr_def cstr_def
  by (induction d s n rule: user_strncpy_loop.induct)
    (auto simp: user_memset_loop_eq memset_loop_eq replicate_minus split: if_splits)

text \<open>The one routine that differs: where the kernel's \<open>strncpy\<close> fills exactly \<open>n\<close> bytes, the user library's writes
  one more when the source is shorter than \<open>n\<close>, so an array of \<open>n\<close> bytes is overrun; a longer source is cut the same way.\<close>

theorem user_strncpy_overruns:
  assumes "is_cstr s" and "unat n \<le> length d"
  shows "user_strncpy d s n =
    (if unat n \<le> length (cstr s) then strncpy d s (uint n)
     else if length d = unat n then None
     else map_option (\<lambda>r. r[unat n := 0]) (strncpy d s (uint n)))"
proof (cases "unat n \<le> length (cstr s)")
  case True
  then show ?thesis
    using assms user_strncpy_loop_long[of s "unat n" d] strncpy_spec[of s "uint n" d] by (simp add: user_strncpy_def nat_uint_eq)
next
  case False
  let ?n = "unat n"
  have k: "strncpy d s (uint n) = Some (cstr s @ replicate (?n - length (cstr s)) 0 @ drop ?n d)"
    using False assms strncpy_spec[of s "uint n" d] by (simp add: nat_uint_eq)
  let ?k = "?n - length (cstr s)"
  have "(cstr s @ replicate ?k 0 @ drop ?n d)[?n := 0] = cstr s @ 0 # replicate ?k 0 @ drop (Suc ?n) d" if n: "?n < length d"
  proof -
    have "drop ?n d = d ! ?n # drop (Suc ?n) d" using n by (simp add: Cons_nth_drop_Suc)
    moreover have "length (cstr s @ replicate ?k 0) = ?n" using False by simp
    ultimately have "((cstr s @ replicate ?k 0) @ drop ?n d)[?n := 0] = (cstr s @ replicate ?k 0) @ 0 # drop (Suc ?n) d"
      by (simp add: list_update_append)
    then show ?thesis using replicate_append_same[of ?k "0 :: u8"] by (metis append.assoc append_Cons append_Nil)
  qed
  then show ?thesis
    using False assms user_strncpy_loop_short[of s ?n d] by (auto simp: user_strncpy_def k)
qed

theorem user_strncpy_overruns_witness:
  "user_strncpy [1, 2, 3] [97, 0] 3 = None \<and> strncpy [1, 2, 3] [97, 0] 3 = Some [97, 0, 0]"
proof -
  have "is_cstr [97, 0]" by (simp add: is_cstr_def)
  from user_strncpy_overruns[OF this, of 3 "[1, 2, 3]"] have "user_strncpy [1, 2, 3] [97, 0] 3 = None"
    by (simp add: cstr_def)
  then show ?thesis by (simp add: strncpy_def numeral_3_eq_3)
qed

text \<open>The terminator is not found: \<open>strchr(s, 0)\<close> is the null pointer.\<close>

lemma user_strchr_spec:
  "is_cstr s \<Longrightarrow> user_strchr s c = Some (if ucast c \<in> set (cstr s) \<and> (ucast c :: u8) \<noteq> 0 then Some (dropWhile (\<lambda>b. b \<noteq> ucast c) s) else None)"
  unfolding user_strchr_def is_cstr_def cstr_def by (induction s) auto

section \<open>Numbers\<close>

text \<open>The digit loop of \<open>print_num\<close>, lowest digit first.  A division by zero stops the processor, and with base 1 the
  loop does not end.\<close>

function print_digits :: "u32 \<Rightarrow> u32 \<Rightarrow> bytes option" where
  "print_digits num base =
     (if num = 0 then Some []
      else if base < 2 then None
      else (let digit = num mod base;
                c = (if sint digit < 10 then 48 + digit else 97 + digit - 10)
            in map_option (Cons (ucast c)) (print_digits (num div base) base)))"
  by pat_completeness auto
termination
proof (relation "measure (\<lambda>(num, base). unat num)")
  fix num base :: u32 assume "num \<noteq> 0" "\<not> base < 2"
  then have "unat num div unat base < unat num"
    by (intro div_less_dividend) (auto simp: word_less_nat_alt unat_gt_0)
  then show "((num div base, base), (num, base)) \<in> measure (\<lambda>(num, base). unat num)" by (simp add: unat_div)
qed simp

declare print_digits.simps [simp del]

function print_reverse :: "bytes \<Rightarrow> nat \<Rightarrow> nat \<Rightarrow> bytes" where
  "print_reverse buf i j =
     (if j < i div 2 then print_reverse (buf[j := buf ! (i - 1 - j), i - 1 - j := buf ! j]) i (Suc j) else buf)"
  by pat_completeness auto
termination
  by (relation "measure (\<lambda>(buf, i, j). i div 2 - j)") auto

declare print_reverse.simps [simp del]

text \<open>The block that \<open>print_num\<close> passes to \<open>write\<close>; negating the least integer has no defined result, and \<open>buf\<close> has 32
  bytes.\<close>

definition print_num :: "u32 \<Rightarrow> u32 \<Rightarrow> bool \<Rightarrow> bytes option" where
  "print_num num base sign =
     (let is_negative = sign \<and> sint num < 0 in
      if is_negative \<and> - sint num > INT_MAX then None
      else let num = (if is_negative then word_of_int (- sint num) else num) in do {
        ds \<leftarrow> (if num = 0 then Some [48] else print_digits num base);
        let txt = ds @ (if is_negative then [45] else []);
        buf \<leftarrow> store (replicate 32 0) 0 txt;
        buf \<leftarrow> store (print_reverse buf (length txt) 0) (length txt) [0];
        Some (take (length txt) buf)
      })"

section \<open>Formatted output\<close>

datatype va_arg = VInt u32 | VStr "bytes option"

definition va_int :: "va_arg list \<Rightarrow> (u32 \<times> va_arg list) option" where
  "va_int args = (case args of VInt v # args' \<Rightarrow> Some (v, args') | _ \<Rightarrow> None)"

definition va_str :: "va_arg list \<Rightarrow> (bytes option \<times> va_arg list) option" where
  "va_str args = (case args of VStr s # args' \<Rightarrow> Some (s, args') | _ \<Rightarrow> None)"

text \<open>\<open>putchar\<close> passes one byte to \<open>write\<close>.\<close>

definition user_putchar :: "u8 \<Rightarrow> bytes list" where
  "user_putchar c = [[c]]"

definition printf_directive :: "u8 \<Rightarrow> va_arg list \<Rightarrow> (bytes list \<times> va_arg list) option" where
  "printf_directive c args =
     (if c = 100 \<or> c = 105 then do { (v, args) \<leftarrow> va_int args; t \<leftarrow> print_num v 10 True; Some ([t], args) }
      else if c = 117 then do { (v, args) \<leftarrow> va_int args; t \<leftarrow> print_num v 10 False; Some ([t], args) }
      else if c = 120 then do { (v, args) \<leftarrow> va_int args; t \<leftarrow> print_num v 16 False; Some ([t], args) }
      else if c = 115 then do {
        (s, args) \<leftarrow> va_str args;
        case s of
          Some s \<Rightarrow> do { n \<leftarrow> user_strlen s; Some ([take n s], args) }
        | None \<Rightarrow> Some ([ascii ''(null)''], args)
      }
      else if c = 99 then do { (v, args) \<leftarrow> va_int args; Some (user_putchar (ucast v), args) }
      else if c = 37 then Some (user_putchar 37, args)
      else Some (user_putchar 37 @ user_putchar c, args))"

text \<open>The loop of \<open>printf\<close>: a format that ends with a single percent sign is read past its terminator.\<close>

fun printf_loop :: "bytes \<Rightarrow> va_arg list \<Rightarrow> int \<Rightarrow> (bytes list \<times> int) option" where
  "printf_loop [] args count = None"
| "printf_loop (c # fmt) args count =
     (if c = 0 then Some ([], count)
      else if c = 37 then (case fmt of
          [] \<Rightarrow> None
        | d # fmt' \<Rightarrow> do {
            (w, args) \<leftarrow> printf_directive d args;
            (ws, n) \<leftarrow> printf_loop fmt' args (count + 1);
            Some (w @ ws, n)
          })
      else do {
        (ws, n) \<leftarrow> printf_loop fmt args (count + 1);
        Some (user_putchar c @ ws, n)
      })"

definition printf :: "bytes \<Rightarrow> va_arg list \<Rightarrow> (bytes list \<times> int) option" where
  "printf fmt args = printf_loop fmt args 0"

section \<open>What is printed\<close>

lemma printed_digit:
  assumes "base = 10 \<or> base = (16 :: u32)"
  shows "(ucast (if sint (num mod base) < 10 then 48 + num mod base else 97 + num mod base - 10) :: u8) =
    hex_digits ! (unat num mod unat base)"
proof -
  define d where "d = num mod base"
  have d: "unat d = unat num mod unat base" by (simp add: d_def unat_mod)
  then have l: "unat d < 16" using assms by auto
  have "d = of_nat (unat d)" by simp
  then have "d \<in> of_nat ` {0..<16}" using l by (metis atLeastLessThan_iff image_eqI le0)
  then have "(ucast (if sint d < 10 then 48 + d else 97 + d - 10) :: u8) = hex_digits ! unat d"
    by (auto simp: atLeastLessThan_nat_numeral image_iff hex_digits_def)
  then show ?thesis by (simp only: d_def[symmetric] d[symmetric])
qed

lemma print_digits_spec:
  assumes "base = 10 \<or> base = (16 :: u32)"
  shows "print_digits num base = Some (rev (show_base (unat base) (unat num)))"
  using assms
proof (induction num base rule: print_digits.induct)
  case (1 num base)
  then have b: "\<not> base < 2" "2 \<le> unat base" by auto
  show ?case
  proof (cases "num = 0")
    case True
    then show ?thesis by (simp add: print_digits.simps)
  next
    case False
    then have "0 < unat num" by (simp add: unat_gt_0)
    moreover have "print_digits (num div base) base = Some (rev (show_base (unat base) (unat num div unat base)))"
      using 1 False b by (simp add: unat_div)
    ultimately show ?thesis
      using False b printed_digit[OF "1.prems"] by (subst print_digits.simps) (simp add: Let_def show_base_pos)
  qed
qed

lemma print_reverse_itoa: "j < i \<Longrightarrow> print_reverse buf i j = itoa_reverse buf j (i - 1 - j)"
proof (induction buf i j rule: print_reverse.induct)
  case (1 buf i j)
  have c: "(j < i div 2) = (j < i - 1 - j)" using "1.prems" by linarith
  show ?case
  proof (cases "j < i div 2")
    case True
    then have "Suc j < i" "j < i - Suc j" by linarith+
    with 1 True show ?thesis
      by (subst print_reverse.simps, subst itoa_reverse.simps) simp
  next
    case False
    moreover from this c have "\<not> j < i - Suc j" by simp
    ultimately show ?thesis by (subst print_reverse.simps, subst itoa_reverse.simps) simp
  qed
qed

lemma print_reverse_prefix: "ys \<noteq> [] \<Longrightarrow> print_reverse (ys @ zs) (length ys) 0 = rev ys @ zs"
  using itoa_reverse_prefix[of ys zs] by (simp add: print_reverse_itoa)

lemma print_num_finish:
  assumes "ds \<noteq> []" and "length ds + length sg < 32"
  shows "(do { buf \<leftarrow> store (replicate 32 0) 0 (ds @ sg);
        buf \<leftarrow> store (print_reverse buf (length (ds @ sg)) 0) (length (ds @ sg)) [0];
        Some (take (length (ds @ sg)) buf) }) = Some (rev (ds @ sg))"
  using assms print_reverse_prefix[of "ds @ sg" "drop (length (ds @ sg)) (replicate 32 0)"] by (simp add: store_def)

lemma print_num_unsigned:
  assumes "base = 10 \<or> base = (16 :: u32)"
  shows "print_num num base False = Some (if num = 0 then [48] else show_base (unat base) (unat num))"
proof (cases "num = 0")
  case True
  then show ?thesis using print_num_finish[of "[48]" "[]"] by (simp add: print_num_def Let_def)
next
  case False
  let ?ds = "show_base (unat base) (unat num)"
  have "(2 :: nat) ^ 32 \<le> unat base ^ 10" using assms by auto
  then have "unat num < unat base ^ 10" using unat_u32[of num] by (auto intro: less_le_trans)
  then have "length ?ds \<le> 10" by (rule length_show_base)
  moreover have "?ds \<noteq> []" using False assms by (intro show_base_nonempty) (auto simp: unat_gt_0)
  ultimately show ?thesis
    using False assms print_num_finish[of "rev ?ds" "[]"] by (simp add: print_num_def print_digits_spec Let_def)
qed

lemma unat_word_of_int: "0 \<le> n \<Longrightarrow> n < 2 ^ 32 \<Longrightarrow> unat (word_of_int n :: u32) = nat n"
  by (simp add: unsigned_of_int take_bit_int_eq_self)

lemma print_num_signed:
  assumes "sint num \<noteq> - (2 ^ 31)"
  shows "print_num num 10 True = Some (show_int (sint num))"
proof -
  have b: "- (2 ^ 31) < sint num" "sint num < 2 ^ 31" using sint_u32_bounds[of num] assms by auto
  show ?thesis
  proof (cases "sint num < 0")
    case True
    let ?m = "word_of_int (- sint num) :: u32"
    have m: "unat ?m = nat (- sint num)"
      using b True by (intro unat_word_of_int) auto
    then have z: "?m \<noteq> 0" using True by (metis nat_0_iff neg_0_less_iff_less not_less unsigned_0)
    let ?ds = "show_base 10 (unat ?m)"
    have "length ?ds \<le> 10" using unat_u32[of ?m] by (intro length_show_base) simp
    moreover have "?ds \<noteq> []" using z by (intro show_base_nonempty) (auto simp: unat_gt_0)
    moreover have "print_digits ?m 10 = Some (rev ?ds)" using print_digits_spec[of 10 ?m] by simp
    ultimately show ?thesis
      using True b z print_num_finish[of "rev ?ds" "[45]"] m
      by (simp add: print_num_def Let_def show_int_def INT_MAX_def)
  next
    case False
    then have "sint num = int (unat num)"
      using unat_word_of_int[of "sint num"] b by (simp add: not_less)
    moreover have "print_num num 10 True = print_num num 10 False" using False by (simp add: print_num_def)
    ultimately show ?thesis using False print_num_unsigned[of 10 num] by (auto simp: show_int_def uint_0_iff)
  qed
qed

section \<open>Formats\<close>

text \<open>A format as a list of pieces, each with the argument it takes; what it writes.\<close>

datatype piece = Lit u8 | Dec u32 | Uns u32 | Hex u32 | Str "bytes option" | Chr u32 | Pct

fun piece_format :: "piece \<Rightarrow> bytes" where
  "piece_format (Lit c) = [c]"
| "piece_format (Dec v) = ascii ''%d''"
| "piece_format (Uns v) = ascii ''%u''"
| "piece_format (Hex v) = ascii ''%x''"
| "piece_format (Str s) = ascii ''%s''"
| "piece_format (Chr c) = ascii ''%c''"
| "piece_format Pct = ascii ''%%''"

fun piece_args :: "piece \<Rightarrow> va_arg list" where
  "piece_args (Dec v) = [VInt v]"
| "piece_args (Uns v) = [VInt v]"
| "piece_args (Hex v) = [VInt v]"
| "piece_args (Str s) = [VStr s]"
| "piece_args (Chr c) = [VInt c]"
| "piece_args _ = []"

fun piece_text :: "piece \<Rightarrow> bytes" where
  "piece_text (Lit c) = [c]"
| "piece_text (Dec v) = show_int (sint v)"
| "piece_text (Uns v) = show_int (uint v)"
| "piece_text (Hex v) = (if v = 0 then [48] else show_base 16 (unat v))"
| "piece_text (Str None) = ascii ''(null)''"
| "piece_text (Str (Some s)) = cstr s"
| "piece_text (Chr c) = [ucast c]"
| "piece_text Pct = [37]"

fun piece_ok :: "piece \<Rightarrow> bool" where
  "piece_ok (Lit c) = (c \<noteq> 0 \<and> c \<noteq> 37)"
| "piece_ok (Dec v) = (sint v \<noteq> - (2 ^ 31))"
| "piece_ok (Str (Some s)) = is_cstr s"
| "piece_ok _ = True"

lemma take_strlen: "is_cstr s \<Longrightarrow> take (length (cstr s)) s = cstr s"
  using is_cstr_split[of s] by (metis append_eq_conv_conj)

lemma printf_piece:
  assumes "piece_ok p"
  shows "printf_loop (piece_format p @ fmt) (piece_args p @ args) n =
    Option.bind (printf_loop fmt args (n + 1)) (\<lambda>(ws, m). Some (piece_text p # ws, m))"
proof -
  have u: "print_num v 10 False = Some (show_int (uint v))" for v
    using print_num_unsigned[of 10 v] by (auto simp: show_int_def uint_0_iff)
  have x: "print_num v 16 False = Some (if v = 0 then [48] else show_base 16 (unat v))" for v
    using print_num_unsigned[of 16 v] by simp
  show ?thesis using assms
    by (induction p rule: piece_ok.induct)
      (auto simp: ascii_def printf_directive_def va_int_def va_str_def user_putchar_def u x print_num_signed user_strlen_eq
        strlen_cstr take_strlen case_prod_beta)
qed

text \<open>C38. \<open>printf\<close>, for every format made of characters and the directives d, u, x, s, c and percent: it writes, in
  order, every character and the text of every argument, and returns the number of pieces, not of characters.\<close>

theorem printf_correct:
  assumes "list_all piece_ok ps"
  shows "printf (concat (map piece_format ps) @ [0]) (concat (map piece_args ps)) = Some (map piece_text ps, int (length ps))"
proof -
  have "printf_loop (concat (map piece_format ps) @ [0]) (concat (map piece_args ps)) n =
      Some (map piece_text ps, n + int (length ps))" for n
    using assms by (induction ps arbitrary: n) (simp_all add: printf_piece)
  then show ?thesis by (simp add: printf_def)
qed

theorem printf_correct_witness:
  "printf (ascii '' - %s (%d)'' @ [0]) [VStr (Some (ascii ''A.TXT'' @ [0])), VInt 42] =
    Some ([[32], [45], [32], ascii ''A.TXT'', [32], [40], ascii ''42'', [41]], 8)"
proof -
  let ?ps = "[Lit 32, Lit 45, Lit 32, Str (Some (ascii ''A.TXT'' @ [0])), Lit 32, Lit 40, Dec 42, Lit 41]"
  have c: "cstr (ascii ''A.TXT'' @ [0]) = ascii ''A.TXT''" by (rule cstr_append) (simp add: ascii_def)
  have "show_int 42 = ascii ''42''" by (simp add: show_int_def show_base_pos hex_digits_def ascii_def)
  moreover have "list_all piece_ok ?ps" by simp
  ultimately show ?thesis using printf_correct[of ?ps] c by (simp add: ascii_def)
qed

end
