(* ===== verification/User_Calls.thy ===== *)
theory User_Calls
  imports Syscalls User_Libc
begin

text \<open>
  The system calls as user programs make them, \<open>userspace/libc/src/syscall.c\<close>: a wrapper fixes the number and the three
  argument registers of \<open>int 0x80\<close>.  An \<open>int\<close> argument or result is the pattern of the register.  Then the calls by
  value, as the user programs of this development use them, and their implementation by the kernel model.
\<close>

section \<open>Call numbers\<close>

definition U_SYS_WRITE :: u32 where "U_SYS_WRITE = 1"
definition U_SYS_READ :: u32 where "U_SYS_READ = 2"
definition U_SYS_EXIT :: u32 where "U_SYS_EXIT = 3"
definition U_SYS_CLEAR :: u32 where "U_SYS_CLEAR = 4"
definition U_SYS_DISK_READ :: u32 where "U_SYS_DISK_READ = 5"
definition U_SYS_DISK_WRITE :: u32 where "U_SYS_DISK_WRITE = 6"
definition U_SYS_SLEEP :: u32 where "U_SYS_SLEEP = 7"
definition U_SYS_OPEN :: u32 where "U_SYS_OPEN = 8"
definition U_SYS_CLOSE :: u32 where "U_SYS_CLOSE = 9"
definition U_SYS_FILE_READ :: u32 where "U_SYS_FILE_READ = 10"
definition U_SYS_FILE_WRITE :: u32 where "U_SYS_FILE_WRITE = 11"
definition U_SYS_SEEK :: u32 where "U_SYS_SEEK = 12"
definition U_SYS_UNLINK :: u32 where "U_SYS_UNLINK = 13"
definition U_SYS_MKDIR :: u32 where "U_SYS_MKDIR = 14"
definition U_SYS_READDIR :: u32 where "U_SYS_READDIR = 15"
definition U_SYS_RTC_TIME :: u32 where "U_SYS_RTC_TIME = 16"
definition U_SYS_TIMEZONE :: u32 where "U_SYS_TIMEZONE = 17"
definition U_SYS_CHDIR :: u32 where "U_SYS_CHDIR = 18"
definition U_SYS_GETCWD :: u32 where "U_SYS_GETCWD = 19"
definition U_SYS_GET_CWD_CLUSTER :: u32 where "U_SYS_GET_CWD_CLUSTER = 20"
definition U_SYS_NET_INIT :: u32 where "U_SYS_NET_INIT = 21"
definition U_SYS_PING :: u32 where "U_SYS_PING = 22"
definition U_SYS_PING_STATUS :: u32 where "U_SYS_PING_STATUS = 23"
definition U_SYS_PING_RESET :: u32 where "U_SYS_PING_RESET = 24"
definition U_SYS_ARP_REQUEST :: u32 where "U_SYS_ARP_REQUEST = 25"
definition U_SYS_ARP_LOOKUP :: u32 where "U_SYS_ARP_LOOKUP = 26"
definition U_SYS_ARP_PRINT :: u32 where "U_SYS_ARP_PRINT = 27"
definition U_SYS_NET_STATUS :: u32 where "U_SYS_NET_STATUS = 28"
definition U_SYS_ARP_ADD :: u32 where "U_SYS_ARP_ADD = 29"
definition U_SYS_ARP_GET_ENTRY :: u32 where "U_SYS_ARP_GET_ENTRY = 30"
definition U_SYS_REBOOT :: u32 where "U_SYS_REBOOT = 31"
definition U_SYS_SHUTDOWN :: u32 where "U_SYS_SHUTDOWN = 32"
definition U_SYS_HALT :: u32 where "U_SYS_HALT = 33"
definition U_SYS_YIELD :: u32 where "U_SYS_YIELD = 34"
definition U_SYS_PS :: u32 where "U_SYS_PS = 35"
definition U_SYS_KILL :: u32 where "U_SYS_KILL = 36"
definition U_SYS_EXEC :: u32 where "U_SYS_EXEC = 37"

lemmas user_numbers =
  U_SYS_WRITE_def U_SYS_READ_def U_SYS_EXIT_def U_SYS_CLEAR_def U_SYS_DISK_READ_def
  U_SYS_DISK_WRITE_def U_SYS_SLEEP_def U_SYS_OPEN_def U_SYS_CLOSE_def U_SYS_FILE_READ_def
  U_SYS_FILE_WRITE_def U_SYS_SEEK_def U_SYS_UNLINK_def U_SYS_MKDIR_def U_SYS_READDIR_def
  U_SYS_RTC_TIME_def U_SYS_TIMEZONE_def U_SYS_CHDIR_def U_SYS_GETCWD_def U_SYS_GET_CWD_CLUSTER_def
  U_SYS_NET_INIT_def U_SYS_PING_def U_SYS_PING_STATUS_def U_SYS_PING_RESET_def U_SYS_ARP_REQUEST_def
  U_SYS_ARP_LOOKUP_def U_SYS_ARP_PRINT_def U_SYS_NET_STATUS_def U_SYS_ARP_ADD_def U_SYS_ARP_GET_ENTRY_def
  U_SYS_REBOOT_def U_SYS_SHUTDOWN_def U_SYS_HALT_def U_SYS_YIELD_def U_SYS_PS_def
  U_SYS_KILL_def U_SYS_EXEC_def

section \<open>The wrappers\<close>

type_synonym syscall_args = "u32 \<times> u32 \<times> u32 \<times> u32"

definition user_write :: "u32 \<Rightarrow> u32 \<Rightarrow> u32 \<Rightarrow> syscall_args" where
  "user_write fd buf len = (U_SYS_WRITE, fd, buf, len)"

definition user_read :: "u32 \<Rightarrow> u32 \<Rightarrow> u32 \<Rightarrow> syscall_args" where
  "user_read fd buf len = (U_SYS_READ, buf, len, 0)"

definition user_exit :: "syscall_args" where
  "user_exit = (U_SYS_EXIT, 0, 0, 0)"

definition user_clear :: "syscall_args" where
  "user_clear = (U_SYS_CLEAR, 0, 0, 0)"

definition user_disk_read :: "u32 \<Rightarrow> u32 \<Rightarrow> syscall_args" where
  "user_disk_read lba buffer = (U_SYS_DISK_READ, lba, buffer, 0)"

definition user_disk_write :: "u32 \<Rightarrow> u32 \<Rightarrow> syscall_args" where
  "user_disk_write lba buffer = (U_SYS_DISK_WRITE, lba, buffer, 0)"

definition user_sleep_ms :: "u32 \<Rightarrow> syscall_args" where
  "user_sleep_ms ms = (U_SYS_SLEEP, ms, 0, 0)"

definition user_open :: "u32 \<Rightarrow> u32 \<Rightarrow> syscall_args" where
  "user_open path flags = (U_SYS_OPEN, path, flags, 0)"

definition user_close :: "u32 \<Rightarrow> syscall_args" where
  "user_close fd = (U_SYS_CLOSE, fd, 0, 0)"

definition user_file_read :: "u32 \<Rightarrow> u32 \<Rightarrow> u32 \<Rightarrow> syscall_args" where
  "user_file_read fd buffer sz = (U_SYS_FILE_READ, fd, buffer, sz)"

definition user_file_write :: "u32 \<Rightarrow> u32 \<Rightarrow> u32 \<Rightarrow> syscall_args" where
  "user_file_write fd buffer sz = (U_SYS_FILE_WRITE, fd, buffer, sz)"

definition user_seek :: "u32 \<Rightarrow> u32 \<Rightarrow> u32 \<Rightarrow> syscall_args" where
  "user_seek fd offset whence = (U_SYS_SEEK, fd, offset, whence)"

definition user_unlink :: "u32 \<Rightarrow> syscall_args" where
  "user_unlink path = (U_SYS_UNLINK, path, 0, 0)"

definition user_mkdir :: "u32 \<Rightarrow> syscall_args" where
  "user_mkdir path = (U_SYS_MKDIR, path, 0, 0)"

definition user_readdir :: "u32 \<Rightarrow> u32 \<Rightarrow> u32 \<Rightarrow> syscall_args" where
  "user_readdir cluster index info = (U_SYS_READDIR, cluster, index, info)"

definition user_chdir :: "u32 \<Rightarrow> syscall_args" where
  "user_chdir path = (U_SYS_CHDIR, path, 0, 0)"

definition user_getcwd :: "u32 \<Rightarrow> u32 \<Rightarrow> syscall_args" where
  "user_getcwd buf sz = (U_SYS_GETCWD, buf, sz, 0)"

definition user_get_cwd_cluster :: "syscall_args" where
  "user_get_cwd_cluster = (U_SYS_GET_CWD_CLUSTER, 0, 0, 0)"

definition user_yield :: "syscall_args" where
  "user_yield = (U_SYS_YIELD, 0, 0, 0)"

definition user_ps :: "syscall_args" where
  "user_ps = (U_SYS_PS, 0, 0, 0)"

definition user_kill :: "u32 \<Rightarrow> syscall_args" where
  "user_kill pid = (U_SYS_KILL, pid, 0, 0)"

definition user_exec :: "u32 \<Rightarrow> syscall_args" where
  "user_exec path = (U_SYS_EXEC, path, 0, 0)"

definition user_reboot :: "syscall_args" where
  "user_reboot = (U_SYS_REBOOT, 0, 0, 0)"

definition user_shutdown :: "syscall_args" where
  "user_shutdown = (U_SYS_SHUTDOWN, 0, 0, 0)"

definition user_halt :: "syscall_args" where
  "user_halt = (U_SYS_HALT, 0, 0, 0)"

definition user_net_init :: "u32 \<Rightarrow> u32 \<Rightarrow> u32 \<Rightarrow> syscall_args" where
  "user_net_init ip gateway netmask = (U_SYS_NET_INIT, ip, gateway, netmask)"

definition user_ping :: "u32 \<Rightarrow> syscall_args" where
  "user_ping ip = (U_SYS_PING, ip, 0, 0)"

definition user_ping_status :: "syscall_args" where
  "user_ping_status = (U_SYS_PING_STATUS, 0, 0, 0)"

definition user_ping_reset :: "syscall_args" where
  "user_ping_reset = (U_SYS_PING_RESET, 0, 0, 0)"

definition user_arp_request :: "u32 \<Rightarrow> syscall_args" where
  "user_arp_request ip = (U_SYS_ARP_REQUEST, ip, 0, 0)"

definition user_arp_lookup :: "u32 \<Rightarrow> u32 \<Rightarrow> syscall_args" where
  "user_arp_lookup ip mac = (U_SYS_ARP_LOOKUP, ip, mac, 0)"

definition user_arp_print_table :: "syscall_args" where
  "user_arp_print_table = (U_SYS_ARP_PRINT, 0, 0, 0)"

definition user_arp_add :: "u32 \<Rightarrow> u32 \<Rightarrow> syscall_args" where
  "user_arp_add ip mac = (U_SYS_ARP_ADD, ip, mac, 0)"

definition user_arp_get_entry :: "u32 \<Rightarrow> u32 \<Rightarrow> syscall_args" where
  "user_arp_get_entry index ent = (U_SYS_ARP_GET_ENTRY, index, ent, 0)"

definition user_net_status :: "u32 \<Rightarrow> syscall_args" where
  "user_net_status status = (U_SYS_NET_STATUS, status, 0, 0)"

definition user_rtc_time :: "u32 \<Rightarrow> syscall_args" where
  "user_rtc_time out = (U_SYS_RTC_TIME, out, 0, 0)"

definition user_timezone :: "u32 \<Rightarrow> syscall_args" where
  "user_timezone out = (U_SYS_TIMEZONE, out, 0, 0)"

lemmas user_wrappers =
  user_write_def user_read_def user_exit_def user_clear_def user_disk_read_def
  user_disk_write_def user_sleep_ms_def user_open_def user_close_def user_file_read_def
  user_file_write_def user_seek_def user_unlink_def user_mkdir_def user_readdir_def
  user_chdir_def user_getcwd_def user_get_cwd_cluster_def user_yield_def user_ps_def
  user_kill_def user_exec_def user_reboot_def user_shutdown_def user_halt_def
  user_net_init_def user_ping_def user_ping_status_def user_ping_reset_def user_arp_request_def
  user_arp_lookup_def user_arp_print_table_def user_arp_add_def user_arp_get_entry_def user_net_status_def
  user_rtc_time_def user_timezone_def

section \<open>The trap\<close>

definition trap :: "regs_t \<Rightarrow> syscall_args \<Rightarrow> regs_t" where
  "trap r q = (case q of (num, a, b, c) \<Rightarrow> r\<lparr>r_eax := num, r_ebx := a, r_ecx := b, r_edx := c\<rparr>)"

text \<open>\<open>int 0x80\<close> runs the dispatcher on the saved registers; the program continues with \<open>eax\<close> as the result, unless the
  call ends in another task, another program or a stop.\<close>

definition user_syscall :: "('d, 'n, 'c) hardware \<Rightarrow> regs_t \<Rightarrow> syscall_args \<Rightarrow> ('d, 'n, 'c) machine \<Rightarrow> (u32 \<times> ('d, 'n, 'c) machine) option" where
  "user_syscall H r q m = do {
     (e, r, m) \<leftarrow> syscall_dispatch H (trap r q) m;
     case e of Sys_Returns \<Rightarrow> Some (r_eax r, m) | _ \<Rightarrow> None
   }"


section \<open>Calls by value\<close>

text \<open>What a program sees of the calls it makes: a pointer argument is the object it points to, handed back as the call
  leaves it.  \<open>None\<close> means that the program does not go on.\<close>

record 'w os =
  os_write :: "u32 \<Rightarrow> bytes \<Rightarrow> u32 \<Rightarrow> 'w \<Rightarrow> (u32 \<times> bytes \<times> 'w) option"
  os_read :: "u32 \<Rightarrow> bytes \<Rightarrow> u32 \<Rightarrow> 'w \<Rightarrow> (u32 \<times> bytes \<times> 'w) option"
  os_clear :: "'w \<Rightarrow> (u32 \<times> 'w) option"
  os_sleep_ms :: "u32 \<Rightarrow> 'w \<Rightarrow> (u32 \<times> 'w) option"
  os_open :: "bytes \<Rightarrow> u32 \<Rightarrow> 'w \<Rightarrow> (u32 \<times> bytes \<times> 'w) option"
  os_close :: "u32 \<Rightarrow> 'w \<Rightarrow> (u32 \<times> 'w) option"
  os_file_read :: "u32 \<Rightarrow> bytes \<Rightarrow> u32 \<Rightarrow> 'w \<Rightarrow> (u32 \<times> bytes \<times> 'w) option"
  os_file_write :: "u32 \<Rightarrow> bytes \<Rightarrow> u32 \<Rightarrow> 'w \<Rightarrow> (u32 \<times> bytes \<times> 'w) option"
  os_seek :: "u32 \<Rightarrow> u32 \<Rightarrow> u32 \<Rightarrow> 'w \<Rightarrow> (u32 \<times> 'w) option"
  os_unlink :: "bytes \<Rightarrow> 'w \<Rightarrow> (u32 \<times> bytes \<times> 'w) option"
  os_mkdir :: "bytes \<Rightarrow> 'w \<Rightarrow> (u32 \<times> bytes \<times> 'w) option"
  os_readdir :: "u32 \<Rightarrow> bytes \<Rightarrow> bytes \<Rightarrow> 'w \<Rightarrow> (u32 \<times> (bytes \<times> bytes) \<times> 'w) option"
  os_chdir :: "bytes \<Rightarrow> 'w \<Rightarrow> (u32 \<times> bytes \<times> 'w) option"
  os_getcwd :: "bytes \<Rightarrow> u32 \<Rightarrow> 'w \<Rightarrow> (u32 \<times> bytes \<times> 'w) option"
  os_get_cwd_cluster :: "'w \<Rightarrow> (u32 \<times> 'w) option"
  os_ps :: "'w \<Rightarrow> (u32 \<times> 'w) option"
  os_kill :: "u32 \<Rightarrow> 'w \<Rightarrow> (u32 \<times> 'w) option"
  os_exec :: "bytes \<Rightarrow> 'w \<Rightarrow> (u32 \<times> bytes \<times> 'w) option"
  os_exit :: "'w \<Rightarrow> (u32 \<times> 'w) option"
  os_reboot :: "'w \<Rightarrow> (u32 \<times> 'w) option"
  os_shutdown :: "'w \<Rightarrow> (u32 \<times> 'w) option"
  os_halt :: "'w \<Rightarrow> (u32 \<times> 'w) option"

text \<open>The kernel provides them: the object lies in the memory of the program at address \<open>A\<close>, the wrapper gets this
  address.  The two objects of \<open>readdir\<close> are the index at \<open>A\<close> and the structure at \<open>A + 16\<close>.\<close>

definition with_object :: "('d, 'n, 'c) hardware \<Rightarrow> regs_t \<Rightarrow> u32 \<Rightarrow> bytes \<Rightarrow> (u32 \<Rightarrow> syscall_args) \<Rightarrow>
    ('d, 'n, 'c) machine \<Rightarrow> (u32 \<times> bytes \<times> ('d, 'n, 'c) machine) option" where
  "with_object H r A obj q m = do {
     m \<leftarrow> u_write H A obj m;
     (v, m) \<leftarrow> user_syscall H r (q A) m;
     obj' \<leftarrow> u_read H (length obj) A m;
     Some (v, obj', m)
   }"

definition kernel_readdir :: "('d, 'n, 'c) hardware \<Rightarrow> regs_t \<Rightarrow> u32 \<Rightarrow> u32 \<Rightarrow> bytes \<Rightarrow> bytes \<Rightarrow>
    ('d, 'n, 'c) machine \<Rightarrow> (u32 \<times> (bytes \<times> bytes) \<times> ('d, 'n, 'c) machine) option" where
  "kernel_readdir H r A cluster index info m = do {
     m \<leftarrow> u_write H A index m;
     m \<leftarrow> u_write H (A + 16) info m;
     (v, m) \<leftarrow> user_syscall H r (user_readdir cluster A (A + 16)) m;
     index' \<leftarrow> u_read H (length index) A m;
     info' \<leftarrow> u_read H (length info) (A + 16) m;
     Some (v, (index', info'), m)
   }"

definition kernel_os :: "('d, 'n, 'c) hardware \<Rightarrow> regs_t \<Rightarrow> u32 \<Rightarrow> ('d, 'n, 'c) machine os" where
  "kernel_os H r A = \<lparr>
     os_write = (\<lambda>fd buf len. with_object H r A buf (\<lambda>a. user_write fd a len)),
     os_read = (\<lambda>fd buf len. with_object H r A buf (\<lambda>a. user_read fd a len)),
     os_clear = user_syscall H r user_clear,
     os_sleep_ms = (\<lambda>ms. user_syscall H r (user_sleep_ms ms)),
     os_open = (\<lambda>path flags. with_object H r A path (\<lambda>a. user_open a flags)),
     os_close = (\<lambda>fd. user_syscall H r (user_close fd)),
     os_file_read = (\<lambda>fd buf sz. with_object H r A buf (\<lambda>a. user_file_read fd a sz)),
     os_file_write = (\<lambda>fd buf sz. with_object H r A buf (\<lambda>a. user_file_write fd a sz)),
     os_seek = (\<lambda>fd offset whence. user_syscall H r (user_seek fd offset whence)),
     os_unlink = (\<lambda>path. with_object H r A path user_unlink),
     os_mkdir = (\<lambda>path. with_object H r A path user_mkdir),
     os_readdir = kernel_readdir H r A,
     os_chdir = (\<lambda>path. with_object H r A path user_chdir),
     os_getcwd = (\<lambda>buf sz. with_object H r A buf (\<lambda>a. user_getcwd a sz)),
     os_get_cwd_cluster = user_syscall H r user_get_cwd_cluster,
     os_ps = user_syscall H r user_ps,
     os_kill = (\<lambda>pid. user_syscall H r (user_kill pid)),
     os_exec = (\<lambda>path. with_object H r A path user_exec),
     os_exit = user_syscall H r user_exit,
     os_reboot = user_syscall H r user_reboot,
     os_shutdown = user_syscall H r user_shutdown,
     os_halt = user_syscall H r user_halt\<rparr>"

end
