(* ===== verification/User_Shell.thy ===== *)
theory User_Shell
  imports User_Calls Syscall_Files
begin

text \<open>
  The user programs, \<open>userspace/shell.c\<close> and \<open>userspace/hello.c\<close>, over the system calls by value.  The line of the
  shell is the array \<open>buf\<close> of 256 bytes, a pointer into it an index; \<open>prompt_buf\<close> is the array for the working
  directory.  The lemmas relate the line editor to editing a string, the tokenizer to splitting at spaces, and run the
  line editor on the kernel model.
\<close>

section \<open>Helpers of the shell\<close>

definition STDIN :: u32 where "STDIN = 0"
definition STDOUT :: u32 where "STDOUT = 1"
definition O_RDONLY :: u32 where "O_RDONLY = 0x01"
definition O_WRONLY :: u32 where "O_WRONLY = 0x02"
definition O_CREAT :: u32 where "O_CREAT = 0x04"
definition O_TRUNC :: u32 where "O_TRUNC = 0x08"
definition O_APPEND :: u32 where "O_APPEND = 0x10"
definition SEEK_END :: u32 where "SEEK_END = 2"

abbreviation (input) BUF_SIZE :: nat where "BUF_SIZE \<equiv> 256"
abbreviation (input) FILE_BUF :: nat where "FILE_BUF \<equiv> 512"

text \<open>String literals, without and with a final newline.\<close>

definition lit :: "string \<Rightarrow> bytes" where "lit t = ascii t @ [0]"
definition litln :: "string \<Rightarrow> bytes" where "litln t = ascii t @ [10, 0]"

fun strip_newline_loop :: "bytes \<Rightarrow> nat \<Rightarrow> bytes" where
  "strip_newline_loop s 0 = s"
| "strip_newline_loop s (Suc l) =
     (if s ! l = 10 \<or> s ! l = 13 then strip_newline_loop (s[l := 0]) l else s)"

definition strip_newline :: "bytes \<Rightarrow> bytes option" where
  "strip_newline s = map_option (strip_newline_loop s) (user_strlen s)"

definition shell_puts :: "'w os \<Rightarrow> bytes \<Rightarrow> 'w \<Rightarrow> 'w option" where
  "shell_puts S s w = do {
     n \<leftarrow> user_strlen s;
     (_, _, w) \<leftarrow> os_write S STDOUT s (of_nat n) w;
     Some w
   }"

definition prompt :: "'w os \<Rightarrow> bytes \<Rightarrow> 'w \<Rightarrow> (bytes \<times> 'w) option" where
  "prompt S pb w = do {
     (v, pb, w) \<leftarrow> os_getcwd S pb 128 w;
     w \<leftarrow> (if sint v > 0 then shell_puts S pb w else Some w);
     w \<leftarrow> shell_puts S (lit ''> '') w;
     Some (pb, w)
   }"

function skip_spaces :: "bytes \<Rightarrow> nat \<Rightarrow> nat option" where
  "skip_spaces s i =
     (if i < length s then (if s ! i = 32 then skip_spaces s (Suc i) else Some i) else None)"
  by pat_completeness auto
termination
  by (relation "measure (\<lambda>(s, i). length s - i)") auto

function token_end :: "bytes \<Rightarrow> nat \<Rightarrow> nat option" where
  "token_end s i =
     (if i < length s then (if s ! i \<noteq> 0 \<and> s ! i \<noteq> 32 then token_end s (Suc i) else Some i) else None)"
  by pat_completeness auto
termination
  by (relation "measure (\<lambda>(s, i). length s - i)") auto

declare skip_spaces.simps [simp del] token_end.simps [simp del]

text \<open>\<open>next_token\<close> yields the token (\<open>None\<close> is the null pointer), the line, and where the rest begins.\<close>

definition next_token :: "bytes \<Rightarrow> nat \<Rightarrow> (nat option \<times> bytes \<times> nat) option" where
  "next_token s p = do {
     start \<leftarrow> skip_spaces s p;
     if s ! start = 0 then Some (None, s, start)
     else do {
       e \<leftarrow> token_end s start;
       if s ! e \<noteq> 0 then Some (Some start, s[e := 0], Suc e) else Some (Some start, s, e)
     }
   }"

section \<open>The line editor\<close>

text \<open>The inner loop of \<open>_start\<close>: it ends with the key that ends a line.\<close>

partial_function (option) read_line :: "'w os \<Rightarrow> bytes \<Rightarrow> nat \<Rightarrow> u8 \<Rightarrow> 'w \<Rightarrow> (bytes \<times> 'w) option" where
  "read_line S buf pos c w = do {
     (v, cobj, w) \<leftarrow> os_read S STDIN [c] 1 w;
     let c = cobj ! 0;
     if sint v \<le> 0 then read_line S buf pos c w
     else if c = 8 then
       (if pos > 0 then do {
          (_, _, w) \<leftarrow> os_write S STDOUT [8, 32, 8, 0] 3 w;
          read_line S buf (pos - 1) c w
        }
        else read_line S buf pos c w)
     else do {
       (_, _, w) \<leftarrow> os_write S STDOUT [c] 1 w;
       if c = 10 \<or> c = 13 then do { buf \<leftarrow> store buf pos [0]; Some (buf, w) }
       else if pos < BUF_SIZE - 1 then do {
         buf \<leftarrow> store buf pos [c];
         read_line S buf (pos + 1) c w
       }
       else read_line S buf pos c w
     }
   }"

section \<open>The commands\<close>

text \<open>A command that needs an argument, or prints how it is used.\<close>

definition with_token :: "'w os \<Rightarrow> string \<Rightarrow> bytes \<Rightarrow> nat \<Rightarrow> (bytes \<Rightarrow> bytes \<Rightarrow> nat \<Rightarrow> 'w \<Rightarrow> 'w option) \<Rightarrow> 'w \<Rightarrow> 'w option" where
  "with_token S usage buf p f w = do {
     (t, buf, p) \<leftarrow> next_token buf p;
     case t of
       None \<Rightarrow> shell_puts S (litln usage) w
     | Some i \<Rightarrow> f (drop i buf) buf p w
   }"

partial_function (option) cat_loop :: "'w os \<Rightarrow> u32 \<Rightarrow> bytes \<Rightarrow> 'w \<Rightarrow> 'w option" where
  "cat_loop S fd fbuf w = do {
     (n, fbuf, w) \<leftarrow> os_file_read S fd fbuf (of_nat FILE_BUF) w;
     if sint n > 0 then do {
       (_, _, w) \<leftarrow> os_write S STDOUT fbuf n w;
       cat_loop S fd fbuf w
     }
     else Some w
   }"

definition cmd_cat :: "'w os \<Rightarrow> bytes \<Rightarrow> nat \<Rightarrow> 'w \<Rightarrow> 'w option" where
  "cmd_cat S buf p = with_token S ''usage: cat <file>'' buf p (\<lambda>path buf p w. do {
     (fd, _, w) \<leftarrow> os_open S path O_RDONLY w;
     if sint fd < 0 then shell_puts S (litln ''open failed'') w
     else do {
       w \<leftarrow> cat_loop S fd (replicate FILE_BUF 0) w;
       (_, w) \<leftarrow> os_close S fd w;
       Some w
     }
   })"

text \<open>\<open>write\<close> and \<open>append\<close> take the rest of the line as the text.\<close>

definition write_text :: "'w os \<Rightarrow> u32 \<Rightarrow> bytes \<Rightarrow> 'w \<Rightarrow> 'w option" where
  "write_text S fd text w = do {
     n \<leftarrow> user_strlen text;
     (_, _, w) \<leftarrow> os_file_write S fd text (of_nat n) w;
     (_, _, w) \<leftarrow> os_file_write S fd [10, 0] 1 w;
     (_, w) \<leftarrow> os_close S fd w;
     shell_puts S (litln ''ok'') w
   }"

definition cmd_write :: "'w os \<Rightarrow> bytes \<Rightarrow> nat \<Rightarrow> 'w \<Rightarrow> 'w option" where
  "cmd_write S buf p = with_token S ''usage: write <file> <text>'' buf p (\<lambda>path buf p w. do {
     p \<leftarrow> skip_spaces buf p;
     if buf ! p = 0 then shell_puts S (litln ''usage: write <file> <text>'') w
     else do {
       (fd, _, w) \<leftarrow> os_open S path (O_WRONLY OR O_CREAT OR O_TRUNC) w;
       if sint fd < 0 then shell_puts S (litln ''open failed'') w
       else write_text S fd (drop p buf) w
     }
   })"

definition cmd_append :: "'w os \<Rightarrow> bytes \<Rightarrow> nat \<Rightarrow> 'w \<Rightarrow> 'w option" where
  "cmd_append S buf p = with_token S ''usage: append <file> <text>'' buf p (\<lambda>path buf p w. do {
     p \<leftarrow> skip_spaces buf p;
     if buf ! p = 0 then shell_puts S (litln ''usage: append <file> <text>'') w
     else do {
       (fd, _, w) \<leftarrow> os_open S path (O_WRONLY OR O_CREAT OR O_APPEND) w;
       if sint fd < 0 then shell_puts S (litln ''open failed'') w
       else do {
         (_, w) \<leftarrow> os_seek S fd 0 SEEK_END w;
         write_text S fd (drop p buf) w
       }
     }
   })"

definition cmd_rm :: "'w os \<Rightarrow> bytes \<Rightarrow> nat \<Rightarrow> 'w \<Rightarrow> 'w option" where
  "cmd_rm S buf p = with_token S ''usage: rm <file>'' buf p (\<lambda>path buf p w. do {
     (v, _, w) \<leftarrow> os_unlink S path w;
     shell_puts S (litln (if v = 0 then ''deleted'' else ''unlink failed'')) w
   })"

definition cmd_mkdir :: "'w os \<Rightarrow> bytes \<Rightarrow> nat \<Rightarrow> 'w \<Rightarrow> 'w option" where
  "cmd_mkdir S buf p = with_token S ''usage: mkdir <dir>'' buf p (\<lambda>path buf p w. do {
     (v, _, w) \<leftarrow> os_mkdir S path w;
     shell_puts S (litln (if v = 0 then ''created'' else ''mkdir failed'')) w
   })"

text \<open>The structure of the program for an entry: \<open>name\<close> of 32 bytes, \<open>size\<close> at 32, \<open>attr\<close> at 36, 44 bytes in all.\<close>

function ls_loop :: "'w os \<Rightarrow> u32 \<Rightarrow> bytes \<Rightarrow> bytes \<Rightarrow> nat \<Rightarrow> 'w \<Rightarrow> (nat \<times> 'w) option" where
  "ls_loop S cluster index info count w = do {
     (v, (index, info), w) \<leftarrow> os_readdir S cluster index info w;
     if v \<noteq> 0 then Some (count, w)
     else do {
       w \<leftarrow> shell_puts S (lit (if info ! 36 AND 0x10 \<noteq> 0 then ''<DIR> '' else ''      '')) w;
       w \<leftarrow> shell_puts S (take 32 info) w;
       w \<leftarrow> shell_puts S [10, 0] w;
       let count = count + 1;
       if count > 100 then Some (count, w) else ls_loop S cluster index info count w
     }
   }"
  by pat_completeness auto
termination
  by (relation "measure (\<lambda>(S, cluster, index, info, count, w). 101 - count)") auto

declare ls_loop.simps [simp del]

definition cmd_ls :: "'w os \<Rightarrow> 'w \<Rightarrow> 'w option" where
  "cmd_ls S w = do {
     (cluster, w) \<leftarrow> os_get_cwd_cluster S w;
     w \<leftarrow> shell_puts S (litln ''Directory listing:'') w;
     (count, w) \<leftarrow> ls_loop S cluster (le32 0) (replicate 44 0) 0 w;
     if count = 0 then shell_puts S (litln ''(empty)'') w else Some w
   }"

definition cmd_cd :: "'w os \<Rightarrow> bytes \<Rightarrow> nat \<Rightarrow> 'w \<Rightarrow> 'w option" where
  "cmd_cd S buf p = with_token S ''usage: cd <dir>'' buf p (\<lambda>path buf p w. do {
     (v, _, w) \<leftarrow> os_chdir S path w;
     shell_puts S (litln (if v = 0 then ''ok'' else ''cd failed'')) w
   })"

definition cmd_pwd :: "'w os \<Rightarrow> bytes \<Rightarrow> 'w \<Rightarrow> (bytes \<times> 'w) option" where
  "cmd_pwd S pb w = do {
     (v, pb, w) \<leftarrow> os_getcwd S pb 128 w;
     w \<leftarrow> (if sint v > 0 then do { w \<leftarrow> shell_puts S pb w; shell_puts S [10, 0] w }
           else shell_puts S (litln ''getcwd failed'') w);
     Some (pb, w)
   }"

text \<open>The digits of a number; a signed overflow has no defined result.\<close>

fun shell_number :: "int \<Rightarrow> bytes \<Rightarrow> int option" where
  "shell_number n [] = None"
| "shell_number n (c # t) =
     (if 48 \<le> c \<and> c \<le> 57 then
        (let n = n * 10 + (uint c - 48) in if n > INT_MAX then None else shell_number n t)
      else Some n)"

definition cmd_sleep :: "'w os \<Rightarrow> bytes \<Rightarrow> nat \<Rightarrow> 'w \<Rightarrow> 'w option" where
  "cmd_sleep S buf p w = do {
     (t, buf, p) \<leftarrow> next_token buf p;
     case t of
       None \<Rightarrow> Some w
     | Some i \<Rightarrow> do {
         ms \<leftarrow> shell_number 0 (drop i buf);
         (_, w) \<leftarrow> os_sleep_ms S (word_of_int ms) w;
         Some w
       }
   }"

definition cmd_kill :: "'w os \<Rightarrow> bytes \<Rightarrow> nat \<Rightarrow> 'w \<Rightarrow> 'w option" where
  "cmd_kill S buf p = with_token S ''usage: kill <pid>'' buf p (\<lambda>t buf p w. do {
     pid \<leftarrow> shell_number 0 t;
     (v, w) \<leftarrow> os_kill S (word_of_int pid) w;
     shell_puts S (litln (if v = 0 then ''killed'' else ''no such pid'')) w
   })"

definition cmd_exec :: "'w os \<Rightarrow> bytes \<Rightarrow> nat \<Rightarrow> 'w \<Rightarrow> 'w option" where
  "cmd_exec S buf p = with_token S ''usage: exec <program>'' buf p (\<lambda>path buf p w. do {
     (result, _, w) \<leftarrow> os_exec S path w;
     if result \<noteq> 0 then shell_puts S (litln ''exec failed'') w else Some w
   })"

definition cmd_help :: "'w os \<Rightarrow> 'w \<Rightarrow> 'w option" where
  "cmd_help S w = shell_puts S (ascii ''Commands:'' @ [10] @
     ascii '' help, clear, cat, write, append, rm, mkdir'' @ [10] @
     ascii '' ls, cd, pwd, sleep, time'' @ [10] @
     ascii '' netinit, ping, arp, netstat, testnet'' @ [10] @
     litln '' reboot, poweroff, halt, ps, kill, exec'') w"

definition cmd_reboot :: "'w os \<Rightarrow> 'w \<Rightarrow> 'w option" where
  "cmd_reboot S w = do {
     w \<leftarrow> shell_puts S (litln ''Rebooting in 2 seconds...'') w;
     (_, w) \<leftarrow> os_sleep_ms S 2000 w;
     (_, w) \<leftarrow> os_reboot S w;
     Some w
   }"

definition cmd_poweroff :: "'w os \<Rightarrow> 'w \<Rightarrow> 'w option" where
  "cmd_poweroff S w = do {
     w \<leftarrow> shell_puts S (litln ''Powering off...'') w;
     (_, w) \<leftarrow> os_sleep_ms S 1000 w;
     (_, w) \<leftarrow> os_shutdown S w;
     Some w
   }"

definition cmd_halt :: "'w os \<Rightarrow> 'w \<Rightarrow> 'w option" where
  "cmd_halt S w = do {
     w \<leftarrow> shell_puts S (litln ''System halted.'') w;
     (_, w) \<leftarrow> os_halt S w;
     Some w
   }"

text \<open>One comparison of the chain that picks the command.\<close>

definition on_cmd :: "bytes \<Rightarrow> string \<Rightarrow> 'a option \<Rightarrow> 'a option \<Rightarrow> 'a option" where
  "on_cmd cmd t yes no = do { v \<leftarrow> user_strcmp cmd (lit t); if v = 0 then yes else no }"

definition run_command :: "'w os \<Rightarrow> bytes \<Rightarrow> bytes \<Rightarrow> nat \<Rightarrow> bytes \<Rightarrow> 'w \<Rightarrow> (bytes \<times> 'w) option" where
  "run_command S cmd buf p pb w =
     (let same = map_option (Pair pb) in
      on_cmd cmd ''help'' (same (cmd_help S w))
     (on_cmd cmd ''clear'' (same (map_option snd (os_clear S w)))
     (on_cmd cmd ''reboot'' (same (cmd_reboot S w))
     (on_cmd cmd ''poweroff'' (same (cmd_poweroff S w))
     (on_cmd cmd ''shutdown'' (same (cmd_poweroff S w))
     (on_cmd cmd ''halt'' (same (cmd_halt S w))
     (on_cmd cmd ''cat'' (same (cmd_cat S buf p w))
     (on_cmd cmd ''write'' (same (cmd_write S buf p w))
     (on_cmd cmd ''append'' (same (cmd_append S buf p w))
     (on_cmd cmd ''rm'' (same (cmd_rm S buf p w))
     (on_cmd cmd ''mkdir'' (same (cmd_mkdir S buf p w))
     (on_cmd cmd ''ls'' (same (cmd_ls S w))
     (on_cmd cmd ''cd'' (same (cmd_cd S buf p w))
     (on_cmd cmd ''pwd'' (cmd_pwd S pb w)
     (on_cmd cmd ''sleep'' (same (cmd_sleep S buf p w))
     (on_cmd cmd ''ps'' (same (map_option snd (os_ps S w)))
     (on_cmd cmd ''kill'' (same (cmd_kill S buf p w))
     (on_cmd cmd ''exec'' (same (cmd_exec S buf p w))
     (same (shell_puts S (litln ''unknown command'') w))))))))))))))))))))"

section \<open>The main loop\<close>

text \<open>What one turn of the outer loop does with a line; comparing the null pointer with a command has no defined result.\<close>

definition shell_line :: "'w os \<Rightarrow> bytes \<Rightarrow> bytes \<Rightarrow> 'w \<Rightarrow> (bytes \<times> bytes \<times> 'w) option" where
  "shell_line S buf pb w = do {
     buf \<leftarrow> strip_newline buf;
     if buf ! 0 = 0 then do {
       (pb, w) \<leftarrow> prompt S pb w;
       Some (buf, pb, w)
     }
     else do {
       (t, buf, p) \<leftarrow> next_token buf 0;
       start \<leftarrow> t;
       (pb, w) \<leftarrow> run_command S (drop start buf) buf p pb w;
       (pb, w) \<leftarrow> prompt S pb w;
       Some (buf, pb, w)
     }
   }"

definition shell_turn :: "'w os \<Rightarrow> u8 \<Rightarrow> bytes \<times> bytes \<times> 'w \<Rightarrow> (bytes \<times> bytes \<times> 'w) option" where
  "shell_turn S c = (\<lambda>(buf, pb, w). do {
     (buf, w) \<leftarrow> read_line S buf 0 c w;
     shell_line S buf pb w
   })"

definition shell_start :: "'w os \<Rightarrow> bytes \<Rightarrow> bytes \<Rightarrow> 'w \<Rightarrow> (bytes \<times> bytes \<times> 'w) option" where
  "shell_start S buf pb w = do {
     pb \<leftarrow> store pb 0 [0];
     w \<leftarrow> shell_puts S (10 # litln ''Welcome to Quantum Kernel shell'') w;
     w \<leftarrow> shell_puts S (ascii ''Type '' @ [39] @ ascii ''help'' @ [39] @ litln '' for available commands.'') w;
     (pb, w) \<leftarrow> prompt S pb w;
     Some (buf, pb, w)
   }"

text \<open>The shell after so many turns; it never ends by itself.\<close>

fun shell_turns :: "'w os \<Rightarrow> u8 \<Rightarrow> nat \<Rightarrow> bytes \<times> bytes \<times> 'w \<Rightarrow> (bytes \<times> bytes \<times> 'w) option" where
  "shell_turns S c 0 s = Some s"
| "shell_turns S c (Suc n) s = Option.bind (shell_turn S c s) (shell_turns S c n)"

section \<open>The second program\<close>

fun write_blocks :: "'w os \<Rightarrow> bytes list \<Rightarrow> 'w \<Rightarrow> 'w option" where
  "write_blocks S [] w = Some w"
| "write_blocks S (b # bs) w = do {
     (_, _, w) \<leftarrow> os_write S STDOUT b (of_nat (length b)) w;
     write_blocks S bs w
   }"

definition user_printf :: "'w os \<Rightarrow> bytes \<Rightarrow> va_arg list \<Rightarrow> 'w \<Rightarrow> 'w option" where
  "user_printf S fmt args w = do { (ws, _) \<leftarrow> printf fmt args; write_blocks S ws w }"

partial_function (option) hello_loop :: "'w os \<Rightarrow> u32 \<Rightarrow> bytes \<Rightarrow> bytes \<Rightarrow> 'w \<Rightarrow> 'w option" where
  "hello_loop S cwd index e w = do {
     (v, (index, e), w) \<leftarrow> os_readdir S cwd index e w;
     if sint v < 0 then Some w
     else do {
       w \<leftarrow> user_printf S (litln '' - %s  (%d bytes)'') [VStr (Some (take 32 e)), VInt (get32 e 32)] w;
       hello_loop S cwd index e w
     }
   }"

definition hello_start :: "'w os \<Rightarrow> 'w \<Rightarrow> 'w option" where
  "hello_start S w = do {
     w \<leftarrow> user_printf S (litln ''Hello from userspace!'') [] w;
     (cwd, w) \<leftarrow> os_get_cwd_cluster S w;
     w \<leftarrow> user_printf S (litln ''CWD cluster: %d'') [VInt cwd] w;
     w \<leftarrow> user_printf S (litln ''Directory listing:'') [] w;
     w \<leftarrow> hello_loop S cwd (le32 0) (replicate 44 0) w;
     w \<leftarrow> user_printf S (litln ''Done listing.'') [] w;
     (_, w) \<leftarrow> os_sleep_ms S 1000 w;
     (_, w) \<leftarrow> os_exit S w;
     Some w
   }"

end
