(* ===== verification/Shell_Lines.thy ===== *)
theory Shell_Lines
  imports User_Shell
begin

text \<open>
  The lines of the shell.  The tokenizer splits a line at spaces; the line editor is stated over an interface of the
  console (locale \<open>console_os\<close>: keys arrive in order, what is written appears on the screen), which the kernel model
  provides, so that the lemmas hold for the shell on the kernel.
\<close>

section \<open>Tokens\<close>

lemma skip_spaces_spec:
  "is_cstr (drop p s) \<Longrightarrow>
   skip_spaces s p = Some (p + length (takeWhile (\<lambda>c. c = 32) (cstr (drop p s))))"
proof (induction s p rule: skip_spaces.induct)
  case (1 s i)
  then have i: "i < length s" by (cases "i < length s") (auto simp: is_cstr_def)
  then have d: "drop i s = s ! i # drop (Suc i) s" by (simp add: Cons_nth_drop_Suc)
  show ?case
  proof (cases "s ! i = 32")
    case True
    then have "is_cstr (drop (Suc i) s)" using "1.prems" d by (simp add: is_cstr_def)
    with 1 i True show ?thesis by (subst skip_spaces.simps) (simp add: d cstr_def)
  next
    case False
    with i show ?thesis by (subst skip_spaces.simps) (simp add: d cstr_def)
  qed
qed

lemma token_end_spec:
  "is_cstr (drop p s) \<Longrightarrow>
   token_end s p = Some (p + length (takeWhile (\<lambda>c. c \<noteq> 32) (cstr (drop p s))))"
proof (induction s p rule: token_end.induct)
  case (1 s i)
  then have i: "i < length s" by (cases "i < length s") (auto simp: is_cstr_def)
  then have d: "drop i s = s ! i # drop (Suc i) s" by (simp add: Cons_nth_drop_Suc)
  show ?case
  proof (cases "s ! i \<noteq> 0 \<and> s ! i \<noteq> 32")
    case True
    then have "is_cstr (drop (Suc i) s)" using "1.prems" d by (simp add: is_cstr_def)
    with 1 i True show ?thesis by (subst token_end.simps) (simp add: d cstr_def)
  next
    case False
    with i show ?thesis by (subst token_end.simps) (auto simp: d cstr_def)
  qed
qed

lemma cstr_split_at: "cstr b = a @ t \<Longrightarrow> is_cstr b \<Longrightarrow> \<exists>r. b = a @ t @ 0 # r \<and> drop (length a) b = t @ 0 # r"
  using is_cstr_split[of b] by auto

text \<open>The tokenizer: at a position of the line where the text \<open>blanks @ word @ rest\<close> is left (only spaces in
  \<open>blanks\<close>, none in \<open>word\<close>, and \<open>rest\<close> empty or beginning with one), it yields a pointer at which the word alone is
  the string, leaves the part of the line before it as it was, and goes on after the space that ended the word; if no
  word is left it yields the null pointer and the end of the text.\<close>

lemma next_token_splits:
  assumes "is_cstr (drop p s)" and "p \<le> length s" and "cstr (drop p s) = blanks @ word @ rest"
    and "set blanks \<subseteq> {32}" and "32 \<notin> set word" and "rest = [] \<or> hd rest = 32" and "word = [] \<Longrightarrow> rest = []"
  shows "\<exists>s' p'. next_token s p = Some (if word = [] then None else Some (p + length blanks), s', p') \<and>
    length s' = length s \<and> take (p + length blanks) s' = take (p + length blanks) s \<and>
    is_cstr (drop (p + length blanks) s') \<and> cstr (drop (p + length blanks) s') = word \<and>
    is_cstr (drop p' s') \<and> cstr (drop p' s') = tl rest"
proof -
  let ?i = "p + length blanks" let ?e = "?i + length word"
  obtain r where r: "drop p s = blanks @ word @ rest @ 0 # r" using is_cstr_split[OF assms(1)] assms(3) by auto
  have s: "s = take p s @ blanks @ word @ rest @ 0 # r" using append_take_drop_id[of p s] by (simp add: r)
  have di: "drop ?i s = word @ rest @ 0 # r" and de: "drop ?e s = rest @ 0 # r"
    using assms(2) by (subst s, simp)+
  have nz: "0 \<notin> set blanks" "0 \<notin> set word" "0 \<notin> set rest"
    using cstr_no_nul[of "drop p s"] assms(3) by auto
  have ci: "cstr (drop ?i s) = word @ rest" using cstr_append[of "word @ rest" r] nz by (simp add: di)
  have hd_word: "word \<noteq> [] \<Longrightarrow> hd word \<noteq> 32" using assms(5) by (cases word) auto
  have tw: "takeWhile (\<lambda>c. c = 32) (blanks @ word @ rest) = blanks"
    using assms(4,7) hd_word by (subst takeWhile_append2) (cases word; auto)+
  have st: "skip_spaces s p = Some ?i" using skip_spaces_spec[OF assms(1)] by (simp add: assms(3) tw)
  have i: "s ! ?i = (word @ rest @ 0 # r) ! 0" using di by (metis hd_conv_nth hd_drop_conv_nth append_is_Nil_conv drop_eq_Nil2 linorder_not_less list.discI)
  show ?thesis
  proof (cases "word = []")
    case True
    then have "rest = []" by (rule assms(7))
    then have "next_token s p = Some (None, s, ?i)" using st i True by (simp add: next_token_def)
    then show ?thesis using True \<open>rest = []\<close> di cstr_append[of "[]" r] by (auto simp: is_cstr_def)
  next
    case False
    have "s ! ?i \<noteq> 0" using False i nz by (cases word) auto
    moreover have tw2: "takeWhile (\<lambda>c. c \<noteq> 32) (word @ rest) = word"
      using assms(5,6) by (subst takeWhile_append2) (cases rest; auto)+
    have "is_cstr (drop ?i s)" by (simp add: di is_cstr_def)
    then have te: "token_end s ?i = Some ?e" using token_end_spec[of ?i s] by (simp only: ci tw2)
    have se: "s ! ?e = (rest @ 0 # r) ! 0" using de by (metis hd_conv_nth hd_drop_conv_nth append_is_Nil_conv drop_eq_Nil2 linorder_not_less list.discI)
    show ?thesis
    proof (cases rest)
      case Nil
      then have "next_token s p = Some (Some ?i, s, ?e)" using st te se \<open>s ! ?i \<noteq> 0\<close> by (simp add: next_token_def)
      then show ?thesis using False Nil di de ci cstr_append[of "[]" r] by (auto simp: is_cstr_def)
    next
      case (Cons c rest')
      then have c: "c = 32" using assms(6) by simp
      let ?s' = "s[?e := 0]"
      have s': "?s' = take p s @ blanks @ word @ 0 # rest' @ 0 # r"
        using assms(2) by (subst s) (simp add: Cons list_update_append)
      have "next_token s p = Some (Some ?i, ?s', Suc ?e)" using st te se \<open>s ! ?i \<noteq> 0\<close> Cons c by (simp add: next_token_def)
      moreover have "drop ?i ?s' = word @ 0 # rest' @ 0 # r" using assms(2) by (subst s') simp
      moreover have "drop (Suc ?e) ?s' = rest' @ 0 # r" using assms(2) by (subst s') simp
      ultimately show ?thesis using False Cons nz cstr_append[of word] cstr_append[of rest' r] by (auto simp: is_cstr_def)
    qed
  qed
qed

lemma next_token_splits_witness:
  "\<exists>s' p'. next_token (ascii ''rm  A.TXT'' @ [0]) 2 = Some (Some 4, s', p') \<and> cstr (drop 4 s') = ascii ''A.TXT''"
proof -
  let ?s = "ascii ''rm  A.TXT'' @ [0]"
  have d: "drop 2 ?s = (ascii ''  A.TXT'') @ 0 # []" by (simp add: ascii_def)
  have c: "cstr (drop 2 ?s) = [32, 32] @ ascii ''A.TXT'' @ []" unfolding d by (subst cstr_append) (simp_all add: ascii_def)
  have "is_cstr (drop 2 ?s)" unfolding d by simp
  from next_token_splits[OF this _ c] show ?thesis by (auto simp: ascii_def)
qed

section \<open>Editing a line\<close>

text \<open>What a key does to the text of the line and what it shows: a key from 128 on (an arrow) does nothing, backspace
  removes the last character if there is one, and a line of 255 characters takes no more.\<close>

definition edit_key :: "bytes \<Rightarrow> u8 \<Rightarrow> bytes" where
  "edit_key l k = (if \<not> k < 128 then l else if k = 8 then butlast l else if length l < 255 then l @ [k] else l)"

definition echo_key :: "bytes \<Rightarrow> u8 \<Rightarrow> bytes" where
  "echo_key l k = (if \<not> k < 128 then [] else if k = 8 then (if l = [] then [] else [8, 32, 8]) else [k])"

fun edit_keys :: "bytes \<Rightarrow> bytes \<Rightarrow> bytes" where
  "edit_keys l [] = l"
| "edit_keys l (k # ks) = edit_keys (edit_key l k) ks"

fun echo_keys :: "bytes \<Rightarrow> bytes \<Rightarrow> bytes" where
  "echo_keys l [] = []"
| "echo_keys l (k # ks) = echo_key l k @ echo_keys (edit_key l k) ks"

lemma draw_text_append: "draw_text (a @ b) t = Option.bind (draw_text a t) (draw_text b)"
  by (induction a t rule: draw_text.induct) (auto split: Option.bind_splits)

lemma draw_text_then: "draw_text a t = Some t1 \<Longrightarrow> draw_text (a @ b) t = draw_text b t1"
  by (simp add: draw_text_append)

text \<open>The console as the shell uses it: the keys that wait, and the screen.\<close>

locale console_os =
  fixes S :: "'w os" and ok :: "'w \<Rightarrow> bool" and keys :: "'w \<Rightarrow> bytes" and scr :: "'w \<Rightarrow> fb_term"
  assumes read_key: "ok w \<Longrightarrow> keys w = k # ks \<Longrightarrow>
      \<exists>w'. os_read S STDIN [c] 1 w = Some (if k < 128 then 1 else 0, [if k < 128 then k else c], w') \<and>
        ok w' \<and> keys w' = ks \<and> scr w' = scr w"
    and write_text: "ok w \<Longrightarrow> n \<le> length obj \<Longrightarrow> length obj \<le> 256 \<Longrightarrow> list_all (\<lambda>c. c < 128) (take n obj) \<Longrightarrow>
      \<exists>v obj' w'. os_write S STDOUT obj (of_nat n) w = Some (v, obj', w') \<and> ok w' \<and> keys w' = keys w \<and>
        draw_text (take n obj) (scr w) = Some (scr w')"
begin

lemma read_line_edits:
  assumes "ok w" and "keys w = ks @ e # rest" and "e = 10 \<or> e = 13" and "10 \<notin> set ks" and "13 \<notin> set ks"
    and "length buf = 256" and "pos \<le> 255" and "take pos buf = l"
  shows "\<exists>buf' w'. read_line S buf pos c w = Some (buf', w') \<and> length buf' = 256 \<and>
    take (Suc (length (edit_keys l ks))) buf' = edit_keys l ks @ [0] \<and>
    ok w' \<and> keys w' = rest \<and> draw_text (echo_keys l ks @ [e]) (scr w) = Some (scr w')"
  using assms
proof (induction ks arbitrary: buf pos c w l)
  case Nil
  obtain w1 where w1: "os_read S STDIN [c] 1 w = Some (1, [e], w1)" "ok w1" "keys w1 = rest" "scr w1 = scr w"
    using read_key[of w e rest c] Nil by auto
  obtain v o' w2 where w2: "os_write S STDOUT [e] 1 w1 = Some (v, o', w2)" "ok w2" "keys w2 = rest"
      "draw_text [e] (scr w) = Some (scr w2)"
    using write_text[of w1 1 "[e]"] w1 Nil.prems(3) by auto
  have len: "length l = pos" using Nil.prems by auto
  obtain buf' where b: "store buf pos [0] = Some buf'" using Nil.prems by (simp add: store_def)
  have "buf' = take pos buf @ 0 # drop (Suc pos) buf" using b by (auto simp: store_def split: if_splits)
  then have "take (Suc (length l)) buf' = l @ [0]" using Nil.prems len by simp
  moreover have "read_line S buf pos c w = Some (buf', w2)"
    using w1(1) w2(1) b Nil.prems(3) by (subst read_line.simps) auto
  moreover have "length buf' = 256" using store_length[OF b] Nil.prems(6) by simp
  ultimately show ?case using w2 by auto
next
  case (Cons k ks)
  let ?c = "if k < 128 then k else c"
  obtain w1 where w1: "os_read S STDIN [c] 1 w = Some (if k < 128 then 1 else 0, [?c], w1)" "ok w1"
      "keys w1 = ks @ e # rest" "scr w1 = scr w"
    using read_key[of w k "ks @ e # rest" c] Cons.prems by auto
  have len: "length l = pos" using Cons.prems by auto
  have rest: "10 \<notin> set ks" "13 \<notin> set ks" "k \<noteq> 10" "k \<noteq> 13" using Cons.prems by auto
  note IH = Cons.IH[OF _ _ Cons.prems(3) rest(1,2)]
  consider "\<not> k < 128" | "k < 128" "k = 8" "pos = 0" | "k < 128" "k = 8" "pos > 0" | "k < 128" "k \<noteq> 8" by blast
  then show ?case
  proof cases
    case 1
    then have "read_line S buf pos c w = read_line S buf pos c w1" using w1(1) by (subst read_line.simps) simp
    then show ?thesis using IH[OF w1(2,3) Cons.prems(6,7,8), of c] w1(4) 1 by (simp add: edit_key_def echo_key_def)
  next
    case 2
    then have "read_line S buf pos c w = read_line S buf pos 8 w1" using w1(1) by (subst read_line.simps) simp
    then show ?thesis using IH[OF w1(2,3) Cons.prems(6,7,8), of 8] w1(4) 2 len by (simp add: edit_key_def echo_key_def)
  next
    case 3
    obtain v o' w2 where w2: "os_write S STDOUT [8, 32, 8, 0] 3 w1 = Some (v, o', w2)" "ok w2" "keys w2 = ks @ e # rest"
        "draw_text [8, 32, 8] (scr w) = Some (scr w2)"
      using write_text[of w1 3 "[8, 32, 8, 0]"] w1 by auto
    have r: "read_line S buf pos c w = read_line S buf (pos - 1) 8 w2"
      using w1(1) w2(1) 3 by (subst read_line.simps) simp
    have d: "draw_text ([8, 32, 8] @ ys) (scr w) = draw_text ys (scr w2)" for ys by (rule draw_text_then) (rule w2(4))
    have "take (pos - 1) buf = butlast l" using Cons.prems(6,7,8) by (auto simp: butlast_take)
    then show ?thesis
      using IH[OF w2(2,3) Cons.prems(6), of "pos - 1" "butlast l" 8] Cons.prems(7) d 3 len
      by (auto simp: edit_key_def echo_key_def r)
  next
    case 4
    obtain v o' w2 where w2: "os_write S STDOUT [k] 1 w1 = Some (v, o', w2)" "ok w2" "keys w2 = ks @ e # rest"
        "draw_text [k] (scr w) = Some (scr w2)"
      using write_text[of w1 1 "[k]"] w1 4 by auto
    have d: "draw_text ([k] @ ys) (scr w) = draw_text ys (scr w2)" for ys by (rule draw_text_then) (rule w2(4))
    show ?thesis
    proof (cases "pos < 255")
      case True
      obtain buf' where b: "store buf pos [k] = Some buf'" using Cons.prems by (simp add: store_def)
      have "buf' = take pos buf @ k # drop (Suc pos) buf" using b by (auto simp: store_def split: if_splits)
      then have t: "take (pos + 1) buf' = l @ [k]" using Cons.prems(8) len by simp
      have "read_line S buf pos c w = read_line S buf' (pos + 1) k w2"
        using w1(1) w2(1) 4 rest b True by (subst read_line.simps) simp
      moreover have "length buf' = 256" using store_length[OF b] Cons.prems(6) by simp
      ultimately show ?thesis
        using IH[OF w2(2,3) _ _ t, of k] d 4 len True
        by (auto simp: edit_key_def echo_key_def)
    next
      case False
      have "read_line S buf pos c w = read_line S buf pos k w2"
        using w1(1) w2(1) 4 rest False by (subst read_line.simps) simp
      then show ?thesis
        using IH[OF w2(2,3) Cons.prems(6,7,8), of k] d 4 len False
        by (auto simp: edit_key_def echo_key_def)
    qed
  qed
qed

end

section \<open>The console of the kernel\<close>

definition shell_ready :: "('d, 'n, 'c) hardware \<Rightarrow> u32 \<Rightarrow> ('d, 'n, 'c) machine \<Rightarrow> bool" where
  "shell_ready H A m \<longleftrightarrow> kbd_ok (m_kbd m) \<and> console (m_fat m) = [] \<and> user_buffer (hw_owned H) (m_vm m) A 256"

lemma user_buffer_less: "user_buffer owned v a n \<Longrightarrow> k \<le> n \<Longrightarrow> user_buffer owned v a k"
  by (auto simp: user_buffer_def intro: inj_on_subset)

lemma vread_take: "vread owned n a v = Some bs \<Longrightarrow> k \<le> n \<Longrightarrow> vread owned k a v = Some (take k bs)"
proof (induction n arbitrary: a bs k)
  case (Suc n)
  then show ?case by (cases k) (auto simp: bind_eq_Some_conv)
qed simp

lemma draw_text_ascii: "list_all (\<lambda>c. c < 128) cs \<Longrightarrow> \<exists>t'. draw_text cs t = Some t'"
proof (induction cs arbitrary: t)
  case (Cons c cs)
  have "draw_char d x y s \<noteq> None" if "d < 128" for d x y s
    using that by (simp add: draw_char_def length_font word_less_nat_alt)
  then obtain t1 where "term_putc c t = Some t1"
    using Cons.prems by (fastforce simp: term_putc_def Let_def)
  with Cons show ?case by simp
qed simp

lemma machine_vm [simp]:
  "m_vm (m_puts x m) = m_vm m" "m_vm (set_fat fs m) = m_vm m" "m_vm (m\<lparr>m_screen := t\<rparr>) = m_vm m" "m_vm (m\<lparr>m_kbd := k\<rparr>) = m_vm m"
  by (simp_all add: m_puts_def set_fat_def)

lemma u_write_ready:
  assumes "shell_ready H A m" and "length bs \<le> 256"
  shows "\<exists>m'. u_write H A bs m = Some m' \<and> u_read H (length bs) A m' = Some bs \<and> shell_ready H A m' \<and>
    m_kbd m' = m_kbd m \<and> m_screen m' = m_screen m"
proof -
  have "user_buffer (hw_owned H) (m_vm m) A (length bs)"
    using assms by (auto simp: shell_ready_def intro: user_buffer_less)
  from vwrite_user[OF this] obtain v where v: "vwrite (hw_owned H) A bs (m_vm m) = Some v"
    "vread (hw_owned H) (length bs) A v = Some bs" "written_cells (m_vm m) v (user_cells (m_vm m) A (length bs))" by blast
  let ?m = "set_kernel (set_vm v (m_kernel m)) m"
  have vm: "m_vm ?m = v" by (simp add: set_kernel_def set_vm_def)
  have "user_buffer (hw_owned H) v A 256 = user_buffer (hw_owned H) (m_vm m) A 256"
    using v(3) by (intro user_buffer_cong) (simp_all add: written_cells_def)
  then have "shell_ready H A ?m" using assms(1) vm by (simp add: shell_ready_def set_kernel_def set_vm_def)
  then show ?thesis using v(1,2) vm by (intro exI[of _ ?m]) (simp add: u_write_def u_read_def set_kernel_def)
qed

lemma kernel_read_key:
  assumes "shell_ready H A m" and "kbd_list (m_kbd m) = k # ks"
  shows "\<exists>m'. os_read (kernel_os H r A) STDIN [c] 1 m = Some (if k < 128 then 1 else 0, [if k < 128 then k else c], m') \<and>
    shell_ready H A m' \<and> kbd_list (m_kbd m') = ks \<and> m_screen m' = m_screen m"
proof -
  obtain m1 where m1: "u_write H A [c] m = Some m1" "u_read H 1 A m1 = Some [c]" "shell_ready H A m1" "m_kbd m1 = m_kbd m"
      "m_screen m1 = m_screen m"
    using u_write_ready[OF assms(1), of "[c]"] by auto
  have pop: "fst (kbd_pop (m_kbd m)) = sint k" "kbd_list (snd (kbd_pop (m_kbd m))) = ks" "kbd_ok (snd (kbd_pop (m_kbd m)))"
  proof -
    have "kbd_ok (m_kbd m)" using assms(1) by (simp add: shell_ready_def)
    then show "fst (kbd_pop (m_kbd m)) = sint k" "kbd_list (snd (kbd_pop (m_kbd m))) = ks" "kbd_ok (snd (kbd_pop (m_kbd m)))"
      by (cases rule: kbd_pop_cases; use assms(2) in simp)+
  qed
  let ?m2 = "m1\<lparr>m_kbd := snd (kbd_pop (m_kbd m))\<rparr>"
  have r2: "shell_ready H A ?m2" using m1(3) pop(3) by (simp add: shell_ready_def)
  have idle: "draw_console x = Some x" if "shell_ready H A x" for x
    using that by (simp add: draw_console_def shell_ready_def set_fat_def)
  have disp: "syscall_dispatch H (trap r (user_read 0 A 1)) m1 =
      Option.bind (sys_read_loop H A 1 0 m1) (\<lambda>(i, x). Option.bind (draw_console x)
        (\<lambda>y. Some (Sys_Returns, (trap r (user_read 0 A 1))\<lparr>r_eax := i\<rparr>, y)))"
    by (simp add: syscall_dispatch_def sys_case_def trap_def user_read_def user_numbers syscall_numbers sys_read_def ret_def
        split: Option.bind_splits)
  show ?thesis
  proof (cases "k < 128")
    case False
    then have "sys_read_loop H A 1 0 m1 = Some (0, ?m2)" using pop(1) m1(4) by (simp add: split_beta Let_def sint_u8_sign One_nat_def)
    moreover have "u_read H 1 A ?m2 = Some [c]" using m1(2) by (simp add: u_read_def)
    ultimately show ?thesis using False r2 pop(2) m1 disp idle[OF r2]
      by (intro exI[of _ ?m2]) (simp add: kernel_os_def with_object_def user_syscall_def STDIN_def)
  next
    case True
    obtain m3 where m3: "u_write H A [k] ?m2 = Some m3" "u_read H 1 A m3 = Some [k]" "shell_ready H A m3"
        "m_kbd m3 = m_kbd ?m2" "m_screen m3 = m_screen ?m2"
      using u_write_ready[OF r2, of "[k]"] by auto
    have "sys_read_loop H A 1 0 m1 = Some (1, m3)"
      using pop(1) m1(4) True m3(1) by (simp add: split_beta Let_def sint_u8_sign One_nat_def)
    then show ?thesis using True m3 pop(2) m1 disp idle[OF m3(3)]
      by (intro exI[of _ m3]) (simp add: kernel_os_def with_object_def user_syscall_def STDIN_def)
  qed
qed

lemma kernel_write_text:
  assumes "shell_ready H A m" and "n \<le> length obj" and "length obj \<le> 256" and "list_all (\<lambda>c. c < 128) (take n obj)"
  shows "\<exists>v obj' m'. os_write (kernel_os H r A) STDOUT obj (of_nat n) m = Some (v, obj', m') \<and> shell_ready H A m' \<and>
    kbd_list (m_kbd m') = kbd_list (m_kbd m) \<and> draw_text (take n obj) (m_screen m) = Some (m_screen m')"
proof -
  obtain m1 where m1: "u_write H A obj m = Some m1" "u_read H (length obj) A m1 = Some obj" "shell_ready H A m1"
      "m_kbd m1 = m_kbd m" "m_screen m1 = m_screen m"
    using u_write_ready[OF assms(1,3)] by auto
  have rd: "u_read H n A m1 = Some (take n obj)" using vread_take[OF _ assms(2)] m1(2) by (simp add: u_read_def)
  obtain t where t: "draw_text (take n obj) (m_screen m) = Some t" using draw_text_ascii[OF assms(4)] by blast
  define m2 where "m2 = set_fat ((m_fat (m_puts (take n obj) m1))\<lparr>console := []\<rparr>) ((m_puts (take n obj) m1)\<lparr>m_screen := t\<rparr>)"
  have con: "console (m_fat m1) = []" using m1(3) by (simp add: shell_ready_def)
  have dr: "draw_console (m_puts (take n obj) m1) = Some m2"
    using t con m1(5) by (simp add: draw_console_def m2_def m_puts_def k_puts_def fat_puts_def)
  have u: "unat (of_nat n :: u32) = n" using assms(2,3) by (intro unat_of_nat_u32) simp
  have vm: "m_vm m2 = m_vm m1" "m_kbd m2 = m_kbd m1" "m_screen m2 = t" "console (m_fat m2) = []"
    by (simp_all add: m2_def set_fat_def m_puts_def)
  have "user_syscall H r (user_write STDOUT A (of_nat n)) m1 = Some (of_nat n, m2)"
    using rd dr u by (simp add: user_syscall_def syscall_dispatch_def sys_case_def trap_def user_write_def user_numbers
        syscall_numbers sys_write_def STDOUT_def ret_def)
  moreover have "u_read H (length obj) A m2 = Some obj" using m1(2) by (simp add: u_read_def vm)
  moreover have "shell_ready H A m2" using m1(3) by (simp add: shell_ready_def vm)
  ultimately show ?thesis using m1 vm t by (simp add: kernel_os_def with_object_def)
qed

interpretation kernel_console: console_os "kernel_os H r A" "shell_ready H A" "\<lambda>m. kbd_list (m_kbd m)" m_screen for H r A
  by unfold_locales (use kernel_read_key kernel_write_text in blast)+

text \<open>C17. A line typed at the shell, on the kernel: if the keys up to a line end wait in the keyboard buffer, the inner
  loop of the shell ends with the edited line, terminated, at the beginning of its array, takes exactly those keys, and
  the screen shows their echo.  Arrow keys are ignored, and backspace removes a character only if there is one.\<close>

theorem shell_reads_typed_line:
  assumes "shell_ready H A m" and "kbd_list (m_kbd m) = ks @ e # rest" and "e = 10 \<or> e = 13"
    and "10 \<notin> set ks" and "13 \<notin> set ks" and "length buf = 256"
  shows "\<exists>buf' m'. read_line (kernel_os H r A) buf 0 c m = Some (buf', m') \<and> length buf' = 256 \<and>
    take (Suc (length (edit_keys [] ks))) buf' = edit_keys [] ks @ [0] \<and> shell_ready H A m' \<and>
    kbd_list (m_kbd m') = rest \<and> draw_text (echo_keys [] ks @ [e]) (m_screen m) = Some (m_screen m')"
  using kernel_console.read_line_edits[OF assms, of 0 "[]"] by simp

text \<open>The keys l, x, backspace, s, arrow up, enter are waiting.\<close>

definition demo_line :: kbd_state where
  "demo_line = kbd_push 10 (kbd_push KEY_UP (kbd_push 0x73 (kbd_push 8 (kbd_push 0x78 (kbd_push 0x6C kbd_init)))))"

lemma demo_line_queue: "kbd_ok demo_line" "kbd_list demo_line = [0x6C, 0x78, 8, 0x73, KEY_UP, 10]"
proof -
  have i: "kbd_ok kbd_init" "kbd_list kbd_init = []" by (simp_all add: kbd_init_def kbd_ok_def kbd_list_def kbd_fill_def)
  then show "kbd_ok demo_line" "kbd_list demo_line = [0x6C, 0x78, 8, 0x73, KEY_UP, 10]"
    by (simp_all add: demo_line_def kbd_push_ok kbd_list_push del: length_kbd_list)
qed

theorem shell_reads_typed_line_witness:
  "\<exists>buf' m'. read_line (kernel_os demo_hw (call 0 0 0 0) 0x600000) (replicate 256 0) 0 0 (demo_machine\<lparr>m_kbd := demo_line\<rparr>) = Some (buf', m') \<and>
    take 3 buf' = ascii ''ls'' @ [0] \<and> kbd_list (m_kbd m') = []"
proof -
  let ?m = "demo_machine\<lparr>m_kbd := demo_line\<rparr>" let ?ks = "[0x6C, 0x78, 8, 0x73, KEY_UP]"
  have "user_buffer (hw_owned demo_hw) (m_vm ?m) 0x600000 256" by (rule demo_buffer) simp
  moreover have "console (m_fat ?m) = []" using demo_console by simp
  ultimately have r: "shell_ready demo_hw 0x600000 ?m" using demo_line_queue(1) by (simp add: shell_ready_def)
  have "kbd_list (m_kbd ?m) = ?ks @ 10 # []" using demo_line_queue(2) by simp
  moreover have "edit_keys [] ?ks = ascii ''ls''" by (simp add: edit_key_def KEY_UP_def ascii_def)
  ultimately show ?thesis
    using shell_reads_typed_line[OF r, of ?ks 10 "[]" "replicate 256 0" "call 0 0 0 0" 0]
    by (auto simp: KEY_UP_def numeral_3_eq_3 ascii_def)
qed

section \<open>A command\<close>

lemma strip_newline_none:
  assumes "is_cstr s" and "cstr s = [] \<or> last (cstr s) \<noteq> 10 \<and> last (cstr s) \<noteq> 13"
  shows "strip_newline s = Some s"
proof (cases "cstr s" rule: rev_cases)
  case Nil
  then show ?thesis using strlen_cstr[OF assms(1)] by (simp add: strip_newline_def user_strlen_eq)
next
  case (snoc t c)
  obtain r where "s = cstr s @ 0 # r" using is_cstr_split[OF assms(1)] by blast
  then have "s ! length t = c" by (metis nth_append_length snoc append.assoc append_Cons)
  then show ?thesis using strlen_cstr[OF assms(1)] assms(2) snoc by (simp add: strip_newline_def user_strlen_eq)
qed

lemma on_cmd_spec: "is_cstr cmd \<Longrightarrow> on_cmd cmd t yes no = (if cstr cmd = cstr (lit t) then yes else no)"
  using strcmp_spec[of cmd "lit t"] by (auto simp: on_cmd_def user_strcmp_eq lit_def)

lemma cstr_lit: "0 \<notin> set (ascii t) \<Longrightarrow> cstr (lit t) = ascii t"
  by (simp add: lit_def cstr_append)

lemma first_char: "is_cstr s \<Longrightarrow> cstr s \<noteq> [] \<Longrightarrow> s ! 0 \<noteq> 0"
  by (cases s) (auto simp: cstr_def is_cstr_def)

text \<open>The first word of a line.\<close>

lemma shell_line_word:
  assumes "is_cstr buf" and "cstr buf = b0 @ word @ rest" and "set b0 \<subseteq> {32}" and "32 \<notin> set word" and "word \<noteq> []"
    and "rest = [] \<or> hd rest = 32" and "last (cstr buf) \<noteq> 10" and "last (cstr buf) \<noteq> 13"
  shows "\<exists>cmd buf' p. is_cstr cmd \<and> cstr cmd = word \<and> is_cstr (drop p buf') \<and> p \<le> length buf' \<and> cstr (drop p buf') = tl rest \<and>
    shell_line S buf pb w = do {
      (pb, w) \<leftarrow> run_command S cmd buf' p pb w;
      (pb, w) \<leftarrow> prompt S pb w;
      Some (buf', pb, w)
    }"
proof -
  have st: "strip_newline buf = Some buf" using strip_newline_none[OF assms(1)] assms(7,8) by simp
  have nz: "buf ! 0 \<noteq> 0" using first_char[OF assms(1)] assms(2,5) by simp
  have "is_cstr (drop 0 buf)" "cstr (drop 0 buf) = b0 @ word @ rest" using assms(1,2) by simp_all
  from next_token_splits[OF this(1) _ this(2) assms(3,4,6)] assms(5) obtain buf' p where
    "next_token buf 0 = Some (Some (length b0), buf', p)" "is_cstr (drop (length b0) buf')" "cstr (drop (length b0) buf') = word"
    "is_cstr (drop p buf')" "cstr (drop p buf') = tl rest" by auto
  moreover from this(4) have "p \<le> length buf'" by (cases "p \<le> length buf'") (auto simp: is_cstr_def)
  ultimately show ?thesis
    by (intro exI[of _ "drop (length b0) buf'"] exI[of _ buf'] exI[of _ p]) (simp add: shell_line_def st nz)
qed

lemma skip_blanks:
  assumes "is_cstr (drop p s)" and "cstr (drop p s) = blanks @ body" and "set blanks \<subseteq> {32}" and "body \<noteq> []" and "hd body \<noteq> 32"
  shows "skip_spaces s p = Some (p + length blanks) \<and> is_cstr (drop (p + length blanks) s) \<and> cstr (drop (p + length blanks) s) = body \<and>
    s ! (p + length blanks) \<noteq> 0"
proof -
  have tw: "takeWhile (\<lambda>c. c = 32) (blanks @ body) = blanks"
    using assms(3-5) by (subst takeWhile_append2) (cases body; auto)+
  obtain r where r: "drop p s = blanks @ body @ 0 # r" using is_cstr_split[OF assms(1)] assms(2) by auto
  have d: "drop (p + length blanks) s = body @ 0 # r"
    using arg_cong[OF r, of "drop (length blanks)"] by (simp add: add.commute)
  have nz: "0 \<notin> set body" using cstr_no_nul[of "drop p s"] assms(2) by auto
  have c: "cstr (drop (p + length blanks) s) = body" using cstr_append[OF nz, of r] by (simp only: d)
  have "drop (p + length blanks) s ! 0 \<noteq> 0" using assms(4) nz by (cases body) (auto simp: d)
  moreover have "p + length blanks \<le> length s" using d by (cases "p + length blanks \<le> length s") auto
  ultimately have "s ! (p + length blanks) \<noteq> 0" by simp
  then show ?thesis using skip_spaces_spec[OF assms(1)] c d by (simp add: assms(2) tw is_cstr_def)
qed

lemma bind_map_Pair: "Option.bind (map_option (Pair a) x) f = Option.bind x (\<lambda>w. f (a, w))"
  by (cases x) auto

text \<open>C6. The command \<open>write\<close>: for a line made of the word, a file name without spaces and a text, with any number of
  spaces before and between, the shell opens that file for writing, creating and truncating it, writes exactly the text and
  a line end through the descriptor, closes it and prompts again; if the file cannot be opened it only says so.\<close>

theorem shell_write_command:
  assumes "is_cstr buf" and "cstr buf = b0 @ ascii ''write'' @ 32 # b1 @ f @ 32 # b2 @ body"
    and "set (b0 @ b1 @ b2) \<subseteq> {32}" and "f \<noteq> []" and "32 \<notin> set f" and "body \<noteq> []" and "hd body \<noteq> 32"
    and "last body \<noteq> 10" and "last body \<noteq> 13"
  shows "\<exists>path txt buf'. is_cstr path \<and> cstr path = f \<and> is_cstr txt \<and> cstr txt = body \<and>
    shell_line S buf pb w = do {
      (fd, _, w) \<leftarrow> os_open S path 0x0E w;
      w \<leftarrow> (if sint fd < 0 then shell_puts S (litln ''open failed'') w
            else do {
              (_, _, w) \<leftarrow> os_file_write S fd txt (of_nat (length body)) w;
              (_, _, w) \<leftarrow> os_file_write S fd [10, 0] 1 w;
              (_, w) \<leftarrow> os_close S fd w;
              shell_puts S (litln ''ok'') w
            });
      (pb, w) \<leftarrow> prompt S pb w;
      Some (buf', pb, w)
    }"
proof -
  let ?rest = "32 # b1 @ f @ 32 # b2 @ body"
  have w: "32 \<notin> set (ascii ''write'')" "ascii ''write'' \<noteq> []" by (simp_all add: ascii_def)
  have l: "last (cstr buf) = last body" using assms(2,6) by simp
  have W: "set b0 \<subseteq> {32}" "?rest = [] \<or> hd ?rest = 32" "last (cstr buf) \<noteq> 10" "last (cstr buf) \<noteq> 13"
    using assms(3,8,9) l by auto
  note W = shell_line_word[OF assms(1,2) W(1) w W(2-4), of S pb w]
  obtain cmd buf1 p where 1: "is_cstr cmd" "cstr cmd = ascii ''write''" "is_cstr (drop p buf1)" "p \<le> length buf1"
      "cstr (drop p buf1) = b1 @ f @ 32 # b2 @ body"
      "shell_line S buf pb w = do {
        (pb, w) \<leftarrow> run_command S cmd buf1 p pb w;
        (pb, w) \<leftarrow> prompt S pb w;
        Some (buf1, pb, w)
      }"
    using W by (elim exE conjE) (simp only: list.sel)
  obtain buf2 p2 where 2: "next_token buf1 p = Some (Some (p + length b1), buf2, p2)" "is_cstr (drop (p + length b1) buf2)"
      "cstr (drop (p + length b1) buf2) = f" "is_cstr (drop p2 buf2)" "cstr (drop p2 buf2) = b2 @ body"
    using next_token_splits[OF 1(3,4,5)] assms(3,4,5) by auto
  note 3 = skip_blanks[OF 2(4,5) _ assms(6,7)]
  have sp: "skip_spaces buf2 p2 = Some (p2 + length b2)" "is_cstr (drop (p2 + length b2) buf2)"
      "cstr (drop (p2 + length b2) buf2) = body" "buf2 ! (p2 + length b2) \<noteq> 0"
    using 3 assms(3) by auto
  have z: "0 \<notin> set (ascii t)" if "t \<in> {''help'', ''clear'', ''reboot'', ''poweroff'', ''shutdown'', ''halt'', ''cat'', ''write''}" for t
    using that by (auto simp: ascii_def)
  have r: "run_command S cmd buf1 p pb w = map_option (Pair pb) (cmd_write S buf1 p w)"
    using 1(1,2) z by (simp add: run_command_def on_cmd_spec cstr_lit Let_def) (simp add: ascii_def)
  have n: "user_strlen (drop (p2 + length b2) buf2) = Some (length body)" using strlen_cstr[OF sp(2)] sp(3) by (simp add: user_strlen_eq)
  have fl: "O_WRONLY OR O_CREAT OR O_TRUNC = 0x0E" by (simp add: O_WRONLY_def O_CREAT_def O_TRUNC_def)
  let ?path = "drop (p + length b1) buf2" and ?txt = "drop (p2 + length b2) buf2"
  have c: "cmd_write S buf1 p w = do {
      (fd, _, w) \<leftarrow> os_open S ?path 0x0E w;
      if sint fd < 0 then shell_puts S (litln ''open failed'') w else write_text S fd ?txt w
    }"
    using sp(1,4) by (simp add: cmd_write_def with_token_def 2(1) fl)
  have wt: "write_text S fd ?txt w = do {
      (_, _, w) \<leftarrow> os_file_write S fd ?txt (of_nat (length body)) w;
      (_, _, w) \<leftarrow> os_file_write S fd [10, 0] 1 w;
      (_, w) \<leftarrow> os_close S fd w;
      shell_puts S (litln ''ok'') w
    }" for fd w
    by (simp add: write_text_def n)
  have L: "shell_line S buf pb w = do {
      (fd, _, w) \<leftarrow> os_open S ?path 0x0E w;
      w \<leftarrow> (if sint fd < 0 then shell_puts S (litln ''open failed'') w else write_text S fd ?txt w);
      (pb, w) \<leftarrow> prompt S pb w;
      Some (buf1, pb, w)
    }"
    by (cases "os_open S ?path 0x0E w") (simp_all add: 1(6) r c case_prod_beta bind_map_Pair)
  show ?thesis
    by (rule exI[of _ ?path], rule exI[of _ ?txt], rule exI[of _ buf1], unfold L wt) (simp add: 2(2,3) sp(2,3))
qed

theorem shell_write_command_witness:
  "\<exists>path txt buf'. cstr path = ascii ''A.TXT'' \<and> cstr txt = ascii ''hi there'' \<and>
    shell_line (kernel_os demo_hw (call 0 0 0 0) 0x600000) (lit ''write  A.TXT hi there'') (replicate 128 0) demo_machine = do {
      (fd, _, w) \<leftarrow> os_open (kernel_os demo_hw (call 0 0 0 0) 0x600000) path 0x0E demo_machine;
      w \<leftarrow> (if sint fd < 0 then shell_puts (kernel_os demo_hw (call 0 0 0 0) 0x600000) (litln ''open failed'') w
            else do {
              (_, _, w) \<leftarrow> os_file_write (kernel_os demo_hw (call 0 0 0 0) 0x600000) fd txt 8 w;
              (_, _, w) \<leftarrow> os_file_write (kernel_os demo_hw (call 0 0 0 0) 0x600000) fd [10, 0] 1 w;
              (_, w) \<leftarrow> os_close (kernel_os demo_hw (call 0 0 0 0) 0x600000) fd w;
              shell_puts (kernel_os demo_hw (call 0 0 0 0) 0x600000) (litln ''ok'') w
            });
      (pb, w) \<leftarrow> prompt (kernel_os demo_hw (call 0 0 0 0) 0x600000) (replicate 128 0) w;
      Some (buf', pb, w)
    }"
proof -
  have l: "lit ''write  A.TXT hi there'' = ([] @ ascii ''write'' @ 32 # [32] @ ascii ''A.TXT'' @ 32 # [] @ ascii ''hi there'') @ 0 # []"
    by (simp add: lit_def ascii_def)
  have c: "cstr (lit ''write  A.TXT hi there'') = [] @ ascii ''write'' @ 32 # [32] @ ascii ''A.TXT'' @ 32 # [] @ ascii ''hi there''"
    unfolding l by (rule cstr_append) (simp add: ascii_def)
  have i: "is_cstr (lit ''write  A.TXT hi there'')" by (simp add: lit_def is_cstr_def)
  have n: "of_nat (length (ascii ''hi there'')) = (8 :: u32)" by (simp add: ascii_def)
  from shell_write_command[OF i c, of "kernel_os demo_hw (call 0 0 0 0) 0x600000" "replicate 128 0" demo_machine]
  show ?thesis unfolding n by (auto simp: ascii_def)
qed

end
