(* ===== verification/Boot.thy ===== *)
theory Boot
  imports Syscalls Interrupts Mouse_Timer Pci
begin

text \<open>
  Starting the kernel: \<open>src/kernel/kernel.c\<close>, \<open>src/kernel/steps.c\<close> and \<open>src/kernel/init.c\<close>, which put the components
  together.  \<open>boot_state\<close> is the machine with what only the start uses; \<open>boot_env\<close> holds the addresses the linker gives
  the assembly routines and the static objects, and the ports below.  \<open>kernel_main\<close> is cut into the groups of its steps,
  in their order.  Interrupts that come between \<open>sti\<close> and the first task switch are not followed.
\<close>

section \<open>The boot loader's information\<close>

record multiboot_info =
  mb_flags :: u32
  mb_mem_lower :: u32
  mb_mem_upper :: u32
  mb_framebuffer_addr :: "64 word"
  mb_framebuffer_pitch :: u32
  mb_framebuffer_width :: u32
  mb_framebuffer_height :: u32
  mb_framebuffer_bpp :: u8
  mb_framebuffer_type :: u8

text \<open>The fields the kernel reads, at their offsets in the packed structure of 112 bytes.\<close>

definition multiboot_of_bytes :: "bytes \<Rightarrow> multiboot_info" where
  "multiboot_of_bytes b =
     \<lparr>mb_flags = get32 b 0, mb_mem_lower = get32 b 4, mb_mem_upper = get32 b 8,
      mb_framebuffer_addr = ucast (get32 b 88) OR push_bit 32 (ucast (get32 b 92)),
      mb_framebuffer_pitch = get32 b 96, mb_framebuffer_width = get32 b 100, mb_framebuffer_height = get32 b 104,
      mb_framebuffer_bpp = get8 b 108, mb_framebuffer_type = get8 b 109\<rparr>"

section \<open>State\<close>

record ('d, 'n, 'c) boot_env =
  be_hw :: "('d, 'n, 'c) hardware"
  be_ata :: "'d port_ops"
  be_isr :: "nat \<Rightarrow> u32"
  be_irq :: "nat \<Rightarrow> u32"
  be_irq10_handler :: u32
  be_syscall_handler :: u32
  be_tss :: u32
  be_stack_top :: u32
  be_page_directory :: u32
  be_page_tables :: u32
  be_kernel_task :: u32
  be_task_exit :: u32
  be_init_process :: u32

record ('d, 'n, 'c) boot_state =
  bs_m :: "('d, 'n, 'c) machine"
  bs_gdt :: "gdt_entry list"
  bs_tss :: tss_entry
  bs_idt :: "idt_entry list"
  bs_devices :: "pci_device_t list"
  bs_frequency :: u32
  bs_mouse :: mouse_state
  bs_if :: bool

text \<open>How \<open>kernel_main\<close> ends: the processor is halted for good, or another task continues.\<close>

datatype boot_outcome = Boot_Halted | Boot_Switch u32 u32

definition on_m :: "(('d, 'n, 'c) machine \<Rightarrow> ('d, 'n, 'c) machine option) \<Rightarrow> ('d, 'n, 'c) boot_state \<Rightarrow> ('d, 'n, 'c) boot_state option" where
  "on_m f s = map_option (\<lambda>m. s\<lparr>bs_m := m\<rparr>) (f (bs_m s))"

definition set_vm_m :: "paging_state \<Rightarrow> ('d, 'n, 'c) machine \<Rightarrow> ('d, 'n, 'c) machine" where
  "set_vm_m v m = set_kernel (set_vm v (m_kernel m)) m"

text \<open>Text printed at once, after what the components printed before.\<close>

definition b_puts :: "bytes \<Rightarrow> ('d, 'n, 'c) boot_state \<Rightarrow> ('d, 'n, 'c) boot_state option" where
  "b_puts txt = on_m (\<lambda>m. draw_console (m_puts txt m))"

definition b_screen :: "(fb_term \<Rightarrow> fb_term) \<Rightarrow> ('d, 'n, 'c) boot_state \<Rightarrow> ('d, 'n, 'c) boot_state" where
  "b_screen f s = s\<lparr>bs_m := (bs_m s)\<lparr>m_screen := f (m_screen (bs_m s))\<rparr>\<rparr>"

section \<open>Steps\<close>

definition boot_step :: "string \<Rightarrow> ('d, 'n, 'c) boot_state \<Rightarrow> ('d, 'n, 'c) boot_state option" where
  "boot_step name s = do {
     s \<leftarrow> b_puts (ascii ''-> '') s;
     s \<leftarrow> b_puts (ascii name) s;
     b_puts (replicate (nat (30 - int (length name))) 32) s
   }"

definition boot_ok :: "('d, 'n, 'c) boot_state \<Rightarrow> ('d, 'n, 'c) boot_state option" where
  "boot_ok s = do {
     s \<leftarrow> b_puts [] s;
     s \<leftarrow> b_puts (ascii ''[ OK ]'' @ [10]) (b_screen (term_set_color TERM_COLOR_OK) s);
     Some (b_screen term_reset_color s)
   }"

text \<open>\<open>boot_fail\<close> does not return.\<close>

definition boot_fail :: "('d, 'n, 'c) boot_state \<Rightarrow> (boot_outcome \<times> ('d, 'n, 'c) boot_state) option" where
  "boot_fail s = do {
     s \<leftarrow> b_puts [] s;
     s \<leftarrow> b_puts (ascii ''[ FAIL ]'' @ [10]) (b_screen (term_set_color TERM_COLOR_FAIL) s);
     s \<leftarrow> b_puts (ascii ''kernel panic: fatal error'' @ [10]) (b_screen term_reset_color s);
     Some (Boot_Halted, s\<lparr>bs_if := False\<rparr>)
   }"

definition with_step :: "string \<Rightarrow> (('d, 'n, 'c) boot_state \<Rightarrow> ('d, 'n, 'c) boot_state option) \<Rightarrow>
    ('d, 'n, 'c) boot_state \<Rightarrow> ('d, 'n, 'c) boot_state option" where
  "with_step name f s = do { s \<leftarrow> boot_step name s; s \<leftarrow> f s; boot_ok s }"

section \<open>The groups of steps\<close>

definition boot_screen :: "multiboot_info \<Rightarrow> ('d, 'n, 'c) boot_state \<Rightarrow> ('d, 'n, 'c) boot_state option" where
  "boot_screen mbi s =
     (let fb_ok = (mb_flags mbi AND push_bit 12 1 \<noteq> 0 \<and> mb_framebuffer_type mbi = 1 \<and>
            (mb_framebuffer_bpp mbi = 24 \<or> mb_framebuffer_bpp mbi = 32) \<and>
            mb_framebuffer_addr mbi \<noteq> 0 \<and> mb_framebuffer_pitch mbi \<noteq> 0);
          s = (if fb_ok then b_screen (term_init_fb (ucast (mb_framebuffer_addr mbi)) (mb_framebuffer_width mbi)
                 (mb_framebuffer_height mbi) (mb_framebuffer_pitch mbi) (ucast (mb_framebuffer_bpp mbi))) s
               else b_screen term_init s)
      in b_puts (ascii ''QuantumKernel booting...'' @ [10, 10]) s)"

definition boot_gdt :: "('d, 'n, 'c) boot_state \<Rightarrow> ('d, 'n, 'c) boot_state option" where
  "boot_gdt s = map_option (\<lambda>g. s\<lparr>bs_gdt := g\<rparr>) (gdt_init (bs_gdt s))"

definition boot_tss :: "('d, 'n, 'c) boot_env \<Rightarrow> ('d, 'n, 'c) boot_state \<Rightarrow> ('d, 'n, 'c) boot_state option" where
  "boot_tss E s = map_option (\<lambda>(t, g). s\<lparr>bs_tss := t, bs_gdt := g\<rparr>) (tss_init (be_tss E) (be_stack_top E) (bs_gdt s))"

definition boot_memory_size :: "multiboot_info \<Rightarrow> u32" where
  "boot_memory_size mbi = (if mb_flags mbi AND push_bit 0 1 \<noteq> 0 then mb_mem_upper mbi * 1024 else 0x10000000)"

definition boot_heap :: "multiboot_info \<Rightarrow> ('d, 'n, 'c) boot_state \<Rightarrow> ('d, 'n, 'c) boot_state option" where
  "boot_heap mbi = on_m (\<lambda>m. Some (set_vm_m ((m_vm m)\<lparr>mem := memory_init (boot_memory_size mbi) (mem (m_vm m))\<rparr>) m))"

definition boot_paging_on :: "('d, 'n, 'c) boot_env \<Rightarrow> ('d, 'n, 'c) boot_state \<Rightarrow> ('d, 'n, 'c) boot_state option" where
  "boot_paging_on E = on_m (\<lambda>m. map_option (\<lambda>v. set_vm_m v m) (paging_init (be_page_directory E) (be_page_tables E) (m_vm m)))"

definition boot_cpu :: "('d, 'n, 'c) boot_env \<Rightarrow> multiboot_info \<Rightarrow> ('d, 'n, 'c) boot_state \<Rightarrow> ('d, 'n, 'c) boot_state option" where
  "boot_cpu E mbi s = do {
     s \<leftarrow> with_step ''gdt'' boot_gdt s;
     s \<leftarrow> with_step ''tss'' (boot_tss E) s;
     s \<leftarrow> with_step ''memory'' (boot_heap mbi) s;
     s \<leftarrow> with_step ''paging'' (boot_paging_on E) s;
     s \<leftarrow> with_step ''pic'' (on_m (\<lambda>m. Some (m\<lparr>m_io := pic_remap (hw_io (be_hw E)) (m_io m)\<rparr>))) s;
     with_step ''idt'' (\<lambda>s. Some (s\<lparr>bs_idt := idt_init (be_isr E) (be_irq E) (bs_idt s)\<rparr>)) s
   }"

text \<open>The disk; the result is that of \<open>ata_identify\<close>.\<close>

definition boot_disk :: "('d, 'n, 'c) boot_env \<Rightarrow> ('d, 'n, 'c) boot_state \<Rightarrow> (ata_error \<times> ('d, 'n, 'c) boot_state) option" where
  "boot_disk E s = do {
     s \<leftarrow> boot_step ''ata'' s;
     let m = bs_m s;
     let (err, d) = ata_identify (be_ata E) (ata_init (be_ata E) (disk (m_fat m)));
     Some (err, s\<lparr>bs_m := set_fat ((m_fat m)\<lparr>disk := d\<rparr>) m\<rparr>)
   }"

definition boot_files :: "('d, 'n, 'c) boot_env \<Rightarrow> ('d, 'n, 'c) boot_state \<Rightarrow> ('d, 'n, 'c) boot_state option" where
  "boot_files E s = do {
     s \<leftarrow> with_step ''fat32'' (on_m (\<lambda>m. do {
       let (_, fs) = fat32_init (m_fat m);
       (_, fs) \<leftarrow> fat32_mount (hw_disk (be_hw E)) fs;
       Some (set_fat fs m)
     })) s;
     s \<leftarrow> with_step ''timezone'' (on_m (\<lambda>m. do {
       (z, fs) \<leftarrow> load_timezone (hw_disk (be_hw E)) (m_timezone m) (m_fat m);
       Some ((set_fat fs m)\<lparr>m_timezone := z\<rparr>)
     })) s;
     let (t, io) = rtc_get_local_time (hw_io (be_hw E)) (m_io (bs_m s));
     let s = s\<lparr>bs_m := (bs_m s)\<lparr>m_io := io\<rparr>\<rparr>;
     s \<leftarrow> b_puts ([10] @ ascii ''Time: '') s;
     buf \<leftarrow> itoa (ucast (tm_hour t)) (replicate 8 0) 10;
     s \<leftarrow> b_puts (cstr buf) s;
     s \<leftarrow> b_puts (ascii '':'') s;
     buf \<leftarrow> itoa (ucast (tm_min t)) buf 10;
     s \<leftarrow> b_puts (cstr buf) s;
     b_puts [10] s
   }"

definition boot_timer :: "('d, 'n, 'c) boot_env \<Rightarrow> ('d, 'n, 'c) boot_state \<Rightarrow> ('d, 'n, 'c) boot_state option" where
  "boot_timer E s =
     (let m = bs_m s;
          t = \<lparr>ticks = tick_count (k_tasks (m_kernel m)), timer_frequency = bs_frequency s, t_mouse = bs_mouse s, t_screen = m_screen m\<rparr>
      in map_option (\<lambda>(io, t). s\<lparr>bs_m := m\<lparr>m_io := io\<rparr>, bs_frequency := timer_frequency t\<rparr>) (timer_init (hw_io (be_hw E)) 100 (m_io m, t)))"

definition boot_gate :: "('d, 'n, 'c) boot_env \<Rightarrow> ('d, 'n, 'c) boot_state \<Rightarrow> ('d, 'n, 'c) boot_state option" where
  "boot_gate E s = Some (s\<lparr>bs_idt := idt_set_gate 0x80 (be_syscall_handler E) 0x08 0xEE (bs_idt s)\<rparr>)"

text \<open>The PCI bus and its drivers share the network stack, the memory and the interrupt table.\<close>

definition boot_pci :: "('d, 'n, 'c) boot_env \<Rightarrow> ('d, 'n, 'c) boot_state \<Rightarrow> ('d, 'n, 'c) boot_state option" where
  "boot_pci E s = do {
     let m = bs_m s;
     let p = \<lparr>pci_devices = bs_devices s,
       p_net = (m_net m)\<lparr>n_ticks := tick_count (k_tasks (m_kernel m)), n_console := []\<rparr>,
       p_mem = mem (m_vm m), p_idt = bs_idt s\<rparr>;
     p \<leftarrow> pci_enumerate (hw_net (be_hw E)) 257 p;
     p \<leftarrow> pci_register_drivers (hw_net (be_hw E)) (be_irq10_handler E) p;
     let m = set_vm_m ((m_vm m)\<lparr>mem := p_mem p\<rparr>) (m\<lparr>m_net := p_net p\<rparr>);
     Some (s\<lparr>bs_m := m_puts (n_console (p_net p)) m, bs_devices := pci_devices p, bs_idt := p_idt p\<rparr>)
   }"

definition boot_acpi :: "('d, 'n, 'c) boot_env \<Rightarrow> ('d, 'n, 'c) boot_state \<Rightarrow> ('d, 'n, 'c) boot_state option" where
  "boot_acpi E s = do {
     s \<leftarrow> boot_step ''acpi'' s;
     s \<leftarrow> on_m (\<lambda>m. map_option (\<lambda>p. m\<lparr>m_power := p\<rparr>) (acpi_init (vget (hw_owned (be_hw E)) (m_vm m)) (m_power m))) s;
     if acpi_is_available (m_power (bs_m s)) \<noteq> 0 then boot_ok s else b_puts (ascii ''[ WARN ]'' @ [10]) s
   }"

definition boot_net :: "('d, 'n, 'c) boot_state \<Rightarrow> ('d, 'n, 'c) boot_state option" where
  "boot_net = on_m (\<lambda>m. do {
     m \<leftarrow> on_net_unit (\<lambda>n. eth_init (mac_addr n) n) m;
     m \<leftarrow> on_net_unit (arp_init 0x0A01A8C0) m;
     on_net_unit (\<lambda>n. Some (ip_init 0x0A01A8C0 n)) m
   })"

definition boot_devices :: "('d, 'n, 'c) boot_env \<Rightarrow> ('d, 'n, 'c) boot_state \<Rightarrow> ('d, 'n, 'c) boot_state option" where
  "boot_devices E s = do {
     s \<leftarrow> with_step ''timer'' (boot_timer E) s;
     s \<leftarrow> with_step ''syscall'' (boot_gate E) s;
     s \<leftarrow> with_step ''pci'' (boot_pci E) s;
     s \<leftarrow> boot_acpi E s;
     s \<leftarrow> with_step ''net'' boot_net s;
     with_step ''mouse'' (on_m (\<lambda>m. map_option (\<lambda>io. m\<lparr>m_io := io\<rparr>) (mouse_init (hw_io (be_hw E)) (m_io m)))) s
   }"

text \<open>What the kernel task does when it is continued after the call of \<open>task_schedule\<close> in \<open>kernel_main\<close>.\<close>

definition kernel_task_goes_on :: "('d, 'n, 'c) boot_state \<Rightarrow> (boot_outcome \<times> ('d, 'n, 'c) boot_state) option" where
  "kernel_task_goes_on = boot_fail"

text \<open>The first task; \<open>kernel_main\<close> itself is the kernel task and goes on with \<open>boot_fail\<close> if no other task is found.\<close>

definition boot_tasks :: "('d, 'n, 'c) boot_env \<Rightarrow> ('d, 'n, 'c) boot_state \<Rightarrow> (boot_outcome \<times> ('d, 'n, 'c) boot_state) option" where
  "boot_tasks E s = do {
     s \<leftarrow> with_step ''tasks'' (on_m (\<lambda>m. Some (set_tasks (task_init (be_kernel_task E) (k_tasks (m_kernel m))) m))) s;
     s \<leftarrow> with_step ''interrupts'' (\<lambda>s. Some (s\<lparr>bs_if := True\<rparr>)) s;
     s \<leftarrow> b_puts ([10] @ ascii ''System ready.'' @ [10]) s;
     s \<leftarrow> b_puts (ascii ''Starting init process...'' @ [10, 10]) s;
     (_, t) \<leftarrow> task_create (be_task_exit E) (be_init_process E) (Some (ascii ''init'' @ [0])) (k_tasks (m_kernel (bs_m s)));
     (e, t) \<leftarrow> task_schedule t;
     let s = s\<lparr>bs_m := set_tasks t (bs_m s)\<rparr>;
     case e of
       Switch prev next \<Rightarrow> Some (Boot_Switch prev next, s)
     | Returns \<Rightarrow> kernel_task_goes_on s
   }"

section \<open>The whole\<close>

definition kernel_main :: "('d, 'n, 'c) boot_env \<Rightarrow> u32 \<Rightarrow> u32 \<Rightarrow> ('d, 'n, 'c) boot_state \<Rightarrow> (boot_outcome \<times> ('d, 'n, 'c) boot_state) option" where
  "kernel_main E magic mb_addr s =
     (if magic \<noteq> 0x2BADB002 then boot_fail s
      else do {
        let mbi = multiboot_of_bytes (ram_get mb_addr 112 (m_ram (mem (m_vm (bs_m s)))));
        s \<leftarrow> boot_screen mbi s;
        s \<leftarrow> boot_cpu E mbi s;
        (err, s) \<leftarrow> boot_disk E s;
        if err \<noteq> ATA_OK then do {
          s \<leftarrow> b_puts (ascii ''[FAIL] '') s;
          s \<leftarrow> b_puts (ascii (ata_error_str err)) s;
          s \<leftarrow> b_puts [10] s;
          boot_fail s
        }
        else do {
          s \<leftarrow> boot_ok s;
          s \<leftarrow> boot_files E s;
          s \<leftarrow> boot_devices E s;
          boot_tasks E s
        }
      })"

text \<open>The first task: it becomes the shell, or reports why not and stops.\<close>

definition init_process :: "('d, 'n, 'c) hardware \<Rightarrow> ('d, 'n, 'c) machine \<Rightarrow> (sys_outcome \<times> ('d, 'n, 'c) machine) option" where
  "init_process H m = do {
     let m = m_puts (ascii ''Init: starting shell'' @ [10]) m;
     (e, k) \<leftarrow> exec (hw_disk H) (ascii ''shell.elf'' @ [0]) (m_kernel m);
     let m = set_kernel k m;
     case e of
       Enter_User start stack \<Rightarrow> Some (Sys_Enter_User start stack, m)
     | Exec_Returns result \<Rightarrow> do {
         buf \<leftarrow> itoa (word_of_int result) (replicate 16 0) 10;
         Some (Sys_Stopped, m_puts [10] (m_puts (cstr buf) (m_puts (ascii ''Init: exec failed with code '') m)))
       }
   }"

end
