(* ===== verification/Boot_Run.thy ===== *)
theory Boot_Run
  imports Boot Shell_Lines
begin

text \<open>
  What the start leaves behind.  The text the steps print changes the screen only, so the lemmas follow the state with
  the screen blanked (\<open>blind\<close>); the groups of steps for the processor and for the tasks are shown to return.
\<close>

section \<open>Printing changes the screen only\<close>

abbreviation quiet :: "('d, 'n, 'c) boot_state \<Rightarrow> bool" where
  "quiet s \<equiv> console (m_fat (bs_m s)) = []"

definition set_screen :: "fb_term \<Rightarrow> ('d, 'n, 'c) boot_state \<Rightarrow> ('d, 'n, 'c) boot_state" where
  "set_screen t s = s\<lparr>bs_m := (bs_m s)\<lparr>m_screen := t\<rparr>\<rparr>"

definition blind :: "('d, 'n, 'c) boot_state \<Rightarrow> ('d, 'n, 'c) boot_state" where
  "blind = set_screen (term_boot (\<lambda>_. 0))"

abbreviation ascii_text :: "bytes \<Rightarrow> bool" where
  "ascii_text \<equiv> list_all (\<lambda>c. c < 128)"

lemma set_screen_twice [simp]: "set_screen t (set_screen u s) = set_screen t s" "blind (set_screen t s) = blind s"
    "set_screen t (blind s) = set_screen t s"
  by (simp_all add: set_screen_def blind_def)

lemma b_screen_eq: "b_screen f s = set_screen (f (m_screen (bs_m s))) s"
  by (simp add: b_screen_def set_screen_def)

lemma set_screen_if: "(if c then set_screen a s else set_screen b s) = set_screen (if c then a else b) s"
  by simp

lemma quiet_set_screen [simp]: "quiet (set_screen t s) = quiet s" "quiet (blind s) = quiet s"
  by (simp_all add: set_screen_def blind_def)

lemma b_puts_shown:
  assumes "quiet s" and "ascii_text txt"
  shows "\<exists>t. b_puts txt s = Some (set_screen t s)"
proof -
  obtain t where "draw_text txt (m_screen (bs_m s)) = Some t" using draw_text_ascii[OF assms(2)] by blast
  then show ?thesis using assms(1)
    by (intro exI[of _ t]) (simp add: b_puts_def on_m_def draw_console_def m_puts_def k_puts_def fat_puts_def set_fat_def set_screen_def)
qed

lemma boot_step_shown:
  assumes "quiet s" and "ascii_text (ascii name)"
  shows "\<exists>t. boot_step name s = Some (set_screen t s)"
proof -
  obtain t1 where 1: "b_puts (ascii ''-> '') s = Some (set_screen t1 s)"
    using b_puts_shown[OF assms(1), of "ascii ''-> ''"] by (auto simp: ascii_def)
  obtain t2 where 2: "b_puts (ascii name) (set_screen t1 s) = Some (set_screen t2 s)"
    using b_puts_shown[of "set_screen t1 s" "ascii name"] assms by auto
  have "ascii_text (replicate n 32)" for n by (simp add: list_all_iff)
  then obtain t3 where "b_puts (replicate (nat (30 - int (length name))) 32) (set_screen t2 s) = Some (set_screen t3 s)"
    using b_puts_shown[of "set_screen t2 s"] assms(1) by auto
  then show ?thesis using 1 2 by (simp add: boot_step_def) blast
qed

lemma boot_ok_shown:
  assumes "quiet s" shows "\<exists>t. boot_ok s = Some (set_screen t s)"
proof -
  obtain t1 where 1: "b_puts [] s = Some (set_screen t1 s)" using b_puts_shown[OF assms, of "[]"] by auto
  obtain t2 where 2: "b_puts (ascii ''[ OK ]'' @ [10]) (b_screen (term_set_color TERM_COLOR_OK) (set_screen t1 s)) = Some (set_screen t2 s)"
    using b_puts_shown[of "b_screen (term_set_color TERM_COLOR_OK) (set_screen t1 s)" "ascii ''[ OK ]'' @ [10]"] assms
    by (auto simp: b_screen_eq ascii_def)
  show ?thesis using 1 2 by (auto simp: boot_ok_def b_screen_eq)
qed

text \<open>\<open>boot_fail\<close> always ends in the halted processor with interrupts off.\<close>

lemma boot_fail_halts:
  assumes "quiet s" shows "\<exists>t. boot_fail s = Some (Boot_Halted, (set_screen t s)\<lparr>bs_if := False\<rparr>)"
proof -
  obtain t1 where 1: "b_puts [] s = Some (set_screen t1 s)" using b_puts_shown[OF assms, of "[]"] by auto
  obtain t2 where 2: "b_puts (ascii ''[ FAIL ]'' @ [10]) (b_screen (term_set_color TERM_COLOR_FAIL) (set_screen t1 s)) = Some (set_screen t2 s)"
    using b_puts_shown[of "b_screen (term_set_color TERM_COLOR_FAIL) (set_screen t1 s)" "ascii ''[ FAIL ]'' @ [10]"] assms
    by (auto simp: b_screen_eq ascii_def)
  obtain t3 where 3: "b_puts (ascii ''kernel panic: fatal error'' @ [10]) (b_screen term_reset_color (set_screen t2 s)) = Some (set_screen t3 s)"
    using b_puts_shown[of "b_screen term_reset_color (set_screen t2 s)" "ascii ''kernel panic: fatal error'' @ [10]"] assms
    by (auto simp: b_screen_eq ascii_def)
  show ?thesis using 1 2 3 by (auto simp: boot_fail_def)
qed

text \<open>A step, with the screen blanked before and after.\<close>

lemma with_step_blind:
  assumes "blind s = Y" and "quiet Y" and "ascii_text (ascii name)"
    and "\<And>t. \<exists>s2. f (set_screen t Y) = Some s2 \<and> blind s2 = X" and "quiet X"
  shows "\<exists>s'. with_step name f s = Some s' \<and> blind s' = X"
proof -
  have q: "quiet s" using assms(1,2) by auto
  obtain t where t: "boot_step name s = Some (set_screen t s)" using boot_step_shown[OF q assms(3)] by blast
  have "set_screen t s = set_screen t Y" using assms(1) by auto
  then obtain s2 where s2: "f (set_screen t s) = Some s2" "blind s2 = X" using assms(4)[of t] by auto
  have "quiet s2" using s2(2) assms(5) by auto
  then obtain u where "boot_ok s2 = Some (set_screen u s2)" using boot_ok_shown by blast
  then show ?thesis using t s2 by (simp add: with_step_def)
qed

lemma blind_fields:
  "bs_gdt (blind s) = bs_gdt s" "bs_tss (blind s) = bs_tss s" "bs_idt (blind s) = bs_idt s" "bs_if (blind s) = bs_if s"
  "m_kernel (bs_m (blind s)) = m_kernel (bs_m s)" "m_io (bs_m (blind s)) = m_io (bs_m s)"
  by (simp_all add: blind_def set_screen_def)

section \<open>The processor\<close>

lemma console_set_vm [simp]: "console (m_fat (set_vm_m v m)) = console (m_fat m)" "m_vm (set_vm_m v m) = v"
  by (simp_all add: set_vm_m_def set_kernel_def set_vm_def)

lemma boot_layout_heap: "boot_layout pd pt (v\<lparr>mem := memory_init n (mem v)\<rparr>) = boot_layout pd pt v"
  by (simp add: boot_layout_def memory_init_def set_word_def Let_def)

text \<open>The six steps, in terms of what each component's set-up yields.\<close>

definition heap_ready :: "multiboot_info \<Rightarrow> paging_state \<Rightarrow> paging_state" where
  "heap_ready mbi v = v\<lparr>mem := memory_init (boot_memory_size mbi) (mem v)\<rparr>"

lemma boot_cpu_runs:
  assumes "quiet s" and "gdt_init (bs_gdt s) = Some g1" and "tss_init (be_tss E) (be_stack_top E) g1 = Some (tss, g2)"
    and "paging_init (be_page_directory E) (be_page_tables E) (heap_ready mbi (m_vm (bs_m s))) = Some v2"
  shows "\<exists>s6. boot_cpu E mbi s = Some s6 \<and> bs_gdt s6 = g2 \<and> bs_tss s6 = tss \<and>
    bs_idt s6 = idt_init (be_isr E) (be_irq E) (bs_idt s) \<and> bs_if s6 = bs_if s \<and> m_vm (bs_m s6) = v2 \<and> quiet s6"
proof -
  let ?v1 = "heap_ready mbi (m_vm (bs_m s))"
  note g = assms(2,3) and v2 = assms(4)
  define idt where "idt = idt_init (be_isr E) (be_irq E) (bs_idt s)"
  define io where "io = pic_remap (hw_io (be_hw E)) (m_io (bs_m s))"
  define Y0 where "Y0 = blind s"
  define Y1 where "Y1 = Y0\<lparr>bs_gdt := g1\<rparr>"
  define Y2 where "Y2 = Y1\<lparr>bs_tss := tss, bs_gdt := g2\<rparr>"
  define Y3 where "Y3 = Y2\<lparr>bs_m := set_vm_m ?v1 (bs_m Y2)\<rparr>"
  define Y4 where "Y4 = Y3\<lparr>bs_m := set_vm_m v2 (bs_m Y3)\<rparr>"
  define Y5 where "Y5 = Y4\<lparr>bs_m := (bs_m Y4)\<lparr>m_io := io\<rparr>\<rparr>"
  define Y6 where "Y6 = Y5\<lparr>bs_idt := idt\<rparr>"
  note D = Y0_def Y1_def Y2_def Y3_def Y4_def Y5_def Y6_def
  note U = heap_ready_def blind_def set_screen_def on_m_def set_vm_m_def set_kernel_def set_vm_def
  have q: "quiet Y0" "quiet Y1" "quiet Y2" "quiet Y3" "quiet Y4" "quiet Y5" "quiet Y6"
    using assms(1) by (simp_all add: D)
  obtain s1 where s1: "with_step ''gdt'' boot_gdt s = Some s1" "blind s1 = Y1"
    using with_step_blind[of s Y0 "''gdt''" boot_gdt Y1] q g(1) by (auto simp: D ascii_def boot_gdt_def U)
  obtain s2 where s2: "with_step ''tss'' (boot_tss E) s1 = Some s2" "blind s2 = Y2"
    using with_step_blind[OF s1(2), of "''tss''" "boot_tss E" Y2] q g(2) by (auto simp: D ascii_def boot_tss_def U)
  obtain s3 where s3: "with_step ''memory'' (boot_heap mbi) s2 = Some s3" "blind s3 = Y3"
    using with_step_blind[OF s2(2), of "''memory''" "boot_heap mbi" Y3] q by (auto simp: D ascii_def boot_heap_def heap_ready_def U)
  obtain s4 where s4: "with_step ''paging'' (boot_paging_on E) s3 = Some s4" "blind s4 = Y4"
    using with_step_blind[OF s3(2), of "''paging''" "boot_paging_on E" Y4] q v2 by (auto simp: D ascii_def boot_paging_on_def U)
  obtain s5 where s5: "with_step ''pic'' (on_m (\<lambda>m. Some (m\<lparr>m_io := pic_remap (hw_io (be_hw E)) (m_io m)\<rparr>))) s4 = Some s5" "blind s5 = Y5"
    using with_step_blind[OF s4(2), of "''pic''" "on_m (\<lambda>m. Some (m\<lparr>m_io := pic_remap (hw_io (be_hw E)) (m_io m)\<rparr>))" Y5] q
    by (auto simp: D ascii_def io_def U)
  obtain s6 where s6: "with_step ''idt'' (\<lambda>s. Some (s\<lparr>bs_idt := idt_init (be_isr E) (be_irq E) (bs_idt s)\<rparr>)) s5 = Some s6" "blind s6 = Y6"
    using with_step_blind[OF s5(2), of "''idt''" "\<lambda>s. Some (s\<lparr>bs_idt := idt_init (be_isr E) (be_irq E) (bs_idt s)\<rparr>)" Y6] q
    by (auto simp: D ascii_def idt_def U)
  have f: "bs_gdt s6 = g2" "bs_tss s6 = tss" "bs_idt s6 = idt" "bs_if s6 = bs_if s" "m_vm (bs_m s6) = v2" "quiet s6"
    using blind_fields[of s6, unfolded s6(2), symmetric] quiet_set_screen(2)[of s6, unfolded s6(2)] q(7) by (simp_all add: D U)
  have "boot_cpu E mbi s = Some s6" using s1 s2 s3 s4 s5 s6 by (simp add: boot_cpu_def)
  with f show ?thesis by (auto simp: idt_def)
qed


section \<open>The first task\<close>

lemma b_puts_blind:
  assumes "blind s = Y" and "quiet Y" and "ascii_text txt"
  shows "\<exists>s'. b_puts txt s = Some s' \<and> blind s' = Y"
proof -
  have "quiet s" using assms(1,2) by auto
  then obtain t where "b_puts txt s = Some (set_screen t s)" using b_puts_shown[OF _ assms(3)] by blast
  then show ?thesis using assms(1) by simp
qed

lemma ring_of_two: "set ys = {a, b} \<Longrightarrow> distinct ys \<Longrightarrow> hd ys = a \<Longrightarrow> a \<noteq> b \<Longrightarrow> ys = [a, b]"
proof -
  assume a: "set ys = {a, b}" "distinct ys" "hd ys = a" "a \<noteq> b"
  then obtain zs where ys: "ys = a # zs" by (cases ys) auto
  with a have "set zs = {b}" "distinct zs" by auto
  then have "length zs = 1" using distinct_card[of zs] by simp
  then have "zs = [b]" using \<open>set zs = {b}\<close> by (cases zs) auto
  then show "ys = [a, b]" using ys by simp
qed

lemma boot_tasks_result:
  assumes "quiet s" and "k_tasks (m_kernel (bs_m s)) = t0" and "tasks t0 = Map.empty" and "0 < next_pid t0" and "next_pid t0 < INT_MAX"
    and "be_kernel_task E \<noteq> 0" and "unat (be_kernel_task E) + 64 \<le> brk_of (vm t0)" and "brk_of (vm t0) + 4160 < 2 ^ 32"
    and "current_context (vm t0) = kernel_page_context (vm t0)"
  shows "\<exists>t s' t1 k. quiet s' \<and> running (tasks t1) (be_kernel_task E) \<and> t \<noteq> be_kernel_task E \<and> boot_tasks E s = Some (Boot_Switch (be_kernel_task E) t, s') \<and> bs_if s' \<and> k_tasks (m_kernel (bs_m s')) = t1 \<and>
    sched_ok t1 [t, be_kernel_task E] \<and> t_current t1 = t \<and> tasks t1 t = Some k \<and> t_state k = TASK_RUNNING \<and>
    t_pid k = next_pid t0 \<and> t_eip k = be_init_process E \<and> peek (t_esp k) (vm t1) = be_task_exit E"
proof -
  let ?kt = "be_kernel_task E"
  define ti where "ti = task_init ?kt t0"
  have vm: "vm ti = vm t0" "next_pid ti = next_pid t0" "t_current ti = ?kt" by (simp_all add: ti_def task_init_def)
  have ok0: "sched_ok ti [?kt]" unfolding ti_def by (rule task_init_ok) (use assms in auto)
  define Y0 where "Y0 = blind s"
  define Y1 where "Y1 = Y0\<lparr>bs_m := set_tasks ti (bs_m Y0)\<rparr>"
  define Y2 where "Y2 = Y1\<lparr>bs_if := True\<rparr>"
  note D = Y0_def Y1_def Y2_def
  note U = blind_def set_screen_def on_m_def set_tasks_def
  have q: "quiet Y0" "quiet Y1" "quiet Y2" using assms(1) by (simp_all add: D set_tasks_def)
  obtain s1 where s1: "with_step ''tasks'' (on_m (\<lambda>m. Some (set_tasks (task_init ?kt (k_tasks (m_kernel m))) m))) s = Some s1" "blind s1 = Y1"
    using with_step_blind[of s Y0 "''tasks''" "on_m (\<lambda>m. Some (set_tasks (task_init ?kt (k_tasks (m_kernel m))) m))" Y1] q assms(2)
    by (auto simp: D ascii_def ti_def U)
  obtain s2 where s2: "with_step ''interrupts'' (\<lambda>s. Some (s\<lparr>bs_if := True\<rparr>)) s1 = Some s2" "blind s2 = Y2"
    using with_step_blind[OF s1(2), of "''interrupts''" "\<lambda>s. Some (s\<lparr>bs_if := True\<rparr>)" Y2] q by (auto simp: D ascii_def U)
  obtain s3 where s3: "b_puts ([10] @ ascii ''System ready.'' @ [10]) s2 = Some s3" "blind s3 = Y2"
    using b_puts_blind[OF s2(2) q(3), of "[10] @ ascii ''System ready.'' @ [10]"] by (auto simp: ascii_def)
  obtain s4 where s4: "b_puts (ascii ''Starting init process...'' @ [10, 10]) s3 = Some s4" "blind s4 = Y2"
    using b_puts_blind[OF s3(2) q(3), of "ascii ''Starting init process...'' @ [10, 10]"] by (auto simp: ascii_def)
  have f: "k_tasks (m_kernel (bs_m s4)) = ti" "bs_if s4"
    using blind_fields[of s4, unfolded s4(2), symmetric] by (simp_all add: D U)
  obtain t tc ys k where c: "task_create (be_task_exit E) (be_init_process E) (Some (ascii ''init'' @ [0])) ti = Some (t, tc)"
    "sched_ok tc ys" "set ys = insert t (set [?kt])" "t \<notin> set [?kt]" "tasks tc t = Some k" "t_state k = TASK_RUNNING"
    "t_pid k = next_pid ti" "t_eip k = be_init_process E" "peek (t_esp k) (vm tc) = be_task_exit E" "t_current tc = t_current ti"
    "map_option t_state (tasks tc ?kt) = map_option t_state (tasks ti ?kt)"
    by (rule task_create_result[OF ok0, where name = "Some (ascii ''init'' @ [0])"]) (use assms vm in auto)
  have tok: "tasks_ok tc ys" using c(2) by (simp add: sched_ok_def)
  have ys: "ys = [?kt, t]"
    using tok c(3,4,10) vm(3) by (intro ring_of_two) (auto simp: tasks_ok_def tour_def)
  have run: "running (tasks tc) t" using c(5,6) by (simp add: running_def)
  have nx: "next_task (tick_count tc) (tasks tc) (rotate1 ys) = Some t" using run by (simp add: next_task_def ys)
  have "t \<noteq> t_current tc" using c(4,10) vm(3) by auto
  with task_schedule_round[OF tok] nx obtain h where h: "task_schedule tc = Some (Switch (t_current tc) t, tc\<lparr>tasks := h, t_current := t\<rparr>)"
    "woken (tick_count tc) (tasks tc) h" "running h t" by auto
  let ?t1 = "tc\<lparr>tasks := h, t_current := t\<rparr>"
  obtain n where "tasks_ok ?t1 (rotate (Suc n) ys)" "rotate1 ys ! n = t" "n < length ys"
    using tasks_ok_schedule[OF tok _ h(2), of t] by (metis c(3) insertI1)
  moreover have "n = 0" using calculation(2,3) c(4) by (cases n) (auto simp: ys)
  ultimately have "sched_ok ?t1 [t, ?kt]" using h(3) by (simp add: sched_ok_def ys)
  moreover have "h t = Some k" using woken_keeps[OF h(2) c(5)] c(6) by simp
  moreover have "boot_tasks E s = Some (Boot_Switch ?kt t, s4\<lparr>bs_m := set_tasks ?t1 (bs_m s4)\<rparr>)"
    using s1 s2 s3 s4 f c(1,10) h(1) vm(3) by (simp add: boot_tasks_def)
  moreover have "running h ?kt"
    using c(11) vm(3) ok0 running_woken[OF h(2), of ?kt] by (auto simp: sched_ok_def running_def)
  moreover have "quiet s4" using quiet_set_screen(2)[of s4, unfolded s4(2)] q(3) by simp
  ultimately show ?thesis
    using f(2) c(4,6-9) vm(2)
    by (intro exI[of _ t] exI[of _ "s4\<lparr>bs_m := set_tasks ?t1 (bs_m s4)\<rparr>"] exI[of _ ?t1] exI[of _ k]) (simp add: set_tasks_def)
qed

text \<open>C19. The end of the start: with room on the heap for one task, \<open>kernel_main\<close> turns interrupts on and ends by
  switching from the kernel task to the new task, never in its own failure; then the scheduler's ring is the new task and
  the kernel task, and the new task is running, is to begin in \<open>init_process\<close> and returns to \<open>task_exit\<close>.\<close>

theorem boot_starts_init:
  assumes "quiet s" and "k_tasks (m_kernel (bs_m s)) = t0" and "tasks t0 = Map.empty" and "0 < next_pid t0" and "next_pid t0 < INT_MAX"
    and "be_kernel_task E \<noteq> 0" and "unat (be_kernel_task E) + 64 \<le> brk_of (vm t0)" and "brk_of (vm t0) + 4160 < 2 ^ 32"
    and "current_context (vm t0) = kernel_page_context (vm t0)"
  shows "\<exists>t s' t1 k. boot_tasks E s = Some (Boot_Switch (be_kernel_task E) t, s') \<and> bs_if s' \<and> k_tasks (m_kernel (bs_m s')) = t1 \<and>
    sched_ok t1 [t, be_kernel_task E] \<and> t_current t1 = t \<and> tasks t1 t = Some k \<and> t_state k = TASK_RUNNING \<and>
    t_pid k = next_pid t0 \<and> t_eip k = be_init_process E \<and> peek (t_esp k) (vm t1) = be_task_exit E"
  using boot_tasks_result[OF assms] by blast

section \<open>Giving up the processor\<close>

text \<open>In a ring of two of which the other one can run, every way of giving up the processor goes to the other one.\<close>

lemma tasks_ok_tick: "tasks_ok (s\<lparr>tick_count := now\<rparr>) xs = tasks_ok s xs"
  by (simp add: tasks_ok_def)

lemma pause_goes_to_other:
  assumes ok: "tasks_ok s [t, u]" and u: "running (tasks s) u" and ne: "t \<noteq> u"
    and op: "op \<in> {task_sleep ms, task_exit, task_schedule}"
  shows "\<exists>s'. op (s\<lparr>tick_count := now\<rparr>) = Some (Switch t u, s')"
proof -
  have cur: "t_current s = t" using ok by (simp add: tasks_ok_def tour_def)
  obtain k where k: "tasks s t = Some k" using ok cur by (auto simp: tasks_ok_def tour_def)
  have go: "\<exists>s'. task_schedule (s\<lparr>tick_count := now, tasks := (tasks s)(t \<mapsto> k')\<rparr>) = Some (Switch t u, s')"
    if l: "t_next k' = t_next k" "t_pid k' = t_pid k" "t_ctx k' = t_ctx k" for k'
  proof -
    let ?s = "s\<lparr>tick_count := now, tasks := (tasks s)(t \<mapsto> k')\<rparr>"
    have "same_links (tasks s) ((tasks s)(t \<mapsto> k'))" by (rule same_links_upd[where h = "tasks s" and x = t, OF k l(2,3,1)])
    then have "tasks_ok ?s [t, u]" using ok tasks_ok_links[of "s\<lparr>tick_count := now\<rparr>" "[t, u]"] by (simp add: tasks_ok_tick)
    moreover have "running (tasks ?s) u" using u ne by (simp add: running_def)
    ultimately show ?thesis using task_schedule_round[of ?s "[t, u]"] ne cur by (auto simp: next_task_def)
  qed
  have "s\<lparr>tick_count := now, tasks := (tasks s)(t \<mapsto> k)\<rparr> = s\<lparr>tick_count := now\<rparr>" using k by (simp add: fun_upd_idem)
  with go[of k] have a: "\<exists>s'. task_schedule (s\<lparr>tick_count := now\<rparr>) = Some (Switch t u, s')" by simp
  have b: "\<exists>s'. task_sleep ms (s\<lparr>tick_count := now\<rparr>) = Some (Switch t u, s')"
    using go[of "k\<lparr>t_state := TASK_SLEEPING, t_wakeup := now + ms\<rparr>"] k cur by (simp add: task_sleep_def task_current_def)
  have c: "\<exists>s'. task_exit (s\<lparr>tick_count := now\<rparr>) = Some (Switch t u, s')"
    using go[of "k\<lparr>t_state := TASK_ZOMBIE\<rparr>"] k cur by (auto simp: task_exit_def task_current_def)
  show ?thesis using op a b c by auto
qed


text \<open>The machine of the earlier examples before its start.\<close>

definition demo_env :: "(ata_dev, sim_card, cmos_dev) boot_env" where
  "demo_env = \<lparr>be_hw = demo_hw, be_ata = pio_drive, be_isr = (\<lambda>n. 0x100000), be_irq = (\<lambda>n. 0x100800), be_irq10_handler = 0x100900,
     be_syscall_handler = 0x101000, be_tss = 0x300000, be_stack_top = 0x310000, be_page_directory = 0x200000,
     be_page_tables = 0x201000, be_kernel_task = 0x180000, be_task_exit = 0x102000, be_init_process = 0x103000\<rparr>"

definition demo_boot :: "(ata_dev, sim_card, cmos_dev) boot_state" where
  "demo_boot = \<lparr>bs_m = set_tasks (demo_tasks\<lparr>tasks := Map.empty\<rparr>) demo_machine, bs_gdt = replicate 6 zero_descriptor, bs_tss = zero_tss,
     bs_idt = replicate 256 (gate 0 0 0), bs_devices = [], bs_frequency = 0, bs_mouse = mouse_boot, bs_if = False\<rparr>"

lemma demo_boot_facts:
  "quiet demo_boot" "k_tasks (m_kernel (bs_m demo_boot)) = demo_tasks\<lparr>tasks := Map.empty\<rparr>"
  using demo_console by (simp_all add: demo_boot_def set_tasks_def demo_tasks_def)


theorem boot_starts_init_witness:
  "\<exists>t s'. boot_tasks demo_env demo_boot = Some (Boot_Switch 0x180000 t, s') \<and> bs_if s' \<and>
    sched_ok (k_tasks (m_kernel (bs_m s'))) [t, 0x180000]"
  using boot_starts_init[OF demo_boot_facts(1) demo_boot_facts(2), of demo_env]
  by (auto simp: demo_env_def demo_tasks_def boot_paging_def boot_memory_def INT_MAX_def)


section \<open>Starts that fail\<close>

text \<open>Without the boot loader's mark, or if the drive does not identify itself, \<open>kernel_main\<close> ends in the halted
  processor with interrupts off, and no task is started.\<close>

theorem boot_halts:
  assumes "quiet s" and "bs_gdt s = replicate 6 zero_descriptor" and "length (bs_idt s) = 256"
    and "boot_layout (be_page_directory E) (be_page_tables E) (m_vm (bs_m s))"
    and "magic \<noteq> 0x2BADB002 \<or> (\<forall>d. fst (ata_identify (be_ata E) d) \<noteq> ATA_OK)"
  shows "\<exists>s'. kernel_main E magic mb_addr s = Some (Boot_Halted, s') \<and> \<not> bs_if s'"
proof (cases "magic = 0x2BADB002")
  case False
  then show ?thesis using boot_fail_halts[OF assms(1)] by (auto simp: kernel_main_def set_screen_def)
next
  case True
  define mbi where "mbi = multiboot_of_bytes (ram_get mb_addr 112 (m_ram (mem (m_vm (bs_m s)))))"
  obtain u where u: "boot_screen mbi s = b_puts (ascii ''QuantumKernel booting...'' @ [10, 10]) (set_screen u s)"
    unfolding boot_screen_def Let_def b_screen_eq set_screen_if by blast
  have "ascii_text (ascii ''QuantumKernel booting...'' @ [10, 10])" by (simp add: ascii_def)
  moreover have "quiet (set_screen u s)" using assms(1) by simp
  ultimately obtain v where v: "boot_screen mbi s = Some (set_screen v s)"
    using b_puts_shown[of "set_screen u s" "ascii ''QuantumKernel booting...'' @ [10, 10]"] unfolding u set_screen_twice by blast
  have "quiet (set_screen v s)" "bs_gdt (set_screen v s) = replicate 6 zero_descriptor" "length (bs_idt (set_screen v s)) = 256"
      "boot_layout (be_page_directory E) (be_page_tables E) (m_vm (bs_m (set_screen v s)))"
    using assms(1-4) by (simp_all add: set_screen_def)
  note q = this
  obtain g1 tss g2 where g: "gdt_init (bs_gdt (set_screen v s)) = Some g1" "tss_init (be_tss E) (be_stack_top E) g1 = Some (tss, g2)"
    using gdt_segments[of "be_tss E" "be_stack_top E"] q(2) by auto
  have "boot_layout (be_page_directory E) (be_page_tables E) (heap_ready mbi (m_vm (bs_m (set_screen v s))))"
    using q(4) by (simp add: boot_layout_heap heap_ready_def)
  from paging_init_facts[OF this] obtain v2 where
    "paging_init (be_page_directory E) (be_page_tables E) (heap_ready mbi (m_vm (bs_m (set_screen v s)))) = Some v2" by blast
  from boot_cpu_runs[OF q(1) g this] obtain s1 where s1: "boot_cpu E mbi (set_screen v s) = Some s1" "quiet s1" by blast
  obtain s2 where s2: "boot_step ''ata'' s1 = Some (set_screen s2 s1)"
    using boot_step_shown[OF s1(2), of "''ata''"] by (auto simp: ascii_def)
  let ?i = "ata_identify (be_ata E) (ata_init (be_ata E) (disk (m_fat (bs_m s1))))"
  define s3 where "s3 = (set_screen s2 s1)\<lparr>bs_m := set_fat ((m_fat (bs_m s1))\<lparr>disk := snd ?i\<rparr>) (bs_m (set_screen s2 s1))\<rparr>"
  have d: "boot_disk E s1 = Some (fst ?i, s3)"
    by (simp add: boot_disk_def s2 s3_def Let_def case_prod_beta) (simp add: set_screen_def)
  have q3: "quiet s3" using s1(2) by (simp add: s3_def set_fat_def)
  have e: "ascii_text (ascii (ata_error_str x))" for x by (cases x) (simp_all add: ascii_def)
  obtain t1 where t1: "b_puts (ascii ''[FAIL] '') s3 = Some (set_screen t1 s3)"
    using b_puts_shown[OF q3, of "ascii ''[FAIL] ''"] by (auto simp: ascii_def)
  obtain t2 where t2: "b_puts (ascii (ata_error_str (fst ?i))) (set_screen t1 s3) = Some (set_screen t2 s3)"
    using b_puts_shown[OF _ e, of "set_screen t1 s3"] q3 by auto
  obtain t3 where t3: "b_puts [10] (set_screen t2 s3) = Some (set_screen t3 s3)"
    using b_puts_shown[of "set_screen t2 s3" "[10]"] q3 by auto
  have "quiet (set_screen t3 s3)" using q3 by simp
  then obtain t4 where t4: "boot_fail (set_screen t3 s3) = Some (Boot_Halted, (set_screen t4 (set_screen t3 s3))\<lparr>bs_if := False\<rparr>)"
    using boot_fail_halts by blast
  have "fst ?i \<noteq> ATA_OK" using assms(5) True by auto
  then show ?thesis using True v s1(1) d t1 t2 t3 t4 by (simp add: kernel_main_def mbi_def[symmetric])
qed

text \<open>A drive that is busy for ever.\<close>

lemma busy_drive: "fst (ata_identify (pio_drive\<lparr>inb := (\<lambda>p v. (0x80, v))\<rparr>) d) \<noteq> ATA_OK"
proof -
  have "fst (ata_wait_busy_loop (pio_drive\<lparr>inb := (\<lambda>p v. (0x80, v))\<rparr>) n d) = ATA_ERR_TIMEOUT" for n d
    by (induction n) simp_all
  then show ?thesis by (simp add: ata_identify_def ata_wait_busy_def case_prod_beta Let_def)
qed

theorem boot_halts_witness:
  "\<exists>s'. kernel_main (demo_env\<lparr>be_ata := pio_drive\<lparr>inb := (\<lambda>p v. (0x80, v))\<rparr>\<rparr>) 0x2BADB002 0x9000 demo_boot = Some (Boot_Halted, s') \<and> \<not> bs_if s'"
proof -
  let ?E = "demo_env\<lparr>be_ata := pio_drive\<lparr>inb := (\<lambda>p v. (0x80, v))\<rparr>\<rparr>"
  have "boot_layout (be_page_directory ?E) (be_page_tables ?E) (m_vm (bs_m demo_boot))"
    using boot_layout_example[of ucast] by (simp add: demo_env_def demo_boot_def set_tasks_def demo_tasks_def)
  moreover have "bs_gdt demo_boot = replicate 6 zero_descriptor" "length (bs_idt demo_boot) = 256"
    by (simp_all only: demo_boot_def boot_state.simps length_replicate)
  ultimately show ?thesis
    using boot_halts[OF demo_boot_facts(1), of ?E "0x2BADB002" "0x9000"] busy_drive by simp
qed

end
